(* ===== verification/JS_Prelude.thy ===== *)
theory JS_Prelude
  imports Main "HOL-Library.Multiset" "HOL-Library.Sublist"
begin

text \<open>
  Shared ground of the development: the pieces of JavaScript that the modelled
  TypeScript uses (nullish values, strings, insertion-ordered \<^verbatim>\<open>Set\<close> and
  \<^verbatim>\<open>Map\<close>, stable \<^verbatim>\<open>toSorted\<close>), the generic lemmas about them, the
  collections of simplification facts that the component theories extend, and
  the locales for transition systems and for size-bounded stores.

  A JavaScript string is a list of characters. Isabelle characters are the code
  units below 256, so a string of the model is a Latin-1 string of the program;
  \<open>js_trim\<close> removes exactly the white space code units of that range. The values
  \<^verbatim>\<open>undefined\<close> and \<^verbatim>\<open>null\<close> of an optional field are \<open>None\<close>.
\<close>

named_theorems js_defs \<open>definitions of JavaScript library operations\<close>
named_theorems gate_defs \<open>constructors of the gates of the ingress graph\<close>

section \<open>Nullish values\<close>

definition coalesce :: "'a option \<Rightarrow> 'a \<Rightarrow> 'a" where
  "coalesce a b = (case a of None \<Rightarrow> b | Some x \<Rightarrow> x)"

lemma coalesce_simps [simp]: "coalesce None b = b" "coalesce (Some x) b = x"
  by (simp_all add: coalesce_def)

definition coalesce2 :: "'a option \<Rightarrow> 'a option \<Rightarrow> 'a option" where
  "coalesce2 a b = (case a of None \<Rightarrow> b | Some x \<Rightarrow> Some x)"

lemma coalesce2_simps [simp]: "coalesce2 None b = b" "coalesce2 (Some x) b = Some x"
  by (simp_all add: coalesce2_def)

section \<open>Promises\<close>

text \<open>How an awaited call of code outside the model ends.\<close>

datatype 'a settled = Fulfilled 'a | Rejected

section \<open>Strings\<close>

text \<open>A string that is used only when truthy: the empty string counts as absent.\<close>

definition nonempty_string :: "string option \<Rightarrow> string option" where
  "nonempty_string s = (if s = Some [] then None else s)"

lemma nonempty_string_Some [simp]: "nonempty_string s = Some x \<longleftrightarrow> s = Some x \<and> x \<noteq> []"
  by (auto simp: nonempty_string_def)

definition js_white_space :: "char \<Rightarrow> bool" where
  "js_white_space c \<longleftrightarrow> (of_char c :: nat) \<in> {9, 10, 11, 12, 13, 32, 160}"

definition js_trim :: "string \<Rightarrow> string" where
  "js_trim s = rev (dropWhile js_white_space (rev (dropWhile js_white_space s)))"

definition js_startsWith :: "string \<Rightarrow> string \<Rightarrow> bool" where
  "js_startsWith s p \<longleftrightarrow> take (length p) s = p"

definition js_endsWith :: "string \<Rightarrow> string \<Rightarrow> bool" where
  "js_endsWith s p \<longleftrightarrow> length p \<le> length s \<and> drop (length s - length p) s = p"

definition js_lower_char :: "char \<Rightarrow> char" where
  "js_lower_char c = (let n = (of_char c :: nat) in
     if 65 \<le> n \<and> n \<le> 90 \<or> 192 \<le> n \<and> n \<le> 222 \<and> n \<noteq> 215 then char_of (n + 32) else c)"

definition js_toLowerCase :: "string \<Rightarrow> string" where
  "js_toLowerCase s = map js_lower_char s"

fun decimal_digits :: "nat \<Rightarrow> string" where
  "decimal_digits n =
     (if n < 10 then [char_of (48 + n)] else decimal_digits (n div 10) @ [char_of (48 + n mod 10)])"

declare decimal_digits.simps [simp del]

definition js_string_of_int :: "int \<Rightarrow> string" where
  "js_string_of_int i =
     (if i < 0 then ''-'' @ decimal_digits (nat (- i)) else decimal_digits (nat i))"

lemma dropWhile_idem [simp]: "dropWhile P (dropWhile P xs) = dropWhile P xs"
  by (induction xs) auto

lemma js_trim_Nil [simp]: "js_trim [] = []"
  by (simp add: js_trim_def)

lemma dropWhile_head: "xs = [] \<or> \<not> P (hd xs) \<Longrightarrow> dropWhile P xs = xs"
  by (cases xs) auto

lemma js_trim_hd: "js_trim s \<noteq> [] \<Longrightarrow> \<not> js_white_space (hd (js_trim s))"
proof -
  assume ne: "js_trim s \<noteq> []"
  define t where "t = dropWhile js_white_space s"
  have pre: "prefix (js_trim s) t"
    by (metis js_trim_def rev_rev_ident suffix_dropWhile suffix_to_prefix t_def)
  then obtain u where "t = js_trim s @ u" by (auto simp: prefix_def)
  with ne have "hd t = hd (js_trim s)" and "t \<noteq> []" by auto
  then show ?thesis by (metis hd_dropWhile t_def)
qed

lemma js_trim_idem [simp]: "js_trim (js_trim s) = js_trim s"
proof -
  have 1: "dropWhile js_white_space (js_trim s) = js_trim s"
    using js_trim_hd [of s] by (intro dropWhile_head) blast
  have 2: "dropWhile js_white_space (rev (js_trim s)) = rev (js_trim s)"
    by (simp add: js_trim_def)
  show ?thesis by (simp add: js_trim_def [of "js_trim s"] 1 2)
qed

lemma js_startsWith_append [simp]: "js_startsWith (p @ s) p"
  by (simp add: js_startsWith_def)

section \<open>Insertion-ordered sets\<close>

text \<open>\<^verbatim>\<open>new Set(values)\<close> spread back into an array keeps the first occurrence of
  every value, in order.\<close>

definition set_add :: "'a list \<Rightarrow> 'a \<Rightarrow> 'a list" where
  "set_add s x = (if x \<in> set s then s else s @ [x])"

definition js_set :: "'a list \<Rightarrow> 'a list" where
  "js_set xs = foldl set_add [] xs"

lemma set_set_add [simp]: "set (set_add s x) = insert x (set s)"
  by (auto simp: set_add_def)

lemma distinct_set_add [simp]: "distinct s \<Longrightarrow> distinct (set_add s x)"
  by (auto simp: set_add_def)

lemma set_foldl_set_add: "set (foldl set_add s xs) = set s \<union> set xs"
  by (induction xs arbitrary: s) auto

lemma distinct_foldl_set_add: "distinct s \<Longrightarrow> distinct (foldl set_add s xs)"
  by (induction xs arbitrary: s) auto

lemma foldl_set_add_distinct:
  "distinct xs \<Longrightarrow> set s \<inter> set xs = {} \<Longrightarrow> foldl set_add s xs = s @ xs"
  by (induction xs arbitrary: s) (auto simp: set_add_def)

lemma set_js_set [simp]: "set (js_set xs) = set xs"
  by (simp add: js_set_def set_foldl_set_add)

lemma distinct_js_set [simp]: "distinct (js_set xs)"
  by (simp add: js_set_def distinct_foldl_set_add)

lemma js_set_distinct: "distinct xs \<Longrightarrow> js_set xs = xs"
  by (simp add: js_set_def foldl_set_add_distinct)

lemma js_set_Nil_iff [simp]: "js_set xs = [] \<longleftrightarrow> xs = []"
  by (metis set_js_set set_empty)

lemma js_set_idem [simp]: "js_set (js_set xs) = js_set xs"
  by (rule js_set_distinct) simp

section \<open>Insertion-ordered maps\<close>

text \<open>A \<^verbatim>\<open>Map\<close> is the list of its entries in iteration order: \<^verbatim>\<open>set\<close> on a
  present key overwrites in place, on an absent key appends.\<close>

type_synonym ('k, 'v) jsmap = "('k \<times> 'v) list"

definition map_get :: "('k, 'v) jsmap \<Rightarrow> 'k \<Rightarrow> 'v option" where
  "map_get m k = map_of m k"

definition map_has :: "('k, 'v) jsmap \<Rightarrow> 'k \<Rightarrow> bool" where
  "map_has m k \<longleftrightarrow> k \<in> fst ` set m"

definition map_put :: "'k \<Rightarrow> 'v \<Rightarrow> ('k, 'v) jsmap \<Rightarrow> ('k, 'v) jsmap" where
  "map_put k v m =
     (if k \<in> fst ` set m then map (\<lambda>(k', v'). if k' = k then (k', v) else (k', v')) m
      else m @ [(k, v)])"

definition map_del :: "'k \<Rightarrow> ('k, 'v) jsmap \<Rightarrow> ('k, 'v) jsmap" where
  "map_del k m = filter (\<lambda>e. fst e \<noteq> k) m"

definition map_ok :: "('k, 'v) jsmap \<Rightarrow> bool" where
  "map_ok m \<longleftrightarrow> distinct (map fst m)"

lemma map_ok_Nil [simp]: "map_ok []"
  by (simp add: map_ok_def)

lemma keys_map_put: "map fst (map_put k v m) = (if k \<in> fst ` set m then map fst m else map fst m @ [k])"
  by (auto simp: map_put_def comp_def split_beta intro!: map_cong)

lemma keys_put_set: "fst ` set (map_put k v m) = insert k (fst ` set m)"
proof -
  have "fst ` set (map_put k v m) = set (map fst (map_put k v m))" by simp
  also have "\<dots> = insert k (fst ` set m)" unfolding keys_map_put by auto
  finally show ?thesis .
qed

lemma map_ok_put [simp]: "map_ok m \<Longrightarrow> map_ok (map_put k v m)"
  by (auto simp: map_ok_def keys_map_put image_def)

lemma map_ok_filter [simp]: "map_ok m \<Longrightarrow> map_ok (filter P m)"
  by (auto simp: map_ok_def distinct_map_filter)

lemma map_ok_del [simp]: "map_ok m \<Longrightarrow> map_ok (map_del k m)"
  by (simp add: map_del_def)

lemma map_of_update_value:
  "map_of (map (\<lambda>(k', v'). if k' = k then (k', v) else (k', v')) m) j =
     (if j = k then (if k \<in> fst ` set m then Some v else None) else map_of m j)"
  by (induction m) (force split: if_splits)+

lemma map_get_put [simp]: "map_get (map_put k v m) j = (if j = k then Some v else map_get m j)"
proof (cases "k \<in> fst ` set m")
  case True
  then show ?thesis by (simp add: map_get_def map_put_def map_of_update_value)
next
  case False
  then have "map_of m k = None" by (simp add: map_of_eq_None_iff)
  with False show ?thesis
    by (simp add: map_get_def map_put_def map_add_def split: option.splits)
qed

lemma map_get_del [simp]: "map_get (map_del k m) j = (if j = k then None else map_get m j)"
  by (induction m) (auto simp: map_get_def map_del_def)

lemma map_get_Nil [simp]: "map_get [] k = None"
  by (simp add: map_get_def)

lemma length_map_put: "length (map_put k v m) = (if k \<in> fst ` set m then length m else Suc (length m))"
  by (simp add: map_put_def)

lemma length_map_del_le: "length (map_del k m) \<le> length m"
  by (simp add: map_del_def)

lemma map_del_shorter: "(k, e) \<in> set m \<Longrightarrow> length (map_del k m) < length m"
  unfolding map_del_def by (rule length_filter_less) auto

lemma map_get_None_iff: "map_get m k = None \<longleftrightarrow> k \<notin> fst ` set m"
  by (simp add: map_get_def map_of_eq_None_iff)

lemma map_get_Some_in: "map_get m k = Some v \<Longrightarrow> (k, v) \<in> set m"
  by (simp add: map_get_def map_of_SomeD)

lemma map_get_in_ok: "map_ok m \<Longrightarrow> (k, v) \<in> set m \<Longrightarrow> map_get m k = Some v"
  by (simp add: map_ok_def map_get_def)

lemma length_map_put_present: "map_get m k = Some v \<Longrightarrow> length (map_put k w m) = length m"
  by (auto simp: length_map_put dest!: map_get_Some_in intro: rev_image_eqI)

lemma map_get_filter:
  "map_ok m \<Longrightarrow> map_get (filter P m) k = Option.bind (map_get m k) (\<lambda>v. if P (k, v) then Some v else None)"
proof (induction m)
  case (Cons x m)
  obtain j w where x: "x = (j, w)" by (cases x)
  have "map_get m j = None" "map_get (filter P m) j = None"
    using Cons.prems by (auto simp: map_get_None_iff map_ok_def x)
  then show ?case using Cons by (auto simp: map_get_def map_ok_def x)
qed simp

lemma map_has_get: "map_has m k \<longleftrightarrow> map_get m k \<noteq> None"
  by (simp add: map_has_def map_get_None_iff)

text \<open>Overwriting a present key changes one entry in place.\<close>

lemma map_put_split:
  "map_ok m \<Longrightarrow> map_get m k = Some v \<Longrightarrow>
     \<exists>m1 m2. m = m1 @ (k, v) # m2 \<and> (\<forall>w. map_put k w m = m1 @ (k, w) # m2)"
proof (induction m)
  case (Cons e m)
  show ?case
  proof (cases "fst e = k")
    case True
    with Cons.prems have e: "e = (k, v)" "k \<notin> fst ` set m"
      by (auto simp: map_get_def map_ok_def image_iff split: prod.splits)
    have "map (\<lambda>(k', v'). if k' = k then (k', w) else (k', v')) m = m" for w
      using e(2) by (intro map_idI) force
    with e have "e # m = [] @ (k, v) # m \<and> (\<forall>w. map_put k w (e # m) = [] @ (k, w) # m)"
      by (simp add: map_put_def)
    then show ?thesis by blast
  next
    case False
    with Cons.prems have m: "map_ok m" "map_get m k = Some v"
      by (auto simp: map_get_def map_ok_def split: prod.splits)
    with Cons.IH obtain m1 m2 where "m = m1 @ (k, v) # m2" "\<forall>w. map_put k w m = m1 @ (k, w) # m2"
      by blast
    moreover have "map_put k w (e # m) = e # map_put k w m" for w
      using False m(2) map_get_None_iff [of m k] by (auto simp: map_put_def split: prod.splits)
    ultimately have "e # m = (e # m1) @ (k, v) # m2 \<and> (\<forall>w. map_put k w (e # m) = (e # m1) @ (k, w) # m2)"
      by simp
    then show ?thesis by blast
  qed
qed simp

lemma map_put_fresh: "map_get m k = None \<Longrightarrow> map_put k v m = m @ [(k, v)]"
  by (simp add: map_put_def map_get_None_iff)

section \<open>Stable sorting by a comparator\<close>

text \<open>\<^verbatim>\<open>toSorted(compare)\<close>: stable, so an element goes behind every earlier element
  that does not compare greater.\<close>

fun insert_by :: "('a \<Rightarrow> 'a \<Rightarrow> int) \<Rightarrow> 'a \<Rightarrow> 'a list \<Rightarrow> 'a list" where
  "insert_by cmp x [] = [x]"
| "insert_by cmp x (y # ys) = (if cmp y x \<le> 0 then y # insert_by cmp x ys else x # y # ys)"

definition js_toSorted :: "('a \<Rightarrow> 'a \<Rightarrow> int) \<Rightarrow> 'a list \<Rightarrow> 'a list" where
  "js_toSorted cmp xs = foldl (\<lambda>acc x. insert_by cmp x acc) [] xs"

lemma mset_insert_by [simp]: "mset (insert_by cmp x ys) = add_mset x (mset ys)"
  by (induction ys) auto

lemma mset_js_toSorted [simp]: "mset (js_toSorted cmp xs) = mset xs"
proof -
  have "mset (foldl (\<lambda>acc x. insert_by cmp x acc) ys xs) = mset ys + mset xs" for ys
    by (induction xs arbitrary: ys) auto
  from this [of "[]"] show ?thesis by (simp add: js_toSorted_def)
qed

lemma set_js_toSorted [simp]: "set (js_toSorted cmp xs) = set xs"
  by (metis mset_js_toSorted set_mset_mset)

lemma distinct_js_toSorted [simp]: "distinct (js_toSorted cmp xs) = distinct xs"
  by (metis mset_js_toSorted mset_eq_imp_distinct_iff)

section \<open>Lists\<close>

lemma find_Some_split:
  "List.find P xs = Some x \<Longrightarrow>
     \<exists>us vs. xs = us @ x # vs \<and> P x \<and> (\<forall>u \<in> set us. \<not> P u)"
proof (induction xs)
  case (Cons y ys)
  show ?case
  proof (cases "P y")
    case True
    with Cons.prems have "y # ys = [] @ x # ys \<and> P x \<and> (\<forall>u \<in> set []. \<not> P u)" by simp
    then show ?thesis by blast
  next
    case False
    with Cons obtain us vs where "ys = us @ x # vs" "P x" "\<forall>u \<in> set us. \<not> P u" by auto
    with False have "y # ys = (y # us) @ x # vs \<and> P x \<and> (\<forall>u \<in> set (y # us). \<not> P u)" by simp
    then show ?thesis by blast
  qed
qed simp

lemma find_Some_in: "List.find P xs = Some x \<Longrightarrow> x \<in> set xs \<and> P x"
  by (auto dest: find_Some_split)

lemma find_None_iff_all: "List.find P xs = None \<longleftrightarrow> (\<forall>x \<in> set xs. \<not> P x)"
  by (induction xs) auto

section \<open>Transition systems\<close>

text \<open>A component whose state changes only by its operations: a predicate that holds
  initially and that every step keeps holds in every reachable state.\<close>

inductive reach :: "('s \<Rightarrow> bool) \<Rightarrow> ('s \<Rightarrow> 's \<Rightarrow> bool) \<Rightarrow> 's \<Rightarrow> bool"
  for init step where
  reach_init: "init s \<Longrightarrow> reach init step s"
| reach_step: "reach init step s \<Longrightarrow> step s t \<Longrightarrow> reach init step t"

locale inductive_invariant =
  fixes init :: "'s \<Rightarrow> bool"
    and step :: "'s \<Rightarrow> 's \<Rightarrow> bool"
    and inv :: "'s \<Rightarrow> bool"
  assumes init_inv: "init s \<Longrightarrow> inv s"
    and step_inv: "inv s \<Longrightarrow> step s t \<Longrightarrow> inv t"
begin

lemma reach_inv: "reach init step s \<Longrightarrow> inv s"
  by (induction rule: reach.induct) (auto intro: init_inv step_inv)

lemma steps_inv: "step\<^sup>*\<^sup>* s t \<Longrightarrow> inv s \<Longrightarrow> inv t"
  by (induction rule: rtranclp_induct) (auto intro: step_inv)

end

section \<open>Size-bounded stores\<close>

text \<open>A keyed in-memory store that the code keeps below a hard cap. The provider shows
  that one operation keeps the invariant and the cap; whole runs then keep both.\<close>

locale bounded_store =
  fixes store_step :: "'op \<Rightarrow> 's \<Rightarrow> 's"
    and store_size :: "'s \<Rightarrow> nat"
    and store_inv :: "'s \<Rightarrow> bool"
    and cap :: nat
  assumes step_keeps_inv: "store_inv s \<Longrightarrow> store_inv (store_step x s)"
    and step_keeps_cap: "store_inv s \<Longrightarrow> store_size s \<le> cap \<Longrightarrow> store_size (store_step x s) \<le> cap"
begin

lemma run_keeps:
  "store_inv s \<Longrightarrow> store_size s \<le> cap \<Longrightarrow>
     store_inv (fold store_step xs s) \<and> store_size (fold store_step xs s) \<le> cap"
  by (induction xs arbitrary: s) (auto simp: step_keeps_inv step_keeps_cap)

end

end
