(* ===== verification/JS_Number.thy ===== *)
theory JS_Number
  imports Complex_Main JS_Prelude
begin

text \<open>
  JavaScript numbers where a program tests or rounds them: finite values as rationals, the two
  infinities and \<^verbatim>\<open>NaN\<close>. Rounding of double precision arithmetic is not modelled,
  but sums and products of \<open>2 ^ 1024\<close> and more overflow to an infinity; negative zero is zero.
\<close>

datatype jsnum = Fin rat | PosInf | NegInf | NaN

definition num_isFinite :: "jsnum \<Rightarrow> bool" where
  "num_isFinite n = (case n of Fin _ \<Rightarrow> True | _ \<Rightarrow> False)"

definition num_isInteger :: "jsnum \<Rightarrow> bool" where
  "num_isInteger n = (case n of Fin q \<Rightarrow> of_int \<lfloor>q\<rfloor> = q | _ \<Rightarrow> False)"

definition num_floor :: "jsnum \<Rightarrow> jsnum" where
  "num_floor n = (case n of Fin q \<Rightarrow> Fin (of_int \<lfloor>q\<rfloor>) | x \<Rightarrow> x)"

text \<open>\<^verbatim>\<open>a < b\<close> on numbers: false whenever an operand is \<^verbatim>\<open>NaN\<close>.\<close>

fun num_less :: "jsnum \<Rightarrow> jsnum \<Rightarrow> bool" where
  "num_less NaN _ = False"
| "num_less _ NaN = False"
| "num_less (Fin a) (Fin b) = (a < b)"
| "num_less NegInf b = (b \<noteq> NegInf)"
| "num_less _ NegInf = False"
| "num_less PosInf _ = False"
| "num_less (Fin _) PosInf = True"

definition num_leq :: "jsnum \<Rightarrow> jsnum \<Rightarrow> bool" where
  "num_leq a b \<longleftrightarrow> num_less a b \<or> a = b \<and> a \<noteq> NaN"

text \<open>\<^verbatim>\<open>Math.max\<close> and \<^verbatim>\<open>Math.min\<close> of two numbers: \<^verbatim>\<open>NaN\<close> if one of them is.\<close>

definition num_max :: "jsnum \<Rightarrow> jsnum \<Rightarrow> jsnum" where
  "num_max a b = (if a = NaN \<or> b = NaN then NaN else if num_less a b then b else a)"

definition num_min :: "jsnum \<Rightarrow> jsnum \<Rightarrow> jsnum" where
  "num_min a b = (if a = NaN \<or> b = NaN then NaN else if num_less b a then b else a)"

abbreviation num :: "int \<Rightarrow> jsnum" where
  "num i \<equiv> Fin (of_int i)"

lemma num_simps [simp]:
  "num_isFinite (Fin q)" "\<not> num_isFinite PosInf" "\<not> num_isFinite NegInf" "\<not> num_isFinite NaN"
  "num_floor (Fin q) = Fin (of_int \<lfloor>q\<rfloor>)"
  by (simp_all add: num_isFinite_def num_floor_def)

lemma num_isFinite_iff: "num_isFinite n \<longleftrightarrow> (\<exists>q. n = Fin q)"
  by (cases n) (auto simp: num_isFinite_def)

lemma num_max_Fin [simp]: "num_max (Fin a) (Fin b) = Fin (max a b)"
  by (auto simp: num_max_def)

lemma num_min_Fin [simp]: "num_min (Fin a) (Fin b) = Fin (min a b)"
  by (auto simp: num_min_def)

section \<open>Rounding and arithmetic\<close>

text \<open>\<^verbatim>\<open>Math.round\<close>, which rounds halves up, and \<^verbatim>\<open>Math.ceil\<close>.\<close>

definition num_round :: "jsnum \<Rightarrow> jsnum" where
  "num_round n = (case n of Fin q \<Rightarrow> Fin (of_int \<lfloor>q + 1 / 2\<rfloor>) | x \<Rightarrow> x)"

definition num_ceil :: "jsnum \<Rightarrow> jsnum" where
  "num_ceil n = (case n of Fin q \<Rightarrow> Fin (of_int \<lceil>q\<rceil>) | x \<Rightarrow> x)"

definition num_of_rat :: "rat \<Rightarrow> jsnum" where
  "num_of_rat q = (if q \<ge> 2 ^ 1024 then PosInf else if q \<le> - (2 ^ 1024) then NegInf else Fin q)"

definition num_sign :: "jsnum \<Rightarrow> rat" where
  "num_sign n = (case n of Fin q \<Rightarrow> sgn q | PosInf \<Rightarrow> 1 | NegInf \<Rightarrow> - 1 | NaN \<Rightarrow> 0)"

definition num_plus :: "jsnum \<Rightarrow> jsnum \<Rightarrow> jsnum" where
  "num_plus a b =
     (case (a, b) of
        (Fin p, Fin q) \<Rightarrow> num_of_rat (p + q)
      | (PosInf, NegInf) \<Rightarrow> NaN
      | (NegInf, PosInf) \<Rightarrow> NaN
      | (NaN, _) \<Rightarrow> NaN
      | (_, NaN) \<Rightarrow> NaN
      | (Fin _, y) \<Rightarrow> y
      | (x, _) \<Rightarrow> x)"

definition num_times :: "jsnum \<Rightarrow> jsnum \<Rightarrow> jsnum" where
  "num_times a b =
     (case (a, b) of
        (Fin p, Fin q) \<Rightarrow> num_of_rat (p * q)
      | _ \<Rightarrow>
          if a = NaN \<or> b = NaN \<or> num_sign a * num_sign b = 0 then NaN
          else if num_sign a * num_sign b > 0 then PosInf else NegInf)"

lemma num_round_simps [simp]:
  "num_round (Fin q) = Fin (of_int \<lfloor>q + 1 / 2\<rfloor>)" "num_round PosInf = PosInf"
  "num_round NegInf = NegInf" "num_round NaN = NaN"
  "num_ceil (Fin q) = Fin (of_int \<lceil>q\<rceil>)" "num_ceil PosInf = PosInf"
  "num_ceil NegInf = NegInf" "num_ceil NaN = NaN"
  by (simp_all add: num_round_def num_ceil_def)

text \<open>The order on numbers other than \<^verbatim>\<open>NaN\<close> is linear, and minimum and maximum obey it.\<close>

lemma num_leq_Fin [simp]: "num_leq (Fin a) (Fin b) \<longleftrightarrow> a \<le> b"
  by (auto simp: num_leq_def)

lemma num_leq_simps [simp]:
  "num_leq n PosInf \<longleftrightarrow> n \<noteq> NaN" "num_leq NegInf n \<longleftrightarrow> n \<noteq> NaN"
  "\<not> num_leq NaN n" "\<not> num_leq n NaN" "num_leq PosInf n \<longleftrightarrow> n = PosInf" "num_leq n NegInf \<longleftrightarrow> n = NegInf"
  by (cases n; simp add: num_leq_def)+

lemma num_leq_trans: "num_leq a b \<Longrightarrow> num_leq b c \<Longrightarrow> num_leq a c"
  by (cases a; cases b; cases c) auto

lemma num_leq_max_min:
  assumes "num_leq a b" "d \<noteq> NaN"
  shows "num_leq a (num_min (num_max d a) b)" "num_leq (num_min (num_max d a) b) b"
  using assms by (cases a; cases b; cases d; simp add: num_min_def num_max_def)+

lemma num_leq_maxI:
  "num_leq a b \<Longrightarrow> c \<noteq> NaN \<Longrightarrow> num_leq a (num_max b c)"
  "num_leq a b \<Longrightarrow> c \<noteq> NaN \<Longrightarrow> num_leq a (num_max c b)"
  by (cases a; cases b; cases c; simp add: num_max_def)+

lemma num_leq_minI: "num_leq a b \<Longrightarrow> num_leq a c \<Longrightarrow> num_leq a (num_min b c)"
  by (cases a; cases b; cases c; simp add: num_min_def)

lemma num_of_rat_small [simp]: "\<bar>q\<bar> < 2 ^ 1024 \<Longrightarrow> num_of_rat q = Fin q"
  by (auto simp: num_of_rat_def)

lemma num_leq_of_rat: "0 \<le> p \<Longrightarrow> p \<le> q \<Longrightarrow> num_leq (Fin p) (num_of_rat q)"
  by (auto simp: num_of_rat_def)

lemma num_of_rat_not_NaN [simp]: "num_of_rat q \<noteq> NaN"
  by (simp add: num_of_rat_def)

lemma num_leq_ceil: "num_leq a b \<Longrightarrow> num_leq a (num_ceil b)"
  by (cases a; cases b) (auto intro: order_trans le_of_int_ceiling)

end
