(* ===== verification/String_Normalization.thy ===== *)
theory String_Normalization
  imports JS_Prelude
begin

text \<open>
  The string coercion helpers of \<^verbatim>\<open>packages/normalization-core\<close>
  (\<^verbatim>\<open>string-coerce.ts\<close>, \<^verbatim>\<open>string-normalization.ts\<close>) that every allowlist of the
  program goes through. A value of TypeScript type \<^verbatim>\<open>unknown\<close> is a \<open>js_value\<close>; numbers
  are the integers (platform ids). The lemmas say what a normalised list looks like:
  trimmed, without empty entries, stable under a second normalisation, and for the
  sorted variants strictly increasing in code unit order.
\<close>

datatype js_value =
    JUndefined
  | JNull
  | JBool bool
  | JNumber int
  | JString string
  | JArray "js_value list"
  | JObject "(string \<times> js_value) list"

fun join_with :: "string \<Rightarrow> string list \<Rightarrow> string" where
  "join_with sep [] = []"
| "join_with sep [x] = x"
| "join_with sep (x # y # ys) = x @ sep @ join_with sep (y # ys)"

text \<open>\<^verbatim>\<open>String(value)\<close>.\<close>

fun js_String :: "js_value \<Rightarrow> string" where
  "js_String JUndefined = ''undefined''"
| "js_String JNull = ''null''"
| "js_String (JBool b) = (if b then ''true'' else ''false'')"
| "js_String (JNumber i) = js_string_of_int i"
| "js_String (JString s) = s"
| "js_String (JArray vs) =
     join_with '','' (map (\<lambda>v. if v = JUndefined \<or> v = JNull then '''' else js_String v) vs)"
| "js_String (JObject fs) = ''[object Object]''"

section \<open>string-coerce.ts\<close>

definition readStringValue :: "js_value \<Rightarrow> string option" where
  "readStringValue v = (case v of JString s \<Rightarrow> Some s | _ \<Rightarrow> None)"

definition normalizeNullableString :: "js_value \<Rightarrow> string option" where
  "normalizeNullableString v =
     (case v of
        JString s \<Rightarrow> (let trimmed = js_trim s in if trimmed \<noteq> [] then Some trimmed else None)
      | _ \<Rightarrow> None)"

definition normalizeOptionalString :: "js_value \<Rightarrow> string option" where
  "normalizeOptionalString v = coalesce2 (normalizeNullableString v) None"

definition normalizeStringifiedOptionalString :: "js_value \<Rightarrow> string option" where
  "normalizeStringifiedOptionalString v =
     (case v of
        JString s \<Rightarrow> normalizeOptionalString (JString s)
      | JNumber i \<Rightarrow> normalizeOptionalString (JString (js_String (JNumber i)))
      | JBool b \<Rightarrow> normalizeOptionalString (JString (js_String (JBool b)))
      | _ \<Rightarrow> None)"

definition normalizeStringifiedEntries :: "js_value list option \<Rightarrow> string list" where
  "normalizeStringifiedEntries vs =
     map the (filter (\<lambda>e. e \<noteq> None \<and> e \<noteq> Some [])
       (map normalizeStringifiedOptionalString (coalesce vs [])))"

definition normalizeOptionalLowercaseString :: "js_value \<Rightarrow> string option" where
  "normalizeOptionalLowercaseString v = map_option js_toLowerCase (normalizeOptionalString v)"

definition normalizeLowercaseStringOrEmpty :: "js_value \<Rightarrow> string" where
  "normalizeLowercaseStringOrEmpty v = coalesce (normalizeOptionalLowercaseString v) []"

datatype fast_mode = FastBool bool | FastAuto

definition js_truthy :: "js_value \<Rightarrow> bool" where
  "js_truthy v =
     (case v of JUndefined \<Rightarrow> False | JNull \<Rightarrow> False | JBool b \<Rightarrow> b
      | JNumber i \<Rightarrow> i \<noteq> 0 | JString s \<Rightarrow> s \<noteq> [] | JArray _ \<Rightarrow> True | JObject _ \<Rightarrow> True)"

definition normalizeFastMode :: "js_value \<Rightarrow> fast_mode option" where
  "normalizeFastMode raw =
     (case raw of
        JBool b \<Rightarrow> Some (FastBool b)
      | _ \<Rightarrow>
         if \<not> js_truthy raw then None
         else let key = normalizeLowercaseStringOrEmpty raw in
           if key \<in> set [''off'', ''false'', ''no'', ''0'', ''disable'', ''disabled'', ''normal'']
           then Some (FastBool False)
           else if key \<in> set [''on'', ''true'', ''yes'', ''1'', ''enable'', ''enabled'', ''fast'']
           then Some (FastBool True)
           else if key \<in> set [''auto'', ''automatic''] then Some FastAuto
           else None)"

definition hasNonEmptyString :: "js_value \<Rightarrow> bool" where
  "hasNonEmptyString v \<longleftrightarrow> normalizeOptionalString v \<noteq> None"

section \<open>string-normalization.ts\<close>

definition normalizeStringEntries :: "js_value list option \<Rightarrow> string list" where
  "normalizeStringEntries xs =
     filter (\<lambda>e. e \<noteq> [])
       (map (\<lambda>entry. coalesce (normalizeOptionalString (JString (js_String entry))) [])
         (coalesce xs []))"

definition normalizeStringEntriesLower :: "js_value list option \<Rightarrow> string list" where
  "normalizeStringEntriesLower xs =
     map (\<lambda>entry. coalesce (normalizeOptionalLowercaseString (JString entry)) [])
       (normalizeStringEntries xs)"

definition uniqueValues :: "'a list \<Rightarrow> 'a list" where
  "uniqueValues vs = js_set vs"

definition uniqueStrings :: "string list \<Rightarrow> string list" where
  "uniqueStrings vs = uniqueValues vs"

text \<open>\<^verbatim>\<open><\<close> on strings compares code units lexicographically.\<close>

fun js_less :: "string \<Rightarrow> string \<Rightarrow> bool" where
  "js_less xs [] \<longleftrightarrow> False"
| "js_less [] (y # ys) \<longleftrightarrow> True"
| "js_less (x # xs) (y # ys) \<longleftrightarrow>
     (of_char x :: nat) < of_char y \<or> (x = y \<and> js_less xs ys)"

definition compare_strings :: "string \<Rightarrow> string \<Rightarrow> int" where
  "compare_strings left right =
     (if js_less left right then - 1 else if js_less right left then 1 else 0)"

definition sortUniqueStrings :: "string list \<Rightarrow> string list" where
  "sortUniqueStrings vs = js_toSorted compare_strings (uniqueStrings vs)"

definition normalizeUniqueStringEntries :: "js_value list option \<Rightarrow> string list" where
  "normalizeUniqueStringEntries vs = uniqueStrings (normalizeStringEntries vs)"

definition normalizeUniqueStringEntriesLower :: "js_value list option \<Rightarrow> string list" where
  "normalizeUniqueStringEntriesLower vs =
     uniqueStrings (filter (\<lambda>e. e \<noteq> []) (normalizeStringEntriesLower vs))"

definition normalizeSortedUniqueStringEntries :: "js_value list option \<Rightarrow> string list" where
  "normalizeSortedUniqueStringEntries vs = sortUniqueStrings (normalizeUniqueStringEntries vs)"

definition normalizeTrimmedStringList :: "js_value \<Rightarrow> string list" where
  "normalizeTrimmedStringList v =
     (case v of
        JArray vs \<Rightarrow>
          concat (map (\<lambda>entry. case normalizeOptionalString entry of
             Some n \<Rightarrow> if n \<noteq> [] then [n] else [] | None \<Rightarrow> []) vs)
      | _ \<Rightarrow> [])"

definition normalizeUniqueTrimmedStringList :: "js_value \<Rightarrow> string list" where
  "normalizeUniqueTrimmedStringList v = uniqueStrings (normalizeTrimmedStringList v)"

definition normalizeSortedUniqueTrimmedStringList :: "js_value \<Rightarrow> string list" where
  "normalizeSortedUniqueTrimmedStringList v = sortUniqueStrings (normalizeTrimmedStringList v)"

definition normalizeOptionalTrimmedStringList :: "js_value \<Rightarrow> string list option" where
  "normalizeOptionalTrimmedStringList v =
     (let normalized = normalizeTrimmedStringList v in
      if length normalized > 0 then Some normalized else None)"

definition normalizeArrayBackedTrimmedStringList :: "js_value \<Rightarrow> string list option" where
  "normalizeArrayBackedTrimmedStringList v =
     (case v of JArray vs \<Rightarrow> Some (normalizeTrimmedStringList v) | _ \<Rightarrow> None)"

definition normalizeSingleOrTrimmedStringList :: "js_value \<Rightarrow> string list" where
  "normalizeSingleOrTrimmedStringList v =
     (case v of
        JArray vs \<Rightarrow> normalizeTrimmedStringList v
      | _ \<Rightarrow> (case normalizeOptionalString v of
               Some n \<Rightarrow> if n \<noteq> [] then [n] else [] | None \<Rightarrow> []))"

definition normalizeUniqueSingleOrTrimmedStringList :: "js_value \<Rightarrow> string list" where
  "normalizeUniqueSingleOrTrimmedStringList v = uniqueStrings (normalizeSingleOrTrimmedStringList v)"

text \<open>\<^verbatim>\<open>split(c)\<close> on one separator character.\<close>

fun js_split :: "char \<Rightarrow> string \<Rightarrow> string list" where
  "js_split c [] = [[]]"
| "js_split c (x # xs) =
     (if x = c then [] # js_split c xs
      else case js_split c xs of [] \<Rightarrow> [[x]] | p # ps \<Rightarrow> (x # p) # ps)"

definition normalizeCsvOrLooseStringList :: "js_value \<Rightarrow> string list" where
  "normalizeCsvOrLooseStringList v =
     (case v of
        JArray vs \<Rightarrow> normalizeStringEntries (Some vs)
      | JString s \<Rightarrow> filter (\<lambda>e. e \<noteq> []) (map js_trim (js_split (CHR '','') s))
      | _ \<Rightarrow> [])"

section \<open>Lemmas\<close>

lemma normalizeOptionalString_JString [simp]:
  "normalizeOptionalString (JString s) = (if js_trim s = [] then None else Some (js_trim s))"
  by (simp add: normalizeOptionalString_def normalizeNullableString_def Let_def)

lemma normalizeOptionalString_eq_Some:
  "normalizeOptionalString v = Some t \<longleftrightarrow> (\<exists>s. v = JString s \<and> t = js_trim s \<and> t \<noteq> [])"
  by (auto simp: normalizeOptionalString_def normalizeNullableString_def Let_def
      split: js_value.splits if_splits)

lemma normalizeStringEntries_eq:
  "normalizeStringEntries xs = filter (\<lambda>e. e \<noteq> []) (map (js_trim \<circ> js_String) (coalesce xs []))"
  by (simp add: normalizeStringEntries_def comp_def if_distrib cong: if_cong map_cong filter_cong)
     (rule arg_cong [where f = "filter _"], auto)

lemma set_uniqueStrings [simp]: "set (uniqueStrings xs) = set xs"
  by (simp add: uniqueStrings_def uniqueValues_def)

lemma distinct_uniqueStrings [simp]: "distinct (uniqueStrings xs)"
  by (simp add: uniqueStrings_def uniqueValues_def)

lemma uniqueStrings_Nil_iff [simp]: "uniqueStrings xs = [] \<longleftrightarrow> xs = []"
  by (simp add: uniqueStrings_def uniqueValues_def)

lemma uniqueStrings_id: "distinct xs \<Longrightarrow> uniqueStrings xs = xs"
  by (simp add: uniqueStrings_def uniqueValues_def js_set_distinct)

definition normalized_entry :: "string \<Rightarrow> bool" where
  "normalized_entry e \<longleftrightarrow> e \<noteq> [] \<and> js_trim e = e"

lemma normalizeStringEntries_normalized:
  "e \<in> set (normalizeStringEntries xs) \<Longrightarrow> normalized_entry e"
  by (auto simp: normalizeStringEntries_eq normalized_entry_def)

lemma normalizeStringEntries_id:
  "(\<And>e. e \<in> set es \<Longrightarrow> normalized_entry e) \<Longrightarrow>
     normalizeStringEntries (Some (map JString es)) = es"
  by (induction es) (auto simp: normalizeStringEntries_eq normalized_entry_def)

text \<open>Normalising an allowlist a second time changes nothing.\<close>

lemma normalizeStringEntries_idem [simp]:
  "normalizeStringEntries (Some (map JString (normalizeStringEntries xs))) = normalizeStringEntries xs"
  by (rule normalizeStringEntries_id) (rule normalizeStringEntries_normalized)

lemma normalizeStringEntries_None [simp]: "normalizeStringEntries None = []"
  by (simp add: normalizeStringEntries_def)

lemma normalizeStringEntries_Nil [simp]: "normalizeStringEntries (Some []) = []"
  by (simp add: normalizeStringEntries_def)

lemma normalizeStringEntries_append:
  "normalizeStringEntries (Some (xs @ ys)) =
     normalizeStringEntries (Some xs) @ normalizeStringEntries (Some ys)"
  by (simp add: normalizeStringEntries_def)

subsection \<open>Sorting in code unit order\<close>

lemma js_less_irrefl [simp]: "\<not> js_less xs xs"
  by (induction xs) auto

lemma js_less_trans: "js_less xs ys \<Longrightarrow> js_less ys zs \<Longrightarrow> js_less xs zs"
proof (induction xs ys arbitrary: zs rule: js_less.induct)
  case (2 y ys)
  then show ?case by (cases zs) auto
next
  case (3 x xs y ys)
  then show ?case by (cases zs) auto
qed simp

lemma js_less_total: "xs \<noteq> ys \<Longrightarrow> js_less xs ys \<or> js_less ys xs"
proof (induction xs ys rule: js_less.induct)
  case (1 xs)
  then show ?case by (cases xs) auto
next
  case (3 x xs y ys)
  have "(of_char x :: nat) = of_char y \<longleftrightarrow> x = y" by simp
  with 3 show ?case by (auto simp: neq_iff)
qed simp

lemma compare_strings_le: "compare_strings x y \<le> 0 \<longleftrightarrow> js_less x y \<or> x = y"
  using js_less_total [of x y] js_less_trans [of x y x]
  by (auto simp: compare_strings_def)

lemma sorted_wrt_insert_by:
  assumes total: "\<And>x y. \<not> cmp x y \<le> 0 \<Longrightarrow> cmp y x \<le> 0"
    and trans: "\<And>x y z. cmp x y \<le> 0 \<Longrightarrow> cmp y z \<le> 0 \<Longrightarrow> cmp x z \<le> (0::int)"
  shows "sorted_wrt (\<lambda>x y. cmp x y \<le> 0) ys \<Longrightarrow> sorted_wrt (\<lambda>x y. cmp x y \<le> 0) (insert_by cmp x ys)"
proof (induction ys)
  case (Cons y ys)
  have set: "set (insert_by cmp x ys) = insert x (set ys)"
    by (metis mset_insert_by set_mset_add_mset_insert set_mset_mset)
  from Cons set show ?case by (auto intro: trans total)
qed simp

lemma sorted_wrt_js_toSorted:
  assumes total: "\<And>x y. \<not> cmp x y \<le> 0 \<Longrightarrow> cmp y x \<le> 0"
    and trans: "\<And>x y z. cmp x y \<le> 0 \<Longrightarrow> cmp y z \<le> 0 \<Longrightarrow> cmp x z \<le> (0::int)"
  shows "sorted_wrt (\<lambda>x y. cmp x y \<le> 0) (js_toSorted cmp xs)"
proof -
  have "sorted_wrt (\<lambda>x y. cmp x y \<le> 0) ys \<Longrightarrow>
      sorted_wrt (\<lambda>x y. cmp x y \<le> 0) (foldl (\<lambda>acc x. insert_by cmp x acc) ys xs)" for ys
  proof (induction xs arbitrary: ys)
    case (Cons x xs)
    have "sorted_wrt (\<lambda>x y. cmp x y \<le> 0) (insert_by cmp x ys)"
      by (rule sorted_wrt_insert_by [OF total trans Cons.prems])
    then show ?case using Cons.IH by simp
  qed simp
  then show ?thesis by (simp add: js_toSorted_def)
qed

lemma sortUniqueStrings_sorted: "sorted_wrt js_less (sortUniqueStrings xs)"
proof -
  let ?s = "sortUniqueStrings xs"
  have srt: "sorted_wrt (\<lambda>x y. compare_strings x y \<le> 0) ?s"
    unfolding sortUniqueStrings_def
    by (rule sorted_wrt_js_toSorted)
       (auto simp: compare_strings_le dest: js_less_total intro: js_less_trans)
  have "distinct ?s"
    by (metis distinct_uniqueStrings mset_eq_imp_distinct_iff mset_js_toSorted sortUniqueStrings_def)
  then have "sorted_wrt (\<noteq>) ?s" by (simp add: distinct_conv_nth sorted_wrt_iff_nth_less)
  with srt have "sorted_wrt (\<lambda>x y. compare_strings x y \<le> 0 \<and> x \<noteq> y) ?s"
    by (simp add: sorted_wrt_iff_nth_less)
  then show ?thesis
    by (rule sorted_wrt_mono_rel [rotated]) (auto simp: compare_strings_le)
qed

lemma set_sortUniqueStrings [simp]: "set (sortUniqueStrings xs) = set xs"
  by (simp add: sortUniqueStrings_def)

lemma js_split_ne [simp]: "js_split c s \<noteq> []"
  by (cases s) (auto split: list.splits)

lemma join_with_Cons: "ps \<noteq> [] \<Longrightarrow> join_with sep (p # ps) = p @ sep @ join_with sep ps"
  by (cases ps) auto

lemma join_js_split: "join_with [c] (js_split c s) = s"
proof (induction s)
  case (Cons x xs)
  obtain p ps where ps: "js_split c xs = p # ps" by (cases "js_split c xs") auto
  with Cons show ?case by (cases ps) auto
qed simp

lemma js_split_free: "c \<notin> set s \<Longrightarrow> js_split c s = [s]"
  by (induction s) auto

lemma js_split_append: "c \<notin> set a \<Longrightarrow> js_split c (a @ c # r) = a # js_split c r"
  by (induction a) auto

lemma js_split_hd: "js_split c s = takeWhile (\<lambda>x. x \<noteq> c) s # tl (js_split c s)"
  by (induction s) (auto split: list.split)

lemma separator_inj:
  "x \<notin> set a \<Longrightarrow> x \<notin> set b \<Longrightarrow> a @ x # r = b @ x # s \<longleftrightarrow> a = b \<and> r = s"
proof (induction a arbitrary: b)
  case Nil
  then show ?case by (cases b) auto
next
  case (Cons c a)
  then show ?case by (cases b) auto
qed

text \<open>Joining is injective on parts free of the separator.\<close>

lemma js_split_join:
  "ps \<noteq> [] \<Longrightarrow> list_all (\<lambda>p. c \<notin> set p) ps \<Longrightarrow> js_split c (join_with [c] ps) = ps"
proof (induction ps)
  case (Cons p ps)
  then show ?case by (cases ps) (simp_all add: js_split_free js_split_append)
qed simp

lemma join_with_inj:
  assumes "join_with [c] ps = join_with [c] qs" "ps \<noteq> []" "qs \<noteq> []"
    and "list_all (\<lambda>p. c \<notin> set p) ps" "list_all (\<lambda>p. c \<notin> set p) qs"
  shows "ps = qs"
  using assms js_split_join by metis

end
