(* ===== verification/Channel_Gating.thy ===== *)
theory Channel_Gating
  imports String_Normalization
begin

text \<open>
  The shared channel policies that the ingress kernel calls:
  \<^verbatim>\<open>src/channels/command-gating.ts\<close> (who may run a control command),
  \<^verbatim>\<open>src/channels/mention-gating.ts\<close> (whether an unmentioned group message is skipped),
  \<^verbatim>\<open>src/channels/allow-from.ts\<close> and
  \<^verbatim>\<open>src/channels/message-access/effective-allow-from.ts\<close> (how allowlists from the
  config and the pairing store are merged).
\<close>

section \<open>command-gating.ts\<close>

record CommandAuthorizer =
  ca_configured :: bool
  ca_allowed :: bool

datatype CommandGatingMode = ModeAllow | ModeDeny | ModeConfigured

definition resolveCommandAuthorizedFromAuthorizers ::
  "bool \<Rightarrow> CommandAuthorizer list \<Rightarrow> CommandGatingMode option \<Rightarrow> bool" where
  "resolveCommandAuthorizedFromAuthorizers useAccessGroups authorizers modeWhenAccessGroupsOff =
     (let mode = coalesce modeWhenAccessGroupsOff ModeAllow in
      if \<not> useAccessGroups then
        if mode = ModeAllow then True
        else if mode = ModeDeny then False
        else let anyConfigured = list_ex ca_configured authorizers in
          if \<not> anyConfigured then True
          else list_ex (\<lambda>entry. ca_configured entry \<and> ca_allowed entry) authorizers
      else list_ex (\<lambda>entry. ca_configured entry \<and> ca_allowed entry) authorizers)"

record ControlCommandGate =
  cg_commandAuthorized :: bool
  cg_shouldBlock :: bool

definition resolveControlCommandGate ::
  "bool \<Rightarrow> CommandAuthorizer list \<Rightarrow> bool \<Rightarrow> bool \<Rightarrow> CommandGatingMode option \<Rightarrow> ControlCommandGate"
where
  "resolveControlCommandGate useAccessGroups authorizers allowTextCommands hasControlCommand mode =
     (let commandAuthorized = resolveCommandAuthorizedFromAuthorizers useAccessGroups authorizers mode;
          shouldBlock = allowTextCommands \<and> hasControlCommand \<and> \<not> commandAuthorized
      in \<lparr>cg_commandAuthorized = commandAuthorized, cg_shouldBlock = shouldBlock\<rparr>)"

definition resolveDualTextControlCommandGate ::
  "bool \<Rightarrow> bool \<Rightarrow> bool \<Rightarrow> bool \<Rightarrow> bool \<Rightarrow> bool \<Rightarrow> CommandGatingMode option \<Rightarrow> ControlCommandGate"
where
  "resolveDualTextControlCommandGate useAccessGroups primaryConfigured primaryAllowed
       secondaryConfigured secondaryAllowed hasControlCommand mode =
     resolveControlCommandGate useAccessGroups
       [\<lparr>ca_configured = primaryConfigured, ca_allowed = primaryAllowed\<rparr>,
        \<lparr>ca_configured = secondaryConfigured, ca_allowed = secondaryAllowed\<rparr>]
       True hasControlCommand mode"

definition some_authorizer :: "CommandAuthorizer list \<Rightarrow> bool" where
  "some_authorizer as \<longleftrightarrow> (\<exists>a \<in> set as. ca_configured a \<and> ca_allowed a)"

lemma list_ex_authorizer [simp]:
  "list_ex (\<lambda>entry. ca_configured entry \<and> ca_allowed entry) as \<longleftrightarrow> some_authorizer as"
  by (simp add: some_authorizer_def list_ex_iff)

lemma resolveCommandAuthorized_iff:
  "resolveCommandAuthorizedFromAuthorizers useGroups as mode \<longleftrightarrow>
     some_authorizer as \<and> (useGroups \<or> mode \<noteq> Some ModeDeny) \<or>
     \<not> useGroups \<and> (mode = None \<or> mode = Some ModeAllow \<or>
        mode = Some ModeConfigured \<and> (\<forall>a \<in> set as. \<not> ca_configured a))"
  by (cases mode; cases "the mode")
     (auto simp: resolveCommandAuthorizedFromAuthorizers_def Let_def list_ex_iff some_authorizer_def)

lemma resolveControlCommandGate_sel [simp]:
  "cg_commandAuthorized (resolveControlCommandGate u as t h m) =
     resolveCommandAuthorizedFromAuthorizers u as m"
  "cg_shouldBlock (resolveControlCommandGate u as t h m) =
     (t \<and> h \<and> \<not> resolveCommandAuthorizedFromAuthorizers u as m)"
  by (simp_all add: resolveControlCommandGate_def Let_def)

text \<open>
  The control command gate on every branch: with access groups on (the default) a command
  is authorized exactly when one configured authorizer allows it; with access groups off
  the mode decides, and the mode \<^verbatim>\<open>configured\<close> is open only while no authorizer is
  configured at all. A text command is blocked exactly when it is not authorized.
\<close>

lemma control_command_gate_branches:
  "cg_commandAuthorized (resolveControlCommandGate True as t h m) =
     (\<exists>a \<in> set as. ca_configured a \<and> ca_allowed a)"
  "cg_commandAuthorized (resolveControlCommandGate False as t h (Some ModeDeny)) = False"
  "cg_commandAuthorized (resolveControlCommandGate False as t h (Some ModeAllow)) = True"
  "cg_commandAuthorized (resolveControlCommandGate False as t h None) = True"
  "cg_commandAuthorized (resolveControlCommandGate False as t h (Some ModeConfigured)) =
     ((\<forall>a \<in> set as. \<not> ca_configured a) \<or> (\<exists>a \<in> set as. ca_configured a \<and> ca_allowed a))"
  "cg_shouldBlock (resolveControlCommandGate u as True True m) =
     (\<not> cg_commandAuthorized (resolveControlCommandGate u as True True m))"
  by (auto simp: resolveCommandAuthorized_iff some_authorizer_def)

lemma authorized_mono:
  "resolveCommandAuthorizedFromAuthorizers True as m \<Longrightarrow>
     resolveCommandAuthorizedFromAuthorizers True (as @ bs) m"
  by (auto simp: resolveCommandAuthorized_iff some_authorizer_def)

section \<open>mention-gating.ts\<close>

datatype InboundImplicitMentionKind =
  ReplyToBot | QuotedBot | BotThreadParticipant | Native

record InboundMentionFacts =
  mf_canDetectMention :: bool
  mf_wasMentioned :: bool
  mf_hasAnyMention :: "bool option"
  mf_implicitMentionKinds :: "InboundImplicitMentionKind list option"

record InboundMentionPolicy =
  mp_isGroup :: bool
  mp_requireMention :: bool
  mp_allowedImplicitMentionKinds :: "InboundImplicitMentionKind list option"
  mp_allowTextCommands :: bool
  mp_hasControlCommand :: bool
  mp_commandAuthorized :: bool

record InboundMentionFlatParams = InboundMentionFacts +
  fp_isGroup :: bool
  fp_requireMention :: bool
  fp_allowedImplicitMentionKinds :: "InboundImplicitMentionKind list option"
  fp_allowTextCommands :: bool
  fp_hasControlCommand :: bool
  fp_commandAuthorized :: bool

datatype ResolveInboundMentionDecisionParams =
    FlatParams InboundMentionFlatParams
  | NestedParams InboundMentionFacts InboundMentionPolicy

record InboundMentionDecision =
  md_effectiveWasMentioned :: bool
  md_shouldSkip :: bool
  md_implicitMention :: bool
  md_matchedImplicitMentionKinds :: "InboundImplicitMentionKind list"
  md_shouldBypassMention :: bool

definition implicitMentionKindWhen ::
  "InboundImplicitMentionKind \<Rightarrow> bool \<Rightarrow> InboundImplicitMentionKind list" where
  "implicitMentionKindWhen kind enabled = (if enabled then [kind] else [])"

text \<open>The loop over the input kinds, with the list of kinds matched so far.\<close>

fun matchImplicitKinds ::
  "InboundImplicitMentionKind list option \<Rightarrow> InboundImplicitMentionKind list \<Rightarrow>
     InboundImplicitMentionKind list \<Rightarrow> InboundImplicitMentionKind list" where
  "matchImplicitKinds allowed matched [] = matched"
| "matchImplicitKinds allowed matched (kind # kinds) =
     (if (case allowed of None \<Rightarrow> False | Some ks \<Rightarrow> kind \<notin> set ks)
      then matchImplicitKinds allowed matched kinds
      else if kind \<notin> set matched then matchImplicitKinds allowed (matched @ [kind]) kinds
      else matchImplicitKinds allowed matched kinds)"

definition resolveMatchedImplicitMentionKinds ::
  "InboundImplicitMentionKind list option \<Rightarrow> InboundImplicitMentionKind list option \<Rightarrow>
     InboundImplicitMentionKind list" where
  "resolveMatchedImplicitMentionKinds implicitKinds allowedKinds =
     (let inputKinds = coalesce implicitKinds [] in
      if length inputKinds = 0 then [] else matchImplicitKinds allowedKinds [] inputKinds)"

definition resolveMentionDecisionCore ::
  "bool \<Rightarrow> bool \<Rightarrow> bool \<Rightarrow> InboundImplicitMentionKind list option \<Rightarrow>
     InboundImplicitMentionKind list option \<Rightarrow> bool \<Rightarrow> InboundMentionDecision" where
  "resolveMentionDecisionCore requireMention canDetectMention wasMentioned implicitKinds
       allowedKinds shouldBypassMention =
     (let matched = resolveMatchedImplicitMentionKinds implicitKinds allowedKinds;
          implicitMention = length matched > 0;
          effectiveWasMentioned = wasMentioned \<or> implicitMention \<or> shouldBypassMention;
          shouldSkip = requireMention \<and> canDetectMention \<and> \<not> effectiveWasMentioned
      in \<lparr>md_effectiveWasMentioned = effectiveWasMentioned, md_shouldSkip = shouldSkip,
          md_implicitMention = implicitMention, md_matchedImplicitMentionKinds = matched,
          md_shouldBypassMention = shouldBypassMention\<rparr>)"

fun normalizeMentionDecisionParams ::
  "ResolveInboundMentionDecisionParams \<Rightarrow> InboundMentionFacts \<times> InboundMentionPolicy" where
  "normalizeMentionDecisionParams (NestedParams facts policy) = (facts, policy)"
| "normalizeMentionDecisionParams (FlatParams p) =
     (\<lparr>mf_canDetectMention = mf_canDetectMention p, mf_wasMentioned = mf_wasMentioned p,
       mf_hasAnyMention = mf_hasAnyMention p,
       mf_implicitMentionKinds = mf_implicitMentionKinds p\<rparr>,
      \<lparr>mp_isGroup = fp_isGroup p, mp_requireMention = fp_requireMention p,
       mp_allowedImplicitMentionKinds = fp_allowedImplicitMentionKinds p,
       mp_allowTextCommands = fp_allowTextCommands p,
       mp_hasControlCommand = fp_hasControlCommand p,
       mp_commandAuthorized = fp_commandAuthorized p\<rparr>)"

definition resolveInboundMentionDecision ::
  "ResolveInboundMentionDecisionParams \<Rightarrow> InboundMentionDecision" where
  "resolveInboundMentionDecision params =
     (let (facts, policy) = normalizeMentionDecisionParams params;
          shouldBypassMention =
            mp_isGroup policy \<and> mp_requireMention policy \<and> \<not> mf_wasMentioned facts \<and>
            \<not> coalesce (mf_hasAnyMention facts) False \<and> mp_allowTextCommands policy \<and>
            mp_commandAuthorized policy \<and> mp_hasControlCommand policy
      in resolveMentionDecisionCore (mp_requireMention policy) (mf_canDetectMention facts)
           (mf_wasMentioned facts) (mf_implicitMentionKinds facts)
           (mp_allowedImplicitMentionKinds policy) shouldBypassMention)"

record MentionGateParams =
  gp_requireMention :: bool
  gp_canDetectMention :: bool
  gp_wasMentioned :: bool
  gp_implicitMention :: "bool option"
  gp_shouldBypassMention :: "bool option"

record MentionGateResult =
  gr_effectiveWasMentioned :: bool
  gr_shouldSkip :: bool

definition resolveMentionGating :: "MentionGateParams \<Rightarrow> MentionGateResult" where
  "resolveMentionGating params =
     (let result = resolveMentionDecisionCore (gp_requireMention params) (gp_canDetectMention params)
            (gp_wasMentioned params)
            (Some (implicitMentionKindWhen Native (gp_implicitMention params = Some True)))
            None (gp_shouldBypassMention params = Some True)
      in \<lparr>gr_effectiveWasMentioned = md_effectiveWasMentioned result,
          gr_shouldSkip = md_shouldSkip result\<rparr>)"

record MentionGateWithBypassParams =
  bp_isGroup :: bool
  bp_requireMention :: bool
  bp_canDetectMention :: bool
  bp_wasMentioned :: bool
  bp_implicitMention :: "bool option"
  bp_hasAnyMention :: "bool option"
  bp_allowTextCommands :: bool
  bp_hasControlCommand :: bool
  bp_commandAuthorized :: bool

record MentionGateWithBypassResult = MentionGateResult +
  gr_shouldBypassMention :: bool

definition resolveMentionGatingWithBypass ::
  "MentionGateWithBypassParams \<Rightarrow> MentionGateWithBypassResult" where
  "resolveMentionGatingWithBypass params =
     (let result = resolveInboundMentionDecision (NestedParams
            \<lparr>mf_canDetectMention = bp_canDetectMention params,
             mf_wasMentioned = bp_wasMentioned params,
             mf_hasAnyMention = bp_hasAnyMention params,
             mf_implicitMentionKinds =
               Some (implicitMentionKindWhen Native (bp_implicitMention params = Some True))\<rparr>
            \<lparr>mp_isGroup = bp_isGroup params, mp_requireMention = bp_requireMention params,
             mp_allowedImplicitMentionKinds = None,
             mp_allowTextCommands = bp_allowTextCommands params,
             mp_hasControlCommand = bp_hasControlCommand params,
             mp_commandAuthorized = bp_commandAuthorized params\<rparr>)
      in \<lparr>gr_effectiveWasMentioned = md_effectiveWasMentioned result,
          gr_shouldSkip = md_shouldSkip result,
          gr_shouldBypassMention = md_shouldBypassMention result\<rparr>)"

lemma matchImplicitKinds_set:
  "set (matchImplicitKinds allowed matched kinds) =
     set matched \<union> {k \<in> set kinds. case allowed of None \<Rightarrow> True | Some ks \<Rightarrow> k \<in> set ks}"
  by (induction kinds arbitrary: matched) (auto split: option.splits)

lemma matchImplicitKinds_distinct:
  "distinct matched \<Longrightarrow> distinct (matchImplicitKinds allowed matched kinds)"
  by (induction kinds arbitrary: matched) auto

lemma set_resolveMatchedImplicitMentionKinds:
  "set (resolveMatchedImplicitMentionKinds kinds allowed) =
     {k \<in> set (coalesce kinds []). case allowed of None \<Rightarrow> True | Some ks \<Rightarrow> k \<in> set ks}"
  by (auto simp: resolveMatchedImplicitMentionKinds_def Let_def matchImplicitKinds_set)

lemma resolveMentionDecisionCore_sel:
  "md_shouldSkip (resolveMentionDecisionCore r c w ks as b) =
     (r \<and> c \<and> \<not> w \<and> \<not> b \<and> resolveMatchedImplicitMentionKinds ks as = [])"
  "md_effectiveWasMentioned (resolveMentionDecisionCore r c w ks as b) =
     (w \<or> b \<or> resolveMatchedImplicitMentionKinds ks as \<noteq> [])"
  "md_shouldBypassMention (resolveMentionDecisionCore r c w ks as b) = b"
  "md_matchedImplicitMentionKinds (resolveMentionDecisionCore r c w ks as b) =
     resolveMatchedImplicitMentionKinds ks as"
  by (auto simp: resolveMentionDecisionCore_def Let_def)

text \<open>The bypass for authorized control commands, as one condition.\<close>

definition mention_bypass :: "InboundMentionFacts \<Rightarrow> InboundMentionPolicy \<Rightarrow> bool" where
  "mention_bypass facts policy \<longleftrightarrow>
     mp_isGroup policy \<and> mp_requireMention policy \<and> \<not> mf_wasMentioned facts \<and>
     mf_hasAnyMention facts \<noteq> Some True \<and> mp_allowTextCommands policy \<and>
     mp_commandAuthorized policy \<and> mp_hasControlCommand policy"

lemma resolveInboundMentionDecision_nested:
  "resolveInboundMentionDecision (NestedParams facts policy) =
     resolveMentionDecisionCore (mp_requireMention policy) (mf_canDetectMention facts)
       (mf_wasMentioned facts) (mf_implicitMentionKinds facts)
       (mp_allowedImplicitMentionKinds policy) (mention_bypass facts policy)"
  by (cases "mf_hasAnyMention facts")
     (auto simp: resolveInboundMentionDecision_def mention_bypass_def)

section \<open>allow-from.ts\<close>

definition ACCESS_GROUP_ALLOW_FROM_PREFIX :: string where
  "ACCESS_GROUP_ALLOW_FROM_PREFIX = ''accessGroup:''"

definition parseAccessGroupAllowFromEntry :: "string \<Rightarrow> string option" where
  "parseAccessGroupAllowFromEntry entry =
     (let trimmed = js_trim entry in
      if \<not> js_startsWith trimmed ACCESS_GROUP_ALLOW_FROM_PREFIX then None
      else let name = js_trim (drop (length ACCESS_GROUP_ALLOW_FROM_PREFIX) trimmed) in
        if length name > 0 then Some name else None)"

definition mergeDmAllowFromSources ::
  "js_value list option \<Rightarrow> js_value list option \<Rightarrow> string option \<Rightarrow> string list" where
  "mergeDmAllowFromSources allowFrom storeAllowFrom dmPolicy =
     (let storeEntries =
            (if dmPolicy = Some ''allowlist'' \<or> dmPolicy = Some ''open'' then []
             else coalesce storeAllowFrom [])
      in normalizeStringEntries (Some (coalesce allowFrom [] @ storeEntries)))"

definition resolveGroupAllowFromSources ::
  "js_value list option \<Rightarrow> js_value list option \<Rightarrow> bool option \<Rightarrow> string list" where
  "resolveGroupAllowFromSources allowFrom groupAllowFrom fallbackToAllowFrom =
     (let explicitGroupAllowFrom =
            (case groupAllowFrom of Some g \<Rightarrow> if length g > 0 then Some g else None | None \<Rightarrow> None);
          scoped =
            (case explicitGroupAllowFrom of
               Some g \<Rightarrow> g
             | None \<Rightarrow> if fallbackToAllowFrom = Some False then [] else coalesce allowFrom [])
      in normalizeStringEntries (Some scoped))"

fun firstDefined :: "'a option list \<Rightarrow> 'a option" where
  "firstDefined [] = None"
| "firstDefined (v # vs) = (case v of Some x \<Rightarrow> Some x | None \<Rightarrow> firstDefined vs)"

definition isSenderIdAllowed ::
  "string list \<Rightarrow> bool \<Rightarrow> bool \<Rightarrow> string option \<Rightarrow> bool \<Rightarrow> bool" where
  "isSenderIdAllowed entries hasWildcard hasEntries senderId allowWhenEmpty =
     (if \<not> hasEntries then allowWhenEmpty
      else if hasWildcard then True
      else (case senderId of
              None \<Rightarrow> False
            | Some s \<Rightarrow> if s = [] then False else s \<in> set entries))"

section \<open>effective-allow-from.ts\<close>

definition resolveChannelIngressEffectiveAllowFromLists ::
  "js_value list option \<Rightarrow> js_value list option \<Rightarrow> js_value list option \<Rightarrow> string option \<Rightarrow>
     bool option \<Rightarrow> string list \<times> string list" where
  "resolveChannelIngressEffectiveAllowFromLists allowFrom groupAllowFrom storeAllowFrom dmPolicy
       groupAllowFromFallbackToAllowFrom =
     (let effectiveAllowFrom = normalizeStringEntries (Some (map JString
            (mergeDmAllowFromSources allowFrom storeAllowFrom dmPolicy)));
          effectiveGroupAllowFrom = normalizeStringEntries (Some (map JString
            (resolveGroupAllowFromSources allowFrom groupAllowFrom
               groupAllowFromFallbackToAllowFrom)))
      in (effectiveAllowFrom, effectiveGroupAllowFrom))"

lemma mergeDmAllowFromSources_no_store:
  "dmPolicy = Some ''allowlist'' \<or> dmPolicy = Some ''open'' \<Longrightarrow>
     mergeDmAllowFromSources allow store dmPolicy = normalizeStringEntries allow"
  by (cases allow) (auto simp: mergeDmAllowFromSources_def Let_def)

lemma mergeDmAllowFromSources_store:
  "dmPolicy \<noteq> Some ''allowlist'' \<Longrightarrow> dmPolicy \<noteq> Some ''open'' \<Longrightarrow>
     mergeDmAllowFromSources allow store dmPolicy =
       normalizeStringEntries allow @ normalizeStringEntries store"
  by (cases allow; cases store)
     (auto simp: mergeDmAllowFromSources_def Let_def normalizeStringEntries_append)

lemma effective_lists_eq:
  "resolveChannelIngressEffectiveAllowFromLists allow grp store dmPolicy fb =
     (mergeDmAllowFromSources allow store dmPolicy, resolveGroupAllowFromSources allow grp fb)"
  by (simp add: resolveChannelIngressEffectiveAllowFromLists_def mergeDmAllowFromSources_def
      resolveGroupAllowFromSources_def Let_def)

lemma parseAccessGroup_prefix:
  "parseAccessGroupAllowFromEntry entry = Some name \<Longrightarrow>
     js_startsWith (js_trim entry) ACCESS_GROUP_ALLOW_FROM_PREFIX \<and> normalized_entry name"
  by (auto simp: parseAccessGroupAllowFromEntry_def Let_def normalized_entry_def split: if_splits)

lemma parseAccessGroup_wildcard [simp]: "parseAccessGroupAllowFromEntry ''*'' = None"
  by (simp add: parseAccessGroupAllowFromEntry_def js_trim_def js_white_space_def
      js_startsWith_def ACCESS_GROUP_ALLOW_FROM_PREFIX_def)

end
