(* ===== verification/Ingress_Types.thy ===== *)
theory Ingress_Types
  imports Channel_Gating
begin

text \<open>
  The data of the channel ingress kernel, \<^verbatim>\<open>src/channels/message-access/types.ts\<close>, with
  the access group config of \<^verbatim>\<open>src/config/types.access-groups.ts\<close>: string unions as
  datatypes, object types as records, the channel adapter as a record of functions.
  Field names keep the source's names behind a prefix per record.
\<close>

section \<open>Identifiers, entries and matches\<close>

datatype ChannelIngressIdentifierKind =
    StableId | Username | Email | Phone | Role | Plugin string

datatype Sensitivity = Normal | Pii

datatype IngressReasonCode =
    Allowed | RouteBlocked | RouteSenderEmpty
  | DmPolicyDisabled | DmPolicyOpen | DmPolicyAllowlisted | DmPolicyPairingRequired
  | DmPolicyNotAllowlisted
  | GroupPolicyDisabled | GroupPolicyOpen | GroupPolicyAllowed | GroupPolicyEmptyAllowlist
  | GroupPolicyNotAllowlisted
  | CommandAuthorized | ControlCommandUnauthorized
  | EventAuthorized | EventUnauthorized | EventPairingNotAllowed
  | SenderNotRequired | OriginSubjectMissing | OriginSubjectNotMatched
  | ActivationAllowed | ActivationSkipped
  | AccessGroupMissing | AccessGroupUnsupported | AccessGroupFailed
  | MutableIdentifierDisabled | NoPolicyMatch

record MatchableIdentifier =
  mi_opaqueId :: string
  mi_kind :: ChannelIngressIdentifierKind
  mi_dangerous :: "bool option"
  mi_sensitivity :: "Sensitivity option"

record InternalMatchMaterial = MatchableIdentifier +
  mi_value :: string

record InternalChannelIngressSubject =
  is_identifiers :: "InternalMatchMaterial list"

record ChannelIngressNormalizedEntry =
  ne_opaqueEntryId :: string
  ne_kind :: ChannelIngressIdentifierKind
  ne_dangerous :: "bool option"
  ne_sensitivity :: "Sensitivity option"

record InternalNormalizedEntry = ChannelIngressNormalizedEntry +
  ne_value :: string

record RedactedIngressEntryDiagnostic =
  dg_opaqueEntryId :: "string option"
  dg_reasonCode :: IngressReasonCode

record RedactedIngressMatch =
  rm_matched :: bool
  rm_matchedEntryIds :: "string list"

record InternalChannelIngressNormalizeResult =
  nr_matchable :: "InternalNormalizedEntry list"
  nr_invalid :: "RedactedIngressEntryDiagnostic list"
  nr_disabled :: "RedactedIngressEntryDiagnostic list"

datatype IngressContext = CtxDm | CtxGroup | CtxRoute | CtxCommand

text \<open>The adapter's two methods: \<^verbatim>\<open>normalizeEntries({entries, context, accountId})\<close> and
  \<^verbatim>\<open>matchSubject({subject, entries, context})\<close>.\<close>

record InternalChannelIngressAdapter =
  normalizeEntries ::
    "string list \<Rightarrow> IngressContext \<Rightarrow> string \<Rightarrow> InternalChannelIngressNormalizeResult"
  matchSubject ::
    "InternalChannelIngressSubject \<Rightarrow> InternalNormalizedEntry list \<Rightarrow> IngressContext \<Rightarrow>
       RedactedIngressMatch"

section \<open>Access groups\<close>

record MessageSendersAccessGroup =
  ms_members :: "(string, string list) jsmap"

record DiscordChannelAudienceAccessGroup =
  da_guildId :: string
  da_channelId :: string

datatype AccessGroupConfig =
    MessageSenders MessageSendersAccessGroup
  | DiscordChannelAudience DiscordChannelAudienceAccessGroup

datatype FactSource = Static | Dynamic

datatype FactProblem = Missing | Unsupported | Failed

datatype AccessGroupMembershipFact =
    FactMatched (fact_groupName: string) FactSource "string list"
  | FactNotMatched (fact_groupName: string) FactSource
  | FactProblem FactProblem (fact_groupName: string) FactSource IngressReasonCode "string option"

record AccessGroupResults =
  gs_referenced :: "string list"
  gs_matched :: "string list"
  gs_missing :: "string list"
  gs_unsupported :: "string list"
  gs_failed :: "string list"

section \<open>Resolved allowlists\<close>

record ResolvedIngressAllowlist =
  al_rawEntryCount :: nat
  al_normalizedEntries :: "ChannelIngressNormalizedEntry list"
  al_invalidEntries :: "RedactedIngressEntryDiagnostic list"
  al_disabledEntries :: "RedactedIngressEntryDiagnostic list"
  al_matchedEntryIds :: "string list"
  al_hasConfiguredEntries :: bool
  al_hasMatchableEntries :: bool
  al_hasWildcard :: bool
  al_accessGroups :: AccessGroupResults
  al_match :: RedactedIngressMatch

record RedactedIngressAllowlistFacts =
  af_configured :: bool
  af_matched :: bool
  af_reasonCode :: IngressReasonCode
  af_matchedEntryIds :: "string list"
  af_invalidEntryCount :: nat
  af_disabledEntryCount :: nat
  af_accessGroups :: AccessGroupResults

section \<open>Routes\<close>

datatype RouteGateState =
  RouteNotConfigured | RouteMatched | RouteNotMatched | RouteDisabled | RouteLookupFailed

datatype RouteSenderPolicy = Inherit | Replace | DenyWhenEmpty

datatype RouteSenderAllowlistSource = EffectiveDm | EffectiveGroup

datatype IngressGateKind =
    KRoute | KRouteSender | KDmSender | KGroupSender | KMembership | KOwnerAllowlist
  | KNestedAllowlist | KCommand | KEvent | KMention

datatype RouteKind = RkRoute | RkRouteSender | RkMembership | RkOwnerAllowlist | RkNestedAllowlist

fun gate_kind_of_route :: "RouteKind \<Rightarrow> IngressGateKind" where
  "gate_kind_of_route RkRoute = KRoute"
| "gate_kind_of_route RkRouteSender = KRouteSender"
| "gate_kind_of_route RkMembership = KMembership"
| "gate_kind_of_route RkOwnerAllowlist = KOwnerAllowlist"
| "gate_kind_of_route RkNestedAllowlist = KNestedAllowlist"

datatype IngressGateEffect =
  EffAllow | EffBlockDispatch | EffBlockCommand | EffSkip | EffObserve | EffIgnore

datatype RouteEffect = ReAllow | ReBlockDispatch | ReIgnore

fun gate_effect_of_route :: "RouteEffect \<Rightarrow> IngressGateEffect" where
  "gate_effect_of_route ReAllow = EffAllow"
| "gate_effect_of_route ReBlockDispatch = EffBlockDispatch"
| "gate_effect_of_route ReIgnore = EffIgnore"

record RouteGateFacts =
  rf_id :: string
  rf_kind :: RouteKind
  rf_gate :: RouteGateState
  rf_effect :: RouteEffect
  rf_precedence :: int
  rf_senderPolicy :: RouteSenderPolicy
  rf_senderAllowFrom :: "js_value list option"
  rf_senderAllowFromSource :: "RouteSenderAllowlistSource option"
  rf_match :: "RedactedIngressMatch option"

record ResolvedRouteGateFacts =
  rr_id :: string
  rr_kind :: RouteKind
  rr_gate :: RouteGateState
  rr_effect :: RouteEffect
  rr_precedence :: int
  rr_senderPolicy :: RouteSenderPolicy
  rr_match :: "RedactedIngressMatch option"
  rr_senderAllowlist :: "ResolvedIngressAllowlist option"

section \<open>Events, policies, conversations\<close>

datatype IngressEventKind =
  EvMessage | EvReaction | EvButton | EvPostback | EvNativeCommand | EvSlashCommand | EvSystem

datatype IngressAuthMode = AmInbound | AmCommand | AmOriginSubject | AmRouteOnly | AmNone

record ChannelIngressEventInput =
  ev_kind :: IngressEventKind
  ev_authMode :: IngressAuthMode
  ev_mayPair :: bool
  ev_originSubject :: "InternalChannelIngressSubject option"

record RedactedChannelIngressEvent =
  re_kind :: IngressEventKind
  re_authMode :: IngressAuthMode
  re_mayPair :: bool
  re_hasOriginSubject :: bool
  re_originSubjectMatched :: bool

datatype ConversationKind = Direct | Group | Channel

record IngressConversation =
  cv_kind :: ConversationKind
  cv_id :: string
  cv_parentId :: "string option"
  cv_threadId :: "string option"
  cv_title :: "string option"

datatype DmPolicy = DmPairing | DmAllowlist | DmOpen | DmDisabled

datatype GroupPolicy = GrAllowlist | GrOpen | GrDisabled

datatype MutableMatching = MutableDisabled | MutableEnabled

datatype ActivationOrder = BeforeSender | AfterCommand

record ActivationPolicy =
  ap_requireMention :: bool
  ap_allowTextCommands :: bool
  ap_allowedImplicitMentionKinds :: "InboundImplicitMentionKind list option"
  ap_order :: "ActivationOrder option"

record CommandPolicy =
  cp_useAccessGroups :: "bool option"
  cp_allowTextCommands :: bool
  cp_hasControlCommand :: bool
  cp_modeWhenAccessGroupsOff :: "CommandGatingMode option"

record ChannelIngressPolicyInput =
  pi_dmPolicy :: DmPolicy
  pi_groupPolicy :: GroupPolicy
  pi_groupAllowFromFallbackToAllowFrom :: "bool option"
  pi_mutableIdentifierMatching :: "MutableMatching option"
  pi_activation :: "ActivationPolicy option"
  pi_command :: "CommandPolicy option"

record IngressAllowlistInputs =
  ai_dm :: "js_value list option"
  ai_group :: "js_value list option"
  ai_commandOwner :: "js_value list option"
  ai_commandGroup :: "js_value list option"
  ai_pairingStore :: "js_value list option"

record ChannelIngressStateInput =
  si_channelId :: string
  si_accountId :: string
  si_subject :: InternalChannelIngressSubject
  si_conversation :: IngressConversation
  si_adapter :: InternalChannelIngressAdapter
  si_accessGroups :: "(string, AccessGroupConfig) jsmap option"
  si_accessGroupMembership :: "AccessGroupMembershipFact list option"
  si_routeFacts :: "RouteGateFacts list option"
  si_mentionFacts :: "InboundMentionFacts option"
  si_event :: ChannelIngressEventInput
  si_allowlists :: IngressAllowlistInputs

section \<open>The access graph\<close>

datatype IngressGatePhase = PhRoute | PhSender | PhCommand | PhEvent | PhActivation

datatype SenderPolicy = SpDm DmPolicy | SpGroup GroupPolicy

record GateCommandInfo =
  gc_useAccessGroups :: bool
  gc_allowTextCommands :: bool
  gc_modeWhenAccessGroupsOff :: "CommandGatingMode option"
  gc_shouldBlockControlCommand :: bool

record GateActivationInfo =
  ga_hasMentionFacts :: bool
  ga_requireMention :: bool
  ga_allowTextCommands :: bool
  ga_allowedImplicitMentionKinds :: "InboundImplicitMentionKind list option"
  ga_order :: "ActivationOrder option"
  ga_shouldSkip :: bool
  ga_canDetectMention :: "bool option"
  ga_wasMentioned :: "bool option"
  ga_hasAnyMention :: "bool option"
  ga_implicitMentionKinds :: "InboundImplicitMentionKind list option"
  ga_effectiveWasMentioned :: "bool option"
  ga_shouldBypassMention :: "bool option"

record AccessGraphGate =
  ag_id :: string
  ag_phase :: IngressGatePhase
  ag_kind :: IngressGateKind
  ag_effect :: IngressGateEffect
  ag_allowed :: bool
  ag_reasonCode :: IngressReasonCode
  ag_match :: "RedactedIngressMatch option"
  ag_allowlist :: "RedactedIngressAllowlistFacts option"
  ag_sender :: "SenderPolicy option"
  ag_command :: "GateCommandInfo option"
  ag_event :: "RedactedChannelIngressEvent option"
  ag_activation :: "GateActivationInfo option"

record IngressAllowlists =
  ls_dm :: ResolvedIngressAllowlist
  ls_pairingStore :: ResolvedIngressAllowlist
  ls_group :: ResolvedIngressAllowlist
  ls_commandOwner :: ResolvedIngressAllowlist
  ls_commandGroup :: ResolvedIngressAllowlist

record ChannelIngressState =
  st_channelId :: string
  st_accountId :: string
  st_conversationKind :: ConversationKind
  st_event :: RedactedChannelIngressEvent
  st_mentionFacts :: "InboundMentionFacts option"
  st_routeFacts :: "ResolvedRouteGateFacts list"
  st_allowlists :: IngressAllowlists

datatype ChannelIngressAdmission = Dispatch | Observe | Skip | Drop | PairingRequired

datatype IngressVerdict = VAllow | VBlock | VPairing

record ChannelIngressDecision =
  id_admission :: ChannelIngressAdmission
  id_decision :: IngressVerdict
  id_decisiveGateId :: string
  id_reasonCode :: IngressReasonCode
  id_gates :: "AccessGraphGate list"

text \<open>A gate with only its required fields; the constructors below add the rest.\<close>

definition basic_gate ::
  "string \<Rightarrow> IngressGatePhase \<Rightarrow> IngressGateKind \<Rightarrow> IngressGateEffect \<Rightarrow> bool \<Rightarrow>
     IngressReasonCode \<Rightarrow> AccessGraphGate" where
  "basic_gate gid phase kind effect allowed reasonCode =
     \<lparr>ag_id = gid, ag_phase = phase, ag_kind = kind, ag_effect = effect, ag_allowed = allowed,
      ag_reasonCode = reasonCode, ag_match = None, ag_allowlist = None, ag_sender = None,
      ag_command = None, ag_event = None, ag_activation = None\<rparr>"

lemma basic_gate_sel [simp]:
  "ag_id (basic_gate i p k e a r) = i"
  "ag_phase (basic_gate i p k e a r) = p"
  "ag_kind (basic_gate i p k e a r) = k"
  "ag_effect (basic_gate i p k e a r) = e"
  "ag_allowed (basic_gate i p k e a r) = a"
  "ag_reasonCode (basic_gate i p k e a r) = r"
  "ag_match (basic_gate i p k e a r) = None"
  "ag_allowlist (basic_gate i p k e a r) = None"
  "ag_sender (basic_gate i p k e a r) = None"
  "ag_command (basic_gate i p k e a r) = None"
  "ag_event (basic_gate i p k e a r) = None"
  "ag_activation (basic_gate i p k e a r) = None"
  by (simp_all add: basic_gate_def)

end
