(* ===== verification/Ingress_Allowlist.thy ===== *)
theory Ingress_Allowlist
  imports Ingress_Types
begin

text \<open>
  \<^verbatim>\<open>src/channels/message-access/allowlist.ts\<close>: merging resolved allowlists, withdrawing
  the authority of mutable identifiers, and choosing the allowlist that decides about the
  sender of a group message after route overrides. The invariant \<open>allowlist_ok\<close> says how the
  match of a resolved allowlist relates to its matched entry ids; every operation keeps it.
\<close>

definition allowlistFailureReason :: "ResolvedIngressAllowlist \<Rightarrow> IngressReasonCode option" where
  "allowlistFailureReason allowlist =
     (if length (gs_failed (al_accessGroups allowlist)) > 0 then Some AccessGroupFailed
      else if length (gs_unsupported (al_accessGroups allowlist)) > 0
      then Some AccessGroupUnsupported
      else if length (gs_missing (al_accessGroups allowlist)) > 0 then Some AccessGroupMissing
      else None)"

definition redactedAllowlistDiagnostics ::
  "ResolvedIngressAllowlist \<Rightarrow> IngressReasonCode \<Rightarrow> RedactedIngressAllowlistFacts" where
  "redactedAllowlistDiagnostics allowlist reasonCode =
     \<lparr>af_configured = al_hasConfiguredEntries allowlist,
      af_matched = rm_matched (al_match allowlist),
      af_reasonCode = reasonCode,
      af_matchedEntryIds = al_matchedEntryIds allowlist,
      af_invalidEntryCount = length (al_invalidEntries allowlist),
      af_disabledEntryCount = length (al_disabledEntries allowlist),
      af_accessGroups = al_accessGroups allowlist\<rparr>"

definition mergeResolvedAllowlists ::
  "ResolvedIngressAllowlist list \<Rightarrow> ResolvedIngressAllowlist" where
  "mergeResolvedAllowlists allowlists =
     (let matches = map al_match allowlists;
          matchedEntryIds = uniqueStrings (concat (map al_matchedEntryIds allowlists))
      in \<lparr>al_rawEntryCount = foldl (\<lambda>sum allowlist. sum + al_rawEntryCount allowlist) 0 allowlists,
          al_normalizedEntries = concat (map al_normalizedEntries allowlists),
          al_invalidEntries = concat (map al_invalidEntries allowlists),
          al_disabledEntries = concat (map al_disabledEntries allowlists),
          al_matchedEntryIds = matchedEntryIds,
          al_hasConfiguredEntries = list_ex al_hasConfiguredEntries allowlists,
          al_hasMatchableEntries = list_ex al_hasMatchableEntries allowlists,
          al_hasWildcard = list_ex al_hasWildcard allowlists,
          al_accessGroups =
            \<lparr>gs_referenced = uniqueStrings (concat (map (gs_referenced \<circ> al_accessGroups) allowlists)),
             gs_matched = uniqueStrings (concat (map (gs_matched \<circ> al_accessGroups) allowlists)),
             gs_missing = uniqueStrings (concat (map (gs_missing \<circ> al_accessGroups) allowlists)),
             gs_unsupported = uniqueStrings (concat (map (gs_unsupported \<circ> al_accessGroups) allowlists)),
             gs_failed = uniqueStrings (concat (map (gs_failed \<circ> al_accessGroups) allowlists))\<rparr>,
          al_match =
            \<lparr>rm_matched = list_ex rm_matched matches \<or> length matchedEntryIds > 0,
             rm_matchedEntryIds = matchedEntryIds\<rparr>\<rparr>)"

definition entry_dangerous :: "'a ChannelIngressNormalizedEntry_scheme \<Rightarrow> bool" where
  "entry_dangerous entry \<longleftrightarrow> ne_dangerous entry = Some True"

definition applyMutableIdentifierPolicy ::
  "ResolvedIngressAllowlist \<Rightarrow> ChannelIngressPolicyInput \<Rightarrow> ResolvedIngressAllowlist" where
  "applyMutableIdentifierPolicy allowlist policy =
     (if pi_mutableIdentifierMatching policy = Some MutableEnabled then allowlist
      else
        let dangerousEntryIds = js_set (map ne_opaqueEntryId
              (filter entry_dangerous (al_normalizedEntries allowlist)))
        in if length dangerousEntryIds = 0 then allowlist
           else
             let matchedEntryIds =
                   filter (\<lambda>i. i \<notin> set dangerousEntryIds) (al_matchedEntryIds allowlist);
                 disabledEntries =
                   al_disabledEntries allowlist @
                   map (\<lambda>entry. \<lparr>dg_opaqueEntryId = Some (ne_opaqueEntryId entry),
                                 dg_reasonCode = MutableIdentifierDisabled\<rparr>)
                     (filter entry_dangerous (al_normalizedEntries allowlist))
             in allowlist\<lparr>al_disabledEntries := disabledEntries,
                          al_matchedEntryIds := matchedEntryIds,
                          al_hasMatchableEntries :=
                            list_ex (\<lambda>entry. \<not> entry_dangerous entry) (al_normalizedEntries allowlist),
                          al_match := \<lparr>rm_matched = length matchedEntryIds > 0,
                                       rm_matchedEntryIds = matchedEntryIds\<rparr>\<rparr>)"

text \<open>The loop over the route facts of \<^verbatim>\<open>effectiveGroupSenderAllowlist\<close>.\<close>

fun applyRouteSenderAllowlists ::
  "ResolvedIngressAllowlist \<Rightarrow> ResolvedRouteGateFacts list \<Rightarrow> ResolvedIngressAllowlist" where
  "applyRouteSenderAllowlists effective [] = effective"
| "applyRouteSenderAllowlists effective (route # routes) =
     (case (if rr_gate route \<noteq> RouteMatched then None else rr_senderAllowlist route) of
        None \<Rightarrow> applyRouteSenderAllowlists effective routes
      | Some senderAllowlist \<Rightarrow>
          if rr_senderPolicy route = Inherit
          then applyRouteSenderAllowlists
                 (mergeResolvedAllowlists [effective, senderAllowlist]) routes
          else applyRouteSenderAllowlists senderAllowlist routes)"

definition effectiveGroupSenderAllowlist ::
  "ChannelIngressState \<Rightarrow> ChannelIngressPolicyInput \<Rightarrow> ResolvedIngressAllowlist" where
  "effectiveGroupSenderAllowlist state policy =
     (let effective =
            (if pi_groupAllowFromFallbackToAllowFrom policy = Some True \<and>
                \<not> al_hasConfiguredEntries (ls_group (st_allowlists state))
             then ls_dm (st_allowlists state) else ls_group (st_allowlists state))
      in applyMutableIdentifierPolicy
           (applyRouteSenderAllowlists effective (st_routeFacts state)) policy)"

section \<open>Well-formed allowlists\<close>

definition match_ok :: "RedactedIngressMatch \<Rightarrow> bool" where
  "match_ok m \<longleftrightarrow> (rm_matchedEntryIds m \<noteq> [] \<longrightarrow> rm_matched m)"

definition allowlist_ok :: "ResolvedIngressAllowlist \<Rightarrow> bool" where
  "allowlist_ok al \<longleftrightarrow>
     rm_matchedEntryIds (al_match al) = al_matchedEntryIds al \<and>
     distinct (al_matchedEntryIds al) \<and> match_ok (al_match al)"

lemma allowlist_ok_merge: "allowlist_ok (mergeResolvedAllowlists als)"
  by (simp add: mergeResolvedAllowlists_def allowlist_ok_def match_ok_def Let_def)

lemma allowlist_ok_mutable:
  "allowlist_ok al \<Longrightarrow> allowlist_ok (applyMutableIdentifierPolicy al policy)"
  by (auto simp: applyMutableIdentifierPolicy_def allowlist_ok_def match_ok_def Let_def)

definition state_allowlists_ok :: "ChannelIngressState \<Rightarrow> bool" where
  "state_allowlists_ok state \<longleftrightarrow>
     allowlist_ok (ls_dm (st_allowlists state)) \<and>
     allowlist_ok (ls_pairingStore (st_allowlists state)) \<and>
     allowlist_ok (ls_group (st_allowlists state)) \<and>
     allowlist_ok (ls_commandOwner (st_allowlists state)) \<and>
     allowlist_ok (ls_commandGroup (st_allowlists state)) \<and>
     (\<forall>route \<in> set (st_routeFacts state). \<forall>al.
        rr_senderAllowlist route = Some al \<longrightarrow> allowlist_ok al)"

lemma allowlist_ok_routes:
  "allowlist_ok al \<Longrightarrow>
     (\<And>route a. route \<in> set routes \<Longrightarrow> rr_senderAllowlist route = Some a \<Longrightarrow> allowlist_ok a) \<Longrightarrow>
     allowlist_ok (applyRouteSenderAllowlists al routes)"
proof (induction routes arbitrary: al)
  case (Cons route routes)
  have ih: "allowlist_ok a \<Longrightarrow> allowlist_ok (applyRouteSenderAllowlists a routes)" for a
    using Cons.IH Cons.prems(2) by auto
  show ?case
    using ih [OF Cons.prems(1)] ih [OF allowlist_ok_merge] ih [OF Cons.prems(2) [of route]]
    by (auto split: option.splits)
qed simp

lemma allowlist_ok_effective_group:
  "state_allowlists_ok state \<Longrightarrow> allowlist_ok (effectiveGroupSenderAllowlist state policy)"
  unfolding effectiveGroupSenderAllowlist_def Let_def
  by (intro allowlist_ok_mutable allowlist_ok_routes) (auto simp: state_allowlists_ok_def)

section \<open>Mutable identifiers\<close>

text \<open>The ids of dangerous entries of an allowlist.\<close>

definition dangerous_ids :: "ResolvedIngressAllowlist \<Rightarrow> string set" where
  "dangerous_ids al =
     {ne_opaqueEntryId e | e. e \<in> set (al_normalizedEntries al) \<and> ne_dangerous e = Some True}"

lemma set_dangerous_ids:
  "set (map ne_opaqueEntryId (filter entry_dangerous (al_normalizedEntries al))) = dangerous_ids al"
  by (auto simp: dangerous_ids_def entry_dangerous_def)

lemma dangerous_filter_Nil_iff:
  "filter entry_dangerous (al_normalizedEntries al) = [] \<longleftrightarrow> dangerous_ids al = {}"
  by (auto simp: dangerous_ids_def entry_dangerous_def filter_empty_conv)

lemma mutable_policy_unfold:
  "pi_mutableIdentifierMatching policy \<noteq> Some MutableEnabled \<Longrightarrow> dangerous_ids al \<noteq> {} \<Longrightarrow>
     al_matchedEntryIds (applyMutableIdentifierPolicy al policy) =
       filter (\<lambda>i. i \<notin> dangerous_ids al) (al_matchedEntryIds al) \<and>
     al_match (applyMutableIdentifierPolicy al policy) =
       \<lparr>rm_matched = filter (\<lambda>i. i \<notin> dangerous_ids al) (al_matchedEntryIds al) \<noteq> [],
        rm_matchedEntryIds = filter (\<lambda>i. i \<notin> dangerous_ids al) (al_matchedEntryIds al)\<rparr>"
  using set_dangerous_ids [of al] dangerous_filter_Nil_iff [of al]
  by (simp add: applyMutableIdentifierPolicy_def Let_def)

lemma mutable_policy_frame [simp]:
  "al_hasConfiguredEntries (applyMutableIdentifierPolicy al policy) = al_hasConfiguredEntries al"
  "al_hasWildcard (applyMutableIdentifierPolicy al policy) = al_hasWildcard al"
  "al_accessGroups (applyMutableIdentifierPolicy al policy) = al_accessGroups al"
  "al_normalizedEntries (applyMutableIdentifierPolicy al policy) = al_normalizedEntries al"
  by (simp_all add: applyMutableIdentifierPolicy_def Let_def)

lemma mutable_policy_harmless:
  "dangerous_ids al = {} \<Longrightarrow> applyMutableIdentifierPolicy al policy = al"
  by (simp add: applyMutableIdentifierPolicy_def Let_def dangerous_filter_Nil_iff)

lemma mutable_policy_enabled:
  "pi_mutableIdentifierMatching policy = Some MutableEnabled \<Longrightarrow>
     applyMutableIdentifierPolicy al policy = al"
  by (simp add: applyMutableIdentifierPolicy_def)

text \<open>What is left of a match under the policy: never a dangerous entry.\<close>

lemma mutable_policy_match:
  assumes "pi_mutableIdentifierMatching policy \<noteq> Some MutableEnabled"
    and "dangerous_ids al \<noteq> {}"
  shows "rm_matched (al_match (applyMutableIdentifierPolicy al policy)) \<longleftrightarrow>
    (\<exists>i \<in> set (al_matchedEntryIds al). i \<notin> dangerous_ids al)"
  using mutable_policy_unfold [OF assms] by (auto simp: filter_empty_conv)

lemma mutable_policy_no_dangerous:
  "pi_mutableIdentifierMatching policy \<noteq> Some MutableEnabled \<Longrightarrow>
     set (al_matchedEntryIds (applyMutableIdentifierPolicy al policy)) \<inter> dangerous_ids al = {}"
  by (cases "dangerous_ids al = {}") (auto simp: mutable_policy_unfold)

lemma mutable_policy_shrinks:
  "set (al_matchedEntryIds (applyMutableIdentifierPolicy al policy)) \<subseteq> set (al_matchedEntryIds al)"
  by (auto simp: applyMutableIdentifierPolicy_def Let_def)

lemma mutable_policy_match_mono:
  "allowlist_ok al \<Longrightarrow> rm_matched (al_match (applyMutableIdentifierPolicy al policy)) \<Longrightarrow>
     rm_matched (al_match al)"
  by (auto simp: applyMutableIdentifierPolicy_def allowlist_ok_def match_ok_def Let_def
      split: if_splits)

lemma mutable_policy_idem [simp]:
  "rm_matched (al_match (applyMutableIdentifierPolicy (applyMutableIdentifierPolicy al policy) policy)) =
     rm_matched (al_match (applyMutableIdentifierPolicy al policy))"
proof (cases "pi_mutableIdentifierMatching policy = Some MutableEnabled \<or> dangerous_ids al = {}")
  case True
  then show ?thesis by (auto simp: mutable_policy_harmless mutable_policy_enabled)
next
  case False
  moreover have "dangerous_ids (applyMutableIdentifierPolicy al policy) = dangerous_ids al"
    by (simp add: dangerous_ids_def)
  ultimately show ?thesis by (simp add: mutable_policy_unfold filter_empty_conv)
qed

section \<open>Merging\<close>

lemma merge_sel:
  "al_hasConfiguredEntries (mergeResolvedAllowlists [a, b]) =
     (al_hasConfiguredEntries a \<or> al_hasConfiguredEntries b)"
  "al_hasWildcard (mergeResolvedAllowlists [a, b]) = (al_hasWildcard a \<or> al_hasWildcard b)"
  "set (al_matchedEntryIds (mergeResolvedAllowlists [a, b])) =
     set (al_matchedEntryIds a) \<union> set (al_matchedEntryIds b)"
  "al_normalizedEntries (mergeResolvedAllowlists [a, b]) =
     al_normalizedEntries a @ al_normalizedEntries b"
  by (simp_all add: mergeResolvedAllowlists_def Let_def)

lemma merge_matched:
  "allowlist_ok a \<Longrightarrow> allowlist_ok b \<Longrightarrow>
     rm_matched (al_match (mergeResolvedAllowlists [a, b])) =
       (rm_matched (al_match a) \<or> rm_matched (al_match b))"
  by (auto simp: mergeResolvedAllowlists_def Let_def allowlist_ok_def match_ok_def)

lemma merge_matched_or:
  "rm_matched (al_match a) \<or> rm_matched (al_match b) \<Longrightarrow>
     rm_matched (al_match (mergeResolvedAllowlists [a, b]))"
  by (auto simp: mergeResolvedAllowlists_def Let_def)

end
