(* ===== verification/Ingress_Decision.thy ===== *)
theory Ingress_Decision
  imports Ingress_Allowlist
begin

text \<open>
  The sender gates (\<^verbatim>\<open>sender-gates.ts\<close>) and the decision graph (\<^verbatim>\<open>decision.ts\<close>) of
  \<^verbatim>\<open>src/channels/message-access\<close>: route gates, the sender gate with the event auth mode,
  the command, event and activation gates, and their reduction to one admission.
  The lemmas describe every gate on every branch and the order in which the gates decide.
\<close>

section \<open>sender-gates.ts\<close>

definition senderGate ::
  "string \<Rightarrow> IngressGateKind \<Rightarrow> IngressGateEffect \<Rightarrow> bool \<Rightarrow> IngressReasonCode \<Rightarrow>
     RedactedIngressMatch \<Rightarrow> SenderPolicy \<Rightarrow> ResolvedIngressAllowlist \<Rightarrow> AccessGraphGate" where
  "senderGate gid kind effect allowed reasonCode match policy allowlistSource =
     (basic_gate gid PhSender kind effect allowed reasonCode)
       \<lparr>ag_match := Some match, ag_sender := Some policy,
        ag_allowlist := Some (redactedAllowlistDiagnostics allowlistSource reasonCode)\<rparr>"

definition senderGateForDirect ::
  "ChannelIngressState \<Rightarrow> ChannelIngressPolicyInput \<Rightarrow> AccessGraphGate" where
  "senderGateForDirect state policy =
     (let dm = applyMutableIdentifierPolicy (ls_dm (st_allowlists state)) policy;
          pairingStore = applyMutableIdentifierPolicy (ls_pairingStore (st_allowlists state)) policy;
          pol = SpDm (pi_dmPolicy policy);
          allow = (\<lambda>reasonCode.
            senderGate ''sender:dm'' KDmSender EffAllow True reasonCode (al_match dm) pol dm);
          block = (\<lambda>reasonCode.
            senderGate ''sender:dm'' KDmSender EffBlockDispatch False reasonCode (al_match dm) pol dm)
      in if pi_dmPolicy policy = DmDisabled then block DmPolicyDisabled
         else if pi_dmPolicy policy = DmOpen then
           if al_hasWildcard dm then allow DmPolicyOpen
           else if rm_matched (al_match dm) then allow DmPolicyAllowlisted
           else block DmPolicyNotAllowlisted
         else if rm_matched (al_match dm) then allow DmPolicyAllowlisted
         else if pi_dmPolicy policy = DmPairing \<and> rm_matched (al_match pairingStore) then
           senderGate ''sender:dm'' KDmSender EffAllow True DmPolicyAllowlisted
             (al_match pairingStore) pol pairingStore
         else if pi_dmPolicy policy = DmPairing \<and> re_mayPair (st_event state) then
           block DmPolicyPairingRequired
         else block
           (if pi_dmPolicy policy = DmPairing then EventPairingNotAllowed
            else coalesce (allowlistFailureReason dm) DmPolicyNotAllowlisted))"

definition senderGateForGroup ::
  "ChannelIngressState \<Rightarrow> ChannelIngressPolicyInput \<Rightarrow> AccessGraphGate" where
  "senderGateForGroup state policy =
     (let grp = effectiveGroupSenderAllowlist state policy;
          pol = SpGroup (pi_groupPolicy policy);
          allow = (\<lambda>reasonCode.
            senderGate ''sender:group'' KGroupSender EffAllow True reasonCode (al_match grp) pol grp);
          block = (\<lambda>reasonCode.
            senderGate ''sender:group'' KGroupSender EffBlockDispatch False reasonCode (al_match grp)
              pol grp)
      in if pi_groupPolicy policy = GrDisabled then block GroupPolicyDisabled
         else if pi_groupPolicy policy = GrOpen then allow GroupPolicyOpen
         else if \<not> al_hasConfiguredEntries grp then block GroupPolicyEmptyAllowlist
         else if rm_matched (al_match grp) then allow GroupPolicyAllowed
         else block (coalesce (allowlistFailureReason grp) GroupPolicyNotAllowlisted))"

definition applyEventAuthModeToSenderGate ::
  "ChannelIngressState \<Rightarrow> AccessGraphGate \<Rightarrow> AccessGraphGate" where
  "applyEventAuthModeToSenderGate state gate =
     (if re_authMode (st_event state) = AmInbound \<or> ag_allowed gate then gate
      else gate\<lparr>ag_effect := EffIgnore, ag_allowed := True, ag_reasonCode := SenderNotRequired,
                ag_allowlist := map_option (\<lambda>f. f\<lparr>af_reasonCode := SenderNotRequired\<rparr>)
                  (ag_allowlist gate)\<rparr>)"

section \<open>decision.ts\<close>

definition decisiveDecision ::
  "ChannelIngressAdmission \<Rightarrow> IngressVerdict \<Rightarrow> AccessGraphGate \<Rightarrow> AccessGraphGate list \<Rightarrow>
     ChannelIngressDecision" where
  "decisiveDecision admission decision gate gates =
     \<lparr>id_admission = admission, id_decision = decision, id_decisiveGateId = ag_id gate,
      id_reasonCode = ag_reasonCode gate, id_gates = gates\<rparr>"

definition routeGates :: "ChannelIngressState \<Rightarrow> AccessGraphGate list" where
  "routeGates state = map (\<lambda>route.
     (basic_gate (rr_id route) PhRoute (gate_kind_of_route (rr_kind route))
        (gate_effect_of_route (rr_effect route)) (rr_effect route \<noteq> ReBlockDispatch)
        (if rr_effect route = ReBlockDispatch then RouteBlocked else Allowed))
       \<lparr>ag_match := rr_match route\<rparr>) (st_routeFacts state)"

definition routeSenderEmptyGate :: "ChannelIngressState \<Rightarrow> AccessGraphGate option" where
  "routeSenderEmptyGate state =
     (case List.find (\<lambda>fact. rr_senderPolicy fact = DenyWhenEmpty \<and> rr_gate fact = RouteMatched \<and>
          map_option al_hasConfiguredEntries (rr_senderAllowlist fact) \<noteq> Some True)
        (st_routeFacts state) of
        None \<Rightarrow> None
      | Some route \<Rightarrow> Some
          ((basic_gate (rr_id route @ '':sender'') PhRoute KRouteSender EffBlockDispatch False
              RouteSenderEmpty)
             \<lparr>ag_match := rr_match route,
              ag_allowlist := map_option (\<lambda>al. redactedAllowlistDiagnostics al RouteSenderEmpty)
                (rr_senderAllowlist route)\<rparr>))"

definition mergeCommandMatch ::
  "RedactedIngressMatch \<Rightarrow> RedactedIngressMatch \<Rightarrow> RedactedIngressMatch" where
  "mergeCommandMatch owner grp =
     (let matchedEntryIds = uniqueStrings (rm_matchedEntryIds owner @ rm_matchedEntryIds grp)
      in \<lparr>rm_matched = rm_matched owner \<or> rm_matched grp \<or> length matchedEntryIds > 0,
          rm_matchedEntryIds = matchedEntryIds\<rparr>)"

definition commandGate ::
  "ChannelIngressState \<Rightarrow> ChannelIngressPolicyInput \<Rightarrow> AccessGraphGate" where
  "commandGate state policy =
     (case pi_command policy of
        None \<Rightarrow> basic_gate ''command'' PhCommand KCommand EffAllow True CommandAuthorized
      | Some command \<Rightarrow>
          let useAccessGroups = coalesce (cp_useAccessGroups command) True;
              owner = applyMutableIdentifierPolicy (ls_commandOwner (st_allowlists state)) policy;
              grp = applyMutableIdentifierPolicy (ls_commandGroup (st_allowlists state)) policy;
              authorized = resolveCommandAuthorizedFromAuthorizers useAccessGroups
                [\<lparr>ca_configured = al_hasConfiguredEntries owner, ca_allowed = rm_matched (al_match owner)\<rparr>,
                 \<lparr>ca_configured = al_hasConfiguredEntries grp, ca_allowed = rm_matched (al_match grp)\<rparr>]
                (cp_modeWhenAccessGroupsOff command);
              shouldBlock = cp_allowTextCommands command \<and> cp_hasControlCommand command \<and> \<not> authorized
          in (basic_gate ''command'' PhCommand KCommand
                (if shouldBlock then EffBlockCommand else EffAllow) authorized
                (if shouldBlock then ControlCommandUnauthorized else CommandAuthorized))
               \<lparr>ag_match := Some (mergeCommandMatch (al_match owner) (al_match grp)),
                ag_command := Some \<lparr>gc_useAccessGroups = useAccessGroups,
                  gc_allowTextCommands = cp_allowTextCommands command,
                  gc_modeWhenAccessGroupsOff = cp_modeWhenAccessGroupsOff command,
                  gc_shouldBlockControlCommand = shouldBlock\<rparr>\<rparr>)"

definition eventGate ::
  "ChannelIngressState \<Rightarrow> AccessGraphGate \<Rightarrow> AccessGraphGate \<Rightarrow> AccessGraphGate" where
  "eventGate state sender command =
     (let event = st_event state;
          authMode = re_authMode event;
          eventResult = (\<lambda>allowed reasonCode.
            (basic_gate ''event'' PhEvent KEvent (if allowed then EffAllow else EffBlockDispatch)
               allowed reasonCode)\<lparr>ag_event := Some event\<rparr>)
      in if authMode = AmNone \<or> authMode = AmRouteOnly then eventResult True EventAuthorized
         else if authMode = AmCommand then
           eventResult (ag_allowed command)
             (if ag_allowed command then EventAuthorized else EventUnauthorized)
         else if authMode = AmOriginSubject then
           if \<not> re_hasOriginSubject event then eventResult False OriginSubjectMissing
           else eventResult (re_originSubjectMatched event)
             (if re_originSubjectMatched event then EventAuthorized else OriginSubjectNotMatched)
         else eventResult (ag_allowed sender)
           (if ag_allowed sender then EventAuthorized else EventUnauthorized))"

definition activationMetadata ::
  "ActivationPolicy option \<Rightarrow> InboundMentionFacts option \<Rightarrow> bool \<Rightarrow> bool option \<Rightarrow> bool option \<Rightarrow>
     GateActivationInfo" where
  "activationMetadata activation mentionFacts shouldSkip effectiveWasMentioned shouldBypassMention =
     \<lparr>ga_hasMentionFacts = mentionFacts \<noteq> None,
      ga_requireMention = coalesce (map_option ap_requireMention activation) False,
      ga_allowTextCommands = coalesce (map_option ap_allowTextCommands activation) False,
      ga_allowedImplicitMentionKinds = Option.bind activation ap_allowedImplicitMentionKinds,
      ga_order = Option.bind activation ap_order,
      ga_shouldSkip = shouldSkip,
      ga_canDetectMention = map_option mf_canDetectMention mentionFacts,
      ga_wasMentioned = map_option mf_wasMentioned mentionFacts,
      ga_hasAnyMention = Option.bind mentionFacts mf_hasAnyMention,
      ga_implicitMentionKinds = Option.bind mentionFacts mf_implicitMentionKinds,
      ga_effectiveWasMentioned = effectiveWasMentioned,
      ga_shouldBypassMention = shouldBypassMention\<rparr>"

definition activationResult ::
  "ActivationPolicy option \<Rightarrow> InboundMentionFacts option \<Rightarrow> bool \<Rightarrow> bool option \<Rightarrow> bool option \<Rightarrow>
     AccessGraphGate" where
  "activationResult activation mentionFacts shouldSkip effectiveWasMentioned shouldBypassMention =
     (basic_gate ''activation'' PhActivation KMention (if shouldSkip then EffSkip else EffAllow)
        (\<not> shouldSkip) (if shouldSkip then ActivationSkipped else ActivationAllowed))
       \<lparr>ag_activation := Some (activationMetadata activation mentionFacts shouldSkip
          effectiveWasMentioned shouldBypassMention)\<rparr>"

definition activationGate ::
  "ChannelIngressState \<Rightarrow> ChannelIngressPolicyInput \<Rightarrow> AccessGraphGate \<Rightarrow> AccessGraphGate" where
  "activationGate state policy command =
     (case (pi_activation policy, st_mentionFacts state) of
        (Some activation, Some facts) \<Rightarrow>
          let result = resolveInboundMentionDecision (NestedParams facts
                \<lparr>mp_isGroup = st_conversationKind state \<noteq> Direct,
                 mp_requireMention = ap_requireMention activation,
                 mp_allowedImplicitMentionKinds = ap_allowedImplicitMentionKinds activation,
                 mp_allowTextCommands = ap_allowTextCommands activation,
                 mp_hasControlCommand =
                   coalesce (map_option cp_hasControlCommand (pi_command policy)) False,
                 mp_commandAuthorized = ag_allowed command\<rparr>)
          in activationResult (Some activation) (Some facts) (md_shouldSkip result)
               (Some (md_effectiveWasMentioned result)) (Some (md_shouldBypassMention result))
      | (activation, mentionFacts) \<Rightarrow>
          activationResult activation mentionFacts False
            (map_option (\<lambda>facts. mf_wasMentioned facts \<or>
               length (coalesce (mf_implicitMentionKinds facts) []) > 0) mentionFacts) None)"

definition activationBeforeSenderGate ::
  "ChannelIngressState \<Rightarrow> ChannelIngressPolicyInput \<Rightarrow> AccessGraphGate option" where
  "activationBeforeSenderGate state policy =
     (case pi_activation policy of
        Some activation \<Rightarrow>
          if ap_order activation = Some BeforeSender \<and> \<not> ap_allowTextCommands activation
          then Some (activationGate state policy
                 (commandGate state (policy\<lparr>pi_command := None\<rparr>)))
          else None
      | None \<Rightarrow> None)"

text \<open>The rest of \<^verbatim>\<open>decideChannelIngress\<close> once routes and an early activation gate have
  let the event through; \<open>gates\<close> are the gates evaluated so far.\<close>

definition decideAfterRoutes ::
  "ChannelIngressState \<Rightarrow> ChannelIngressPolicyInput \<Rightarrow> AccessGraphGate list \<Rightarrow>
     AccessGraphGate option \<Rightarrow> ChannelIngressDecision" where
  "decideAfterRoutes state policy gates0 activationBeforeSender =
     (let sender = (if st_conversationKind state = Direct then senderGateForDirect state policy
                    else senderGateForGroup state policy);
          eventModeSender = applyEventAuthModeToSenderGate state sender;
          gates1 = gates0 @ [eventModeSender]
      in if \<not> ag_allowed eventModeSender then
           decisiveDecision
             (if ag_reasonCode eventModeSender = DmPolicyPairingRequired then PairingRequired else Drop)
             (if ag_reasonCode eventModeSender = DmPolicyPairingRequired then VPairing else VBlock)
             eventModeSender gates1
         else
           let command = commandGate state policy;
               gates2 = gates1 @ [command]
           in if ag_effect command = EffBlockCommand then decisiveDecision Drop VBlock command gates2
              else
                let event = eventGate state eventModeSender command;
                    gates3 = gates2 @ [event]
                in if \<not> ag_allowed event then decisiveDecision Drop VBlock event gates3
                   else
                     let activation = coalesce activationBeforeSender
                           (activationGate state policy command);
                         gates4 = (if activationBeforeSender = None then gates3 @ [activation]
                                   else gates3)
                     in if ag_effect activation = EffSkip
                        then decisiveDecision Skip VAllow activation gates4
                        else if ag_effect activation = EffObserve
                        then decisiveDecision Observe VAllow activation gates4
                        else decisiveDecision Dispatch VAllow activation gates4)"

definition decideChannelIngress ::
  "ChannelIngressState \<Rightarrow> ChannelIngressPolicyInput \<Rightarrow> ChannelIngressDecision" where
  "decideChannelIngress state policy =
     (let gates0 = routeGates state @
            (case routeSenderEmptyGate state of None \<Rightarrow> [] | Some gate \<Rightarrow> [gate])
      in case List.find (\<lambda>entry. ag_effect entry = EffBlockDispatch) gates0 of
           Some routeBlock \<Rightarrow> decisiveDecision Drop VBlock routeBlock gates0
         | None \<Rightarrow>
             (case activationBeforeSenderGate state policy of
                None \<Rightarrow> decideAfterRoutes state policy gates0 None
              | Some activationBeforeSender \<Rightarrow>
                  let gates1 = gates0 @ [activationBeforeSender]
                  in if ag_effect activationBeforeSender = EffSkip
                     then decisiveDecision Skip VAllow activationBeforeSender gates1
                     else decideAfterRoutes state policy gates1 (Some activationBeforeSender)))"


section \<open>The sender gate on every branch\<close>

lemma senderGate_sel [simp]:
  "ag_id (senderGate gid k e a r m pol al) = gid"
  "ag_phase (senderGate gid k e a r m pol al) = PhSender"
  "ag_kind (senderGate gid k e a r m pol al) = k"
  "ag_effect (senderGate gid k e a r m pol al) = e"
  "ag_allowed (senderGate gid k e a r m pol al) = a"
  "ag_reasonCode (senderGate gid k e a r m pol al) = r"
  by (simp_all add: senderGate_def)

abbreviation dm_list :: "ChannelIngressState \<Rightarrow> ChannelIngressPolicyInput \<Rightarrow> ResolvedIngressAllowlist" where
  "dm_list state policy \<equiv> applyMutableIdentifierPolicy (ls_dm (st_allowlists state)) policy"

abbreviation store_list :: "ChannelIngressState \<Rightarrow> ChannelIngressPolicyInput \<Rightarrow> ResolvedIngressAllowlist" where
  "store_list state policy \<equiv>
     applyMutableIdentifierPolicy (ls_pairingStore (st_allowlists state)) policy"

text \<open>When the direct sender gate lets a sender through, and when it asks for pairing.\<close>

definition dm_sender_ok :: "ChannelIngressState \<Rightarrow> ChannelIngressPolicyInput \<Rightarrow> bool" where
  "dm_sender_ok state policy \<longleftrightarrow>
     pi_dmPolicy policy \<noteq> DmDisabled \<and>
     (rm_matched (al_match (dm_list state policy)) \<or>
      pi_dmPolicy policy = DmOpen \<and> al_hasWildcard (ls_dm (st_allowlists state)) \<or>
      pi_dmPolicy policy = DmPairing \<and> rm_matched (al_match (store_list state policy)))"

definition group_sender_ok :: "ChannelIngressState \<Rightarrow> ChannelIngressPolicyInput \<Rightarrow> bool" where
  "group_sender_ok state policy \<longleftrightarrow>
     pi_groupPolicy policy = GrOpen \<or>
     pi_groupPolicy policy = GrAllowlist \<and>
     al_hasConfiguredEntries (effectiveGroupSenderAllowlist state policy) \<and>
     rm_matched (al_match (effectiveGroupSenderAllowlist state policy))"

lemma direct_gate_allowed [gate_defs]:
  "ag_allowed (senderGateForDirect state policy) = dm_sender_ok state policy"
  by (cases "pi_dmPolicy policy")
     (auto simp: senderGateForDirect_def dm_sender_ok_def Let_def)

lemma group_gate_allowed [gate_defs]:
  "ag_allowed (senderGateForGroup state policy) = group_sender_ok state policy"
  by (cases "pi_groupPolicy policy")
     (auto simp: senderGateForGroup_def group_sender_ok_def Let_def)

lemma allowlistFailureReason_cases:
  "allowlistFailureReason al \<in> {None, Some AccessGroupFailed, Some AccessGroupUnsupported,
     Some AccessGroupMissing}"
  by (simp add: allowlistFailureReason_def)

lemma failure_reason_not_pairing [simp]:
  "coalesce (allowlistFailureReason al) DmPolicyNotAllowlisted \<noteq> DmPolicyPairingRequired"
  "coalesce (allowlistFailureReason al) GroupPolicyNotAllowlisted \<noteq> DmPolicyPairingRequired"
  using allowlistFailureReason_cases [of al] by auto

lemma direct_gate_pairing:
  "ag_reasonCode (senderGateForDirect state policy) = DmPolicyPairingRequired \<longleftrightarrow>
     pi_dmPolicy policy = DmPairing \<and> re_mayPair (st_event state) \<and> \<not> dm_sender_ok state policy"
  by (cases "pi_dmPolicy policy")
     (auto simp: senderGateForDirect_def dm_sender_ok_def Let_def)

lemma group_gate_pairing:
  "ag_reasonCode (senderGateForGroup state policy) \<noteq> DmPolicyPairingRequired"
  by (auto simp: senderGateForGroup_def Let_def)

lemma direct_gate_shape [simp]:
  "ag_id (senderGateForDirect state policy) = ''sender:dm''"
  "ag_phase (senderGateForDirect state policy) = PhSender"
  "ag_effect (senderGateForDirect state policy) =
     (if dm_sender_ok state policy then EffAllow else EffBlockDispatch)"
  by (cases "pi_dmPolicy policy"; auto simp: senderGateForDirect_def dm_sender_ok_def Let_def)+

lemma group_gate_shape [simp]:
  "ag_id (senderGateForGroup state policy) = ''sender:group''"
  "ag_phase (senderGateForGroup state policy) = PhSender"
  "ag_effect (senderGateForGroup state policy) =
     (if group_sender_ok state policy then EffAllow else EffBlockDispatch)"
  by (cases "pi_groupPolicy policy"; auto simp: senderGateForGroup_def group_sender_ok_def Let_def)+

text \<open>The sender gate of the decision, after the event auth mode.\<close>

definition sender_gate :: "ChannelIngressState \<Rightarrow> ChannelIngressPolicyInput \<Rightarrow> AccessGraphGate" where
  "sender_gate state policy = applyEventAuthModeToSenderGate state
     (if st_conversationKind state = Direct then senderGateForDirect state policy
      else senderGateForGroup state policy)"

definition sender_ok :: "ChannelIngressState \<Rightarrow> ChannelIngressPolicyInput \<Rightarrow> bool" where
  "sender_ok state policy \<longleftrightarrow>
     (if st_conversationKind state = Direct then dm_sender_ok state policy
      else group_sender_ok state policy)"

lemma sender_gate_allowed [gate_defs]:
  "ag_allowed (sender_gate state policy) \<longleftrightarrow>
     re_authMode (st_event state) \<noteq> AmInbound \<or> sender_ok state policy"
  by (auto simp: sender_gate_def sender_ok_def applyEventAuthModeToSenderGate_def
      direct_gate_allowed group_gate_allowed)

lemma sender_gate_shape [simp]:
  "ag_phase (sender_gate state policy) = PhSender"
  by (auto simp: sender_gate_def applyEventAuthModeToSenderGate_def)

lemma sender_gate_pairing:
  "\<not> ag_allowed (sender_gate state policy) \<Longrightarrow>
     ag_reasonCode (sender_gate state policy) = DmPolicyPairingRequired \<longleftrightarrow>
       st_conversationKind state = Direct \<and> pi_dmPolicy policy = DmPairing \<and>
       re_mayPair (st_event state)"
  by (auto simp: sender_gate_def applyEventAuthModeToSenderGate_def direct_gate_pairing
      group_gate_pairing direct_gate_allowed split: if_splits)

section \<open>The command, event and activation gates\<close>

definition command_authorizers ::
  "ChannelIngressState \<Rightarrow> ChannelIngressPolicyInput \<Rightarrow> CommandAuthorizer list" where
  "command_authorizers state policy =
     (let owner = applyMutableIdentifierPolicy (ls_commandOwner (st_allowlists state)) policy;
          grp = applyMutableIdentifierPolicy (ls_commandGroup (st_allowlists state)) policy
      in [\<lparr>ca_configured = al_hasConfiguredEntries owner, ca_allowed = rm_matched (al_match owner)\<rparr>,
          \<lparr>ca_configured = al_hasConfiguredEntries grp, ca_allowed = rm_matched (al_match grp)\<rparr>])"

definition command_ok :: "ChannelIngressState \<Rightarrow> ChannelIngressPolicyInput \<Rightarrow> bool" where
  "command_ok state policy \<longleftrightarrow>
     (case pi_command policy of
        None \<Rightarrow> True
      | Some command \<Rightarrow> resolveCommandAuthorizedFromAuthorizers
          (coalesce (cp_useAccessGroups command) True) (command_authorizers state policy)
          (cp_modeWhenAccessGroupsOff command))"

definition control_command :: "ChannelIngressPolicyInput \<Rightarrow> bool" where
  "control_command policy \<longleftrightarrow>
     (\<exists>command. pi_command policy = Some command \<and> cp_allowTextCommands command \<and>
        cp_hasControlCommand command)"

lemma commandGate_sel [gate_defs]:
  "ag_id (commandGate state policy) = ''command''"
  "ag_phase (commandGate state policy) = PhCommand"
  "ag_allowed (commandGate state policy) = command_ok state policy"
  "ag_effect (commandGate state policy) =
     (if control_command policy \<and> \<not> command_ok state policy then EffBlockCommand else EffAllow)"
  "ag_reasonCode (commandGate state policy) =
     (if control_command policy \<and> \<not> command_ok state policy then ControlCommandUnauthorized
      else CommandAuthorized)"
  by (auto simp: commandGate_def command_ok_def control_command_def command_authorizers_def Let_def
      split: option.splits)

definition event_ok ::
  "ChannelIngressState \<Rightarrow> AccessGraphGate \<Rightarrow> AccessGraphGate \<Rightarrow> bool" where
  "event_ok state sender command \<longleftrightarrow>
     (case re_authMode (st_event state) of
        AmNone \<Rightarrow> True
      | AmRouteOnly \<Rightarrow> True
      | AmCommand \<Rightarrow> ag_allowed command
      | AmOriginSubject \<Rightarrow>
          re_hasOriginSubject (st_event state) \<and> re_originSubjectMatched (st_event state)
      | AmInbound \<Rightarrow> ag_allowed sender)"

lemma eventGate_sel [gate_defs]:
  "ag_id (eventGate state sender command) = ''event''"
  "ag_phase (eventGate state sender command) = PhEvent"
  "ag_allowed (eventGate state sender command) = event_ok state sender command"
  "ag_effect (eventGate state sender command) =
     (if event_ok state sender command then EffAllow else EffBlockDispatch)"
  by (cases "re_authMode (st_event state)"; auto simp: eventGate_def event_ok_def Let_def)+

lemma activationResult_sel [simp]:
  "ag_id (activationResult a f s e b) = ''activation''"
  "ag_phase (activationResult a f s e b) = PhActivation"
  "ag_effect (activationResult a f s e b) = (if s then EffSkip else EffAllow)"
  "ag_allowed (activationResult a f s e b) = (\<not> s)"
  "ag_reasonCode (activationResult a f s e b) = (if s then ActivationSkipped else ActivationAllowed)"
  by (simp_all add: activationResult_def)

text \<open>When the activation gate skips the event: facts and a policy are present and the
  mention decision says so. \<open>authorized\<close> is the command gate's verdict.\<close>

definition activation_skips ::
  "ChannelIngressState \<Rightarrow> ChannelIngressPolicyInput \<Rightarrow> bool \<Rightarrow> bool" where
  "activation_skips state policy authorized \<longleftrightarrow>
     (\<exists>activation facts. pi_activation policy = Some activation \<and>
        st_mentionFacts state = Some facts \<and>
        md_shouldSkip (resolveInboundMentionDecision (NestedParams facts
          \<lparr>mp_isGroup = st_conversationKind state \<noteq> Direct,
           mp_requireMention = ap_requireMention activation,
           mp_allowedImplicitMentionKinds = ap_allowedImplicitMentionKinds activation,
           mp_allowTextCommands = ap_allowTextCommands activation,
           mp_hasControlCommand =
             coalesce (map_option cp_hasControlCommand (pi_command policy)) False,
           mp_commandAuthorized = authorized\<rparr>)))"

lemma activationGate_sel [gate_defs]:
  "ag_id (activationGate state policy command) = ''activation''"
  "ag_phase (activationGate state policy command) = PhActivation"
  "ag_effect (activationGate state policy command) =
     (if activation_skips state policy (ag_allowed command) then EffSkip else EffAllow)"
  "ag_allowed (activationGate state policy command) =
     (\<not> activation_skips state policy (ag_allowed command))"
  by (auto simp: activationGate_def activation_skips_def Let_def split: option.splits)

definition early_activation :: "ChannelIngressPolicyInput \<Rightarrow> bool" where
  "early_activation policy \<longleftrightarrow>
     (\<exists>activation. pi_activation policy = Some activation \<and>
        ap_order activation = Some BeforeSender \<and> \<not> ap_allowTextCommands activation)"

text \<open>Without text commands the command gate's verdict does not reach the mention decision:
  evaluating the activation early, against an absent command, gives the same answer.\<close>

lemma early_activation_same:
  "early_activation policy \<Longrightarrow>
     activation_skips state (policy\<lparr>pi_command := c\<rparr>) a = activation_skips state policy b"
  by (auto simp: early_activation_def activation_skips_def resolveInboundMentionDecision_def
      resolveMentionDecisionCore_def Let_def)

lemma activationBeforeSenderGate_eq:
  "activationBeforeSenderGate state policy =
     (if early_activation policy
      then Some (activationGate state policy (commandGate state (policy\<lparr>pi_command := None\<rparr>)))
      else None)"
  by (auto simp: activationBeforeSenderGate_def early_activation_def split: option.splits)

section \<open>The decision against its specification\<close>

definition routes_open :: "ChannelIngressState \<Rightarrow> bool" where
  "routes_open state \<longleftrightarrow>
     list_all (\<lambda>route. rr_effect route \<noteq> ReBlockDispatch \<and>
       \<not> (rr_senderPolicy route = DenyWhenEmpty \<and> rr_gate route = RouteMatched \<and>
          map_option al_hasConfiguredEntries (rr_senderAllowlist route) \<noteq> Some True))
       (st_routeFacts state)"

definition auth_ok :: "ChannelIngressState \<Rightarrow> ChannelIngressPolicyInput \<Rightarrow> bool" where
  "auth_ok state policy \<longleftrightarrow>
     (case re_authMode (st_event state) of
        AmInbound \<Rightarrow> sender_ok state policy
      | AmCommand \<Rightarrow> command_ok state policy
      | AmOriginSubject \<Rightarrow>
          re_hasOriginSubject (st_event state) \<and> re_originSubjectMatched (st_event state)
      | _ \<Rightarrow> True)"

text \<open>What a channel promises about an event, as one case distinction without gates.\<close>

definition ingress_admission ::
  "ChannelIngressState \<Rightarrow> ChannelIngressPolicyInput \<Rightarrow> ChannelIngressAdmission" where
  "ingress_admission state policy =
     (let skips = activation_skips state policy (command_ok state policy)
      in if \<not> routes_open state then Drop
         else if early_activation policy \<and> skips then Skip
         else if re_authMode (st_event state) = AmInbound \<and> \<not> sender_ok state policy then
           if st_conversationKind state = Direct \<and> pi_dmPolicy policy = DmPairing \<and>
              re_mayPair (st_event state)
           then PairingRequired else Drop
         else if control_command policy \<and> \<not> command_ok state policy then Drop
         else if \<not> auth_ok state policy then Drop
         else if skips then Skip
         else Dispatch)"

definition route_gates0 :: "ChannelIngressState \<Rightarrow> AccessGraphGate list" where
  "route_gates0 state = routeGates state @
     (case routeSenderEmptyGate state of None \<Rightarrow> [] | Some gate \<Rightarrow> [gate])"

lemma route_effect_block [simp]:
  "gate_effect_of_route e = EffBlockDispatch \<longleftrightarrow> e = ReBlockDispatch"
  by (cases e) auto

lemma route_gates0_block:
  "(\<exists>g. List.find (\<lambda>entry. ag_effect entry = EffBlockDispatch) (route_gates0 state) = Some g) \<longleftrightarrow>
     \<not> routes_open state"
proof -
  let ?deny = "\<lambda>fact. rr_senderPolicy fact = DenyWhenEmpty \<and> rr_gate fact = RouteMatched \<and>
    map_option al_hasConfiguredEntries (rr_senderAllowlist fact) \<noteq> Some True"
  have empty: "(\<forall>g. routeSenderEmptyGate state = Some g \<longrightarrow> ag_effect g = EffBlockDispatch) \<and>
      (routeSenderEmptyGate state = None \<longleftrightarrow> (\<forall>f \<in> set (st_routeFacts state). \<not> ?deny f))"
  proof (cases "List.find ?deny (st_routeFacts state)")
    case None
    then show ?thesis using find_None_iff_all [of ?deny "st_routeFacts state"]
      by (simp add: routeSenderEmptyGate_def)
  next
    case (Some f)
    then have "\<not> (\<forall>f \<in> set (st_routeFacts state). \<not> ?deny f)"
      using find_None_iff_all [of ?deny "st_routeFacts state"] by simp
    with Some show ?thesis by (simp add: routeSenderEmptyGate_def)
  qed
  have "(\<exists>g. List.find (\<lambda>entry. ag_effect entry = EffBlockDispatch) (route_gates0 state) = Some g)
      \<longleftrightarrow> \<not> (\<forall>g \<in> set (route_gates0 state). ag_effect g \<noteq> EffBlockDispatch)"
    using find_None_iff_all [of "\<lambda>entry. ag_effect entry = EffBlockDispatch" "route_gates0 state"]
    by (metis not_Some_eq)
  also have "\<dots> \<longleftrightarrow> \<not> routes_open state"
    using empty
    by (cases "routeSenderEmptyGate state")
       (auto simp: route_gates0_def routes_open_def routeGates_def list_all_iff)
  finally show ?thesis .
qed

lemma route_gates0_phase: "g \<in> set (route_gates0 state) \<Longrightarrow> ag_phase g = PhRoute"
  by (auto simp: route_gates0_def routeGates_def routeSenderEmptyGate_def split: option.splits)

text \<open>The decision as a choice of the decisive gate and of the gates evaluated.\<close>

lemma decideAfterRoutes_eq:
  "decideAfterRoutes state policy gates early =
     (let sender = sender_gate state policy; command = commandGate state policy;
          event = eventGate state sender command;
          late = activationGate state policy command;
          activation = (case early of None \<Rightarrow> late | Some a \<Rightarrow> a)
      in if \<not> ag_allowed sender then
           if ag_reasonCode sender = DmPolicyPairingRequired
           then decisiveDecision PairingRequired VPairing sender (gates @ [sender])
           else decisiveDecision Drop VBlock sender (gates @ [sender])
         else if ag_effect command = EffBlockCommand
           then decisiveDecision Drop VBlock command (gates @ [sender, command])
         else if \<not> ag_allowed event
           then decisiveDecision Drop VBlock event (gates @ [sender, command, event])
         else decisiveDecision
           (if ag_effect activation = EffSkip then Skip
            else if ag_effect activation = EffObserve then Observe else Dispatch) VAllow activation
           (gates @ [sender, command, event] @ (if early = None then [late] else [])))"
  by (cases early) (simp_all add: decideAfterRoutes_def sender_gate_def [symmetric] Let_def)

lemma decideChannelIngress_eq:
  "decideChannelIngress state policy =
     (case List.find (\<lambda>entry. ag_effect entry = EffBlockDispatch) (route_gates0 state) of
        Some g \<Rightarrow> decisiveDecision Drop VBlock g (route_gates0 state)
      | None \<Rightarrow>
          (case activationBeforeSenderGate state policy of
             None \<Rightarrow> decideAfterRoutes state policy (route_gates0 state) None
           | Some a \<Rightarrow>
               if ag_effect a = EffSkip
               then decisiveDecision Skip VAllow a (route_gates0 state @ [a])
               else decideAfterRoutes state policy (route_gates0 state @ [a]) (Some a)))"
  by (simp only: decideChannelIngress_def route_gates0_def [symmetric] Let_def)

lemma decisiveDecision_sel [simp]:
  "id_admission (decisiveDecision a v g gs) = a"
  "id_decision (decisiveDecision a v g gs) = v"
  "id_decisiveGateId (decisiveDecision a v g gs) = ag_id g"
  "id_reasonCode (decisiveDecision a v g gs) = ag_reasonCode g"
  "id_gates (decisiveDecision a v g gs) = gs"
  by (simp_all add: decisiveDecision_def)

lemma event_ok_auth:
  "ag_allowed (sender_gate state policy) \<Longrightarrow>
     event_ok state (sender_gate state policy) (commandGate state policy) = auth_ok state policy"
  by (cases "re_authMode (st_event state)")
     (auto simp: event_ok_def auth_ok_def gate_defs)

lemma activation_effect [simp]:
  "ag_effect (activationGate state policy c) \<noteq> EffObserve"
  "ag_effect (activationGate state policy c) = EffSkip \<longleftrightarrow>
     activation_skips state policy (ag_allowed c)"
  by (simp_all add: gate_defs)

lemma decideAfterRoutes_admission:
  assumes "early = None \<or> (\<exists>c. early = Some (activationGate state policy c) \<and>
      \<not> activation_skips state policy (ag_allowed c) \<and>
      \<not> activation_skips state policy (command_ok state policy))"
  shows "id_admission (decideAfterRoutes state policy gates early) =
    (if re_authMode (st_event state) = AmInbound \<and> \<not> sender_ok state policy then
       if st_conversationKind state = Direct \<and> pi_dmPolicy policy = DmPairing \<and>
          re_mayPair (st_event state)
       then PairingRequired else Drop
     else if control_command policy \<and> \<not> command_ok state policy then Drop
     else if \<not> auth_ok state policy then Drop
     else if activation_skips state policy (command_ok state policy) then Skip
     else Dispatch)"
proof (cases "ag_allowed (sender_gate state policy)")
  case True
  with assms show ?thesis
    unfolding decideAfterRoutes_eq Let_def
    by (cases early) (auto simp: sender_gate_allowed commandGate_sel eventGate_sel(3) event_ok_auth)
next
  case False
  then show ?thesis
    using sender_gate_pairing [OF False]
    unfolding decideAfterRoutes_eq Let_def by (auto simp: sender_gate_allowed)
qed

lemma decide_admission_eq:
  "id_admission (decideChannelIngress state policy) = ingress_admission state policy"
proof (cases "routes_open state")
  case False
  then obtain g where
    "List.find (\<lambda>entry. ag_effect entry = EffBlockDispatch) (route_gates0 state) = Some g"
    using route_gates0_block by blast
  with False show ?thesis
    by (simp add: decideChannelIngress_eq ingress_admission_def)
next
  case True
  then have find: "List.find (\<lambda>entry. ag_effect entry = EffBlockDispatch) (route_gates0 state) = None"
    using route_gates0_block [of state] by auto
  show ?thesis
  proof (cases "early_activation policy")
    case False
    with True find show ?thesis
      by (simp add: decideChannelIngress_eq activationBeforeSenderGate_eq ingress_admission_def
          decideAfterRoutes_admission Let_def)
  next
    case early: True
    let ?c = "commandGate state (policy\<lparr>pi_command := None\<rparr>)"
    have same: "activation_skips state policy (ag_allowed ?c) =
        activation_skips state policy (command_ok state policy)"
      using early_activation_same [OF early, of state "pi_command policy"] by simp
    show ?thesis
    proof (cases "activation_skips state policy (command_ok state policy)")
      case True
      with \<open>routes_open state\<close> find early same show ?thesis
        by (simp add: decideChannelIngress_eq activationBeforeSenderGate_eq ingress_admission_def)
    next
      case False
      with same have "id_admission (decideAfterRoutes state policy
          (route_gates0 state @ [activationGate state policy ?c])
          (Some (activationGate state policy ?c))) = ingress_admission state policy"
        using \<open>routes_open state\<close>
        by (subst decideAfterRoutes_admission) (auto simp: ingress_admission_def Let_def)
      with False find early same show ?thesis
        by (simp add: decideChannelIngress_eq activationBeforeSenderGate_eq)
    qed
  qed
qed

section \<open>The trace of gates\<close>

definition blocking :: "AccessGraphGate \<Rightarrow> bool" where
  "blocking g \<longleftrightarrow> ag_effect g \<in> {EffBlockDispatch, EffBlockCommand, EffSkip}"

text \<open>The decisive gate: the first one that stops the event, or the activation gate of a
  trace in which none does.\<close>

definition decisive_in :: "AccessGraphGate list \<Rightarrow> AccessGraphGate \<Rightarrow> bool" where
  "decisive_in gates g \<longleftrightarrow>
     (case List.find blocking gates of
        Some b \<Rightarrow> g = b
      | None \<Rightarrow> g \<in> set gates \<and> ag_phase g = PhActivation)"

definition phase_order :: "ChannelIngressPolicyInput \<Rightarrow> IngressGatePhase list" where
  "phase_order policy =
     (if early_activation policy then [PhActivation, PhSender, PhCommand, PhEvent]
      else [PhSender, PhCommand, PhEvent, PhActivation])"

definition verdict_of :: "ChannelIngressAdmission \<Rightarrow> IngressVerdict" where
  "verdict_of a = (case a of Drop \<Rightarrow> VBlock | PairingRequired \<Rightarrow> VPairing | _ \<Rightarrow> VAllow)"

lemma find_append:
  "List.find P (xs @ ys) = (case List.find P xs of None \<Rightarrow> List.find P ys | Some x \<Rightarrow> Some x)"
  by (induction xs) auto

lemma blocking_effect_iff:
  "ag_effect g = EffAllow \<Longrightarrow> \<not> blocking g" "ag_effect g = EffIgnore \<Longrightarrow> \<not> blocking g"
  "ag_effect g = EffBlockDispatch \<Longrightarrow> blocking g" "ag_effect g = EffSkip \<Longrightarrow> blocking g"
  "ag_effect g = EffBlockCommand \<Longrightarrow> blocking g"
  by (auto simp: blocking_def)

lemma blocking_gates [simp]:
  "blocking (sender_gate state policy) = (\<not> ag_allowed (sender_gate state policy))"
  "blocking (commandGate state policy) = (ag_effect (commandGate state policy) = EffBlockCommand)"
  "blocking (eventGate state s c) = (\<not> ag_allowed (eventGate state s c))"
  "blocking (activationGate state policy c) =
     (ag_effect (activationGate state policy c) = EffSkip)"
  by (auto simp: blocking_def sender_gate_def applyEventAuthModeToSenderGate_def gate_defs
      split: if_splits)

lemma route_gates0_find:
  "List.find blocking (route_gates0 state) =
     List.find (\<lambda>entry. ag_effect entry = EffBlockDispatch) (route_gates0 state)"
proof (rule find_cong [OF refl])
  fix g assume "g \<in> set (route_gates0 state)"
  moreover have "gate_effect_of_route e \<noteq> EffBlockCommand \<and> gate_effect_of_route e \<noteq> EffSkip" for e
    by (cases e) auto
  ultimately show "blocking g \<longleftrightarrow> ag_effect g = EffBlockDispatch"
    by (auto simp: blocking_def route_gates0_def routeGates_def routeSenderEmptyGate_def
        split: option.splits)
qed

text \<open>What a decision's trace looks like, in one predicate.\<close>

definition trace_ok ::
  "ChannelIngressPolicyInput \<Rightarrow> AccessGraphGate list \<Rightarrow> ChannelIngressDecision \<Rightarrow> bool" where
  "trace_ok policy routes d \<longleftrightarrow>
     (\<exists>g. decisive_in (id_gates d) g \<and> id_decisiveGateId d = ag_id g \<and>
          id_reasonCode d = ag_reasonCode g) \<and>
     (\<exists>k. map ag_phase (id_gates d) = map ag_phase routes @ take k (phase_order policy)) \<and>
     id_decision d = verdict_of (id_admission d)"

lemma trace_okI:
  "decisive_in gates g \<Longrightarrow>
     map ag_phase gates = map ag_phase routes @ take k (phase_order policy) \<Longrightarrow>
     v = verdict_of a \<Longrightarrow> trace_ok policy routes (decisiveDecision a v g gates)"
  by (auto simp: trace_ok_def)

lemma gate_phases [simp]:
  "ag_phase (commandGate state policy) = PhCommand"
  "ag_phase (eventGate state s c) = PhEvent"
  "ag_phase (activationGate state policy c) = PhActivation"
  by (simp_all add: gate_defs)

lemma trace_ok_late:
  assumes "\<not> early_activation policy" "List.find blocking routes = None"
  shows "trace_ok policy routes (decideAfterRoutes state policy routes None)"
proof -
  let ?s = "sender_gate state policy" and ?c = "commandGate state policy"
  note facts = decideAfterRoutes_eq Let_def phase_order_def decisive_in_def find_append verdict_of_def
  consider "\<not> ag_allowed ?s" | "ag_allowed ?s" "ag_effect ?c = EffBlockCommand"
    | "ag_allowed ?s" "ag_effect ?c \<noteq> EffBlockCommand" "\<not> ag_allowed (eventGate state ?s ?c)"
    | "ag_allowed ?s" "ag_effect ?c \<noteq> EffBlockCommand" "ag_allowed (eventGate state ?s ?c)" by blast
  then show ?thesis
  proof cases
    case 1 then show ?thesis using assms by (auto intro!: trace_okI [where k = 1] simp: facts)
  next
    case 2 then show ?thesis using assms by (auto intro!: trace_okI [where k = 2] simp: facts)
  next
    case 3 then show ?thesis using assms by (auto intro!: trace_okI [where k = 3] simp: facts)
  next
    case 4 then show ?thesis using assms by (auto intro!: trace_okI [where k = 4] simp: facts)
  qed
qed

lemma trace_ok_early:
  assumes "early_activation policy" "List.find blocking routes = None"
    and "\<not> blocking (activationGate state policy c)"
  shows "trace_ok policy routes (decideAfterRoutes state policy
    (routes @ [activationGate state policy c]) (Some (activationGate state policy c)))"
proof -
  let ?s = "sender_gate state policy" and ?c = "commandGate state policy"
  note facts = decideAfterRoutes_eq Let_def phase_order_def decisive_in_def find_append verdict_of_def
  consider "\<not> ag_allowed ?s" | "ag_allowed ?s" "ag_effect ?c = EffBlockCommand"
    | "ag_allowed ?s" "ag_effect ?c \<noteq> EffBlockCommand" "\<not> ag_allowed (eventGate state ?s ?c)"
    | "ag_allowed ?s" "ag_effect ?c \<noteq> EffBlockCommand" "ag_allowed (eventGate state ?s ?c)" by blast
  then show ?thesis
  proof cases
    case 1 then show ?thesis using assms by (auto intro!: trace_okI [where k = 2] simp: facts)
  next
    case 2 then show ?thesis using assms by (auto intro!: trace_okI [where k = 3] simp: facts)
  next
    case 3 then show ?thesis using assms by (auto intro!: trace_okI [where k = 4] simp: facts)
  next
    case 4 then show ?thesis using assms by (auto intro!: trace_okI [where k = 4] simp: facts)
  qed
qed

lemma trace_ok_decide: "trace_ok policy (route_gates0 state) (decideChannelIngress state policy)"
proof (cases "List.find blocking (route_gates0 state)")
  case (Some g)
  then show ?thesis
    by (auto intro!: trace_okI [where k = 0]
        simp: decideChannelIngress_eq route_gates0_find [symmetric] decisive_in_def verdict_of_def)
next
  case None
  let ?a = "activationGate state policy (commandGate state (policy\<lparr>pi_command := None\<rparr>))"
  show ?thesis
  proof (cases "early_activation policy \<and> blocking ?a")
    case True
    with None show ?thesis
      by (auto intro!: trace_okI [where k = 1]
          simp: decideChannelIngress_eq route_gates0_find [symmetric] activationBeforeSenderGate_eq
            phase_order_def decisive_in_def find_append verdict_of_def)
  next
    case False
    with None trace_ok_late [of policy "route_gates0 state" state] trace_ok_early [of policy _ state]
    show ?thesis
      by (auto simp: decideChannelIngress_eq route_gates0_find [symmetric]
          activationBeforeSenderGate_eq)
  qed
qed

section \<open>Matches that survive the mutable identifier policy\<close>

text \<open>A match that does not rest on mutable identifiers alone.\<close>

definition stable_match :: "ResolvedIngressAllowlist \<Rightarrow> bool" where
  "stable_match al \<longleftrightarrow>
     rm_matched (al_match al) \<and>
     (dangerous_ids al = {} \<or> (\<exists>i \<in> set (al_matchedEntryIds al). i \<notin> dangerous_ids al))"

lemma stable_match_mutable:
  assumes "allowlist_ok al" "pi_mutableIdentifierMatching policy \<noteq> Some MutableEnabled"
    and "rm_matched (al_match (applyMutableIdentifierPolicy al policy))"
  shows "stable_match al"
  using assms mutable_policy_match_mono [OF assms(1, 3)] mutable_policy_match [OF assms(2)]
  by (auto simp: stable_match_def)

lemma dispatch_requires:
  assumes "ingress_admission state policy = Dispatch"
  shows "routes_open state" and "auth_ok state policy"
    and "control_command policy \<longrightarrow> command_ok state policy"
    and "\<not> activation_skips state policy (command_ok state policy)"
  using assms by (auto simp: ingress_admission_def Let_def split: if_splits)

lemma group_list_routes_override:
  assumes "rr_gate route = RouteMatched" "rr_senderAllowlist route = Some senderAllowlist"
    and "rr_senderPolicy route \<noteq> Inherit"
  shows "applyRouteSenderAllowlists al (us @ route # vs) = applyRouteSenderAllowlists senderAllowlist vs"
  using assms by (induction us arbitrary: al) (auto split: option.splits)

lemma merge_hasConfigured_routes:
  "al_hasConfiguredEntries al \<Longrightarrow> list_all (\<lambda>r. rr_senderPolicy r = Inherit) routes \<Longrightarrow>
     al_hasConfiguredEntries (applyRouteSenderAllowlists al routes)"
  by (induction routes arbitrary: al) (auto simp: merge_sel split: option.splits)

section \<open>A concrete state\<close>

text \<open>Building blocks for evaluating the decision on concrete inputs.\<close>

definition no_groups :: AccessGroupResults where
  "no_groups = \<lparr>gs_referenced = [], gs_matched = [], gs_missing = [], gs_unsupported = [],
     gs_failed = []\<rparr>"

definition example_list :: "(string \<times> bool) list \<Rightarrow> string list \<Rightarrow> ResolvedIngressAllowlist" where
  "example_list entries matched =
     \<lparr>al_rawEntryCount = length entries,
      al_normalizedEntries = map (\<lambda>(i, dangerous). \<lparr>ne_opaqueEntryId = i, ne_kind = StableId,
        ne_dangerous = Some dangerous, ne_sensitivity = None\<rparr>) entries,
      al_invalidEntries = [], al_disabledEntries = [], al_matchedEntryIds = matched,
      al_hasConfiguredEntries = entries \<noteq> [], al_hasMatchableEntries = entries \<noteq> [],
      al_hasWildcard = False, al_accessGroups = no_groups,
      al_match = \<lparr>rm_matched = matched \<noteq> [], rm_matchedEntryIds = matched\<rparr>\<rparr>"

definition example_state ::
  "ConversationKind \<Rightarrow> IngressAuthMode \<Rightarrow> ResolvedIngressAllowlist \<Rightarrow> ChannelIngressState" where
  "example_state kind mode al =
     \<lparr>st_channelId = ''telegram'', st_accountId = ''default'', st_conversationKind = kind,
      st_event = \<lparr>re_kind = EvMessage, re_authMode = mode, re_mayPair = True,
        re_hasOriginSubject = False, re_originSubjectMatched = False\<rparr>,
      st_mentionFacts = None, st_routeFacts = [],
      st_allowlists = \<lparr>ls_dm = al, ls_pairingStore = example_list [] [], ls_group = al,
        ls_commandOwner = al, ls_commandGroup = example_list [] []\<rparr>\<rparr>"

definition example_policy :: "DmPolicy \<Rightarrow> GroupPolicy \<Rightarrow> bool \<Rightarrow> ChannelIngressPolicyInput" where
  "example_policy dm grp control =
     \<lparr>pi_dmPolicy = dm, pi_groupPolicy = grp, pi_groupAllowFromFallbackToAllowFrom = None,
      pi_mutableIdentifierMatching = None, pi_activation = None,
      pi_command = (if control then Some \<lparr>cp_useAccessGroups = None, cp_allowTextCommands = True,
        cp_hasControlCommand = True, cp_modeWhenAccessGroupsOff = None\<rparr> else None)\<rparr>"

lemmas example_defs = no_groups_def example_list_def example_state_def example_policy_def

section \<open>Properties\<close>

text \<open>C1: The decision graph admits an event exactly as its specification says, gate objects
  aside: routes first, then an early activation skip, the sender, control commands, the event's
  own authorization and the activation.\<close>

theorem decideChannelIngress_admission:
  "id_admission (decideChannelIngress state policy) = ingress_admission state policy"
  by (rule decide_admission_eq)

text \<open>Every decision names a gate of its own trace: the first gate that stops the event, or
  the activation gate when none does; the gates stand in the fixed phase order, cut at the
  decisive one; and the verdict is the one of the admission.\<close>

theorem decideChannelIngress_trace:
  fixes state policy
  defines "d \<equiv> decideChannelIngress state policy"
  shows "(\<exists>g. decisive_in (id_gates d) g \<and> id_decisiveGateId d = ag_id g \<and>
            id_reasonCode d = ag_reasonCode g) \<and>
         (\<exists>n k. map ag_phase (id_gates d) = replicate n PhRoute @ take k (phase_order policy)) \<and>
         id_decision d = verdict_of (id_admission d)"
proof -
  have "map ag_phase (route_gates0 state) = replicate (length (route_gates0 state)) PhRoute"
    by (rule replicate_eqI) (auto dest: route_gates0_phase)
  then show ?thesis
    using trace_ok_decide [of policy state] unfolding trace_ok_def d_def by auto
qed

text \<open>C3: An inbound direct message is dispatched only under a DM policy that is not disabled,
  and then only to a wildcard under the open policy, to a sender matched by the DM allowlist,
  or, under the pairing policy, by the pairing store; with mutable identifier matching off
  the match rests on an entry that is not dangerous.\<close>

theorem direct_dispatch_authorized:
  assumes "id_admission (decideChannelIngress state policy) = Dispatch"
    and "st_conversationKind state = Direct" and "re_authMode (st_event state) = AmInbound"
    and "pi_mutableIdentifierMatching policy \<noteq> Some MutableEnabled"
    and "state_allowlists_ok state"
  shows "pi_dmPolicy policy \<noteq> DmDisabled \<and>
    (stable_match (ls_dm (st_allowlists state)) \<or>
     pi_dmPolicy policy = DmOpen \<and> al_hasWildcard (ls_dm (st_allowlists state)) \<or>
     pi_dmPolicy policy = DmPairing \<and> stable_match (ls_pairingStore (st_allowlists state)))"
  using dispatch_requires [OF assms(1) [unfolded decide_admission_eq]] assms(2-5)
  by (auto simp: auth_ok_def sender_ok_def dm_sender_ok_def state_allowlists_ok_def
      intro: stable_match_mutable)

theorem direct_dispatch_authorized_witness:
  "stable_match (ls_dm (st_allowlists (example_state Direct AmInbound
     (example_list [(''id1'', False), (''id2'', True)] [''id1'', ''id2'']))))"
  using direct_dispatch_authorized [of "example_state Direct AmInbound
      (example_list [(''id1'', False), (''id2'', True)] [''id1'', ''id2''])"
      "example_policy DmAllowlist GrDisabled False"]
  by (simp add: decide_admission_eq example_defs ingress_admission_def routes_open_def
      early_activation_def sender_ok_def dm_sender_ok_def control_command_def auth_ok_def
      activation_skips_def applyMutableIdentifierPolicy_def Let_def entry_dangerous_def
      state_allowlists_ok_def allowlist_ok_def match_ok_def js_set_def set_add_def)

text \<open>An inbound group message is dispatched only under the open policy, or under the
  allowlist policy when the sender list left after route overrides has entries and matches the
  sender through more than mutable identifiers.\<close>

theorem group_dispatch_authorized:
  assumes "id_admission (decideChannelIngress state policy) = Dispatch"
    and "st_conversationKind state \<noteq> Direct" and "re_authMode (st_event state) = AmInbound"
    and "pi_groupPolicy policy \<noteq> GrOpen"
  shows "pi_groupPolicy policy = GrAllowlist \<and>
    al_hasConfiguredEntries (effectiveGroupSenderAllowlist state policy) \<and>
    rm_matched (al_match (effectiveGroupSenderAllowlist state policy)) \<and>
    (pi_mutableIdentifierMatching policy \<noteq> Some MutableEnabled \<longrightarrow>
     set (al_matchedEntryIds (effectiveGroupSenderAllowlist state policy)) \<inter>
       dangerous_ids (effectiveGroupSenderAllowlist state policy) = {})"
proof -
  have "dangerous_ids (applyMutableIdentifierPolicy al policy) = dangerous_ids al" for al
    by (simp add: dangerous_ids_def)
  then show ?thesis
    using dispatch_requires [OF assms(1) [unfolded decide_admission_eq]] assms(2-4)
      mutable_policy_no_dangerous [of policy]
    by (auto simp: auth_ok_def sender_ok_def group_sender_ok_def effectiveGroupSenderAllowlist_def
        Let_def)
qed

theorem group_dispatch_authorized_witness:
  "rm_matched (al_match (effectiveGroupSenderAllowlist
     (example_state Group AmInbound (example_list [(''id1'', False)] [''id1'']))
     (example_policy DmDisabled GrAllowlist False)))"
  using group_dispatch_authorized [of "example_state Group AmInbound
      (example_list [(''id1'', False)] [''id1''])" "example_policy DmDisabled GrAllowlist False"]
  by (simp add: decide_admission_eq example_defs ingress_admission_def routes_open_def
      early_activation_def sender_ok_def group_sender_ok_def control_command_def auth_ok_def
      activation_skips_def applyMutableIdentifierPolicy_def Let_def entry_dangerous_def
      effectiveGroupSenderAllowlist_def)

text \<open>A text control command is never dispatched unauthorized: with access groups in use,
  the owner list or the command group list must be configured and match the sender.\<close>

theorem control_command_dispatch_authorized:
  assumes "id_admission (decideChannelIngress state policy) = Dispatch"
    and "pi_command policy = Some command" and "cp_allowTextCommands command"
    and "cp_hasControlCommand command" and "cp_useAccessGroups command \<noteq> Some False"
  shows "\<exists>al \<in> {ls_commandOwner (st_allowlists state), ls_commandGroup (st_allowlists state)}.
    al_hasConfiguredEntries al \<and> rm_matched (al_match (applyMutableIdentifierPolicy al policy))"
proof -
  have "coalesce (cp_useAccessGroups command) True"
    using assms(5) by (cases "cp_useAccessGroups command") auto
  then show ?thesis
    using dispatch_requires(3) [OF assms(1) [unfolded decide_admission_eq]] assms(2-4)
    by (auto simp: control_command_def command_ok_def command_authorizers_def
        resolveCommandAuthorized_iff some_authorizer_def Let_def)
qed

theorem control_command_dispatch_authorized_witness:
  "\<exists>al \<in> {example_list [(''id1'', False)] [''id1''], example_list [] []}.
    al_hasConfiguredEntries al \<and>
    rm_matched (al_match (applyMutableIdentifierPolicy al (example_policy DmOpen GrOpen True)))"
  using control_command_dispatch_authorized [of "example_state Group AmInbound
      (example_list [(''id1'', False)] [''id1''])" "example_policy DmOpen GrOpen True"
      "the (pi_command (example_policy DmOpen GrOpen True))"]
  by (simp add: decide_admission_eq example_defs ingress_admission_def routes_open_def
      early_activation_def sender_ok_def group_sender_ok_def control_command_def auth_ok_def
      activation_skips_def applyMutableIdentifierPolicy_def Let_def entry_dangerous_def
      command_ok_def command_authorizers_def resolveCommandAuthorized_iff some_authorizer_def)

text \<open>Pairing is offered exactly to the sender of an inbound direct message, on open routes
  and unless an early activation gate skips it, when the policy is pairing, the event may pair
  and neither the DM allowlist nor the pairing store matches.\<close>

theorem pairing_required_iff:
  "id_admission (decideChannelIngress state policy) = PairingRequired \<longleftrightarrow>
     routes_open state \<and>
     \<not> (early_activation policy \<and> activation_skips state policy (command_ok state policy)) \<and>
     re_authMode (st_event state) = AmInbound \<and> st_conversationKind state = Direct \<and>
     pi_dmPolicy policy = DmPairing \<and> re_mayPair (st_event state) \<and>
     \<not> rm_matched (al_match (applyMutableIdentifierPolicy (ls_dm (st_allowlists state)) policy)) \<and>
     \<not> rm_matched (al_match
         (applyMutableIdentifierPolicy (ls_pairingStore (st_allowlists state)) policy))"
  unfolding decide_admission_eq
  by (auto simp: ingress_admission_def Let_def sender_ok_def dm_sender_ok_def)

end
