(* ===== verification/Ingress_Identity.thy ===== *)
theory Ingress_Identity
  imports Ingress_Types
begin

text \<open>
  \<^verbatim>\<open>src/channels/message-access/runtime-identity.ts\<close>: identity descriptors, the allowlist
  adapter built from a descriptor, and the subject of an inbound event. The locale
  \<open>ingress_adapter\<close> is the contract that the rest of the kernel relies on; the adapter that
  the code builds satisfies it for every descriptor.
\<close>

section \<open>Descriptors\<close>

datatype DangerousSpec = DangerousFlag bool | DangerousFn "string \<Rightarrow> bool option"

record ChannelIngressIdentityField =
  fd_key :: "string option"
  fd_kind :: "ChannelIngressIdentifierKind option"
  fd_normalize :: "(string \<Rightarrow> string option) option"
  fd_normalizeEntry :: "(string \<Rightarrow> string option) option"
  fd_normalizeSubject :: "(string \<Rightarrow> string option) option"
  fd_dangerous :: "DangerousSpec option"
  fd_sensitivity :: "Sensitivity option"

record ResolvedIdentityField =
  rd_key :: string
  rd_kind :: ChannelIngressIdentifierKind
  rd_normalize :: "(string \<Rightarrow> string option) option"
  rd_normalizeEntry :: "(string \<Rightarrow> string option) option"
  rd_normalizeSubject :: "(string \<Rightarrow> string option) option"
  rd_dangerous :: "DangerousSpec option"
  rd_sensitivity :: "Sensitivity option"

text \<open>An alias is a field whose key is required: the pair of its key and the field.\<close>

record EntryIdParams =
  ep_entry :: string
  ep_entryIndex :: nat
  ep_fieldKey :: string
  ep_fieldIndex :: nat

type_synonym match_hook =
  "InternalChannelIngressSubject \<Rightarrow> InternalNormalizedEntry \<Rightarrow> IngressContext \<Rightarrow> bool option"

record ChannelIngressIdentityDescriptor =
  ci_primary :: ChannelIngressIdentityField
  ci_aliases :: "(string \<times> ChannelIngressIdentityField) list option"
  ci_isWildcardEntry :: "(string \<Rightarrow> bool) option"
  ci_matchEntry :: "match_hook option"
  ci_resolveEntryId :: "(EntryIdParams \<Rightarrow> string) option"

record StableChannelIngressIdentityParams = ChannelIngressIdentityField +
  sp_aliases :: "(string \<times> ChannelIngressIdentityField) list option"
  sp_isWildcardEntry :: "(string \<Rightarrow> bool) option"
  sp_matchEntry :: "match_hook option"
  sp_entryIdPrefix :: "string option"
  sp_resolveEntryId :: "(EntryIdParams \<Rightarrow> string) option"

record ChannelIngressIdentitySubjectInput =
  su_stableId :: js_value
  su_aliases :: "(string, js_value) jsmap option"

definition defineStableChannelIngressIdentity ::
  "StableChannelIngressIdentityParams \<Rightarrow> ChannelIngressIdentityDescriptor" where
  "defineStableChannelIngressIdentity params =
     \<lparr>ci_primary = ChannelIngressIdentityField.truncate params,
      ci_aliases = sp_aliases params,
      ci_isWildcardEntry = sp_isWildcardEntry params,
      ci_matchEntry = sp_matchEntry params,
      ci_resolveEntryId = coalesce2 (sp_resolveEntryId params)
        (case sp_entryIdPrefix params of
           None \<Rightarrow> None
         | Some pre \<Rightarrow>
             if pre = [] then None
             else Some (\<lambda>p. pre @ ''-'' @ js_string_of_int (int (ep_entryIndex p) + 1)))\<rparr>"

section \<open>Fields and entries\<close>

datatype NormalizeMode = ModeEntry | ModeSubject

definition normalizeFieldValue ::
  "ResolvedIdentityField \<Rightarrow> string \<Rightarrow> NormalizeMode \<Rightarrow> string option" where
  "normalizeFieldValue field value mode =
     (let normalize =
            (if mode = ModeEntry
             then coalesce (coalesce2 (rd_normalizeEntry field) (rd_normalize field)) Some
             else coalesce (coalesce2 (rd_normalizeSubject field) (rd_normalize field)) Some)
      in case normalize value of
           None \<Rightarrow> None
         | Some n \<Rightarrow> if js_trim n = [] then None else Some (js_trim n))"

definition fieldDangerous :: "ResolvedIdentityField \<Rightarrow> string \<Rightarrow> bool option" where
  "fieldDangerous field value =
     (case rd_dangerous field of
        None \<Rightarrow> None
      | Some (DangerousFn f) \<Rightarrow> f value
      | Some (DangerousFlag b) \<Rightarrow> Some b)"

definition resolved_field ::
  "string \<Rightarrow> ChannelIngressIdentifierKind \<Rightarrow> ChannelIngressIdentityField \<Rightarrow> ResolvedIdentityField" where
  "resolved_field key kind f =
     \<lparr>rd_key = key, rd_kind = kind, rd_normalize = fd_normalize f,
      rd_normalizeEntry = fd_normalizeEntry f, rd_normalizeSubject = fd_normalizeSubject f,
      rd_dangerous = fd_dangerous f, rd_sensitivity = fd_sensitivity f\<rparr>"

definition identityFields :: "ChannelIngressIdentityDescriptor \<Rightarrow> ResolvedIdentityField list" where
  "identityFields identity =
     resolved_field (coalesce (fd_key (ci_primary identity)) ''stableId'')
       (coalesce (fd_kind (ci_primary identity)) StableId) (ci_primary identity) #
     map (\<lambda>(key, alias). resolved_field key (coalesce (fd_kind alias) (Plugin key)) alias)
       (coalesce (ci_aliases identity) [])"

fun kind_string :: "ChannelIngressIdentifierKind \<Rightarrow> string" where
  "kind_string StableId = ''stable-id''"
| "kind_string Username = ''username''"
| "kind_string Email = ''email''"
| "kind_string Phone = ''phone''"
| "kind_string Role = ''role''"
| "kind_string (Plugin key) = ''plugin:'' @ key"

definition identityMatchKey :: "ChannelIngressIdentifierKind \<Rightarrow> string \<Rightarrow> string" where
  "identityMatchKey kind value = kind_string kind @ '':'' @ value"

definition adapterEntry ::
  "ChannelIngressIdentityDescriptor \<Rightarrow> ResolvedIdentityField \<Rightarrow> nat \<Rightarrow> string \<Rightarrow> nat \<Rightarrow> string \<Rightarrow>
     string option \<Rightarrow> InternalNormalizedEntry" where
  "adapterEntry identity field fieldIndex entry entryIndex value fallbackSuffix =
     \<lparr>ne_opaqueEntryId =
        (case ci_resolveEntryId identity of
           Some resolve \<Rightarrow> resolve \<lparr>ep_entry = entry, ep_entryIndex = entryIndex,
             ep_fieldKey = rd_key field, ep_fieldIndex = fieldIndex\<rparr>
         | None \<Rightarrow> ''entry-'' @ js_string_of_int (int entryIndex + 1) @ '':'' @
             coalesce fallbackSuffix (rd_key field)),
      ne_kind = rd_kind field,
      ne_dangerous = fieldDangerous field entry,
      ne_sensitivity = rd_sensitivity field,
      ne_value = value\<rparr>"

definition wildcard_entry :: "ChannelIngressIdentityDescriptor \<Rightarrow> string \<Rightarrow> bool" where
  "wildcard_entry identity = coalesce (ci_isWildcardEntry identity) (\<lambda>value. value = ''*'')"

definition normalize_entry ::
  "ChannelIngressIdentityDescriptor \<Rightarrow> nat \<times> string \<Rightarrow> InternalNormalizedEntry list" where
  "normalize_entry identity = (\<lambda>(entryIndex, entry).
     if wildcard_entry identity entry then
       [adapterEntry identity (hd (identityFields identity)) 0 entry entryIndex ''*''
          (Some ''wildcard'')]
     else concat (map (\<lambda>(fieldIndex, field).
       (case normalizeFieldValue field entry ModeEntry of
          None \<Rightarrow> []
        | Some value \<Rightarrow> [adapterEntry identity field fieldIndex entry entryIndex value None]))
       (enumerate 0 (identityFields identity))))"

definition subject_keys ::
  "ChannelIngressIdentityDescriptor \<Rightarrow> InternalChannelIngressSubject \<Rightarrow> string list" where
  "subject_keys identity subject = js_set (concat (map (\<lambda>ident.
     (case List.find (\<lambda>candidate. rd_kind candidate = mi_kind ident) (identityFields identity) of
        None \<Rightarrow> []
      | Some field \<Rightarrow>
          (case normalizeFieldValue field (mi_value ident) ModeSubject of
             None \<Rightarrow> []
           | Some value \<Rightarrow> [identityMatchKey (mi_kind ident) value])))
     (is_identifiers subject)))"

definition entry_matches ::
  "ChannelIngressIdentityDescriptor \<Rightarrow> InternalChannelIngressSubject \<Rightarrow> IngressContext \<Rightarrow>
     InternalNormalizedEntry \<Rightarrow> bool" where
  "entry_matches identity subject context entry =
     (let fallback = ne_value entry = ''*'' \<or>
            identityMatchKey (ne_kind entry) (ne_value entry) \<in> set (subject_keys identity subject)
      in coalesce (case ci_matchEntry identity of None \<Rightarrow> None | Some m \<Rightarrow> m subject entry context)
           fallback)"

definition createIdentityAdapter ::
  "ChannelIngressIdentityDescriptor \<Rightarrow> InternalChannelIngressAdapter" where
  "createIdentityAdapter identity =
     \<lparr>normalizeEntries = (\<lambda>entries context accountId.
        \<lparr>nr_matchable = concat (map (normalize_entry identity) (enumerate 0 entries)),
         nr_invalid = [], nr_disabled = []\<rparr>),
      matchSubject = (\<lambda>subject entries context.
        (let matchedEntryIds = map ne_opaqueEntryId
               (filter (entry_matches identity subject context) entries)
         in \<lparr>rm_matched = length matchedEntryIds > 0, rm_matchedEntryIds = matchedEntryIds\<rparr>))\<rparr>"

definition nullish :: "js_value \<Rightarrow> bool" where
  "nullish v \<longleftrightarrow> v = JUndefined \<or> v = JNull"

definition createIdentitySubject ::
  "ChannelIngressIdentityDescriptor \<Rightarrow> ChannelIngressIdentitySubjectInput \<Rightarrow>
     InternalChannelIngressSubject" where
  "createIdentitySubject identity input =
     \<lparr>is_identifiers = concat (map (\<lambda>(index, field).
        (let rawValue =
               (if index = 0 then su_stableId input
                else case su_aliases input of
                  None \<Rightarrow> JUndefined
                | Some aliases \<Rightarrow> coalesce (map_get aliases (rd_key field)) JUndefined)
         in if nullish rawValue then []
            else [\<lparr>mi_opaqueId = rd_key field, mi_kind = rd_kind field,
                   mi_dangerous = fieldDangerous field (js_String rawValue),
                   mi_sensitivity = rd_sensitivity field,
                   mi_value = js_String rawValue\<rparr>]))
        (enumerate 0 (identityFields identity)))\<rparr>"

section \<open>The adapter contract\<close>

text \<open>What the ingress kernel relies on: a match is exactly a nonempty list of matched
  entries, and only given entries are matched.\<close>

locale ingress_adapter =
  fixes adapter :: InternalChannelIngressAdapter
  assumes matched_iff_ids: "rm_matched (matchSubject adapter s es c) \<longleftrightarrow>
      rm_matchedEntryIds (matchSubject adapter s es c) \<noteq> []"
    and matched_ids_given: "set (rm_matchedEntryIds (matchSubject adapter s es c)) \<subseteq>
      ne_opaqueEntryId ` set es"
begin

lemma no_entries_no_match: "\<not> rm_matched (matchSubject adapter s [] c)"
  using matched_ids_given [of s "[]" c] by (simp add: matched_iff_ids)

lemma match_names_entry:
  assumes "rm_matched (matchSubject adapter s es c)"
  shows "\<exists>e \<in> set es. ne_opaqueEntryId e \<in> set (rm_matchedEntryIds (matchSubject adapter s es c))"
proof -
  obtain i where "i \<in> set (rm_matchedEntryIds (matchSubject adapter s es c))"
    using assms matched_iff_ids by (metis list.set_sel(1))
  with matched_ids_given [of s es c] show ?thesis by auto
qed

end

interpretation identity_adapter: ingress_adapter "createIdentityAdapter identity" for identity
  by unfold_locales (auto simp: createIdentityAdapter_def Let_def)

section \<open>Lemmas\<close>

lemma createIdentityAdapter_match:
  "rm_matched (matchSubject (createIdentityAdapter identity) s es c) \<longleftrightarrow>
     (\<exists>e \<in> set es. entry_matches identity s c e)"
  by (auto simp: createIdentityAdapter_def Let_def filter_empty_conv)

lemma normalizeFieldValue_nonempty:
  "normalizeFieldValue field v mode = Some n \<Longrightarrow> n \<noteq> [] \<and> js_trim n = n"
  by (auto simp: normalizeFieldValue_def Let_def split: option.splits if_splits)

text \<open>Match keys are unambiguous as long as no plugin key holds a colon.\<close>

definition plain_kind :: "ChannelIngressIdentifierKind \<Rightarrow> bool" where
  "plain_kind k \<longleftrightarrow> (case k of Plugin key \<Rightarrow> CHR '':'' \<notin> set key | _ \<Rightarrow> True)"

lemma colon_split:
  "c \<notin> set xs \<Longrightarrow> c \<notin> set ys \<Longrightarrow> xs @ c # us = ys @ c # vs \<longleftrightarrow> xs = ys \<and> us = vs"
proof (induction xs arbitrary: ys)
  case Nil then show ?case by (cases ys) auto
next
  case (Cons x xs) then show ?case by (cases ys) auto
qed

lemma kind_string_no_colon:
  "(case k of Plugin _ \<Rightarrow> True | _ \<Rightarrow> CHR '':'' \<notin> set (kind_string k))"
  by (cases k) auto

lemma identityMatchKey_inj:
  assumes "plain_kind k" "plain_kind k'"
  shows "identityMatchKey k v = identityMatchKey k' v' \<longleftrightarrow> k = k' \<and> v = v'"
proof -
  have c: "''plugin:'' = ''plugin'' @ [CHR '':'']" by simp
  show ?thesis
    using assms
    by (cases k; cases k')
       (auto simp: identityMatchKey_def plain_kind_def colon_split)
qed

lemma identityFields_ne [simp]: "identityFields identity \<noteq> []"
  by (simp add: identityFields_def)

text \<open>Every normalized entry stems from one configured entry: the wildcard, or a field's
  normal form of it.\<close>

lemma normalize_entry_origin:
  assumes "e \<in> set (nr_matchable (normalizeEntries (createIdentityAdapter identity) entries c a))"
  shows "\<exists>entry \<in> set entries.
    wildcard_entry identity entry \<and> ne_value e = ''*'' \<or>
    (\<exists>field \<in> set (identityFields identity). ne_kind e = rd_kind field \<and>
       normalizeFieldValue field entry ModeEntry = Some (ne_value e))"
proof -
  obtain i entry where "(i, entry) \<in> set (enumerate 0 entries)"
    and e: "e \<in> set (normalize_entry identity (i, entry))"
    using assms by (auto simp: createIdentityAdapter_def)
  then have entry: "entry \<in> set entries" by (auto simp: in_set_enumerate_eq)
  show ?thesis
  proof (cases "wildcard_entry identity entry")
    case True
    with e have "ne_value e = ''*''" by (simp add: normalize_entry_def adapterEntry_def)
    with True entry show ?thesis by blast
  next
    case False
    with e obtain j field where "(j, field) \<in> set (enumerate 0 (identityFields identity))"
      "normalizeFieldValue field entry ModeEntry = Some (ne_value e)" "ne_kind e = rd_kind field"
      by (auto simp: normalize_entry_def adapterEntry_def split: option.splits)
    moreover from this(1) have "field \<in> set (identityFields identity)"
      by (auto simp: in_set_enumerate_eq)
    ultimately show ?thesis using entry by blast
  qed
qed

lemma subject_keys_origin:
  assumes "key \<in> set (subject_keys identity subject)"
  shows "\<exists>ident \<in> set (is_identifiers subject). \<exists>field \<in> set (identityFields identity).
    \<exists>value. rd_kind field = mi_kind ident \<and>
      normalizeFieldValue field (mi_value ident) ModeSubject = Some value \<and>
      key = identityMatchKey (mi_kind ident) value"
proof -
  obtain ident field val where *:
    "ident \<in> set (is_identifiers subject)"
    "List.find (\<lambda>candidate. rd_kind candidate = mi_kind ident) (identityFields identity) = Some field"
    "normalizeFieldValue field (mi_value ident) ModeSubject = Some val"
    "key = identityMatchKey (mi_kind ident) val"
    using assms by (auto simp: subject_keys_def eq_commute [of "Some _"] split: option.splits)
  from find_Some_split [OF this(2)] have "field \<in> set (identityFields identity)"
    "rd_kind field = mi_kind ident" by auto
  with * show ?thesis by blast
qed

section \<open>Properties\<close>

text \<open>Without a custom match hook, a subject that the identity adapter matches against
  normalized entries meets the wildcard, or shares with one of the entries an identifier kind
  and the normal form of its value (plugin kinds without a colon).\<close>

theorem identity_match_sound:
  assumes "ci_matchEntry identity = None"
    and "rm_matched (matchSubject (createIdentityAdapter identity) subject
      (nr_matchable (normalizeEntries (createIdentityAdapter identity) entries c a)) c)"
    and "list_all (\<lambda>field. plain_kind (rd_kind field)) (identityFields identity)"
  shows "\<exists>entry \<in> set entries.
    wildcard_entry identity entry \<or>
    (\<exists>field \<in> set (identityFields identity). normalizeFieldValue field entry ModeEntry = Some ''*'') \<or>
    (\<exists>ident \<in> set (is_identifiers subject).
       \<exists>f \<in> set (identityFields identity). \<exists>g \<in> set (identityFields identity). \<exists>value.
         rd_kind f = mi_kind ident \<and> rd_kind g = mi_kind ident \<and>
         normalizeFieldValue f (mi_value ident) ModeSubject = Some value \<and>
         normalizeFieldValue g entry ModeEntry = Some value)"
proof -
  obtain e where
    e: "e \<in> set (nr_matchable (normalizeEntries (createIdentityAdapter identity) entries c a))"
    and m: "ne_value e = ''*'' \<or>
      identityMatchKey (ne_kind e) (ne_value e) \<in> set (subject_keys identity subject)"
    using assms(1,2) by (auto simp: createIdentityAdapter_match entry_matches_def)
  from normalize_entry_origin [OF e] obtain entry where entry: "entry \<in> set entries"
    and orig: "wildcard_entry identity entry \<and> ne_value e = ''*'' \<or>
      (\<exists>field \<in> set (identityFields identity). ne_kind e = rd_kind field \<and>
         normalizeFieldValue field entry ModeEntry = Some (ne_value e))" by blast
  show ?thesis
  proof (cases "ne_value e = ''*''")
    case True
    with entry orig show ?thesis by metis
  next
    case False
    with orig obtain g where g: "g \<in> set (identityFields identity)" "ne_kind e = rd_kind g"
      "normalizeFieldValue g entry ModeEntry = Some (ne_value e)" by blast
    from False m have "identityMatchKey (ne_kind e) (ne_value e) \<in> set (subject_keys identity subject)"
      by simp
    from subject_keys_origin [OF this] obtain ident f val where
      i: "ident \<in> set (is_identifiers subject)" and f: "f \<in> set (identityFields identity)"
      "rd_kind f = mi_kind ident"
      "normalizeFieldValue f (mi_value ident) ModeSubject = Some val"
      and key: "identityMatchKey (ne_kind e) (ne_value e) = identityMatchKey (mi_kind ident) val"
      by blast
    have "plain_kind (ne_kind e)" "plain_kind (mi_kind ident)"
      using assms(3) f g(1,2) by (metis list_all_iff)+
    with key have "ne_kind e = mi_kind ident \<and> ne_value e = val"
      by (simp add: identityMatchKey_inj)
    with entry i f g show ?thesis by metis
  qed
qed

definition example_identity :: ChannelIngressIdentityDescriptor where
  "example_identity =
     \<lparr>ci_primary = \<lparr>fd_key = None, fd_kind = None, fd_normalize = None, fd_normalizeEntry = None,
        fd_normalizeSubject = None, fd_dangerous = None, fd_sensitivity = None\<rparr>,
      ci_aliases = None, ci_isWildcardEntry = None, ci_matchEntry = None,
      ci_resolveEntryId = None\<rparr>"

lemmas identity_eval = createIdentityAdapter_def createIdentitySubject_def normalize_entry_def
  wildcard_entry_def identityFields_def resolved_field_def adapterEntry_def subject_keys_def
  entry_matches_def identityMatchKey_def normalizeFieldValue_def fieldDangerous_def nullish_def
  js_trim_def js_white_space_def js_set_def set_add_def enumerate_eq_zip

theorem identity_match_sound_witness:
  "\<exists>entry \<in> set [''42''].
    wildcard_entry example_identity entry \<or>
    (\<exists>field \<in> set (identityFields example_identity).
       normalizeFieldValue field entry ModeEntry = Some ''*'') \<or>
    (\<exists>ident \<in> set (is_identifiers (createIdentitySubject example_identity
         \<lparr>su_stableId = JString ''42'', su_aliases = None\<rparr>)).
       \<exists>f \<in> set (identityFields example_identity). \<exists>g \<in> set (identityFields example_identity).
       \<exists>value. rd_kind f = mi_kind ident \<and> rd_kind g = mi_kind ident \<and>
         normalizeFieldValue f (mi_value ident) ModeSubject = Some value \<and>
         normalizeFieldValue g entry ModeEntry = Some value)"
  by (rule identity_match_sound [where a = "''default''" and c = CtxDm])
     (simp_all add: example_identity_def identity_eval plain_kind_def)

end
