(* ===== verification/Ingress_State.thy ===== *)
theory Ingress_State
  imports Ingress_Allowlist Ingress_Identity
begin

text \<open>
  \<^verbatim>\<open>src/channels/message-access/state.ts\<close>: resolving raw allowlists, access groups,
  routes and the origin subject of an event into the redacted state that the decision graph
  reads. Promises resolve in the order the code awaits them; a rejected adapter call is not
  modelled. \<^verbatim>\<open>String.prototype.localeCompare\<close> depends on the host locale and is the
  parameter \<open>localeCompare\<close>.
\<close>

section \<open>Normalizing and matching\<close>

definition redactedEntries :: "InternalNormalizedEntry list \<Rightarrow> ChannelIngressNormalizedEntry list" where
  "redactedEntries entries = map ChannelIngressNormalizedEntry.truncate entries"

definition emptyMatch :: RedactedIngressMatch where
  "emptyMatch = \<lparr>rm_matched = False, rm_matchedEntryIds = []\<rparr>"

definition mergeMatches :: "RedactedIngressMatch list \<Rightarrow> RedactedIngressMatch" where
  "mergeMatches matches =
     (let matchedEntryIds = uniqueStrings (concat (map rm_matchedEntryIds matches))
      in \<lparr>rm_matched = list_ex rm_matched matches \<or> length matchedEntryIds > 0,
          rm_matchedEntryIds = matchedEntryIds\<rparr>)"

definition mergeDiagnostics ::
  "RedactedIngressEntryDiagnostic list option list \<Rightarrow> RedactedIngressEntryDiagnostic list" where
  "mergeDiagnostics groups =
     foldl (\<lambda>diagnostics group. diagnostics @ (case group of None \<Rightarrow> [] | Some g \<Rightarrow> g)) [] groups"

definition accessGroupFactByName ::
  "AccessGroupMembershipFact list option \<Rightarrow> (string, AccessGroupMembershipFact) jsmap" where
  "accessGroupFactByName facts =
     foldl (\<lambda>m fact. map_put (fact_groupName fact) fact m) [] (coalesce facts [])"

record NormalizeAndMatchResult =
  nm_normalizedEntries :: "ChannelIngressNormalizedEntry list"
  nm_invalidEntries :: "RedactedIngressEntryDiagnostic list"
  nm_disabledEntries :: "RedactedIngressEntryDiagnostic list"
  nm_match :: RedactedIngressMatch

definition normalizeAndMatch ::
  "InternalChannelIngressAdapter \<Rightarrow> InternalChannelIngressSubject \<Rightarrow> string \<Rightarrow> string list \<Rightarrow>
     IngressContext \<Rightarrow> NormalizeAndMatchResult" where
  "normalizeAndMatch adapter subject accountId entries context =
     (if length entries = 0 then
        \<lparr>nm_normalizedEntries = [], nm_invalidEntries = [], nm_disabledEntries = [],
         nm_match = emptyMatch\<rparr>
      else
        let normalized = normalizeEntries adapter entries context accountId;
            match = (if length (nr_matchable normalized) > 0
                     then matchSubject adapter subject (nr_matchable normalized) context
                     else emptyMatch)
        in \<lparr>nm_normalizedEntries = redactedEntries (nr_matchable normalized),
            nm_invalidEntries = nr_invalid normalized,
            nm_disabledEntries = nr_disabled normalized,
            nm_match = match\<rparr>)"

definition referencedAccessGroups :: "string list \<Rightarrow> string list" where
  "referencedAccessGroups entries =
     js_set (map the (filter (\<lambda>e. e \<noteq> None) (map parseAccessGroupAllowFromEntry entries)))"

definition directAllowlistEntries :: "string list \<Rightarrow> string list" where
  "directAllowlistEntries entries =
     filter (\<lambda>entry. parseAccessGroupAllowFromEntry entry = None) entries"

definition groupSenderEntries :: "string \<Rightarrow> ChannelIngressStateInput \<Rightarrow> string list" where
  "groupSenderEntries groupName input =
     (case Option.bind (si_accessGroups input) (\<lambda>groups. map_get groups groupName) of
        Some (MessageSenders g) \<Rightarrow>
          normalizeStringEntries (Some (map JString
            (coalesce (map_get (ms_members g) ''*'') [] @
             coalesce (map_get (ms_members g) (si_channelId input)) [])))
      | _ \<Rightarrow> [])"

definition eventSubjectMatchContext :: "ChannelIngressStateInput \<Rightarrow> IngressContext" where
  "eventSubjectMatchContext input =
     (if cv_kind (si_conversation input) = Direct then CtxDm else CtxGroup)"

definition normalizeSubjectIdentifiersForMatch ::
  "ChannelIngressStateInput \<Rightarrow> InternalChannelIngressSubject \<Rightarrow> IngressContext \<Rightarrow> string \<Rightarrow>
     InternalNormalizedEntry list" where
  "normalizeSubjectIdentifiersForMatch input subject context opaquePrefix =
     concat (map (\<lambda>(identifierIndex, ident).
       map (\<lambda>(entryIndex, entry).
           entry\<lparr>ne_opaqueEntryId := opaquePrefix @ ''-'' @
             js_string_of_int (int identifierIndex + 1) @ '':'' @
             js_string_of_int (int entryIndex + 1)\<rparr>)
         (enumerate 0 (filter (\<lambda>entry. ne_kind entry = mi_kind ident \<and> ne_value entry \<noteq> ''*'')
           (nr_matchable (normalizeEntries (si_adapter input) [mi_value ident] context
              (si_accountId input))))))
       (enumerate 0 (is_identifiers subject)))"

definition originSubjectMatched :: "ChannelIngressStateInput \<Rightarrow> bool" where
  "originSubjectMatched input =
     (case ev_originSubject (si_event input) of
        None \<Rightarrow> False
      | Some origin \<Rightarrow>
          if list_ex (\<lambda>ident. list_ex (\<lambda>current.
               mi_kind current = mi_kind ident \<and> mi_value current = mi_value ident)
               (is_identifiers (si_subject input))) (is_identifiers origin)
          then True
          else
            let context = eventSubjectMatchContext input;
                originEntries =
                  normalizeSubjectIdentifiersForMatch input origin context ''origin''
            in if length originEntries > 0 \<and>
                  rm_matched (matchSubject (si_adapter input) (si_subject input) originEntries context)
               then True
               else
                 let currentEntries = normalizeSubjectIdentifiersForMatch input (si_subject input)
                       context ''current''
                 in if length currentEntries = 0 then False
                    else rm_matched (matchSubject (si_adapter input) origin currentEntries context))"

section \<open>Access groups\<close>

record AccessGroupEntries =
  ge_normalizedEntries :: "ChannelIngressNormalizedEntry list"
  ge_invalidEntries :: "RedactedIngressEntryDiagnostic list"
  ge_disabledEntries :: "RedactedIngressEntryDiagnostic list"
  ge_matches :: "RedactedIngressMatch list"
  ge_accessGroups :: AccessGroupResults

text \<open>One iteration of the loop over the referenced groups of
  \<^verbatim>\<open>resolveAccessGroupEntries\<close>.\<close>

definition push_problem :: "FactProblem \<Rightarrow> string \<Rightarrow> AccessGroupResults \<Rightarrow> AccessGroupResults" where
  "push_problem problem groupName groups =
     (case problem of
        Missing \<Rightarrow> groups\<lparr>gs_missing := gs_missing groups @ [groupName]\<rparr>
      | Unsupported \<Rightarrow> groups\<lparr>gs_unsupported := gs_unsupported groups @ [groupName]\<rparr>
      | Failed \<Rightarrow> groups\<lparr>gs_failed := gs_failed groups @ [groupName]\<rparr>)"

definition push_matched :: "string \<Rightarrow> AccessGroupResults \<Rightarrow> AccessGroupResults" where
  "push_matched groupName groups = groups\<lparr>gs_matched := gs_matched groups @ [groupName]\<rparr>"

definition access_group_step ::
  "ChannelIngressStateInput \<Rightarrow> IngressContext \<Rightarrow> (string, AccessGroupMembershipFact) jsmap \<Rightarrow>
     AccessGroupEntries \<Rightarrow> string \<Rightarrow> AccessGroupEntries" where
  "access_group_step input context factByName acc groupName =
     (case map_get factByName groupName of
        Some (FactMatched _ _ matchedEntryIds) \<Rightarrow>
          acc\<lparr>ge_accessGroups := push_matched groupName (ge_accessGroups acc),
              ge_matches := ge_matches acc @
                [\<lparr>rm_matched = True, rm_matchedEntryIds = matchedEntryIds\<rparr>]\<rparr>
      | Some (FactProblem problem _ _ _ _) \<Rightarrow>
          acc\<lparr>ge_accessGroups := push_problem problem groupName (ge_accessGroups acc)\<rparr>
      | Some (FactNotMatched _ _) \<Rightarrow> acc
      | None \<Rightarrow>
         (case Option.bind (si_accessGroups input) (\<lambda>groups. map_get groups groupName) of
            None \<Rightarrow> acc\<lparr>ge_accessGroups := push_problem Missing groupName (ge_accessGroups acc)\<rparr>
          | Some (DiscordChannelAudience _) \<Rightarrow>
              acc\<lparr>ge_accessGroups := push_problem Unsupported groupName (ge_accessGroups acc)\<rparr>
          | Some (MessageSenders _) \<Rightarrow>
              let groupEntries = groupSenderEntries groupName input;
                  resolved = normalizeAndMatch (si_adapter input) (si_subject input)
                    (si_accountId input) groupEntries context;
                  acc = acc\<lparr>
                    ge_normalizedEntries := ge_normalizedEntries acc @ nm_normalizedEntries resolved,
                    ge_invalidEntries := ge_invalidEntries acc @ nm_invalidEntries resolved,
                    ge_disabledEntries := ge_disabledEntries acc @ nm_disabledEntries resolved\<rparr>
              in if rm_matched (nm_match resolved)
                 then acc\<lparr>ge_accessGroups := push_matched groupName (ge_accessGroups acc),
                          ge_matches := ge_matches acc @ [nm_match resolved]\<rparr>
                 else acc))"

definition resolveAccessGroupEntries ::
  "ChannelIngressStateInput \<Rightarrow> IngressContext \<Rightarrow> string list \<Rightarrow> AccessGroupEntries" where
  "resolveAccessGroupEntries input context referenced =
     foldl (access_group_step input context (accessGroupFactByName (si_accessGroupMembership input)))
       \<lparr>ge_normalizedEntries = [], ge_invalidEntries = [], ge_disabledEntries = [], ge_matches = [],
        ge_accessGroups = \<lparr>gs_referenced = referenced, gs_matched = [], gs_missing = [],
          gs_unsupported = [], gs_failed = []\<rparr>\<rparr> referenced"

definition resolveIngressAllowlist ::
  "ChannelIngressStateInput \<Rightarrow> js_value list option \<Rightarrow> IngressContext \<Rightarrow> ResolvedIngressAllowlist" where
  "resolveIngressAllowlist input rawEntries context =
     (let entries = normalizeStringEntries (Some (coalesce rawEntries []));
          referenced = referencedAccessGroups entries;
          directEntries = directAllowlistEntries entries;
          direct = normalizeAndMatch (si_adapter input) (si_subject input) (si_accountId input)
            directEntries context;
          groups = resolveAccessGroupEntries input context referenced;
          match = mergeMatches (nm_match direct # ge_matches groups)
      in \<lparr>al_rawEntryCount = length entries,
          al_normalizedEntries = nm_normalizedEntries direct @ ge_normalizedEntries groups,
          al_invalidEntries =
            mergeDiagnostics [Some (nm_invalidEntries direct), Some (ge_invalidEntries groups)],
          al_disabledEntries =
            mergeDiagnostics [Some (nm_disabledEntries direct), Some (ge_disabledEntries groups)],
          al_matchedEntryIds = rm_matchedEntryIds match,
          al_hasConfiguredEntries = length entries > 0,
          al_hasMatchableEntries =
            length (nm_normalizedEntries direct) > 0 \<or> length (ge_normalizedEntries groups) > 0,
          al_hasWildcard = ''*'' \<in> set directEntries,
          al_accessGroups = ge_accessGroups groups,
          al_match = match\<rparr>)"

section \<open>Routes and the state\<close>

definition route_order ::
  "(string \<Rightarrow> string \<Rightarrow> int) \<Rightarrow> RouteGateFacts \<Rightarrow> RouteGateFacts \<Rightarrow> int" where
  "route_order localeCompare left right =
     (let d = rf_precedence left - rf_precedence right
      in if d \<noteq> 0 then d else localeCompare (rf_id left) (rf_id right))"

definition resolve_route ::
  "ChannelIngressStateInput \<Rightarrow> RouteGateFacts \<Rightarrow> ResolvedRouteGateFacts" where
  "resolve_route input route =
     (let senderAllowFrom = coalesce2 (rf_senderAllowFrom route)
            (if rf_senderAllowFromSource route = Some EffectiveDm then ai_dm (si_allowlists input)
             else if rf_senderAllowFromSource route = Some EffectiveGroup
             then ai_group (si_allowlists input) else None)
      in \<lparr>rr_id = rf_id route, rr_kind = rf_kind route, rr_gate = rf_gate route,
          rr_effect = rf_effect route, rr_precedence = rf_precedence route,
          rr_senderPolicy = rf_senderPolicy route, rr_match = rf_match route,
          rr_senderAllowlist =
            (case senderAllowFrom of
               None \<Rightarrow> None
             | Some rawEntries \<Rightarrow> Some (resolveIngressAllowlist input (Some rawEntries) CtxRoute))\<rparr>)"

definition resolveRouteFacts ::
  "(string \<Rightarrow> string \<Rightarrow> int) \<Rightarrow> ChannelIngressStateInput \<Rightarrow> ResolvedRouteGateFacts list" where
  "resolveRouteFacts localeCompare input =
     map (resolve_route input)
       (js_toSorted (route_order localeCompare) (coalesce (si_routeFacts input) []))"

definition resolveChannelIngressState ::
  "(string \<Rightarrow> string \<Rightarrow> int) \<Rightarrow> ChannelIngressStateInput \<Rightarrow> ChannelIngressState" where
  "resolveChannelIngressState localeCompare input =
     \<lparr>st_channelId = si_channelId input, st_accountId = si_accountId input,
      st_conversationKind = cv_kind (si_conversation input),
      st_event = \<lparr>re_kind = ev_kind (si_event input), re_authMode = ev_authMode (si_event input),
        re_mayPair = ev_mayPair (si_event input),
        re_hasOriginSubject = ev_originSubject (si_event input) \<noteq> None,
        re_originSubjectMatched = originSubjectMatched input\<rparr>,
      st_mentionFacts = si_mentionFacts input,
      st_routeFacts = resolveRouteFacts localeCompare input,
      st_allowlists =
        \<lparr>ls_dm = resolveIngressAllowlist input (ai_dm (si_allowlists input)) CtxDm,
         ls_pairingStore = resolveIngressAllowlist input (ai_pairingStore (si_allowlists input)) CtxDm,
         ls_group = resolveIngressAllowlist input (ai_group (si_allowlists input)) CtxGroup,
         ls_commandOwner =
           resolveIngressAllowlist input (ai_commandOwner (si_allowlists input)) CtxCommand,
         ls_commandGroup =
           resolveIngressAllowlist input (ai_commandGroup (si_allowlists input)) CtxCommand\<rparr>\<rparr>"

section \<open>What an access group contributes\<close>

datatype GroupOutcome = GoMatched | GoNotMatched | GoProblem FactProblem

definition group_outcome ::
  "ChannelIngressStateInput \<Rightarrow> IngressContext \<Rightarrow> (string, AccessGroupMembershipFact) jsmap \<Rightarrow>
     string \<Rightarrow> GroupOutcome" where
  "group_outcome input context facts name =
     (case map_get facts name of
        Some (FactMatched _ _ _) \<Rightarrow> GoMatched
      | Some (FactProblem problem _ _ _ _) \<Rightarrow> GoProblem problem
      | Some (FactNotMatched _ _) \<Rightarrow> GoNotMatched
      | None \<Rightarrow>
         (case Option.bind (si_accessGroups input) (\<lambda>groups. map_get groups name) of
            None \<Rightarrow> GoProblem Missing
          | Some (DiscordChannelAudience _) \<Rightarrow> GoProblem Unsupported
          | Some (MessageSenders _) \<Rightarrow>
              if rm_matched (nm_match (normalizeAndMatch (si_adapter input) (si_subject input)
                   (si_accountId input) (groupSenderEntries name input) context))
              then GoMatched else GoNotMatched))"

lemma push_sel [simp]:
  "gs_referenced (push_problem p n g) = gs_referenced g"
  "gs_matched (push_problem p n g) = gs_matched g"
  "gs_missing (push_problem p n g) = gs_missing g @ (if p = Missing then [n] else [])"
  "gs_unsupported (push_problem p n g) = gs_unsupported g @ (if p = Unsupported then [n] else [])"
  "gs_failed (push_problem p n g) = gs_failed g @ (if p = Failed then [n] else [])"
  "gs_referenced (push_matched n g) = gs_referenced g"
  "gs_matched (push_matched n g) = gs_matched g @ [n]"
  "gs_missing (push_matched n g) = gs_missing g"
  "gs_unsupported (push_matched n g) = gs_unsupported g"
  "gs_failed (push_matched n g) = gs_failed g"
  by (cases p; simp add: push_problem_def push_matched_def)+

lemma access_group_step_groups:
  fixes acc input "context" facts n
  defines "r \<equiv> ge_accessGroups (access_group_step input context facts acc n)"
    and "a \<equiv> ge_accessGroups acc" and "out \<equiv> group_outcome input context facts n"
  shows "gs_referenced r = gs_referenced a"
    and "gs_matched r = gs_matched a @ (if out = GoMatched then [n] else [])"
    and "gs_missing r = gs_missing a @ (if out = GoProblem Missing then [n] else [])"
    and "gs_unsupported r = gs_unsupported a @ (if out = GoProblem Unsupported then [n] else [])"
    and "gs_failed r = gs_failed a @ (if out = GoProblem Failed then [n] else [])"
  unfolding r_def a_def out_def access_group_step_def group_outcome_def Let_def
  by (simp_all split: option.splits AccessGroupMembershipFact.splits AccessGroupConfig.splits)

lemma access_group_step_matches:
  "list_ex rm_matched (ge_matches (access_group_step input context facts acc n)) \<longleftrightarrow>
     list_ex rm_matched (ge_matches acc) \<or> group_outcome input context facts n = GoMatched"
  by (simp add: access_group_step_def group_outcome_def Let_def
      split: option.splits AccessGroupMembershipFact.splits AccessGroupConfig.splits)

lemma access_group_step_match_ok:
  "list_all match_ok (ge_matches acc) \<Longrightarrow>
     list_all match_ok (ge_matches (access_group_step input context facts acc n))"
  by (simp add: access_group_step_def Let_def match_ok_def
      split: option.splits AccessGroupMembershipFact.splits AccessGroupConfig.splits)

lemma foldl_access_groups:
  fixes acc input "context" facts names
  defines "r \<equiv> ge_accessGroups (foldl (access_group_step input context facts) acc names)"
    and "a \<equiv> ge_accessGroups acc" and "out \<equiv> group_outcome input context facts"
  shows "gs_referenced r = gs_referenced a"
    and "gs_matched r = gs_matched a @ filter (\<lambda>n. out n = GoMatched) names"
    and "gs_missing r = gs_missing a @ filter (\<lambda>n. out n = GoProblem Missing) names"
    and "gs_unsupported r = gs_unsupported a @ filter (\<lambda>n. out n = GoProblem Unsupported) names"
    and "gs_failed r = gs_failed a @ filter (\<lambda>n. out n = GoProblem Failed) names"
  unfolding r_def a_def out_def
  by (induction names arbitrary: acc) (auto simp: access_group_step_groups)

lemma foldl_access_group_matches:
  "list_ex rm_matched (ge_matches (foldl (access_group_step input context facts) acc names)) \<longleftrightarrow>
     list_ex rm_matched (ge_matches acc) \<or>
     (\<exists>n \<in> set names. group_outcome input context facts n = GoMatched)"
  by (induction names arbitrary: acc) (auto simp: access_group_step_matches)

lemma foldl_access_group_match_ok:
  "list_all match_ok (ge_matches acc) \<Longrightarrow>
     list_all match_ok (ge_matches (foldl (access_group_step input context facts) acc names))"
  by (induction names arbitrary: acc) (auto simp: access_group_step_match_ok)

lemma mergeMatches_matched:
  "list_all match_ok ms \<Longrightarrow> rm_matched (mergeMatches ms) = list_ex rm_matched ms"
  by (auto simp: mergeMatches_def Let_def list_all_iff list_ex_iff match_ok_def)

section \<open>Resolved allowlists\<close>

lemma resolve_allowlist_ok: "allowlist_ok (resolveIngressAllowlist input raw context)"
  by (auto simp: resolveIngressAllowlist_def mergeMatches_def allowlist_ok_def match_ok_def Let_def)

lemma resolveIngressAllowlist_sel:
  fixes input raw "context"
  defines "al \<equiv> resolveIngressAllowlist input raw context"
    and "entries \<equiv> normalizeStringEntries (Some (coalesce raw []))"
  shows "al_hasConfiguredEntries al \<longleftrightarrow> entries \<noteq> []"
    and "al_hasWildcard al \<longleftrightarrow> ''*'' \<in> set entries"
    and "al_rawEntryCount al = length entries"
    and "gs_referenced (al_accessGroups al) = referencedAccessGroups entries"
  unfolding al_def entries_def
  by (simp_all add: resolveIngressAllowlist_def Let_def directAllowlistEntries_def
      resolveAccessGroupEntries_def foldl_access_groups)

lemma resolve_none_unmatched:
  assumes "normalizeStringEntries (Some (coalesce raw [])) = []"
  shows "\<not> rm_matched (al_match (resolveIngressAllowlist input raw context))"
  using assms
  by (simp add: resolveIngressAllowlist_def Let_def directAllowlistEntries_def
      referencedAccessGroups_def resolveAccessGroupEntries_def normalizeAndMatch_def emptyMatch_def
      mergeMatches_def js_set_def uniqueStrings_def uniqueValues_def)

lemma resolve_state_ok: "state_allowlists_ok (resolveChannelIngressState lc input)"
  by (auto simp: state_allowlists_ok_def resolveChannelIngressState_def resolve_allowlist_ok
      resolveRouteFacts_def resolve_route_def split: option.splits)

text \<open>With an adapter that keeps its contract, a resolved allowlist matches exactly when the
  adapter matches a direct entry or one of the referenced access groups admits the sender.\<close>

context ingress_adapter
begin

lemma normalizeAndMatch_ok: "match_ok (nm_match (normalizeAndMatch adapter s a es c))"
  by (auto simp: normalizeAndMatch_def emptyMatch_def match_ok_def matched_iff_ids Let_def)

lemma normalizeAndMatch_matched:
  "rm_matched (nm_match (normalizeAndMatch adapter s a es c)) \<longleftrightarrow>
     es \<noteq> [] \<and> rm_matched (matchSubject adapter s (nr_matchable (normalizeEntries adapter es c a)) c)"
  using no_entries_no_match by (auto simp: normalizeAndMatch_def emptyMatch_def Let_def)

lemma resolved_matched:
  assumes "si_adapter input = adapter"
  shows "rm_matched (al_match (resolveIngressAllowlist input raw c)) \<longleftrightarrow>
    (let entries = normalizeStringEntries (Some (coalesce raw []));
         direct = directAllowlistEntries entries
     in direct \<noteq> [] \<and> rm_matched (matchSubject adapter (si_subject input)
          (nr_matchable (normalizeEntries adapter direct c (si_accountId input))) c) \<or>
        (\<exists>n \<in> set (referencedAccessGroups entries).
           group_outcome input c (accessGroupFactByName (si_accessGroupMembership input)) n =
             GoMatched))"
proof -
  let ?entries = "normalizeStringEntries (Some (coalesce raw []))"
  let ?groups = "resolveAccessGroupEntries input c (referencedAccessGroups ?entries)"
  let ?direct = "normalizeAndMatch adapter (si_subject input) (si_accountId input)
    (directAllowlistEntries ?entries) c"
  have "list_all match_ok (nm_match ?direct # ge_matches ?groups)"
    using normalizeAndMatch_ok
    by (simp add: resolveAccessGroupEntries_def foldl_access_group_match_ok)
  from mergeMatches_matched [OF this] show ?thesis
    using assms
    by (simp add: resolveIngressAllowlist_def Let_def normalizeAndMatch_matched
        resolveAccessGroupEntries_def foldl_access_group_matches)
qed

end

section \<open>Routes\<close>

lemma mset_resolved_routes:
  "mset (map rr_id (resolveRouteFacts lc input)) = mset (map rf_id (coalesce (si_routeFacts input) []))"
proof -
  have "rr_id \<circ> resolve_route input = rf_id" by (auto simp: resolve_route_def comp_def)
  then show ?thesis by (simp add: resolveRouteFacts_def)
qed

lemma insert_by_precedence:
  "sorted_wrt (\<lambda>a b. rf_precedence a \<le> rf_precedence b) xs \<Longrightarrow>
     sorted_wrt (\<lambda>a b. rf_precedence a \<le> rf_precedence b) (insert_by (route_order lc) x xs)"
proof (induction xs)
  case (Cons y ys)
  have le: "rf_precedence y \<le> rf_precedence x" if "route_order lc y x \<le> 0"
    using that by (auto simp: route_order_def Let_def split: if_splits)
  have ge: "rf_precedence x \<le> rf_precedence y" if "\<not> route_order lc y x \<le> 0"
    using that by (auto simp: route_order_def Let_def split: if_splits)
  have "set (insert_by (route_order lc) x ys) = insert x (set ys)"
    by (metis mset_insert_by set_mset_add_mset_insert set_mset_mset)
  with Cons le ge show ?case by fastforce
qed simp

lemma routes_by_precedence:
  "sorted_wrt (\<lambda>a b. rr_precedence a \<le> rr_precedence b) (resolveRouteFacts lc input)"
proof -
  have "sorted_wrt (\<lambda>a b. rf_precedence a \<le> rf_precedence b)
      (foldl (\<lambda>acc x. insert_by (route_order lc) x acc) ys xs)"
    if "sorted_wrt (\<lambda>a b. rf_precedence a \<le> rf_precedence b) ys" for ys xs
    using that by (induction xs arbitrary: ys) (auto intro: insert_by_precedence)
  from this [of "[]"] show ?thesis
    by (simp add: resolveRouteFacts_def js_toSorted_def sorted_wrt_map resolve_route_def)
qed

end
