(* ===== verification/Ingress_Runtime.thy ===== *)
theory Ingress_Runtime
  imports Ingress_Decision Ingress_State
begin

text \<open>
  \<^verbatim>\<open>runtime.ts\<close>, \<^verbatim>\<open>runtime-types.ts\<close>, \<^verbatim>\<open>runtime-access-groups.ts\<close>,
  \<^verbatim>\<open>store-allow-from.ts\<close> and \<^verbatim>\<open>dm-allow-state.ts\<close> of
  \<^verbatim>\<open>src/channels/message-access\<close>: the resolver a channel calls for one inbound event. It
  reads the pairing store, resolves access groups, builds the state, decides, and projects the
  decision for the channel's handlers.

  Parameters: \<open>localeCompare\<close>, and \<open>readChannelAllowFromStore\<close>, the persistent pairing
  store, whose read may reject. A property that is absent and one that is \<^verbatim>\<open>undefined\<close>
  are the same \<open>None\<close>.
\<close>

section \<open>Inputs\<close>

datatype GroupOwnerAllowFrom = OwnerConfigured | OwnerNone
datatype DirectGroupAllowFrom = GroupEffective | GroupNone

record ChannelMessageIngressCommandInput = CommandPolicy +
  cc_commandOwnerAllowFrom :: "js_value list option"
  cc_groupOwnerAllowFrom :: "GroupOwnerAllowFrom option"
  cc_directGroupAllowFrom :: "DirectGroupAllowFrom option"
  cc_commandGroupAllowFromFallbackToAllowFrom :: "bool option"

record ChannelIngressConfigInput =
  cf_accessGroups :: "(string, AccessGroupConfig) jsmap option"
  cf_commandsUseAccessGroups :: "bool option option"

record ChannelIngressCommandPresetInput =
  cs_requested :: "bool option"
  cs_useAccessGroups :: "bool option"
  cs_allowTextCommands :: "bool option"
  cs_hasControlCommand :: "bool option"
  cs_modeWhenAccessGroupsOff :: "CommandGatingMode option"
  cs_commandOwnerAllowFrom :: "js_value list option"
  cs_groupOwnerAllowFrom :: "GroupOwnerAllowFrom option"
  cs_directGroupAllowFrom :: "DirectGroupAllowFrom option"
  cs_commandGroupAllowFromFallbackToAllowFrom :: "bool option"
  cs_cfg :: "ChannelIngressConfigInput option"

record ChannelIngressEventPresetInput =
  ee_kind :: "IngressEventKind option"
  ee_authMode :: "IngressAuthMode option"
  ee_mayPair :: "bool option"
  ee_originSubject :: "InternalChannelIngressSubject option"
  ee_isGroup :: "bool option"

record ChannelIngressRouteDescriptor =
  dr_id :: string
  dr_kind :: "RouteKind option"
  dr_configured :: "bool option"
  dr_matched :: "bool option"
  dr_allowed :: "bool option"
  dr_enabled :: "bool option"
  dr_precedence :: "int option"
  dr_senderPolicy :: "RouteSenderPolicy option"
  dr_senderAllowFrom :: "js_value list option"
  dr_senderAllowFromSource :: "RouteSenderAllowlistSource option"
  dr_matchId :: "string option"
  dr_blockReason :: "string option"

datatype RouteParam =
    RouteOne ChannelIngressRouteDescriptor
  | RouteMany "ChannelIngressRouteDescriptor list"

type_synonym membership_resolver =
  "string \<Rightarrow> AccessGroupConfig \<Rightarrow> string \<Rightarrow> string \<Rightarrow> ChannelIngressIdentitySubjectInput \<Rightarrow> bool settled"

type_synonym store_reader = "string \<Rightarrow> string \<Rightarrow> DmPolicy \<Rightarrow> js_value list option settled"

record ResolveChannelMessageIngressParams =
  rp_channelId :: string
  rp_accountId :: string
  rp_identity :: ChannelIngressIdentityDescriptor
  rp_subject :: ChannelIngressIdentitySubjectInput
  rp_conversation :: IngressConversation
  rp_event :: ChannelIngressEventInput
  rp_policy :: ChannelIngressPolicyInput
  rp_allowFrom :: "js_value list option"
  rp_groupAllowFrom :: "js_value list option"
  rp_route :: "RouteParam option"
  rp_routeFacts :: "RouteGateFacts list option"
  rp_accessGroups :: "(string, AccessGroupConfig) jsmap option"
  rp_accessGroupMembership :: "AccessGroupMembershipFact list option"
  rp_resolveAccessGroupMembership :: "membership_resolver option"
  rp_accessGroupMatchedAllowFromEntry :: js_value
  rp_providerMissingFallbackApplied :: "bool option"
  rp_mentionFacts :: "InboundMentionFacts option"
  rp_readStoreAllowFrom :: "store_reader option"
  rp_useDefaultPairingStore :: "bool option"
  rp_command :: "ChannelMessageIngressCommandInput option"

record CreateChannelIngressResolverParams =
  br_channelId :: string
  br_accountId :: string
  br_identity :: ChannelIngressIdentityDescriptor
  br_accessGroups :: "(string, AccessGroupConfig) jsmap option"
  br_accessGroupMembership :: "AccessGroupMembershipFact list option"
  br_resolveAccessGroupMembership :: "membership_resolver option"
  br_accessGroupMatchedAllowFromEntry :: js_value
  br_readStoreAllowFrom :: "store_reader option"
  br_useDefaultPairingStore :: "bool option"
  br_cfg :: "ChannelIngressConfigInput option"
  br_useAccessGroups :: "bool option"
  br_defaultDmPolicy :: "DmPolicy option"
  br_defaultGroupPolicy :: "GroupPolicy option"
  br_groupAllowFromFallbackToAllowFrom :: "bool option"
  br_mutableIdentifierMatching :: "MutableMatching option"

text \<open>\<^verbatim>\<open>command\<close> of a message is a command input, a preset (of which an input is a
  special case) or \<^verbatim>\<open>false\<close>.\<close>

datatype CommandParam = CommandFalse | CommandPreset ChannelIngressCommandPresetInput

record PartialPolicy =
  pp_groupAllowFromFallbackToAllowFrom :: "bool option"
  pp_mutableIdentifierMatching :: "MutableMatching option"
  pp_activation :: "ActivationPolicy option"
  pp_command :: "CommandPolicy option"

record ChannelIngressResolverMessageParams =
  im_subject :: ChannelIngressIdentitySubjectInput
  im_conversation :: IngressConversation
  im_event :: "ChannelIngressEventPresetInput option"
  im_dmPolicy :: "DmPolicy option"
  im_groupPolicy :: "GroupPolicy option"
  im_policy :: "PartialPolicy option"
  im_allowFrom :: "js_value list option"
  im_groupAllowFrom :: "js_value list option"
  im_route :: "RouteParam option"
  im_routeFacts :: "RouteGateFacts list option"
  im_accessGroupMembership :: "AccessGroupMembershipFact list option"
  im_providerMissingFallbackApplied :: "bool option"
  im_mentionFacts :: "InboundMentionFacts option"
  im_command :: "CommandParam option"

section \<open>Projections\<close>

record ChannelIngressSenderAccess =
  sx_allowed :: bool
  sx_decision :: IngressVerdict
  sx_reasonCode :: IngressReasonCode
  sx_gate :: "AccessGraphGate option"
  sx_effectiveAllowFrom :: "string list"
  sx_effectiveGroupAllowFrom :: "string list"
  sx_providerMissingFallbackApplied :: bool

record ChannelIngressCommandAccess =
  cx_requested :: bool
  cx_authorized :: bool
  cx_shouldBlockControlCommand :: bool
  cx_reasonCode :: IngressReasonCode
  cx_gate :: "AccessGraphGate option"

record ChannelIngressRouteAccess =
  rx_allowed :: bool
  rx_reasonCode :: "IngressReasonCode option"
  rx_reason :: "string option"
  rx_gate :: "AccessGraphGate option"

record ChannelIngressActivationAccess =
  ax_ran :: bool
  ax_allowed :: bool
  ax_shouldSkip :: bool
  ax_reasonCode :: IngressReasonCode
  ax_effectiveWasMentioned :: "bool option"
  ax_shouldBypassMention :: "bool option"
  ax_gate :: "AccessGraphGate option"

record ResolvedChannelMessageIngress =
  rg_state :: ChannelIngressState
  rg_ingress :: ChannelIngressDecision
  rg_senderAccess :: ChannelIngressSenderAccess
  rg_routeAccess :: ChannelIngressRouteAccess
  rg_commandAccess :: ChannelIngressCommandAccess
  rg_activationAccess :: ChannelIngressActivationAccess

section \<open>runtime-access-groups.ts\<close>

definition accessGroupNames :: "js_value list \<Rightarrow> string list" where
  "accessGroupNames entries = uniqueStrings (map the (filter (\<lambda>e. e \<noteq> None)
     (map (\<lambda>entry. parseAccessGroupAllowFromEntry (js_String entry)) entries)))"

definition allReferencedAccessGroupNames :: "js_value list list \<Rightarrow> string list" where
  "allReferencedAccessGroupNames entries = uniqueStrings (concat (map accessGroupNames entries))"

definition normalizeEffectiveEntries ::
  "InternalChannelIngressAdapter \<Rightarrow> string \<Rightarrow> js_value list \<Rightarrow> IngressContext \<Rightarrow> string list" where
  "normalizeEffectiveEntries adapter accountId entries context =
     (let rawEntries = normalizeStringEntries (Some entries);
          accessGroupEntries =
            filter (\<lambda>entry. parseAccessGroupAllowFromEntry entry \<noteq> None) rawEntries;
          directEntries = filter (\<lambda>entry. parseAccessGroupAllowFromEntry entry = None) rawEntries
      in if length directEntries = 0 then accessGroupEntries
         else uniqueStrings (accessGroupEntries @
           map ne_value (nr_matchable (normalizeEntries adapter directEntries context accountId))))"

definition membership_fact ::
  "membership_resolver \<Rightarrow> ResolveChannelMessageIngressParams \<Rightarrow> string \<Rightarrow> string \<Rightarrow>
     AccessGroupMembershipFact list" where
  "membership_fact resolve input channelId name =
     (case Option.bind (rp_accessGroups input) (\<lambda>groups. map_get groups name) of
        None \<Rightarrow> []
      | Some (MessageSenders _) \<Rightarrow> []
      | Some grp \<Rightarrow>
         (case resolve name grp channelId (rp_accountId input) (rp_subject input) of
            Fulfilled matched \<Rightarrow>
              [if matched then FactMatched name Dynamic [''access-group:'' @ name]
               else FactNotMatched name Dynamic]
          | Rejected \<Rightarrow> [FactProblem Failed name Dynamic AccessGroupFailed
              (Some (''access-group:'' @ name))]))"

definition resolveRuntimeAccessGroupMembershipFacts ::
  "ResolveChannelMessageIngressParams \<Rightarrow> string \<Rightarrow> string list \<Rightarrow> AccessGroupMembershipFact list" where
  "resolveRuntimeAccessGroupMembershipFacts input channelId names =
     (case rp_resolveAccessGroupMembership input of
        None \<Rightarrow> []
      | Some resolve \<Rightarrow>
          if length names = 0 then []
          else concat (map (membership_fact resolve input channelId) names))"

section \<open>store-allow-from.ts and dm-allow-state.ts\<close>

definition readChannelIngressStoreAllowFromForDmPolicy ::
  "(string \<Rightarrow> string \<Rightarrow> string list settled) \<Rightarrow> string \<Rightarrow> string \<Rightarrow> string option \<Rightarrow> bool option \<Rightarrow>
     (string \<Rightarrow> string \<Rightarrow> string list settled) option \<Rightarrow> string list" where
  "readChannelIngressStoreAllowFromForDmPolicy readChannelAllowFromStore provider accountId
       dmPolicy shouldRead readStore =
     (if shouldRead = Some False \<or> dmPolicy = Some ''allowlist'' \<or> dmPolicy = Some ''open''
      then []
      else case coalesce readStore readChannelAllowFromStore provider accountId of
        Fulfilled entries \<Rightarrow> entries
      | Rejected \<Rightarrow> [])"

record DmAllowAuditState =
  da_configAllowFrom :: "string list"
  da_hasWildcard :: bool
  da_allowCount :: nat
  da_isMultiUserDm :: bool

definition resolveDmAllowAuditState ::
  "(string \<Rightarrow> string \<Rightarrow> string list settled) \<Rightarrow> string \<Rightarrow> string \<Rightarrow> js_value list option \<Rightarrow>
     string option \<Rightarrow> (string \<Rightarrow> string) option \<Rightarrow>
     (string \<Rightarrow> string \<Rightarrow> string list settled) option \<Rightarrow> DmAllowAuditState" where
  "resolveDmAllowAuditState readChannelAllowFromStore provider accountId allowFrom dmPolicy
       normalizeEntry readStore =
     (let configAllowFrom = normalizeStringEntries allowFrom;
          hasWildcard = ''*'' \<in> set configAllowFrom;
          storeAllowFrom = readChannelIngressStoreAllowFromForDmPolicy readChannelAllowFromStore
            provider accountId dmPolicy None readStore;
          normalize = coalesce normalizeEntry (\<lambda>value. value);
          normalizedCfg = normalizeStringEntries
            (Some (map (JString \<circ> normalize) (filter (\<lambda>value. value \<noteq> ''*'') configAllowFrom)));
          normalizedStore = normalizeStringEntries (Some (map (JString \<circ> normalize) storeAllowFrom));
          allowCount = length (js_set (normalizedCfg @ normalizedStore))
      in \<lparr>da_configAllowFrom = configAllowFrom, da_hasWildcard = hasWildcard,
          da_allowCount = allowCount, da_isMultiUserDm = hasWildcard \<or> allowCount > 1\<rparr>)"

section \<open>runtime.ts\<close>

text \<open>A DM policy as the string the allowlist helpers compare.\<close>

fun dm_policy_string :: "DmPolicy \<Rightarrow> string" where
  "dm_policy_string DmPairing = ''pairing''"
| "dm_policy_string DmAllowlist = ''allowlist''"
| "dm_policy_string DmOpen = ''open''"
| "dm_policy_string DmDisabled = ''disabled''"

definition shouldReadStore :: "ConversationKind \<Rightarrow> DmPolicy \<Rightarrow> bool" where
  "shouldReadStore conversationKind dmPolicy \<longleftrightarrow>
     conversationKind = Direct \<and> dmPolicy \<noteq> DmAllowlist \<and> dmPolicy \<noteq> DmOpen"

definition readStoreAllowFrom ::
  "(string \<Rightarrow> string \<Rightarrow> string list settled) \<Rightarrow> ResolveChannelMessageIngressParams \<Rightarrow> string \<Rightarrow>
     js_value list" where
  "readStoreAllowFrom readChannelAllowFromStore params channelId =
     (if \<not> shouldReadStore (cv_kind (rp_conversation params)) (pi_dmPolicy (rp_policy params)) then []
      else
        let entries =
          (case rp_readStoreAllowFrom params of
             Some read \<Rightarrow>
               (case read channelId (rp_accountId params) (pi_dmPolicy (rp_policy params)) of
                  Fulfilled entries \<Rightarrow> entries
                | Rejected \<Rightarrow> Some [])
           | None \<Rightarrow>
               if rp_useDefaultPairingStore params = Some True then
                 Some (map JString (readChannelIngressStoreAllowFromForDmPolicy
                   readChannelAllowFromStore channelId (rp_accountId params)
                   (Some (dm_policy_string (pi_dmPolicy (rp_policy params)))) None None))
               else Some [])
        in coalesce entries [])"

definition commandRequested :: "ChannelIngressPolicyInput \<Rightarrow> bool" where
  "commandRequested policy \<longleftrightarrow> pi_command policy \<noteq> None"

datatype ingress_error = ChannelIdEmpty

definition normalizeChannelId :: "string \<Rightarrow> ingress_error + string" where
  "normalizeChannelId cid =
     (let trimmed = js_trim cid in if trimmed = [] then Inl ChannelIdEmpty else Inr trimmed)"

definition findIngressGate ::
  "ChannelIngressDecision \<Rightarrow> IngressGatePhase \<Rightarrow> IngressGateKind \<Rightarrow> AccessGraphGate option" where
  "findIngressGate ingress phase kind =
     List.find (\<lambda>gate. ag_phase gate = phase \<and> ag_kind gate = kind) (id_gates ingress)"

definition findSenderGate :: "ChannelIngressDecision \<Rightarrow> bool \<Rightarrow> AccessGraphGate option" where
  "findSenderGate ingress isGroup =
     findIngressGate ingress PhSender (if isGroup then KGroupSender else KDmSender)"

definition useAccessGroupsFromConfig ::
  "bool option \<Rightarrow> ChannelIngressConfigInput option \<Rightarrow> bool" where
  "useAccessGroupsFromConfig useAccessGroups cfg =
     coalesce useAccessGroups
       (Option.bind (Option.bind cfg cf_commandsUseAccessGroups) (\<lambda>u. u) \<noteq> Some False)"

definition channelIngressCommand ::
  "ChannelIngressCommandPresetInput \<Rightarrow> ChannelMessageIngressCommandInput option" where
  "channelIngressCommand params =
     (if cs_requested params = Some False then None
      else Some
        \<lparr>cp_useAccessGroups =
           Some (useAccessGroupsFromConfig (cs_useAccessGroups params) (cs_cfg params)),
         cp_allowTextCommands = coalesce (cs_allowTextCommands params) False,
         cp_hasControlCommand = coalesce (cs_hasControlCommand params) True,
         cp_modeWhenAccessGroupsOff = cs_modeWhenAccessGroupsOff params,
         cc_commandOwnerAllowFrom = cs_commandOwnerAllowFrom params,
         cc_groupOwnerAllowFrom = cs_groupOwnerAllowFrom params,
         cc_directGroupAllowFrom = cs_directGroupAllowFrom params,
         cc_commandGroupAllowFromFallbackToAllowFrom =
           cs_commandGroupAllowFromFallbackToAllowFrom params\<rparr>)"

definition channelIngressEvent :: "ChannelIngressEventPresetInput \<Rightarrow> ChannelIngressEventInput" where
  "channelIngressEvent params =
     (let isGroup = coalesce (ee_isGroup params) False
      in \<lparr>ev_kind = coalesce (ee_kind params) EvMessage,
          ev_authMode = coalesce (ee_authMode params) AmInbound,
          ev_mayPair = coalesce (ee_mayPair params) (\<not> isGroup),
          ev_originSubject = ee_originSubject params\<rparr>)"

definition resolveCommandInput ::
  "CommandParam option \<Rightarrow> bool option \<Rightarrow> ChannelMessageIngressCommandInput option" where
  "resolveCommandInput command useAccessGroups =
     (case command of
        None \<Rightarrow> None
      | Some CommandFalse \<Rightarrow> None
      | Some (CommandPreset preset) \<Rightarrow>
          channelIngressCommand (preset
            \<lparr>cs_useAccessGroups := coalesce2 (cs_useAccessGroups preset) useAccessGroups\<rparr>))"

definition resolveResolverPolicy ::
  "CreateChannelIngressResolverParams \<Rightarrow> ChannelIngressResolverMessageParams \<Rightarrow>
     ChannelIngressPolicyInput" where
  "resolveResolverPolicy base input =
     \<lparr>pi_dmPolicy = coalesce (im_dmPolicy input) (coalesce (br_defaultDmPolicy base) DmPairing),
      pi_groupPolicy =
        coalesce (im_groupPolicy input) (coalesce (br_defaultGroupPolicy base) GrDisabled),
      pi_groupAllowFromFallbackToAllowFrom =
        coalesce2 (Option.bind (im_policy input) pp_groupAllowFromFallbackToAllowFrom)
          (br_groupAllowFromFallbackToAllowFrom base),
      pi_mutableIdentifierMatching =
        coalesce2 (Option.bind (im_policy input) pp_mutableIdentifierMatching)
          (br_mutableIdentifierMatching base),
      pi_activation = Option.bind (im_policy input) pp_activation,
      pi_command = None\<rparr>"

section \<open>Route descriptors\<close>

definition routeDescriptors :: "RouteParam option \<Rightarrow> ChannelIngressRouteDescriptor list" where
  "routeDescriptors route =
     (case route of None \<Rightarrow> [] | Some (RouteMany ds) \<Rightarrow> ds | Some (RouteOne d) \<Rightarrow> [d])"

text \<open>\<^verbatim>\<open>false\<close>, \<^verbatim>\<open>null\<close> and \<^verbatim>\<open>undefined\<close> entries are \<open>None\<close>.\<close>

definition channelIngressRoutes ::
  "ChannelIngressRouteDescriptor option list \<Rightarrow> ChannelIngressRouteDescriptor list" where
  "channelIngressRoutes routes = map the (filter (\<lambda>route. route \<noteq> None) routes)"

definition routeDescriptorMatch :: "ChannelIngressRouteDescriptor \<Rightarrow> RedactedIngressMatch" where
  "routeDescriptorMatch descriptor =
     (let matched = coalesce (coalesce2 (dr_matched descriptor) (dr_allowed descriptor))
            (dr_enabled descriptor \<noteq> Some False)
      in \<lparr>rm_matched = matched,
          rm_matchedEntryIds =
            (case dr_matchId descriptor of
               None \<Rightarrow> []
             | Some matchId \<Rightarrow> if matched \<and> matchId \<noteq> [] then [matchId] else [])\<rparr>)"

record RouteFactDefaults =
  fl_id :: string
  fl_kind :: "RouteKind option"
  fl_precedence :: "int option"
  fl_senderPolicy :: "RouteSenderPolicy option"
  fl_senderAllowFrom :: "js_value list option"
  fl_senderAllowFromSource :: "RouteSenderAllowlistSource option"
  fl_match :: "RedactedIngressMatch option"

definition routeFact ::
  "RouteFactDefaults \<Rightarrow> RouteGateState \<Rightarrow> RouteEffect \<Rightarrow> RouteGateFacts" where
  "routeFact params gate effect =
     \<lparr>rf_id = fl_id params, rf_kind = coalesce (fl_kind params) RkRoute, rf_gate = gate,
      rf_effect = effect, rf_precedence = coalesce (fl_precedence params) 0,
      rf_senderPolicy = coalesce (fl_senderPolicy params) Inherit,
      rf_senderAllowFrom = fl_senderAllowFrom params,
      rf_senderAllowFromSource = fl_senderAllowFromSource params,
      rf_match = fl_match params\<rparr>"

definition routeFactDefaults :: "ChannelIngressRouteDescriptor \<Rightarrow> RouteFactDefaults" where
  "routeFactDefaults descriptor =
     \<lparr>fl_id = dr_id descriptor, fl_kind = dr_kind descriptor,
      fl_precedence = dr_precedence descriptor, fl_senderPolicy = dr_senderPolicy descriptor,
      fl_senderAllowFrom = dr_senderAllowFrom descriptor,
      fl_senderAllowFromSource = dr_senderAllowFromSource descriptor,
      fl_match = Some (routeDescriptorMatch descriptor)\<rparr>"

definition route_descriptor_facts :: "ChannelIngressRouteDescriptor \<Rightarrow> RouteGateFacts list" where
  "route_descriptor_facts descriptor =
     (if dr_configured descriptor = Some False then []
      else
        let defaults = routeFactDefaults descriptor
        in if dr_enabled descriptor = Some False
           then [routeFact defaults RouteDisabled ReBlockDispatch]
           else case dr_allowed descriptor of
             Some allowed \<Rightarrow>
               [routeFact defaults (if allowed then RouteMatched else RouteNotMatched)
                  (if allowed then ReAllow else ReBlockDispatch)]
           | None \<Rightarrow>
               if dr_senderPolicy descriptor \<noteq> Some DenyWhenEmpty \<and>
                  dr_senderAllowFrom descriptor = None \<and> dr_senderAllowFromSource descriptor = None
               then []
               else [routeFact (defaults
                 \<lparr>fl_kind := (if dr_senderPolicy descriptor = Some DenyWhenEmpty
                                then fl_kind defaults else Some RkRouteSender),
                  fl_senderPolicy := (if dr_senderPolicy descriptor = Some DenyWhenEmpty
                                then Some DenyWhenEmpty else fl_senderPolicy defaults)\<rparr>)
                 RouteMatched ReAllow])"

definition routeFactsFromDescriptors :: "RouteParam option \<Rightarrow> RouteGateFacts list" where
  "routeFactsFromDescriptors route = concat (map route_descriptor_facts (routeDescriptors route))"

definition routeDescriptorForGate ::
  "ChannelIngressRouteDescriptor list \<Rightarrow> AccessGraphGate \<Rightarrow> ChannelIngressRouteDescriptor option" where
  "routeDescriptorForGate descriptors gate =
     (let baseGateId = (if js_endsWith (ag_id gate) '':sender''
            then take (length (ag_id gate) - length '':sender'') (ag_id gate) else ag_id gate)
      in List.find (\<lambda>d. dr_id d = ag_id gate \<or> dr_id d = baseGateId) descriptors)"

section \<open>Projecting the decision\<close>

definition projectRouteAccess ::
  "ChannelIngressDecision \<Rightarrow> RouteParam option \<Rightarrow> ChannelIngressRouteAccess" where
  "projectRouteAccess ingress route =
     (let descriptors = routeDescriptors route in
      case List.find (\<lambda>entry. ag_phase entry = PhRoute \<and> ag_effect entry = EffBlockDispatch)
             (id_gates ingress) of
        Some routeBlock \<Rightarrow>
          \<lparr>rx_allowed = ag_allowed routeBlock, rx_reasonCode = Some (ag_reasonCode routeBlock),
           rx_reason = nonempty_string
             (Option.bind (routeDescriptorForGate descriptors routeBlock) dr_blockReason),
           rx_gate = Some routeBlock\<rparr>
      | None \<Rightarrow>
          (let routeSenderReplacement = List.find (\<lambda>d. dr_senderPolicy d = Some Replace \<and>
                 nonempty_string (dr_blockReason d) \<noteq> None) descriptors;
               senderBlock = List.find (\<lambda>entry. ag_phase entry = PhSender \<and>
                 ag_effect entry = EffBlockDispatch) (id_gates ingress)
           in case (routeSenderReplacement, senderBlock) of
                (Some d, Some g) \<Rightarrow>
                  \<lparr>rx_allowed = False, rx_reasonCode = Some (ag_reasonCode g),
                   rx_reason = dr_blockReason d, rx_gate = Some g\<rparr>
              | _ \<Rightarrow>
                 (case List.find (\<lambda>entry. ag_phase entry = PhRoute) (id_gates ingress) of
                    Some gate \<Rightarrow>
                      \<lparr>rx_allowed = ag_allowed gate, rx_reasonCode = Some (ag_reasonCode gate),
                       rx_reason = None, rx_gate = Some gate\<rparr>
                  | None \<Rightarrow> \<lparr>rx_allowed = True, rx_reasonCode = None, rx_reason = None,
                               rx_gate = None\<rparr>)))"

definition projectSenderAccess ::
  "ChannelIngressDecision \<Rightarrow> bool \<Rightarrow> string list \<Rightarrow> string list \<Rightarrow> bool option \<Rightarrow>
     ChannelIngressSenderAccess" where
  "projectSenderAccess ingress isGroup effectiveAllowFrom effectiveGroupAllowFrom
       providerMissingFallbackApplied =
     (let gate = findSenderGate ingress isGroup;
          reasonCode =
            (if gate = None \<and> isGroup \<and> id_reasonCode ingress = RouteSenderEmpty \<and>
                length effectiveGroupAllowFrom = 0
             then GroupPolicyEmptyAllowlist
             else coalesce (map_option ag_reasonCode gate) (id_reasonCode ingress));
          decision =
            (if reasonCode = DmPolicyPairingRequired then VPairing
             else if map_option ag_allowed gate = Some True then VAllow
             else VBlock)
      in \<lparr>sx_allowed = (decision = VAllow), sx_decision = decision, sx_reasonCode = reasonCode,
          sx_gate = gate, sx_effectiveAllowFrom = effectiveAllowFrom,
          sx_effectiveGroupAllowFrom = effectiveGroupAllowFrom,
          sx_providerMissingFallbackApplied = coalesce providerMissingFallbackApplied False\<rparr>)"

definition projectCommandAccess ::
  "ChannelIngressDecision \<Rightarrow> ChannelIngressPolicyInput \<Rightarrow> ChannelIngressCommandAccess" where
  "projectCommandAccess ingress policy =
     (let gate = findIngressGate ingress PhCommand KCommand
      in \<lparr>cx_requested = commandRequested policy,
          cx_authorized =
            (if commandRequested policy then map_option ag_allowed gate = Some True else False),
          cx_shouldBlockControlCommand =
            (map_option gc_shouldBlockControlCommand (Option.bind gate ag_command) = Some True),
          cx_reasonCode = coalesce (map_option ag_reasonCode gate) (id_reasonCode ingress),
          cx_gate = gate\<rparr>)"

definition projectActivationAccess :: "ChannelIngressDecision \<Rightarrow> ChannelIngressActivationAccess" where
  "projectActivationAccess ingress =
     (let gate = findIngressGate ingress PhActivation KMention;
          info = Option.bind gate ag_activation
      in \<lparr>ax_ran = (gate \<noteq> None), ax_allowed = (map_option ag_allowed gate = Some True),
          ax_shouldSkip = (map_option ga_shouldSkip info = Some True),
          ax_reasonCode = coalesce (map_option ag_reasonCode gate) (id_reasonCode ingress),
          ax_effectiveWasMentioned = Option.bind info ga_effectiveWasMentioned,
          ax_shouldBypassMention = Option.bind info ga_shouldBypassMention,
          ax_gate = gate\<rparr>)"

section \<open>Resolving one event\<close>

definition commandOwnerAllowFrom ::
  "ChannelMessageIngressCommandInput option \<Rightarrow> bool \<Rightarrow> js_value list \<Rightarrow> string list \<Rightarrow>
     js_value list" where
  "commandOwnerAllowFrom command isGroup configuredAllowFrom effectiveAllowFrom =
     (case Option.bind command cc_commandOwnerAllowFrom of
        Some owners \<Rightarrow> owners
      | None \<Rightarrow>
          if \<not> isGroup then map JString effectiveAllowFrom
          else if Option.bind command cc_groupOwnerAllowFrom = Some OwnerNone then []
          else configuredAllowFrom)"

definition commandGroupAllowFrom ::
  "ChannelMessageIngressCommandInput option \<Rightarrow> bool \<Rightarrow> string list \<Rightarrow> js_value list" where
  "commandGroupAllowFrom command isGroup effectiveCommandGroupAllowFrom =
     (if isGroup then map JString effectiveCommandGroupAllowFrom
      else if Option.bind command cc_directGroupAllowFrom = Some GroupEffective
      then map JString effectiveCommandGroupAllowFrom else [])"

definition accessGroupMatchedEntry :: "ResolveChannelMessageIngressParams \<Rightarrow> string option" where
  "accessGroupMatchedEntry params =
     (let entry = (if nullish (rp_accessGroupMatchedAllowFromEntry params)
                   then su_stableId (rp_subject params)
                   else rp_accessGroupMatchedAllowFromEntry params)
      in if nullish entry then None else Some (js_String entry))"

definition appendAccessGroupMatchedEntry ::
  "string list \<Rightarrow> ResolvedIngressAllowlist \<Rightarrow> string option \<Rightarrow> string list" where
  "appendAccessGroupMatchedEntry entries allowlist matchedEntry =
     (case nonempty_string matchedEntry of
        None \<Rightarrow> entries
      | Some m \<Rightarrow>
          if length (gs_matched (al_accessGroups allowlist)) > 0
          then uniqueStrings (entries @ [m]) else entries)"

text \<open>The state input that \<^verbatim>\<open>resolveChannelMessageIngress\<close> builds from its parameters and
  the entries read from the pairing store.\<close>

definition message_state_input ::
  "ResolveChannelMessageIngressParams \<Rightarrow> string \<Rightarrow> js_value list \<Rightarrow> ChannelIngressStateInput" where
  "message_state_input params channelId storeAllowFrom =
     (let adapter = createIdentityAdapter (rp_identity params);
          subject = createIdentitySubject (rp_identity params) (rp_subject params);
          routeFacts = routeFactsFromDescriptors (rp_route params) @ coalesce (rp_routeFacts params) [];
          rawAllowFrom = map JString (normalizeStringEntries (Some (coalesce (rp_allowFrom params) [])));
          rawStoreAllowFrom = map JString (normalizeStringEntries (Some storeAllowFrom));
          rawGroupAllowFrom =
            map JString (normalizeStringEntries (Some (coalesce (rp_groupAllowFrom params) [])));
          referencedAccessGroups = allReferencedAccessGroupNames
            ([rawAllowFrom, rawGroupAllowFrom, rawStoreAllowFrom,
              coalesce (Option.bind (rp_command params) cc_commandOwnerAllowFrom) []] @
             map (\<lambda>route. coalesce (rf_senderAllowFrom route) []) routeFacts);
          runtimeAccessGroupMembership =
            resolveRuntimeAccessGroupMembershipFacts params channelId referencedAccessGroups;
          accessGroupMembership =
            runtimeAccessGroupMembership @ coalesce (rp_accessGroupMembership params) [];
          dmPolicy = Some (dm_policy_string (pi_dmPolicy (rp_policy params)));
          rawEffective = resolveChannelIngressEffectiveAllowFromLists (Some rawAllowFrom)
            (Some rawGroupAllowFrom) (Some rawStoreAllowFrom) dmPolicy
            (pi_groupAllowFromFallbackToAllowFrom (rp_policy params));
          rawCommandGroup = resolveChannelIngressEffectiveAllowFromLists (Some rawAllowFrom)
            (Some rawGroupAllowFrom) None dmPolicy
            (coalesce2
              (Option.bind (rp_command params) cc_commandGroupAllowFromFallbackToAllowFrom)
              (pi_groupAllowFromFallbackToAllowFrom (rp_policy params)));
          isGroup = (cv_kind (rp_conversation params) \<noteq> Direct)
      in \<lparr>si_channelId = channelId, si_accountId = rp_accountId params, si_subject = subject,
          si_conversation = rp_conversation params, si_adapter = adapter,
          si_accessGroups = rp_accessGroups params,
          si_accessGroupMembership = Some accessGroupMembership,
          si_routeFacts = Some routeFacts, si_mentionFacts = rp_mentionFacts params,
          si_event = rp_event params,
          si_allowlists =
            \<lparr>ai_dm = Some rawAllowFrom, ai_group = Some (map JString (snd rawEffective)),
             ai_commandOwner = Some (commandOwnerAllowFrom (rp_command params) isGroup rawAllowFrom
               (fst rawEffective)),
             ai_commandGroup = Some (commandGroupAllowFrom (rp_command params) isGroup
               (snd rawCommandGroup)),
             ai_pairingStore = Some rawStoreAllowFrom\<rparr>\<rparr>)"

definition message_policy :: "ResolveChannelMessageIngressParams \<Rightarrow> ChannelIngressPolicyInput" where
  "message_policy params =
     (case rp_command params of
        None \<Rightarrow> rp_policy params
      | Some command \<Rightarrow> (rp_policy params)\<lparr>pi_command := Some (CommandPolicy.truncate command)\<rparr>)"

definition resolveChannelMessageIngress ::
  "(string \<Rightarrow> string \<Rightarrow> int) \<Rightarrow> (string \<Rightarrow> string \<Rightarrow> string list settled) \<Rightarrow>
     ResolveChannelMessageIngressParams \<Rightarrow> ingress_error + ResolvedChannelMessageIngress" where
  "resolveChannelMessageIngress localeCompare readChannelAllowFromStore params =
     (case normalizeChannelId (rp_channelId params) of
        Inl e \<Rightarrow> Inl e
      | Inr channelId \<Rightarrow>
          let adapter = createIdentityAdapter (rp_identity params);
              storeAllowFrom = readStoreAllowFrom readChannelAllowFromStore params channelId;
              rawAllowFrom = normalizeStringEntries (Some (coalesce (rp_allowFrom params) []));
              rawStoreAllowFrom = normalizeStringEntries (Some storeAllowFrom);
              rawGroupAllowFrom =
                normalizeStringEntries (Some (coalesce (rp_groupAllowFrom params) []));
              normalizeEffective = (\<lambda>entries. normalizeEffectiveEntries adapter
                (rp_accountId params) (map JString entries));
              baseEffective = resolveChannelIngressEffectiveAllowFromLists
                (Some (map JString (normalizeEffective rawAllowFrom CtxDm)))
                (Some (map JString (normalizeEffective rawGroupAllowFrom CtxGroup)))
                (Some (map JString (normalizeEffective rawStoreAllowFrom CtxDm)))
                (Some (dm_policy_string (pi_dmPolicy (rp_policy params))))
                (pi_groupAllowFromFallbackToAllowFrom (rp_policy params));
              isGroup = (cv_kind (rp_conversation params) \<noteq> Direct);
              policy = message_policy params;
              state = resolveChannelIngressState localeCompare
                (message_state_input params channelId storeAllowFrom);
              ingress = decideChannelIngress state policy;
              matchedAccessGroupEntry = accessGroupMatchedEntry params;
              effectiveAllowFrom = appendAccessGroupMatchedEntry (fst baseEffective)
                (ls_dm (st_allowlists state)) matchedAccessGroupEntry;
              effectiveGroupAllowFrom = appendAccessGroupMatchedEntry (snd baseEffective)
                (ls_group (st_allowlists state)) matchedAccessGroupEntry
          in Inr
            \<lparr>rg_state = state, rg_ingress = ingress,
             rg_senderAccess = projectSenderAccess ingress isGroup effectiveAllowFrom
               effectiveGroupAllowFrom (rp_providerMissingFallbackApplied params),
             rg_routeAccess = projectRouteAccess ingress (rp_route params),
             rg_commandAccess = projectCommandAccess ingress policy,
             rg_activationAccess = projectActivationAccess ingress\<rparr>)"

section \<open>The resolver of a channel account\<close>

definition merge_event_presets ::
  "ChannelIngressEventPresetInput \<Rightarrow> ChannelIngressEventPresetInput \<Rightarrow>
     ChannelIngressEventPresetInput" where
  "merge_event_presets a b =
     \<lparr>ee_kind = coalesce2 (ee_kind b) (ee_kind a),
      ee_authMode = coalesce2 (ee_authMode b) (ee_authMode a),
      ee_mayPair = coalesce2 (ee_mayPair b) (ee_mayPair a),
      ee_originSubject = coalesce2 (ee_originSubject b) (ee_originSubject a),
      ee_isGroup = coalesce2 (ee_isGroup b) (ee_isGroup a)\<rparr>"

definition no_event_preset :: ChannelIngressEventPresetInput where
  "no_event_preset = \<lparr>ee_kind = None, ee_authMode = None, ee_mayPair = None,
     ee_originSubject = None, ee_isGroup = None\<rparr>"

definition resolver_params ::
  "CreateChannelIngressResolverParams \<Rightarrow> ChannelIngressResolverMessageParams \<Rightarrow>
     ChannelIngressEventPresetInput \<Rightarrow> ResolveChannelMessageIngressParams" where
  "resolver_params base input eventDefaults =
     (let isGroup = (cv_kind (im_conversation input) \<noteq> Direct);
          useAccessGroups = useAccessGroupsFromConfig (br_useAccessGroups base) (br_cfg base)
      in \<lparr>rp_channelId = br_channelId base, rp_accountId = br_accountId base,
          rp_identity = br_identity base, rp_subject = im_subject input,
          rp_conversation = im_conversation input,
          rp_event = channelIngressEvent (merge_event_presets
            (merge_event_presets (no_event_preset\<lparr>ee_isGroup := Some isGroup\<rparr>) eventDefaults)
            (coalesce (im_event input) no_event_preset)),
          rp_policy = resolveResolverPolicy base input,
          rp_allowFrom = im_allowFrom input, rp_groupAllowFrom = im_groupAllowFrom input,
          rp_route = im_route input, rp_routeFacts = im_routeFacts input,
          rp_accessGroups =
            coalesce2 (br_accessGroups base) (Option.bind (br_cfg base) cf_accessGroups),
          rp_accessGroupMembership = Some (coalesce (br_accessGroupMembership base) [] @
            coalesce (im_accessGroupMembership input) []),
          rp_resolveAccessGroupMembership = br_resolveAccessGroupMembership base,
          rp_accessGroupMatchedAllowFromEntry = br_accessGroupMatchedAllowFromEntry base,
          rp_providerMissingFallbackApplied = im_providerMissingFallbackApplied input,
          rp_mentionFacts = im_mentionFacts input,
          rp_readStoreAllowFrom = br_readStoreAllowFrom base,
          rp_useDefaultPairingStore = br_useDefaultPairingStore base,
          rp_command = resolveCommandInput (im_command input) (Some useAccessGroups)\<rparr>)"

record ChannelIngressResolver =
  cr_message :: "ChannelIngressResolverMessageParams \<Rightarrow> ingress_error + ResolvedChannelMessageIngress"
  cr_command :: "ChannelIngressResolverMessageParams \<Rightarrow> ingress_error + ResolvedChannelMessageIngress"
  cr_event :: "ChannelIngressResolverMessageParams \<Rightarrow> ingress_error + ResolvedChannelMessageIngress"

definition createChannelIngressResolver ::
  "(string \<Rightarrow> string \<Rightarrow> int) \<Rightarrow> (string \<Rightarrow> string \<Rightarrow> string list settled) \<Rightarrow>
     CreateChannelIngressResolverParams \<Rightarrow> ChannelIngressResolver" where
  "createChannelIngressResolver localeCompare readChannelAllowFromStore base =
     (let resolve = (\<lambda>input eventDefaults.
            resolveChannelMessageIngress localeCompare readChannelAllowFromStore
              (resolver_params base input eventDefaults))
      in \<lparr>cr_message = (\<lambda>input. resolve input no_event_preset),
          cr_command = (\<lambda>input. resolve input
            (no_event_preset\<lparr>ee_authMode := Some AmCommand, ee_mayPair := Some False\<rparr>)),
          cr_event = (\<lambda>input. resolve input (no_event_preset\<lparr>ee_mayPair := Some False\<rparr>))\<rparr>)"

definition resolveStableChannelMessageIngress ::
  "(string \<Rightarrow> string \<Rightarrow> int) \<Rightarrow> (string \<Rightarrow> string \<Rightarrow> string list settled) \<Rightarrow>
     CreateChannelIngressResolverParams \<Rightarrow> StableChannelIngressIdentityParams \<Rightarrow>
     ChannelIngressResolverMessageParams \<Rightarrow> ingress_error + ResolvedChannelMessageIngress" where
  "resolveStableChannelMessageIngress localeCompare readChannelAllowFromStore base identity input =
     cr_message (createChannelIngressResolver localeCompare readChannelAllowFromStore
       (base\<lparr>br_identity := defineStableChannelIngressIdentity identity\<rparr>)) input"

section \<open>Finding gates in a decision\<close>

lemma find_route_gates0 [simp]:
  "ph \<noteq> PhRoute \<Longrightarrow>
     List.find (\<lambda>g. ag_phase g = ph \<and> ag_kind g = k) (route_gates0 state) = None"
  using route_gates0_phase [of _ state] by (auto simp: find_None_iff_all)

lemma sender_gate_kind [simp]:
  "ag_kind (sender_gate state policy) =
     (if st_conversationKind state = Direct then KDmSender else KGroupSender)"
  by (cases "pi_dmPolicy policy"; cases "pi_groupPolicy policy")
     (auto simp: sender_gate_def applyEventAuthModeToSenderGate_def senderGateForDirect_def
      senderGateForGroup_def Let_def)

lemma commandGate_kind [simp]: "ag_kind (commandGate state policy) = KCommand"
  by (simp add: commandGate_def Let_def split: option.splits)

definition sender_reached :: "ChannelIngressState \<Rightarrow> ChannelIngressPolicyInput \<Rightarrow> bool" where
  "sender_reached state policy \<longleftrightarrow> routes_open state \<and>
     \<not> (early_activation policy \<and> activation_skips state policy (command_ok state policy))"

lemma early_gate_effect:
  "early_activation policy \<Longrightarrow>
     ag_effect (activationGate state policy (commandGate state (policy\<lparr>pi_command := None\<rparr>))) = EffSkip
       \<longleftrightarrow> activation_skips state policy (command_ok state policy)"
  using early_activation_same [of policy state "pi_command policy"] by simp

lemma route_block_None:
  "routes_open state \<Longrightarrow>
     List.find (\<lambda>entry. ag_effect entry = EffBlockDispatch) (route_gates0 state) = None"
  using route_gates0_block [of state] by auto

lemma find_sender_gate:
  "findSenderGate (decideChannelIngress state policy) (st_conversationKind state \<noteq> Direct) =
     (if sender_reached state policy then Some (sender_gate state policy) else None)"
proof (cases "routes_open state")
  case False
  then obtain g where
    "List.find (\<lambda>entry. ag_effect entry = EffBlockDispatch) (route_gates0 state) = Some g"
    using route_gates0_block by blast
  with False show ?thesis
    by (simp add: findSenderGate_def findIngressGate_def decideChannelIngress_eq sender_reached_def)
next
  case True
  then show ?thesis
    using early_gate_effect [of policy state]
    by (cases "early_activation policy")
       (auto simp: findSenderGate_def findIngressGate_def decideChannelIngress_eq route_block_None
        sender_reached_def activationBeforeSenderGate_eq decideAfterRoutes_eq Let_def find_append)
qed

lemma find_command_gate:
  "findIngressGate (decideChannelIngress state policy) PhCommand KCommand =
     (if sender_reached state policy \<and> ag_allowed (sender_gate state policy)
      then Some (commandGate state policy) else None)"
proof (cases "routes_open state")
  case False
  then obtain g where
    "List.find (\<lambda>entry. ag_effect entry = EffBlockDispatch) (route_gates0 state) = Some g"
    using route_gates0_block by blast
  with False show ?thesis
    by (simp add: findIngressGate_def decideChannelIngress_eq sender_reached_def)
next
  case True
  then show ?thesis
    using early_gate_effect [of policy state]
    by (cases "early_activation policy")
       (auto simp: findIngressGate_def decideChannelIngress_eq route_block_None
        sender_reached_def activationBeforeSenderGate_eq decideAfterRoutes_eq Let_def find_append)
qed

section \<open>Reading a resolved event\<close>

lemma resolve_Inr:
  assumes "resolveChannelMessageIngress lc rs params = Inr r"
  shows "js_trim (rp_channelId params) \<noteq> []"
    and "rg_state r = resolveChannelIngressState lc (message_state_input params
      (js_trim (rp_channelId params))
      (readStoreAllowFrom rs params (js_trim (rp_channelId params))))"
    and "rg_ingress r = decideChannelIngress (rg_state r) (message_policy params)"
    and "rg_commandAccess r = projectCommandAccess (rg_ingress r) (message_policy params)"
    and "\<exists>a b. rg_senderAccess r = projectSenderAccess (rg_ingress r)
      (cv_kind (rp_conversation params) \<noteq> Direct) a b (rp_providerMissingFallbackApplied params)"
  using assms
  by (auto simp: resolveChannelMessageIngress_def normalizeChannelId_def Let_def
      intro!: exI split: if_splits)

lemma message_state_input_sel [simp]:
  "si_adapter (message_state_input params cid store) = createIdentityAdapter (rp_identity params)"
  "si_subject (message_state_input params cid store) =
     createIdentitySubject (rp_identity params) (rp_subject params)"
  "si_accountId (message_state_input params cid store) = rp_accountId params"
  "si_conversation (message_state_input params cid store) = rp_conversation params"
  "si_event (message_state_input params cid store) = rp_event params"
  "ai_dm (si_allowlists (message_state_input params cid store)) =
     Some (map JString (normalizeStringEntries (Some (coalesce (rp_allowFrom params) []))))"
  "ai_pairingStore (si_allowlists (message_state_input params cid store)) =
     Some (map JString (normalizeStringEntries (Some store)))"
  "si_routeFacts (message_state_input params cid store) =
     Some (routeFactsFromDescriptors (rp_route params) @ coalesce (rp_routeFacts params) [])"
  by (simp_all add: message_state_input_def Let_def)

lemma message_policy_sel [simp]:
  "pi_dmPolicy (message_policy params) = pi_dmPolicy (rp_policy params)"
  "pi_groupPolicy (message_policy params) = pi_groupPolicy (rp_policy params)"
  "pi_mutableIdentifierMatching (message_policy params) =
     pi_mutableIdentifierMatching (rp_policy params)"
  "pi_activation (message_policy params) = pi_activation (rp_policy params)"
  by (simp_all add: message_policy_def split: option.splits)

lemma resolved_state_sel [simp]:
  "st_conversationKind (resolveChannelIngressState lc input) = cv_kind (si_conversation input)"
  "re_authMode (st_event (resolveChannelIngressState lc input)) = ev_authMode (si_event input)"
  "re_mayPair (st_event (resolveChannelIngressState lc input)) = ev_mayPair (si_event input)"
  "st_routeFacts (resolveChannelIngressState lc input) = resolveRouteFacts lc input"
  "ls_dm (st_allowlists (resolveChannelIngressState lc input)) =
     resolveIngressAllowlist input (ai_dm (si_allowlists input)) CtxDm"
  "ls_pairingStore (st_allowlists (resolveChannelIngressState lc input)) =
     resolveIngressAllowlist input (ai_pairingStore (si_allowlists input)) CtxDm"
  by (simp_all add: resolveChannelIngressState_def)

text \<open>A route fact that blocks closes the routes.\<close>

lemma blocking_route_closes:
  assumes "f \<in> set (coalesce (si_routeFacts input) [])" "rf_effect f = ReBlockDispatch"
  shows "\<not> routes_open (resolveChannelIngressState lc input)"
proof -
  have "resolve_route input f \<in> set (resolveRouteFacts lc input)"
    using assms(1) by (simp add: resolveRouteFacts_def)
  moreover have "rr_effect (resolve_route input f) = ReBlockDispatch"
    using assms(2) by (simp add: resolve_route_def)
  ultimately show ?thesis by (auto simp: routes_open_def list_all_iff)
qed

text \<open>What it takes for a list of entries to admit the sender of a message.\<close>

definition entries_admit ::
  "ChannelIngressStateInput \<Rightarrow> js_value list \<Rightarrow> IngressContext \<Rightarrow> bool" where
  "entries_admit input raw context \<longleftrightarrow>
     (let entries = normalizeStringEntries (Some raw);
          direct = directAllowlistEntries entries;
          adapter = si_adapter input
      in rm_matched (matchSubject adapter (si_subject input)
           (nr_matchable (normalizeEntries adapter direct context (si_accountId input))) context) \<or>
         (\<exists>n \<in> set (referencedAccessGroups entries).
            group_outcome input context (accessGroupFactByName (si_accessGroupMembership input)) n =
              GoMatched))"

lemma message_list_admits:
  "rm_matched (al_match (resolveIngressAllowlist (message_state_input params cid store)
     (Some (map JString (normalizeStringEntries (Some raw)))) context)) \<Longrightarrow>
   entries_admit (message_state_input params cid store) raw context"
  using identity_adapter.resolved_matched [of "message_state_input params cid store" _
      "Some (map JString (normalizeStringEntries (Some raw)))" "context"]
  by (auto simp: entries_admit_def Let_def)

lemma dispatched_sender:
  assumes "resolveChannelMessageIngress lc rs params = Inr r"
    and "id_admission (rg_ingress r) = Dispatch"
    and "cv_kind (rp_conversation params) = Direct" and "ev_authMode (rp_event params) = AmInbound"
  shows "dm_sender_ok (rg_state r) (message_policy params)"
proof -
  note r = resolve_Inr [OF assms(1)]
  have "auth_ok (rg_state r) (message_policy params)"
    using dispatch_requires(2) assms(2) r(3) decide_admission_eq by metis
  then show ?thesis using assms(3,4) r(2) by (simp add: auth_ok_def sender_ok_def)
qed

lemma readStore_skipped:
  "cv_kind (rp_conversation params) \<noteq> Direct \<or> pi_dmPolicy (rp_policy params) = DmAllowlist \<or>
     pi_dmPolicy (rp_policy params) = DmOpen \<Longrightarrow> readStoreAllowFrom rs params cid = []"
  by (auto simp: readStoreAllowFrom_def shouldReadStore_def)

lemma sender_access_pairing:
  assumes "isGroup = (st_conversationKind state \<noteq> Direct)"
  shows "sx_decision (projectSenderAccess (decideChannelIngress state policy) isGroup a b p) =
     VPairing \<longleftrightarrow> ingress_admission state policy = PairingRequired"
proof (cases "sender_reached state policy")
  case True
  have "ag_reasonCode (sender_gate state policy) \<noteq> DmPolicyPairingRequired"
    if "ag_allowed (sender_gate state policy)"
    using that direct_gate_pairing [of state policy] group_gate_pairing [of state policy]
    by (auto simp: sender_gate_def applyEventAuthModeToSenderGate_def direct_gate_allowed
        split: if_splits)
  with True show ?thesis
    using find_sender_gate [of state policy] assms sender_gate_pairing [of state policy]
    by (cases "ag_allowed (sender_gate state policy)")
       (auto simp: projectSenderAccess_def Let_def ingress_admission_def sender_reached_def
        sender_gate_allowed)
next
  case False
  have kind: "ag_reasonCode g \<noteq> DmPolicyPairingRequired" if "g \<in> set (route_gates0 state)" for g
    using that by (auto simp: route_gates0_def routeGates_def routeSenderEmptyGate_def
        split: option.splits if_splits)
  have "id_reasonCode (decideChannelIngress state policy) \<noteq> DmPolicyPairingRequired"
  proof (cases "routes_open state")
    case True
    with False have "early_activation policy" "activation_skips state policy (command_ok state policy)"
      by (auto simp: sender_reached_def)
    with True early_gate_effect [of policy state] show ?thesis
      by (auto simp: decideChannelIngress_eq route_block_None activationBeforeSenderGate_eq
          activationGate_def Let_def split: option.splits)
  next
    case blocked: False
    then obtain g where g:
      "List.find (\<lambda>entry. ag_effect entry = EffBlockDispatch) (route_gates0 state) = Some g"
      using route_gates0_block by blast
    then have "g \<in> set (route_gates0 state)" by (auto dest: find_Some_split)
    with g kind show ?thesis by (simp add: decideChannelIngress_eq)
  qed
  with False show ?thesis
    using find_sender_gate [of state policy] assms
    by (auto simp: projectSenderAccess_def Let_def ingress_admission_def sender_reached_def)
qed

lemma find_blocking_route:
  assumes "sorted_wrt (\<lambda>a b. rr_precedence a \<le> rr_precedence b) (st_routeFacts state)"
    and "f \<in> set (st_routeFacts state)" "rr_effect f = ReBlockDispatch"
  shows "\<exists>g \<in> set (st_routeFacts state). rr_effect g = ReBlockDispatch \<and>
    id_decisiveGateId (decideChannelIngress state policy) = rr_id g \<and>
    list_all (\<lambda>h. rr_effect h = ReBlockDispatch \<longrightarrow> rr_precedence g \<le> rr_precedence h)
      (st_routeFacts state)"
proof -
  let ?block = "\<lambda>h. rr_effect h = ReBlockDispatch"
  obtain g where g: "List.find ?block (st_routeFacts state) = Some g"
    using assms(2,3) find_None_iff_all [of ?block "st_routeFacts state"] by fastforce
  from find_Some_split [OF this] obtain us vs where
    split: "st_routeFacts state = us @ g # vs" "?block g" "\<forall>u \<in> set us. \<not> ?block u" by blast
  have "List.find (\<lambda>entry. ag_effect entry = EffBlockDispatch) (route_gates0 state) =
      map_option (\<lambda>r. hd (routeGates (state\<lparr>st_routeFacts := [r]\<rparr>)))
        (List.find ?block (st_routeFacts state))"
  proof -
    have "List.find (\<lambda>entry. ag_effect entry = EffBlockDispatch)
        (routeGates (state\<lparr>st_routeFacts := rs\<rparr>)) =
      map_option (\<lambda>r. hd (routeGates (state\<lparr>st_routeFacts := [r]\<rparr>))) (List.find ?block rs)" for rs
      by (induction rs) (auto simp: routeGates_def)
    from this [of "st_routeFacts state"] g show ?thesis
      by (simp add: route_gates0_def find_append)
  qed
  then have "id_decisiveGateId (decideChannelIngress state policy) = rr_id g"
    using g by (simp add: decideChannelIngress_eq routeGates_def)
  moreover have "list_all (\<lambda>h. ?block h \<longrightarrow> rr_precedence g \<le> rr_precedence h) (st_routeFacts state)"
    using assms(1) split by (auto simp: list_all_iff sorted_wrt_append)
  ultimately show ?thesis using split by auto
qed

section \<open>A concrete event\<close>

definition example_params ::
  "ConversationKind \<Rightarrow> DmPolicy \<Rightarrow> string list \<Rightarrow> ResolveChannelMessageIngressParams" where
  "example_params kind dm allowFrom =
     \<lparr>rp_channelId = ''telegram'', rp_accountId = ''default'', rp_identity = example_identity,
      rp_subject = \<lparr>su_stableId = JString ''42'', su_aliases = None\<rparr>,
      rp_conversation = \<lparr>cv_kind = kind, cv_id = ''c1'', cv_parentId = None, cv_threadId = None,
        cv_title = None\<rparr>,
      rp_event = \<lparr>ev_kind = EvMessage, ev_authMode = AmInbound, ev_mayPair = True,
        ev_originSubject = None\<rparr>,
      rp_policy = example_policy dm GrDisabled False,
      rp_allowFrom = Some (map JString allowFrom), rp_groupAllowFrom = None, rp_route = None,
      rp_routeFacts = None, rp_accessGroups = None, rp_accessGroupMembership = None,
      rp_resolveAccessGroupMembership = None, rp_accessGroupMatchedAllowFromEntry = JUndefined,
      rp_providerMissingFallbackApplied = None, rp_mentionFacts = None,
      rp_readStoreAllowFrom = Some (\<lambda>_ _ _. Fulfilled (Some [JString ''77''])),
      rp_useDefaultPairingStore = None, rp_command = None\<rparr>"

definition ex_result ::
  "ConversationKind \<Rightarrow> DmPolicy \<Rightarrow> string list \<Rightarrow> ResolvedChannelMessageIngress" where
  "ex_result kind dm allowFrom =
     projr (resolveChannelMessageIngress (\<lambda>_ _. 0) (\<lambda>_ _. Rejected) (example_params kind dm allowFrom))"

lemma ex_result_Inr:
  "resolveChannelMessageIngress (\<lambda>_ _. 0) (\<lambda>_ _. Rejected) (example_params kind dm allowFrom) =
     Inr (ex_result kind dm allowFrom)"
  by (simp add: ex_result_def resolveChannelMessageIngress_def normalizeChannelId_def
      example_params_def js_trim_def js_white_space_def Let_def)

lemma ex_dispatch: "id_admission (rg_ingress (ex_result Direct DmAllowlist [''42''])) = Dispatch"
  by code_simp

lemma ex_pairing: "id_admission (rg_ingress (ex_result Direct DmPairing [''41''])) = PairingRequired"
  by code_simp

text \<open>Only \<^verbatim>\<open>readStoreAllowFrom\<close> reads the store readers.\<close>

lemma store_reader_frame:
  fixes params reader useDefault
  defines "p \<equiv> params\<lparr>rp_readStoreAllowFrom := reader, rp_useDefaultPairingStore := useDefault\<rparr>"
  shows "message_state_input p cid st = message_state_input params cid st"
    and "message_policy p = message_policy params"
    and "accessGroupMatchedEntry p = accessGroupMatchedEntry params"
proof -
  have sel: "rp_accessGroups p = rp_accessGroups params" "rp_accountId p = rp_accountId params"
    "rp_subject p = rp_subject params"
    "rp_resolveAccessGroupMembership p = rp_resolveAccessGroupMembership params"
    by (simp_all add: p_def)
  have m: "membership_fact f p c = membership_fact f params c" for f c
    unfolding membership_fact_def fun_eq_iff sel by simp
  have "resolveRuntimeAccessGroupMembershipFacts p = resolveRuntimeAccessGroupMembershipFacts params"
    unfolding resolveRuntimeAccessGroupMembershipFacts_def fun_eq_iff sel m by simp
  then show "message_state_input p cid st = message_state_input params cid st"
    unfolding message_state_input_def by (simp add: p_def)
  show "message_policy p = message_policy params"
    and "accessGroupMatchedEntry p = accessGroupMatchedEntry params"
    by (simp_all add: p_def message_policy_def accessGroupMatchedEntry_def split: option.split)
qed

lemma direct_dispatch_cases:
  assumes "resolveChannelMessageIngress lc rs params = Inr r"
    and "id_admission (rg_ingress r) = Dispatch"
    and "cv_kind (rp_conversation params) = Direct" and "ev_authMode (rp_event params) = AmInbound"
  defines "cid \<equiv> js_trim (rp_channelId params)"
  defines "store \<equiv> readStoreAllowFrom rs params cid"
  defines "input \<equiv> message_state_input params cid store"
  shows "pi_dmPolicy (rp_policy params) \<noteq> DmDisabled \<and>
    (entries_admit input (coalesce (rp_allowFrom params) []) CtxDm \<or>
     pi_dmPolicy (rp_policy params) = DmOpen \<and>
       ''*'' \<in> set (normalizeStringEntries (rp_allowFrom params)) \<or>
     pi_dmPolicy (rp_policy params) = DmPairing \<and> entries_admit input store CtxDm)"
proof -
  have norm: "normalizeStringEntries (Some (coalesce xs [])) = normalizeStringEntries xs" for xs
    by (cases xs) auto
  have state: "rg_state r = resolveChannelIngressState lc input"
    using resolve_Inr(2) [OF assms(1)] by (simp add: input_def store_def cid_def)
  have wild: "al_hasWildcard (ls_dm (st_allowlists (rg_state r))) \<longleftrightarrow>
      ''*'' \<in> set (normalizeStringEntries (rp_allowFrom params))"
    by (simp add: state input_def resolveIngressAllowlist_sel norm)
  have dm: "entries_admit input (coalesce (rp_allowFrom params) []) CtxDm"
    if "rm_matched (al_match (dm_list (rg_state r) (message_policy params)))"
    using mutable_policy_match_mono [OF _ that]
    by (auto simp: state input_def resolve_allowlist_ok intro!: message_list_admits)
  have st: "entries_admit input store CtxDm"
    if "rm_matched (al_match (store_list (rg_state r) (message_policy params)))"
    using mutable_policy_match_mono [OF _ that]
    by (auto simp: state input_def resolve_allowlist_ok intro!: message_list_admits)
  show ?thesis
    using dispatched_sender [OF assms(1-4)] wild dm st by (auto simp: dm_sender_ok_def)
qed

section \<open>Properties\<close>

text \<open>C2: A direct inbound message that is dispatched was admitted by its configuration: the DM
  policy is not disabled, and the configured entries admit the sender (the identity adapter
  matches a direct entry, or a referenced access group admits), or the policy is open and a
  wildcard is configured, or the policy is pairing and the pairing store's entries admit.\<close>

theorem message_direct_dispatch:
  assumes "resolveChannelMessageIngress lc rs params = Inr r"
    and "id_admission (rg_ingress r) = Dispatch"
    and "cv_kind (rp_conversation params) = Direct" and "ev_authMode (rp_event params) = AmInbound"
  defines "cid \<equiv> js_trim (rp_channelId params)"
  defines "store \<equiv> readStoreAllowFrom rs params cid"
  defines "input \<equiv> message_state_input params cid store"
  shows "pi_dmPolicy (rp_policy params) \<noteq> DmDisabled \<and>
    (entries_admit input (coalesce (rp_allowFrom params) []) CtxDm \<or>
     pi_dmPolicy (rp_policy params) = DmOpen \<and>
       ''*'' \<in> set (normalizeStringEntries (rp_allowFrom params)) \<or>
     pi_dmPolicy (rp_policy params) = DmPairing \<and> entries_admit input store CtxDm)"
  unfolding cid_def store_def input_def by (rule direct_dispatch_cases [OF assms(1-4)])

theorem message_direct_dispatch_witness:
  "entries_admit (message_state_input (example_params Direct DmAllowlist [''42'']) ''telegram'' [])
     [JString ''42''] CtxDm"
proof -
  let ?p = "example_params Direct DmAllowlist [''42'']"
  have s: "js_trim (rp_channelId ?p) = ''telegram''"
    "readStoreAllowFrom (\<lambda>_ _. Rejected) ?p ''telegram'' = []"
    "coalesce (rp_allowFrom ?p) [] = [JString ''42'']" "pi_dmPolicy (rp_policy ?p) = DmAllowlist"
    by code_simp+
  have "cv_kind (rp_conversation ?p) = Direct" "ev_authMode (rp_event ?p) = AmInbound"
    by (simp_all add: example_params_def)
  from message_direct_dispatch [OF ex_result_Inr ex_dispatch this] show ?thesis
    by (simp add: s)
qed

text \<open>The pairing store never speaks for a group message, nor under the allowlist and open
  DM policies: whatever the store readers return, and whether they are there at all, the whole
  result is the same.\<close>

theorem pairing_store_isolated:
  assumes "cv_kind (rp_conversation params) \<noteq> Direct \<or>
    pi_dmPolicy (rp_policy params) = DmAllowlist \<or> pi_dmPolicy (rp_policy params) = DmOpen"
  shows "resolveChannelMessageIngress lc rs
      (params\<lparr>rp_readStoreAllowFrom := reader, rp_useDefaultPairingStore := useDefault\<rparr>) =
    resolveChannelMessageIngress lc rs' params"
proof -
  have skip: "readStoreAllowFrom rs (params\<lparr>rp_readStoreAllowFrom := reader,
      rp_useDefaultPairingStore := useDefault\<rparr>) cid = []" "readStoreAllowFrom rs' params cid = []" for cid
    using assms by (auto intro!: readStore_skipped)
  show ?thesis
    by (simp add: resolveChannelMessageIngress_def skip store_reader_frame Let_def
        split: sum.split)
qed

theorem pairing_store_isolated_witness:
  "resolveChannelMessageIngress (\<lambda>_ _. 0) (\<lambda>_ _. Rejected)
     ((example_params Group DmPairing [''42''])
        \<lparr>rp_readStoreAllowFrom := None, rp_useDefaultPairingStore := Some True\<rparr>) =
   resolveChannelMessageIngress (\<lambda>_ _. 0) (\<lambda>_ _. Fulfilled [''42''])
     (example_params Group DmPairing [''42''])"
  by (rule pairing_store_isolated) (simp add: example_params_def)

text \<open>The sender projection that channel handlers read agrees with the decision: it reports
  pairing exactly when the event is admitted for pairing, and it reports an allowed sender for
  every dispatched event.\<close>

theorem sender_access_agrees:
  assumes "resolveChannelMessageIngress lc rs params = Inr r"
  shows "(sx_decision (rg_senderAccess r) = VPairing \<longleftrightarrow>
      id_admission (rg_ingress r) = PairingRequired) \<and>
    (id_admission (rg_ingress r) = Dispatch \<longrightarrow> sx_allowed (rg_senderAccess r))"
proof -
  note r = resolve_Inr [OF assms]
  obtain a b where sender: "rg_senderAccess r = projectSenderAccess (rg_ingress r)
      (cv_kind (rp_conversation params) \<noteq> Direct) a b (rp_providerMissingFallbackApplied params)"
    using r(5) by blast
  have grp: "(cv_kind (rp_conversation params) \<noteq> Direct) = (st_conversationKind (rg_state r) \<noteq> Direct)"
    by (simp add: r(2))
  let ?adm = "ingress_admission (rg_state r) (message_policy params)"
  have pairing: "sx_decision (rg_senderAccess r) = VPairing \<longleftrightarrow> ?adm = PairingRequired"
    unfolding sender r(3) by (rule sender_access_pairing [OF grp])
  have "sx_allowed (rg_senderAccess r)" if d: "?adm = Dispatch"
  proof -
    have reached: "sender_reached (rg_state r) (message_policy params)"
      "ag_allowed (sender_gate (rg_state r) (message_policy params))"
      using dispatch_requires [OF d] by (auto simp: sender_reached_def sender_gate_allowed auth_ok_def)
    moreover have "sx_decision (rg_senderAccess r) \<noteq> VPairing" using pairing d by simp
    ultimately show ?thesis
      using find_sender_gate [of "rg_state r" "message_policy params"]
      by (auto simp: sender r(3) grp projectSenderAccess_def Let_def split: if_splits)
  qed
  with pairing show ?thesis by (simp add: r(3) decide_admission_eq)
qed

theorem sender_access_agrees_witness:
  "sx_decision (rg_senderAccess (ex_result Direct DmPairing [''41''])) = VPairing \<and>
   sx_allowed (rg_senderAccess (ex_result Direct DmAllowlist [''42'']))"
  using sender_access_agrees [OF ex_result_Inr, of Direct DmPairing "[''41'']"]
    sender_access_agrees [OF ex_result_Inr, of Direct DmAllowlist "[''42'']"]
  by (simp add: ex_dispatch ex_pairing)

definition example_closed_route :: RouteGateFacts where
  "example_closed_route = routeFact \<lparr>fl_id = ''topic'', fl_kind = None, fl_precedence = None,
     fl_senderPolicy = None, fl_senderAllowFrom = None, fl_senderAllowFromSource = None,
     fl_match = None\<rparr> RouteDisabled ReBlockDispatch"

text \<open>When some route fact blocks, the event is dropped, whatever the other gates say, and
  the decisive gate is a blocking route of lowest precedence, wherever it stood in the input
  and whatever order the host's locale puts equal precedences in.\<close>

theorem blocking_route_decides:
  assumes "f \<in> set (coalesce (si_routeFacts input) [])" "rf_effect f = ReBlockDispatch"
  shows "id_admission (decideChannelIngress (resolveChannelIngressState lc input) policy) = Drop \<and>
    (\<exists>g \<in> set (coalesce (si_routeFacts input) []). rf_effect g = ReBlockDispatch \<and>
       id_decisiveGateId (decideChannelIngress (resolveChannelIngressState lc input) policy) = rf_id g \<and>
       list_all (\<lambda>h. rf_effect h = ReBlockDispatch \<longrightarrow> rf_precedence g \<le> rf_precedence h)
         (coalesce (si_routeFacts input) []))"
proof -
  let ?state = "resolveChannelIngressState lc input"
  have routes: "set (st_routeFacts ?state) = resolve_route input ` set (coalesce (si_routeFacts input) [])"
    by (simp add: resolveRouteFacts_def)
  have sel: "rr_effect (resolve_route input h) = rf_effect h" "rr_id (resolve_route input h) = rf_id h"
    "rr_precedence (resolve_route input h) = rf_precedence h" for h
    by (simp_all add: resolve_route_def)
  have "id_admission (decideChannelIngress ?state policy) = Drop"
    using blocking_route_closes [OF assms, of lc] by (simp add: decide_admission_eq ingress_admission_def)
  moreover have "resolve_route input f \<in> set (st_routeFacts ?state)"
    using assms(1) routes by simp
  moreover have "sorted_wrt (\<lambda>a b. rr_precedence a \<le> rr_precedence b) (st_routeFacts ?state)"
    by (simp add: routes_by_precedence)
  ultimately show ?thesis
    using find_blocking_route [of ?state "resolve_route input f" policy] assms(2) routes
    by (auto simp: sel list_all_iff)
qed

theorem blocking_route_decides_witness:
  "id_admission (decideChannelIngress (resolveChannelIngressState (\<lambda>_ _. 0)
     ((message_state_input (example_params Direct DmAllowlist [''42'']) ''telegram'' [])
        \<lparr>si_routeFacts := Some [example_closed_route]\<rparr>))
     (example_policy DmAllowlist GrDisabled False)) = Drop"
  by (rule blocking_route_decides [where f = example_closed_route, THEN conjunct1])
     (simp_all add: example_closed_route_def routeFact_def)

text \<open>A command is reported as authorized only when a command was requested and the command
  gate was reached through open routes and an allowed sender gate and authorized it.\<close>

theorem command_access_authorized_iff:
  assumes "resolveChannelMessageIngress lc rs params = Inr r"
  shows "cx_authorized (rg_commandAccess r) \<longleftrightarrow>
    commandRequested (message_policy params) \<and>
    sender_reached (rg_state r) (message_policy params) \<and>
    (re_authMode (st_event (rg_state r)) \<noteq> AmInbound \<or> sender_ok (rg_state r) (message_policy params)) \<and>
    command_ok (rg_state r) (message_policy params)"
  using resolve_Inr [OF assms] find_command_gate [of "rg_state r" "message_policy params"]
  by (auto simp: projectCommandAccess_def Let_def commandGate_sel sender_gate_allowed)

theorem command_access_authorized_iff_witness:
  "\<not> cx_authorized (rg_commandAccess (ex_result Direct DmAllowlist [''42'']))"
  using command_access_authorized_iff [OF ex_result_Inr, of Direct DmAllowlist "[''42'']"]
  by (simp add: commandRequested_def message_policy_def example_params_def example_policy_def)

text \<open>The command and event entry points of a resolver never offer pairing unless the event
  itself asks for it, and a command event is authorized by the command gate, not the sender.\<close>

theorem resolver_commands_never_pair:
  assumes "Option.bind (im_event input) ee_mayPair = None"
    and "cr_command (createChannelIngressResolver lc rs base) input = Inr rc"
    and "cr_event (createChannelIngressResolver lc rs base) input = Inr re"
  shows "id_admission (rg_ingress rc) \<noteq> PairingRequired \<and>
    id_admission (rg_ingress re) \<noteq> PairingRequired \<and>
    (Option.bind (im_event input) ee_authMode = None \<longrightarrow>
       re_authMode (st_event (rg_state rc)) = AmCommand)"
proof -
  have pair: "ee_mayPair (coalesce (im_event input) no_event_preset) = None"
    using assms(1) by (cases "im_event input") (auto simp: no_event_preset_def)
  have mode: "ee_authMode (coalesce (im_event input) no_event_preset) =
      Option.bind (im_event input) ee_authMode"
    by (cases "im_event input") (auto simp: no_event_preset_def)
  let ?pc = "resolver_params base input
    (no_event_preset\<lparr>ee_authMode := Some AmCommand, ee_mayPair := Some False\<rparr>)"
  let ?pe = "resolver_params base input (no_event_preset\<lparr>ee_mayPair := Some False\<rparr>)"
  have c: "resolveChannelMessageIngress lc rs ?pc = Inr rc"
    and e: "resolveChannelMessageIngress lc rs ?pe = Inr re"
    using assms(2,3) by (simp_all add: createChannelIngressResolver_def Let_def)
  have "\<not> ev_mayPair (rp_event ?pc)" "\<not> ev_mayPair (rp_event ?pe)"
    "Option.bind (im_event input) ee_authMode = None \<Longrightarrow> ev_authMode (rp_event ?pc) = AmCommand"
    using pair mode
    by (auto simp: resolver_params_def channelIngressEvent_def merge_event_presets_def
        no_event_preset_def Let_def)
  then have "\<not> re_mayPair (st_event (rg_state rc))" "\<not> re_mayPair (st_event (rg_state re))"
    "Option.bind (im_event input) ee_authMode = None \<Longrightarrow> re_authMode (st_event (rg_state rc)) = AmCommand"
    by (simp_all add: resolve_Inr(2) [OF c] resolve_Inr(2) [OF e])
  then show ?thesis
    by (auto simp: resolve_Inr(3) [OF c] resolve_Inr(3) [OF e] decide_admission_eq
        ingress_admission_def Let_def)
qed

definition example_base :: CreateChannelIngressResolverParams where
  "example_base =
     \<lparr>br_channelId = ''telegram'', br_accountId = ''default'', br_identity = example_identity,
      br_accessGroups = None, br_accessGroupMembership = None,
      br_resolveAccessGroupMembership = None, br_accessGroupMatchedAllowFromEntry = JUndefined,
      br_readStoreAllowFrom = None, br_useDefaultPairingStore = Some True, br_cfg = None,
      br_useAccessGroups = None, br_defaultDmPolicy = None, br_defaultGroupPolicy = None,
      br_groupAllowFromFallbackToAllowFrom = None, br_mutableIdentifierMatching = None\<rparr>"

definition example_message :: ChannelIngressResolverMessageParams where
  "example_message =
     \<lparr>im_subject = \<lparr>su_stableId = JString ''42'', su_aliases = None\<rparr>,
      im_conversation = \<lparr>cv_kind = Direct, cv_id = ''c1'', cv_parentId = None, cv_threadId = None,
        cv_title = None\<rparr>,
      im_event = None, im_dmPolicy = None, im_groupPolicy = None, im_policy = None,
      im_allowFrom = None, im_groupAllowFrom = None, im_route = None, im_routeFacts = None,
      im_accessGroupMembership = None, im_providerMissingFallbackApplied = None,
      im_mentionFacts = None, im_command = None\<rparr>"

lemma resolver_Inr:
  assumes "js_trim (br_channelId base) \<noteq> []"
  shows "cr_command (createChannelIngressResolver lc rs base) input =
      Inr (projr (cr_command (createChannelIngressResolver lc rs base) input))"
    and "cr_event (createChannelIngressResolver lc rs base) input =
      Inr (projr (cr_event (createChannelIngressResolver lc rs base) input))"
  using assms
  by (simp_all add: createChannelIngressResolver_def resolveChannelMessageIngress_def
      normalizeChannelId_def resolver_params_def Let_def)

theorem resolver_commands_never_pair_witness:
  "id_admission (rg_ingress (projr (cr_event
     (createChannelIngressResolver (\<lambda>_ _. 0) (\<lambda>_ _. Rejected) example_base) example_message)))
   \<noteq> PairingRequired"
proof -
  have "js_trim (br_channelId example_base) \<noteq> []" by code_simp
  note ok = resolver_Inr [OF this, of "\<lambda>_ _. 0" "\<lambda>_ _. Rejected" example_message]
  have "Option.bind (im_event example_message) ee_mayPair = None" by (simp add: example_message_def)
  from resolver_commands_never_pair [OF this ok] show ?thesis by simp
qed

end
