(* ===== verification/Work_Admission.thy ===== *)
theory Work_Admission
  imports JS_Number
begin

text \<open>
  \<^verbatim>\<open>src/process/gateway-work-admission.ts\<close>: process-wide admission of root work. A restart
  signal fences admission reversibly, a restart drain closes it until the runtime is reset, and
  a host suspension closes it under a generation-guarded lease. Root work is counted by
  reference; waiters for an opening and for the drain are promises.

  Set members that the code tells apart by object identity (admissions, release closures,
  promise resolvers, callbacks) are numbers; an admission is an index into \<open>ws_admissions\<close>, a
  release closure an index into \<open>ws_releases\<close>. The async-local \<^verbatim>\<open>currentRootWork\<close> is the
  argument \<open>cur\<close>: the admission of the running async chain. What an operation does to the
  outside (waking a promise, calling the invalidation callback, logging) is appended to
  \<open>ws_effects\<close> in order.
\<close>

section \<open>State\<close>

datatype GatewaySuspendAdmissionPhase = Accepting | Preparing | Prepared

datatype AdmissionCloseReason = CloseSignalFence | CloseDrain | CloseSuspend
datatype AdmissionReopenReason = ReopenSignalFence | ReopenSuspend

record GatewayRootWorkAdmission =
  ra_references :: int
  ra_released :: bool

record RootWorkRelease =
  rl_admission :: nat
  rl_leaseReleased :: bool

datatype admission_effect =
    WakeOpenWaiter nat | WakeDrainWaiter nat | CallInvalidated nat
  | LogClosed AdmissionCloseReason | LogReopened AdmissionReopenReason

record GatewayWorkAdmissionState =
  ws_restartDraining :: bool
  ws_restartSignalPending :: bool
  ws_restartSignalGeneration :: nat
  ws_suspendPhase :: GatewaySuspendAdmissionPhase
  ws_suspendGeneration :: nat
  ws_suspendInvalidated :: "nat option"
  ws_activeRootWork :: "nat list"
  ws_rootDrainWaiters :: "nat list"
  ws_suspendOpenWaiters :: "nat list"
  ws_admissions :: "GatewayRootWorkAdmission list"
  ws_releases :: "RootWorkRelease list"
  ws_nextWaiter :: nat
  ws_effects :: "admission_effect list"

definition admission_init :: GatewayWorkAdmissionState where
  "admission_init =
     \<lparr>ws_restartDraining = False, ws_restartSignalPending = False, ws_restartSignalGeneration = 0,
      ws_suspendPhase = Accepting, ws_suspendGeneration = 0, ws_suspendInvalidated = None,
      ws_activeRootWork = [], ws_rootDrainWaiters = [], ws_suspendOpenWaiters = [],
      ws_admissions = [], ws_releases = [], ws_nextWaiter = 0, ws_effects = []\<rparr>"

definition emit :: "admission_effect list \<Rightarrow> GatewayWorkAdmissionState \<Rightarrow> GatewayWorkAdmissionState" where
  "emit es s = s\<lparr>ws_effects := ws_effects s @ es\<rparr>"

section \<open>Waking waiters\<close>

definition resolveRootDrainWaiters :: "GatewayWorkAdmissionState \<Rightarrow> GatewayWorkAdmissionState" where
  "resolveRootDrainWaiters s =
     emit (map WakeDrainWaiter (ws_rootDrainWaiters s)) (s\<lparr>ws_rootDrainWaiters := []\<rparr>)"

definition resolveSuspendOpenWaiters :: "GatewayWorkAdmissionState \<Rightarrow> GatewayWorkAdmissionState" where
  "resolveSuspendOpenWaiters s =
     emit (map WakeOpenWaiter (ws_suspendOpenWaiters s)) (s\<lparr>ws_suspendOpenWaiters := []\<rparr>)"

definition invalidateSuspendAdmission :: "GatewayWorkAdmissionState \<Rightarrow> GatewayWorkAdmissionState" where
  "invalidateSuspendAdmission s =
     (let callback = ws_suspendInvalidated s;
          wasClosed = ws_suspendPhase s \<noteq> Accepting;
          s = resolveSuspendOpenWaiters (s\<lparr>ws_suspendInvalidated := None, ws_suspendPhase := Accepting,
            ws_suspendGeneration := ws_suspendGeneration s + 1\<rparr>);
          s = (if wasClosed \<and> \<not> ws_restartDraining s then emit [LogReopened ReopenSuspend] s else s)
      in case callback of None \<Rightarrow> s | Some c \<Rightarrow> emit [CallInvalidated c] s)"

definition clearRestartSignalFence ::
  "GatewayWorkAdmissionState \<Rightarrow> bool \<times> GatewayWorkAdmissionState" where
  "clearRestartSignalFence s =
     (if ws_restartDraining s \<or> \<not> ws_restartSignalPending s then (False, s)
      else (True, emit [LogReopened ReopenSignalFence] (resolveSuspendOpenWaiters
        (s\<lparr>ws_restartSignalPending := False,
           ws_restartSignalGeneration := ws_restartSignalGeneration s + 1\<rparr>))))"

section \<open>Queries\<close>

definition isGatewayWorkAdmissionClosed :: "GatewayWorkAdmissionState \<Rightarrow> bool" where
  "isGatewayWorkAdmissionClosed s \<longleftrightarrow>
     ws_restartDraining s \<or> ws_restartSignalPending s \<or> ws_suspendPhase s \<noteq> Accepting"

definition live_root :: "GatewayWorkAdmissionState \<Rightarrow> nat option \<Rightarrow> bool" where
  "live_root s cur \<longleftrightarrow> (case cur of None \<Rightarrow> False | Some a \<Rightarrow> \<not> ra_released (ws_admissions s ! a))"

definition isGatewaySubordinateWorkAdmissionClosed ::
  "nat option \<Rightarrow> GatewayWorkAdmissionState \<Rightarrow> bool" where
  "isGatewaySubordinateWorkAdmissionClosed cur s \<longleftrightarrow>
     (if ws_restartDraining s \<or> ws_restartSignalPending s then True
      else case cur of
        Some current \<Rightarrow> ra_released (ws_admissions s ! current)
      | None \<Rightarrow> ws_suspendPhase s \<noteq> Accepting)"

definition getGatewaySuspendAdmissionPhase ::
  "GatewayWorkAdmissionState \<Rightarrow> GatewaySuspendAdmissionPhase" where
  "getGatewaySuspendAdmissionPhase s = ws_suspendPhase s"

definition isGatewayRestartDraining :: "GatewayWorkAdmissionState \<Rightarrow> bool" where
  "isGatewayRestartDraining s \<longleftrightarrow> ws_restartDraining s \<or> ws_restartSignalPending s"

definition getActiveGatewayRootWorkCount ::
  "bool option \<Rightarrow> nat option \<Rightarrow> GatewayWorkAdmissionState \<Rightarrow> int" where
  "getActiveGatewayRootWorkCount excludeCurrent cur s =
     (let count = int (length (ws_activeRootWork s));
          count = (if excludeCurrent = Some True \<and> live_root s cur \<and>
                      the cur \<in> set (ws_activeRootWork s) then count - 1 else count)
      in max 0 count)"

section \<open>Root work\<close>

text \<open>A new admission and its first release closure.\<close>

definition createGatewayRootWorkAdmission ::
  "GatewayWorkAdmissionState \<Rightarrow> nat \<times> GatewayWorkAdmissionState" where
  "createGatewayRootWorkAdmission s =
     (let admission = length (ws_admissions s)
      in (length (ws_releases s),
          s\<lparr>ws_admissions := ws_admissions s @ [\<lparr>ra_references = 1, ra_released = False\<rparr>],
            ws_activeRootWork := set_add (ws_activeRootWork s) admission,
            ws_releases := ws_releases s @ [\<lparr>rl_admission = admission, rl_leaseReleased = False\<rparr>]\<rparr>))"

text \<open>Calling a release closure.\<close>

definition release_root_work :: "nat \<Rightarrow> GatewayWorkAdmissionState \<Rightarrow> GatewayWorkAdmissionState" where
  "release_root_work lease s =
     (let l = ws_releases s ! lease; a = rl_admission l; admission = ws_admissions s ! a
      in if rl_leaseReleased l \<or> ra_released admission then s
         else
           let s = s\<lparr>ws_releases := (ws_releases s)[lease := l\<lparr>rl_leaseReleased := True\<rparr>],
                     ws_admissions := (ws_admissions s)
                       [a := admission\<lparr>ra_references := ra_references admission - 1\<rparr>]\<rparr>
           in if ra_references (ws_admissions s ! a) > 0 then s
              else
                let s = s\<lparr>ws_admissions := (ws_admissions s)
                            [a := (ws_admissions s ! a)\<lparr>ra_released := True\<rparr>],
                          ws_activeRootWork := filter (\<lambda>x. x \<noteq> a) (ws_activeRootWork s)\<rparr>
                in if length (ws_activeRootWork s) = 0 then resolveRootDrainWaiters s else s)"

text \<open>\<open>RootJoined\<close> is the lease of nested work, whose release does nothing.\<close>

datatype root_lease = RootOwned nat | RootJoined

definition tryBeginGatewayRootWorkAdmission ::
  "nat option \<Rightarrow> GatewayWorkAdmissionState \<Rightarrow> root_lease option \<times> GatewayWorkAdmissionState" where
  "tryBeginGatewayRootWorkAdmission cur s =
     (if live_root s cur then (Some RootJoined, s)
      else if ws_restartDraining s \<or> ws_restartSignalPending s \<or> ws_suspendPhase s \<noteq> Accepting
      then (None, s)
      else let (lease, s) = createGatewayRootWorkAdmission s in (Some (RootOwned lease), s))"

definition tryBeginGatewayIndependentRootWorkAdmission ::
  "GatewayWorkAdmissionState \<Rightarrow> root_lease option \<times> GatewayWorkAdmissionState" where
  "tryBeginGatewayIndependentRootWorkAdmission s =
     (if ws_restartDraining s \<or> ws_restartSignalPending s \<or> ws_suspendPhase s \<noteq> Accepting
      then (None, s)
      else let (lease, s) = createGatewayRootWorkAdmission s in (Some (RootOwned lease), s))"

text \<open>One turn of the loops of \<^verbatim>\<open>beginGatewayRootWorkAdmissionWhenOpen\<close> and
  \<^verbatim>\<open>runWithGatewayIndependentRootWorkAdmission\<close>: the loop ends with an error or a lease,
  or goes on when the waiter it has registered is woken.\<close>

datatype admission_turn = TurnDraining | TurnAdmitted root_lease | TurnWaiting nat

definition wait_for_open ::
  "GatewayWorkAdmissionState \<Rightarrow> admission_turn \<times> GatewayWorkAdmissionState" where
  "wait_for_open s =
     (TurnWaiting (ws_nextWaiter s),
      s\<lparr>ws_suspendOpenWaiters := ws_suspendOpenWaiters s @ [ws_nextWaiter s],
        ws_nextWaiter := ws_nextWaiter s + 1\<rparr>)"

definition beginGatewayRootWorkAdmissionWhenOpen ::
  "nat option \<Rightarrow> GatewayWorkAdmissionState \<Rightarrow> admission_turn \<times> GatewayWorkAdmissionState" where
  "beginGatewayRootWorkAdmissionWhenOpen cur s =
     (if ws_restartDraining s then (TurnDraining, s)
      else case tryBeginGatewayRootWorkAdmission cur s of
        (Some lease, s) \<Rightarrow> (TurnAdmitted lease, s)
      | (None, s) \<Rightarrow> wait_for_open s)"

definition runWithGatewayIndependentRootWorkAdmission ::
  "GatewayWorkAdmissionState \<Rightarrow> admission_turn \<times> GatewayWorkAdmissionState" where
  "runWithGatewayIndependentRootWorkAdmission s =
     (if ws_restartDraining s then (TurnDraining, s)
      else case tryBeginGatewayIndependentRootWorkAdmission s of
        (Some lease, s) \<Rightarrow> (TurnAdmitted lease, s)
      | (None, s) \<Rightarrow> wait_for_open s)"

definition runWithGatewayIndependentRootWorkContinuation ::
  "nat option \<Rightarrow> GatewayWorkAdmissionState \<Rightarrow> admission_turn \<times> GatewayWorkAdmissionState" where
  "runWithGatewayIndependentRootWorkContinuation cur s =
     (if \<not> live_root s cur then runWithGatewayIndependentRootWorkAdmission s
      else let (lease, s) = createGatewayRootWorkAdmission s in (TurnAdmitted (RootOwned lease), s))"

definition retainGatewayRootWorkAdmissionContinuation ::
  "nat option \<Rightarrow> GatewayWorkAdmissionState \<Rightarrow> nat option \<times> GatewayWorkAdmissionState" where
  "retainGatewayRootWorkAdmissionContinuation cur s =
     (if \<not> live_root s cur then (None, s)
      else
        let a = the cur; admission = ws_admissions s ! a
        in (Some (length (ws_releases s)),
            s\<lparr>ws_admissions := (ws_admissions s)
                [a := admission\<lparr>ra_references := ra_references admission + 1\<rparr>],
              ws_releases := ws_releases s @ [\<lparr>rl_admission = a, rl_leaseReleased = False\<rparr>]\<rparr>))"

section \<open>Waiting for the drain\<close>

text \<open>\<^verbatim>\<open>waitForActiveGatewayRootWork\<close> up to its await: an immediate answer, or a
  registered waiter with the delay of its timer; and what it does once the promise is
  resolved, by the drain or by the timer.\<close>

datatype drain_start = DrainNow bool nat | DrainWaiting nat "int option"

definition waitForActiveGatewayRootWork ::
  "jsnum option \<Rightarrow> GatewayWorkAdmissionState \<Rightarrow> drain_start \<times> GatewayWorkAdmissionState" where
  "waitForActiveGatewayRootWork timeoutMs s =
     (if length (ws_activeRootWork s) = 0 then (DrainNow True 0, s)
      else
        let timeout = (case timeoutMs of Some (Fin q) \<Rightarrow> Some (max 0 \<lfloor>q\<rfloor>) | _ \<Rightarrow> None)
        in if timeout = Some 0 then (DrainNow False (length (ws_activeRootWork s)), s)
           else (DrainWaiting (ws_nextWaiter s) timeout,
                 s\<lparr>ws_rootDrainWaiters := ws_rootDrainWaiters s @ [ws_nextWaiter s],
                   ws_nextWaiter := ws_nextWaiter s + 1\<rparr>))"

definition finish_drain_wait ::
  "nat \<Rightarrow> GatewayWorkAdmissionState \<Rightarrow> (bool \<times> nat) \<times> GatewayWorkAdmissionState" where
  "finish_drain_wait waiter s =
     (let active = length (ws_activeRootWork s)
      in ((active = 0, active),
          s\<lparr>ws_rootDrainWaiters := filter (\<lambda>w. w \<noteq> waiter) (ws_rootDrainWaiters s)\<rparr>))"

section \<open>Restart\<close>

definition markGatewayRestartDraining :: "GatewayWorkAdmissionState \<Rightarrow> GatewayWorkAdmissionState" where
  "markGatewayRestartDraining s =
     (if ws_restartDraining s then s
      else
        let s = emit [LogClosed CloseDrain] (resolveSuspendOpenWaiters
              (s\<lparr>ws_restartSignalPending := False,
                 ws_restartSignalGeneration := ws_restartSignalGeneration s + 1,
                 ws_restartDraining := True\<rparr>))
        in if ws_suspendPhase s \<noteq> Accepting then invalidateSuspendAdmission s else s)"

text \<open>The lease is its generation.\<close>

definition beginGatewayRestartSignalAdmission ::
  "GatewayWorkAdmissionState \<Rightarrow> nat option \<times> GatewayWorkAdmissionState" where
  "beginGatewayRestartSignalAdmission s =
     (if ws_restartDraining s \<or> ws_restartSignalPending s then (None, s)
      else
        let generation = ws_restartSignalGeneration s + 1
        in (Some generation, emit [LogClosed CloseSignalFence]
              (s\<lparr>ws_restartSignalPending := True, ws_restartSignalGeneration := generation\<rparr>)))"

definition restart_lease_rollback ::
  "nat \<Rightarrow> GatewayWorkAdmissionState \<Rightarrow> bool \<times> GatewayWorkAdmissionState" where
  "restart_lease_rollback generation s =
     (if \<not> ws_restartSignalPending s \<or> ws_restartSignalGeneration s \<noteq> generation then (False, s)
      else clearRestartSignalFence s)"

definition rollbackGatewayRestartSignalFence ::
  "GatewayWorkAdmissionState \<Rightarrow> bool \<times> GatewayWorkAdmissionState" where
  "rollbackGatewayRestartSignalFence s = clearRestartSignalFence s"

section \<open>Suspension\<close>

definition tryBeginGatewaySuspendAdmission ::
  "nat \<Rightarrow> GatewayWorkAdmissionState \<Rightarrow> nat option \<times> GatewayWorkAdmissionState" where
  "tryBeginGatewaySuspendAdmission onInvalidated s =
     (if ws_restartDraining s \<or> ws_restartSignalPending s \<or> ws_suspendPhase s \<noteq> Accepting
      then (None, s)
      else
        let generation = ws_suspendGeneration s + 1
        in (Some generation, emit [LogClosed CloseSuspend]
              (s\<lparr>ws_suspendPhase := Preparing, ws_suspendGeneration := generation,
                 ws_suspendInvalidated := Some onInvalidated\<rparr>)))"

definition suspend_transition ::
  "nat \<Rightarrow> GatewaySuspendAdmissionPhase \<Rightarrow> GatewaySuspendAdmissionPhase \<Rightarrow>
     GatewayWorkAdmissionState \<Rightarrow> bool \<times> GatewayWorkAdmissionState" where
  "suspend_transition generation expected next_phase s =
     (if ws_suspendGeneration s \<noteq> generation \<or> ws_suspendPhase s \<noteq> expected then (False, s)
      else
        let s = s\<lparr>ws_suspendPhase := next_phase\<rparr>
        in (True, if next_phase = Accepting
                  then emit [LogReopened ReopenSuspend]
                         (resolveSuspendOpenWaiters (s\<lparr>ws_suspendInvalidated := None\<rparr>))
                  else s))"

definition suspend_commit :: "nat \<Rightarrow> GatewayWorkAdmissionState \<Rightarrow> bool \<times> GatewayWorkAdmissionState" where
  "suspend_commit generation = suspend_transition generation Preparing Prepared"

definition suspend_rollback :: "nat \<Rightarrow> GatewayWorkAdmissionState \<Rightarrow> bool \<times> GatewayWorkAdmissionState" where
  "suspend_rollback generation = suspend_transition generation Preparing Accepting"

definition suspend_release :: "nat \<Rightarrow> GatewayWorkAdmissionState \<Rightarrow> bool \<times> GatewayWorkAdmissionState" where
  "suspend_release generation = suspend_transition generation Prepared Accepting"

section \<open>Reset\<close>

definition retire :: "nat list \<Rightarrow> GatewayRootWorkAdmission list \<Rightarrow> GatewayRootWorkAdmission list" where
  "retire active admissions =
     foldl (\<lambda>as a. as[a := \<lparr>ra_references = 0, ra_released = True\<rparr>]) admissions active"

definition resetGatewayWorkAdmission :: "GatewayWorkAdmissionState \<Rightarrow> GatewayWorkAdmissionState" where
  "resetGatewayWorkAdmission s =
     (let s = s\<lparr>ws_admissions := retire (ws_activeRootWork s) (ws_admissions s),
                ws_activeRootWork := []\<rparr>;
          s = resolveRootDrainWaiters s;
          s = s\<lparr>ws_restartDraining := False, ws_restartSignalPending := False,
                ws_restartSignalGeneration := ws_restartSignalGeneration s + 1\<rparr>;
          s = (if ws_suspendPhase s \<noteq> Accepting then invalidateSuspendAdmission s
               else s\<lparr>ws_suspendGeneration := ws_suspendGeneration s + 1,
                      ws_suspendInvalidated := None\<rparr>)
      in resolveSuspendOpenWaiters s)"

section \<open>The component as a transition system\<close>

datatype admission_op =
    BeginRoot "nat option" | BeginRootWhenOpen "nat option" | BeginIndependent
  | BeginContinuation "nat option" | RetainRoot "nat option" | ReleaseRoot nat
  | WaitDrain "jsnum option" | FinishDrainWait nat
  | MarkDraining | BeginSignal | RollbackSignal nat | RollbackFence
  | BeginSuspend nat | CommitSuspend nat | RollbackSuspend nat | ReleaseSuspend nat
  | Reset

fun run_op :: "admission_op \<Rightarrow> GatewayWorkAdmissionState \<Rightarrow> GatewayWorkAdmissionState" where
  "run_op (BeginRoot cur) s = snd (tryBeginGatewayRootWorkAdmission cur s)"
| "run_op (BeginRootWhenOpen cur) s = snd (beginGatewayRootWorkAdmissionWhenOpen cur s)"
| "run_op BeginIndependent s = snd (runWithGatewayIndependentRootWorkAdmission s)"
| "run_op (BeginContinuation cur) s = snd (runWithGatewayIndependentRootWorkContinuation cur s)"
| "run_op (RetainRoot cur) s = snd (retainGatewayRootWorkAdmissionContinuation cur s)"
| "run_op (ReleaseRoot lease) s = release_root_work lease s"
| "run_op (WaitDrain t) s = snd (waitForActiveGatewayRootWork t s)"
| "run_op (FinishDrainWait w) s = snd (finish_drain_wait w s)"
| "run_op MarkDraining s = markGatewayRestartDraining s"
| "run_op BeginSignal s = snd (beginGatewayRestartSignalAdmission s)"
| "run_op (RollbackSignal g) s = snd (restart_lease_rollback g s)"
| "run_op RollbackFence s = snd (rollbackGatewayRestartSignalFence s)"
| "run_op (BeginSuspend c) s = snd (tryBeginGatewaySuspendAdmission c s)"
| "run_op (CommitSuspend g) s = snd (suspend_commit g s)"
| "run_op (RollbackSuspend g) s = snd (suspend_rollback g s)"
| "run_op (ReleaseSuspend g) s = snd (suspend_release g s)"
| "run_op Reset s = resetGatewayWorkAdmission s"

text \<open>Operations name async chains and leases that exist.\<close>

fun op_ok :: "admission_op \<Rightarrow> GatewayWorkAdmissionState \<Rightarrow> bool" where
  "op_ok (BeginRoot cur) s = (case cur of None \<Rightarrow> True | Some a \<Rightarrow> a < length (ws_admissions s))"
| "op_ok (BeginRootWhenOpen cur) s =
     (case cur of None \<Rightarrow> True | Some a \<Rightarrow> a < length (ws_admissions s))"
| "op_ok (BeginContinuation cur) s =
     (case cur of None \<Rightarrow> True | Some a \<Rightarrow> a < length (ws_admissions s))"
| "op_ok (RetainRoot cur) s = (case cur of None \<Rightarrow> True | Some a \<Rightarrow> a < length (ws_admissions s))"
| "op_ok (ReleaseRoot lease) s = (lease < length (ws_releases s))"
| "op_ok _ s = True"

inductive admission_step :: "GatewayWorkAdmissionState \<Rightarrow> GatewayWorkAdmissionState \<Rightarrow> bool" where
  "op_ok op s \<Longrightarrow> admission_step s (run_op op s)"

inductive_cases admission_stepE: "admission_step s t"

section \<open>Frames\<close>

lemma emit_sel [simp]:
  "ws_restartDraining (emit e s) = ws_restartDraining s"
  "ws_restartSignalPending (emit e s) = ws_restartSignalPending s"
  "ws_restartSignalGeneration (emit e s) = ws_restartSignalGeneration s"
  "ws_suspendPhase (emit e s) = ws_suspendPhase s"
  "ws_suspendGeneration (emit e s) = ws_suspendGeneration s"
  "ws_suspendInvalidated (emit e s) = ws_suspendInvalidated s"
  "ws_activeRootWork (emit e s) = ws_activeRootWork s"
  "ws_rootDrainWaiters (emit e s) = ws_rootDrainWaiters s"
  "ws_suspendOpenWaiters (emit e s) = ws_suspendOpenWaiters s"
  "ws_admissions (emit e s) = ws_admissions s"
  "ws_releases (emit e s) = ws_releases s"
  "ws_nextWaiter (emit e s) = ws_nextWaiter s"
  "ws_effects (emit e s) = ws_effects s @ e"
  by (simp_all add: emit_def)

lemma resolveRootDrainWaiters_sel [simp]:
  "ws_restartDraining (resolveRootDrainWaiters s) = ws_restartDraining s"
  "ws_restartSignalPending (resolveRootDrainWaiters s) = ws_restartSignalPending s"
  "ws_restartSignalGeneration (resolveRootDrainWaiters s) = ws_restartSignalGeneration s"
  "ws_suspendPhase (resolveRootDrainWaiters s) = ws_suspendPhase s"
  "ws_suspendGeneration (resolveRootDrainWaiters s) = ws_suspendGeneration s"
  "ws_suspendInvalidated (resolveRootDrainWaiters s) = ws_suspendInvalidated s"
  "ws_activeRootWork (resolveRootDrainWaiters s) = ws_activeRootWork s"
  "ws_rootDrainWaiters (resolveRootDrainWaiters s) = []"
  "ws_suspendOpenWaiters (resolveRootDrainWaiters s) = ws_suspendOpenWaiters s"
  "ws_admissions (resolveRootDrainWaiters s) = ws_admissions s"
  "ws_releases (resolveRootDrainWaiters s) = ws_releases s"
  "ws_nextWaiter (resolveRootDrainWaiters s) = ws_nextWaiter s"
  by (simp_all add: resolveRootDrainWaiters_def)

lemma resolveSuspendOpenWaiters_sel [simp]:
  "ws_restartDraining (resolveSuspendOpenWaiters s) = ws_restartDraining s"
  "ws_restartSignalPending (resolveSuspendOpenWaiters s) = ws_restartSignalPending s"
  "ws_restartSignalGeneration (resolveSuspendOpenWaiters s) = ws_restartSignalGeneration s"
  "ws_suspendPhase (resolveSuspendOpenWaiters s) = ws_suspendPhase s"
  "ws_suspendGeneration (resolveSuspendOpenWaiters s) = ws_suspendGeneration s"
  "ws_suspendInvalidated (resolveSuspendOpenWaiters s) = ws_suspendInvalidated s"
  "ws_activeRootWork (resolveSuspendOpenWaiters s) = ws_activeRootWork s"
  "ws_rootDrainWaiters (resolveSuspendOpenWaiters s) = ws_rootDrainWaiters s"
  "ws_suspendOpenWaiters (resolveSuspendOpenWaiters s) = []"
  "ws_admissions (resolveSuspendOpenWaiters s) = ws_admissions s"
  "ws_releases (resolveSuspendOpenWaiters s) = ws_releases s"
  "ws_nextWaiter (resolveSuspendOpenWaiters s) = ws_nextWaiter s"
  by (simp_all add: resolveSuspendOpenWaiters_def)

lemma invalidateSuspendAdmission_sel [simp]:
  "ws_restartDraining (invalidateSuspendAdmission s) = ws_restartDraining s"
  "ws_restartSignalPending (invalidateSuspendAdmission s) = ws_restartSignalPending s"
  "ws_restartSignalGeneration (invalidateSuspendAdmission s) = ws_restartSignalGeneration s"
  "ws_suspendPhase (invalidateSuspendAdmission s) = Accepting"
  "ws_suspendGeneration (invalidateSuspendAdmission s) = ws_suspendGeneration s + 1"
  "ws_suspendInvalidated (invalidateSuspendAdmission s) = None"
  "ws_activeRootWork (invalidateSuspendAdmission s) = ws_activeRootWork s"
  "ws_rootDrainWaiters (invalidateSuspendAdmission s) = ws_rootDrainWaiters s"
  "ws_suspendOpenWaiters (invalidateSuspendAdmission s) = []"
  "ws_admissions (invalidateSuspendAdmission s) = ws_admissions s"
  "ws_releases (invalidateSuspendAdmission s) = ws_releases s"
  "ws_nextWaiter (invalidateSuspendAdmission s) = ws_nextWaiter s"
  by (simp_all add: invalidateSuspendAdmission_def Let_def split: option.split)

section \<open>The control invariant\<close>

text \<open>A callback is installed exactly while suspended; a drain supersedes the signal fence and
  the suspension; whoever waits for an opening waits at a closed door that can still open.\<close>

definition control_inv :: "GatewayWorkAdmissionState \<Rightarrow> bool" where
  "control_inv s \<longleftrightarrow>
     (ws_suspendInvalidated s = None \<longleftrightarrow> ws_suspendPhase s = Accepting) \<and>
     (ws_restartDraining s \<longrightarrow> \<not> ws_restartSignalPending s \<and> ws_suspendPhase s = Accepting) \<and>
     (ws_suspendOpenWaiters s \<noteq> [] \<longrightarrow>
        isGatewayWorkAdmissionClosed s \<and> \<not> ws_restartDraining s)"

lemma control_inv_cong:
  assumes "ws_restartDraining t = ws_restartDraining s"
    and "ws_restartSignalPending t = ws_restartSignalPending s"
    and "ws_suspendPhase t = ws_suspendPhase s"
    and "ws_suspendInvalidated t = ws_suspendInvalidated s"
    and "ws_suspendOpenWaiters t = ws_suspendOpenWaiters s"
  shows "control_inv t = control_inv s"
  using assms by (simp add: control_inv_def isGatewayWorkAdmissionClosed_def)

text \<open>The operations on root work leave the control part alone.\<close>

lemma create_control [simp]:
  "ws_restartDraining (snd (createGatewayRootWorkAdmission s)) = ws_restartDraining s"
  "ws_restartSignalPending (snd (createGatewayRootWorkAdmission s)) = ws_restartSignalPending s"
  "ws_suspendPhase (snd (createGatewayRootWorkAdmission s)) = ws_suspendPhase s"
  "ws_suspendGeneration (snd (createGatewayRootWorkAdmission s)) = ws_suspendGeneration s"
  "ws_suspendInvalidated (snd (createGatewayRootWorkAdmission s)) = ws_suspendInvalidated s"
  "ws_suspendOpenWaiters (snd (createGatewayRootWorkAdmission s)) = ws_suspendOpenWaiters s"
  "ws_rootDrainWaiters (snd (createGatewayRootWorkAdmission s)) = ws_rootDrainWaiters s"
  by (simp_all add: createGatewayRootWorkAdmission_def Let_def)

lemma release_control [simp]:
  "ws_restartDraining (release_root_work l s) = ws_restartDraining s"
  "ws_restartSignalPending (release_root_work l s) = ws_restartSignalPending s"
  "ws_suspendPhase (release_root_work l s) = ws_suspendPhase s"
  "ws_suspendGeneration (release_root_work l s) = ws_suspendGeneration s"
  "ws_suspendInvalidated (release_root_work l s) = ws_suspendInvalidated s"
  "ws_suspendOpenWaiters (release_root_work l s) = ws_suspendOpenWaiters s"
  by (simp_all add: release_root_work_def Let_def)

text \<open>What a turn of an admission loop can do.\<close>

lemma turn_cases:
  fixes s cur
  defines "shut \<equiv> isGatewayWorkAdmissionClosed s"
  shows "snd (tryBeginGatewayRootWorkAdmission cur s) =
      (if live_root s cur \<or> shut then s else snd (createGatewayRootWorkAdmission s))"
    and "snd (beginGatewayRootWorkAdmissionWhenOpen cur s) =
      (if ws_restartDraining s \<or> live_root s cur then s
       else if shut then snd (wait_for_open s) else snd (createGatewayRootWorkAdmission s))"
    and "snd (runWithGatewayIndependentRootWorkAdmission s) =
      (if ws_restartDraining s then s
       else if shut then snd (wait_for_open s) else snd (createGatewayRootWorkAdmission s))"
    and "snd (runWithGatewayIndependentRootWorkContinuation cur s) =
      (if live_root s cur then snd (createGatewayRootWorkAdmission s)
       else snd (runWithGatewayIndependentRootWorkAdmission s))"
  by (auto simp: shut_def isGatewayWorkAdmissionClosed_def tryBeginGatewayRootWorkAdmission_def
      beginGatewayRootWorkAdmissionWhenOpen_def runWithGatewayIndependentRootWorkAdmission_def
      tryBeginGatewayIndependentRootWorkAdmission_def
      runWithGatewayIndependentRootWorkContinuation_def split_beta Let_def)

lemma control_inv_wait:
  "control_inv s \<Longrightarrow> isGatewayWorkAdmissionClosed s \<Longrightarrow> \<not> ws_restartDraining s \<Longrightarrow>
     control_inv (snd (wait_for_open s))"
  by (simp add: control_inv_def wait_for_open_def isGatewayWorkAdmissionClosed_def)

lemma control_inv_create: "control_inv (snd (createGatewayRootWorkAdmission s)) = control_inv s"
  by (rule control_inv_cong) simp_all

lemma control_inv_step:
  assumes "control_inv s"
  shows "control_inv (run_op op s)"
proof (cases op)
  case (BeginRoot cur)
  with assms show ?thesis by (auto simp: turn_cases control_inv_create)
next
  case (BeginRootWhenOpen cur)
  with assms show ?thesis by (auto simp: turn_cases control_inv_create control_inv_wait)
next
  case BeginIndependent
  with assms show ?thesis by (auto simp: turn_cases control_inv_create control_inv_wait)
next
  case (BeginContinuation cur)
  with assms show ?thesis by (auto simp: turn_cases control_inv_create control_inv_wait)
next
  case (RetainRoot cur)
  with assms show ?thesis
    by (auto simp: retainGatewayRootWorkAdmissionContinuation_def Let_def control_inv_def
        isGatewayWorkAdmissionClosed_def)
next
  case (ReleaseRoot lease)
  have "control_inv (release_root_work lease s) = control_inv s" by (rule control_inv_cong) simp_all
  with assms ReleaseRoot show ?thesis by simp
next
  case (WaitDrain t)
  with assms show ?thesis
    by (auto simp: waitForActiveGatewayRootWork_def Let_def control_inv_def
        isGatewayWorkAdmissionClosed_def)
next
  case (FinishDrainWait w)
  with assms show ?thesis
    by (auto simp: finish_drain_wait_def Let_def control_inv_def isGatewayWorkAdmissionClosed_def)
next
  case MarkDraining
  with assms show ?thesis by (auto simp: markGatewayRestartDraining_def Let_def control_inv_def)
next
  case BeginSignal
  with assms show ?thesis
    by (auto simp: beginGatewayRestartSignalAdmission_def Let_def control_inv_def
        isGatewayWorkAdmissionClosed_def)
next
  case (RollbackSignal g)
  with assms show ?thesis
    by (auto simp: restart_lease_rollback_def clearRestartSignalFence_def control_inv_def)
next
  case RollbackFence
  with assms show ?thesis
    by (auto simp: rollbackGatewayRestartSignalFence_def clearRestartSignalFence_def control_inv_def)
next
  case (BeginSuspend c)
  with assms show ?thesis
    by (auto simp: tryBeginGatewaySuspendAdmission_def Let_def control_inv_def
        isGatewayWorkAdmissionClosed_def)
next
  case (CommitSuspend g)
  with assms show ?thesis
    by (auto simp: suspend_commit_def suspend_transition_def Let_def control_inv_def
        isGatewayWorkAdmissionClosed_def)
next
  case (RollbackSuspend g)
  with assms show ?thesis
    by (auto simp: suspend_rollback_def suspend_transition_def Let_def control_inv_def)
next
  case (ReleaseSuspend g)
  with assms show ?thesis
    by (auto simp: suspend_release_def suspend_transition_def Let_def control_inv_def)
next
  case Reset
  with assms show ?thesis
    by (auto simp: resetGatewayWorkAdmission_def Let_def control_inv_def)
qed

interpretation control: inductive_invariant
  "\<lambda>s. s = admission_init" admission_step control_inv
proof unfold_locales
  fix s :: GatewayWorkAdmissionState
  assume "s = admission_init"
  then show "control_inv s" by (simp add: control_inv_def admission_init_def)
next
  fix s t assume "control_inv s" "admission_step s t"
  then show "control_inv t" by (auto elim!: admission_stepE intro: control_inv_step)
qed

section \<open>Root accounting\<close>

definition open_leases :: "nat \<Rightarrow> RootWorkRelease list \<Rightarrow> nat" where
  "open_leases a rs = length (filter (\<lambda>l. rl_admission l = a \<and> \<not> rl_leaseReleased l) rs)"

definition root_inv :: "GatewayWorkAdmissionState \<Rightarrow> bool" where
  "root_inv s \<longleftrightarrow>
     distinct (ws_activeRootWork s) \<and>
     (\<forall>a. a \<in> set (ws_activeRootWork s) \<longleftrightarrow>
        a < length (ws_admissions s) \<and> \<not> ra_released (ws_admissions s ! a)) \<and>
     (\<forall>a < length (ws_admissions s). \<not> ra_released (ws_admissions s ! a) \<longrightarrow>
        ra_references (ws_admissions s ! a) = int (open_leases a (ws_releases s)) \<and>
        open_leases a (ws_releases s) > 0) \<and>
     (\<forall>l \<in> set (ws_releases s). rl_admission l < length (ws_admissions s)) \<and>
     (ws_rootDrainWaiters s \<noteq> [] \<longrightarrow> ws_activeRootWork s \<noteq> [])"

lemma root_inv_cong:
  assumes "ws_activeRootWork t = ws_activeRootWork s" "ws_admissions t = ws_admissions s"
    and "ws_releases t = ws_releases s" "ws_rootDrainWaiters t = ws_rootDrainWaiters s"
  shows "root_inv t = root_inv s"
  using assms by (simp add: root_inv_def)

lemma length_filter_update:
  assumes "i < length xs" "P (xs ! i)" "\<not> P y"
  shows "length (filter P xs) = Suc (length (filter P (xs[i := y])))"
proof -
  have "xs = take i xs @ xs ! i # drop (Suc i) xs" using assms(1) by (rule id_take_nth_drop)
  then have "length (filter P xs) =
      length (filter P (take i xs)) + length (filter P (xs ! i # drop (Suc i) xs))"
    by (metis filter_append length_append)
  then show ?thesis using assms by (simp add: upd_conv_take_nth_drop)
qed

lemma filter_update_other:
  assumes "i < length xs" "\<not> P (xs ! i)" "\<not> P y"
  shows "filter P (xs[i := y]) = filter P xs"
proof -
  have "xs = take i xs @ xs ! i # drop (Suc i) xs" using assms(1) by (rule id_take_nth_drop)
  then have "filter P xs = filter P (take i xs) @ filter P (xs ! i # drop (Suc i) xs)"
    by (metis filter_append)
  then show ?thesis using assms by (simp add: upd_conv_take_nth_drop)
qed

lemma open_leases_release:
  assumes "i < length rs" "\<not> rl_leaseReleased (rs ! i)"
  shows "open_leases a rs = open_leases a (rs[i := (rs ! i)\<lparr>rl_leaseReleased := True\<rparr>]) +
    (if rl_admission (rs ! i) = a then 1 else 0)"
  using assms length_filter_update [of i rs "\<lambda>l. rl_admission l = a \<and> \<not> rl_leaseReleased l"]
    filter_update_other [of i rs "\<lambda>l. rl_admission l = a \<and> \<not> rl_leaseReleased l"]
  by (auto simp: open_leases_def)

lemma open_leases_append [simp]:
  "open_leases a (rs @ [l]) = open_leases a rs +
     (if rl_admission l = a \<and> \<not> rl_leaseReleased l then 1 else 0)"
  by (simp add: open_leases_def)

lemma open_leases_fresh:
  "\<forall>l \<in> set rs. rl_admission l < n \<Longrightarrow> open_leases n rs = 0"
  by (auto simp: open_leases_def filter_empty_conv)

lemma root_inv_create: "root_inv s \<Longrightarrow> root_inv (snd (createGatewayRootWorkAdmission s))"
  by (auto simp: root_inv_def createGatewayRootWorkAdmission_def Let_def set_add_def nth_append
      less_Suc_eq open_leases_fresh)

text \<open>An operation on one live admission: its count of references is replaced, a release
  closure is added or marked, and it may be retired.\<close>

lemma root_inv_release:
  assumes inv: "root_inv s" and lease: "lease < length (ws_releases s)"
  shows "root_inv (release_root_work lease s)"
proof -
  let ?l = "ws_releases s ! lease"
  let ?a = "rl_admission ?l"
  let ?rs = "(ws_releases s)[lease := ?l\<lparr>rl_leaseReleased := True\<rparr>]"
  show ?thesis
  proof (cases "rl_leaseReleased ?l \<or> ra_released (ws_admissions s ! ?a)")
    case True
    with inv show ?thesis by (auto simp: release_root_work_def Let_def)
  next
    case False
    have a: "?a < length (ws_admissions s)" using inv lease by (simp add: root_inv_def)
    have leases: "open_leases b (ws_releases s) = open_leases b ?rs + (if ?a = b then 1 else 0)" for b
      using open_leases_release [OF lease] False by simp
    have refs: "ra_references (ws_admissions s ! ?a) = int (open_leases ?a ?rs) + 1"
      using inv False a leases [of ?a] by (simp add: root_inv_def)
    have bound: "\<forall>l \<in> set ?rs. rl_admission l < length (ws_admissions s)"
      using inv a by (auto simp: root_inv_def dest!: set_update_subset_insert [THEN subsetD])
    have other: "b < length (ws_admissions s) \<Longrightarrow> b \<noteq> ?a \<Longrightarrow> \<not> ra_released (ws_admissions s ! b) \<Longrightarrow>
        ra_references (ws_admissions s ! b) = int (open_leases b ?rs) \<and> open_leases b ?rs > 0" for b
    proof -
      assume b: "b < length (ws_admissions s)" "b \<noteq> ?a" "\<not> ra_released (ws_admissions s ! b)"
      then have "open_leases b ?rs = open_leases b (ws_releases s)" using leases [of b] by simp
      with inv b show ?thesis by (simp add: root_inv_def)
    qed
    show ?thesis
    proof (cases "open_leases ?a ?rs > 0")
      case True
      with inv False a refs bound other show ?thesis
        by (auto simp: release_root_work_def Let_def root_inv_def nth_list_update)
    next
      case last: False
      let ?act = "filter (\<lambda>x. x \<noteq> ?a) (ws_activeRootWork s)"
      let ?t = "s\<lparr>ws_releases := ?rs, ws_admissions := (ws_admissions s)
        [?a := (ws_admissions s ! ?a)\<lparr>ra_references := 0, ra_released := True\<rparr>],
        ws_activeRootWork := ?act\<rparr>"
      have act: "b \<in> set (ws_activeRootWork s) \<longleftrightarrow>
          b < length (ws_admissions s) \<and> \<not> ra_released (ws_admissions s ! b)" for b
        using inv by (simp add: root_inv_def)
      have "length ?act = 0 \<longleftrightarrow> (\<forall>b \<in> set (ws_activeRootWork s). b = ?a)"
        by (simp add: filter_empty_conv)
      then have t: "root_inv (?t\<lparr>ws_rootDrainWaiters := []\<rparr>)" "?act \<noteq> [] \<Longrightarrow> root_inv ?t"
        using inv bound other a act by (auto simp: root_inv_def nth_list_update)
      have "root_inv (resolveRootDrainWaiters ?t) = root_inv (?t\<lparr>ws_rootDrainWaiters := []\<rparr>)"
        by (rule root_inv_cong) simp_all
      moreover have "release_root_work lease s =
          (if ?act = [] then resolveRootDrainWaiters ?t else ?t)"
        using False last refs a by (simp add: release_root_work_def Let_def)
      ultimately show ?thesis using t by (cases "?act = []") auto
    qed
  qed
qed

lemma root_inv_retain:
  assumes "root_inv s" "cur = Some a" "a < length (ws_admissions s)"
  shows "root_inv (snd (retainGatewayRootWorkAdmissionContinuation cur s))"
  using assms
  by (auto simp: retainGatewayRootWorkAdmissionContinuation_def live_root_def Let_def root_inv_def
      nth_list_update)

lemma length_retire [simp]: "length (retire xs as) = length as"
proof (induction xs arbitrary: as)
  case (Cons x xs) then show ?case by (simp add: retire_def)
qed (simp add: retire_def)

lemma nth_retire:
  "b < length as \<Longrightarrow> retire xs as ! b =
     (if b \<in> set xs then \<lparr>ra_references = 0, ra_released = True\<rparr> else as ! b)"
proof (induction xs arbitrary: as)
  case (Cons x xs)
  have "retire (x # xs) as = retire xs (as[x := \<lparr>ra_references = 0, ra_released = True\<rparr>])"
    by (simp add: retire_def)
  with Cons show ?case by (auto simp: nth_list_update)
qed (simp add: retire_def)

lemma reset_sel [simp]:
  "ws_admissions (resetGatewayWorkAdmission s) = retire (ws_activeRootWork s) (ws_admissions s)"
  "ws_activeRootWork (resetGatewayWorkAdmission s) = []"
  "ws_releases (resetGatewayWorkAdmission s) = ws_releases s"
  "ws_rootDrainWaiters (resetGatewayWorkAdmission s) = []"
  "ws_restartDraining (resetGatewayWorkAdmission s) = False"
  "ws_restartSignalPending (resetGatewayWorkAdmission s) = False"
  "ws_suspendPhase (resetGatewayWorkAdmission s) = Accepting"
  "ws_suspendGeneration (resetGatewayWorkAdmission s) = ws_suspendGeneration s + 1"
  by (simp_all add: resetGatewayWorkAdmission_def Let_def)

lemma root_inv_reset: "root_inv s \<Longrightarrow> root_inv (resetGatewayWorkAdmission s)"
  by (auto simp: root_inv_def nth_retire)

lemma root_inv_turn:
  assumes "root_inv s"
  shows "root_inv (snd (tryBeginGatewayRootWorkAdmission cur s))"
    and "root_inv (snd (beginGatewayRootWorkAdmissionWhenOpen cur s))"
    and "root_inv (snd (runWithGatewayIndependentRootWorkAdmission s))"
    and "root_inv (snd (runWithGatewayIndependentRootWorkContinuation cur s))"
proof -
  have w: "root_inv (snd (wait_for_open s))"
    using assms by (simp add: wait_for_open_def root_inv_def)
  show "root_inv (snd (tryBeginGatewayRootWorkAdmission cur s))"
    "root_inv (snd (beginGatewayRootWorkAdmissionWhenOpen cur s))"
    "root_inv (snd (runWithGatewayIndependentRootWorkAdmission s))"
    "root_inv (snd (runWithGatewayIndependentRootWorkContinuation cur s))"
    using assms w by (simp_all add: turn_cases root_inv_create)
qed

text \<open>The operations on restart and suspension leave the roots alone.\<close>

fun control_op :: "admission_op \<Rightarrow> bool" where
  "control_op MarkDraining = True" | "control_op BeginSignal = True"
| "control_op (RollbackSignal _) = True" | "control_op RollbackFence = True"
| "control_op (BeginSuspend _) = True" | "control_op (CommitSuspend _) = True"
| "control_op (RollbackSuspend _) = True" | "control_op (ReleaseSuspend _) = True"
| "control_op _ = False"

lemmas control_op_defs = markGatewayRestartDraining_def beginGatewayRestartSignalAdmission_def
  restart_lease_rollback_def rollbackGatewayRestartSignalFence_def clearRestartSignalFence_def
  tryBeginGatewaySuspendAdmission_def suspend_commit_def suspend_rollback_def suspend_release_def
  suspend_transition_def

lemma control_op_frame:
  assumes "control_op op"
  shows "ws_activeRootWork (run_op op s) = ws_activeRootWork s"
    and "ws_admissions (run_op op s) = ws_admissions s"
    and "ws_releases (run_op op s) = ws_releases s"
    and "ws_rootDrainWaiters (run_op op s) = ws_rootDrainWaiters s"
  using assms by (cases op; simp add: control_op_defs Let_def)+

lemma root_inv_step:
  assumes "root_inv s" "op_ok op s"
  shows "root_inv (run_op op s)"
proof (cases op)
  case (RetainRoot cur)
  with assms show ?thesis
    using root_inv_retain [OF assms(1)]
    by (cases cur) (auto simp: retainGatewayRootWorkAdmissionContinuation_def live_root_def)
next
  case (WaitDrain t)
  with assms show ?thesis by (auto simp: waitForActiveGatewayRootWork_def Let_def root_inv_def)
next
  case (FinishDrainWait w)
  with assms show ?thesis by (auto simp: finish_drain_wait_def Let_def root_inv_def)
qed (use assms root_inv_cong [OF control_op_frame, of op s] in
      \<open>simp_all add: root_inv_turn root_inv_release root_inv_reset\<close>)

interpretation roots: inductive_invariant
  "\<lambda>s. s = admission_init" admission_step root_inv
proof unfold_locales
  fix s :: GatewayWorkAdmissionState
  assume "s = admission_init"
  then show "root_inv s" by (simp add: root_inv_def admission_init_def)
next
  fix s t assume "root_inv s" "admission_step s t"
  then show "root_inv t" by (auto elim!: admission_stepE intro: root_inv_step)
qed

section \<open>Generations\<close>

lemma run_op_suspend_generation:
  "ws_suspendGeneration s < ws_suspendGeneration (run_op op s) \<or>
   ws_suspendGeneration (run_op op s) = ws_suspendGeneration s \<and>
     (ws_suspendPhase s = Accepting \<longrightarrow> ws_suspendPhase (run_op op s) = Accepting)"
proof (cases op)
  case (RetainRoot cur) then show ?thesis
    by (simp add: retainGatewayRootWorkAdmissionContinuation_def Let_def)
next
  case (WaitDrain t) then show ?thesis by (simp add: waitForActiveGatewayRootWork_def Let_def)
next
  case (FinishDrainWait w) then show ?thesis by (simp add: finish_drain_wait_def Let_def)
next
  case MarkDraining then show ?thesis by (auto simp: control_op_defs Let_def)
next
  case BeginSignal then show ?thesis by (auto simp: control_op_defs Let_def)
next
  case (RollbackSignal g) then show ?thesis by (auto simp: control_op_defs Let_def)
next
  case RollbackFence then show ?thesis by (auto simp: control_op_defs Let_def)
next
  case (BeginSuspend c) then show ?thesis by (auto simp: control_op_defs Let_def)
next
  case (CommitSuspend g) then show ?thesis by (auto simp: control_op_defs Let_def)
next
  case (RollbackSuspend g) then show ?thesis by (auto simp: control_op_defs Let_def)
next
  case (ReleaseSuspend g) then show ?thesis by (auto simp: control_op_defs Let_def)
qed (simp_all add: turn_cases wait_for_open_def)

text \<open>A suspension that is over: its generation has passed, or admission is open again.\<close>

definition suspend_over :: "nat \<Rightarrow> GatewayWorkAdmissionState \<Rightarrow> bool" where
  "suspend_over g s \<longleftrightarrow>
     g < ws_suspendGeneration s \<or> ws_suspendGeneration s = g \<and> ws_suspendPhase s = Accepting"

interpretation over: inductive_invariant "suspend_over g" admission_step "suspend_over g" for g
proof unfold_locales
  fix s t assume "suspend_over g s" "admission_step s t"
  then obtain op where "t = run_op op s" by (auto elim: admission_stepE)
  with \<open>suspend_over g s\<close> run_op_suspend_generation [of s op] show "suspend_over g t"
    by (auto simp: suspend_over_def)
qed

lemma suspend_over_dead:
  "suspend_over g s \<Longrightarrow> suspend_commit g s = (False, s) \<and> suspend_rollback g s = (False, s) \<and>
     suspend_release g s = (False, s)"
  by (auto simp: suspend_over_def suspend_commit_def suspend_rollback_def suspend_release_def
      suspend_transition_def)

interpretation suspend_gen: inductive_invariant
  "\<lambda>s. g \<le> ws_suspendGeneration s" admission_step "\<lambda>s. g \<le> ws_suspendGeneration s" for g
proof unfold_locales
  fix s t assume "g \<le> ws_suspendGeneration s" "admission_step s t"
  then obtain op where "t = run_op op s" by (auto elim: admission_stepE)
  with \<open>g \<le> ws_suspendGeneration s\<close> run_op_suspend_generation [of s op]
  show "g \<le> ws_suspendGeneration t" by auto
qed

section \<open>Closed doors\<close>

text \<open>While admission is closed and nobody is active, no root becomes active.\<close>

lemma no_live_root:
  "root_inv s \<Longrightarrow> ws_activeRootWork s = [] \<Longrightarrow>
     case cur of None \<Rightarrow> True | Some a \<Rightarrow> a < length (ws_admissions s) \<Longrightarrow> \<not> live_root s cur"
  by (auto simp: root_inv_def live_root_def split: option.splits)

lemma release_active_subset:
  "set (ws_activeRootWork (release_root_work l s)) \<subseteq> set (ws_activeRootWork s)"
  by (auto simp: release_root_work_def Let_def)

lemma closed_step_quiet:
  assumes "root_inv s" "op_ok op s" "isGatewayWorkAdmissionClosed s" "ws_activeRootWork s = []"
  shows "ws_activeRootWork (run_op op s) = []"
proof -
  note quiet = no_live_root [OF assms(1,4)]
  show ?thesis
  proof (cases op)
    case (BeginRoot cur) then show ?thesis using assms quiet [of cur] by (auto simp: turn_cases)
  next
    case (BeginRootWhenOpen cur) then show ?thesis
      using assms quiet [of cur] by (auto simp: turn_cases wait_for_open_def)
  next
    case BeginIndependent then show ?thesis
      using assms by (auto simp: turn_cases wait_for_open_def)
  next
    case (BeginContinuation cur) then show ?thesis
      using assms quiet [of cur] by (auto simp: turn_cases wait_for_open_def)
  next
    case (RetainRoot cur) then show ?thesis
      using assms by (simp add: retainGatewayRootWorkAdmissionContinuation_def Let_def)
  next
    case (ReleaseRoot l) then show ?thesis using assms release_active_subset [of l s] by simp
  next
    case (WaitDrain t) then show ?thesis
      using assms by (simp add: waitForActiveGatewayRootWork_def)
  next
    case (FinishDrainWait w) then show ?thesis
      using assms by (simp add: finish_drain_wait_def Let_def)
  qed (use assms control_op_frame(1) [of op s] in simp_all)
qed

text \<open>The steps between two resets, and the steps that leave admission closed.\<close>

inductive running_step :: "GatewayWorkAdmissionState \<Rightarrow> GatewayWorkAdmissionState \<Rightarrow> bool" where
  "op \<noteq> Reset \<Longrightarrow> op_ok op s \<Longrightarrow> running_step s (run_op op s)"

inductive closed_step :: "GatewayWorkAdmissionState \<Rightarrow> GatewayWorkAdmissionState \<Rightarrow> bool" where
  "admission_step s t \<Longrightarrow> isGatewayWorkAdmissionClosed t \<Longrightarrow> closed_step s t"

lemma draining_step:
  assumes "ws_restartDraining s" "op \<noteq> Reset"
  shows "ws_restartDraining (run_op op s)"
proof (cases op)
  case (RetainRoot cur) then show ?thesis
    using assms by (simp add: retainGatewayRootWorkAdmissionContinuation_def Let_def)
next
  case (WaitDrain t) then show ?thesis
    using assms by (simp add: waitForActiveGatewayRootWork_def Let_def)
next
  case (FinishDrainWait w) then show ?thesis using assms by (simp add: finish_drain_wait_def Let_def)
qed (use assms in \<open>simp_all add: turn_cases wait_for_open_def control_op_defs Let_def\<close>)

interpretation drained: inductive_invariant
  "\<lambda>s. root_inv s \<and> ws_restartDraining s \<and> ws_activeRootWork s = []" running_step
  "\<lambda>s. root_inv s \<and> ws_restartDraining s \<and> ws_activeRootWork s = []"
proof unfold_locales
  fix s t
  assume *: "root_inv s \<and> ws_restartDraining s \<and> ws_activeRootWork s = []" "running_step s t"
  from *(2) obtain op where op: "op \<noteq> Reset" "op_ok op s" "t = run_op op s"
    by (auto elim: running_step.cases)
  then show "root_inv t \<and> ws_restartDraining t \<and> ws_activeRootWork t = []"
    using * root_inv_step [of s op] draining_step [of s op] closed_step_quiet [of s op]
    by (auto simp: isGatewayWorkAdmissionClosed_def)
qed

interpretation quiet: inductive_invariant
  "\<lambda>s. root_inv s \<and> isGatewayWorkAdmissionClosed s \<and> ws_activeRootWork s = []" closed_step
  "\<lambda>s. root_inv s \<and> isGatewayWorkAdmissionClosed s \<and> ws_activeRootWork s = []"
proof unfold_locales
  fix s t
  assume *: "root_inv s \<and> isGatewayWorkAdmissionClosed s \<and> ws_activeRootWork s = []"
    "closed_step s t"
  from *(2) obtain op where op: "op_ok op s" "t = run_op op s" "isGatewayWorkAdmissionClosed t"
    by (auto elim: closed_step.cases admission_stepE)
  then show "root_inv t \<and> isGatewayWorkAdmissionClosed t \<and> ws_activeRootWork t = []"
    using * root_inv_step [of s op] closed_step_quiet [of s op] by auto
qed

section \<open>Properties\<close>

abbreviation admission_reach :: "GatewayWorkAdmissionState \<Rightarrow> bool" where
  "admission_reach \<equiv> reach (\<lambda>s. s = admission_init) admission_step"

lemma admission_reach_init: "admission_reach admission_init"
  by (rule reach_init) simp

lemma admission_reach_run: "admission_reach s \<Longrightarrow> op_ok op s \<Longrightarrow> admission_reach (run_op op s)"
  by (erule reach_step) (rule admission_step.intros)

text \<open>C8: No wakeup is lost: in every reachable state, nobody waits for an opening while
  admission is open or while a restart drains, and nobody waits for the drain once no root
  work is active.\<close>

theorem no_lost_wakeup:
  assumes "admission_reach s"
  shows "(\<not> isGatewayWorkAdmissionClosed s \<or> ws_restartDraining s \<longrightarrow> ws_suspendOpenWaiters s = []) \<and>
    (ws_activeRootWork s = [] \<longrightarrow> ws_rootDrainWaiters s = [])"
  using control.reach_inv [OF assms] roots.reach_inv [OF assms]
  by (auto simp: control_inv_def root_inv_def)

definition example_waiting :: GatewayWorkAdmissionState where
  "example_waiting = run_op BeginIndependent (run_op (BeginSuspend 7) (run_op (BeginRoot None) admission_init))"

lemma example_waiting_reach: "admission_reach example_waiting"
  unfolding example_waiting_def
  by (intro admission_reach_run admission_reach_init) simp_all

theorem no_lost_wakeup_witness:
  "ws_suspendOpenWaiters (run_op (RollbackSuspend 1) example_waiting) = []"
proof -
  have r: "admission_reach (run_op (RollbackSuspend 1) example_waiting)"
    by (intro admission_reach_run example_waiting_reach) simp
  have "\<not> isGatewayWorkAdmissionClosed (run_op (RollbackSuspend 1) example_waiting)" by code_simp
  with no_lost_wakeup [OF r] show ?thesis by simp
qed

text \<open>A root is active exactly as long as it is not released, and an active root has as many
  references as release closures that have not been called, at least one: a root ends with its
  last lease, however often and in whatever order the leases are released.\<close>

theorem root_references:
  assumes "admission_reach s"
  shows "distinct (ws_activeRootWork s) \<and>
    (a \<in> set (ws_activeRootWork s) \<longleftrightarrow>
       a < length (ws_admissions s) \<and> \<not> ra_released (ws_admissions s ! a)) \<and>
    (a \<in> set (ws_activeRootWork s) \<longrightarrow>
       ra_references (ws_admissions s ! a) = int (open_leases a (ws_releases s)) \<and>
       open_leases a (ws_releases s) > 0)"
  using roots.reach_inv [OF assms] by (auto simp: root_inv_def)

theorem root_references_witness:
  "ra_references (ws_admissions example_waiting ! 0) = int (open_leases 0 (ws_releases example_waiting))"
proof -
  have "0 \<in> set (ws_activeRootWork example_waiting)" by code_simp
  with root_references [OF example_waiting_reach, of 0] show ?thesis by simp
qed

text \<open>A restart drain is one-way: until the runtime is reset it stays on whatever happens,
  and once no root work is active none becomes active again.\<close>

theorem restart_drain_one_way:
  assumes "admission_reach s" "ws_restartDraining s" "ws_activeRootWork s = []"
    and "running_step\<^sup>*\<^sup>* s t"
  shows "ws_restartDraining t \<and> ws_activeRootWork t = []"
  using drained.steps_inv [OF assms(4)] assms(2,3) roots.reach_inv [OF assms(1)] by blast

definition example_drained :: GatewayWorkAdmissionState where
  "example_drained = run_op (ReleaseRoot 0) (run_op MarkDraining example_waiting)"

theorem restart_drain_one_way_witness:
  "ws_activeRootWork (run_op (BeginRootWhenOpen None) example_drained) = []"
proof -
  have "op_ok (ReleaseRoot 0) (run_op MarkDraining example_waiting)" by code_simp
  then have r: "admission_reach example_drained"
    unfolding example_drained_def
    by (intro admission_reach_run example_waiting_reach) simp_all
  have d: "ws_restartDraining example_drained" "ws_activeRootWork example_drained = []"
    by code_simp+
  have "running_step example_drained (run_op (BeginRootWhenOpen None) example_drained)"
    by (rule running_step.intros) simp_all
  then have "running_step\<^sup>*\<^sup>* example_drained (run_op (BeginRootWhenOpen None) example_drained)"
    by (rule r_into_rtranclp)
  from restart_drain_one_way [OF r d this] show ?thesis by simp
qed

text \<open>A closed process without active roots stays quiet: along any steps that leave admission
  closed (a held suspension, a signal fence, a drain), no root work becomes active, not even
  through continuations or retained leases.\<close>

theorem closed_stays_quiet:
  assumes "admission_reach s" "isGatewayWorkAdmissionClosed s" "ws_activeRootWork s = []"
    and "closed_step\<^sup>*\<^sup>* s t"
  shows "ws_activeRootWork t = []"
  using quiet.steps_inv [OF assms(4)] assms(2,3) roots.reach_inv [OF assms(1)] by blast

theorem closed_stays_quiet_witness:
  "ws_activeRootWork (run_op (CommitSuspend 1) (run_op (BeginSuspend 3) admission_init)) = []"
proof -
  let ?s = "run_op (BeginSuspend 3) admission_init"
  have r: "admission_reach ?s"
    by (intro admission_reach_run admission_reach_init) simp_all
  have c: "isGatewayWorkAdmissionClosed ?s" "ws_activeRootWork ?s = []" by code_simp+
  have "isGatewayWorkAdmissionClosed (run_op (CommitSuspend 1) ?s)" by code_simp
  moreover have "admission_step ?s (run_op (CommitSuspend 1) ?s)"
    by (rule admission_step.intros) simp
  ultimately have "closed_step ?s (run_op (CommitSuspend 1) ?s)" by (rule closed_step.intros [rotated])
  then have star: "closed_step\<^sup>*\<^sup>* ?s (run_op (CommitSuspend 1) ?s)" by (rule r_into_rtranclp)
  show ?thesis by (rule closed_stays_quiet [OF r c star])
qed

text \<open>A suspension lease dies with its suspension: once admission has reopened after it, by
  rollback, release, restart drain or reset, none of its operations ever does anything again,
  whoever suspends the process later.\<close>

theorem suspend_lease_dies:
  assumes "tryBeginGatewaySuspendAdmission callback s0 = (Some g, s1)"
    and "admission_step\<^sup>*\<^sup>* s1 s2" "ws_suspendPhase s2 = Accepting" "admission_step\<^sup>*\<^sup>* s2 s3"
  shows "suspend_commit g s3 = (False, s3) \<and> suspend_rollback g s3 = (False, s3) \<and>
    suspend_release g s3 = (False, s3)"
proof -
  have "g \<le> ws_suspendGeneration s1"
    using assms(1) by (auto simp: tryBeginGatewaySuspendAdmission_def Let_def split: if_splits)
  then have "g \<le> ws_suspendGeneration s2" by (rule suspend_gen.steps_inv [OF assms(2)])
  with assms(3) have "suspend_over g s2" by (auto simp: suspend_over_def)
  then have "suspend_over g s3" by (rule over.steps_inv [OF assms(4)])
  then show ?thesis by (rule suspend_over_dead)
qed

theorem suspend_lease_dies_witness:
  "fst (suspend_commit 1 (run_op (BeginSuspend 4) (run_op (RollbackSuspend 1)
     (run_op (BeginSuspend 3) admission_init)))) = False"
proof -
  let ?s1 = "run_op (BeginSuspend 3) admission_init"
  let ?s2 = "run_op (RollbackSuspend 1) ?s1" and ?s3 = "run_op (BeginSuspend 4) (run_op (RollbackSuspend 1) ?s1)"
  have b: "tryBeginGatewaySuspendAdmission 3 admission_init = (Some 1, ?s1)"
    by (simp add: tryBeginGatewaySuspendAdmission_def admission_init_def Let_def)
  have "ws_suspendPhase ?s2 = Accepting" by code_simp
  moreover have "admission_step ?s1 ?s2" "admission_step ?s2 ?s3"
    by (rule admission_step.intros; simp)+
  ultimately show ?thesis
    using suspend_lease_dies [OF b, of ?s2 ?s3] by (simp add: r_into_rtranclp)
qed

end
