(* ===== verification/Number_Coercion.thy ===== *)
theory Number_Coercion
  imports JS_Number
begin

text \<open>
  \<^verbatim>\<open>packages/normalization-core/src/number-coercion.ts\<close> and its facade
  \<^verbatim>\<open>src/shared/number-coercion.ts\<close>: range checks, strict integers, timer delays that
  Node accepts, integer options and expiration timestamps. A value of type
  \<^verbatim>\<open>unknown\<close> is a number, a string or anything else. Decimal
  tokens and ISO formatting follow in Number_Parsing; that a timestamp has an ISO form is that
  \<^verbatim>\<open>Date\<close> accepts it. Arithmetic is exact, which differs from doubles only beyond the safe integers.
\<close>

datatype unknown_value = UNumber jsnum | UString string | UOther

record num_range =
  nr_min :: "jsnum option"
  nr_max :: "jsnum option"

definition asFiniteNumber :: "unknown_value \<Rightarrow> jsnum option" where
  "asFiniteNumber v = (case v of UNumber n \<Rightarrow> if num_isFinite n then Some n else None | _ \<Rightarrow> None)"

definition asFiniteNumberInRange ::
  "unknown_value \<Rightarrow> jsnum option \<Rightarrow> jsnum option \<Rightarrow> bool option \<Rightarrow> bool option \<Rightarrow> jsnum option" where
  "asFiniteNumberInRange v lower upper minExclusive maxExclusive =
     (case asFiniteNumber v of
        None \<Rightarrow> None
      | Some number \<Rightarrow>
          if (case lower of None \<Rightarrow> False
              | Some l \<Rightarrow> if minExclusive = Some True then num_leq number l else num_less number l)
          then None
          else if (case upper of None \<Rightarrow> False
              | Some u \<Rightarrow> if maxExclusive = Some True then num_leq u number else num_less u number)
          then None
          else Some number)"

definition max_safe_integer :: int where
  "max_safe_integer = 9007199254740991"

definition num_isSafeInteger :: "jsnum \<Rightarrow> bool" where
  "num_isSafeInteger n \<longleftrightarrow>
     num_isInteger n \<and> num_leq (num (- max_safe_integer)) n \<and> num_leq n (num max_safe_integer)"

definition asSafeIntegerInRange ::
  "unknown_value \<Rightarrow> jsnum option \<Rightarrow> jsnum option \<Rightarrow> jsnum option" where
  "asSafeIntegerInRange v lower upper =
     (case v of
        UNumber n \<Rightarrow>
          if \<not> num_isSafeInteger n then None
          else if (case lower of None \<Rightarrow> False | Some l \<Rightarrow> num_less n l) then None
          else if (case upper of None \<Rightarrow> False | Some u \<Rightarrow> num_less u n) then None
          else Some n
      | _ \<Rightarrow> None)"

definition normalizeNumericString :: "string \<Rightarrow> string option" where
  "normalizeNumericString s = (let trimmed = js_trim s in if trimmed \<noteq> [] then Some trimmed else None)"

definition is_digit :: "char \<Rightarrow> bool" where
  "is_digit c \<longleftrightarrow> 48 \<le> (of_char c :: nat) \<and> (of_char c :: nat) \<le> 57"

definition digits_value :: "string \<Rightarrow> int" where
  "digits_value ds = foldl (\<lambda>acc c. 10 * acc + (int (of_char c) - 48)) 0 ds"

text \<open>The pattern of an optional sign and at least one digit, and the number it denotes.\<close>

definition integer_token :: "string \<Rightarrow> int option" where
  "integer_token s =
     (let sign = (s \<noteq> [] \<and> (hd s = CHR ''+'' \<or> hd s = CHR ''-''));
          ds = (if sign then tl s else s)
      in if ds \<noteq> [] \<and> list_all is_digit ds
         then Some (if sign \<and> hd s = CHR ''-'' then - digits_value ds else digits_value ds)
         else None)"

definition parseStrictInteger :: "unknown_value \<Rightarrow> jsnum option" where
  "parseStrictInteger v =
     (case v of
        UNumber n \<Rightarrow> if num_isSafeInteger n then Some n else None
      | UOther \<Rightarrow> None
      | UString s \<Rightarrow>
         (case normalizeNumericString s of
            None \<Rightarrow> None
          | Some normalized \<Rightarrow>
             (case integer_token normalized of
                None \<Rightarrow> None
              | Some parsed \<Rightarrow>
                  if num_isSafeInteger (num parsed) then Some (num parsed) else None)))"

definition asPositiveSafeInteger :: "unknown_value \<Rightarrow> jsnum option" where
  "asPositiveSafeInteger v =
     (case v of
        UNumber n \<Rightarrow> if num_isSafeInteger n \<and> num_less (num 0) n then Some n else None
      | _ \<Rightarrow> None)"

section \<open>Timers and timestamps\<close>

definition MAX_TIMER_TIMEOUT_MS :: int where "MAX_TIMER_TIMEOUT_MS = 2147000000"
definition MAX_TIMER_TIMEOUT_SECONDS :: int where
  "MAX_TIMER_TIMEOUT_SECONDS = MAX_TIMER_TIMEOUT_MS div 1000"
definition MAX_DATE_TIMESTAMP_MS :: int where "MAX_DATE_TIMESTAMP_MS = 8640000000000000"

definition asDateTimestampMs :: "unknown_value \<Rightarrow> jsnum option" where
  "asDateTimestampMs v = asFiniteNumberInRange v (Some (num (- MAX_DATE_TIMESTAMP_MS)))
     (Some (num MAX_DATE_TIMESTAMP_MS)) None None"

definition isFutureDateTimestampMs :: "unknown_value \<Rightarrow> jsnum option \<Rightarrow> jsnum \<Rightarrow> bool" where
  "isFutureDateTimestampMs v nowOption dateNow =
     (case (asDateTimestampMs v, asDateTimestampMs (UNumber (coalesce nowOption dateNow))) of
        (Some timestampMs, Some nowMs) \<Rightarrow> num_less nowMs timestampMs
      | _ \<Rightarrow> False)"

definition resolveDateTimestampMs :: "unknown_value \<Rightarrow> unknown_value \<Rightarrow> jsnum" where
  "resolveDateTimestampMs v fallbackValue =
     coalesce (asDateTimestampMs v) (coalesce (asDateTimestampMs fallbackValue) (num 0))"

definition clampTimerTimeoutMs :: "unknown_value \<Rightarrow> jsnum \<Rightarrow> jsnum option" where
  "clampTimerTimeoutMs valueMs minMs =
     (case asFiniteNumber valueMs of
        None \<Rightarrow> None
      | Some n \<Rightarrow>
          let lower = num_max (num 1) (num_floor minMs)
          in Some (num_min (num_max (num_floor n) lower) (num MAX_TIMER_TIMEOUT_MS)))"

definition clampPositiveTimerTimeoutMs :: "unknown_value \<Rightarrow> jsnum option" where
  "clampPositiveTimerTimeoutMs valueMs =
     (case asFiniteNumber valueMs of
        None \<Rightarrow> None
      | Some n \<Rightarrow> if num_leq n (num 0) then None else clampTimerTimeoutMs (UNumber n) (num 1))"

definition resolveTimerTimeoutMs :: "unknown_value \<Rightarrow> jsnum \<Rightarrow> jsnum \<Rightarrow> jsnum" where
  "resolveTimerTimeoutMs valueMs fallbackMs minMs =
     (let lower = num_max (num 0) (num_floor minMs)
      in case coalesce2 (asFiniteNumber valueMs) (asFiniteNumber (UNumber fallbackMs)) of
           None \<Rightarrow> lower
         | Some n \<Rightarrow> num_min (num_max (num_floor n) lower) (num MAX_TIMER_TIMEOUT_MS))"

definition resolvePositiveTimerTimeoutMs :: "unknown_value \<Rightarrow> jsnum \<Rightarrow> jsnum" where
  "resolvePositiveTimerTimeoutMs valueMs fallbackMs =
     coalesce (clampPositiveTimerTimeoutMs valueMs)
       (resolveTimerTimeoutMs (UNumber fallbackMs) (num 1) (num 1))"

definition addTimerTimeoutGraceMs :: "unknown_value \<Rightarrow> unknown_value \<Rightarrow> jsnum option" where
  "addTimerTimeoutGraceMs timeoutMs graceMs =
     (case (asFiniteNumber timeoutMs, asFiniteNumber graceMs) of
        (Some (Fin timeout), Some (Fin grace)) \<Rightarrow>
          clampTimerTimeoutMs (UNumber (Fin (timeout + grace))) (num 1)
      | _ \<Rightarrow> None)"

section \<open>Integer options\<close>

definition resolveIntegerOption ::
  "unknown_value \<Rightarrow> jsnum \<Rightarrow> jsnum option \<Rightarrow> jsnum option \<Rightarrow> jsnum" where
  "resolveIntegerOption v fallback lower upper =
     (let candidate = coalesce (asFiniteNumber v) fallback;
          floored = num_floor candidate;
          minBounded = (case lower of None \<Rightarrow> floored | Some l \<Rightarrow> num_max l floored)
      in case upper of None \<Rightarrow> minBounded | Some u \<Rightarrow> num_min u minBounded)"

definition resolveOptionalIntegerOption ::
  "unknown_value \<Rightarrow> jsnum option \<Rightarrow> jsnum option \<Rightarrow> jsnum option" where
  "resolveOptionalIntegerOption v lower upper =
     (case asFiniteNumber v of
        None \<Rightarrow> None
      | Some n \<Rightarrow> Some (resolveIntegerOption (UNumber n) n lower upper))"

definition resolveNonNegativeIntegerOption :: "unknown_value \<Rightarrow> jsnum \<Rightarrow> jsnum" where
  "resolveNonNegativeIntegerOption v fallback = resolveIntegerOption v fallback (Some (num 0)) None"

definition parseStrictPositiveInteger :: "unknown_value \<Rightarrow> jsnum option" where
  "parseStrictPositiveInteger v =
     (case parseStrictInteger v of
        Some parsed \<Rightarrow> if num_less (num 0) parsed then Some parsed else None
      | None \<Rightarrow> None)"

definition parseStrictNonNegativeInteger :: "unknown_value \<Rightarrow> jsnum option" where
  "parseStrictNonNegativeInteger v =
     (case parseStrictInteger v of
        Some parsed \<Rightarrow> if num_leq (num 0) parsed then Some parsed else None
      | None \<Rightarrow> None)"

section \<open>Durations and expirations\<close>

fun num_add :: "jsnum \<Rightarrow> jsnum \<Rightarrow> jsnum" where
  "num_add (Fin a) (Fin b) = Fin (a + b)"
| "num_add NaN _ = NaN" | "num_add _ NaN = NaN"
| "num_add PosInf NegInf = NaN" | "num_add NegInf PosInf = NaN"
| "num_add PosInf _ = PosInf" | "num_add _ PosInf = PosInf"
| "num_add NegInf _ = NegInf" | "num_add _ NegInf = NegInf"

fun num_neg :: "jsnum \<Rightarrow> jsnum" where
  "num_neg (Fin a) = Fin (- a)" | "num_neg PosInf = NegInf" | "num_neg NegInf = PosInf"
| "num_neg NaN = NaN"

fun num_thousand :: "jsnum \<Rightarrow> jsnum" where
  "num_thousand (Fin a) = Fin (a * 1000)" | "num_thousand x = x"

definition positiveSecondsToSafeMilliseconds :: "unknown_value \<Rightarrow> jsnum option" where
  "positiveSecondsToSafeMilliseconds v =
     (case parseStrictPositiveInteger v of
        None \<Rightarrow> None
      | Some seconds \<Rightarrow>
          if num_isSafeInteger (num_thousand seconds) then Some (num_thousand seconds) else None)"

definition nonNegativeSecondsToSafeMilliseconds :: "unknown_value \<Rightarrow> jsnum option" where
  "nonNegativeSecondsToSafeMilliseconds v =
     (case parseStrictNonNegativeInteger v of
        None \<Rightarrow> None
      | Some seconds \<Rightarrow>
          if num_isSafeInteger (num_thousand seconds) then Some (num_thousand seconds) else None)"

definition valid_expiry :: "jsnum \<Rightarrow> bool" where
  "valid_expiry n \<longleftrightarrow> num_isSafeInteger n \<and> asDateTimestampMs (UNumber n) \<noteq> None"

definition resolveExpiresAtMsFromDurationMs ::
  "unknown_value \<Rightarrow> jsnum option \<Rightarrow> jsnum option \<Rightarrow> jsnum option \<Rightarrow> jsnum \<Rightarrow> jsnum option" where
  "resolveExpiresAtMsFromDurationMs v nowOption bufferOption minRemaining dateNow =
     (case asPositiveSafeInteger v of
        None \<Rightarrow> None
      | Some durationMs \<Rightarrow>
         (case (asDateTimestampMs (UNumber (coalesce nowOption dateNow)),
                asFiniteNumber (UNumber (coalesce bufferOption (num 0)))) of
            (Some nowMs, Some bufferMs) \<Rightarrow>
              let expiresAt = num_add (num_add nowMs durationMs) (num_neg bufferMs)
              in if \<not> valid_expiry expiresAt then None
                 else
                  (case minRemaining of
                     None \<Rightarrow> Some expiresAt
                   | Some minRemainingMs \<Rightarrow>
                       let minExpiresAt = num_add nowMs minRemainingMs
                       in if \<not> valid_expiry minExpiresAt then Some expiresAt
                          else Some (num_max expiresAt minExpiresAt))
          | _ \<Rightarrow> None))"

definition resolveExpiresAtMsFromDurationSeconds ::
  "unknown_value \<Rightarrow> jsnum option \<Rightarrow> jsnum option \<Rightarrow> jsnum option \<Rightarrow> jsnum \<Rightarrow> jsnum option" where
  "resolveExpiresAtMsFromDurationSeconds v nowOption bufferOption minRemaining dateNow =
     (case positiveSecondsToSafeMilliseconds v of
        None \<Rightarrow> None
      | Some durationMs \<Rightarrow> resolveExpiresAtMsFromDurationMs (UNumber durationMs) nowOption
          bufferOption minRemaining dateNow)"

fun num_trunc :: "jsnum \<Rightarrow> jsnum" where
  "num_trunc (Fin q) = (if q < 0 then Fin (of_int \<lceil>q\<rceil>) else Fin (of_int \<lfloor>q\<rfloor>))"
| "num_trunc x = x"

definition resolveExpiresAtMsFromEpochSeconds ::
  "unknown_value \<Rightarrow> jsnum option \<Rightarrow> jsnum option \<Rightarrow> jsnum option" where
  "resolveExpiresAtMsFromEpochSeconds v bufferOption maxOption =
     (let epoch =
            (case v of
               UNumber n \<Rightarrow>
                 if num_isFinite n \<and> num_less (num 0) n then Some (num_thousand (num_trunc n))
                 else positiveSecondsToSafeMilliseconds v
             | _ \<Rightarrow> positiveSecondsToSafeMilliseconds v)
      in case epoch of
           None \<Rightarrow> None
         | Some epochMs \<Rightarrow>
             let expiresAt = num_add epochMs (num_neg (coalesce bufferOption (num 0)))
             in if \<not> valid_expiry expiresAt then None
                else
                 (case maxOption of
                    None \<Rightarrow> Some expiresAt
                  | Some maxMs \<Rightarrow> if num_leq expiresAt maxMs then Some expiresAt else None))"

definition resolveExpiresAtMsFromDurationOrEpoch ::
  "unknown_value \<Rightarrow> jsnum option \<Rightarrow> jsnum option \<Rightarrow> jsnum option \<Rightarrow> jsnum \<Rightarrow> jsnum option" where
  "resolveExpiresAtMsFromDurationOrEpoch v nowOption relativeThreshold absoluteThreshold dateNow =
     (case parseStrictPositiveInteger v of
        None \<Rightarrow> None
      | Some parsed \<Rightarrow>
          if num_less parsed (coalesce relativeThreshold (num 1000000000))
          then resolveExpiresAtMsFromDurationSeconds (UNumber parsed) nowOption None None dateNow
          else if num_less parsed (coalesce absoluteThreshold (num 1000000000000))
          then resolveExpiresAtMsFromEpochSeconds (UNumber parsed) None None
          else asDateTimestampMs (UNumber parsed))"

text \<open>The facade's own function.\<close>

definition resolveNonNegativeNumber :: "jsnum option \<Rightarrow> jsnum option" where
  "resolveNonNegativeNumber v =
     (case v of
        None \<Rightarrow> None
      | Some n \<Rightarrow> if num_isFinite n \<and> num_leq (num 0) n then Some n else None)"

section \<open>Lemmas\<close>

lemma asFiniteNumber_eq_Some: "asFiniteNumber v = Some n \<longleftrightarrow> (\<exists>q. v = UNumber (Fin q) \<and> n = Fin q)"
  by (cases v) (auto simp: asFiniteNumber_def num_isFinite_iff)

lemma asFiniteNumber_Fin [simp]: "asFiniteNumber (UNumber (Fin q)) = Some (Fin q)"
  by (simp add: asFiniteNumber_eq_Some)

lemma clampTimer_Fin:
  "clampTimerTimeoutMs (UNumber (Fin q)) (num m) =
     Some (num (min (max \<lfloor>q\<rfloor> (max 1 m)) MAX_TIMER_TIMEOUT_MS))"
  by (simp add: clampTimerTimeoutMs_def Let_def MAX_TIMER_TIMEOUT_MS_def)

lemma clampPositive_eq:
  "clampPositiveTimerTimeoutMs v = Some n \<longleftrightarrow>
     (\<exists>q. v = UNumber (Fin q) \<and> q > 0 \<and> n = num (min (max \<lfloor>q\<rfloor> 1) MAX_TIMER_TIMEOUT_MS))"
  using clampTimer_Fin [of _ 1]
  by (auto simp: clampPositiveTimerTimeoutMs_def asFiniteNumber_eq_Some num_leq_def
      split: option.splits)

lemma clampPositive_range:
  "clampPositiveTimerTimeoutMs v = Some n \<Longrightarrow>
     \<exists>k. n = num k \<and> 1 \<le> k \<and> k \<le> MAX_TIMER_TIMEOUT_MS"
  unfolding clampPositive_eq
  by (elim exE conjE, rule exI, intro conjI, assumption) (auto simp: MAX_TIMER_TIMEOUT_MS_def)

lemma resolveTimer_Fin:
  "resolveTimerTimeoutMs v (Fin f) (Fin m) =
     num (min (max \<lfloor>case v of UNumber (Fin q) \<Rightarrow> q | _ \<Rightarrow> f\<rfloor> (max 0 \<lfloor>m\<rfloor>)) MAX_TIMER_TIMEOUT_MS)"
  by (cases v; cases "case v of UNumber n \<Rightarrow> n | _ \<Rightarrow> NaN")
     (auto simp: resolveTimerTimeoutMs_def asFiniteNumber_def Let_def)

lemma resolveIntegerOption_Fin:
  "resolveIntegerOption v (Fin f) lower upper =
     (let k = \<lfloor>case v of UNumber (Fin q) \<Rightarrow> q | _ \<Rightarrow> f\<rfloor>;
          m = (case lower of None \<Rightarrow> num k | Some l \<Rightarrow> num_max l (num k))
      in case upper of None \<Rightarrow> m | Some u \<Rightarrow> num_min u m)"
  by (cases v; cases "case v of UNumber n \<Rightarrow> n | _ \<Rightarrow> NaN")
     (auto simp: resolveIntegerOption_def asFiniteNumber_def Let_def split: option.split)

lemma digits_value_append: "digits_value (ds @ [c]) = 10 * digits_value ds + (int (of_char c) - 48)"
  by (simp add: digits_value_def)

lemma digit_char: "d < 10 \<Longrightarrow> of_char (char_of (48 + d) :: char) = (48 + d :: nat)"
  by (simp add: of_char_of)

lemma decimal_digits_ok:
  "decimal_digits n \<noteq> [] \<and> list_all is_digit (decimal_digits n) \<and>
     digits_value (decimal_digits n) = int n"
proof (induction n rule: decimal_digits.induct)
  case (1 n)
  show ?case
  proof (cases "n < 10")
    case True
    then show ?thesis
      by (simp add: decimal_digits.simps [of n] is_digit_def digit_char digits_value_def)
  next
    case False
    then have "decimal_digits n = decimal_digits (n div 10) @ [char_of (48 + n mod 10)]"
      by (simp add: decimal_digits.simps [of n])
    moreover have "n mod 10 < 10" by simp
    moreover have "int n = 10 * int (n div 10) + int (n mod 10)" by (simp add: zdiv_int zmod_int)
    ultimately show ?thesis
      using 1 False by (simp add: is_digit_def digit_char digits_value_append)
  qed
qed

lemma digit_not_sign: "is_digit c \<Longrightarrow> c \<noteq> CHR ''+'' \<and> c \<noteq> CHR ''-'' \<and> \<not> js_white_space c"
  by (auto simp: is_digit_def js_white_space_def)

lemma integer_token_string: "integer_token (js_string_of_int i) = Some i"
proof -
  have "hd (decimal_digits n) \<noteq> CHR ''+'' \<and> hd (decimal_digits n) \<noteq> CHR ''-''" for n
    using decimal_digits_ok [of n] digit_not_sign by (cases "decimal_digits n") auto
  then show ?thesis
    using decimal_digits_ok by (simp add: integer_token_def js_string_of_int_def Let_def)
qed

lemma js_trim_no_space:
  assumes "list_all (\<lambda>c. \<not> js_white_space c) s"
  shows "js_trim s = s"
proof -
  have "dropWhile js_white_space s = s" "dropWhile js_white_space (rev s) = rev s"
    using assms by (auto intro!: dropWhile_head simp: list_all_iff hd_rev)
  then show ?thesis by (simp add: js_trim_def)
qed

lemma int_string_no_space: "list_all (\<lambda>c. \<not> js_white_space c) (js_string_of_int i)"
proof -
  have "list_all (\<lambda>c. \<not> js_white_space c) (decimal_digits n)" for n
    using decimal_digits_ok [of n] digit_not_sign by (auto simp: list_all_iff)
  then show ?thesis by (simp add: js_string_of_int_def js_white_space_def)
qed

lemma safe_num: "num_isSafeInteger (num i) \<longleftrightarrow> \<bar>i\<bar> \<le> max_safe_integer"
  by (auto simp: num_isSafeInteger_def num_isInteger_def num_leq_def
      simp flip: of_int_minus)

section \<open>Properties\<close>

text \<open>Every timer delay the coercions produce is a whole number of milliseconds that Node's
  timers accept: at least one and at most the bound for a positive timeout, and between the
  (rounded) minimum and the bound for a timeout with a finite fallback.\<close>

theorem timer_delays_safe:
  "(case clampPositiveTimerTimeoutMs v of
      None \<Rightarrow> True | Some n \<Rightarrow> (\<exists>k. n = num k \<and> 1 \<le> k \<and> k \<le> MAX_TIMER_TIMEOUT_MS)) \<and>
   (\<exists>k. resolveTimerTimeoutMs v (Fin f) (Fin m) = num k \<and> 0 \<le> k \<and>
      min \<lfloor>m\<rfloor> MAX_TIMER_TIMEOUT_MS \<le> k \<and> k \<le> MAX_TIMER_TIMEOUT_MS)"
proof -
  have "\<exists>k. resolveTimerTimeoutMs v (Fin f) (Fin m) = num k \<and> 0 \<le> k \<and>
      min \<lfloor>m\<rfloor> MAX_TIMER_TIMEOUT_MS \<le> k \<and> k \<le> MAX_TIMER_TIMEOUT_MS"
    unfolding resolveTimer_Fin
    by (rule exI, intro conjI, rule refl) (auto simp: MAX_TIMER_TIMEOUT_MS_def)
  then show ?thesis using clampPositive_range [of v] by (auto split: option.split)
qed

text \<open>An integer option is an integer within its bounds whatever value was configured, and it
  is the configured value itself when that is an integer within the bounds.\<close>

theorem integer_option_bounded:
  assumes "l \<le> u"
  shows "(\<exists>k. resolveIntegerOption v (Fin f) (Some (num l)) (Some (num u)) = num k \<and> l \<le> k \<and> k \<le> u) \<and>
    (l \<le> i \<and> i \<le> u \<longrightarrow>
       resolveIntegerOption (UNumber (num i)) (Fin f) (Some (num l)) (Some (num u)) = num i)"
proof -
  have "\<exists>k. num_min (num u) (num_max (num l) (num j)) = num k \<and> l \<le> k \<and> k \<le> u" for j
    by (rule exI [of _ "min u (max l j)"]) (use assms in auto)
  moreover have "num_min (num u) (num_max (num l) (num i)) = num i" if "l \<le> i" "i \<le> u"
    using that by simp
  ultimately show ?thesis by (auto simp: resolveIntegerOption_Fin Let_def)
qed

theorem integer_option_bounded_witness:
  "\<exists>k. resolveIntegerOption (UNumber (Fin (7 / 2))) (Fin 5) (Some (num 1)) (Some (num 10)) = num k \<and>
     1 \<le> k \<and> k \<le> 10"
  using integer_option_bounded [of 1 10 "UNumber (Fin (7 / 2))" 5 0] by simp

text \<open>Strict integer parsing reads back every safe integer that was printed, and rejects the
  ones beyond.\<close>

theorem strict_integer_roundtrip:
  "parseStrictInteger (UString (js_string_of_int i)) =
     (if \<bar>i\<bar> \<le> max_safe_integer then Some (num i) else None)"
proof -
  have "js_string_of_int i \<noteq> []"
    using decimal_digits_ok by (simp add: js_string_of_int_def)
  then show ?thesis
    using js_trim_no_space [OF int_string_no_space, of i]
    by (simp add: parseStrictInteger_def normalizeNumericString_def integer_token_string safe_num
        Let_def)
qed

text \<open>A resolved expiration is always a safe integer that \<^verbatim>\<open>Date\<close> accepts, and with a
  valid minimum remaining time it lies at least that far after now.\<close>

theorem expires_at_valid:
  assumes "resolveExpiresAtMsFromDurationMs v (Some (num now)) buffer minRemaining dateNow = Some e"
  shows "valid_expiry e \<and>
    (\<exists>k. e = num k \<and> (\<forall>m. minRemaining = Some (num m) \<longrightarrow> valid_expiry (num (now + m)) \<longrightarrow> now + m \<le> k))"
proof -
  have max_valid: "valid_expiry (num_max a b)" if "valid_expiry a" "valid_expiry b" for a b
    using that by (auto simp: num_max_def valid_expiry_def num_isSafeInteger_def num_leq_def)
  have int: "\<exists>k. a = num k" if "valid_expiry a" for a
    using that by (cases a)
      (auto simp: valid_expiry_def num_isSafeInteger_def num_isInteger_def intro: sym)
  obtain d b where e: "let x = num_add (num_add (num now) d) (num_neg b)
      in valid_expiry x \<and> (case minRemaining of None \<Rightarrow> e = x
        | Some m \<Rightarrow> e = (if valid_expiry (num_add (num now) m)
            then num_max x (num_add (num now) m) else x))"
    using assms
    by (auto simp: resolveExpiresAtMsFromDurationMs_def asDateTimestampMs_def
        asFiniteNumberInRange_def Let_def split: option.splits if_splits)
  then have valid: "valid_expiry e"
    by (auto simp: Let_def max_valid split: option.splits if_splits)
  then obtain k where k: "e = num k" using int by blast
  have "now + m \<le> k" if mr: "minRemaining = Some (num m)" and vm: "valid_expiry (num (now + m))" for m
  proof -
    let ?x = "num_add (num_add (num now) d) (num_neg b)"
    have x: "valid_expiry ?x" "e = num_max ?x (num (now + m))"
      using e [unfolded Let_def] vm by (simp_all add: mr)
    from int [OF x(1)] obtain j where "?x = num j" by blast
    with x k have "Fin (of_int k) = Fin (max (of_int j) (of_int (now + m)))" by simp
    then have "k = max j (now + m)" by (simp del: of_int_add of_int_max flip: of_int_max)
    then show ?thesis by simp
  qed
  with valid k show ?thesis by blast
qed

theorem expires_at_valid_witness: "valid_expiry (num 1700000060000)"
proof -
  have "resolveExpiresAtMsFromDurationMs (UNumber (num 60000)) (Some (num 1700000000000)) None None
      NaN = Some (num 1700000060000)"
    by code_simp
  from expires_at_valid [OF this] show ?thesis by simp
qed

end
