(* ===== verification/Command_Queue.thy ===== *)
theory Command_Queue
  imports Work_Admission Number_Coercion
begin

text \<open>
  \<^verbatim>\<open>src/process/command-queue.ts\<close> (with \<^verbatim>\<open>command-queue.types.ts\<close> and
  \<^verbatim>\<open>lanes.ts\<close>): named lanes that run queued commands by priority under a concurrency
  limit, with generations that make completions of reset lanes stale.

  An entry is its number \<open>qe_id\<close>, which stands for its task, its promise and its callbacks. The
  async closures in flight are \<open>cq_running\<close>. Calls to the outside (starting a task, the wait
  callback, settling an entry's promise or a waiter's) are appended to \<open>cq_effects\<close>; the
  diagnostics log is left out. Callbacks do not reenter the queue. The current time is the
  argument \<open>now\<close>.
\<close>

section \<open>State\<close>

record QueueEntry =
  qe_id :: nat
  qe_enqueuedAt :: int
  qe_sequence :: nat
  qe_priority :: int
  qe_warnAfterMs :: jsnum
  qe_queuedAheadAtEnqueue :: nat
  qe_activeAheadAtEnqueue :: nat
  qe_taskTimeoutMs :: "jsnum option"
  qe_taskTimeoutAbortGraceMs :: "jsnum option"
  qe_onWait :: bool

record LaneState =
  la_lane :: string
  la_queue :: "QueueEntry list"
  la_activeTaskIds :: "nat list"
  la_maxConcurrent :: jsnum
  la_draining :: bool
  la_generation :: nat

record CommandLaneSnapshot =
  sn_lane :: string
  sn_queuedCount :: nat
  sn_activeCount :: nat
  sn_maxConcurrent :: jsnum
  sn_draining :: bool
  sn_generation :: nat

record ActiveTaskWaiter =
  aw_id :: nat
  aw_activeTaskIds :: "nat list"
  aw_timeout :: "jsnum option"

record RunningTask =
  rt_taskId :: nat
  rt_lane :: string
  rt_generation :: nat
  rt_entry :: nat

datatype settlement = TaskResolved | TaskRejected | LaneCleared | GatewayDraining

datatype queue_effect =
    TaskStarted nat nat | OnWait nat int nat | EntrySettled nat settlement | WaiterResolved nat bool

record CommandQueueState =
  cq_lanes :: "(string, LaneState) jsmap"
  cq_activeTaskWaiters :: "ActiveTaskWaiter list"
  cq_nextTaskId :: nat
  cq_nextQueueSequence :: nat
  cq_running :: "RunningTask list"
  cq_admission :: GatewayWorkAdmissionState
  cq_nextEntry :: nat
  cq_nextWaiter :: nat
  cq_effects :: "queue_effect list"

definition queue_init :: "GatewayWorkAdmissionState \<Rightarrow> CommandQueueState" where
  "queue_init admission =
     \<lparr>cq_lanes = [], cq_activeTaskWaiters = [], cq_nextTaskId = 1, cq_nextQueueSequence = 1,
      cq_running = [], cq_admission = admission, cq_nextEntry = 0, cq_nextWaiter = 0,
      cq_effects = []\<rparr>"

definition report :: "queue_effect list \<Rightarrow> CommandQueueState \<Rightarrow> CommandQueueState" where
  "report es s = s\<lparr>cq_effects := cq_effects s @ es\<rparr>"

section \<open>Lanes\<close>

definition isQuietProbeLane :: "string \<Rightarrow> bool" where
  "isQuietProbeLane lane \<longleftrightarrow>
     js_startsWith lane ''auth-probe:'' \<or> js_startsWith lane ''session:probe-'' \<or>
     js_startsWith lane ''session:temp:setup-inference:probe-setup-inference-''"

definition CommandLane_Main :: string where "CommandLane_Main = ''main''"

definition normalizeLane :: "string \<Rightarrow> string" where
  "normalizeLane lane = (if js_trim lane = [] then CommandLane_Main else js_trim lane)"

definition getLaneDepth :: "LaneState \<Rightarrow> nat" where
  "getLaneDepth st = length (la_queue st) + length (la_activeTaskIds st)"

definition createCommandLaneSnapshot :: "LaneState \<Rightarrow> CommandLaneSnapshot" where
  "createCommandLaneSnapshot st =
     \<lparr>sn_lane = la_lane st, sn_queuedCount = length (la_queue st),
      sn_activeCount = length (la_activeTaskIds st), sn_maxConcurrent = la_maxConcurrent st,
      sn_draining = la_draining st, sn_generation = la_generation st\<rparr>"

definition created_lane :: "string \<Rightarrow> LaneState" where
  "created_lane lane = \<lparr>la_lane = lane, la_queue = [], la_activeTaskIds = [], la_maxConcurrent = num 1,
     la_draining = False, la_generation = 0\<rparr>"

text \<open>\<^verbatim>\<open>getLaneState\<close> as the state in which the lane exists; \<open>lane_of\<close> reads it.\<close>

definition lane_of :: "string \<Rightarrow> CommandQueueState \<Rightarrow> LaneState" where
  "lane_of lane s = coalesce (map_get (cq_lanes s) lane) (created_lane lane)"

definition put_lane :: "string \<Rightarrow> LaneState \<Rightarrow> CommandQueueState \<Rightarrow> CommandQueueState" where
  "put_lane lane st s = s\<lparr>cq_lanes := map_put lane st (cq_lanes s)\<rparr>"

definition getLaneState :: "string \<Rightarrow> CommandQueueState \<Rightarrow> CommandQueueState" where
  "getLaneState lane s =
     (case map_get (cq_lanes s) lane of
        Some _ \<Rightarrow> s
      | None \<Rightarrow> put_lane lane (created_lane lane) s)"

definition completeTask :: "LaneState \<Rightarrow> nat \<Rightarrow> nat \<Rightarrow> bool \<times> LaneState" where
  "completeTask st taskId taskGeneration =
     (if taskGeneration \<noteq> la_generation st then (False, st)
      else (True, st\<lparr>la_activeTaskIds := filter (\<lambda>i. i \<noteq> taskId) (la_activeTaskIds st)\<rparr>))"

section \<open>Waiters\<close>

definition hasPendingActiveTasks :: "nat list \<Rightarrow> CommandQueueState \<Rightarrow> bool" where
  "hasPendingActiveTasks taskIds s \<longleftrightarrow>
     list_ex (\<lambda>(_, st). list_ex (\<lambda>taskId. taskId \<in> set taskIds) (la_activeTaskIds st)) (cq_lanes s)"

definition resolveActiveTaskWaiter ::
  "ActiveTaskWaiter \<Rightarrow> bool \<Rightarrow> CommandQueueState \<Rightarrow> CommandQueueState" where
  "resolveActiveTaskWaiter waiter drained s =
     (if waiter \<notin> set (cq_activeTaskWaiters s) then s
      else report [WaiterResolved (aw_id waiter) drained]
        (s\<lparr>cq_activeTaskWaiters := filter (\<lambda>w. w \<noteq> waiter) (cq_activeTaskWaiters s)\<rparr>))"

definition notifyActiveTaskWaiters :: "CommandQueueState \<Rightarrow> CommandQueueState" where
  "notifyActiveTaskWaiters s =
     foldl (\<lambda>s waiter.
         if length (aw_activeTaskIds waiter) = 0 \<or> \<not> hasPendingActiveTasks (aw_activeTaskIds waiter) s
         then resolveActiveTaskWaiter waiter True s else s)
       s (cq_activeTaskWaiters s)"

section \<open>Enqueueing\<close>

definition normalizeTaskTimeoutMs :: "jsnum option \<Rightarrow> jsnum option" where
  "normalizeTaskTimeoutMs v =
     (case v of
        None \<Rightarrow> None
      | Some n \<Rightarrow> if \<not> num_isFinite n \<or> num_leq n (num 0) then None
                  else clampPositiveTimerTimeoutMs (UNumber n))"

datatype QueuePriority = Foreground | NormalPriority | Background

definition resolveQueuePriority :: "QueuePriority option \<Rightarrow> int" where
  "resolveQueuePriority priority =
     (case priority of Some Foreground \<Rightarrow> 1 | Some Background \<Rightarrow> -1 | _ \<Rightarrow> 0)"

text \<open>Whether the new entry goes in front of a queued one, and the place it gets.\<close>

definition goes_before :: "QueueEntry \<Rightarrow> QueueEntry \<Rightarrow> bool" where
  "goes_before entry queued \<longleftrightarrow>
     qe_priority queued < qe_priority entry \<or>
     qe_priority queued = qe_priority entry \<and> qe_sequence queued > qe_sequence entry"

fun insert_at :: "QueueEntry \<Rightarrow> QueueEntry list \<Rightarrow> nat" where
  "insert_at entry [] = 0"
| "insert_at entry (queued # q) = (if goes_before entry queued then 0 else Suc (insert_at entry q))"

definition enqueueLaneEntry :: "LaneState \<Rightarrow> QueueEntry \<Rightarrow> LaneState" where
  "enqueueLaneEntry st entry =
     (let insertAt = insert_at entry (la_queue st);
          entry = entry\<lparr>qe_queuedAheadAtEnqueue := insertAt,
                        qe_activeAheadAtEnqueue := length (la_activeTaskIds st)\<rparr>
      in st\<lparr>la_queue := take insertAt (la_queue st) @ entry # drop insertAt (la_queue st)\<rparr>)"

section \<open>Draining a lane\<close>

text \<open>The loop of \<^verbatim>\<open>pump\<close>: active ids, what is left of the queue, the next task id, and the
  entries started with their task ids.\<close>

definition has_room :: "nat \<Rightarrow> jsnum \<Rightarrow> bool" where
  "has_room active maxConcurrent = num_less (num (int active)) maxConcurrent"

fun pump_queue ::
  "jsnum \<Rightarrow> nat \<Rightarrow> nat list \<Rightarrow> QueueEntry list \<Rightarrow>
     nat list \<times> QueueEntry list \<times> nat \<times> (nat \<times> QueueEntry) list" where
  "pump_queue maxConcurrent next active [] = (active, [], next, [])"
| "pump_queue maxConcurrent next active (entry # queue) =
     (if has_room (length active) maxConcurrent then
        let (active', queue', next', started) =
              pump_queue maxConcurrent (next + 1) (set_add active next) queue
        in (active', queue', next', (next, entry) # started)
      else (active, entry # queue, next, []))"

definition start_effects :: "int \<Rightarrow> nat \<times> QueueEntry \<Rightarrow> queue_effect list" where
  "start_effects now = (\<lambda>(taskId, entry).
     (let waitedMs = now - qe_enqueuedAt entry
      in if num_leq (qe_warnAfterMs entry) (num waitedMs) \<and> qe_onWait entry
         then [OnWait (qe_id entry) waitedMs (qe_queuedAheadAtEnqueue entry)] else []) @
     [TaskStarted (qe_id entry) taskId])"

definition pump :: "int \<Rightarrow> string \<Rightarrow> CommandQueueState \<Rightarrow> CommandQueueState" where
  "pump now lane s =
     (let st = lane_of lane s;
          (active, queue, next, started) =
            pump_queue (la_maxConcurrent st) (cq_nextTaskId s) (la_activeTaskIds st) (la_queue st);
          s = put_lane lane
                (st\<lparr>la_activeTaskIds := active, la_queue := queue, la_draining := False\<rparr>) s
      in report (concat (map (start_effects now) started))
           (s\<lparr>cq_nextTaskId := next,
              cq_running := cq_running s @ map (\<lambda>(taskId, entry).
                \<lparr>rt_taskId = taskId, rt_lane = lane, rt_generation = la_generation st,
                 rt_entry = qe_id entry\<rparr>) started\<rparr>))"

definition drainLane :: "int \<Rightarrow> string \<Rightarrow> CommandQueueState \<Rightarrow> CommandQueueState" where
  "drainLane now lane s =
     (let s = getLaneState lane s
      in if la_draining (lane_of lane s) then s
         else pump now lane (put_lane lane ((lane_of lane s)\<lparr>la_draining := True\<rparr>) s))"

text \<open>The end of one async task closure: a completion of the current generation frees the slot,
  notifies the waiters and pumps; the entry settles in any case.\<close>

definition finish_task :: "int \<Rightarrow> RunningTask \<Rightarrow> bool \<Rightarrow> CommandQueueState \<Rightarrow> CommandQueueState" where
  "finish_task now task ok s =
     (let (completedCurrentGeneration, st) =
            completeTask (lane_of (rt_lane task) s) (rt_taskId task) (rt_generation task);
          s = s\<lparr>cq_running := filter (\<lambda>t. t \<noteq> task) (cq_running s)\<rparr>;
          s = (if completedCurrentGeneration
               then pump now (rt_lane task) (notifyActiveTaskWaiters (put_lane (rt_lane task) st s))
               else s)
      in report [EntrySettled (rt_entry task) (if ok then TaskResolved else TaskRejected)] s)"

section \<open>Operations\<close>

record EnqueueOptions =
  eo_warnAfterMs :: "jsnum option"
  eo_onWait :: bool
  eo_taskTimeoutMs :: "jsnum option"
  eo_taskTimeoutAbortGraceMs :: "jsnum option"
  eo_priority :: "QueuePriority option"

definition setCommandLaneConcurrency ::
  "int \<Rightarrow> string \<Rightarrow> jsnum \<Rightarrow> CommandQueueState \<Rightarrow> CommandQueueState" where
  "setCommandLaneConcurrency now lane maxConcurrent s =
     (let cleaned = normalizeLane lane;
          s = getLaneState cleaned s;
          minConcurrent = (if isQuietProbeLane cleaned then num 1 else num 0);
          m = num_max minConcurrent (num_floor maxConcurrent);
          s = put_lane cleaned ((lane_of cleaned s)\<lparr>la_maxConcurrent := m\<rparr>) s
      in if num_less (num 0) m then drainLane now cleaned s else s)"

definition new_entry :: "int \<Rightarrow> EnqueueOptions \<Rightarrow> CommandQueueState \<Rightarrow> QueueEntry" where
  "new_entry now opts s =
     \<lparr>qe_id = cq_nextEntry s, qe_enqueuedAt = now, qe_sequence = cq_nextQueueSequence s,
      qe_priority = resolveQueuePriority (eo_priority opts),
      qe_warnAfterMs = coalesce (eo_warnAfterMs opts) (num 2000),
      qe_queuedAheadAtEnqueue = 0, qe_activeAheadAtEnqueue = 0,
      qe_taskTimeoutMs = normalizeTaskTimeoutMs (eo_taskTimeoutMs opts),
      qe_taskTimeoutAbortGraceMs = normalizeTaskTimeoutMs (eo_taskTimeoutAbortGraceMs opts),
      qe_onWait = eo_onWait opts\<rparr>"

definition enqueueCommandInLane ::
  "nat option \<Rightarrow> int \<Rightarrow> string \<Rightarrow> EnqueueOptions \<Rightarrow> CommandQueueState \<Rightarrow> CommandQueueState" where
  "enqueueCommandInLane cur now lane opts s =
     (if isGatewaySubordinateWorkAdmissionClosed cur (cq_admission s)
      then report [EntrySettled (cq_nextEntry s) GatewayDraining]
             (s\<lparr>cq_nextEntry := cq_nextEntry s + 1\<rparr>)
      else
        let cleaned = normalizeLane lane;
            s = getLaneState cleaned s;
            entry = new_entry now opts s;
            s = s\<lparr>cq_nextQueueSequence := cq_nextQueueSequence s + 1,
                  cq_nextEntry := cq_nextEntry s + 1\<rparr>
        in drainLane now cleaned
             (put_lane cleaned (enqueueLaneEntry (lane_of cleaned s) entry) s))"

definition clearCommandLane :: "string \<Rightarrow> CommandQueueState \<Rightarrow> nat \<times> CommandQueueState" where
  "clearCommandLane lane s =
     (let cleaned = normalizeLane lane
      in case map_get (cq_lanes s) cleaned of
           None \<Rightarrow> (0, s)
         | Some st \<Rightarrow>
             (length (la_queue st),
              report (map (\<lambda>entry. EntrySettled (qe_id entry) LaneCleared) (la_queue st))
                (put_lane cleaned (st\<lparr>la_queue := []\<rparr>) s)))"

definition idle_lane :: "LaneState \<Rightarrow> LaneState" where
  "idle_lane st = st\<lparr>la_generation := la_generation st + 1, la_activeTaskIds := [],
     la_draining := False\<rparr>"

definition resetCommandLane :: "int \<Rightarrow> string \<Rightarrow> CommandQueueState \<Rightarrow> nat \<times> CommandQueueState" where
  "resetCommandLane now lane s =
     (let cleaned = normalizeLane lane
      in case map_get (cq_lanes s) cleaned of
           None \<Rightarrow> (0, s)
         | Some st \<Rightarrow>
             (let s = put_lane cleaned (idle_lane st) s;
                  s = (if length (la_queue st) > 0 then drainLane now cleaned s else s)
              in (length (la_activeTaskIds st), notifyActiveTaskWaiters s)))"

definition resetAllLanes :: "int \<Rightarrow> CommandQueueState \<Rightarrow> CommandQueueState" where
  "resetAllLanes now s =
     (let s = s\<lparr>cq_admission := resetGatewayWorkAdmission (cq_admission s)\<rparr>;
          lanesToDrain = map la_lane (filter (\<lambda>st. length (la_queue st) > 0) (map snd (cq_lanes s)));
          s = s\<lparr>cq_lanes := map (\<lambda>(k, st). (k, idle_lane st)) (cq_lanes s)\<rparr>;
          s = foldl (\<lambda>s lane. drainLane now lane s) s lanesToDrain
      in notifyActiveTaskWaiters s)"

definition markGatewayDraining :: "CommandQueueState \<Rightarrow> CommandQueueState" where
  "markGatewayDraining s = s\<lparr>cq_admission := markGatewayRestartDraining (cq_admission s)\<rparr>"

definition waitForActiveTasks ::
  "jsnum option \<Rightarrow> CommandQueueState \<Rightarrow> bool option \<times> CommandQueueState" where
  "waitForActiveTasks timeoutMs s =
     (let activeAtStart = js_set (concat (map (la_activeTaskIds \<circ> snd) (cq_lanes s)))
      in if length activeAtStart = 0 then (Some True, s)
         else if (case timeoutMs of None \<Rightarrow> False | Some t \<Rightarrow> num_leq t (num 0)) then (Some False, s)
         else
           (None, notifyActiveTaskWaiters (s\<lparr>cq_activeTaskWaiters := cq_activeTaskWaiters s @
              [\<lparr>aw_id = cq_nextWaiter s, aw_activeTaskIds = activeAtStart, aw_timeout = timeoutMs\<rparr>],
              cq_nextWaiter := cq_nextWaiter s + 1\<rparr>)))"

section \<open>Queries\<close>

definition isGatewayDraining :: "CommandQueueState \<Rightarrow> bool" where
  "isGatewayDraining s = isGatewayWorkAdmissionClosed (cq_admission s)"

definition getQueueSize :: "string \<Rightarrow> CommandQueueState \<Rightarrow> nat" where
  "getQueueSize lane s =
     (case map_get (cq_lanes s) (normalizeLane lane) of None \<Rightarrow> 0 | Some st \<Rightarrow> getLaneDepth st)"

definition getCommandLaneSnapshot :: "string \<Rightarrow> CommandQueueState \<Rightarrow> CommandLaneSnapshot" where
  "getCommandLaneSnapshot lane s =
     (let resolved = normalizeLane lane
      in case map_get (cq_lanes s) resolved of
           None \<Rightarrow> \<lparr>sn_lane = resolved, sn_queuedCount = 0, sn_activeCount = 0,
             sn_maxConcurrent = num 1, sn_draining = False, sn_generation = 0\<rparr>
         | Some st \<Rightarrow> createCommandLaneSnapshot st)"

definition getCommandLaneActiveTaskIds :: "string \<Rightarrow> CommandQueueState \<Rightarrow> nat list" where
  "getCommandLaneActiveTaskIds lane s =
     (case map_get (cq_lanes s) (normalizeLane lane) of None \<Rightarrow> [] | Some st \<Rightarrow> la_activeTaskIds st)"

definition getCommandLaneSnapshots ::
  "(string \<Rightarrow> string \<Rightarrow> int) \<Rightarrow> CommandQueueState \<Rightarrow> CommandLaneSnapshot list" where
  "getCommandLaneSnapshots localeCompare s =
     js_toSorted (\<lambda>a b. localeCompare (sn_lane a) (sn_lane b))
       (map (createCommandLaneSnapshot \<circ> snd) (cq_lanes s))"

definition getTotalQueueSize :: "CommandQueueState \<Rightarrow> nat" where
  "getTotalQueueSize s = foldl (\<lambda>total (_, st). total + getLaneDepth st) 0 (cq_lanes s)"

definition getActiveTaskCount :: "CommandQueueState \<Rightarrow> nat" where
  "getActiveTaskCount s = foldl (\<lambda>total (_, st). total + length (la_activeTaskIds st)) 0 (cq_lanes s)"

section \<open>The component as a transition system\<close>

datatype queue_op =
    SetConcurrency int string jsnum
  | Enqueue "nat option" int string EnqueueOptions
  | FinishTask int RunningTask bool
  | ClearLane string | ResetLane int string | ResetAllLanes int
  | MarkGatewayDraining | WaitForActive "jsnum option" | WaiterTimeout ActiveTaskWaiter
  | AdmissionOp admission_op

fun queue_op_ok :: "queue_op \<Rightarrow> CommandQueueState \<Rightarrow> bool" where
  "queue_op_ok (FinishTask _ task _) s = (task \<in> set (cq_running s))"
| "queue_op_ok _ s = True"

fun run_queue_op :: "queue_op \<Rightarrow> CommandQueueState \<Rightarrow> CommandQueueState" where
  "run_queue_op (SetConcurrency now lane m) s = setCommandLaneConcurrency now lane m s"
| "run_queue_op (Enqueue cur now lane opts) s = enqueueCommandInLane cur now lane opts s"
| "run_queue_op (FinishTask now task ok) s = finish_task now task ok s"
| "run_queue_op (ClearLane lane) s = snd (clearCommandLane lane s)"
| "run_queue_op (ResetLane now lane) s = snd (resetCommandLane now lane s)"
| "run_queue_op (ResetAllLanes now) s = resetAllLanes now s"
| "run_queue_op MarkGatewayDraining s = markGatewayDraining s"
| "run_queue_op (WaitForActive t) s = snd (waitForActiveTasks t s)"
| "run_queue_op (WaiterTimeout w) s = resolveActiveTaskWaiter w False s"
| "run_queue_op (AdmissionOp op) s = s\<lparr>cq_admission := run_op op (cq_admission s)\<rparr>"

inductive queue_step :: "CommandQueueState \<Rightarrow> CommandQueueState \<Rightarrow> bool" where
  "queue_op_ok op s \<Longrightarrow> queue_step s (run_queue_op op s)"

inductive_cases queue_stepE: "queue_step s t"

section \<open>The order of a queue\<close>

definition runs_before :: "QueueEntry \<Rightarrow> QueueEntry \<Rightarrow> bool" where
  "runs_before a b \<longleftrightarrow>
     qe_priority a > qe_priority b \<or> qe_priority a = qe_priority b \<and> qe_sequence a < qe_sequence b"

lemma runs_before_trans: "runs_before a b \<Longrightarrow> runs_before b c \<Longrightarrow> runs_before a c"
  by (auto simp: runs_before_def)

lemma goes_before_iff: "goes_before entry queued \<longleftrightarrow> runs_before entry queued"
  by (auto simp: goes_before_def runs_before_def)

lemma not_goes_before:
  "\<not> goes_before entry queued \<Longrightarrow> qe_sequence queued \<noteq> qe_sequence entry \<Longrightarrow> runs_before queued entry"
  by (auto simp: goes_before_def runs_before_def)

lemma insert_at_le: "insert_at entry q \<le> length q"
  by (induction q) auto

lemma insert_at_take: "x \<in> set (take (insert_at entry q) q) \<Longrightarrow> \<not> goes_before entry x"
  by (induction q) (auto split: if_splits)

lemma insert_at_drop:
  "sorted_wrt runs_before q \<Longrightarrow> x \<in> set (drop (insert_at entry q) q) \<Longrightarrow> goes_before entry x"
  by (induction q) (auto simp: goes_before_iff split: if_splits intro: runs_before_trans)

definition enqueued :: "LaneState \<Rightarrow> QueueEntry \<Rightarrow> QueueEntry" where
  "enqueued st entry = entry\<lparr>qe_queuedAheadAtEnqueue := insert_at entry (la_queue st),
     qe_activeAheadAtEnqueue := length (la_activeTaskIds st)\<rparr>"

lemma enqueueLaneEntry_queue:
  "la_queue (enqueueLaneEntry st entry) =
     take (insert_at entry (la_queue st)) (la_queue st) @ enqueued st entry #
     drop (insert_at entry (la_queue st)) (la_queue st)"
  by (simp add: enqueueLaneEntry_def enqueued_def Let_def)

lemma enqueued_sel [simp]:
  "qe_id (enqueued st e) = qe_id e" "qe_sequence (enqueued st e) = qe_sequence e"
  "qe_priority (enqueued st e) = qe_priority e"
  by (simp_all add: enqueued_def)

lemma enqueueLaneEntry_sel [simp]:
  "la_lane (enqueueLaneEntry st e) = la_lane st"
  "la_activeTaskIds (enqueueLaneEntry st e) = la_activeTaskIds st"
  "la_maxConcurrent (enqueueLaneEntry st e) = la_maxConcurrent st"
  "la_draining (enqueueLaneEntry st e) = la_draining st"
  "la_generation (enqueueLaneEntry st e) = la_generation st"
  by (simp_all add: enqueueLaneEntry_def Let_def)

lemma set_enqueueLaneEntry:
  "set (la_queue (enqueueLaneEntry st e)) = insert (enqueued st e) (set (la_queue st))"
  unfolding enqueueLaneEntry_queue
  by (metis append_take_drop_id list.simps(15) set_append Un_insert_right)

lemma mset_enqueueLaneEntry:
  "mset (la_queue (enqueueLaneEntry st e)) = add_mset (enqueued st e) (mset (la_queue st))"
proof -
  let ?i = "insert_at e (la_queue st)" and ?q = "la_queue st"
  have "mset (take ?i ?q @ enqueued st e # drop ?i ?q) =
      add_mset (enqueued st e) (mset (take ?i ?q @ drop ?i ?q))"
    by (simp del: append_take_drop_id)
  then show ?thesis by (simp add: enqueueLaneEntry_queue)
qed

lemma enqueue_sorted:
  assumes sorted: "sorted_wrt runs_before (la_queue st)"
    and fresh: "\<forall>q \<in> set (la_queue st). qe_sequence q \<noteq> qe_sequence entry"
  shows "sorted_wrt runs_before (la_queue (enqueueLaneEntry st entry))"
proof -
  let ?q = "la_queue st" and ?i = "insert_at entry (la_queue st)"
  have before: "runs_before x entry" if "x \<in> set (take ?i ?q)" for x
    using insert_at_take [OF that] fresh that by (auto intro!: not_goes_before dest: in_set_takeD)
  have after: "runs_before entry x" if "x \<in> set (drop ?i ?q)" for x
    using insert_at_drop [OF sorted that] by (simp add: goes_before_iff)
  have same: "runs_before (enqueued st entry) x = runs_before entry x"
    "runs_before x (enqueued st entry) = runs_before x entry" for x
    by (simp_all add: runs_before_def)
  have "sorted_wrt runs_before (take ?i ?q @ drop ?i ?q)" using sorted by simp
  then show ?thesis
    unfolding enqueueLaneEntry_queue sorted_wrt_append
    using before after by (auto simp: same intro: runs_before_trans)
qed

section \<open>Pumping\<close>

definition max_ok :: "jsnum \<Rightarrow> bool" where
  "max_ok m \<longleftrightarrow> m = NaN \<or> m = PosInf \<or> (\<exists>k. m = num k)"

definition within_limit :: "nat \<Rightarrow> jsnum \<Rightarrow> bool" where
  "within_limit active maxConcurrent = num_leq (num (int active)) maxConcurrent"

lemma has_room_Suc: "max_ok m \<Longrightarrow> has_room n m \<Longrightarrow> within_limit (Suc n) m"
  by (auto simp: max_ok_def has_room_def within_limit_def num_leq_def simp flip: of_int_add)

lemma within_limit_mono: "within_limit n m \<Longrightarrow> k \<le> n \<Longrightarrow> within_limit k m"
  by (cases m) (auto simp: within_limit_def num_leq_def)

lemma pump_queue_spec:
  "pump_queue m n active q = (active', q', n', started) \<Longrightarrow> \<forall>i \<in> set active. i < n \<Longrightarrow>
     q = map snd started @ q' \<and> n' = n + length started \<and> map fst started = [n..<n'] \<and>
     active' = active @ [n..<n'] \<and> (q' = [] \<or> \<not> has_room (length active') m) \<and>
     (started \<noteq> [] \<longrightarrow> max_ok m \<longrightarrow> within_limit (length active') m)"
proof (induction m n active q arbitrary: active' q' n' started rule: pump_queue.induct)
  case (2 m n active e q)
  show ?case
  proof (cases "has_room (length active) m")
    case False
    with "2.prems" show ?thesis by auto
  next
    case True
    obtain a1 q1 n1 s1 where r: "pump_queue m (n + 1) (set_add active n) q = (a1, q1, n1, s1)"
      by (cases "pump_queue m (n + 1) (set_add active n) q") auto
    with "2.prems"(1) True have eq: "active' = a1" "q' = q1" "n' = n1" "started = (n, e) # s1"
      by auto
    have add: "set_add active n = active @ [n]" using "2.prems"(2) by (auto simp: set_add_def)
    have "\<forall>i \<in> set (set_add active n). i < n + 1" using "2.prems"(2) by (auto simp: less_Suc_eq)
    from "2.IH" [OF True r this] have ih: "q = map snd s1 @ q1" "n1 = n + 1 + length s1"
      "map fst s1 = [n + 1..<n1]" "a1 = active @ n # [n + 1..<n1]"
      "q1 = [] \<or> \<not> has_room (length a1) m"
      "s1 \<noteq> [] \<longrightarrow> max_ok m \<longrightarrow> within_limit (length a1) m"
      by (auto simp add: add)
    have "n < n1" using ih(2) by simp
    then have upt: "n # [n + 1..<n1] = [n..<n1]" by (simp add: upt_conv_Cons del: upt_Suc)
    have "max_ok m \<Longrightarrow> within_limit (length a1) m"
      using ih(2,4,6) has_room_Suc [OF _ True] by (cases "s1 = []") auto
    moreover have "a1 = active @ [n..<n1]" "map fst ((n, e) # s1) = [n..<n1]"
      using ih(3,4) upt by (simp_all del: upt_Suc)
    ultimately show ?thesis using eq ih(1,2,5) by (simp del: upt_Suc)
  qed
qed simp

section \<open>Frames of the building blocks\<close>

lemma report_sel [simp]:
  "cq_lanes (report e s) = cq_lanes s" "cq_activeTaskWaiters (report e s) = cq_activeTaskWaiters s"
  "cq_nextTaskId (report e s) = cq_nextTaskId s"
  "cq_nextQueueSequence (report e s) = cq_nextQueueSequence s"
  "cq_running (report e s) = cq_running s" "cq_admission (report e s) = cq_admission s"
  "cq_nextEntry (report e s) = cq_nextEntry s" "cq_nextWaiter (report e s) = cq_nextWaiter s"
  "cq_effects (report e s) = cq_effects s @ e"
  by (simp_all add: report_def)

lemma put_lane_sel [simp]:
  "cq_lanes (put_lane k st s) = map_put k st (cq_lanes s)"
  "cq_activeTaskWaiters (put_lane k st s) = cq_activeTaskWaiters s"
  "cq_nextTaskId (put_lane k st s) = cq_nextTaskId s"
  "cq_nextQueueSequence (put_lane k st s) = cq_nextQueueSequence s"
  "cq_running (put_lane k st s) = cq_running s" "cq_admission (put_lane k st s) = cq_admission s"
  "cq_nextEntry (put_lane k st s) = cq_nextEntry s" "cq_nextWaiter (put_lane k st s) = cq_nextWaiter s"
  "cq_effects (put_lane k st s) = cq_effects s"
  by (simp_all add: put_lane_def)

lemma lane_of_put [simp]: "lane_of k (put_lane k st s) = st"
  by (simp add: lane_of_def)

lemma lane_of_update [simp]:
  "lane_of k (s\<lparr>cq_nextQueueSequence := a, cq_nextEntry := b\<rparr>) = lane_of k s"
  "lane_of k (s\<lparr>cq_running := r\<rparr>) = lane_of k s"
  by (simp_all add: lane_of_def)

lemma lane_of_lane_get: "map_get (cq_lanes s) k = Some st \<Longrightarrow> lane_of k s = st"
  by (simp add: lane_of_def)

text \<open>Resolving waiters touches only the waiters.\<close>

definition waiter_frame :: "CommandQueueState \<Rightarrow> CommandQueueState \<Rightarrow> bool" where
  "waiter_frame s t \<longleftrightarrow>
     cq_lanes t = cq_lanes s \<and> cq_nextTaskId t = cq_nextTaskId s \<and>
     cq_nextQueueSequence t = cq_nextQueueSequence s \<and> cq_running t = cq_running s \<and>
     cq_admission t = cq_admission s \<and> cq_nextEntry t = cq_nextEntry s \<and>
     cq_nextWaiter t = cq_nextWaiter s \<and>
     (\<exists>e. cq_effects t = cq_effects s @ e \<and> (\<forall>x \<in> set e. \<exists>w b. x = WaiterResolved w b))"

lemma waiter_frame_refl [simp]: "waiter_frame s s"
  by (simp add: waiter_frame_def)

lemma waiter_frame_trans: "waiter_frame s t \<Longrightarrow> waiter_frame t u \<Longrightarrow> waiter_frame s u"
  by (auto simp: waiter_frame_def)

lemma waiter_frame_resolve: "waiter_frame s (resolveActiveTaskWaiter w d s)"
  by (auto simp: resolveActiveTaskWaiter_def waiter_frame_def)

lemma waiter_frame_notify: "waiter_frame s (notifyActiveTaskWaiters s)"
proof -
  have "waiter_frame s (foldl (\<lambda>s waiter.
      if length (aw_activeTaskIds waiter) = 0 \<or> \<not> hasPendingActiveTasks (aw_activeTaskIds waiter) s
      then resolveActiveTaskWaiter waiter True s else s) t ws)" if "waiter_frame s t" for t ws
    using that
  proof (induction ws arbitrary: t)
    case (Cons w ws)
    have "waiter_frame s (resolveActiveTaskWaiter w True t)"
      using Cons.prems waiter_frame_resolve by (rule waiter_frame_trans)
    with Cons show ?case by simp
  qed simp
  then show ?thesis by (simp add: notifyActiveTaskWaiters_def)
qed

definition waiter_pending :: "CommandQueueState \<Rightarrow> ActiveTaskWaiter \<Rightarrow> bool" where
  "waiter_pending s w \<longleftrightarrow> aw_activeTaskIds w \<noteq> [] \<and> hasPendingActiveTasks (aw_activeTaskIds w) s"

lemma hasPending_cong: "cq_lanes t = cq_lanes s \<Longrightarrow> hasPendingActiveTasks i t = hasPendingActiveTasks i s"
  by (simp add: hasPendingActiveTasks_def)

lemma notify_waiters:
  "cq_activeTaskWaiters (notifyActiveTaskWaiters s) =
     filter (waiter_pending s) (cq_activeTaskWaiters s)"
proof -
  let ?f = "\<lambda>s waiter.
      if length (aw_activeTaskIds waiter) = 0 \<or> \<not> hasPendingActiveTasks (aw_activeTaskIds waiter) s
      then resolveActiveTaskWaiter waiter True s else s"
  have "cq_activeTaskWaiters (foldl ?f t ws) =
      filter (\<lambda>w. w \<in> set ws \<longrightarrow> waiter_pending s w) (cq_activeTaskWaiters t)"
    if "waiter_frame s t" for t ws
    using that
  proof (induction ws arbitrary: t)
    case (Cons w ws)
    let ?t = "?f t w"
    have "waiter_frame s ?t"
      using Cons.prems by (auto intro: waiter_frame_trans waiter_frame_resolve)
    moreover have "hasPendingActiveTasks i t = hasPendingActiveTasks i s" for i
      using Cons.prems by (intro hasPending_cong) (simp add: waiter_frame_def)
    then have "cq_activeTaskWaiters ?t =
        filter (\<lambda>v. v = w \<longrightarrow> waiter_pending s v) (cq_activeTaskWaiters t)"
      by (auto simp: waiter_pending_def resolveActiveTaskWaiter_def filter_id_conv intro!: filter_cong
          intro: filter_True [symmetric])
    ultimately show ?case using Cons.IH [of ?t] by (auto intro!: filter_cong)
  qed simp
  from this [OF waiter_frame_refl, of "cq_activeTaskWaiters s"] show ?thesis
    by (auto simp: notifyActiveTaskWaiters_def intro!: filter_cong)
qed

section \<open>The invariant\<close>

definition active_of :: "RunningTask list \<Rightarrow> string \<Rightarrow> nat \<Rightarrow> nat set" where
  "active_of running k g = rt_taskId ` {t \<in> set running. rt_lane t = k \<and> rt_generation t = g}"

definition lane_inv :: "RunningTask list \<Rightarrow> nat \<Rightarrow> string \<Rightarrow> LaneState \<Rightarrow> bool" where
  "lane_inv running nextSeq k st \<longleftrightarrow>
     la_lane st = k \<and> sorted_wrt runs_before (la_queue st) \<and>
     (\<forall>e \<in> set (la_queue st). qe_sequence e < nextSeq) \<and>
     distinct (la_activeTaskIds st) \<and>
     set (la_activeTaskIds st) = active_of running k (la_generation st) \<and>
     (\<forall>t \<in> set running. rt_lane t = k \<longrightarrow> rt_generation t \<le> la_generation st) \<and>
     max_ok (la_maxConcurrent st)"

definition running_inv :: "CommandQueueState \<Rightarrow> bool" where
  "running_inv s \<longleftrightarrow>
     distinct (map rt_taskId (cq_running s)) \<and>
     (\<forall>t \<in> set (cq_running s). rt_taskId t < cq_nextTaskId s \<and> map_has (cq_lanes s) (rt_lane t))"

definition queue_base :: "CommandQueueState \<Rightarrow> bool" where
  "queue_base s \<longleftrightarrow>
     map_ok (cq_lanes s) \<and> running_inv s \<and>
     (\<forall>k st. map_get (cq_lanes s) k = Some st \<longrightarrow>
        lane_inv (cq_running s) (cq_nextQueueSequence s) k st)"

text \<open>A lane at rest: no drain under way, and no queued entry while there is room.\<close>

definition lane_settled :: "LaneState \<Rightarrow> bool" where
  "lane_settled st \<longleftrightarrow>
     \<not> la_draining st \<and> (la_queue st = [] \<or> \<not> has_room (length (la_activeTaskIds st)) (la_maxConcurrent st))"

definition all_settled :: "CommandQueueState \<Rightarrow> bool" where
  "all_settled s \<longleftrightarrow> (\<forall>k st. map_get (cq_lanes s) k = Some st \<longrightarrow> lane_settled st)"

text \<open>The entries queued, running and settled.\<close>

definition lane_entries :: "LaneState \<Rightarrow> nat list" where
  "lane_entries st = map qe_id (la_queue st)"

definition queued_entries :: "CommandQueueState \<Rightarrow> nat list" where
  "queued_entries s = concat (map (lane_entries \<circ> snd) (cq_lanes s))"

definition settled_entries :: "CommandQueueState \<Rightarrow> nat list" where
  "settled_entries s =
     concat (map (\<lambda>e. case e of EntrySettled i _ \<Rightarrow> [i] | _ \<Rightarrow> []) (cq_effects s))"

definition entry_mset :: "CommandQueueState \<Rightarrow> nat multiset" where
  "entry_mset s = mset (queued_entries s) + mset (map rt_entry (cq_running s)) +
     mset (settled_entries s)"

definition entries_conserved :: "CommandQueueState \<Rightarrow> bool" where
  "entries_conserved s \<longleftrightarrow> entry_mset s = mset [0..<cq_nextEntry s]"

lemma map_has_put [simp]: "map_has (map_put k v m) j \<longleftrightarrow> j = k \<or> map_has m j"
  by (simp add: map_has_get)

lemma mset_queued_put:
  assumes "map_ok (cq_lanes s)" "map_get (cq_lanes s) k = Some st"
  shows "mset (concat (map (lane_entries \<circ> snd) (map_put k st' (cq_lanes s)))) + mset (lane_entries st) =
    mset (queued_entries s) + mset (lane_entries st')"
proof -
  obtain m1 m2 where "cq_lanes s = m1 @ (k, st) # m2"
    "\<forall>w. map_put k w (cq_lanes s) = m1 @ (k, w) # m2"
    using map_put_split [OF assms] by blast
  then show ?thesis by (simp add: queued_entries_def)
qed

lemma mset_queued_put_same:
  assumes "map_ok (cq_lanes s)" "map_get (cq_lanes s) k = Some st"
    and "mset (lane_entries st') = mset (lane_entries st)"
  shows "mset (concat (map (lane_entries \<circ> snd) (map_put k st' (cq_lanes s)))) = mset (queued_entries s)"
  using mset_queued_put [OF assms(1,2), of st'] assms(3) by simp

section \<open>Pumping keeps the invariant\<close>

definition started_task :: "string \<Rightarrow> nat \<Rightarrow> nat \<times> QueueEntry \<Rightarrow> RunningTask" where
  "started_task lane g = (\<lambda>(taskId, entry).
     \<lparr>rt_taskId = taskId, rt_lane = lane, rt_generation = g, rt_entry = qe_id entry\<rparr>)"

lemma started_task_sel [simp]:
  "rt_taskId (started_task l g p) = fst p" "rt_lane (started_task l g p) = l"
  "rt_generation (started_task l g p) = g" "rt_entry (started_task l g p) = qe_id (snd p)"
  by (simp_all add: started_task_def split: prod.split)

text \<open>Pumping a lane that exists: what changes.\<close>

definition pumped :: "string \<Rightarrow> LaneState \<Rightarrow> (nat \<times> QueueEntry) list \<Rightarrow> QueueEntry list \<Rightarrow>
    CommandQueueState \<Rightarrow> CommandQueueState \<Rightarrow> bool" where
  "pumped k st started q s t \<longleftrightarrow>
     (let n = cq_nextTaskId s; n' = n + length started in
      la_queue st = map snd started @ q \<and> map fst started = [n..<n'] \<and>
      cq_lanes t = map_put k (st\<lparr>la_activeTaskIds := la_activeTaskIds st @ [n..<n'], la_queue := q,
        la_draining := False\<rparr>) (cq_lanes s) \<and>
      cq_nextTaskId t = n' \<and>
      cq_running t = cq_running s @ map (started_task k (la_generation st)) started \<and>
      cq_nextQueueSequence t = cq_nextQueueSequence s \<and> cq_nextEntry t = cq_nextEntry s \<and>
      cq_activeTaskWaiters t = cq_activeTaskWaiters s \<and> cq_admission t = cq_admission s \<and>
      settled_entries t = settled_entries s \<and>
      (q = [] \<or> \<not> has_room (length (la_activeTaskIds st) + length started) (la_maxConcurrent st)) \<and>
      (started \<noteq> [] \<longrightarrow> max_ok (la_maxConcurrent st) \<longrightarrow>
         within_limit (length (la_activeTaskIds st) + length started) (la_maxConcurrent st)))"

lemma start_effects_unsettled:
  "concat (map (\<lambda>e. case e of EntrySettled i _ \<Rightarrow> [i] | _ \<Rightarrow> []) (concat (map (start_effects now) started))) = []"
proof (induction started)
  case (Cons p ps) then show ?case by (cases p) (simp add: start_effects_def Let_def)
qed simp

lemma pump_pumped:
  assumes "map_get (cq_lanes s) k = Some st" "\<forall>i \<in> set (la_activeTaskIds st). i < cq_nextTaskId s"
  shows "\<exists>started q. pumped k st started q s (pump now k s)"
proof -
  obtain a q n' started where r: "pump_queue (la_maxConcurrent st) (cq_nextTaskId s)
      (la_activeTaskIds st) (la_queue st) = (a, q, n', started)"
    using prod_cases4 by blast
  note spec = pump_queue_spec [OF r assms(2)]
  have st: "lane_of k s = st" by (rule lane_of_lane_get [OF assms(1)])
  have p: "pump now k s = report (concat (map (start_effects now) started))
      ((put_lane k (st\<lparr>la_activeTaskIds := a, la_queue := q, la_draining := False\<rparr>) s)
        \<lparr>cq_nextTaskId := n',
         cq_running := cq_running s @ map (started_task k (la_generation st)) started\<rparr>)"
    by (simp add: pump_def st r Let_def started_task_def)
  have "pumped k st started q s (pump now k s)"
    unfolding pumped_def Let_def p
    by (intro conjI) (use spec in \<open>auto simp: settled_entries_def start_effects_unsettled
        simp del: upt_Suc\<close>)
  then show ?thesis by blast
qed

lemma lane_inv_active:
  "running_inv s \<Longrightarrow> lane_inv (cq_running s) ns k st \<Longrightarrow>
     \<forall>i \<in> set (la_activeTaskIds st). i < cq_nextTaskId s"
  by (auto simp: running_inv_def lane_inv_def active_of_def)

lemma active_of_append:
  "active_of (rs @ map (started_task k g) started) j h =
     active_of rs j h \<union> (if j = k \<and> h = g then set (map fst started) else {})"
proof -
  have "{t \<in> set (rs @ map (started_task k g) started). rt_lane t = j \<and> rt_generation t = h} =
      {t \<in> set rs. rt_lane t = j \<and> rt_generation t = h} \<union>
      (if j = k \<and> h = g then started_task k g ` set started else {})"
    by auto
  then show ?thesis by (simp add: active_of_def image_Un image_image)
qed

text \<open>\<open>queue_base\<close> is stated of the lane as it is before the pump, which may be draining.\<close>

lemma pumped_base:
  assumes base: "queue_base s" and st: "map_get (cq_lanes s) k = Some st"
    and p: "pumped k st started q s t"
  shows "queue_base t" and "\<exists>st'. map_get (cq_lanes t) k = Some st' \<and> lane_settled st'"
    and "j \<noteq> k \<Longrightarrow> map_get (cq_lanes t) j = map_get (cq_lanes s) j"
    and "entry_mset t = entry_mset s"
proof -
  let ?n = "cq_nextTaskId s"
  let ?n' = "?n + length started"
  let ?st = "st\<lparr>la_activeTaskIds := la_activeTaskIds st @ [?n..<?n'], la_queue := q, la_draining := False\<rparr>"
  have inv: "lane_inv (cq_running s) (cq_nextQueueSequence s) k st" and run: "running_inv s"
    and ok: "map_ok (cq_lanes s)"
    using base st by (auto simp: queue_base_def)
  note active = lane_inv_active [OF run inv]
  have fst: "map fst started = [?n..<?n']" and queue: "la_queue st = map snd started @ q"
    using p by (simp_all add: pumped_def Let_def)
  have running: "cq_running t = cq_running s @ map (started_task k (la_generation st)) started"
    and lanes: "cq_lanes t = map_put k ?st (cq_lanes s)" and next_id: "cq_nextTaskId t = ?n'"
    and seq: "cq_nextQueueSequence t = cq_nextQueueSequence s"
    using p by (simp_all add: pumped_def Let_def)
  have new: "lane_inv (cq_running t) (cq_nextQueueSequence t) k ?st"
    using inv active fst queue
    by (auto simp: lane_inv_def running seq active_of_append sorted_wrt_append simp del: upt_Suc)
  have other: "lane_inv (cq_running t) (cq_nextQueueSequence t) j st'"
    if "j \<noteq> k" "map_get (cq_lanes s) j = Some st'" for j st'
  proof -
    have "lane_inv (cq_running s) (cq_nextQueueSequence s) j st'"
      using base that(2) by (simp add: queue_base_def)
    then show ?thesis using that(1) by (auto simp: lane_inv_def running seq active_of_append)
  qed
  have ids: "fst ` set started = {?n..<?n'}"
    using arg_cong [OF fst, of set] by simp
  then have "a < ?n'" if "(a, b) \<in> set started" for a b
    using that by (metis atLeastLessThan_iff fst_conv imageI)
  moreover have "distinct (map fst started)" using fst by simp
  ultimately have "running_inv t"
    using run st ids
    by (auto simp: running_inv_def running lanes next_id map_has_get comp_def)
  with new other ok show "queue_base t" by (auto simp: queue_base_def lanes)
  show "\<exists>st'. map_get (cq_lanes t) k = Some st' \<and> lane_settled st'"
    using p by (auto simp: lanes lane_settled_def pumped_def Let_def)
  show "j \<noteq> k \<Longrightarrow> map_get (cq_lanes t) j = map_get (cq_lanes s) j" by (simp add: lanes)
  have "mset (queued_entries t) + mset (map qe_id (la_queue st)) = mset (queued_entries s) + mset (map qe_id q)"
    using mset_queued_put [OF ok st, of ?st] by (simp add: queued_entries_def lanes lane_entries_def)
  then have "mset (queued_entries t) + mset (map (qe_id \<circ> snd) started) = mset (queued_entries s)"
    using queue by simp
  then show "entry_mset t = entry_mset s"
    using p by (simp add: entry_mset_def running pumped_def Let_def comp_def ac_simps)
qed

section \<open>Draining keeps the invariant\<close>

definition active_ids :: "CommandQueueState \<Rightarrow> nat set" where
  "active_ids s = (\<Union>(k, st) \<in> set (cq_lanes s). set (la_activeTaskIds st))"

lemma hasPending_iff: "hasPendingActiveTasks ids s \<longleftrightarrow> (\<exists>i \<in> set ids. i \<in> active_ids s)"
  by (auto simp: hasPendingActiveTasks_def active_ids_def list_ex_iff)

lemma active_ids_get:
  "map_ok (cq_lanes s) \<Longrightarrow>
     i \<in> active_ids s \<longleftrightarrow> (\<exists>k st. map_get (cq_lanes s) k = Some st \<and> i \<in> set (la_activeTaskIds st))"
  by (auto simp: active_ids_def dest: map_get_in_ok map_get_Some_in)

text \<open>\<open>t\<close> is \<open>s\<close> with lane \<open>k\<close> drained.\<close>

definition drained_lane :: "string \<Rightarrow> CommandQueueState \<Rightarrow> CommandQueueState \<Rightarrow> bool" where
  "drained_lane k s t \<longleftrightarrow>
     queue_base t \<and> (\<exists>st. map_get (cq_lanes t) k = Some st \<and> lane_settled st) \<and>
     (\<forall>j. j \<noteq> k \<longrightarrow> map_get (cq_lanes t) j = map_get (cq_lanes s) j) \<and>
     entry_mset t = entry_mset s \<and> cq_nextEntry t = cq_nextEntry s \<and>
     cq_activeTaskWaiters t = cq_activeTaskWaiters s \<and> active_ids s \<subseteq> active_ids t"

lemma put_lane_base:
  assumes "queue_base s" "lane_inv (cq_running s) (cq_nextQueueSequence s) k st"
  shows "queue_base (put_lane k st s)"
  using assms by (auto simp: queue_base_def running_inv_def)

lemma pump_drained:
  assumes "queue_base s" "map_get (cq_lanes s) k = Some st"
  shows "drained_lane k s (pump now k s)"
proof -
  have inv: "running_inv s" "lane_inv (cq_running s) (cq_nextQueueSequence s) k st"
    using assms by (auto simp: queue_base_def)
  obtain started q where p: "pumped k st started q s (pump now k s)"
    using pump_pumped [OF assms(2) lane_inv_active [OF inv]] by blast
  note base = pumped_base [OF assms p]
  have "active_ids s \<subseteq> active_ids (pump now k s)"
  proof
    fix i assume "i \<in> active_ids s"
    then obtain j st' where j: "map_get (cq_lanes s) j = Some st'" "i \<in> set (la_activeTaskIds st')"
      using assms(1) active_ids_get [of s] by (auto simp: queue_base_def)
    have ok: "map_ok (cq_lanes (pump now k s))" using base(1) by (simp add: queue_base_def)
    show "i \<in> active_ids (pump now k s)"
    proof (cases "j = k")
      case True
      with j assms(2) have "i \<in> set (la_activeTaskIds st)" by simp
      with p ok show ?thesis by (force simp: active_ids_get pumped_def Let_def)
    next
      case False
      with base(3) j(1) have "map_get (cq_lanes (pump now k s)) j = Some st'" by simp
      with j(2) ok show ?thesis by (auto simp: active_ids_get)
    qed
  qed
  with base p show ?thesis by (auto simp: drained_lane_def pumped_def Let_def)
qed

lemma drained_lane_put:
  assumes "queue_base s" "map_get (cq_lanes s) k = Some st"
    and "lane_entries st' = lane_entries st" "la_activeTaskIds st' = la_activeTaskIds st"
    and "drained_lane k (put_lane k st' s) t"
  shows "drained_lane k s t"
proof -
  have ok: "map_ok (cq_lanes s)" using assms(1) by (simp add: queue_base_def)
  have "mset (queued_entries (put_lane k st' s)) = mset (queued_entries s)"
    using mset_queued_put_same [OF ok assms(2)] assms(3) by (simp add: queued_entries_def)
  then have "entry_mset (put_lane k st' s) = entry_mset s"
    by (simp add: entry_mset_def settled_entries_def)
  moreover obtain m1 m2 where "cq_lanes s = m1 @ (k, st) # m2" "map_put k st' (cq_lanes s) = m1 @ (k, st') # m2"
    using map_put_split [OF ok assms(2)] by blast
  then have "active_ids (put_lane k st' s) = active_ids s"
    using assms(4) by (simp add: active_ids_def)
  ultimately show ?thesis using assms(5) by (auto simp: drained_lane_def)
qed

lemma drainLane_drained:
  assumes "queue_base s" "map_get (cq_lanes s) k = Some st" "\<not> la_draining st"
  shows "drained_lane k s (drainLane now k s)"
proof -
  let ?st = "st\<lparr>la_draining := True\<rparr>"
  have eq: "drainLane now k s = pump now k (put_lane k ?st s)"
    using assms(2,3) by (simp add: drainLane_def getLaneState_def lane_of_def Let_def)
  have "lane_inv (cq_running s) (cq_nextQueueSequence s) k st"
    using assms by (simp add: queue_base_def)
  then have "queue_base (put_lane k ?st s)"
    by (intro put_lane_base [OF assms(1)]) (simp add: lane_inv_def)
  from pump_drained [OF this, of k ?st now] show ?thesis
    unfolding eq by (intro drained_lane_put [OF assms(1,2)]) (simp_all add: lane_entries_def)
qed

lemma getLaneState_spec:
  assumes "queue_base s" "all_settled s"
  shows "queue_base (getLaneState k s)" "all_settled (getLaneState k s)"
    and "map_get (cq_lanes (getLaneState k s)) k = Some (lane_of k (getLaneState k s))"
    and "entry_mset (getLaneState k s) = entry_mset s"
    and "active_ids (getLaneState k s) = active_ids s"
    and "cq_nextEntry (getLaneState k s) = cq_nextEntry s"
    and "cq_activeTaskWaiters (getLaneState k s) = cq_activeTaskWaiters s"
    and "cq_nextQueueSequence (getLaneState k s) = cq_nextQueueSequence s"
    and "cq_running (getLaneState k s) = cq_running s"
proof -
  have all: "queue_base (getLaneState k s) \<and> all_settled (getLaneState k s) \<and>
      map_get (cq_lanes (getLaneState k s)) k = Some (lane_of k (getLaneState k s)) \<and>
      entry_mset (getLaneState k s) = entry_mset s \<and> active_ids (getLaneState k s) = active_ids s"
  proof (cases "map_get (cq_lanes s) k")
    case (Some st)
    with assms show ?thesis by (simp add: getLaneState_def lane_of_def)
  next
    case None
    have "active_of (cq_running s) k g = {}" and "\<forall>t \<in> set (cq_running s). rt_lane t \<noteq> k" for g
      using assms(1) None by (auto simp: queue_base_def running_inv_def active_of_def map_has_get)
    then have inv: "lane_inv (cq_running s) (cq_nextQueueSequence s) k (created_lane k)"
      by (auto simp: lane_inv_def created_lane_def max_ok_def intro: exI [of _ 1])
    let ?t = "put_lane k (created_lane k) s"
    have eq: "getLaneState k s = ?t" using None by (simp add: getLaneState_def)
    have "all_settled ?t"
      using assms(2) by (auto simp: all_settled_def lane_settled_def created_lane_def split: if_splits)
    moreover have "entry_mset ?t = entry_mset s"
      using None by (simp add: entry_mset_def queued_entries_def settled_entries_def map_put_fresh
          lane_entries_def created_lane_def)
    moreover have "active_ids ?t = active_ids s"
      using None by (simp add: active_ids_def map_put_fresh created_lane_def)
    ultimately show ?thesis
      unfolding eq using put_lane_base [OF assms(1) inv] by simp
  qed
  show "queue_base (getLaneState k s)" "all_settled (getLaneState k s)"
    "map_get (cq_lanes (getLaneState k s)) k = Some (lane_of k (getLaneState k s))"
    "entry_mset (getLaneState k s) = entry_mset s" "active_ids (getLaneState k s) = active_ids s"
    using all by auto
  show "cq_nextEntry (getLaneState k s) = cq_nextEntry s"
    "cq_activeTaskWaiters (getLaneState k s) = cq_activeTaskWaiters s"
    "cq_nextQueueSequence (getLaneState k s) = cq_nextQueueSequence s"
    "cq_running (getLaneState k s) = cq_running s"
    by (simp_all add: getLaneState_def split: option.split)
qed

section \<open>The whole invariant\<close>

definition waiters_pending :: "CommandQueueState \<Rightarrow> bool" where
  "waiters_pending s \<longleftrightarrow> (\<forall>w \<in> set (cq_activeTaskWaiters s). waiter_pending s w)"

definition queue_inv :: "CommandQueueState \<Rightarrow> bool" where
  "queue_inv s \<longleftrightarrow> queue_base s \<and> all_settled s \<and> entries_conserved s \<and> waiters_pending s"

lemma waiter_pending_mono:
  "active_ids s \<subseteq> active_ids t \<Longrightarrow> waiter_pending s w \<Longrightarrow> waiter_pending t w"
  by (auto simp: waiter_pending_def hasPending_iff)

lemma drained_parts:
  assumes d: "drained_lane k s t" and settled: "\<And>j st. j \<noteq> k \<Longrightarrow>
      map_get (cq_lanes s) j = Some st \<Longrightarrow> lane_settled st"
  shows "queue_base t" "all_settled t" "waiters_pending s \<Longrightarrow> waiters_pending t"
    and "entry_mset t = entry_mset s" "cq_nextEntry t = cq_nextEntry s"
proof -
  show "all_settled t"
    unfolding all_settled_def
  proof (intro allI impI)
    fix j st assume "map_get (cq_lanes t) j = Some st"
    then show "lane_settled st" using d settled [of j st] by (cases "j = k") (auto simp: drained_lane_def)
  qed
  show "queue_base t" "entry_mset t = entry_mset s" "cq_nextEntry t = cq_nextEntry s"
    using d by (simp_all add: drained_lane_def)
  show "waiters_pending s \<Longrightarrow> waiters_pending t"
    using d waiter_pending_mono [of s t] by (auto simp: drained_lane_def waiters_pending_def)
qed

lemma queue_inv_drained:
  assumes "drained_lane k s t"
    and "\<And>j st. j \<noteq> k \<Longrightarrow> map_get (cq_lanes s) j = Some st \<Longrightarrow> lane_settled st"
    and "entries_conserved s" "waiters_pending s"
  shows "queue_inv t"
  using drained_parts [OF assms(1,2)] assms(3,4) by (auto simp: queue_inv_def entries_conserved_def)

lemma queue_inv_waiter_frame:
  assumes "queue_base s" "all_settled s" "entries_conserved s" "waiter_frame s t"
    and "\<forall>w \<in> set (cq_activeTaskWaiters t). waiter_pending s w"
  shows "queue_inv t"
proof -
  obtain e where e: "cq_effects t = cq_effects s @ e" "\<forall>x \<in> set e. \<exists>w b. x = WaiterResolved w b"
    using assms(4) by (auto simp: waiter_frame_def)
  have "concat (map (\<lambda>e. case e of EntrySettled i _ \<Rightarrow> [i] | _ \<Rightarrow> []) e) = []"
    using e(2) by (induction e) auto
  then have "settled_entries t = settled_entries s" by (simp add: settled_entries_def e(1))
  moreover have "waiter_pending t w = waiter_pending s w" for w
    using assms(4) by (simp add: waiter_pending_def hasPendingActiveTasks_def waiter_frame_def)
  ultimately show ?thesis
    using assms by (auto simp: queue_inv_def queue_base_def running_inv_def all_settled_def
        entries_conserved_def entry_mset_def queued_entries_def waiters_pending_def waiter_frame_def)
qed

lemma queue_inv_notify:
  "queue_base s \<Longrightarrow> all_settled s \<Longrightarrow> entries_conserved s \<Longrightarrow> queue_inv (notifyActiveTaskWaiters s)"
  by (rule queue_inv_waiter_frame [OF _ _ _ waiter_frame_notify]) (auto simp: notify_waiters)

section \<open>Every operation keeps the invariant\<close>

lemma queue_inv_parts:
  "queue_inv s \<Longrightarrow> queue_base s \<and> all_settled s \<and> entries_conserved s \<and> waiters_pending s \<and>
     map_ok (cq_lanes s) \<and> running_inv s"
  by (simp add: queue_inv_def queue_base_def)

lemma getLaneState_inv: "queue_inv s \<Longrightarrow> queue_inv (getLaneState k s)"
  using getLaneState_spec [of s k]
  by (auto simp: queue_inv_def entries_conserved_def waiters_pending_def waiter_pending_def
      hasPending_iff)

lemma base_lane: "queue_base s \<Longrightarrow> map_get (cq_lanes s) k = Some st \<Longrightarrow>
    lane_inv (cq_running s) (cq_nextQueueSequence s) k st"
  by (simp add: queue_base_def)

text \<open>Replacing a lane by one with the same entries and the same active tasks.\<close>

lemma put_lane_frame:
  assumes "map_ok (cq_lanes s)" "map_get (cq_lanes s) k = Some st"
  shows "mset (lane_entries st') + mset (queued_entries s) =
      mset (queued_entries (put_lane k st' s)) + mset (lane_entries st)"
    and "la_activeTaskIds st' = la_activeTaskIds st \<Longrightarrow> active_ids (put_lane k st' s) = active_ids s"
proof -
  show "mset (lane_entries st') + mset (queued_entries s) =
      mset (queued_entries (put_lane k st' s)) + mset (lane_entries st)"
    using mset_queued_put [OF assms, of st'] by (simp add: queued_entries_def ac_simps)
  obtain m1 m2 where "cq_lanes s = m1 @ (k, st) # m2"
    "map_put k st' (cq_lanes s) = m1 @ (k, st') # m2"
    using map_put_split [OF assms] by blast
  then show "la_activeTaskIds st' = la_activeTaskIds st \<Longrightarrow> active_ids (put_lane k st' s) = active_ids s"
    by (simp add: active_ids_def)
qed

lemma put_lane_same_inv:
  assumes base: "queue_base s" and st: "map_get (cq_lanes s) k = Some st"
    and inv: "lane_inv (cq_running s) (cq_nextQueueSequence s) k st'"
    and same: "lane_entries st' = lane_entries st" "la_activeTaskIds st' = la_activeTaskIds st"
    and "entries_conserved s" "waiters_pending s"
  shows "queue_base (put_lane k st' s)" "entries_conserved (put_lane k st' s)"
    and "waiters_pending (put_lane k st' s)"
proof -
  have ok: "map_ok (cq_lanes s)" using base by (simp add: queue_base_def)
  show "queue_base (put_lane k st' s)" by (rule put_lane_base [OF base inv])
  have "mset (queued_entries (put_lane k st' s)) = mset (queued_entries s)"
    using put_lane_frame(1) [OF ok st, of st'] same(1) by simp
  then show "entries_conserved (put_lane k st' s)"
    using assms(6) by (simp add: entries_conserved_def entry_mset_def settled_entries_def)
  show "waiters_pending (put_lane k st' s)"
    using assms(7) put_lane_frame(2) [OF ok st same(2)]
    by (simp add: waiters_pending_def waiter_pending_def hasPending_iff)
qed

lemma max_ok_floor: "max_ok (num_max (num a) (num_floor m))"
proof (cases m)
  case (Fin q)
  have "num_max (num a) (num_floor m) = num (max a \<lfloor>q\<rfloor>)" by (simp add: Fin)
  then show ?thesis by (auto simp: max_ok_def)
qed (auto simp: max_ok_def num_max_def num_floor_def)

lemma no_room_if_not_positive: "\<not> num_less (num 0) m \<Longrightarrow> \<not> has_room n m"
  by (cases m) (auto simp: has_room_def)

lemma setConcurrency_inv:
  assumes "queue_inv s"
  shows "queue_inv (setCommandLaneConcurrency now lane m s)"
proof -
  let ?k = "normalizeLane lane"
  let ?s = "getLaneState ?k s"
  let ?st = "lane_of ?k ?s"
  let ?m = "num_max (if isQuietProbeLane ?k then num 1 else num 0) (num_floor m)"
  let ?st' = "?st\<lparr>la_maxConcurrent := ?m\<rparr>"
  have inv: "queue_inv ?s" using assms by (rule getLaneState_inv)
  have get: "map_get (cq_lanes ?s) ?k = Some ?st"
    using getLaneState_spec(3) [of s ?k] queue_inv_parts [OF assms] by simp
  have lane: "lane_inv (cq_running ?s) (cq_nextQueueSequence ?s) ?k ?st'"
    using base_lane [OF _ get] queue_inv_parts [OF inv] max_ok_floor [of 1] max_ok_floor [of 0]
    by (auto simp: lane_inv_def)
  have drn: "\<not> la_draining ?st"
    using queue_inv_parts [OF inv] get by (auto simp: all_settled_def lane_settled_def)
  note put = put_lane_same_inv [OF _ get lane, simplified lane_entries_def, simplified]
  have put': "queue_base (put_lane ?k ?st' ?s)" "entries_conserved (put_lane ?k ?st' ?s)"
    "waiters_pending (put_lane ?k ?st' ?s)"
    using put queue_inv_parts [OF inv] by auto
  have others: "lane_settled st" if "j \<noteq> ?k" "map_get (cq_lanes (put_lane ?k ?st' ?s)) j = Some st" for j st
    using that queue_inv_parts [OF inv] by (simp add: all_settled_def)
  have "queue_inv (if num_less (num 0) ?m then drainLane now ?k (put_lane ?k ?st' ?s)
      else put_lane ?k ?st' ?s)"
  proof (cases "num_less (num 0) ?m")
    case True
    have "drained_lane ?k (put_lane ?k ?st' ?s) (drainLane now ?k (put_lane ?k ?st' ?s))"
      by (rule drainLane_drained [OF put'(1), of ?k ?st']) (simp_all add: drn)
    from queue_inv_drained [OF this others put'(2,3)] True show ?thesis by simp
  next
    case False
    have "lane_settled ?st'"
      using drn no_room_if_not_positive [OF False] by (simp add: lane_settled_def)
    then have "all_settled (put_lane ?k ?st' ?s)"
      using others by (auto simp: all_settled_def split: if_splits)
    with False put' show ?thesis by (simp add: queue_inv_def)
  qed
  then show ?thesis by (simp add: setCommandLaneConcurrency_def Let_def)
qed

lemma lane_inv_Suc: "lane_inv rs n k st \<Longrightarrow> lane_inv rs (Suc n) k st"
  by (auto simp: lane_inv_def)

lemma enqueue_inv:
  assumes "queue_inv s"
  shows "queue_inv (enqueueCommandInLane cur now lane opts s)"
proof (cases "isGatewaySubordinateWorkAdmissionClosed cur (cq_admission s)")
  case True
  with assms show ?thesis
    by (auto simp: enqueueCommandInLane_def queue_inv_def queue_base_def running_inv_def
        all_settled_def entries_conserved_def entry_mset_def queued_entries_def settled_entries_def
        waiters_pending_def waiter_pending_def hasPendingActiveTasks_def)
next
  case False
  let ?k = "normalizeLane lane"
  let ?s = "getLaneState ?k s"
  let ?e = "new_entry now opts ?s"
  let ?u = "?s\<lparr>cq_nextQueueSequence := cq_nextQueueSequence ?s + 1, cq_nextEntry := cq_nextEntry ?s + 1\<rparr>"
  let ?st = "lane_of ?k ?s"
  let ?st' = "enqueueLaneEntry ?st ?e"
  have inv: "queue_inv ?s" using assms by (rule getLaneState_inv)
  have get: "map_get (cq_lanes ?s) ?k = Some ?st"
    using getLaneState_spec(3) [of s ?k] queue_inv_parts [OF assms] by simp
  have base_u: "queue_base ?u"
    using inv by (auto simp: queue_inv_def queue_base_def running_inv_def intro: lane_inv_Suc)
  have seq: "qe_sequence ?e = cq_nextQueueSequence ?s" "qe_id ?e = cq_nextEntry ?s"
    by (simp_all add: new_entry_def)
  have lane_st: "lane_inv (cq_running ?s) (cq_nextQueueSequence ?s) ?k ?st"
    using base_lane [OF _ get] queue_inv_parts [OF inv] by simp
  have fresh: "\<forall>q \<in> set (la_queue ?st). qe_sequence q \<noteq> qe_sequence ?e"
    using lane_st seq(1) by (auto simp: lane_inv_def)
  have sorted: "sorted_wrt runs_before (la_queue ?st')"
    using enqueue_sorted [OF _ fresh] lane_st by (simp add: lane_inv_def)
  have lane_st': "lane_inv (cq_running ?u) (cq_nextQueueSequence ?u) ?k ?st'"
    using lane_st sorted by (auto simp: lane_inv_def set_enqueueLaneEntry seq)
  have drn: "\<not> la_draining ?st"
    using queue_inv_parts [OF inv] get by (auto simp: all_settled_def lane_settled_def)
  have base: "queue_base (put_lane ?k ?st' ?u)" by (rule put_lane_base [OF base_u lane_st'])
  have ok: "map_ok (cq_lanes ?u)" and get_u: "map_get (cq_lanes ?u) ?k = Some ?st"
    using base_u get by (simp_all add: queue_base_def)
  have "mset (lane_entries ?st') = add_mset (cq_nextEntry ?s) (mset (lane_entries ?st))"
    by (simp add: lane_entries_def mset_enqueueLaneEntry seq)
  then have "mset (queued_entries (put_lane ?k ?st' ?u)) =
      add_mset (cq_nextEntry ?s) (mset (queued_entries ?u))"
    using put_lane_frame(1) [OF ok get_u, of ?st'] by simp
  then have conserved: "entries_conserved (put_lane ?k ?st' ?u)"
    using inv by (simp add: queue_inv_def entries_conserved_def entry_mset_def settled_entries_def
        queued_entries_def)
  have waiters: "waiters_pending (put_lane ?k ?st' ?u)"
    using put_lane_frame(2) [OF ok get_u, of ?st'] inv
    by (simp add: queue_inv_def waiters_pending_def waiter_pending_def hasPending_iff active_ids_def)
  have "drained_lane ?k (put_lane ?k ?st' ?u) (drainLane now ?k (put_lane ?k ?st' ?u))"
    by (rule drainLane_drained [OF base, of ?k ?st']) (simp_all add: drn)
  moreover have "lane_settled st"
    if "j \<noteq> ?k" "map_get (cq_lanes (put_lane ?k ?st' ?u)) j = Some st" for j st
    using that queue_inv_parts [OF inv] by (simp add: all_settled_def)
  ultimately have "queue_inv (drainLane now ?k (put_lane ?k ?st' ?u))"
    using conserved waiters by (rule queue_inv_drained)
  with False show ?thesis by (simp add: enqueueCommandInLane_def Let_def)
qed

lemma entries_settle:
  "settled_entries (report [EntrySettled i r] s) = settled_entries s @ [i]"
  by (simp add: settled_entries_def)

lemma report_inv_parts [simp]:
  "queue_base (report e s) = queue_base s" "all_settled (report e s) = all_settled s"
  "waiters_pending (report e s) = waiters_pending s" "queued_entries (report e s) = queued_entries s"
  by (simp_all add: queue_base_def running_inv_def all_settled_def waiters_pending_def
      waiter_pending_def hasPendingActiveTasks_def queued_entries_def)

lemma mset_filter_remove:
  "distinct xs \<Longrightarrow> x \<in> set xs \<Longrightarrow> mset xs = add_mset x (mset (filter (\<lambda>t. t \<noteq> x) xs))"
proof -
  assume *: "distinct xs" "x \<in> set xs"
  then have "filter (\<lambda>t. t \<noteq> x) xs = remove1 x xs"
    by (simp add: distinct_remove1_removeAll removeAll_filter_not_eq) (metis (lifting))
  with *(2) show ?thesis by simp
qed

lemma waiter_frame_entries:
  assumes "waiter_frame s t"
  shows "entry_mset t = entry_mset s"
proof -
  obtain e where e: "cq_effects t = cq_effects s @ e" "\<forall>x \<in> set e. \<exists>w b. x = WaiterResolved w b"
    using assms by (auto simp: waiter_frame_def)
  have "concat (map (\<lambda>e. case e of EntrySettled i _ \<Rightarrow> [i] | _ \<Rightarrow> []) e) = []"
    using e(2) by (induction e) auto
  then show ?thesis
    using assms by (simp add: entry_mset_def settled_entries_def queued_entries_def e(1) waiter_frame_def)
qed

lemma active_of_remove:
  assumes "distinct (map rt_taskId rs)" "task \<in> set rs"
  shows "active_of (filter (\<lambda>t. t \<noteq> task) rs) k g =
    active_of rs k g - (if rt_lane task = k \<and> rt_generation task = g then {rt_taskId task} else {})"
proof -
  have "rt_taskId t = rt_taskId task \<Longrightarrow> t = task" if "t \<in> set rs" for t
    using assms that by (auto simp: distinct_map inj_on_def)
  then show ?thesis by (auto simp: active_of_def)
qed

lemma finish_inv:
  assumes "queue_inv s" "task \<in> set (cq_running s)"
  shows "queue_inv (finish_task now task ok s)"
proof -
  let ?k = "rt_lane task"
  let ?st = "lane_of ?k s"
  let ?rs = "filter (\<lambda>t. t \<noteq> task) (cq_running s)"
  let ?s = "s\<lparr>cq_running := ?rs\<rparr>"
  note parts = queue_inv_parts [OF assms(1)]
  have get: "map_get (cq_lanes s) ?k = Some ?st"
    using parts assms(2) by (auto simp: running_inv_def map_has_get lane_of_def)
  have dist: "distinct (map rt_taskId (cq_running s))" using parts by (simp add: running_inv_def)
  note remove = active_of_remove [OF dist assms(2)]
  have run: "running_inv ?s"
    using parts by (auto simp: running_inv_def distinct_map inj_on_def)
  have other: "lane_inv ?rs (cq_nextQueueSequence s) j st"
    if "map_get (cq_lanes s) j = Some st" "j \<noteq> ?k \<or> rt_generation task \<noteq> la_generation st" for j st
    using base_lane [OF _ that(1)] parts that(2) by (auto simp: lane_inv_def remove)
  have mset_run: "mset (map rt_entry (cq_running s)) = add_mset (rt_entry task) (mset (map rt_entry ?rs))"
    using arg_cong [OF mset_filter_remove [of "cq_running s" task], of "image_mset rt_entry"]
      dist assms(2) by (simp add: distinct_map)
  show ?thesis
  proof (cases "rt_generation task = la_generation ?st")
    case False
    have "lane_inv ?rs (cq_nextQueueSequence s) j st" if "map_get (cq_lanes s) j = Some st" for j st
      using other [OF that] False get that by (cases "j = ?k") auto
    then have "queue_base ?s" using parts run by (simp add: queue_base_def)
    moreover have "entries_conserved (report [EntrySettled (rt_entry task) r] ?s)" for r
      using parts mset_run by (simp add: entries_conserved_def entry_mset_def entries_settle)
        (simp add: queued_entries_def settled_entries_def)
    moreover have "all_settled ?s" "waiters_pending ?s"
      using parts by (simp_all add: all_settled_def waiters_pending_def waiter_pending_def
          hasPendingActiveTasks_def)
    ultimately show ?thesis
      using False by (simp add: finish_task_def completeTask_def queue_inv_def Let_def)
  next
    case True
    let ?st' = "?st\<lparr>la_activeTaskIds := filter (\<lambda>i. i \<noteq> rt_taskId task) (la_activeTaskIds ?st)\<rparr>"
    let ?u = "put_lane ?k ?st' ?s"
    let ?v = "notifyActiveTaskWaiters ?u"
    have "lane_inv ?rs (cq_nextQueueSequence s) ?k ?st'"
      using base_lane [OF _ get] parts True by (auto simp: lane_inv_def remove)
    with other run parts have base_u: "queue_base ?u"
      by (auto simp: queue_base_def running_inv_def)
    have frame: "waiter_frame ?u ?v" by (rule waiter_frame_notify)
    then have lanes_v: "cq_lanes ?v = cq_lanes ?u" by (simp add: waiter_frame_def)
    from base_u frame have base_v: "queue_base ?v"
      by (simp add: queue_base_def running_inv_def waiter_frame_def)
    have "mset (queued_entries ?u) = mset (queued_entries s)"
      using put_lane_frame(1) [OF _ get, of ?st'] parts
      by (simp add: lane_entries_def queued_entries_def)
    then have entry_u: "entry_mset s = add_mset (rt_entry task) (entry_mset ?u)"
      using mset_run by (simp add: entry_mset_def settled_entries_def)
    have entry_v: "entry_mset ?v = entry_mset ?u"
      using waiter_frame_entries [OF frame] .
    have waiters: "waiters_pending ?v"
      by (auto simp: waiters_pending_def notify_waiters waiter_pending_def hasPendingActiveTasks_def
          lanes_v)
    have get_v: "map_get (cq_lanes ?v) ?k = Some ?st'" by (simp add: lanes_v)
    have settled: "lane_settled st" if "j \<noteq> ?k" "map_get (cq_lanes ?v) j = Some st" for j st
      using that parts by (simp add: lanes_v all_settled_def)
    note d = drained_parts [OF pump_drained [OF base_v get_v, of now] settled]
    have "cq_nextEntry ?v = cq_nextEntry s" using frame by (simp add: waiter_frame_def)
    then have "entries_conserved (report [EntrySettled (rt_entry task) r] (pump now ?k ?v))" for r
      using parts d(4,5) entry_u entry_v
      by (simp add: entries_conserved_def entry_mset_def entries_settle)
    with d waiters True show ?thesis
      by (simp add: finish_task_def completeTask_def queue_inv_def Let_def)
  qed
qed

section \<open>Resets\<close>

lemma idle_lane_inv:
  assumes "lane_inv rs n k st"
  shows "lane_inv rs n k (idle_lane st)"
proof -
  have "active_of rs k (Suc (la_generation st)) = {}"
    using assms by (fastforce simp: active_of_def lane_inv_def)
  with assms show ?thesis by (auto simp: lane_inv_def idle_lane_def)
qed

lemma clear_inv:
  assumes "queue_inv s"
  shows "queue_inv (snd (clearCommandLane lane s))"
proof (cases "map_get (cq_lanes s) (normalizeLane lane)")
  case None
  with assms show ?thesis by (simp add: clearCommandLane_def Let_def)
next
  case (Some st)
  let ?k = "normalizeLane lane" and ?st = "st\<lparr>la_queue := []\<rparr>"
  note parts = queue_inv_parts [OF assms]
  have base: "queue_base (put_lane ?k ?st s)"
    using parts base_lane [OF _ Some] by (intro put_lane_base) (auto simp: lane_inv_def)
  have settled: "all_settled (put_lane ?k ?st s)"
    using parts Some by (auto simp: all_settled_def lane_settled_def split: if_splits)
  have waiters: "waiters_pending (put_lane ?k ?st s)"
    using parts put_lane_frame(2) [OF _ Some, of ?st]
    by (simp add: waiters_pending_def waiter_pending_def hasPending_iff)
  have "concat (map (\<lambda>e. case e of EntrySettled i _ \<Rightarrow> [i] | _ \<Rightarrow> [])
      (map (\<lambda>entry. EntrySettled (qe_id entry) LaneCleared) es)) = map qe_id es" for es
    by (induction es) auto
  then have "settled_entries (report (map (\<lambda>entry. EntrySettled (qe_id entry) LaneCleared) (la_queue st))
      (put_lane ?k ?st s)) = settled_entries s @ map qe_id (la_queue st)"
    by (simp add: settled_entries_def)
  moreover have "mset (queued_entries s) = mset (queued_entries (put_lane ?k ?st s)) +
      mset (map qe_id (la_queue st))"
    using put_lane_frame(1) [OF _ Some, of ?st] parts by (simp add: lane_entries_def)
  ultimately have "entries_conserved (report (map (\<lambda>entry. EntrySettled (qe_id entry) LaneCleared)
      (la_queue st)) (put_lane ?k ?st s))"
    using parts by (simp add: entries_conserved_def entry_mset_def ac_simps)
  with base settled waiters show ?thesis
    by (simp add: clearCommandLane_def Some queue_inv_def Let_def)
qed

lemma reset_lane_inv:
  assumes "queue_inv s"
  shows "queue_inv (snd (resetCommandLane now lane s))"
proof (cases "map_get (cq_lanes s) (normalizeLane lane)")
  case None
  with assms show ?thesis by (simp add: resetCommandLane_def Let_def)
next
  case (Some st)
  let ?k = "normalizeLane lane"
  let ?s = "put_lane ?k (idle_lane st) s"
  note parts = queue_inv_parts [OF assms]
  have base: "queue_base ?s"
    using parts base_lane [OF _ Some] by (intro put_lane_base idle_lane_inv) auto
  have "mset (queued_entries ?s) = mset (queued_entries s)"
    using put_lane_frame(1) [OF _ Some, of "idle_lane st"] parts
    by (simp add: lane_entries_def idle_lane_def)
  then have conserved: "entries_conserved ?s"
    using parts by (simp add: entries_conserved_def entry_mset_def settled_entries_def)
  have others: "lane_settled st'" if "j \<noteq> ?k" "map_get (cq_lanes ?s) j = Some st'" for j st'
    using that parts by (simp add: all_settled_def)
  have d: "queue_base t \<and> all_settled t \<and> entries_conserved t"
    if "t = (if length (la_queue st) > 0 then drainLane now ?k ?s else ?s)" for t
  proof (cases "length (la_queue st) > 0")
    case True
    have "drained_lane ?k ?s (drainLane now ?k ?s)"
      by (rule drainLane_drained [OF base, of ?k "idle_lane st"]) (simp_all add: idle_lane_def)
    from drained_parts [OF this others] True that conserved show ?thesis
      by (simp add: entries_conserved_def)
  next
    case False
    then have "lane_settled (idle_lane st)" by (simp add: lane_settled_def idle_lane_def)
    then have "all_settled ?s" using others by (auto simp: all_settled_def split: if_splits)
    with False that base conserved show ?thesis by simp
  qed
  from d [OF refl] show ?thesis
    by (auto simp: resetCommandLane_def Some Let_def intro!: queue_inv_notify)
qed

lemma map_idle_lanes:
  "map fst (map (\<lambda>(k, st). (k, idle_lane st)) m) = map fst m"
  "map_get (map (\<lambda>(k, st). (k, idle_lane st)) m) k = map_option idle_lane (map_get m k)"
  by (induction m) (auto simp: map_get_def)

text \<open>Draining some lanes one after the other.\<close>

lemma drain_lanes:
  assumes "queue_base s" "entries_conserved s"
    and "\<forall>k \<in> set ks. \<exists>st. map_get (cq_lanes s) k = Some st"
    and "\<forall>k st. map_get (cq_lanes s) k = Some st \<longrightarrow> \<not> la_draining st \<and> (k \<notin> set ks \<longrightarrow> lane_settled st)"
  shows "queue_base (foldl (\<lambda>s lane. drainLane now lane s) s ks) \<and>
    entries_conserved (foldl (\<lambda>s lane. drainLane now lane s) s ks) \<and>
    all_settled (foldl (\<lambda>s lane. drainLane now lane s) s ks)"
  using assms
proof (induction ks arbitrary: s)
  case Nil
  then show ?case by (simp add: all_settled_def)
next
  case (Cons k ks)
  then obtain st where st: "map_get (cq_lanes s) k = Some st" "\<not> la_draining st" by auto
  let ?t = "drainLane now k s"
  have d: "drained_lane k s ?t" by (rule drainLane_drained [OF Cons.prems(1) st])
  have get: "map_get (cq_lanes ?t) j = map_get (cq_lanes s) j" if "j \<noteq> k" for j
    using d that by (simp add: drained_lane_def)
  obtain st' where st': "map_get (cq_lanes ?t) k = Some st'" "lane_settled st'"
    using d by (auto simp: drained_lane_def)
  have exist: "\<forall>j \<in> set ks. \<exists>st. map_get (cq_lanes ?t) j = Some st"
    using Cons.prems(3) get st'(1) by (metis list.set_intros(2))
  have rest: "\<forall>j st. map_get (cq_lanes ?t) j = Some st \<longrightarrow>
      \<not> la_draining st \<and> (j \<notin> set ks \<longrightarrow> lane_settled st)"
  proof (intro allI impI)
    fix j stj assume "map_get (cq_lanes ?t) j = Some stj"
    then show "\<not> la_draining stj \<and> (j \<notin> set ks \<longrightarrow> lane_settled stj)"
      using Cons.prems(4) get [of j] st' by (cases "j = k") (auto simp: lane_settled_def)
  qed
  have "queue_base ?t" "entries_conserved ?t"
    using d Cons.prems(2) by (auto simp: drained_lane_def entries_conserved_def)
  from Cons.IH [OF this exist rest] show ?case by simp
qed

lemma reset_all_inv:
  assumes "queue_inv s"
  shows "queue_inv (resetAllLanes now s)"
proof -
  let ?a = "s\<lparr>cq_admission := resetGatewayWorkAdmission (cq_admission s)\<rparr>"
  let ?ks = "map la_lane (filter (\<lambda>st. length (la_queue st) > 0) (map snd (cq_lanes s)))"
  let ?s = "?a\<lparr>cq_lanes := map (\<lambda>(k, st). (k, idle_lane st)) (cq_lanes s)\<rparr>"
  note parts = queue_inv_parts [OF assms]
  have get: "map_get (cq_lanes ?s) k = map_option idle_lane (map_get (cq_lanes s) k)" for k
    by (simp add: map_idle_lanes)
  have ok: "map_ok (cq_lanes ?s)" using parts map_idle_lanes(1) [of "cq_lanes s"]
    by (simp add: map_ok_def del: map_map)
  have run: "running_inv ?s" using parts by (simp add: running_inv_def map_has_get map_idle_lanes)
  have base: "queue_base ?s"
    using parts ok run by (auto simp: queue_base_def map_idle_lanes intro: idle_lane_inv)
  have "queued_entries ?s = queued_entries s"
    by (simp add: queued_entries_def comp_def lane_entries_def idle_lane_def split_beta)
  then have conserved: "entries_conserved ?s"
    using parts by (simp add: entries_conserved_def entry_mset_def settled_entries_def)
  have key: "map_get (cq_lanes s) k = Some st \<Longrightarrow> la_lane st = k" for k st
    using parts by (simp add: queue_base_def lane_inv_def)
  have exist: "\<forall>k \<in> set ?ks. \<exists>st. map_get (cq_lanes ?s) k = Some st"
  proof
    fix k assume "k \<in> set ?ks"
    then obtain j st where in_lanes: "(j, st) \<in> set (cq_lanes s)" "k = la_lane st" by auto
    then have got: "map_get (cq_lanes s) j = Some st" using parts by (auto simp: queue_base_def dest: map_get_in_ok [rotated])
    with key have "j = k" by (simp add: in_lanes)
    with got show "\<exists>st. map_get (cq_lanes ?s) k = Some st" unfolding get by simp
  qed
  have idle: "\<forall>k st. map_get (cq_lanes ?s) k = Some st \<longrightarrow>
      \<not> la_draining st \<and> (k \<notin> set ?ks \<longrightarrow> lane_settled st)"
  proof (intro allI impI)
    fix k st assume "map_get (cq_lanes ?s) k = Some st"
    then obtain st0 where st0: "map_get (cq_lanes s) k = Some st0" "st = idle_lane st0"
      unfolding get by auto
    from st0(1) have "(k, st0) \<in> set (cq_lanes s)" by (rule map_get_Some_in)
    then have "la_queue st0 \<noteq> [] \<Longrightarrow> k \<in> set ?ks" using key [OF st0(1)] by force
    then show "\<not> la_draining st \<and> (k \<notin> set ?ks \<longrightarrow> lane_settled st)"
      by (auto simp: st0(2) idle_lane_def lane_settled_def)
  qed
  from drain_lanes [OF base conserved exist idle, of now] show ?thesis
    by (auto simp: resetAllLanes_def Let_def intro!: queue_inv_notify)
qed

lemma admission_inv: "queue_inv s \<Longrightarrow> queue_inv (s\<lparr>cq_admission := a\<rparr>)"
  by (simp add: queue_inv_def queue_base_def running_inv_def all_settled_def entries_conserved_def
      entry_mset_def queued_entries_def settled_entries_def waiters_pending_def waiter_pending_def
      hasPendingActiveTasks_def)

lemma wait_inv:
  assumes "queue_inv s"
  shows "queue_inv (snd (waitForActiveTasks t s))"
proof -
  have "queue_inv (notifyActiveTaskWaiters (s\<lparr>cq_activeTaskWaiters := ws, cq_nextWaiter := n\<rparr>))" for ws n
    using assms
    by (intro queue_inv_notify)
       (simp_all add: queue_inv_def queue_base_def running_inv_def all_settled_def
        entries_conserved_def entry_mset_def queued_entries_def settled_entries_def)
  with assms show ?thesis by (simp add: waitForActiveTasks_def Let_def)
qed

lemma waiter_timeout_inv: "queue_inv s \<Longrightarrow> queue_inv (resolveActiveTaskWaiter w d s)"
  by (rule queue_inv_waiter_frame [OF _ _ _ waiter_frame_resolve])
     (auto simp: queue_inv_def waiters_pending_def resolveActiveTaskWaiter_def)

lemma queue_inv_step:
  assumes "queue_inv s" "queue_op_ok op s"
  shows "queue_inv (run_queue_op op s)"
  using assms
  by (cases op) (simp_all add: setConcurrency_inv enqueue_inv finish_inv clear_inv reset_lane_inv
      reset_all_inv admission_inv wait_inv waiter_timeout_inv markGatewayDraining_def)

interpretation queue: inductive_invariant
  "\<lambda>s. \<exists>a. s = queue_init a" queue_step queue_inv
proof unfold_locales
  fix s assume "\<exists>a. s = queue_init a"
  then show "queue_inv s"
    by (auto simp: queue_init_def queue_inv_def queue_base_def running_inv_def all_settled_def
        entries_conserved_def entry_mset_def queued_entries_def settled_entries_def waiters_pending_def)
next
  fix s t assume "queue_inv s" "queue_step s t"
  then show "queue_inv t" by (auto elim!: queue_stepE intro: queue_inv_step)
qed

abbreviation queue_reach :: "CommandQueueState \<Rightarrow> bool" where
  "queue_reach \<equiv> reach (\<lambda>s. \<exists>a. s = queue_init a) queue_step"

lemma queue_reach_init: "queue_reach (queue_init a)"
  by (rule reach_init) blast

lemma queue_reach_run: "queue_reach s \<Longrightarrow> queue_op_ok op s \<Longrightarrow> queue_reach (run_queue_op op s)"
  by (erule reach_step) (rule queue_step.intros)

section \<open>A concrete run\<close>

definition example_opts :: "QueuePriority option \<Rightarrow> EnqueueOptions" where
  "example_opts p = \<lparr>eo_warnAfterMs = None, eo_onWait = False, eo_taskTimeoutMs = None,
     eo_taskTimeoutAbortGraceMs = None, eo_priority = p\<rparr>"

definition example_queue :: CommandQueueState where
  "example_queue =
     run_queue_op (Enqueue None 3 ''main'' (example_opts (Some Foreground)))
      (run_queue_op (Enqueue None 2 ''main'' (example_opts None))
        (run_queue_op (Enqueue None 1 ''main'' (example_opts None)) (queue_init admission_init)))"

lemma example_queue_reach: "queue_reach example_queue"
  unfolding example_queue_def by (intro queue_reach_run queue_reach_init) simp_all

section \<open>Properties\<close>

text \<open>C10: Lanes are work conserving: in every reachable state, a lane with a queued entry has no
  free slot, and no drain is left half way.\<close>

theorem lanes_work_conserving:
  assumes "queue_reach s" "map_get (cq_lanes s) k = Some st"
  shows "\<not> la_draining st \<and>
    (la_queue st = [] \<or> \<not> has_room (length (la_activeTaskIds st)) (la_maxConcurrent st))"
  using queue.reach_inv [OF assms(1)] assms(2)
  by (simp add: queue_inv_def all_settled_def lane_settled_def)

theorem lanes_work_conserving_witness:
  "\<not> has_room (length (la_activeTaskIds (lane_of ''main'' example_queue)))
     (la_maxConcurrent (lane_of ''main'' example_queue))"
proof -
  have "map_get (cq_lanes example_queue) ''main'' = Some (lane_of ''main'' example_queue)"
    "la_queue (lane_of ''main'' example_queue) \<noteq> []" by code_simp+
  with lanes_work_conserving [OF example_queue_reach] show ?thesis by blast
qed

text \<open>C9: No queued command is lost and none settles twice: in every reachable state, the entries
  waiting in lanes, the ones running (also under stale generations) and the settlements reported
  are together exactly the entries ever enqueued, each once.\<close>

theorem entries_settle_once:
  assumes "queue_reach s"
  shows "mset (queued_entries s) + mset (map rt_entry (cq_running s)) + mset (settled_entries s) =
    mset [0..<cq_nextEntry s]"
  using queue.reach_inv [OF assms]
  by (simp add: queue_inv_def entries_conserved_def entry_mset_def)

theorem entries_settle_once_witness:
  "mset (queued_entries example_queue) + mset (map rt_entry (cq_running example_queue)) +
     mset (settled_entries example_queue) = mset [0..<cq_nextEntry example_queue]"
  by (rule entries_settle_once [OF example_queue_reach])



text \<open>Whoever waits for the active tasks waits for a task that still runs: in every reachable
  state each registered waiter has an active task left of the ones it captured.\<close>

theorem active_waiters_pending:
  assumes "queue_reach s" "w \<in> set (cq_activeTaskWaiters s)"
  shows "\<exists>k st i. map_get (cq_lanes s) k = Some st \<and> i \<in> set (la_activeTaskIds st) \<and>
    i \<in> set (aw_activeTaskIds w)"
proof -
  have "waiter_pending s w" and "map_ok (cq_lanes s)"
    using queue.reach_inv [OF assms(1)] assms(2)
    by (auto simp: queue_inv_def waiters_pending_def queue_base_def)
  then show ?thesis unfolding waiter_pending_def hasPending_iff by (metis active_ids_get)
qed

theorem active_waiters_pending_witness:
  "\<exists>k st i. map_get (cq_lanes (run_queue_op (WaitForActive None) example_queue)) k = Some st \<and>
     i \<in> set (la_activeTaskIds st) \<and> i \<in> set [1]"
proof -
  have r: "queue_reach (run_queue_op (WaitForActive None) example_queue)"
    by (intro queue_reach_run example_queue_reach) simp
  have w: "\<lparr>aw_id = 0, aw_activeTaskIds = [1], aw_timeout = None\<rparr> \<in>
      set (cq_activeTaskWaiters (run_queue_op (WaitForActive None) example_queue))"
    by code_simp
  from active_waiters_pending [OF r w] show ?thesis by simp
qed

end
