(* ===== verification/Queue_Generations.thy ===== *)
theory Queue_Generations
  imports Command_Queue
begin

text \<open>
  Lane generations of \<^verbatim>\<open>src/process/command-queue.ts\<close>: \<^verbatim>\<open>resetCommandLane\<close> and
  \<^verbatim>\<open>resetAllLanes\<close> start a new generation, every other operation keeps it, and a task
  completes only in its own. Priorities are ordered as their numbers are.
\<close>

section \<open>Priorities\<close>

instantiation QueuePriority :: linorder
begin

definition less_eq_QueuePriority :: "QueuePriority \<Rightarrow> QueuePriority \<Rightarrow> bool" where
  "a \<le> b \<longleftrightarrow> resolveQueuePriority (Some a) \<le> resolveQueuePriority (Some b)"

definition less_QueuePriority :: "QueuePriority \<Rightarrow> QueuePriority \<Rightarrow> bool" where
  "a < b \<longleftrightarrow> resolveQueuePriority (Some a) < resolveQueuePriority (Some b)"

instance
proof
  fix a b :: QueuePriority
  show "a \<le> b \<Longrightarrow> b \<le> a \<Longrightarrow> a = b"
    by (cases a; cases b) (simp_all add: less_eq_QueuePriority_def resolveQueuePriority_def)
qed (auto simp: less_eq_QueuePriority_def less_QueuePriority_def)

end

lemma priority_order: "Background < NormalPriority" "NormalPriority < Foreground"
  by (simp_all add: less_QueuePriority_def resolveQueuePriority_def)

section \<open>Generations\<close>

definition generation_of :: "string \<Rightarrow> CommandQueueState \<Rightarrow> nat" where
  "generation_of k s = la_generation (lane_of k s)"

lemma generation_of_put:
  "generation_of k (put_lane j st s) = (if j = k then la_generation st else generation_of k s)"
  by (auto simp: generation_of_def lane_of_def put_lane_def coalesce_def)

lemma generation_cong: "cq_lanes t = cq_lanes s \<Longrightarrow> generation_of k t = generation_of k s"
  by (simp add: generation_of_def lane_of_def)

lemma generation_report [simp]: "generation_of k (report es s) = generation_of k s"
  by (rule generation_cong) simp

lemma generation_getLane [simp]: "generation_of k (getLaneState j s) = generation_of k s"
proof (cases "map_get (cq_lanes s) j")
  case None
  then show ?thesis
    by (auto simp: getLaneState_def generation_of_put)
       (simp add: generation_of_def lane_of_def coalesce_def)
qed (simp add: getLaneState_def)

lemma generation_put_same:
  "la_generation st = la_generation (lane_of j s) \<Longrightarrow> generation_of k (put_lane j st s) = generation_of k s"
  by (simp add: generation_of_put) (simp add: generation_of_def)

lemma generation_pump [simp]: "generation_of k (pump now j s) = generation_of k s"
proof -
  obtain a q n st where p: "pump_queue (la_maxConcurrent (lane_of j s)) (cq_nextTaskId s)
      (la_activeTaskIds (lane_of j s)) (la_queue (lane_of j s)) = (a, q, n, st)"
    by (rule prod_cases4)
  let ?st = "lane_of j s\<lparr>la_activeTaskIds := a, la_queue := q, la_draining := False\<rparr>"
  have "cq_lanes (pump now j s) = cq_lanes (put_lane j ?st s)"
    by (simp add: pump_def Let_def p)
  then have "generation_of k (pump now j s) = generation_of k (put_lane j ?st s)"
    by (rule generation_cong)
  also have "\<dots> = generation_of k s" by (rule generation_put_same) simp
  finally show ?thesis .
qed

lemma generation_drain [simp]: "generation_of k (drainLane now j s) = generation_of k s"
proof -
  have "generation_of k (put_lane j (lane_of j t\<lparr>la_draining := True\<rparr>) t) = generation_of k t" for t
    by (rule generation_put_same) simp
  then show ?thesis by (simp add: drainLane_def Let_def)
qed

lemma generation_notify [simp]: "generation_of k (notifyActiveTaskWaiters s) = generation_of k s"
  using waiter_frame_notify [of s] by (intro generation_cong) (simp add: waiter_frame_def)

lemma generation_update [simp]:
  "generation_of k (s\<lparr>cq_running := r\<rparr>) = generation_of k s"
  "generation_of k (s\<lparr>cq_admission := a\<rparr>) = generation_of k s"
  "generation_of k (s\<lparr>cq_nextEntry := e\<rparr>) = generation_of k s"
  "generation_of k (s\<lparr>cq_nextQueueSequence := q\<rparr>) = generation_of k s"
  "generation_of k (s\<lparr>cq_activeTaskWaiters := w\<rparr>) = generation_of k s"
  "generation_of k (s\<lparr>cq_nextWaiter := n\<rparr>) = generation_of k s"
  by (rule generation_cong, simp)+

lemma generation_drain_all:
  "generation_of k (foldl (\<lambda>s lane. drainLane now lane s) s lanes) = generation_of k s"
  by (induction lanes arbitrary: s) simp_all

lemma generation_idle:
  "generation_of k (s\<lparr>cq_lanes := map (\<lambda>(k, st). (k, idle_lane st)) (cq_lanes s)\<rparr>) =
     (case map_get (cq_lanes s) k of None \<Rightarrow> generation_of k s | Some st \<Rightarrow> Suc (la_generation st))"
proof -
  have "la_generation (idle_lane st) = Suc (la_generation st)" for st
    by (simp add: idle_lane_def)
  then show ?thesis
    by (simp add: generation_of_def lane_of_def map_idle_lanes(2) coalesce_def del: map_map
        split: option.split)
qed

lemma generation_get: "map_get (cq_lanes s) k = Some st \<Longrightarrow> generation_of k s = la_generation st"
  by (simp add: generation_of_def lane_of_def coalesce_def)

text \<open>No operation takes a lane back to an earlier generation.\<close>

lemma generation_op: "generation_of k s \<le> generation_of k (run_queue_op x s)"
proof (cases x)
  case (SetConcurrency now lane m)
  then show ?thesis by (simp add: setCommandLaneConcurrency_def Let_def generation_put_same)
next
  case (Enqueue cur now lane opts)
  then show ?thesis by (simp add: enqueueCommandInLane_def Let_def generation_put_same)
next
  case (FinishTask now task ok)
  have "la_generation (snd (completeTask st i g)) = la_generation st" for st i g
    by (simp add: completeTask_def)
  then show ?thesis
    by (simp add: FinishTask finish_task_def Let_def split_beta generation_put_same)
next
  case (ClearLane lane)
  then show ?thesis
    by (auto simp: clearCommandLane_def Let_def generation_of_put generation_get split: option.split)
next
  case (ResetLane now lane)
  then show ?thesis
    by (auto simp: resetCommandLane_def Let_def generation_of_put generation_get idle_lane_def
        split: option.split)
next
  case (ResetAllLanes now)
  then show ?thesis
    using generation_idle [of k "s\<lparr>cq_admission := resetGatewayWorkAdmission (cq_admission s)\<rparr>"]
    by (simp add: resetAllLanes_def Let_def generation_drain_all generation_get
        split: option.splits)
next
  case (WaitForActive t)
  then show ?thesis by (simp add: waitForActiveTasks_def Let_def)
next
  case (WaiterTimeout w)
  then show ?thesis
    using waiter_frame_resolve [of s w False] generation_cong [of "resolveActiveTaskWaiter w False s" s k]
    by (simp add: waiter_frame_def WaiterTimeout)
qed (simp_all add: markGatewayDraining_def)

interpretation generations: inductive_invariant "\<lambda>s. g \<le> generation_of k s" queue_step
  "\<lambda>s. g \<le> generation_of k s" for g k
  by unfold_locales (auto elim!: queue_stepE intro: order_trans [OF _ generation_op])

lemma stale_completion:
  assumes "rt_generation task \<noteq> generation_of (rt_lane task) s"
  shows "finish_task now task ok s =
    report [EntrySettled (rt_entry task) (if ok then TaskResolved else TaskRejected)]
      (s\<lparr>cq_running := filter (\<lambda>t. t \<noteq> task) (cq_running s)\<rparr>)"
  using assms by (simp add: finish_task_def completeTask_def generation_of_def Let_def)

lemma lane_gen: "generation_of k (snd (resetCommandLane now lane s)) =
    (if k = normalizeLane lane \<and> map_has (cq_lanes s) k then Suc (generation_of k s) else generation_of k s)"
  by (auto simp: resetCommandLane_def Let_def generation_of_put generation_get idle_lane_def map_has_get
      split: option.split)

section \<open>Properties\<close>

text \<open>A reset retires the tasks it finds: whatever happens after a lane was reset, a task that
  ran before the reset frees no slot when it finally completes; it settles its own entry and
  leaves every lane and every waiter as they are.\<close>

theorem reset_retires_tasks:
  assumes "queue_reach s" "task \<in> set (cq_running s)" "rt_lane task = normalizeLane lane"
    and "queue_step\<^sup>*\<^sup>* (snd (resetCommandLane now lane s)) t"
  shows "finish_task later task ok t =
    report [EntrySettled (rt_entry task) (if ok then TaskResolved else TaskRejected)]
      (t\<lparr>cq_running := filter (\<lambda>r. r \<noteq> task) (cq_running t)\<rparr>)"
proof -
  let ?k = "normalizeLane lane"
  have "queue_base s" using queue.reach_inv [OF assms(1)] by (simp add: queue_inv_def)
  then have "map_has (cq_lanes s) ?k" "rt_generation task \<le> generation_of ?k s"
    using assms(2,3) by (auto simp: queue_base_def running_inv_def lane_inv_def map_has_get generation_get)
  then have "rt_generation task < generation_of ?k (snd (resetCommandLane now lane s))"
    by (simp add: lane_gen)
  also have "\<dots> \<le> generation_of ?k t" using generations.steps_inv [OF assms(4)] by blast
  finally show ?thesis using assms(3) by (intro stale_completion) simp
qed

theorem reset_retires_tasks_witness:
  "cq_lanes (finish_task 9 \<lparr>rt_taskId = 1, rt_lane = ''main'', rt_generation = 0, rt_entry = 0\<rparr> True
     (run_queue_op (ResetLane 5 ''main'') example_queue)) =
   cq_lanes (run_queue_op (ResetLane 5 ''main'') example_queue)"
proof -
  let ?task = "\<lparr>rt_taskId = 1, rt_lane = ''main'', rt_generation = 0, rt_entry = 0\<rparr>"
  let ?t = "snd (resetCommandLane 5 ''main'' example_queue)"
  have "?task \<in> set (cq_running example_queue)" "rt_lane ?task = normalizeLane ''main''"
    by code_simp+
  from reset_retires_tasks [OF example_queue_reach this, of 5 ?t 9 True]
  show ?thesis by simp
qed

end
