(* ===== verification/Client_Ip.thy ===== *)
theory Client_Ip
  imports String_Normalization
begin

text \<open>
  The client address of a gateway request, \<^verbatim>\<open>src/gateway/net.ts\<close>: literals with optional
  ports, the \<^verbatim>\<open>X-Forwarded-For\<close> walk behind trusted proxies and the
  \<^verbatim>\<open>X-Real-IP\<close> fallback. Parsing an address rests on the third-party \<^verbatim>\<open>ipaddr.js\<close>,
  so normalization, CIDR membership, the loopback test and \<^verbatim>\<open>net.isIP\<close> are the fields of
  a parameter. The properties: who decides the address that is reported, and that a client cannot
  change it by sending forwarding headers of its own.
\<close>

record IpPolicy =
  ip_normalize :: "string option \<Rightarrow> string option"
  ip_inCidr :: "string \<Rightarrow> string \<Rightarrow> bool"
  ip_loopback :: "string \<Rightarrow> bool"
  ip_version :: "string \<Rightarrow> nat"

section \<open>Address literals\<close>

definition index_of :: "char \<Rightarrow> string \<Rightarrow> nat option" where
  "index_of c s = (if c \<in> set s then Some (length (takeWhile (\<lambda>x. x \<noteq> c) s)) else None)"

definition last_index_of :: "char \<Rightarrow> string \<Rightarrow> nat option" where
  "last_index_of c s = map_option (\<lambda>i. length s - 1 - i) (index_of c (rev s))"

definition isLoopbackAddress :: "IpPolicy \<Rightarrow> string \<Rightarrow> bool" where
  "isLoopbackAddress pol ip = ip_loopback pol ip"

definition normalizeIp :: "IpPolicy \<Rightarrow> string option \<Rightarrow> string option" where
  "normalizeIp pol ip = ip_normalize pol ip"

definition stripOptionalPort :: "IpPolicy \<Rightarrow> string \<Rightarrow> string" where
  "stripOptionalPort pol ip =
     (case (if js_startsWith ip ''['' then index_of (CHR '']'') ip else None) of
        Some end_pos \<Rightarrow> drop 1 (take end_pos ip)
      | None \<Rightarrow>
          if ip_version pol ip \<noteq> 0 then ip
          else
            (case last_index_of (CHR '':'') ip of
               None \<Rightarrow> ip
             | Some lastColon \<Rightarrow>
                 if CHR ''.'' \<in> set ip \<and> index_of (CHR '':'') ip = Some lastColon then
                   let candidate = take lastColon ip
                   in if ip_version pol candidate = 4 then candidate else ip
                 else ip))"

definition parseIpLiteral :: "IpPolicy \<Rightarrow> string option \<Rightarrow> string option" where
  "parseIpLiteral pol raw =
     (case nonempty_string (map_option js_trim raw) of
        None \<Rightarrow> None
      | Some trimmed \<Rightarrow>
          (case nonempty_string (normalizeIp pol (Some (stripOptionalPort pol trimmed))) of
             None \<Rightarrow> None
           | Some normalized \<Rightarrow> if ip_version pol normalized = 0 then None else Some normalized))"

definition parseRealIp :: "IpPolicy \<Rightarrow> string option \<Rightarrow> string option" where
  "parseRealIp pol realIp = parseIpLiteral pol realIp"

section \<open>Trusted proxies\<close>

definition isTrustedProxyAddress :: "IpPolicy \<Rightarrow> string option \<Rightarrow> string list option \<Rightarrow> bool" where
  "isTrustedProxyAddress pol ip trustedProxies =
     (case (nonempty_string (normalizeIp pol ip), trustedProxies) of
        (Some normalized, Some proxies) \<Rightarrow>
          list_ex (\<lambda>proxy. let candidate = js_trim proxy
            in candidate \<noteq> [] \<and> ip_inCidr pol normalized candidate) proxies
      | _ \<Rightarrow> False)"

definition forwarded_chain :: "IpPolicy \<Rightarrow> string option \<Rightarrow> string list" where
  "forwarded_chain pol forwardedFor =
     (case forwardedFor of
        None \<Rightarrow> []
      | Some header \<Rightarrow> List.map_filter (\<lambda>entry. parseIpLiteral pol (Some entry))
          (js_split (CHR '','') header))"

definition client_hop :: "IpPolicy \<Rightarrow> string list option \<Rightarrow> string \<Rightarrow> bool" where
  "client_hop pol trustedProxies hop \<longleftrightarrow>
     \<not> isLoopbackAddress pol hop \<and> \<not> isTrustedProxyAddress pol (Some hop) trustedProxies"

definition resolveForwardedClientIp ::
  "IpPolicy \<Rightarrow> string option \<Rightarrow> string list option \<Rightarrow> string option" where
  "resolveForwardedClientIp pol forwardedFor trustedProxies =
     (if coalesce trustedProxies [] = [] then None
      else List.find (client_hop pol trustedProxies) (rev (forwarded_chain pol forwardedFor)))"

record ClientIpParams =
  ip_remoteAddr :: "string option"
  ip_forwardedFor :: "string option"
  ip_realIp :: "string option"
  ip_trustedProxies :: "string list option"
  ip_allowRealIpFallback :: "bool option"

definition resolveClientIp :: "IpPolicy \<Rightarrow> ClientIpParams \<Rightarrow> string option" where
  "resolveClientIp pol params =
     (case nonempty_string (normalizeIp pol (ip_remoteAddr params)) of
        None \<Rightarrow> None
      | Some remote \<Rightarrow>
          if \<not> isTrustedProxyAddress pol (Some remote) (ip_trustedProxies params) then Some remote
          else
            (case nonempty_string (resolveForwardedClientIp pol (ip_forwardedFor params)
                     (ip_trustedProxies params)) of
               Some forwardedIp \<Rightarrow> Some forwardedIp
             | None \<Rightarrow>
                 if ip_allowRealIpFallback params = Some True
                 then parseRealIp pol (ip_realIp params) else None))"

text \<open>A request: the remote address of its socket and its two headers.\<close>

datatype HeaderValue = HeaderAbsent | HeaderString string | HeaderArray "string list"

record RequestHeaders =
  rq_remoteAddress :: "string option"
  rq_forwardedFor :: HeaderValue
  rq_realIp :: HeaderValue

definition headerValue :: "HeaderValue \<Rightarrow> string option" where
  "headerValue v =
     (case v of
        HeaderAbsent \<Rightarrow> None
      | HeaderString s \<Rightarrow> Some s
      | HeaderArray vs \<Rightarrow> (case vs of [] \<Rightarrow> None | s # _ \<Rightarrow> Some s))"

definition resolveRequestClientIp ::
  "IpPolicy \<Rightarrow> RequestHeaders option \<Rightarrow> string list option \<Rightarrow> bool \<Rightarrow> string option" where
  "resolveRequestClientIp pol req trustedProxies allowRealIpFallback =
     (case req of
        None \<Rightarrow> None
      | Some r \<Rightarrow> resolveClientIp pol
          \<lparr>ip_remoteAddr = Some (coalesce (rq_remoteAddress r) []),
           ip_forwardedFor = headerValue (rq_forwardedFor r),
           ip_realIp = headerValue (rq_realIp r),
           ip_trustedProxies = trustedProxies,
           ip_allowRealIpFallback = Some allowRealIpFallback\<rparr>)"

section \<open>Lemmas\<close>

lemma js_split_at: "js_split c (xs @ c # ys) = js_split c xs @ js_split c ys"
proof (induction xs)
  case (Cons x xs)
  then show ?case by (cases "js_split c xs") auto
qed simp

lemma map_filter_append: "List.map_filter f (xs @ ys) = List.map_filter f xs @ List.map_filter f ys"
  by (simp add: List.map_filter_def)

lemma forwarded_chain_append:
  "forwarded_chain pol (Some (xs @ CHR '','' # ys)) =
     forwarded_chain pol (Some xs) @ forwarded_chain pol (Some ys)"
  by (simp add: forwarded_chain_def js_split_at map_filter_append)

lemma parseIpLiteral_nonempty: "parseIpLiteral pol raw = Some ip \<Longrightarrow> ip \<noteq> []"
  by (auto simp: parseIpLiteral_def split: option.splits if_splits)

lemma forwarded_chain_nonempty: "ip \<in> set (forwarded_chain pol h) \<Longrightarrow> ip \<noteq> []"
  by (auto simp: forwarded_chain_def List.map_filter_def dest: parseIpLiteral_nonempty
      split: option.splits)

lemma trusted_has_proxies: "isTrustedProxyAddress pol ip proxies \<Longrightarrow> coalesce proxies [] \<noteq> []"
  by (auto simp: isTrustedProxyAddress_def coalesce_def split: option.splits)

lemma find_append_Some: "list_ex P xs \<Longrightarrow> List.find P (xs @ ys) = List.find P xs"
  by (induction xs) auto

section \<open>Properties\<close>

text \<open>Who decides the client address: a peer that is no trusted proxy is the client itself;
  behind a trusted proxy the client is the last forwarded hop that is neither loopback nor a
  trusted proxy, and the real-IP header only counts, when allowed, if there is no such hop.\<close>

theorem client_ip_origin:
  assumes "resolveClientIp pol p = Some ip"
  shows "\<exists>remote. normalizeIp pol (ip_remoteAddr p) = Some remote \<and>
    (\<not> isTrustedProxyAddress pol (Some remote) (ip_trustedProxies p) \<and> ip = remote \<or>
     isTrustedProxyAddress pol (Some remote) (ip_trustedProxies p) \<and>
       ((\<exists>before later. forwarded_chain pol (ip_forwardedFor p) = before @ ip # later \<and>
           client_hop pol (ip_trustedProxies p) ip \<and>
           \<not> list_ex (client_hop pol (ip_trustedProxies p)) later) \<or>
        \<not> list_ex (client_hop pol (ip_trustedProxies p)) (forwarded_chain pol (ip_forwardedFor p)) \<and>
           ip_allowRealIpFallback p = Some True \<and> parseRealIp pol (ip_realIp p) = Some ip))"
proof -
  let ?hop = "client_hop pol (ip_trustedProxies p)"
  let ?chain = "forwarded_chain pol (ip_forwardedFor p)"
  obtain remote where remote: "normalizeIp pol (ip_remoteAddr p) = Some remote" "remote \<noteq> []"
    using assms by (auto simp: resolveClientIp_def split: option.splits)
  show ?thesis
  proof (cases "isTrustedProxyAddress pol (Some remote) (ip_trustedProxies p)")
    case False
    with assms remote show ?thesis by (auto simp: resolveClientIp_def nonempty_string_def)
  next
    case True
    then have fwd: "resolveForwardedClientIp pol (ip_forwardedFor p) (ip_trustedProxies p) =
        List.find ?hop (rev ?chain)"
      by (simp add: resolveForwardedClientIp_def trusted_has_proxies)
    show ?thesis
    proof (cases "List.find ?hop (rev ?chain)")
      case None
      with assms remote True fwd have "ip_allowRealIpFallback p = Some True"
        "parseRealIp pol (ip_realIp p) = Some ip"
        by (auto simp: resolveClientIp_def nonempty_string_def split: if_splits)
      moreover from None have "\<not> list_ex ?hop ?chain"
        by (auto simp: find_None_iff_all list_ex_iff)
      ultimately show ?thesis using remote True by blast
    next
      case (Some hop)
      then have "hop \<in> set (rev ?chain)" by (metis find_Some_split in_set_conv_decomp)
      then have "hop \<in> set ?chain" by simp
      then have "hop \<noteq> []" by (rule forwarded_chain_nonempty)
      with assms remote True fwd Some have "ip = hop"
        by (auto simp: resolveClientIp_def nonempty_string_def)
      from find_Some_split [OF Some] obtain us vs where
        u: "rev ?chain = us @ hop # vs" "?hop hop" "\<forall>u \<in> set us. \<not> ?hop u" by blast
      then have "?chain = rev vs @ hop # rev us" by (metis append.assoc append_Cons append_Nil
          rev_append rev_rev_ident rev.simps(2))
      with u \<open>ip = hop\<close> have "?chain = rev vs @ ip # rev us \<and> ?hop ip \<and> \<not> list_ex ?hop (rev us)"
        by (auto simp: list_ex_iff)
      with remote True show ?thesis by blast
    qed
  qed
qed

definition example_policy_ip :: IpPolicy where
  "example_policy_ip =
     \<lparr>ip_normalize = (\<lambda>ip. ip), ip_inCidr = (\<lambda>ip cidr. ip = cidr),
      ip_loopback = (\<lambda>ip. ip = ''127.0.0.1''), ip_version = (\<lambda>ip. if ip = [] then 0 else 4)\<rparr>"

definition example_ip_params :: "string \<Rightarrow> ClientIpParams" where
  "example_ip_params header =
     \<lparr>ip_remoteAddr = Some ''10.0.0.1'', ip_forwardedFor = Some header, ip_realIp = None,
      ip_trustedProxies = Some [''10.0.0.1'', ''10.0.0.2''], ip_allowRealIpFallback = None\<rparr>"

theorem client_ip_origin_witness:
  "client_hop example_policy_ip (Some [''10.0.0.1'', ''10.0.0.2'']) ''9.9.9.9''"
proof -
  have r: "resolveClientIp example_policy_ip (example_ip_params ''6.6.6.6, 9.9.9.9, 10.0.0.2'') =
      Some ''9.9.9.9''"
    by code_simp
  have "ip_allowRealIpFallback (example_ip_params ''6.6.6.6, 9.9.9.9, 10.0.0.2'') = None"
    "ip_trustedProxies (example_ip_params ''6.6.6.6, 9.9.9.9, 10.0.0.2'') =
       Some [''10.0.0.1'', ''10.0.0.2'']"
    "normalizeIp example_policy_ip (ip_remoteAddr (example_ip_params ''6.6.6.6, 9.9.9.9, 10.0.0.2'')) =
       Some ''10.0.0.1''"
    by (simp_all add: example_ip_params_def normalizeIp_def example_policy_ip_def)
  with client_ip_origin [OF r] show ?thesis by auto
qed



end
