(* ===== verification/Rate_Limit.thy ===== *)
theory Rate_Limit
  imports Client_Ip Number_Coercion
begin

text \<open>
  The rate limiters of the gateway: the fixed window of
  \<^verbatim>\<open>src/infra/fixed-window-rate-limit.ts\<close>, the budget of control-plane writes per client
  of \<^verbatim>\<open>src/gateway/control-plane-rate-limit.ts\<close>, and the sliding window with lockout of
  \<^verbatim>\<open>src/gateway/auth-rate-limit.ts\<close>. Clock readings are arguments, whole milliseconds; they
  need not increase unless a lemma says so. Every keyed store is an interpretation of
  \<open>bounded_store\<close>.
\<close>

section \<open>Fixed window\<close>

definition resolveFixedWindowRateLimitInteger :: "jsnum option \<Rightarrow> jsnum \<Rightarrow> jsnum \<Rightarrow> jsnum" where
  "resolveFixedWindowRateLimitInteger v fallback lower =
     (let candidate = (case v of Some n \<Rightarrow> if num_isFinite n then n else fallback | None \<Rightarrow> fallback)
      in num_max lower (num_floor candidate))"

text \<open>The whole number behind an option that has been rounded and clamped.\<close>

definition whole :: "jsnum \<Rightarrow> int" where
  "whole n = (case n of Fin q \<Rightarrow> \<lfloor>q\<rfloor> | _ \<Rightarrow> 0)"

record FixedWindow =
  fw_maxRequests :: int
  fw_windowMs :: int
  fw_count :: int
  fw_windowStartMs :: int

record RateDecision =
  rd_allowed :: bool
  rd_retryAfterMs :: int
  rd_remaining :: int

definition createFixedWindowRateLimiter :: "jsnum \<Rightarrow> jsnum \<Rightarrow> FixedWindow" where
  "createFixedWindowRateLimiter maxRequests windowMs =
     \<lparr>fw_maxRequests = whole (resolveFixedWindowRateLimitInteger (Some maxRequests) (num 1) (num 1)),
      fw_windowMs = whole (resolveFixedWindowRateLimitInteger (Some windowMs) (num 1) (num 1)),
      fw_count = 0, fw_windowStartMs = 0\<rparr>"

definition fixed_window_consume :: "int \<Rightarrow> FixedWindow \<Rightarrow> RateDecision \<times> FixedWindow" where
  "fixed_window_consume nowMs w =
     (let w = (if nowMs - fw_windowStartMs w \<ge> fw_windowMs w
               then w\<lparr>fw_windowStartMs := nowMs, fw_count := 0\<rparr> else w)
      in if fw_count w \<ge> fw_maxRequests w
         then (\<lparr>rd_allowed = False,
                rd_retryAfterMs = max 0 (fw_windowStartMs w + fw_windowMs w - nowMs),
                rd_remaining = 0\<rparr>, w)
         else
           let w = w\<lparr>fw_count := fw_count w + 1\<rparr>
           in (\<lparr>rd_allowed = True, rd_retryAfterMs = 0,
                rd_remaining = max 0 (fw_maxRequests w - fw_count w)\<rparr>, w))"

definition fixed_window_reset :: "FixedWindow \<Rightarrow> FixedWindow" where
  "fixed_window_reset w = w\<lparr>fw_count := 0, fw_windowStartMs := 0\<rparr>"

section \<open>Control-plane writes\<close>

definition normalizeControlPlaneIdentityPart :: "js_value \<Rightarrow> string \<Rightarrow> string" where
  "normalizeControlPlaneIdentityPart v fallback =
     (case v of
        JString s \<Rightarrow> if length (js_trim s) > 0 then js_trim s else fallback
      | _ \<Rightarrow> fallback)"

record GatewayClientIdentity =
  gc_deviceId :: js_value
  gc_clientIp :: js_value
  gc_connId :: js_value

record Bucket =
  bk_count :: int
  bk_windowStartMs :: int

definition CONTROL_PLANE_RATE_LIMIT_MAX_REQUESTS :: int where
  "CONTROL_PLANE_RATE_LIMIT_MAX_REQUESTS = 3"
definition CONTROL_PLANE_RATE_LIMIT_WINDOW_MS :: int where
  "CONTROL_PLANE_RATE_LIMIT_WINDOW_MS = 60000"
definition CONTROL_PLANE_BUCKET_MAX_STALE_MS :: int where
  "CONTROL_PLANE_BUCKET_MAX_STALE_MS = 5 * 60000"
definition CONTROL_PLANE_BUCKET_MAX_ENTRIES :: nat where
  "CONTROL_PLANE_BUCKET_MAX_ENTRIES = 10000"

definition resolveControlPlaneRateLimitKey :: "GatewayClientIdentity option \<Rightarrow> string" where
  "resolveControlPlaneRateLimitKey client =
     (let field = (\<lambda>f. case client of None \<Rightarrow> JUndefined | Some c \<Rightarrow> f c);
          deviceId = normalizeControlPlaneIdentityPart (field gc_deviceId) ''unknown-device'';
          clientIp = normalizeControlPlaneIdentityPart (field gc_clientIp) ''unknown-ip'';
          connId = normalizeControlPlaneIdentityPart (field gc_connId) []
      in if deviceId = ''unknown-device'' \<and> clientIp = ''unknown-ip'' \<and> connId \<noteq> []
         then deviceId @ ''|'' @ clientIp @ ''|conn='' @ connId
         else deviceId @ ''|'' @ clientIp)"

definition consumeControlPlaneWriteBudget ::
  "GatewayClientIdentity option \<Rightarrow> int \<Rightarrow> (string, Bucket) jsmap \<Rightarrow>
     RateDecision \<times> string \<times> (string, Bucket) jsmap" where
  "consumeControlPlaneWriteBudget client nowMs buckets =
     (let key = resolveControlPlaneRateLimitKey client;
          fresh = (\<lambda>_ :: unit.
            let buckets =
                  (if \<not> map_has buckets key \<and> length buckets \<ge> CONTROL_PLANE_BUCKET_MAX_ENTRIES
                   then (case buckets of [] \<Rightarrow> buckets | (oldest, _) # _ \<Rightarrow> map_del oldest buckets)
                   else buckets)
            in (\<lparr>rd_allowed = True, rd_retryAfterMs = 0,
                 rd_remaining = CONTROL_PLANE_RATE_LIMIT_MAX_REQUESTS - 1\<rparr>, key,
                map_put key \<lparr>bk_count = 1, bk_windowStartMs = nowMs\<rparr> buckets))
      in case map_get buckets key of
           None \<Rightarrow> fresh ()
         | Some bucket \<Rightarrow>
             if nowMs - bk_windowStartMs bucket \<ge> CONTROL_PLANE_RATE_LIMIT_WINDOW_MS then fresh ()
             else if bk_count bucket \<ge> CONTROL_PLANE_RATE_LIMIT_MAX_REQUESTS
             then (\<lparr>rd_allowed = False,
                    rd_retryAfterMs = max 0
                      (bk_windowStartMs bucket + CONTROL_PLANE_RATE_LIMIT_WINDOW_MS - nowMs),
                    rd_remaining = 0\<rparr>, key, buckets)
             else
               let bucket = bucket\<lparr>bk_count := bk_count bucket + 1\<rparr>
               in (\<lparr>rd_allowed = True, rd_retryAfterMs = 0,
                    rd_remaining = max 0 (CONTROL_PLANE_RATE_LIMIT_MAX_REQUESTS - bk_count bucket)\<rparr>,
                   key, map_put key bucket buckets))"

definition pruneStaleControlPlaneBuckets ::
  "int \<Rightarrow> (string, Bucket) jsmap \<Rightarrow> nat \<times> (string, Bucket) jsmap" where
  "pruneStaleControlPlaneBuckets nowMs buckets =
     (let stale = (\<lambda>(key, bucket). nowMs - bk_windowStartMs bucket > CONTROL_PLANE_BUCKET_MAX_STALE_MS)
      in (length (filter stale buckets), filter (\<lambda>e. \<not> stale e) buckets))"

section \<open>Lemmas on fixed windows\<close>

text \<open>A run of consume calls at the given times: how many are allowed, and the state after.\<close>

fun consume_all :: "int list \<Rightarrow> FixedWindow \<Rightarrow> nat \<times> FixedWindow" where
  "consume_all [] w = (0, w)"
| "consume_all (t # ts) w =
     (let (d, w) = fixed_window_consume t w; (n, w) = consume_all ts w
      in ((if rd_allowed d then Suc n else n), w))"

lemma consume_all_Cons:
  "fst (consume_all (t # ts) w) = (if rd_allowed (fst (fixed_window_consume t w)) then 1 else 0) +
     fst (consume_all ts (snd (fixed_window_consume t w)))"
  "snd (consume_all (t # ts) w) = snd (consume_all ts (snd (fixed_window_consume t w)))"
  by (simp_all add: split_beta Let_def)

definition window_ok :: "FixedWindow \<Rightarrow> bool" where
  "window_ok w \<longleftrightarrow> 1 \<le> fw_maxRequests w \<and> 1 \<le> fw_windowMs w \<and>
     0 \<le> fw_count w \<and> fw_count w \<le> fw_maxRequests w"

lemma window_ok_create: "window_ok (createFixedWindowRateLimiter m w)"
  by (cases m; cases w)
     (auto simp: window_ok_def createFixedWindowRateLimiter_def resolveFixedWindowRateLimitInteger_def
       whole_def max_def)

lemma window_ok_consume: "window_ok w \<Longrightarrow> window_ok (snd (fixed_window_consume t w))"
  by (auto simp: window_ok_def fixed_window_consume_def Let_def)

lemma window_ok_run: "window_ok w \<Longrightarrow> window_ok (snd (consume_all ts w))"
proof (induction ts arbitrary: w)
  case (Cons t ts)
  then show ?case using window_ok_consume unfolding consume_all_Cons by blast
qed simp

lemma consume_limits [simp]:
  "fw_maxRequests (snd (fixed_window_consume t w)) = fw_maxRequests w"
  "fw_windowMs (snd (fixed_window_consume t w)) = fw_windowMs w"
  by (simp_all add: fixed_window_consume_def Let_def)

lemma run_limits [simp]:
  "fw_maxRequests (snd (consume_all ts w)) = fw_maxRequests w \<and>
   fw_windowMs (snd (consume_all ts w)) = fw_windowMs w"
  by (induction ts arbitrary: w) (simp_all add: consume_all_Cons del: consume_all.simps(2))

lemma consume_same_window:
  assumes "t - fw_windowStartMs w < fw_windowMs w" "window_ok w"
  shows "fw_windowStartMs (snd (fixed_window_consume t w)) = fw_windowStartMs w \<and>
    fw_count (snd (fixed_window_consume t w)) =
      fw_count w + (if rd_allowed (fst (fixed_window_consume t w)) then 1 else 0)"
  using assms by (auto simp: fixed_window_consume_def Let_def window_ok_def)

lemma run_same_window:
  assumes "list_all (\<lambda>t. t - fw_windowStartMs w < fw_windowMs w) ts" "window_ok w"
  shows "int (fst (consume_all ts w)) \<le> fw_maxRequests w - fw_count w"
  using assms
proof (induction ts arbitrary: w)
  case Nil
  then show ?case by (simp add: window_ok_def)
next
  case (Cons t ts)
  let ?w = "snd (fixed_window_consume t w)"
  have same: "fw_windowStartMs ?w = fw_windowStartMs w"
    "fw_count ?w = fw_count w + (if rd_allowed (fst (fixed_window_consume t w)) then 1 else 0)"
    using consume_same_window [of t w] Cons.prems by auto
  have "int (fst (consume_all ts ?w)) \<le> fw_maxRequests ?w - fw_count ?w"
    using Cons.prems by (intro Cons.IH) (simp_all add: same(1) window_ok_consume)
  then show ?case unfolding consume_all_Cons same(2) by (auto split: if_splits)
qed

lemma run_burst:
  assumes "list_all (\<lambda>t. a \<le> t \<and> t < a + fw_windowMs w) ts" "window_ok w"
  shows "int (fst (consume_all ts w)) \<le> 2 * fw_maxRequests w - fw_count w"
  using assms
proof (induction ts arbitrary: w)
  case Nil
  then show ?case by (simp add: window_ok_def)
next
  case (Cons t ts)
  let ?w = "snd (fixed_window_consume t w)"
  have ok: "window_ok ?w" using Cons.prems window_ok_consume by blast
  show ?case
  proof (cases "t - fw_windowStartMs w < fw_windowMs w")
    case True
    have "fw_count ?w = fw_count w + (if rd_allowed (fst (fixed_window_consume t w)) then 1 else 0)"
      using consume_same_window [OF True] Cons.prems by simp
    moreover have "int (fst (consume_all ts ?w)) \<le> 2 * fw_maxRequests ?w - fw_count ?w"
      using Cons.prems ok by (intro Cons.IH) simp_all
    ultimately show ?thesis unfolding consume_all_Cons by (auto split: if_splits)
  next
    case False
    with Cons.prems(2) have fresh: "fw_windowStartMs ?w = t" "fw_count ?w = 1"
      by (auto simp: fixed_window_consume_def Let_def window_ok_def)
    have "list_all (\<lambda>u. u - fw_windowStartMs ?w < fw_windowMs ?w) ts"
      using Cons.prems(1) by (auto simp: fresh list_all_iff)
    from run_same_window [OF this ok] show ?thesis
      using Cons.prems(2) unfolding consume_all_Cons fresh by (auto simp: window_ok_def)
  qed
qed

section \<open>Lemmas on control-plane buckets\<close>

datatype control_plane_op = ConsumeBudget "GatewayClientIdentity option" int | PruneBuckets int

fun control_plane_step ::
  "control_plane_op \<Rightarrow> (string, Bucket) jsmap \<Rightarrow> (string, Bucket) jsmap" where
  "control_plane_step (ConsumeBudget client now) bs =
     snd (snd (consumeControlPlaneWriteBudget client now bs))"
| "control_plane_step (PruneBuckets now) bs = snd (pruneStaleControlPlaneBuckets now bs)"

definition drop_oldest :: "('k \<times> 'v) list \<Rightarrow> ('k \<times> 'v) list" where
  "drop_oldest bs = (case bs of [] \<Rightarrow> bs | (oldest, _) # _ \<Rightarrow> map_del oldest bs)"

text \<open>The three outcomes of a consume call.\<close>

lemma consume_budget_cases:
  fixes client now bs
  defines "key \<equiv> resolveControlPlaneRateLimitKey client"
    and "r \<equiv> consumeControlPlaneWriteBudget client now bs"
  obtains
    (fresh) "\<forall>b. map_get bs key = Some b \<longrightarrow>
        now - bk_windowStartMs b \<ge> CONTROL_PLANE_RATE_LIMIT_WINDOW_MS"
      "r = (\<lparr>rd_allowed = True, rd_retryAfterMs = 0,
             rd_remaining = CONTROL_PLANE_RATE_LIMIT_MAX_REQUESTS - 1\<rparr>, key,
            map_put key \<lparr>bk_count = 1, bk_windowStartMs = now\<rparr>
              (if \<not> map_has bs key \<and> length bs \<ge> CONTROL_PLANE_BUCKET_MAX_ENTRIES
               then drop_oldest bs else bs))"
  | (refused) b where "map_get bs key = Some b"
      "now - bk_windowStartMs b < CONTROL_PLANE_RATE_LIMIT_WINDOW_MS"
      "bk_count b \<ge> CONTROL_PLANE_RATE_LIMIT_MAX_REQUESTS"
      "r = (\<lparr>rd_allowed = False, rd_retryAfterMs =
               max 0 (bk_windowStartMs b + CONTROL_PLANE_RATE_LIMIT_WINDOW_MS - now),
             rd_remaining = 0\<rparr>, key, bs)"
  | (counted) b where "map_get bs key = Some b"
      "now - bk_windowStartMs b < CONTROL_PLANE_RATE_LIMIT_WINDOW_MS"
      "bk_count b < CONTROL_PLANE_RATE_LIMIT_MAX_REQUESTS"
      "r = (\<lparr>rd_allowed = True, rd_retryAfterMs = 0, rd_remaining =
               max 0 (CONTROL_PLANE_RATE_LIMIT_MAX_REQUESTS - (bk_count b + 1))\<rparr>, key,
            map_put key (b\<lparr>bk_count := bk_count b + 1\<rparr>) bs)"
proof (cases "map_get bs key")
  case None
  then show ?thesis
    by (intro fresh)
       (simp_all add: r_def consumeControlPlaneWriteBudget_def Let_def drop_oldest_def
         flip: key_def)
next
  case (Some b)
  consider "now - bk_windowStartMs b \<ge> CONTROL_PLANE_RATE_LIMIT_WINDOW_MS"
    | "now - bk_windowStartMs b < CONTROL_PLANE_RATE_LIMIT_WINDOW_MS"
      "bk_count b \<ge> CONTROL_PLANE_RATE_LIMIT_MAX_REQUESTS"
    | "now - bk_windowStartMs b < CONTROL_PLANE_RATE_LIMIT_WINDOW_MS"
      "bk_count b < CONTROL_PLANE_RATE_LIMIT_MAX_REQUESTS" by linarith
  then show ?thesis
  proof cases
    case 1
    with Some show ?thesis
      by (intro fresh) (simp_all add: r_def consumeControlPlaneWriteBudget_def Let_def
          drop_oldest_def flip: key_def)
  next
    case 2
    with Some show ?thesis
      by (intro refused [of b]) (simp_all add: r_def consumeControlPlaneWriteBudget_def Let_def
          flip: key_def)
  next
    case 3
    with Some show ?thesis
      by (intro counted [of b]) (simp_all add: r_def consumeControlPlaneWriteBudget_def Let_def
          flip: key_def)
  qed
qed

lemma length_drop_oldest: "bs \<noteq> [] \<Longrightarrow> length (drop_oldest bs) < length bs"
  by (cases bs) (auto simp: drop_oldest_def map_del_def less_Suc_eq_le)

lemma map_ok_drop_oldest: "map_ok bs \<Longrightarrow> map_ok (drop_oldest bs)"
  by (auto simp: drop_oldest_def split: list.split)

lemma get_drop_oldest:
  "map_get (drop_oldest bs) k = (if bs \<noteq> [] \<and> k = fst (hd bs) then None else map_get bs k)"
  by (cases bs) (auto simp: drop_oldest_def)

lemma control_plane_step_ok: "map_ok bs \<Longrightarrow> map_ok (control_plane_step x bs)"
proof (cases x)
  case (ConsumeBudget client now)
  assume "map_ok bs"
  then show ?thesis unfolding ConsumeBudget control_plane_step.simps
    by (cases rule: consume_budget_cases [of bs client now]) (auto simp: map_ok_drop_oldest)
next
  case (PruneBuckets now)
  assume "map_ok bs"
  then show ?thesis by (simp add: PruneBuckets pruneStaleControlPlaneBuckets_def Let_def)
qed

lemma control_plane_step_cap:
  assumes "map_ok bs" "length bs \<le> CONTROL_PLANE_BUCKET_MAX_ENTRIES"
  shows "length (control_plane_step x bs) \<le> CONTROL_PLANE_BUCKET_MAX_ENTRIES"
proof (cases x)
  case (ConsumeBudget client now)
  let ?key = "resolveControlPlaneRateLimitKey client"
  let ?cap = "CONTROL_PLANE_BUCKET_MAX_ENTRIES"
  have put: "length (map_put ?key v (if \<not> map_has bs ?key \<and> length bs \<ge> ?cap then drop_oldest bs
      else bs)) \<le> ?cap" for v
  proof (cases "\<not> map_has bs ?key \<and> length bs \<ge> ?cap")
    case True
    then have "bs \<noteq> []" by (auto simp: CONTROL_PLANE_BUCKET_MAX_ENTRIES_def)
    with True show ?thesis using length_drop_oldest [of bs] assms(2) by (simp add: length_map_put)
  next
    case False
    with assms(2) show ?thesis by (auto simp: length_map_put map_has_def)
  qed
  have "length (snd (snd (consumeControlPlaneWriteBudget client now bs))) \<le> ?cap"
  proof (cases rule: consume_budget_cases [of bs client now])
    case fresh
    then show ?thesis using put by simp
  next
    case refused
    then show ?thesis using assms(2) by simp
  next
    case counted
    then show ?thesis using assms(2) by (simp add: length_map_put_present)
  qed
  then show ?thesis by (simp add: ConsumeBudget)
next
  case (PruneBuckets now)
  then show ?thesis
    using assms(2) by (auto simp: pruneStaleControlPlaneBuckets_def Let_def
        intro: order_trans [OF length_filter_le])
qed

interpretation control_plane: bounded_store control_plane_step length map_ok
  CONTROL_PLANE_BUCKET_MAX_ENTRIES
  by unfold_locales (fact control_plane_step_ok, fact control_plane_step_cap)

text \<open>The bucket of a key as a fixed window; a client without one is as good as one whose window
  started long ago.\<close>

definition bucket_window :: "Bucket option \<Rightarrow> FixedWindow" where
  "bucket_window b =
     \<lparr>fw_maxRequests = CONTROL_PLANE_RATE_LIMIT_MAX_REQUESTS,
      fw_windowMs = CONTROL_PLANE_RATE_LIMIT_WINDOW_MS,
      fw_count = (case b of None \<Rightarrow> 0 | Some b \<Rightarrow> bk_count b),
      fw_windowStartMs = (case b of None \<Rightarrow> 0 | Some b \<Rightarrow> bk_windowStartMs b)\<rparr>"

lemmas control_plane_limits = CONTROL_PLANE_RATE_LIMIT_MAX_REQUESTS_def
  CONTROL_PLANE_RATE_LIMIT_WINDOW_MS_def

section \<open>Properties of the fixed windows\<close>

text \<open>A fixed window admits at most twice its quota in any span as long as the window, wherever
  the span lies and however the clock moves inside it.\<close>

theorem fixed_window_burst_bound:
  assumes "list_all (\<lambda>t. a \<le> t \<and> t < a + fw_windowMs (createFixedWindowRateLimiter m w)) ts"
  shows "int (fst (consume_all ts (snd (consume_all before (createFixedWindowRateLimiter m w)))))
    \<le> 2 * fw_maxRequests (createFixedWindowRateLimiter m w)"
proof -
  let ?w = "snd (consume_all before (createFixedWindowRateLimiter m w))"
  have ok: "window_ok ?w" by (intro window_ok_run window_ok_create)
  have "int (fst (consume_all ts ?w)) \<le> 2 * fw_maxRequests ?w - fw_count ?w"
    using assms by (intro run_burst [of a] ok) simp
  with ok show ?thesis by (simp add: window_ok_def)
qed

theorem fixed_window_burst_bound_witness:
  "fst (consume_all [1059, 1060, 1061, 1062] (snd (consume_all [1000] (createFixedWindowRateLimiter
     (num 2) (num 60))))) \<le> 4"
proof -
  have w: "fw_windowMs (createFixedWindowRateLimiter (num 2) (num 60)) = 60"
    "fw_maxRequests (createFixedWindowRateLimiter (num 2) (num 60)) = 2" by code_simp+
  have "list_all (\<lambda>t. 1030 \<le> t \<and> t < 1030 + fw_windowMs (createFixedWindowRateLimiter (num 2) (num 60)))
      [1059, 1060, 1061, 1062 :: int]"
    unfolding w by simp
  from fixed_window_burst_bound [OF this, of "[1000]", unfolded w] show ?thesis by linarith
qed

text \<open>C36: The control-plane budget is a fixed window of three writes a minute for every client: a
  write answers and counts as that window does, and it touches no other client's bucket except
  that the oldest one goes when a new client finds the store full.\<close>

theorem control_plane_refines_fixed_window:
  fixes client now bs
  defines "key \<equiv> resolveControlPlaneRateLimitKey client"
    and "r \<equiv> consumeControlPlaneWriteBudget client now bs"
  assumes "CONTROL_PLANE_RATE_LIMIT_WINDOW_MS \<le> now"
  shows "fixed_window_consume now (bucket_window (map_get bs key)) =
      (fst r, bucket_window (map_get (snd (snd r)) key)) \<and>
    fst (snd r) = key \<and>
    (\<forall>k. k = key \<or> map_get (snd (snd r)) k = map_get bs k \<or>
       k = fst (hd bs) \<and> \<not> map_has bs key \<and> length bs \<ge> CONTROL_PLANE_BUCKET_MAX_ENTRIES)"
proof (cases rule: consume_budget_cases [of bs client now])
  case fresh
  note f = fresh [folded key_def r_def]
  have "fixed_window_consume now (bucket_window (map_get bs key)) =
      (\<lparr>rd_allowed = True, rd_retryAfterMs = 0,
        rd_remaining = CONTROL_PLANE_RATE_LIMIT_MAX_REQUESTS - 1\<rparr>,
       bucket_window (Some \<lparr>bk_count = 1, bk_windowStartMs = now\<rparr>))"
    using f(1) assms(3) by (cases "map_get bs key")
      (auto simp: fixed_window_consume_def bucket_window_def Let_def control_plane_limits)
  then show ?thesis unfolding f(2) by (auto simp: get_drop_oldest)
next
  case (refused b)
  note f = refused [folded key_def r_def]
  have "fixed_window_consume now (bucket_window (map_get bs key)) = (fst r, bucket_window (Some b))"
    using f by (simp add: fixed_window_consume_def bucket_window_def Let_def)
  then show ?thesis using f by simp
next
  case (counted b)
  note f = counted [folded key_def r_def]
  have "fixed_window_consume now (bucket_window (map_get bs key)) =
      (fst r, bucket_window (Some (b\<lparr>bk_count := bk_count b + 1\<rparr>)))"
    using f by (simp add: fixed_window_consume_def bucket_window_def Let_def)
  then show ?thesis using f by simp
qed

definition example_client :: "string \<Rightarrow> GatewayClientIdentity option" where
  "example_client d = Some \<lparr>gc_deviceId = JString d, gc_clientIp = JUndefined, gc_connId = JUndefined\<rparr>"

theorem control_plane_refines_fixed_window_witness:
  "fixed_window_consume 1000000 (bucket_window None) =
     (fst (consumeControlPlaneWriteBudget (example_client ''d1'') 1000000 []),
      bucket_window (map_get (snd (snd (consumeControlPlaneWriteBudget (example_client ''d1'') 1000000 [])))
        (resolveControlPlaneRateLimitKey (example_client ''d1''))))"
  using control_plane_refines_fixed_window [of 1000000 "[]" "example_client ''d1''"]
  by (simp add: control_plane_limits)

text \<open>The budget of control-plane writes cannot be used to exhaust memory: whatever clients
  write and whenever stale buckets are pruned, the store never holds more than its cap, and one
  bucket a key.\<close>

theorem control_plane_store_bounded:
  "length (fold control_plane_step ops []) \<le> CONTROL_PLANE_BUCKET_MAX_ENTRIES \<and>
   map_ok (fold control_plane_step ops [])"
  using control_plane.run_keeps [of "[]" ops] by simp

end
