(* ===== verification/Task_Timeout.thy ===== *)
theory Task_Timeout
  imports Command_Queue Rate_Limit
begin

text \<open>
  \<^verbatim>\<open>runQueueEntryTask\<close> of \<^verbatim>\<open>src/process/command-queue.ts\<close>: the race of a queued
  task against its timeout. The promise and its listeners become a state with at most one armed
  timer and the listeners still registered; the task settling, the timer firing and the two abort
  signals are its events. The progress callback is read when the timer fires: its value is part of
  the event, \<open>None\<close> when it is absent, throws or returns \<^verbatim>\<open>undefined\<close>. The properties: a
  task with a timeout always has a way to end, a timeout is never premature, and what a release
  signal does.
\<close>

datatype TaskTimer = ProgressTimer | AbortTimer
datatype TaskOutcome = TaskSettled bool | TaskTimedOut

record TaskRun =
  tr_startedAtMs :: int
  tr_timeoutMs :: "int option"
  tr_abortGraceMs :: int
  tr_timer :: "(int \<times> TaskTimer) option"
  tr_abortListener :: bool
  tr_releaseListener :: bool
  tr_outcome :: "TaskOutcome option"

text \<open>The signals of an entry when its task starts: absent, present or already aborted.\<close>

datatype SignalState = NoSignal | Pending | Aborted

definition readLastProgressAtMs :: "jsnum option \<Rightarrow> TaskRun \<Rightarrow> int" where
  "readLastProgressAtMs progress r =
     (case progress of
        None \<Rightarrow> tr_startedAtMs r
      | Some v \<Rightarrow>
          if num_isFinite v \<and> num_less (num 0) v
          then max (tr_startedAtMs r) (whole v) else tr_startedAtMs r)"

text \<open>The end of the race: the \<^verbatim>\<open>finally\<close> block clears the timer and the listeners.\<close>

definition settle_race :: "TaskOutcome \<Rightarrow> TaskRun \<Rightarrow> TaskRun" where
  "settle_race outcome r =
     (case tr_outcome r of
        Some _ \<Rightarrow> r
      | None \<Rightarrow> r\<lparr>tr_outcome := Some outcome, tr_timer := None, tr_abortListener := False,
                   tr_releaseListener := False\<rparr>)"

definition armTimer :: "int \<Rightarrow> int \<Rightarrow> TaskTimer \<Rightarrow> TaskRun \<Rightarrow> TaskRun" where
  "armTimer now delayMs kind r =
     (if delayMs \<le> 0 then settle_race TaskTimedOut (r\<lparr>tr_timer := None\<rparr>)
      else r\<lparr>tr_timer := Some (now + delayMs, kind)\<rparr>)"

definition armProgressTimeout :: "int \<Rightarrow> jsnum option \<Rightarrow> TaskRun \<Rightarrow> TaskRun" where
  "armProgressTimeout now progress r =
     (let elapsedMs = max 0 (now - readLastProgressAtMs progress r);
          remainingMs = coalesce (tr_timeoutMs r) 0 - elapsedMs
      in if remainingMs \<le> 0 then settle_race TaskTimedOut r
         else armTimer now remainingMs ProgressTimer r)"

definition armAbortTimeout :: "int \<Rightarrow> TaskRun \<Rightarrow> TaskRun" where
  "armAbortTimeout now r = armTimer now (tr_abortGraceMs r) AbortTimer r"

definition runQueueEntryTask ::
  "int \<Rightarrow> jsnum option \<Rightarrow> SignalState \<Rightarrow> SignalState \<Rightarrow> QueueEntry \<Rightarrow> TaskRun" where
  "runQueueEntryTask now progress abortSignal releaseSignal entry =
     (let taskTimeoutMs = map_option whole (normalizeTaskTimeoutMs (qe_taskTimeoutMs entry));
          grace = coalesce2 (map_option whole (normalizeTaskTimeoutMs (qe_taskTimeoutAbortGraceMs entry)))
            taskTimeoutMs;
          r = \<lparr>tr_startedAtMs = now, tr_timeoutMs = taskTimeoutMs, tr_abortGraceMs = coalesce grace 0,
               tr_timer = None, tr_abortListener = False, tr_releaseListener = False,
               tr_outcome = None\<rparr>
      in if taskTimeoutMs = None then r
         else if releaseSignal = Aborted then settle_race TaskTimedOut r
         else if abortSignal = Aborted then armAbortTimeout now r
         else
           let r = armProgressTimeout now progress r
           in if tr_outcome r \<noteq> None then r
              else r\<lparr>tr_abortListener := (abortSignal = Pending),
                     tr_releaseListener := (releaseSignal = Pending)\<rparr>)"

datatype task_event =
  TaskSettles bool | TimerFires int "jsnum option" | AbortFires int | ReleaseFires int

text \<open>A timer fires at its due time or later; an event of a race that is over changes nothing.\<close>

definition task_event_step :: "task_event \<Rightarrow> TaskRun \<Rightarrow> TaskRun" where
  "task_event_step e r =
     (case e of
        TaskSettles ok \<Rightarrow> settle_race (TaskSettled ok) r
      | TimerFires now progress \<Rightarrow>
          (case tr_timer r of
             None \<Rightarrow> r
           | Some (due, kind) \<Rightarrow>
               if now < due then r
               else case kind of
                 ProgressTimer \<Rightarrow> armProgressTimeout now progress r
               | AbortTimer \<Rightarrow> settle_race TaskTimedOut r)
      | AbortFires now \<Rightarrow>
          if tr_abortListener r then armAbortTimeout now (r\<lparr>tr_abortListener := False\<rparr>) else r
      | ReleaseFires now \<Rightarrow>
          if tr_releaseListener r
          then settle_race TaskTimedOut (r\<lparr>tr_releaseListener := False\<rparr>) else r)"

section \<open>Lemmas\<close>

lemma normalizeTaskTimeout_range:
  assumes "normalizeTaskTimeoutMs v = Some n"
  shows "1 \<le> whole n \<and> whole n \<le> MAX_TIMER_TIMEOUT_MS"
proof -
  from assms obtain m where "clampPositiveTimerTimeoutMs (UNumber m) = Some n"
    by (auto simp: normalizeTaskTimeoutMs_def split: option.splits if_splits)
  from clampPositive_range [OF this] show ?thesis by (auto simp: whole_def)
qed

text \<open>While the race is open, a task with a timeout has exactly one timer armed, with a positive
  grace behind it; once it is over nothing is left armed or registered.\<close>

definition run_inv :: "TaskRun \<Rightarrow> bool" where
  "run_inv r \<longleftrightarrow>
     (case tr_timeoutMs r of None \<Rightarrow> tr_timer r = None \<and> \<not> tr_abortListener r \<and> \<not> tr_releaseListener r
      | Some t \<Rightarrow> 1 \<le> t \<and> 1 \<le> tr_abortGraceMs r \<and> (tr_outcome r = None \<longrightarrow> tr_timer r \<noteq> None)) \<and>
     (tr_outcome r \<noteq> None \<longrightarrow> tr_timer r = None \<and> \<not> tr_abortListener r \<and> \<not> tr_releaseListener r)"

lemma settle_race_open: "tr_outcome r = None \<Longrightarrow> settle_race x r =
    r\<lparr>tr_outcome := Some x, tr_timer := None, tr_abortListener := False, tr_releaseListener := False\<rparr>"
  by (simp add: settle_race_def)

lemma settle_race_inv: "run_inv r \<Longrightarrow> run_inv (settle_race x r)"
  by (auto simp: run_inv_def settle_race_def split: option.splits)

lemma arm_progress_inv:
  assumes "tr_timeoutMs r = Some t" "1 \<le> t" "1 \<le> tr_abortGraceMs r" "tr_outcome r = None"
  shows "run_inv (armProgressTimeout now p r)"
  using assms by (auto simp: armProgressTimeout_def armTimer_def run_inv_def settle_race_open Let_def)

lemma arm_abort_inv:
  assumes "tr_timeoutMs r = Some t" "1 \<le> t" "1 \<le> tr_abortGraceMs r" "tr_outcome r = None"
  shows "run_inv (armAbortTimeout now r)"
  using assms by (simp add: armAbortTimeout_def armTimer_def run_inv_def)

lemma run_inv_timer:
  "run_inv r \<Longrightarrow> tr_timer r = Some d \<Longrightarrow> \<exists>t. tr_timeoutMs r = Some t \<and> 1 \<le> t \<and> 1 \<le> tr_abortGraceMs r \<and>
     tr_outcome r = None"
  by (auto simp: run_inv_def split: option.splits)

lemma run_inv_listener:
  "run_inv r \<Longrightarrow> tr_abortListener r \<or> tr_releaseListener r \<Longrightarrow>
     \<exists>t. tr_timeoutMs r = Some t \<and> 1 \<le> t \<and> 1 \<le> tr_abortGraceMs r \<and> tr_outcome r = None"
  by (auto simp: run_inv_def split: option.splits)

lemma run_inv_step: "run_inv r \<Longrightarrow> run_inv (task_event_step e r)"
proof (cases e)
  case (TaskSettles ok)
  assume "run_inv r"
  then show ?thesis by (simp add: TaskSettles task_event_step_def settle_race_inv)
next
  case (TimerFires now p)
  assume inv: "run_inv r"
  show ?thesis
  proof (cases "tr_timer r")
    case None
    with inv show ?thesis by (simp add: TimerFires task_event_step_def)
  next
    case (Some d)
    from run_inv_timer [OF inv Some] inv Some show ?thesis
      by (auto simp: TimerFires task_event_step_def intro: arm_progress_inv settle_race_inv
          split: prod.split TaskTimer.split)
  qed
next
  case (AbortFires now)
  assume inv: "run_inv r"
  show ?thesis
  proof (cases "tr_abortListener r")
    case True
    from run_inv_listener [OF inv] True obtain t where
      "tr_timeoutMs r = Some t" "1 \<le> t" "1 \<le> tr_abortGraceMs r" "tr_outcome r = None" by blast
    then have "run_inv (armAbortTimeout now (r\<lparr>tr_abortListener := False\<rparr>))"
      by (intro arm_abort_inv) simp_all
    with True show ?thesis by (simp add: AbortFires task_event_step_def)
  qed (use inv in \<open>simp add: AbortFires task_event_step_def\<close>)
next
  case (ReleaseFires now)
  assume inv: "run_inv r"
  then have "run_inv (r\<lparr>tr_releaseListener := False\<rparr>)" by (simp add: run_inv_def split: option.splits)
  with inv show ?thesis by (auto simp: ReleaseFires task_event_step_def intro: settle_race_inv)
qed

lemma run_inv_start: "run_inv (runQueueEntryTask now p abortSignal releaseSignal entry)"
proof (cases "normalizeTaskTimeoutMs (qe_taskTimeoutMs entry)")
  case None
  then show ?thesis by (simp add: runQueueEntryTask_def run_inv_def Let_def)
next
  case (Some n)
  let ?g = "coalesce (coalesce2 (map_option whole (normalizeTaskTimeoutMs (qe_taskTimeoutAbortGraceMs entry)))
    (Some (whole n))) 0"
  let ?r = "\<lparr>tr_startedAtMs = now, tr_timeoutMs = Some (whole n), tr_abortGraceMs = ?g, tr_timer = None,
    tr_abortListener = False, tr_releaseListener = False, tr_outcome = None\<rparr>"
  have n: "1 \<le> whole n" using normalizeTaskTimeout_range [OF Some] by simp
  have g: "1 \<le> ?g"
    using n normalizeTaskTimeout_range [of "qe_taskTimeoutAbortGraceMs entry"]
    by (cases "normalizeTaskTimeoutMs (qe_taskTimeoutAbortGraceMs entry)")
       (auto simp: coalesce_def coalesce2_def)
  have p: "run_inv (armProgressTimeout now p ?r)" using n g by (intro arm_progress_inv) simp_all
  have a: "run_inv (armAbortTimeout now ?r)" using n g by (intro arm_abort_inv) simp_all
  have l: "run_inv (r\<lparr>tr_abortListener := x, tr_releaseListener := y\<rparr>)"
    if "run_inv r" "tr_outcome r = None" "tr_timeoutMs r \<noteq> None" for r x y
    using that by (auto simp: run_inv_def)
  have s: "run_inv (settle_race TaskTimedOut ?r)" using n g by (simp add: settle_race_open run_inv_def)
  have "tr_timeoutMs (armProgressTimeout now p ?r) \<noteq> None"
    by (simp add: armProgressTimeout_def armTimer_def settle_race_def Let_def)
  then show ?thesis using p a s l [OF p]
    by (simp add: runQueueEntryTask_def Some Let_def)
qed

inductive task_step :: "TaskRun \<Rightarrow> TaskRun \<Rightarrow> bool" where
  "task_step r (task_event_step e r)"

interpretation task_run: inductive_invariant
  "\<lambda>r. \<exists>now p a l entry. r = runQueueEntryTask now p a l entry" task_step run_inv
  by unfold_locales (auto simp: run_inv_start elim!: task_step.cases intro: run_inv_step)

text \<open>What a run never changes, and where an abort timer comes from.\<close>

lemma constants_step:
  "tr_startedAtMs (task_event_step e r) = tr_startedAtMs r"
  "tr_timeoutMs (task_event_step e r) = tr_timeoutMs r"
  "tr_abortGraceMs (task_event_step e r) = tr_abortGraceMs r"
  by (cases e; simp add: task_event_step_def settle_race_def armProgressTimeout_def armAbortTimeout_def
      armTimer_def Let_def split: option.split TaskTimer.split)+

lemma constants_run:
  "tr_startedAtMs (fold task_event_step es r) = tr_startedAtMs r"
  "tr_timeoutMs (fold task_event_step es r) = tr_timeoutMs r"
  "tr_abortGraceMs (fold task_event_step es r) = tr_abortGraceMs r"
  by (induction es arbitrary: r) (simp_all add: constants_step)

lemma abort_timer_step:
  assumes "tr_timer (task_event_step e r) = Some (due, AbortTimer)"
  shows "tr_timer r = Some (due, AbortTimer) \<or>
    (\<exists>since. e = AbortFires since \<and> due = since + tr_abortGraceMs r)"
  using assms
  by (cases e) (auto simp: task_event_step_def settle_race_def armProgressTimeout_def armAbortTimeout_def
      armTimer_def Let_def split: option.splits TaskTimer.splits if_splits)

lemma abort_timer_start:
  assumes "tr_timer (runQueueEntryTask now p a l entry) = Some (due, AbortTimer)"
  shows "a = Aborted \<and> due = now + tr_abortGraceMs (runQueueEntryTask now p a l entry)"
  using assms
  by (auto simp: runQueueEntryTask_def settle_race_def armProgressTimeout_def armAbortTimeout_def
      armTimer_def Let_def split: option.splits if_splits)

lemma abort_timer_run:
  "tr_timer (fold task_event_step es (runQueueEntryTask now p a l entry)) = Some (due, AbortTimer) \<Longrightarrow>
   \<exists>since. due = since + tr_abortGraceMs (runQueueEntryTask now p a l entry) \<and>
     (AbortFires since \<in> set es \<or> a = Aborted \<and> since = now)"
proof (induction es arbitrary: due rule: rev_induct)
  case Nil
  then show ?case using abort_timer_start [of now p a l entry due] by auto
next
  case (snoc e es)
  then show ?case using abort_timer_step [of e "fold task_event_step es (runQueueEntryTask now p a l entry)" due]
    by (auto simp: constants_run)
qed

lemma timed_out_cases:
  assumes "tr_outcome r = None" "tr_outcome (task_event_step e r) = Some TaskTimedOut"
  shows "(\<exists>now. e = ReleaseFires now) \<or> (\<exists>now. e = AbortFires now \<and> tr_abortGraceMs r \<le> 0) \<or>
    (\<exists>now p due. e = TimerFires now p \<and> tr_timer r = Some (due, ProgressTimer) \<and>
       coalesce (tr_timeoutMs r) 0 \<le> max 0 (now - readLastProgressAtMs p r)) \<or>
    (\<exists>now p due. e = TimerFires now p \<and> tr_timer r = Some (due, AbortTimer) \<and> due \<le> now)"
  using assms
  by (cases e) (auto simp: task_event_step_def settle_race_def armProgressTimeout_def armAbortTimeout_def
      armTimer_def Let_def split: option.splits TaskTimer.splits if_splits)

text \<open>Whether a run still listens to the release signal.\<close>

lemma release_listener_step:
  assumes "tr_outcome (task_event_step e r) = None" "\<forall>now. e \<noteq> ReleaseFires now"
  shows "tr_releaseListener (task_event_step e r) = tr_releaseListener r \<and> tr_outcome r = None"
  using assms
  by (cases e) (auto simp: task_event_step_def settle_race_def armProgressTimeout_def armAbortTimeout_def
      armTimer_def Let_def split: option.splits TaskTimer.splits if_splits)

lemma release_listener_run:
  "tr_outcome (fold task_event_step es r) = None \<Longrightarrow>
   list_all (\<lambda>e. case e of ReleaseFires _ \<Rightarrow> False | _ \<Rightarrow> True) es \<Longrightarrow>
   tr_releaseListener (fold task_event_step es r) = tr_releaseListener r \<and> tr_outcome r = None"
proof (induction es rule: rev_induct)
  case (snoc e es)
  have "\<forall>now. e \<noteq> ReleaseFires now" using snoc.prems(2) by (auto split: task_event.splits)
  with snoc release_listener_step [of e "fold task_event_step es r"] show ?case by simp
qed simp

lemma release_listener_start:
  assumes "normalizeTaskTimeoutMs (qe_taskTimeoutMs entry) \<noteq> None"
    "tr_outcome (runQueueEntryTask now p a Pending entry) = None"
  shows "tr_releaseListener (runQueueEntryTask now p a Pending entry) \<longleftrightarrow> a \<noteq> Aborted"
  using assms
  by (auto simp: runQueueEntryTask_def settle_race_def armProgressTimeout_def armAbortTimeout_def
      armTimer_def Let_def split: option.splits if_splits)

section \<open>Properties\<close>

text \<open>A task with a timeout cannot hold its lane forever: in every reachable open race a timer is
  armed, and when it fires the race ends unless progress was reported less than the timeout
  before; once an abort has been seen, it ends at the first firing.\<close>

theorem task_timer_always_armed:
  assumes "reach (\<lambda>r. \<exists>now p a l entry. r = runQueueEntryTask now p a l entry) task_step r"
    and "tr_timeoutMs r = Some t" "tr_outcome r = None"
  shows "\<exists>due kind. tr_timer r = Some (due, kind) \<and>
    (\<forall>now p. due \<le> now \<and> (kind = AbortTimer \<or> t \<le> now - readLastProgressAtMs p r) \<longrightarrow>
       tr_outcome (task_event_step (TimerFires now p) r) = Some TaskTimedOut)"
proof -
  have "run_inv r" using task_run.reach_inv [OF assms(1)] .
  with assms(2,3) have t: "1 \<le> t" and armed: "tr_timer r \<noteq> None" by (auto simp: run_inv_def)
  then obtain due kind where timer: "tr_timer r = Some (due, kind)" by auto
  have "tr_outcome (task_event_step (TimerFires now p) r) = Some TaskTimedOut"
    if "due \<le> now" "kind = AbortTimer \<or> t \<le> now - readLastProgressAtMs p r" for now p
    using that timer assms(2,3) t
    by (cases kind) (auto simp: task_event_step_def armProgressTimeout_def settle_race_open Let_def)
  with timer show ?thesis by blast
qed

definition example_entry :: QueueEntry where
  "example_entry = \<lparr>qe_id = 0, qe_enqueuedAt = 0, qe_sequence = 1, qe_priority = 0,
     qe_warnAfterMs = num 2000, qe_queuedAheadAtEnqueue = 0, qe_activeAheadAtEnqueue = 0,
     qe_taskTimeoutMs = Some (num 1000), qe_taskTimeoutAbortGraceMs = Some (num 50), qe_onWait = False\<rparr>"

definition example_run :: "SignalState \<Rightarrow> TaskRun" where
  "example_run a = runQueueEntryTask 10 None a Pending example_entry"

lemma example_run_eq:
  "example_run Pending = \<lparr>tr_startedAtMs = 10, tr_timeoutMs = Some 1000, tr_abortGraceMs = 50,
     tr_timer = Some (1010, ProgressTimer), tr_abortListener = True, tr_releaseListener = True,
     tr_outcome = None\<rparr>"
  by code_simp

theorem task_timer_always_armed_witness:
  "\<exists>due kind. tr_timer (example_run Pending) = Some (due, kind)"
proof -
  have "reach (\<lambda>r. \<exists>now p a l entry. r = runQueueEntryTask now p a l entry) task_step (example_run Pending)"
    unfolding example_run_def by (rule reach_init) blast
  from task_timer_always_armed [OF this, of 1000] show ?thesis by (auto simp: example_run_eq)
qed

text \<open>C39: A timeout is never premature: an open race times out only because the release signal fired,
  because the timer found no progress for the whole timeout, or because the grace after an abort
  has passed.\<close>

theorem task_timeout_justified:
  fixes start p0 a l entry
  defines "r0 \<equiv> runQueueEntryTask start p0 a l entry"
  assumes "tr_outcome (fold task_event_step es r0) = None"
    and "tr_outcome (task_event_step e (fold task_event_step es r0)) = Some TaskTimedOut"
  shows "(\<exists>now. e = ReleaseFires now) \<or>
    (\<exists>now p t. e = TimerFires now p \<and> tr_timeoutMs r0 = Some t \<and> t \<le> now - readLastProgressAtMs p r0) \<or>
    (\<exists>now p since. e = TimerFires now p \<and> since + tr_abortGraceMs r0 \<le> now \<and>
       (AbortFires since \<in> set es \<or> a = Aborted \<and> since = start))"
proof -
  let ?r = "fold task_event_step es r0"
  have keep: "run_inv (fold task_event_step es r)" if "run_inv r" for r
    using that by (induction es arbitrary: r) (auto intro: run_inv_step)
  have inv: "run_inv ?r" unfolding r0_def by (intro keep run_inv_start)
  have last: "readLastProgressAtMs p ?r = readLastProgressAtMs p r0" for p
    by (simp add: readLastProgressAtMs_def constants_run split: option.split)
  from timed_out_cases [OF assms(2,3)] show ?thesis
  proof (elim disjE exE conjE)
    fix now assume "e = AbortFires now" "tr_abortGraceMs ?r \<le> 0"
    with assms(3) assms(2) have "tr_abortListener ?r" by (auto simp: task_event_step_def split: if_splits)
    with run_inv_listener [OF inv] \<open>tr_abortGraceMs ?r \<le> 0\<close> show ?thesis by auto
  next
    fix now p due assume e: "e = TimerFires now p" and timer: "tr_timer ?r = Some (due, ProgressTimer)"
      and le: "coalesce (tr_timeoutMs ?r) 0 \<le> max 0 (now - readLastProgressAtMs p ?r)"
    from run_inv_timer [OF inv timer] obtain t where "tr_timeoutMs ?r = Some t" "1 \<le> t" by blast
    with le last [of p] have "tr_timeoutMs r0 = Some t \<and> t \<le> now - readLastProgressAtMs p r0"
      by (simp add: constants_run)
    with e show ?thesis by blast
  next
    fix now p due assume e: "e = TimerFires now p" and timer: "tr_timer ?r = Some (due, AbortTimer)"
      and "due \<le> now"
    from abort_timer_run [of es start p0 a l entry due] timer obtain since where
      "due = since + tr_abortGraceMs r0" "AbortFires since \<in> set es \<or> a = Aborted \<and> since = start"
      unfolding r0_def by blast
    with e \<open>due \<le> now\<close> show ?thesis by blast
  qed blast
qed

theorem task_timeout_justified_witness:
  "\<exists>since. since + 50 \<le> 400 \<and> AbortFires since \<in> set [AbortFires 300]"
proof -
  let ?r0 = "runQueueEntryTask 10 None Pending Pending example_entry"
  have r0: "?r0 = \<lparr>tr_startedAtMs = 10, tr_timeoutMs = Some 1000, tr_abortGraceMs = 50,
     tr_timer = Some (1010, ProgressTimer), tr_abortListener = True, tr_releaseListener = True,
     tr_outcome = None\<rparr>"
    using example_run_eq by (simp add: example_run_def)
  have "tr_outcome (fold task_event_step [AbortFires 300] ?r0) = None"
    "tr_outcome (task_event_step (TimerFires 400 None) (fold task_event_step [AbortFires 300] ?r0)) =
       Some TaskTimedOut"
    by code_simp+
  from task_timeout_justified [OF this] show ?thesis by (simp add: r0 readLastProgressAtMs_def)
qed

text \<open>C40: What the release signal does: fired while the race is open it ends a task with a timeout at
  once, unless the abort signal had already fired when the task started; then the code does not
  listen to it, and the task keeps its slot until the abort grace is over.\<close>

theorem release_signal_effect:
  fixes start p0 a entry
  defines "r0 \<equiv> runQueueEntryTask start p0 a Pending entry"
  assumes "normalizeTaskTimeoutMs (qe_taskTimeoutMs entry) \<noteq> None"
    and "list_all (\<lambda>e. case e of ReleaseFires _ \<Rightarrow> False | _ \<Rightarrow> True) es"
    and "tr_outcome (fold task_event_step es r0) = None"
  shows "tr_outcome (task_event_step (ReleaseFires now) (fold task_event_step es r0)) =
    (if a = Aborted then None else Some TaskTimedOut)"
proof -
  have "tr_releaseListener (fold task_event_step es r0) \<longleftrightarrow> a \<noteq> Aborted"
    using release_listener_run [OF assms(4,3)] release_listener_start [OF assms(2)]
    unfolding r0_def by simp
  with assms(4) show ?thesis by (simp add: task_event_step_def settle_race_def)
qed

theorem release_signal_effect_witness:
  "tr_outcome (task_event_step (ReleaseFires 20) (example_run Aborted)) = None \<and>
   tr_outcome (task_event_step (ReleaseFires 20) (example_run Pending)) = Some TaskTimedOut"
proof -
  have t: "normalizeTaskTimeoutMs (qe_taskTimeoutMs example_entry) \<noteq> None" by code_simp
  have ends: "tr_outcome (fold task_event_step [] (runQueueEntryTask 10 None Aborted Pending example_entry)) = None"
    "tr_outcome (fold task_event_step [] (runQueueEntryTask 10 None Pending Pending example_entry)) = None"
    by code_simp+
  from release_signal_effect [OF t _ ends(1), of 20] release_signal_effect [OF t _ ends(2), of 20]
  show ?thesis by (simp add: example_run_def)
qed

end
