(* ===== verification/Auth_Rate_Limit.thy ===== *)
theory Auth_Rate_Limit
  imports Rate_Limit
begin

text \<open>
  The limiter of failed authentications, \<^verbatim>\<open>src/gateway/auth-rate-limit.ts\<close>: failures per
  scope and client address in a sliding window, a lockout once they reach the maximum, a cap on
  the tracked clients that never evicts an active lockout, and a global lock when the cap is full
  of them. The properties: memory is bounded, an active lockout cannot be shaken off, and a
  client is refused exactly when its recent failures reach the maximum.
\<close>

section \<open>State\<close>

record RateLimitConfig =
  rc_maxAttempts :: "jsnum option"
  rc_windowMs :: "jsnum option"
  rc_lockoutMs :: "jsnum option"
  rc_exemptLoopback :: "bool option"
  rc_pruneIntervalMs :: "jsnum option"
  rc_maxEntries :: "jsnum option"

record RateLimitEntry =
  le_attempts :: "int list"
  le_lockedUntil :: "int option"

record RateLimitCheckResult =
  cr_allowed :: bool
  cr_remaining :: jsnum
  cr_retryAfterMs :: int

record AuthRateLimiter =
  au_maxAttempts :: jsnum
  au_windowMs :: int
  au_lockoutMs :: int
  au_exemptLoopback :: bool
  au_pruneIntervalMs :: int
  au_maxEntries :: nat
  au_entries :: "(string, RateLimitEntry) jsmap"
  au_overflowLockedUntil :: "int option"

definition AUTH_RATE_LIMIT_SCOPE_DEFAULT :: string where
  "AUTH_RATE_LIMIT_SCOPE_DEFAULT = ''default''"
definition BROWSER_ORIGIN_RATE_LIMIT_KEY_PREFIX :: string where
  "BROWSER_ORIGIN_RATE_LIMIT_KEY_PREFIX = ''browser-origin:''"
definition IDENTITY_RATE_LIMIT_KEY_PREFIX :: string where
  "IDENTITY_RATE_LIMIT_KEY_PREFIX = ''identity:''"

definition option_value :: "jsnum option \<Rightarrow> unknown_value" where
  "option_value n = (case n of None \<Rightarrow> UOther | Some n \<Rightarrow> UNumber n)"

definition PRUNE_INTERVAL_MS :: int where "PRUNE_INTERVAL_MS = 60000"

definition resolvePruneIntervalMs :: "jsnum option \<Rightarrow> int" where
  "resolvePruneIntervalMs v =
     (case v of
        None \<Rightarrow> PRUNE_INTERVAL_MS
      | Some n \<Rightarrow>
          if num_isFinite n \<and> num_leq n (num 0) then 0
          else whole (resolveTimerTimeoutMs (UNumber n) (num PRUNE_INTERVAL_MS) (num 1)))"

definition createAuthRateLimiter :: "RateLimitConfig \<Rightarrow> AuthRateLimiter" where
  "createAuthRateLimiter config =
     \<lparr>au_maxAttempts = coalesce (rc_maxAttempts config) (num 10),
      au_windowMs = whole (resolveTimerTimeoutMs (option_value (rc_windowMs config)) (num 60000) (num 0)),
      au_lockoutMs = whole (resolveTimerTimeoutMs (option_value (rc_lockoutMs config)) (num 300000) (num 0)),
      au_exemptLoopback = coalesce (rc_exemptLoopback config) True,
      au_pruneIntervalMs = resolvePruneIntervalMs (rc_pruneIntervalMs config),
      au_maxEntries = nat (whole (resolveIntegerOption (option_value (rc_maxEntries config))
        (num 10000) (Some (num 1)) None)),
      au_entries = [], au_overflowLockedUntil = None\<rparr>"

section \<open>Keys\<close>

definition normalizeRateLimitClientIp :: "IpPolicy \<Rightarrow> string option \<Rightarrow> string" where
  "normalizeRateLimitClientIp pol ip =
     (case ip of
        Some s \<Rightarrow>
          if js_startsWith s BROWSER_ORIGIN_RATE_LIMIT_KEY_PREFIX \<or>
             js_startsWith s IDENTITY_RATE_LIMIT_KEY_PREFIX then s
          else coalesce (resolveClientIp pol \<lparr>ip_remoteAddr = ip, ip_forwardedFor = None,
            ip_realIp = None, ip_trustedProxies = None, ip_allowRealIpFallback = None\<rparr>) ''unknown''
      | None \<Rightarrow> coalesce (resolveClientIp pol \<lparr>ip_remoteAddr = ip, ip_forwardedFor = None,
            ip_realIp = None, ip_trustedProxies = None, ip_allowRealIpFallback = None\<rparr>) ''unknown'')"

definition buildRateLimitIdentityKey :: "string \<Rightarrow> string \<Rightarrow> string" where
  "buildRateLimitIdentityKey namespace identity =
     IDENTITY_RATE_LIMIT_KEY_PREFIX @ namespace @ '':'' @ identity"

definition normalizeScope :: "string option \<Rightarrow> string" where
  "normalizeScope scope =
     (let s = js_trim (coalesce scope AUTH_RATE_LIMIT_SCOPE_DEFAULT)
      in if s = [] then AUTH_RATE_LIMIT_SCOPE_DEFAULT else s)"

definition resolveKey :: "IpPolicy \<Rightarrow> string option \<Rightarrow> string option \<Rightarrow> string \<times> string" where
  "resolveKey pol rawIp rawScope =
     (let ip = normalizeRateLimitClientIp pol rawIp in (normalizeScope rawScope @ '':'' @ ip, ip))"

definition isExempt :: "IpPolicy \<Rightarrow> AuthRateLimiter \<Rightarrow> string \<Rightarrow> bool" where
  "isExempt pol rl ip \<longleftrightarrow> au_exemptLoopback rl \<and> isLoopbackAddress pol ip"

section \<open>Pruning and the cap\<close>

definition slideWindow :: "int \<Rightarrow> int \<Rightarrow> RateLimitEntry \<Rightarrow> RateLimitEntry" where
  "slideWindow windowMs now entry =
     entry\<lparr>le_attempts := filter (\<lambda>ts. ts > now - windowMs) (le_attempts entry)\<rparr>"

text \<open>\<^verbatim>\<open>entry.lockedUntil && now < entry.lockedUntil\<close>.\<close>

definition locked_at :: "int \<Rightarrow> RateLimitEntry \<Rightarrow> bool" where
  "locked_at now entry =
     (case le_lockedUntil entry of None \<Rightarrow> False | Some u \<Rightarrow> u \<noteq> 0 \<and> now < u)"

definition prune_entry :: "int \<Rightarrow> int \<Rightarrow> string \<times> RateLimitEntry \<Rightarrow> (string \<times> RateLimitEntry) list" where
  "prune_entry windowMs now = (\<lambda>(key, entry).
     if locked_at now entry then [(key, entry)]
     else let entry = slideWindow windowMs now entry
          in if length (le_attempts entry) = 0 then [] else [(key, entry)])"

definition pruneExpiredEntries :: "int \<Rightarrow> AuthRateLimiter \<Rightarrow> AuthRateLimiter" where
  "pruneExpiredEntries now rl =
     rl\<lparr>au_entries := concat (map (prune_entry (au_windowMs rl) now) (au_entries rl))\<rparr>"

definition refused_until :: "int \<Rightarrow> int \<Rightarrow> RateLimitCheckResult" where
  "refused_until u now = \<lparr>cr_allowed = False, cr_remaining = num 0, cr_retryAfterMs = u - now\<rparr>"

definition checkOverflowLock ::
  "int \<Rightarrow> AuthRateLimiter \<Rightarrow> RateLimitCheckResult option \<times> AuthRateLimiter" where
  "checkOverflowLock now rl =
     (case au_overflowLockedUntil rl of
        None \<Rightarrow> (None, rl)
      | Some u \<Rightarrow>
          if u = 0 then (None, rl)
          else if now \<ge> u then (None, rl\<lparr>au_overflowLockedUntil := None\<rparr>)
          else
            let rl = (if length (au_entries rl) \<ge> au_maxEntries rl
                       then pruneExpiredEntries now rl else rl)
            in if length (au_entries rl) < au_maxEntries rl
               then (None, rl\<lparr>au_overflowLockedUntil := None\<rparr>)
               else (Some (refused_until u now), rl))"

definition enforceMaxEntries :: "int \<Rightarrow> AuthRateLimiter \<Rightarrow> bool \<times> AuthRateLimiter" where
  "enforceMaxEntries now rl =
     (if length (au_entries rl) < au_maxEntries rl then (True, rl)
      else
        let rl = pruneExpiredEntries now rl
        in if length (au_entries rl) < au_maxEntries rl then (True, rl)
           else
             (case List.find (\<lambda>(_, entry). \<not> locked_at now entry) (au_entries rl) of
                Some (entryKey, _) \<Rightarrow> (True, rl\<lparr>au_entries := map_del entryKey (au_entries rl)\<rparr>)
              | None \<Rightarrow> (False, rl)))"

section \<open>Operations\<close>

definition attempts_left :: "AuthRateLimiter \<Rightarrow> nat \<Rightarrow> jsnum" where
  "attempts_left rl n = num_max (num 0) (num_add (au_maxAttempts rl) (num_neg (num (int n))))"

definition auth_check ::
  "IpPolicy \<Rightarrow> int \<Rightarrow> string option \<Rightarrow> string option \<Rightarrow> AuthRateLimiter \<Rightarrow>
     RateLimitCheckResult \<times> AuthRateLimiter" where
  "auth_check pol now rawIp rawScope rl =
     (let (key, ip) = resolveKey pol rawIp rawScope;
          allowed = \<lparr>cr_allowed = True, cr_remaining = au_maxAttempts rl, cr_retryAfterMs = 0\<rparr>
      in if isExempt pol rl ip then (allowed, rl)
         else case map_get (au_entries rl) key of
           None \<Rightarrow>
             (case checkOverflowLock now rl of
                (Some overflowLock, rl) \<Rightarrow> (overflowLock, rl)
              | (None, rl) \<Rightarrow> (allowed, rl))
         | Some entry \<Rightarrow>
             if locked_at now entry
             then (refused_until (the (le_lockedUntil entry)) now, rl)
             else
               let entry = (case le_lockedUntil entry of
                     None \<Rightarrow> entry
                   | Some u \<Rightarrow> if u \<noteq> 0 then entry\<lparr>le_lockedUntil := None, le_attempts := []\<rparr> else entry);
                   entry = slideWindow (au_windowMs rl) now entry;
                   remaining = attempts_left rl (length (le_attempts entry))
               in (\<lparr>cr_allowed = num_less (num 0) remaining, cr_remaining = remaining,
                    cr_retryAfterMs = 0\<rparr>,
                   rl\<lparr>au_entries := map_put key entry (au_entries rl)\<rparr>))"

definition record_attempt :: "int \<Rightarrow> string \<Rightarrow> RateLimitEntry \<Rightarrow> AuthRateLimiter \<Rightarrow> AuthRateLimiter" where
  "record_attempt now key entry rl =
     (if locked_at now entry then rl
      else
        let entry = slideWindow (au_windowMs rl) now entry;
            entry = entry\<lparr>le_attempts := le_attempts entry @ [now]\<rparr>;
            entry = (if num_leq (au_maxAttempts rl) (num (int (length (le_attempts entry))))
                     then entry\<lparr>le_lockedUntil := Some (now + au_lockoutMs rl)\<rparr> else entry)
        in rl\<lparr>au_entries := map_put key entry (au_entries rl)\<rparr>)"

definition recordFailure ::
  "IpPolicy \<Rightarrow> int \<Rightarrow> string option \<Rightarrow> string option \<Rightarrow> AuthRateLimiter \<Rightarrow> AuthRateLimiter" where
  "recordFailure pol now rawIp rawScope rl =
     (let (key, ip) = resolveKey pol rawIp rawScope
      in if isExempt pol rl ip then rl
         else case map_get (au_entries rl) key of
           Some entry \<Rightarrow> record_attempt now key entry rl
         | None \<Rightarrow>
             (case enforceMaxEntries now rl of
                (False, rl) \<Rightarrow>
                  rl\<lparr>au_overflowLockedUntil :=
                    Some (max (coalesce (au_overflowLockedUntil rl) 0) (now + au_lockoutMs rl))\<rparr>
              | (True, rl) \<Rightarrow>
                  let entry = \<lparr>le_attempts = [], le_lockedUntil = None\<rparr>
                  in record_attempt now key entry
                       (rl\<lparr>au_entries := map_put key entry (au_entries rl)\<rparr>)))"

definition auth_reset ::
  "IpPolicy \<Rightarrow> string option \<Rightarrow> string option \<Rightarrow> AuthRateLimiter \<Rightarrow> AuthRateLimiter" where
  "auth_reset pol rawIp rawScope rl =
     rl\<lparr>au_entries := map_del (fst (resolveKey pol rawIp rawScope)) (au_entries rl)\<rparr>"

definition auth_prune :: "int \<Rightarrow> AuthRateLimiter \<Rightarrow> AuthRateLimiter" where
  "auth_prune now rl = pruneExpiredEntries now rl"

definition auth_size :: "AuthRateLimiter \<Rightarrow> nat" where
  "auth_size rl = length (au_entries rl)"

definition auth_dispose :: "AuthRateLimiter \<Rightarrow> AuthRateLimiter" where
  "auth_dispose rl = rl\<lparr>au_entries := [], au_overflowLockedUntil := None\<rparr>"

text \<open>A call on a limiter, for runs of calls.\<close>

datatype auth_op =
    AuthCheck int "string option" "string option"
  | AuthFailure int "string option" "string option"
  | AuthReset "string option" "string option"
  | AuthPrune int
  | AuthDispose

fun auth_step :: "IpPolicy \<Rightarrow> auth_op \<Rightarrow> AuthRateLimiter \<Rightarrow> AuthRateLimiter" where
  "auth_step pol (AuthCheck now ip scope) rl = snd (auth_check pol now ip scope rl)"
| "auth_step pol (AuthFailure now ip scope) rl = recordFailure pol now ip scope rl"
| "auth_step pol (AuthReset ip scope) rl = auth_reset pol ip scope rl"
| "auth_step pol (AuthPrune now) rl = auth_prune now rl"
| "auth_step pol AuthDispose rl = auth_dispose rl"

section \<open>Lemmas\<close>

lemma windowMs_num:
  "resolveTimerTimeoutMs v (num f) (num 0) = num (whole (resolveTimerTimeoutMs v (num f) (num 0)))"
  unfolding resolveTimer_Fin by (simp add: whole_def)

lemma maxEntries_pos: "1 \<le> au_maxEntries (createAuthRateLimiter config)"
proof -
  have "1 \<le> whole (resolveIntegerOption v (num 10000) (Some (num 1)) None)" for v
    by (auto simp: resolveIntegerOption_Fin Let_def whole_def)
  then show ?thesis by (simp add: createAuthRateLimiter_def nat_le_eq_zle flip: nat_1)
qed

text \<open>What pruning leaves of one entry.\<close>

definition pruned_entry :: "int \<Rightarrow> int \<Rightarrow> RateLimitEntry \<Rightarrow> RateLimitEntry option" where
  "pruned_entry windowMs now e =
     (if locked_at now e then Some e
      else if le_attempts (slideWindow windowMs now e) = [] then None
      else Some (slideWindow windowMs now e))"

lemma prune_entry_eq:
  "prune_entry w now (k, e) = (case pruned_entry w now e of None \<Rightarrow> [] | Some e' \<Rightarrow> [(k, e')])"
  by (simp add: prune_entry_def pruned_entry_def Let_def)

lemma prune_key_subset: "fst ` set (concat (map (prune_entry w now) m)) \<subseteq> fst ` set m"
  by (force simp: prune_entry_eq split: option.splits)

lemma map_ok_prune: "map_ok m \<Longrightarrow> map_ok (concat (map (prune_entry w now) m))"
proof (induction m)
  case (Cons x m)
  obtain k e where x: "x = (k, e)" by (cases x)
  have "k \<notin> fst ` set (concat (map (prune_entry w now) m))"
    using Cons.prems prune_key_subset [of w now m] by (auto simp: map_ok_def x)
  then show ?case
    using Cons by (auto simp: map_ok_def x prune_entry_eq split: option.split)
qed simp

lemma get_prune:
  "map_ok m \<Longrightarrow>
     map_get (concat (map (prune_entry w now) m)) k = Option.bind (map_get m k) (pruned_entry w now)"
proof (induction m)
  case (Cons x m)
  obtain j e where x: "x = (j, e)" by (cases x)
  have "map_get (concat (map (prune_entry w now) m)) j = None"
    using Cons.prems prune_key_subset [of w now m]
    by (auto simp: map_get_None_iff map_ok_def x)
  then show ?case
    using Cons by (cases "pruned_entry w now e")
      (auto simp: map_get_def map_ok_def x prune_entry_eq)
qed simp

lemma length_prune: "length (concat (map (prune_entry w now) m)) \<le> length m"
proof (induction m)
  case (Cons x m)
  then show ?case by (cases x) (auto simp: prune_entry_eq split: option.split)
qed simp

lemma limits_unchanged [simp]:
  "au_maxEntries (pruneExpiredEntries now rl) = au_maxEntries rl"
  "au_windowMs (pruneExpiredEntries now rl) = au_windowMs rl"
  "au_entries (pruneExpiredEntries now rl) =
     concat (map (prune_entry (au_windowMs rl) now) (au_entries rl))"
  by (simp_all add: pruneExpiredEntries_def)

text \<open>The overflow lock and the cap leave the store alone, prune it, or drop one unlocked client.\<close>

lemma overflow_entries:
  "au_entries (snd (checkOverflowLock now rl)) \<in>
     {au_entries rl, au_entries (pruneExpiredEntries now rl)} \<and>
   au_maxEntries (snd (checkOverflowLock now rl)) = au_maxEntries rl"
  by (auto simp: checkOverflowLock_def Let_def split: option.split)

lemma enforce_cases:
  obtains (same) "length (au_entries rl) < au_maxEntries rl" "enforceMaxEntries now rl = (True, rl)"
  | (pruned) "length (au_entries (pruneExpiredEntries now rl)) < au_maxEntries rl"
      "enforceMaxEntries now rl = (True, pruneExpiredEntries now rl)"
  | (evicted) k e where "(k, e) \<in> set (au_entries (pruneExpiredEntries now rl))" "\<not> locked_at now e"
      "enforceMaxEntries now rl = (True, (pruneExpiredEntries now rl)
         \<lparr>au_entries := map_del k (au_entries (pruneExpiredEntries now rl))\<rparr>)"
  | (full) "\<forall>(k, e) \<in> set (au_entries (pruneExpiredEntries now rl)). locked_at now e"
      "length (au_entries (pruneExpiredEntries now rl)) \<ge> au_maxEntries rl"
      "enforceMaxEntries now rl = (False, pruneExpiredEntries now rl)"
proof (cases "length (au_entries rl) < au_maxEntries rl")
  case True
  then show ?thesis by (intro same) (simp_all add: enforceMaxEntries_def)
next
  case False
  let ?p = "pruneExpiredEntries now rl"
  show ?thesis
  proof (cases "length (au_entries ?p) < au_maxEntries rl")
    case True
    with False show ?thesis by (intro pruned) (simp_all add: enforceMaxEntries_def Let_def)
  next
    case len: False
    show ?thesis
    proof (cases "List.find (\<lambda>(_, entry). \<not> locked_at now entry) (au_entries ?p)")
      case None
      then have "\<forall>(k, e) \<in> set (au_entries ?p). locked_at now e"
        by (auto simp: find_None_iff_all)
      with False len None show ?thesis
        by (intro full) (simp_all add: enforceMaxEntries_def Let_def)
    next
      case (Some ke)
      obtain k e where ke: "ke = (k, e)" by (cases ke)
      from find_Some_in [OF Some] have "(k, e) \<in> set (au_entries ?p)" "\<not> locked_at now e"
        unfolding ke by simp_all
      with False len Some ke show ?thesis
        by (intro evicted [of k e]) (simp_all add: enforceMaxEntries_def Let_def)
    qed
  qed
qed

text \<open>Every call keeps one entry a key and the cap.\<close>

definition auth_inv :: "nat \<Rightarrow> AuthRateLimiter \<Rightarrow> bool" where
  "auth_inv cap rl \<longleftrightarrow> au_maxEntries rl = cap \<and> 1 \<le> cap \<and> map_ok (au_entries rl)"

lemma map_ok_pruned: "map_ok (au_entries rl) \<Longrightarrow> map_ok (au_entries (pruneExpiredEntries now rl))"
  by (simp add: map_ok_prune)

lemma enforce_inv:
  assumes "auth_inv cap rl"
  shows "auth_inv cap (snd (enforceMaxEntries now rl))"
  by (cases rule: enforce_cases [of rl now]) (use assms in \<open>auto simp: auth_inv_def map_ok_prune\<close>)

lemma record_attempt_entries:
  "au_entries (record_attempt now key e rl) = au_entries rl \<or>
   (\<exists>e'. au_entries (record_attempt now key e rl) = map_put key e' (au_entries rl))"
  "au_maxEntries (record_attempt now key e rl) = au_maxEntries rl"
  by (auto simp: record_attempt_def Let_def)

lemma record_attempt_inv: "auth_inv cap rl \<Longrightarrow> auth_inv cap (record_attempt now key e rl)"
  using record_attempt_entries [of now key e rl] by (auto simp: auth_inv_def)

lemma auth_step_inv:
  assumes "auth_inv cap rl"
  shows "auth_inv cap (auth_step pol x rl)"
proof (cases x)
  case (AuthCheck now ip scope)
  have "auth_inv cap (snd (checkOverflowLock now rl))"
    using overflow_entries [of now rl] assms map_ok_pruned [of rl now] by (auto simp: auth_inv_def)
  then show ?thesis
    using assms by (auto simp: AuthCheck auth_check_def auth_inv_def Let_def split_beta
        split: option.split prod.split)
next
  case (AuthFailure now ip scope)
  have put: "auth_inv cap r \<Longrightarrow> auth_inv cap (r\<lparr>au_entries := map_put k e (au_entries r)\<rparr>)" for r k e
    by (simp add: auth_inv_def)
  have lock: "auth_inv cap r \<Longrightarrow> auth_inv cap (r\<lparr>au_overflowLockedUntil := u\<rparr>)" for r u
    by (simp add: auth_inv_def)
  show ?thesis
    using enforce_inv [OF assms, of now] assms
    by (auto simp: AuthFailure recordFailure_def Let_def split_beta
        intro!: record_attempt_inv put lock split: option.split bool.split prod.split)
qed (use assms in \<open>auto simp: auth_inv_def auth_reset_def auth_prune_def auth_dispose_def
       map_ok_prune\<close>)

lemma record_attempt_length:
  assumes "map_get (au_entries rl) key = Some e"
  shows "length (au_entries (record_attempt now key e' rl)) = length (au_entries rl)"
  using record_attempt_entries(1) [of now key e' rl] length_map_put_present [OF assms] by auto

lemma record_fresh_length:
  "length (au_entries (record_attempt now key e (rl\<lparr>au_entries := map_put key e (au_entries rl)\<rparr>)))
     \<le> Suc (length (au_entries rl))"
proof -
  have "map_get (au_entries (rl\<lparr>au_entries := map_put key e (au_entries rl)\<rparr>)) key = Some e" by simp
  from record_attempt_length [OF this] show ?thesis by (simp add: length_map_put)
qed

lemma enforce_length:
  assumes "auth_inv cap rl" "length (au_entries rl) \<le> cap" "fst (enforceMaxEntries now rl)"
  shows "length (au_entries (snd (enforceMaxEntries now rl))) < cap"
proof (cases rule: enforce_cases [of rl now])
  case (evicted k e)
  have "length (map_del k (au_entries (pruneExpiredEntries now rl))) <
      length (au_entries (pruneExpiredEntries now rl))"
    using evicted(1) by (rule map_del_shorter)
  also have "\<dots> \<le> cap" using length_prune assms(2) by (auto intro: order_trans)
  finally show ?thesis by (simp add: evicted(3))
qed (use assms in \<open>auto simp: auth_inv_def\<close>)

lemma auth_step_cap:
  assumes "auth_inv cap rl" "auth_size rl \<le> cap"
  shows "auth_size (auth_step pol x rl) \<le> cap"
proof (cases x)
  case (AuthCheck now ip scope)
  have "length (au_entries (snd (checkOverflowLock now rl))) \<le> cap"
    using overflow_entries [of now rl] assms(2) length_prune [of "au_windowMs rl" now "au_entries rl"]
    by (auto simp: auth_size_def)
  then show ?thesis
    using assms(2) by (auto simp: AuthCheck auth_check_def auth_size_def Let_def split_beta
        length_map_put_present split: option.split prod.split)
next
  case (AuthFailure now ip scope)
  have full: "length (au_entries (snd (enforceMaxEntries now rl))) \<le> cap"
    using assms(2) length_prune [of "au_windowMs rl" now "au_entries rl"]
    by (cases rule: enforce_cases [of rl now])
       (auto simp: auth_size_def map_del_def intro: order_trans [OF length_filter_le])
  have fresh: "length (au_entries (record_attempt now k e ((snd (enforceMaxEntries now rl))
      \<lparr>au_entries := map_put k e (au_entries (snd (enforceMaxEntries now rl)))\<rparr>))) \<le> cap"
    if "fst (enforceMaxEntries now rl)" for k e
    using enforce_length [OF assms(1) _ that] assms(2)
      record_fresh_length [of now k e "snd (enforceMaxEntries now rl)"]
    by (simp add: auth_size_def)
  show ?thesis
    using assms(2) full fresh
    by (auto simp: AuthFailure recordFailure_def auth_size_def Let_def split_beta
        record_attempt_length split: option.split bool.split prod.split)
qed (use assms length_prune in \<open>auto simp: auth_size_def auth_reset_def auth_prune_def
       auth_dispose_def map_del_def intro: order_trans [OF length_filter_le] order_trans\<close>)

interpretation auth_store: bounded_store "auth_step pol" auth_size "auth_inv cap" cap for pol cap
  by unfold_locales (fact auth_step_inv, fact auth_step_cap)

section \<open>Lockouts\<close>

definition locked_out :: "string \<Rightarrow> int \<Rightarrow> AuthRateLimiter \<Rightarrow> bool" where
  "locked_out key u rl \<longleftrightarrow> map_ok (au_entries rl) \<and> u \<noteq> 0 \<and>
     (\<exists>e. map_get (au_entries rl) key = Some e \<and> le_lockedUntil e = Some u)"

text \<open>What clients and the prune timer can do before \<open>u\<close> without resetting \<open>key\<close>.\<close>

fun before_expiry :: "IpPolicy \<Rightarrow> string \<Rightarrow> int \<Rightarrow> auth_op \<Rightarrow> bool" where
  "before_expiry pol key u (AuthCheck now _ _) = (now < u)"
| "before_expiry pol key u (AuthFailure now _ _) = (now < u)"
| "before_expiry pol key u (AuthReset ip scope) = (fst (resolveKey pol ip scope) \<noteq> key)"
| "before_expiry pol key u (AuthPrune now) = (now < u)"
| "before_expiry pol key u AuthDispose = False"

inductive auth_attack :: "IpPolicy \<Rightarrow> string \<Rightarrow> int \<Rightarrow> AuthRateLimiter \<Rightarrow> AuthRateLimiter \<Rightarrow> bool"
  for pol key u where
  attack: "before_expiry pol key u x \<Longrightarrow> auth_attack pol key u rl (auth_step pol x rl)"

inductive_cases auth_attackE: "auth_attack pol key u rl rl'"

lemma locked_outI:
  "map_ok (au_entries rl) \<Longrightarrow> u \<noteq> 0 \<Longrightarrow> map_get (au_entries rl) key = Some e \<Longrightarrow>
     le_lockedUntil e = Some u \<Longrightarrow> locked_out key u rl"
  by (auto simp: locked_out_def)

lemma locked_out_put:
  "locked_out key u rl \<Longrightarrow> k \<noteq> key \<Longrightarrow>
     locked_out key u (rl\<lparr>au_entries := map_put k e (au_entries rl)\<rparr>)"
  by (auto simp: locked_out_def)

lemma locked_out_prune:
  assumes "locked_out key u rl" "now < u"
  shows "locked_out key u (pruneExpiredEntries now rl)"
  using assms by (auto simp: locked_out_def map_ok_prune get_prune pruned_entry_def locked_at_def)

lemma locked_out_enforce:
  assumes "locked_out key u rl" "now < u"
  shows "locked_out key u (snd (enforceMaxEntries now rl))"
proof (cases rule: enforce_cases [of rl now])
  case (evicted k e)
  have p: "locked_out key u (pruneExpiredEntries now rl)" using assms by (rule locked_out_prune)
  then have "map_get (au_entries (pruneExpiredEntries now rl)) k = Some e"
    using evicted(1) unfolding locked_out_def by (metis map_get_in_ok)
  with p evicted(2) assms(2) have "k \<noteq> key" by (auto simp: locked_out_def locked_at_def)
  with p show ?thesis by (auto simp: evicted(3) locked_out_def)
qed (use assms locked_out_prune in auto)

lemma locked_out_record:
  assumes "locked_out key u rl" "now < u" "k = key \<longrightarrow> map_get (au_entries rl) key = Some e"
  shows "locked_out key u (record_attempt now k e rl)"
proof (cases "k = key")
  case True
  with assms show ?thesis by (auto simp: record_attempt_def locked_out_def locked_at_def)
next
  case False
  with assms(1) show ?thesis by (auto simp: record_attempt_def Let_def intro: locked_out_put)
qed

lemma locked_out_overflow:
  assumes "locked_out key u rl" "now < u"
  shows "locked_out key u (snd (checkOverflowLock now rl))"
proof -
  have same: "locked_out key u (r\<lparr>au_overflowLockedUntil := v\<rparr>) = locked_out key u r" for r v
    by (simp add: locked_out_def)
  show ?thesis using assms locked_out_prune [OF assms]
    by (auto simp: checkOverflowLock_def same Let_def split: option.split)
qed

lemma auth_check_state:
  assumes "resolveKey pol ip scope = (k, i)"
  shows "snd (auth_check pol now ip scope rl) \<in> {rl, snd (checkOverflowLock now rl)} \<or>
    (\<exists>e e'. map_get (au_entries rl) k = Some e \<and> \<not> locked_at now e \<and>
       snd (auth_check pol now ip scope rl) = rl\<lparr>au_entries := map_put k e' (au_entries rl)\<rparr>)"
proof (cases "map_get (au_entries rl) k")
  case None
  then show ?thesis
    by (simp add: auth_check_def assms Let_def split: option.split prod.split)
next
  case (Some e)
  then show ?thesis
    by (cases "isExempt pol rl i"; cases "locked_at now e")
       (auto simp: auth_check_def assms Let_def)
qed

lemma locked_out_step:
  assumes "locked_out key u rl" "before_expiry pol key u x"
  shows "locked_out key u (auth_step pol x rl)"
proof (cases x)
  case (AuthCheck now ip scope)
  obtain k i where k: "resolveKey pol ip scope = (k, i)" by (cases "resolveKey pol ip scope")
  have now: "now < u" using assms(2) by (simp add: AuthCheck)
  have "\<forall>e. map_get (au_entries rl) key = Some e \<longrightarrow> locked_at now e"
    using assms(1) now by (auto simp: locked_out_def locked_at_def)
  then show ?thesis
    using auth_check_state [OF k, of now rl] assms(1) locked_out_overflow [OF assms(1) now]
    by (auto simp: AuthCheck intro!: locked_out_put)
next
  case (AuthFailure now ip scope)
  obtain k i where k: "resolveKey pol ip scope = (k, i)" by (cases "resolveKey pol ip scope")
  have now: "now < u" using assms(2) by (simp add: AuthFailure)
  have enforced: "locked_out key u (snd (enforceMaxEntries now rl))"
    using assms(1) now by (rule locked_out_enforce)
  show ?thesis
  proof (cases "map_get (au_entries rl) k")
    case None
    with assms(1) have "k \<noteq> key" by (auto simp: locked_out_def)
    with enforced None assms(1) now show ?thesis
      by (auto simp: AuthFailure recordFailure_def k Let_def split_beta
          intro!: locked_out_record locked_out_put split: prod.split bool.split)
         (simp_all add: locked_out_def)
  next
    case (Some e)
    then have "locked_out key u (record_attempt now k e rl)"
      using assms(1) now by (intro locked_out_record) auto
    with assms(1) Some show ?thesis by (simp add: AuthFailure recordFailure_def k)
  qed
next
  case (AuthReset ip scope)
  with assms show ?thesis by (auto simp: auth_reset_def locked_out_def)
next
  case (AuthPrune now)
  with assms show ?thesis by (simp add: auth_prune_def locked_out_prune)
qed (use assms in simp)

interpretation lockout: inductive_invariant "locked_out key u" "auth_attack pol key u"
  "locked_out key u" for pol key u
  by unfold_locales (auto elim!: auth_attackE intro: locked_out_step)

lemma attack_run: "list_all (before_expiry pol key u) ops \<Longrightarrow>
    (auth_attack pol key u)\<^sup>*\<^sup>* rl (fold (auth_step pol) ops rl)"
proof (induction ops arbitrary: rl)
  case (Cons x ops)
  then have "auth_attack pol key u rl (auth_step pol x rl)" by (auto intro: attack)
  with Cons show ?case by (auto intro: converse_rtranclp_into_rtranclp)
qed simp

section \<open>Recent failures\<close>

lemma num_leq_num: "num_leq (num a) (num b) \<longleftrightarrow> a \<le> b"
  by (auto simp: num_leq_def)

lemma attempts_left_num:
  "au_maxAttempts rl = num m \<Longrightarrow> attempts_left rl n = num (max 0 (m - int n))"
  by (simp add: attempts_left_def max_def)

definition same_limits :: "AuthRateLimiter \<Rightarrow> AuthRateLimiter \<Rightarrow> bool" where
  "same_limits a b \<longleftrightarrow> au_maxAttempts a = au_maxAttempts b \<and> au_windowMs a = au_windowMs b \<and>
     au_lockoutMs a = au_lockoutMs b \<and> au_exemptLoopback a = au_exemptLoopback b"

text \<open>A limiter that has room for a client it does not track.\<close>

definition fresh_client :: "string \<Rightarrow> AuthRateLimiter \<Rightarrow> bool" where
  "fresh_client key rl \<longleftrightarrow> map_get (au_entries rl) key = None \<and>
     length (au_entries rl) < au_maxEntries rl \<and> au_overflowLockedUntil rl = None"

definition failed_entry :: "AuthRateLimiter \<Rightarrow> int \<Rightarrow> int list \<Rightarrow> RateLimitEntry" where
  "failed_entry rl m ts = \<lparr>le_attempts = ts, le_lockedUntil =
     (if int (length ts) = m then Some (last ts + au_lockoutMs rl) else None)\<rparr>"

lemma record_attempt_recent:
  assumes "au_maxAttempts rl = num m" "int (length ts) < m" "le_lockedUntil e = None"
    "le_attempts e = ts" "list_all (\<lambda>u. t - au_windowMs rl < u) ts"
  shows "record_attempt t key e rl =
    rl\<lparr>au_entries := map_put key (failed_entry rl m (ts @ [t])) (au_entries rl)\<rparr>"
proof -
  have "filter (\<lambda>u. t - au_windowMs rl < u) ts = ts"
    using assms(5) by (simp add: filter_id_conv list_all_iff)
  moreover have "num_leq (num m) (num (int (length ts) + 1)) \<longleftrightarrow> int (length ts) + 1 = m"
    using assms(2) unfolding num_leq_num by linarith
  ultimately show ?thesis
    using assms(1,3,4) by (cases e)
      (auto simp: record_attempt_def locked_at_def slideWindow_def failed_entry_def Let_def
        algebra_simps)
qed

lemma failure_run:
  assumes key: "resolveKey pol ip scope = (key, i)" "\<not> isExempt pol rl i"
    and fresh: "fresh_client key rl" and m: "au_maxAttempts rl = num m"
  shows "int (length ts) \<le> m \<Longrightarrow> list_all (\<lambda>t. t \<le> now \<and> now - au_windowMs rl < t) ts \<Longrightarrow> ts \<noteq> [] \<Longrightarrow>
    map_get (au_entries (fold (\<lambda>t. recordFailure pol t ip scope) ts rl)) key =
      Some (failed_entry rl m ts) \<and>
    same_limits (fold (\<lambda>t. recordFailure pol t ip scope) ts rl) rl"
proof (induction ts rule: rev_induct)
  case (snoc t ts)
  let ?r = "fold (\<lambda>t. recordFailure pol t ip scope) ts rl"
  have step: "fold (\<lambda>t. recordFailure pol t ip scope) (ts @ [t]) rl = recordFailure pol t ip scope ?r"
    by simp
  have recent: "list_all (\<lambda>u. t - au_windowMs rl < u) ts"
    using snoc.prems(2) by (auto simp: list_all_iff)
  show ?case
  proof (cases "ts = []")
    case True
    have "enforceMaxEntries t rl = (True, rl)"
      using fresh by (simp add: enforceMaxEntries_def fresh_client_def)
    then show ?thesis
      using key fresh m True snoc.prems(1)
      by (simp add: recordFailure_def fresh_client_def same_limits_def
          record_attempt_recent [where m = m and ts = "[]"])
         (simp add: failed_entry_def)
  next
    case False
    then have ih: "map_get (au_entries ?r) key = Some (failed_entry rl m ts)" "same_limits ?r rl"
      using snoc by (auto simp: list_all_iff)
    have "\<not> isExempt pol ?r i" using key(2) ih(2) by (simp add: isExempt_def same_limits_def)
    moreover have "record_attempt t key (failed_entry rl m ts) ?r =
        ?r\<lparr>au_entries := map_put key (failed_entry ?r m (ts @ [t])) (au_entries ?r)\<rparr>"
      using snoc.prems(1) ih(2) m recent
      by (intro record_attempt_recent [where ts = ts])
         (auto simp: failed_entry_def same_limits_def)
    ultimately show ?thesis
      using key(1) ih unfolding step
      by (simp add: recordFailure_def same_limits_def failed_entry_def)
  qed
qed simp

section \<open>Properties\<close>

text \<open>Memory stays bounded: whatever authentication calls arrive, from whatever clients and with
  whatever clock, the limiter tracks no more clients than configured, each once.\<close>

theorem auth_store_bounded:
  "auth_size (fold (auth_step pol) ops (createAuthRateLimiter config)) \<le>
     au_maxEntries (createAuthRateLimiter config) \<and>
   map_ok (au_entries (fold (auth_step pol) ops (createAuthRateLimiter config)))"
proof -
  have "auth_inv (au_maxEntries (createAuthRateLimiter config)) (createAuthRateLimiter config)"
    "auth_size (createAuthRateLimiter config) \<le> au_maxEntries (createAuthRateLimiter config)"
    using maxEntries_pos by (simp_all add: auth_inv_def auth_size_def createAuthRateLimiter_def)
  from auth_store.run_keeps [OF this, of pol ops] show ?thesis by (simp add: auth_inv_def)
qed

text \<open>C34: A lockout cannot be shaken off: until it expires, no sequence of checks and failures of
  whatever clients and no pruning lets the locked client in again, even when a flood of
  clients fills the store; only resetting this client or disposing the limiter does.\<close>

theorem lockout_survives_flood:
  assumes "locked_out key u rl" "list_all (before_expiry pol key u) ops"
    and "resolveKey pol ip scope = (key, i)" "\<not> isLoopbackAddress pol i" "now < u"
  shows "fst (auth_check pol now ip scope (fold (auth_step pol) ops rl)) = refused_until u now"
proof -
  have "locked_out key u (fold (auth_step pol) ops rl)"
    using lockout.steps_inv [OF attack_run [OF assms(2)]] assms(1) by blast
  then obtain e where "map_get (au_entries (fold (auth_step pol) ops rl)) key = Some e"
    "le_lockedUntil e = Some u" "locked_at now e"
    using assms(5) by (auto simp: locked_out_def locked_at_def)
  then show ?thesis using assms(3,4) by (simp add: auth_check_def isExempt_def)
qed

text \<open>C35: A client is refused exactly when its recent failures reach the maximum: after failures
  within the window, fewer than the maximum leave it allowed with the rest of its attempts, and
  the maximum locks it out for the lockout time from the last failure.\<close>

theorem failures_until_lockout:
  assumes "resolveKey pol ip scope = (key, i)" "\<not> isExempt pol rl i" "fresh_client key rl"
    and "au_maxAttempts rl = num m" "ts \<noteq> []" "int (length ts) \<le> m"
    and "list_all (\<lambda>t. t \<le> now \<and> now - au_windowMs rl < t) ts"
    and "now < last ts + au_lockoutMs rl" "last ts + au_lockoutMs rl \<noteq> 0"
  shows "fst (auth_check pol now ip scope (fold (\<lambda>t. recordFailure pol t ip scope) ts rl)) =
    (if int (length ts) < m
     then \<lparr>cr_allowed = True, cr_remaining = num (m - int (length ts)), cr_retryAfterMs = 0\<rparr>
     else refused_until (last ts + au_lockoutMs rl) now)"
proof -
  let ?r = "fold (\<lambda>t. recordFailure pol t ip scope) ts rl"
  have run: "map_get (au_entries ?r) key = Some (failed_entry rl m ts)" "same_limits ?r rl"
    using failure_run [OF assms(1-4,6,7,5)] by auto
  have ex: "\<not> isExempt pol ?r i" using assms(2) run(2) by (simp add: isExempt_def same_limits_def)
  show ?thesis
  proof (cases "int (length ts) < m")
    case True
    have "filter (\<lambda>t. now - au_windowMs rl < t) ts = ts"
      using assms(7) by (simp add: filter_id_conv list_all_iff)
    then have "slideWindow (au_windowMs ?r) now (failed_entry rl m ts) = failed_entry rl m ts"
      using run(2) by (simp add: slideWindow_def failed_entry_def same_limits_def)
    moreover have "attempts_left ?r (length ts) = num (m - int (length ts))"
      using attempts_left_num [of ?r m] run(2) assms(4) True by (simp add: same_limits_def max_def)
    ultimately show ?thesis
      using True ex run(1) assms(1)
      by (simp add: auth_check_def locked_at_def failed_entry_def Let_def)
  next
    case False
    with assms(6) have "int (length ts) = m" by simp
    then show ?thesis
      using ex run(1) assms(1,8,9)
      by (simp add: auth_check_def locked_at_def failed_entry_def)
  qed
qed

section \<open>Witnesses\<close>

definition example_config :: RateLimitConfig where
  "example_config = \<lparr>rc_maxAttempts = Some (num 2), rc_windowMs = None, rc_lockoutMs = None,
     rc_exemptLoopback = None, rc_pruneIntervalMs = None, rc_maxEntries = Some (num 2)\<rparr>"

definition example_limiter :: AuthRateLimiter where
  "example_limiter = \<lparr>au_maxAttempts = num 2, au_windowMs = 60000, au_lockoutMs = 300000,
     au_exemptLoopback = True, au_pruneIntervalMs = 60000, au_maxEntries = 2, au_entries = [],
     au_overflowLockedUntil = None\<rparr>"

lemma example_limiter_created: "createAuthRateLimiter example_config = example_limiter"
  by code_simp

lemma example_key: "resolveKey example_policy_ip (Some ''9.9.9.9'') None = (''default:9.9.9.9'', ''9.9.9.9'')"
  by code_simp

theorem failures_until_lockout_witness:
  "fst (auth_check example_policy_ip 5000 (Some ''9.9.9.9'') None
     (fold (\<lambda>t. recordFailure example_policy_ip t (Some ''9.9.9.9'') None) [1000, 2000]
       (createAuthRateLimiter example_config))) = refused_until 302000 5000"
proof -
  have "fst (auth_check example_policy_ip 5000 (Some ''9.9.9.9'') None
      (fold (\<lambda>t. recordFailure example_policy_ip t (Some ''9.9.9.9'') None) [1000, 2000]
        example_limiter)) =
    (if int (length [1000, 2000 :: int]) < 2
     then \<lparr>cr_allowed = True, cr_remaining = num (2 - int (length [1000, 2000 :: int])),
            cr_retryAfterMs = 0\<rparr>
     else refused_until (last [1000, 2000] + au_lockoutMs example_limiter) 5000)"
  proof (rule failures_until_lockout [OF example_key])
    show "\<not> isExempt example_policy_ip example_limiter ''9.9.9.9''" by code_simp
    show "fresh_client ''default:9.9.9.9'' example_limiter"
      by (simp add: fresh_client_def example_limiter_def)
  qed (simp_all add: example_limiter_def)
  then show ?thesis unfolding example_limiter_created by (simp add: example_limiter_def)
qed

definition example_locked :: AuthRateLimiter where
  "example_locked = fold (\<lambda>t. recordFailure example_policy_ip t (Some ''9.9.9.9'') None) [1000, 2000]
     example_limiter"

theorem lockout_survives_flood_witness:
  "fst (auth_check example_policy_ip 9000 (Some ''9.9.9.9'') None
     (fold (auth_step example_policy_ip) [AuthFailure 3000 (Some ''8.8.8.8'') None, AuthPrune 4000,
        AuthFailure 5000 (Some ''7.7.7.7'') None, AuthCheck 6000 (Some ''9.9.9.9'') None]
       example_locked)) = refused_until 302000 9000"
proof (rule lockout_survives_flood)
  have e: "map_get (au_entries example_locked) ''default:9.9.9.9'' =
      Some \<lparr>le_attempts = [1000, 2000], le_lockedUntil = Some 302000\<rparr>" by code_simp
  have "map_ok (au_entries example_locked)" by code_simp
  with e show "locked_out ''default:9.9.9.9'' 302000 example_locked"
    by (auto intro: locked_outI)
  show "resolveKey example_policy_ip (Some ''9.9.9.9'') None = (''default:9.9.9.9'', ''9.9.9.9'')"
    by (rule example_key)
  show "\<not> isLoopbackAddress example_policy_ip ''9.9.9.9''" by code_simp
qed simp_all

end
