(* ===== verification/Dedupe.thy ===== *)
theory Dedupe
  imports Number_Coercion Rate_Limit
begin

text \<open>
  The duplicate-suppression caches: \<^verbatim>\<open>src/infra/dedupe.ts\<close> with
  \<^verbatim>\<open>src/infra/map-size.ts\<close>, and the per-scope cache of
  \<^verbatim>\<open>src/shared/scoped-expiring-id-cache.ts\<close>. A cache is an insertion-ordered map from
  keys to the times they were last seen. The properties: bounded memory, no duplicate reported
  that was not seen within the time to live, none missed that was seen recently enough.
\<close>

section \<open>map-size.ts\<close>

text \<open>Removing the oldest entries until the map fits.\<close>

definition pruneMapToMaxSize :: "('k \<times> 'v) list \<Rightarrow> jsnum \<Rightarrow> ('k \<times> 'v) list" where
  "pruneMapToMaxSize m maxSize =
     (case maxSize of
        NaN \<Rightarrow> m
      | PosInf \<Rightarrow> m
      | _ \<Rightarrow>
          let limit = num_max (num 0) (num_floor maxSize)
          in if num_leq limit (num 0) then []
             else drop (length m - nat (whole limit)) m)"

section \<open>dedupe.ts\<close>

record DedupeCache =
  dc_ttlMs :: int
  dc_maxSize :: int
  dc_cache :: "(string, int) jsmap"

definition createDedupeCache :: "jsnum \<Rightarrow> jsnum \<Rightarrow> DedupeCache" where
  "createDedupeCache ttlMs maxSize =
     \<lparr>dc_ttlMs = whole (resolveNonNegativeIntegerOption (UNumber ttlMs) (num 0)),
      dc_maxSize = whole (resolveNonNegativeIntegerOption (UNumber maxSize) (num 0)),
      dc_cache = []\<rparr>"

definition dedupe_touch :: "string \<Rightarrow> int \<Rightarrow> DedupeCache \<Rightarrow> DedupeCache" where
  "dedupe_touch key now c = c\<lparr>dc_cache := map_put key now (map_del key (dc_cache c))\<rparr>"

definition dedupe_prune :: "int \<Rightarrow> DedupeCache \<Rightarrow> DedupeCache" where
  "dedupe_prune now c =
     (let live = (if dc_ttlMs c > 0
                  then filter (\<lambda>(_, entryTs). \<not> entryTs < now - dc_ttlMs c) (dc_cache c)
                  else dc_cache c)
      in c\<lparr>dc_cache := (if dc_maxSize c \<le> 0 then [] else pruneMapToMaxSize live (num (dc_maxSize c)))\<rparr>)"

definition hasUnexpired :: "string \<Rightarrow> int \<Rightarrow> bool \<Rightarrow> DedupeCache \<Rightarrow> bool \<times> DedupeCache" where
  "hasUnexpired key now touchOnRead c =
     (case map_get (dc_cache c) key of
        None \<Rightarrow> (False, c)
      | Some existing \<Rightarrow>
          if dc_ttlMs c > 0 \<and> now - existing \<ge> dc_ttlMs c
          then (False, c\<lparr>dc_cache := map_del key (dc_cache c)\<rparr>)
          else (True, if touchOnRead then dedupe_touch key now c else c))"

definition dedupe_check :: "string option \<Rightarrow> int \<Rightarrow> DedupeCache \<Rightarrow> bool \<times> DedupeCache" where
  "dedupe_check key now c =
     (case nonempty_string key of
        None \<Rightarrow> (False, c)
      | Some k \<Rightarrow>
          (case hasUnexpired k now True c of
             (True, c) \<Rightarrow> (True, c)
           | (False, c) \<Rightarrow> (False, dedupe_prune now (dedupe_touch k now c))))"

definition dedupe_peek :: "string option \<Rightarrow> int \<Rightarrow> DedupeCache \<Rightarrow> bool \<times> DedupeCache" where
  "dedupe_peek key now c =
     (case nonempty_string key of None \<Rightarrow> (False, c) | Some k \<Rightarrow> hasUnexpired k now False c)"

definition dedupe_delete :: "string option \<Rightarrow> DedupeCache \<Rightarrow> DedupeCache" where
  "dedupe_delete key c =
     (case nonempty_string key of
        None \<Rightarrow> c
      | Some k \<Rightarrow> c\<lparr>dc_cache := map_del k (dc_cache c)\<rparr>)"

definition dedupe_clear :: "DedupeCache \<Rightarrow> DedupeCache" where
  "dedupe_clear c = c\<lparr>dc_cache := []\<rparr>"

definition dedupe_size :: "DedupeCache \<Rightarrow> nat" where
  "dedupe_size c = length (dc_cache c)"

datatype dedupe_op =
  DedupeCheck "string option" int | DedupePeek "string option" int | DedupeDelete "string option"
| DedupeClear

fun dedupe_step :: "dedupe_op \<Rightarrow> DedupeCache \<Rightarrow> DedupeCache" where
  "dedupe_step (DedupeCheck key now) c = snd (dedupe_check key now c)"
| "dedupe_step (DedupePeek key now) c = snd (dedupe_peek key now c)"
| "dedupe_step (DedupeDelete key) c = dedupe_delete key c"
| "dedupe_step DedupeClear c = dedupe_clear c"

section \<open>scoped-expiring-id-cache.ts\<close>

record ScopedCache =
  sc_ttlMs :: int
  sc_cleanupThreshold :: int
  sc_store :: "(string, (string, int) jsmap) jsmap"

definition createScopedExpiringIdCache ::
  "(string, (string, int) jsmap) jsmap \<Rightarrow> jsnum \<Rightarrow> jsnum \<Rightarrow> ScopedCache" where
  "createScopedExpiringIdCache store ttlMs cleanupThreshold =
     \<lparr>sc_ttlMs = whole (resolveNonNegativeIntegerOption (UNumber ttlMs) (num 0)),
      sc_cleanupThreshold =
        whole (resolveIntegerOption (UNumber cleanupThreshold) (num 1) (Some (num 1)) None),
      sc_store = store\<rparr>"

text \<open>\<^verbatim>\<open>cleanupExpired\<close> mutates the entry in place; the store holds the same object, so its
  new contents are written back before an empty one is dropped.\<close>

definition cleanupExpired :: "string \<Rightarrow> (string, int) jsmap \<Rightarrow> int \<Rightarrow> ScopedCache \<Rightarrow>
    (string, int) jsmap \<times> ScopedCache" where
  "cleanupExpired scopeKey entry now c =
     (let entry = filter (\<lambda>(_, timestamp). \<not> now - timestamp > sc_ttlMs c) entry
      in (entry, c\<lparr>sc_store := (if length entry = 0 then map_del scopeKey (sc_store c)
                                else map_put scopeKey entry (sc_store c))\<rparr>))"

definition scoped_record :: "string \<Rightarrow> string \<Rightarrow> int \<Rightarrow> ScopedCache \<Rightarrow> ScopedCache" where
  "scoped_record scopeKey idKey now c =
     (let entry = map_put idKey now (coalesce (map_get (sc_store c) scopeKey) []);
          c = c\<lparr>sc_store := map_put scopeKey entry (sc_store c)\<rparr>
      in if int (length entry) > sc_cleanupThreshold c
         then snd (cleanupExpired scopeKey entry now c) else c)"

definition scoped_has :: "string \<Rightarrow> string \<Rightarrow> int \<Rightarrow> ScopedCache \<Rightarrow> bool \<times> ScopedCache" where
  "scoped_has scopeKey idKey now c =
     (case map_get (sc_store c) scopeKey of
        None \<Rightarrow> (False, c)
      | Some entry \<Rightarrow>
          let (entry, c) = cleanupExpired scopeKey entry now c in (map_has entry idKey, c))"

definition scoped_clear :: "ScopedCache \<Rightarrow> ScopedCache" where
  "scoped_clear c = c\<lparr>sc_store := []\<rparr>"

datatype scoped_op = ScopedRecord string string int | ScopedHas string string int | ScopedClear

fun scoped_step :: "scoped_op \<Rightarrow> ScopedCache \<Rightarrow> ScopedCache" where
  "scoped_step (ScopedRecord scope i now) c = scoped_record scope i now c"
| "scoped_step (ScopedHas scope i now) c = snd (scoped_has scope i now c)"
| "scoped_step ScopedClear c = scoped_clear c"

section \<open>Lemmas on the dedupe cache\<close>

definition dedupe_inv :: "int \<Rightarrow> int \<Rightarrow> DedupeCache \<Rightarrow> bool" where
  "dedupe_inv ttl cap c \<longleftrightarrow> dc_ttlMs c = ttl \<and> dc_maxSize c = cap \<and> 0 \<le> cap \<and> map_ok (dc_cache c)"

lemma prune_to_size:
  "pruneMapToMaxSize m (num k) = (if k \<le> 0 then [] else drop (length m - nat k) m)"
proof -
  have "num_leq (num (max 0 k)) (num 0) \<longleftrightarrow> k \<le> 0"
    by (auto simp: num_leq_def max_def simp del: of_int_max)
  moreover have "whole (num (max 0 k)) = max 0 k" by (simp add: whole_def)
  moreover have "num_max (num 0) (num_floor (num k)) = num (max 0 k)" by simp
  ultimately show ?thesis
    by (auto simp: pruneMapToMaxSize_def Let_def simp del: num_max_Fin num_simps of_int_max)
qed

lemma map_ok_drop: "map_ok m \<Longrightarrow> map_ok (drop n m)"
  by (simp add: map_ok_def drop_map [symmetric])

lemma dedupe_touch_cache: "dc_cache (dedupe_touch key now c) = map_del key (dc_cache c) @ [(key, now)]"
  by (auto simp: dedupe_touch_def map_put_def map_del_def)

lemma dedupe_touch_inv: "dedupe_inv ttl cap c \<Longrightarrow> dedupe_inv ttl cap (dedupe_touch key now c)"
  by (simp add: dedupe_inv_def dedupe_touch_def)

lemma dedupe_prune_inv: "dedupe_inv ttl cap c \<Longrightarrow> dedupe_inv ttl cap (dedupe_prune now c)"
  by (auto simp: dedupe_inv_def dedupe_prune_def Let_def prune_to_size intro!: map_ok_drop)

lemma hasUnexpired_inv: "dedupe_inv ttl cap c \<Longrightarrow> dedupe_inv ttl cap (snd (hasUnexpired key now b c))"
  by (auto simp: hasUnexpired_def intro: dedupe_touch_inv split: option.split)
     (auto simp: dedupe_inv_def dedupe_touch_def)

lemma dedupe_check_cases:
  obtains (absent) "nonempty_string key = None" "dedupe_check key now c = (False, c)"
  | (duplicate) k where "key = Some k" "k \<noteq> []" "fst (hasUnexpired k now True c)"
      "dedupe_check key now c = (True, snd (hasUnexpired k now True c))"
  | (recorded) k where "key = Some k" "k \<noteq> []" "\<not> fst (hasUnexpired k now True c)"
      "dedupe_check key now c =
         (False, dedupe_prune now (dedupe_touch k now (snd (hasUnexpired k now True c))))"
proof (cases "nonempty_string key")
  case None
  then show ?thesis by (intro absent) (simp_all add: dedupe_check_def)
next
  case (Some k)
  then have k: "key = Some k" "k \<noteq> []" by simp_all
  have eq: "dedupe_check key now c =
      (case hasUnexpired k now True c of
         (True, c) \<Rightarrow> (True, c)
       | (False, c) \<Rightarrow> (False, dedupe_prune now (dedupe_touch k now c)))"
    unfolding dedupe_check_def Some by simp
  show ?thesis
  proof (cases "hasUnexpired k now True c")
    case (Pair b c')
    with k eq show ?thesis by (cases b) (auto intro: duplicate recorded)
  qed
qed

lemma dedupe_step_inv: "dedupe_inv ttl cap c \<Longrightarrow> dedupe_inv ttl cap (dedupe_step x c)"
proof (cases x)
  case (DedupeCheck key now)
  assume inv: "dedupe_inv ttl cap c"
  then show ?thesis
    by (cases rule: dedupe_check_cases [of key now c])
       (auto simp: DedupeCheck intro: dedupe_prune_inv dedupe_touch_inv hasUnexpired_inv)
next
  case (DedupePeek key now)
  assume "dedupe_inv ttl cap c"
  then show ?thesis
    by (auto simp: DedupePeek dedupe_peek_def intro: hasUnexpired_inv split: option.split)
qed (auto simp: dedupe_inv_def dedupe_delete_def dedupe_clear_def split: option.split)

lemma dedupe_prune_length: "0 \<le> dc_maxSize c \<Longrightarrow> dedupe_size (dedupe_prune now c) \<le> nat (dc_maxSize c)"
  by (auto simp: dedupe_size_def dedupe_prune_def Let_def prune_to_size)

lemma dedupe_touch_present:
  "map_get (dc_cache c) key = Some t \<Longrightarrow> dedupe_size (dedupe_touch key now c) \<le> dedupe_size c"
  using map_del_shorter [OF map_get_Some_in, of "dc_cache c" key t]
  by (simp add: dedupe_size_def dedupe_touch_cache)

lemma hasUnexpired_size: "dedupe_size (snd (hasUnexpired key now b c)) \<le> dedupe_size c"
  by (auto simp: hasUnexpired_def intro: dedupe_touch_present split: option.split)
     (simp add: dedupe_size_def length_map_del_le)

lemma dedupe_step_cap:
  assumes "dedupe_inv ttl cap c" "dedupe_size c \<le> nat cap"
  shows "dedupe_size (dedupe_step x c) \<le> nat cap"
proof (cases x)
  case (DedupeCheck key now)
  show ?thesis
  proof (cases rule: dedupe_check_cases [of key now c])
    case (recorded k)
    have "dedupe_inv ttl cap (dedupe_touch k now (snd (hasUnexpired k now True c)))"
      using assms(1) by (intro dedupe_touch_inv hasUnexpired_inv)
    then show ?thesis
      using dedupe_prune_length [of "dedupe_touch k now (snd (hasUnexpired k now True c))" now]
      by (auto simp: DedupeCheck recorded(4) dedupe_inv_def)
  next
    case (duplicate k)
    then show ?thesis using assms(2) hasUnexpired_size [of k now True c] by (simp add: DedupeCheck)
  qed (use assms(2) in \<open>simp add: DedupeCheck\<close>)
next
  case (DedupePeek key now)
  then show ?thesis using assms(2) hasUnexpired_size [of _ now False c]
    by (auto simp: dedupe_peek_def intro: order_trans split: option.split)
qed (use assms(2) in \<open>auto simp: dedupe_size_def dedupe_delete_def dedupe_clear_def
       intro: order_trans [OF length_map_del_le] split: option.split\<close>)

interpretation dedupe_store: bounded_store dedupe_step dedupe_size "dedupe_inv ttl cap" "nat cap"
  for ttl cap
  by unfold_locales (fact dedupe_step_inv, fact dedupe_step_cap)

lemma dedupe_created: "dedupe_inv (dc_ttlMs (createDedupeCache t m)) (dc_maxSize (createDedupeCache t m))
    (createDedupeCache t m)"
proof -
  have "0 \<le> whole (resolveNonNegativeIntegerOption v (num 0))" for v
    unfolding resolveNonNegativeIntegerOption_def of_int_0
    by (auto simp: resolveIntegerOption_Fin Let_def whole_def)
  then show ?thesis by (simp add: dedupe_inv_def createDedupeCache_def)
qed

text \<open>Every entry was recorded by a check of its key at its time.\<close>

lemma dedupe_step_origin:
  "set (dc_cache (dedupe_step x c)) \<subseteq> set (dc_cache c) \<union> {(k, t). x = DedupeCheck (Some k) t}"
proof -
  have prune: "set (dc_cache (dedupe_prune now c)) \<subseteq> set (dc_cache c)" for now c
    by (auto simp: dedupe_prune_def Let_def prune_to_size dest: in_set_dropD)
  have touch: "set (dc_cache (dedupe_touch k now c)) \<subseteq> set (dc_cache c) \<union> {(k, now)}" for k now c
    by (auto simp: dedupe_touch_cache map_del_def)
  have del: "set (map_del k m) \<subseteq> set m" for k :: string and m :: "(string, int) jsmap"
    by (auto simp: map_del_def)
  have unexpired: "set (dc_cache (snd (hasUnexpired k now b c))) \<subseteq>
      set (dc_cache c) \<union> (if b then {(k, now)} else {})" for k now b
    using touch [of k now c] del [of k "dc_cache c"] by (auto simp: hasUnexpired_def split: option.splits)
  show ?thesis
  proof (cases x)
    case (DedupeCheck key now)
    show ?thesis
    proof (cases rule: dedupe_check_cases [of key now c])
      case (recorded k)
      let ?u = "snd (hasUnexpired k now True c)"
      have "set (dc_cache (dedupe_prune now (dedupe_touch k now ?u))) \<subseteq> set (dc_cache c) \<union> {(k, now)}"
        using prune [of now "dedupe_touch k now ?u"] touch [of k now ?u] unexpired [of k now True] by auto
      moreover have "dedupe_step x c = dedupe_prune now (dedupe_touch k now ?u)"
        by (simp add: DedupeCheck recorded(4))
      ultimately show ?thesis using recorded(1) by (auto simp: DedupeCheck)
    next
      case (duplicate k)
      then show ?thesis using unexpired [of k now True] by (auto simp: DedupeCheck)
    qed (simp add: DedupeCheck)
  next
    case (DedupePeek key now)
    then show ?thesis using unexpired [of _ now False]
      by (auto simp: dedupe_peek_def split: option.splits)
  qed (auto simp: dedupe_delete_def dedupe_clear_def map_del_def split: option.splits)
qed

lemma dedupe_run_origin:
  "set (dc_cache (fold dedupe_step ops c)) \<subseteq>
     set (dc_cache c) \<union> {(k, t). DedupeCheck (Some k) t \<in> set ops}"
proof (induction ops arbitrary: c)
  case (Cons x ops)
  show ?case using Cons.IH [of "dedupe_step x c"] dedupe_step_origin [of x c] by fastforce
qed simp

text \<open>A key that was just seen, and the entries that came after it.\<close>

definition seen_at :: "string \<Rightarrow> int \<Rightarrow> nat \<Rightarrow> DedupeCache \<Rightarrow> bool" where
  "seen_at k t n c \<longleftrightarrow> (\<exists>before later. dc_cache c = before @ (k, t) # later \<and> length later \<le> n)"

lemma seen_atI: "dc_cache c = before @ (k, t) # later \<Longrightarrow> length later \<le> n \<Longrightarrow> seen_at k t n c"
  by (auto simp: seen_at_def)

lemma seen_at_filter:
  assumes "seen_at k t n c" "P (k, t)"
  shows "seen_at k t n (c\<lparr>dc_cache := filter P (dc_cache c)\<rparr>)"
proof -
  obtain before later where "dc_cache c = before @ (k, t) # later" "length later \<le> n"
    using assms(1) by (auto simp: seen_at_def)
  with assms(2) show ?thesis
    by (intro seen_atI [of _ "filter P before" _ _ "filter P later"])
       (auto intro: order_trans [OF length_filter_le])
qed

lemma seen_at_del: "seen_at k t n c \<Longrightarrow> j \<noteq> k \<Longrightarrow> seen_at k t n (c\<lparr>dc_cache := map_del j (dc_cache c)\<rparr>)"
  unfolding map_del_def by (rule seen_at_filter) simp_all

lemma seen_at_touch:
  assumes "seen_at k t n c" "j \<noteq> k"
  shows "seen_at k t (Suc n) (dedupe_touch j now c)"
proof -
  obtain before later where "map_del j (dc_cache c) = before @ (k, t) # later" "length later \<le> n"
    using seen_at_del [OF assms] by (auto simp: seen_at_def)
  then show ?thesis by (intro seen_atI [of _ before _ _ "later @ [(j, now)]"]) (simp_all add: dedupe_touch_cache)
qed

lemma seen_at_prune:
  assumes "seen_at k t n c" "int n < dc_maxSize c" "0 < dc_ttlMs c \<longrightarrow> now < t + dc_ttlMs c"
  shows "seen_at k t n (dedupe_prune now c)"
proof -
  let ?live = "if dc_ttlMs c > 0 then filter (\<lambda>(_, entryTs). \<not> entryTs < now - dc_ttlMs c) (dc_cache c)
    else dc_cache c"
  have "seen_at k t n (c\<lparr>dc_cache := ?live\<rparr>)"
    using assms(1,3) by (auto intro!: seen_at_filter)
  then obtain before later where live: "?live = before @ (k, t) # later" "length later \<le> n"
    by (auto simp: seen_at_def)
  have "length ?live - nat (dc_maxSize c) \<le> length before" using live assms(2) by simp
  then have "drop (length ?live - nat (dc_maxSize c)) ?live =
      drop (length ?live - nat (dc_maxSize c)) before @ (k, t) # later"
    unfolding live(1) by simp
  then show ?thesis
    using live(2) assms(2)
    by (intro seen_atI [of _ "drop (length ?live - nat (dc_maxSize c)) before" _ _ later])
       (simp_all add: dedupe_prune_def Let_def prune_to_size)
qed

lemma seen_at_get: "seen_at k t n c \<Longrightarrow> map_ok (dc_cache c) \<Longrightarrow> map_get (dc_cache c) k = Some t"
  by (rule map_get_in_ok) (auto simp: seen_at_def)

text \<open>Operations that leave a key alone that was seen at \<open>t\<close>, and how many entries they add.\<close>

fun spares :: "string \<Rightarrow> int \<Rightarrow> int \<Rightarrow> dedupe_op \<Rightarrow> bool" where
  "spares k t ttl (DedupeCheck key now) = (key \<noteq> Some k \<and> (ttl \<le> 0 \<or> now < t + ttl))"
| "spares k t ttl (DedupePeek key now) = (key \<noteq> Some k)"
| "spares k t ttl (DedupeDelete key) = (key \<noteq> Some k)"
| "spares k t ttl DedupeClear = False"

fun added :: "dedupe_op \<Rightarrow> nat" where
  "added (DedupeCheck key now) = 1"
| "added _ = 0"

lemma seen_at_mono: "seen_at k t n c \<Longrightarrow> n \<le> m \<Longrightarrow> seen_at k t m c"
  by (auto simp: seen_at_def intro: order_trans)

lemma hasUnexpired_seen:
  assumes "seen_at k t n c" "j \<noteq> k"
  shows "seen_at k t (if fst (hasUnexpired j now b c) \<and> b then Suc n else n) (snd (hasUnexpired j now b c))"
  using assms by (auto simp: hasUnexpired_def intro: seen_at_touch seen_at_del split: option.split)

lemma seen_at_step:
  assumes "dedupe_inv ttl cap c" "seen_at k t n c" "spares k t ttl x" "int (n + added x) < cap"
  shows "seen_at k t (n + added x) (dedupe_step x c)"
proof (cases x)
  case (DedupeCheck key now)
  show ?thesis
  proof (cases rule: dedupe_check_cases [of key now c])
    case absent
    then show ?thesis using assms(2) by (auto simp: DedupeCheck intro: seen_at_mono)
  next
    case (duplicate j)
    then have "j \<noteq> k" using assms(3) by (auto simp: DedupeCheck)
    from hasUnexpired_seen [OF assms(2) this, of now True] duplicate show ?thesis
      by (simp add: DedupeCheck)
  next
    case (recorded j)
    then have j: "j \<noteq> k" using assms(3) by (auto simp: DedupeCheck)
    let ?u = "snd (hasUnexpired j now True c)"
    have "seen_at k t n ?u" using hasUnexpired_seen [OF assms(2) j, of now True] recorded(3) by simp
    then have "seen_at k t (Suc n) (dedupe_touch j now ?u)" using j by (rule seen_at_touch)
    moreover have "dedupe_inv ttl cap (dedupe_touch j now ?u)"
      using assms(1) by (intro dedupe_touch_inv hasUnexpired_inv)
    ultimately have "seen_at k t (Suc n) (dedupe_prune now (dedupe_touch j now ?u))"
      using assms(3,4) by (intro seen_at_prune) (auto simp: dedupe_inv_def DedupeCheck)
    then show ?thesis by (simp add: DedupeCheck recorded(4))
  qed
next
  case (DedupePeek key now)
  show ?thesis
  proof (cases "nonempty_string key")
    case None
    then show ?thesis using assms(2) by (simp add: DedupePeek dedupe_peek_def)
  next
    case (Some j)
    then have "j \<noteq> k" using assms(3) by (auto simp: DedupePeek)
    from hasUnexpired_seen [OF assms(2) this, of now False] Some show ?thesis
      by (simp add: DedupePeek dedupe_peek_def del: nonempty_string_Some)
  qed
next
  case (DedupeDelete key)
  with assms(2,3) show ?thesis
    by (auto simp: dedupe_delete_def nonempty_string_def intro: seen_at_del split: option.split)
qed (use assms(3) in simp)

lemma seen_at_run:
  assumes "dedupe_inv ttl cap c" "seen_at k t n c" "list_all (spares k t ttl) ops"
    "int (n + sum_list (map added ops)) < cap"
  shows "seen_at k t (n + sum_list (map added ops)) (fold dedupe_step ops c)"
  using assms
proof (induction ops arbitrary: c n)
  case (Cons x ops)
  have "seen_at k t (n + added x) (dedupe_step x c)"
    using Cons.prems by (intro seen_at_step) auto
  moreover have "dedupe_inv ttl cap (dedupe_step x c)" using Cons.prems(1) by (rule dedupe_step_inv)
  ultimately have "seen_at k t (n + added x + sum_list (map added ops)) (fold dedupe_step ops (dedupe_step x c))"
    using Cons.prems by (intro Cons.IH) (auto simp: add_ac)
  then show ?case by (simp add: add_ac)
qed simp

lemma check_seen:
  assumes "dedupe_inv ttl cap c" "0 < cap" "k \<noteq> []"
  shows "seen_at k t 0 (snd (dedupe_check (Some k) t c))"
proof (cases rule: dedupe_check_cases [of "Some k" t c])
  case (duplicate j)
  then have "snd (hasUnexpired k t True c) = dedupe_touch k t c"
    by (auto simp: hasUnexpired_def split: option.splits if_splits)
  with duplicate show ?thesis by (auto simp: dedupe_touch_cache intro: seen_atI)
next
  case (recorded j)
  let ?u = "snd (hasUnexpired k t True c)"
  have "seen_at k t 0 (dedupe_touch k t ?u)" by (auto simp: dedupe_touch_cache intro: seen_atI)
  moreover have "dedupe_inv ttl cap (dedupe_touch k t ?u)"
    using assms(1) by (intro dedupe_touch_inv hasUnexpired_inv)
  ultimately have "seen_at k t 0 (dedupe_prune t (dedupe_touch k t ?u))"
    using assms(2) by (intro seen_at_prune) (auto simp: dedupe_inv_def)
  with recorded show ?thesis by simp
qed (use assms(3) in \<open>simp add: nonempty_string_def\<close>)

section \<open>Lemmas on the scoped cache\<close>

definition scoped_ok :: "ScopedCache \<Rightarrow> bool" where
  "scoped_ok c \<longleftrightarrow> map_ok (sc_store c) \<and> (\<forall>scope e. map_get (sc_store c) scope = Some e \<longrightarrow> map_ok e)"

text \<open>When an id was last recorded in a scope, as far as the store remembers.\<close>

definition recorded_at :: "string \<Rightarrow> string \<Rightarrow> ScopedCache \<Rightarrow> int option" where
  "recorded_at scope i c = Option.bind (map_get (sc_store c) scope) (\<lambda>e. map_get e i)"

definition within_ttl :: "ScopedCache \<Rightarrow> int \<Rightarrow> int option \<Rightarrow> int option" where
  "within_ttl c now v = Option.bind v (\<lambda>t. if now - t \<le> sc_ttlMs c then Some t else None)"

lemma cleanup_get:
  assumes "map_ok e"
  shows "map_get (fst (cleanupExpired scope e now c)) i = within_ttl c now (map_get e i)"
  using assms by (auto simp: cleanupExpired_def Let_def map_get_filter within_ttl_def not_less
      split: option.split bind_split)

lemma cleanup_store:
  assumes "map_ok e"
  shows "recorded_at s i (snd (cleanupExpired scope e now c)) =
    (if s = scope then within_ttl c now (map_get e i) else recorded_at s i c)"
  using cleanup_get [OF assms, of scope now c i]
  by (auto simp: recorded_at_def cleanupExpired_def Let_def)

lemma cleanup_ok:
  "scoped_ok c \<Longrightarrow> map_ok e \<Longrightarrow> scoped_ok (snd (cleanupExpired scope e now c))"
  by (auto simp: scoped_ok_def cleanupExpired_def Let_def)

lemma cleanup_limits: "sc_ttlMs (snd (cleanupExpired scope e now c)) = sc_ttlMs c"
  by (simp add: cleanupExpired_def Let_def)

lemma scoped_has_eq:
  assumes "scoped_ok c"
  shows "fst (scoped_has scope i now c) \<longleftrightarrow> within_ttl c now (recorded_at scope i c) \<noteq> None"
proof (cases "map_get (sc_store c) scope")
  case None
  then show ?thesis by (simp add: scoped_has_def recorded_at_def within_ttl_def)
next
  case (Some e)
  with assms have "map_ok e" by (simp add: scoped_ok_def)
  from cleanup_get [OF this, of scope now c i] Some show ?thesis
    by (simp add: scoped_has_def recorded_at_def split_beta Let_def map_has_get)
qed

lemma scoped_step_ok: "scoped_ok c \<Longrightarrow> scoped_ok (scoped_step x c) \<and> sc_ttlMs (scoped_step x c) = sc_ttlMs c"
proof (cases x)
  case (ScopedRecord scope i now)
  assume ok: "scoped_ok c"
  let ?e = "map_put i now (coalesce (map_get (sc_store c) scope) [])"
  let ?c = "c\<lparr>sc_store := map_put scope ?e (sc_store c)\<rparr>"
  have e: "map_ok ?e" using ok by (auto simp: scoped_ok_def coalesce_def split: option.split)
  then have "scoped_ok ?c" using ok by (simp add: scoped_ok_def)
  then show ?thesis using cleanup_ok [OF _ e, of ?c scope now] cleanup_limits [of scope ?e now ?c]
    by (simp add: ScopedRecord scoped_record_def Let_def)
next
  case (ScopedHas scope i now)
  assume ok: "scoped_ok c"
  show ?thesis
  proof (cases "map_get (sc_store c) scope")
    case None
    then show ?thesis using ok by (simp add: ScopedHas scoped_has_def)
  next
    case (Some e)
    with ok have "map_ok e" by (simp add: scoped_ok_def)
    from cleanup_ok [OF ok this] Some show ?thesis
      by (simp add: ScopedHas scoped_has_def split_beta Let_def cleanup_limits)
  qed
qed (simp add: scoped_clear_def scoped_ok_def)

text \<open>Operations that neither record the id again, nor clear the cache, nor look at its scope at
  a time when the record has expired.\<close>

fun undisturbed :: "string \<Rightarrow> string \<Rightarrow> int \<Rightarrow> scoped_op \<Rightarrow> bool" where
  "undisturbed scope i u (ScopedRecord s j now) = (s \<noteq> scope \<or> j \<noteq> i \<and> now \<le> u)"
| "undisturbed scope i u (ScopedHas s j now) = (s \<noteq> scope \<or> now \<le> u)"
| "undisturbed scope i u ScopedClear = False"

lemma scoped_record_at:
  assumes "scoped_ok c"
  shows "recorded_at s i (scoped_record scope j now c) =
    (if s \<noteq> scope then recorded_at s i c
     else let v = (if i = j then Some now else recorded_at s i c)
          in if int (length (map_put j now (coalesce (map_get (sc_store c) scope) []))) > sc_cleanupThreshold c
             then within_ttl c now v else v)"
proof -
  let ?e = "map_put j now (coalesce (map_get (sc_store c) scope) [])"
  have "map_ok ?e" using assms by (auto simp: scoped_ok_def coalesce_def split: option.split)
  from cleanup_store [OF this, of s i scope now "c\<lparr>sc_store := map_put scope ?e (sc_store c)\<rparr>"]
  show ?thesis
    by (auto simp: scoped_record_def Let_def recorded_at_def within_ttl_def coalesce_def
        split: option.split)
qed

lemma undisturbed_step:
  assumes "scoped_ok c" "recorded_at scope i c = Some t" "undisturbed scope i (t + sc_ttlMs c) x"
  shows "recorded_at scope i (scoped_step x c) = Some t"
proof (cases x)
  case (ScopedRecord s j now)
  with assms show ?thesis by (auto simp: scoped_record_at within_ttl_def Let_def)
next
  case (ScopedHas s j now)
  show ?thesis
  proof (cases "map_get (sc_store c) s")
    case None
    with assms(2) show ?thesis by (simp add: ScopedHas scoped_has_def)
  next
    case (Some e)
    with assms(1) have "map_ok e" by (simp add: scoped_ok_def)
    from cleanup_store [OF this, of scope i s now c] Some assms(2,3) show ?thesis
      by (auto simp: ScopedHas scoped_has_def split_beta Let_def within_ttl_def recorded_at_def)
  qed
qed (use assms(3) in simp)

lemma undisturbed_run:
  assumes "scoped_ok c" "recorded_at scope i c = Some t"
    "list_all (undisturbed scope i (t + sc_ttlMs c)) ops"
  shows "recorded_at scope i (fold scoped_step ops c) = Some t \<and> scoped_ok (fold scoped_step ops c) \<and>
    sc_ttlMs (fold scoped_step ops c) = sc_ttlMs c"
  using assms
proof (induction ops arbitrary: c)
  case (Cons x ops)
  have "scoped_ok (scoped_step x c)" "sc_ttlMs (scoped_step x c) = sc_ttlMs c"
    using scoped_step_ok Cons.prems(1) by blast+
  moreover have "recorded_at scope i (scoped_step x c) = Some t"
    using Cons.prems by (intro undisturbed_step) auto
  ultimately show ?case using Cons.IH [of "scoped_step x c"] Cons.prems(3) by simp
qed simp

section \<open>Properties\<close>

text \<open>A dedupe cache never outgrows its maximum, one entry a key, whatever is checked, peeked or
  deleted and whatever the clock reads; a maximum of zero stores nothing.\<close>

theorem dedupe_bounded:
  "int (dedupe_size (fold dedupe_step ops (createDedupeCache ttl maxSize))) \<le>
     dc_maxSize (createDedupeCache ttl maxSize) \<and>
   map_ok (dc_cache (fold dedupe_step ops (createDedupeCache ttl maxSize)))"
proof -
  let ?c = "createDedupeCache ttl maxSize"
  have "dedupe_size ?c \<le> nat (dc_maxSize ?c)" by (simp add: dedupe_size_def createDedupeCache_def)
  from dedupe_store.run_keeps [OF dedupe_created this, of ops] dedupe_created [of ttl maxSize]
  show ?thesis by (auto simp: dedupe_inv_def)
qed

text \<open>No false duplicates: a key is reported as a duplicate only if an earlier check recorded it,
  and, with a time to live, less than that time before.\<close>

theorem dedupe_sound:
  assumes "fst (dedupe_check (Some k) now (fold dedupe_step ops (createDedupeCache ttl maxSize)))"
  shows "\<exists>t. DedupeCheck (Some k) t \<in> set ops \<and>
    (0 < dc_ttlMs (createDedupeCache ttl maxSize) \<longrightarrow> now - t < dc_ttlMs (createDedupeCache ttl maxSize))"
proof -
  let ?c = "fold dedupe_step ops (createDedupeCache ttl maxSize)"
  have "dedupe_size (createDedupeCache ttl maxSize) \<le> nat (dc_maxSize (createDedupeCache ttl maxSize))"
    by (simp add: dedupe_size_def createDedupeCache_def)
  from dedupe_store.run_keeps [OF dedupe_created this, of ops]
  have ttl: "dc_ttlMs ?c = dc_ttlMs (createDedupeCache ttl maxSize)" by (simp add: dedupe_inv_def)
  from assms have "fst (hasUnexpired k now True ?c)"
    by (cases rule: dedupe_check_cases [of "Some k" now ?c]) auto
  then obtain t where "map_get (dc_cache ?c) k = Some t" "0 < dc_ttlMs ?c \<longrightarrow> now - t < dc_ttlMs ?c"
    by (auto simp: hasUnexpired_def split: option.splits if_splits)
  moreover have "dc_cache (createDedupeCache ttl maxSize) = []" by (simp add: createDedupeCache_def)
  ultimately show ?thesis
    using dedupe_run_origin [of ops "createDedupeCache ttl maxSize"] ttl
    by (auto dest!: map_get_Some_in)
qed

theorem dedupe_sound_witness:
  "\<exists>t. DedupeCheck (Some ''m1'') t \<in> set [DedupeCheck (Some ''m1'') 100, DedupeCheck (Some ''m2'') 110]"
proof -
  have "fst (dedupe_check (Some ''m1'') 120 (fold dedupe_step
      [DedupeCheck (Some ''m1'') 100, DedupeCheck (Some ''m2'') 110] (createDedupeCache (num 60) (num 2))))"
    by code_simp
  from dedupe_sound [OF this] show ?thesis by blast
qed

text \<open>C38: No missed duplicates: after a check of a key, and as long as fewer other checks follow than
  the cache holds entries and the time to live has not passed, the key is a duplicate.\<close>

theorem dedupe_complete:
  assumes "dedupe_inv ttl cap c" "k \<noteq> []" "list_all (spares k t ttl) ops"
    and "int (sum_list (map added ops)) < cap" "ttl \<le> 0 \<or> now < t + ttl"
  shows "fst (dedupe_peek (Some k) now (fold dedupe_step ops (snd (dedupe_check (Some k) t c))))"
proof -
  let ?c = "snd (dedupe_check (Some k) t c)"
  let ?r = "fold dedupe_step ops ?c"
  have inv: "dedupe_inv ttl cap ?c" using dedupe_step_inv [OF assms(1), of "DedupeCheck (Some k) t"] by simp
  have cap: "0 < cap" using assms(4) by linarith
  have "seen_at k t (0 + sum_list (map added ops)) ?r"
    using assms(3,4) by (intro seen_at_run [OF inv check_seen [OF assms(1) cap assms(2)]]) simp_all
  moreover have inv': "dedupe_inv ttl cap ?r"
  proof -
    have "dedupe_inv ttl cap (fold dedupe_step ops c)" if "dedupe_inv ttl cap c" for c
      using that by (induction ops arbitrary: c) (auto intro: dedupe_step_inv)
    then show ?thesis using inv by blast
  qed
  ultimately have "map_get (dc_cache ?r) k = Some t"
    by (intro seen_at_get) (auto simp: dedupe_inv_def)
  then show ?thesis using assms(2,5) inv'
    by (auto simp: dedupe_peek_def nonempty_string_def hasUnexpired_def dedupe_inv_def)
qed

theorem dedupe_complete_witness:
  "fst (dedupe_peek (Some ''m1'') 130 (fold dedupe_step [DedupeCheck (Some ''m2'') 110,
     DedupePeek (Some ''m3'') 120] (snd (dedupe_check (Some ''m1'') 100
       \<lparr>dc_ttlMs = 60, dc_maxSize = 2, dc_cache = [(''m0'', 90)]\<rparr>))))"
  by (rule dedupe_complete [where ttl = 60 and cap = 2])
     (simp_all add: dedupe_inv_def map_ok_def)

text \<open>A recorded id is found in its scope exactly until its time to live has passed, whatever is
  recorded for other ids or scopes meanwhile and however often the scope is cleaned up.\<close>

theorem scoped_id_lives_for_ttl:
  assumes "scoped_ok c" "0 \<le> sc_ttlMs c" "list_all (undisturbed scope i (t + sc_ttlMs c)) ops"
  shows "fst (scoped_has scope i now (fold scoped_step ops (scoped_record scope i t c))) \<longleftrightarrow>
    now - t \<le> sc_ttlMs c"
proof -
  let ?c = "scoped_record scope i t c"
  have ok: "scoped_ok ?c" "sc_ttlMs ?c = sc_ttlMs c"
    using scoped_step_ok [OF assms(1), of "ScopedRecord scope i t"] by simp_all
  have "recorded_at scope i ?c = Some t"
    using assms(1,2) by (simp add: scoped_record_at within_ttl_def Let_def)
  from undisturbed_run [OF ok(1) this, of ops] ok(2) assms(3) show ?thesis
    by (simp add: scoped_has_eq within_ttl_def)
qed

theorem scoped_id_lives_for_ttl_witness:
  "\<not> fst (scoped_has ''chat'' ''m1'' 161 (fold scoped_step [ScopedRecord ''chat'' ''m2'' 150,
     ScopedRecord ''other'' ''m1'' 900] (scoped_record ''chat'' ''m1'' 100
       (createScopedExpiringIdCache [] (num 60) (num 1)))))"
proof -
  have c: "createScopedExpiringIdCache [] (num 60) (num 1) =
      \<lparr>sc_ttlMs = 60, sc_cleanupThreshold = 1, sc_store = []\<rparr>"
    by code_simp
  show ?thesis
    unfolding c by (subst scoped_id_lives_for_ttl) (simp_all add: scoped_ok_def)
qed

end
