(* ===== verification/Memo_Cache.thy ===== *)
theory Memo_Cache
  imports JS_Prelude
begin

text \<open>
  In-process caches of computed values. The program keeps several of them, each a
  \<^verbatim>\<open>Map\<close> that is emptied or loses its oldest entry above a size limit. The locale
  \<open>memo_cache\<close> states what their callers rely on: storing never invents an entry and
  never leaves the table above its limit. It gives the two facts every user of a cache
  needs: a hit is always a correct value, and the table never grows beyond the limit.
\<close>

definition memo_ok :: "('k \<Rightarrow> 'v \<Rightarrow> bool) \<Rightarrow> ('k, 'v) jsmap \<Rightarrow> bool" where
  "memo_ok correct m \<longleftrightarrow> list_all (\<lambda>(k, v). correct k v) m"

lemma memo_ok_Nil [simp]: "memo_ok correct []"
  by (simp add: memo_ok_def)

lemma memo_ok_hit: "memo_ok correct m \<Longrightarrow> map_get m k = Some v \<Longrightarrow> correct k v"
  by (auto simp: memo_ok_def list_all_iff dest!: map_get_Some_in)

locale memo_cache =
  fixes store :: "'k \<Rightarrow> 'v \<Rightarrow> ('k, 'v) jsmap \<Rightarrow> ('k, 'v) jsmap"
    and cap :: nat
  assumes store_entries: "e \<in> set (store k v m) \<Longrightarrow> e \<in> set m \<or> e = (k, v)"
    and store_cap: "length m \<le> cap \<Longrightarrow> length (store k v m) \<le> cap"
begin

lemma store_ok: "memo_ok correct m \<Longrightarrow> correct k v \<Longrightarrow> memo_ok correct (store k v m)"
  by (auto simp: memo_ok_def list_all_iff dest!: store_entries)

lemma call_ok:
  assumes "memo_ok correct m" "\<And>v. compute = v \<Longrightarrow> correct k v"
  shows "case map_get m k of
      Some v \<Rightarrow> correct k v
    | None \<Rightarrow> correct k compute \<and> memo_ok correct (store k compute m)"
  using assms by (auto split: option.splits intro: memo_ok_hit store_ok)

end

section \<open>The two eviction policies of the program\<close>

text \<open>Above the limit the oldest entry goes, or the table is emptied but for the new entry.\<close>

definition store_evicting_oldest :: "nat \<Rightarrow> 'k \<Rightarrow> 'v \<Rightarrow> ('k, 'v) jsmap \<Rightarrow> ('k, 'v) jsmap" where
  "store_evicting_oldest limit k v m =
     (let m = map_put k v m in if length m \<le> limit then m else drop 1 m)"

definition store_or_restart :: "nat \<Rightarrow> 'k \<Rightarrow> 'v \<Rightarrow> ('k, 'v) jsmap \<Rightarrow> ('k, 'v) jsmap" where
  "store_or_restart limit k v m =
     (let m = map_put k v m in if length m > limit then map_put k v [] else m)"

lemma set_map_put_subset: "e \<in> set (map_put k v m) \<Longrightarrow> e \<in> set m \<or> e = (k, v)"
  by (auto simp: map_put_def split: if_splits)

lemma evicting_oldest_cache: "memo_cache (store_evicting_oldest limit) limit"
proof
  fix e :: "'a \<times> 'b" and k v m
  show "e \<in> set (store_evicting_oldest limit k v m) \<Longrightarrow> e \<in> set m \<or> e = (k, v)"
    by (auto simp: store_evicting_oldest_def Let_def split: if_splits
        dest!: in_set_dropD set_map_put_subset)
  show "length (m :: ('a, 'b) jsmap) \<le> limit \<Longrightarrow> length (store_evicting_oldest limit k v m) \<le> limit"
    by (auto simp: store_evicting_oldest_def Let_def length_map_put)
qed

lemma restarting_cache: "0 < limit \<Longrightarrow> memo_cache (store_or_restart limit) limit"
proof
  fix e :: "'a \<times> 'b" and k v m
  show "e \<in> set (store_or_restart limit k v m) \<Longrightarrow> e \<in> set m \<or> e = (k, v)"
    by (auto simp: store_or_restart_def Let_def map_put_fresh split: if_splits
        dest!: set_map_put_subset)
  show "0 < limit \<Longrightarrow> length (m :: ('a, 'b) jsmap) \<le> limit \<Longrightarrow>
      length (store_or_restart limit k v m) \<le> limit"
    by (auto simp: store_or_restart_def Let_def length_map_put map_put_fresh)
qed

end
