(* ===== verification/Agent_Ids.thy ===== *)
theory Agent_Ids
  imports String_Normalization Memo_Cache
begin

text \<open>
  Agent and account ids: \<^verbatim>\<open>normalization-core/agent-id.ts\<close> and
  \<^verbatim>\<open>routing/account-id.ts\<close>. Ids name directories and object keys, so both are forced
  into a short alphabet of lower case letters, digits, dash and underscore. The regular
  expressions become the recursive functions they denote. Account ids go through two
  caches bounded by 512 entries; the caches are states passed explicitly.

  The lemmas show the shape of a normalised id, when a second normalisation changes
  nothing, and that the caches never change an answer.
\<close>

section \<open>The id alphabet\<close>

definition lower_alnum :: "char \<Rightarrow> bool" where
  "lower_alnum c \<longleftrightarrow> (let n = (of_char c :: nat) in 97 \<le> n \<and> n \<le> 122 \<or> 48 \<le> n \<and> n \<le> 57)"

definition upper_letter :: "char \<Rightarrow> bool" where
  "upper_letter c \<longleftrightarrow> (let n = (of_char c :: nat) in 65 \<le> n \<and> n \<le> 90)"

definition id_char :: "char \<Rightarrow> bool" where
  "id_char c \<longleftrightarrow> lower_alnum c \<or> c = CHR ''_'' \<or> c = CHR ''-''"

text \<open>\<^verbatim>\<open>VALID_ID_RE\<close>, which ignores case.\<close>

definition VALID_ID_RE :: "string \<Rightarrow> bool" where
  "VALID_ID_RE s =
     (case s of
        [] \<Rightarrow> False
      | c # cs \<Rightarrow> (lower_alnum c \<or> upper_letter c) \<and> length cs \<le> 63 \<and>
          list_all (\<lambda>d. id_char d \<or> upper_letter d) cs)"

text \<open>\<^verbatim>\<open>replace(INVALID_CHARS_RE, "-")\<close>: a dash for every maximal run of other characters.\<close>

fun replace_invalid :: "bool \<Rightarrow> string \<Rightarrow> string" where
  "replace_invalid in_run [] = []"
| "replace_invalid in_run (c # cs) =
     (if id_char c then c # replace_invalid False cs
      else if in_run then replace_invalid True cs
      else CHR ''-'' # replace_invalid True cs)"

definition trim_dashes :: "string \<Rightarrow> string" where
  "trim_dashes s = (let s = dropWhile (\<lambda>c. c = CHR ''-'') s
     in rev (dropWhile (\<lambda>c. c = CHR ''-'') (rev s)))"

definition id_slug :: "string \<Rightarrow> string" where
  "id_slug normalized = take 64 (trim_dashes (replace_invalid False normalized))"

section \<open>Agent ids\<close>

definition DEFAULT_AGENT_ID :: string where "DEFAULT_AGENT_ID = ''main''"

definition normalizeAgentId :: "string option \<Rightarrow> string" where
  "normalizeAgentId v =
     (let trimmed = js_trim (coalesce v [])
      in if trimmed = [] then DEFAULT_AGENT_ID
         else
           let normalized = normalizeLowercaseStringOrEmpty (JString trimmed)
           in if VALID_ID_RE trimmed then normalized
              else coalesce (nonempty_string (Some (id_slug normalized))) DEFAULT_AGENT_ID)"

definition isValidAgentId :: "string option \<Rightarrow> bool" where
  "isValidAgentId v \<longleftrightarrow>
     (let trimmed = js_trim (coalesce v []) in trimmed \<noteq> [] \<and> VALID_ID_RE trimmed)"

section \<open>Account ids\<close>

definition DEFAULT_ACCOUNT_ID :: string where "DEFAULT_ACCOUNT_ID = ''default''"

definition isBlockedObjectKey :: "string \<Rightarrow> bool" where
  "isBlockedObjectKey key \<longleftrightarrow> key \<in> set [''__proto__'', ''prototype'', ''constructor'']"

definition canonicalizeAccountId :: "string \<Rightarrow> string" where
  "canonicalizeAccountId v =
     (let normalized = normalizeLowercaseStringOrEmpty (JString v)
      in if VALID_ID_RE v then normalized else id_slug normalized)"

definition normalizeCanonicalAccountId :: "string \<Rightarrow> string option" where
  "normalizeCanonicalAccountId v =
     (let canonical = canonicalizeAccountId v
      in if canonical = [] \<or> isBlockedObjectKey canonical then None else Some canonical)"

definition normalizeAccountId :: "string option \<Rightarrow> string" where
  "normalizeAccountId v =
     (let trimmed = js_trim (coalesce v [])
      in if trimmed = [] then DEFAULT_ACCOUNT_ID
         else coalesce (nonempty_string (normalizeCanonicalAccountId trimmed)) DEFAULT_ACCOUNT_ID)"

definition normalizeOptionalAccountId :: "string option \<Rightarrow> string option" where
  "normalizeOptionalAccountId v =
     (let trimmed = js_trim (coalesce v [])
      in if trimmed = [] then None else nonempty_string (normalizeCanonicalAccountId trimmed))"

text \<open>The same two functions with the module's caches. \<^verbatim>\<open>setNormalizeCache\<close> evicts the
  oldest entry above the limit.\<close>

definition ACCOUNT_ID_CACHE_MAX :: nat where "ACCOUNT_ID_CACHE_MAX = 512"

definition setNormalizeCache :: "string \<Rightarrow> 'v \<Rightarrow> (string, 'v) jsmap \<Rightarrow> (string, 'v) jsmap" where
  "setNormalizeCache = store_evicting_oldest ACCOUNT_ID_CACHE_MAX"

definition normalizeAccountIdCached ::
  "string option \<Rightarrow> (string, string) jsmap \<Rightarrow> string \<times> (string, string) jsmap" where
  "normalizeAccountIdCached v cache =
     (let trimmed = js_trim (coalesce v [])
      in if trimmed = [] then (DEFAULT_ACCOUNT_ID, cache)
         else
           (case nonempty_string (map_get cache trimmed) of
              Some cached \<Rightarrow> (cached, cache)
            | None \<Rightarrow>
                let normalized =
                  coalesce (nonempty_string (normalizeCanonicalAccountId trimmed)) DEFAULT_ACCOUNT_ID
                in (normalized, setNormalizeCache trimmed normalized cache)))"

definition normalizeOptionalAccountIdCached ::
  "string option \<Rightarrow> (string, string option) jsmap \<Rightarrow>
     string option \<times> (string, string option) jsmap" where
  "normalizeOptionalAccountIdCached v cache =
     (let trimmed = js_trim (coalesce v [])
      in if trimmed = [] then (None, cache)
         else
           (case map_get cache trimmed of
              Some cached \<Rightarrow> (cached, cache)
            | None \<Rightarrow>
                let normalized = nonempty_string (normalizeCanonicalAccountId trimmed)
                in (normalized, setNormalizeCache trimmed normalized cache)))"

interpretation account_ids: memo_cache setNormalizeCache ACCOUNT_ID_CACHE_MAX
  unfolding setNormalizeCache_def by (rule evicting_oldest_cache)

section \<open>Shape of a normalised id\<close>

definition id_shaped :: "string \<Rightarrow> bool" where
  "id_shaped s \<longleftrightarrow> s \<noteq> [] \<and> length s \<le> 64 \<and> list_all id_char s \<and> hd s \<noteq> CHR ''-''"

lemma lower_upper_letter: "upper_letter c \<Longrightarrow> lower_alnum (js_lower_char c)"
  by (auto simp: upper_letter_def lower_alnum_def js_lower_char_def Let_def of_char_of
      take_bit_eq_mod)

lemma js_lower_char_id: "id_char c \<Longrightarrow> js_lower_char c = c"
  by (auto simp: id_char_def lower_alnum_def js_lower_char_def Let_def)

lemma lower_id_char: "id_char c \<or> upper_letter c \<Longrightarrow> id_char (js_lower_char c)"
  by (metis id_char_def js_lower_char_id lower_upper_letter)

lemma js_toLowerCase_id: "list_all id_char s \<Longrightarrow> js_toLowerCase s = s"
  unfolding js_toLowerCase_def by (rule map_idI) (auto simp: list_all_iff js_lower_char_id)

lemma not_white_id: "id_char c \<Longrightarrow> \<not> js_white_space c"
  by (auto simp: id_char_def lower_alnum_def js_white_space_def Let_def)

lemma js_trim_no_white: "list_all (\<lambda>c. \<not> js_white_space c) s \<Longrightarrow> js_trim s = s"
proof (cases "s = []")
  case False
  assume "list_all (\<lambda>c. \<not> js_white_space c) s"
  then have "\<not> js_white_space (hd s)" "\<not> js_white_space (hd (rev s))"
    using False by (simp_all add: list_all_iff hd_rev)
  then have "dropWhile js_white_space s = s" "dropWhile js_white_space (rev s) = rev s"
    by (metis dropWhile_eq_self_iff)+
  then show ?thesis by (simp add: js_trim_def)
qed simp

lemma js_trim_ids: "list_all id_char s \<Longrightarrow> js_trim s = s"
  by (rule js_trim_no_white) (auto simp: list_all_iff dest: not_white_id)

lemma normalizeLowercase_JString:
  "normalizeLowercaseStringOrEmpty (JString s) = js_toLowerCase (js_trim s)"
  by (auto simp: normalizeLowercaseStringOrEmpty_def normalizeOptionalLowercaseString_def
      normalizeOptionalString_def normalizeNullableString_def Let_def js_toLowerCase_def)

lemma id_char_replace_invalid: "list_all id_char (replace_invalid b s)"
  by (induction b s rule: replace_invalid.induct) (auto simp: id_char_def)

lemma replace_invalid_id: "list_all id_char s \<Longrightarrow> replace_invalid b s = s"
  by (induction b s rule: replace_invalid.induct) auto

lemma set_trim_dashes: "set (trim_dashes s) \<subseteq> set s"
  by (auto simp: trim_dashes_def Let_def dest!: set_dropWhileD)

lemma trim_dashes_eq: "s \<noteq> [] \<Longrightarrow> hd s \<noteq> CHR ''-'' \<Longrightarrow> last s \<noteq> CHR ''-'' \<Longrightarrow> trim_dashes s = s"
  by (simp add: trim_dashes_def Let_def dropWhile_head hd_rev)

lemma hd_trim_dashes: "trim_dashes s \<noteq> [] \<Longrightarrow> hd (trim_dashes s) \<noteq> CHR ''-''"
proof -
  let ?d = "\<lambda>c. c = CHR ''-''"
  let ?t = "dropWhile ?d s"
  assume ne: "trim_dashes s \<noteq> []"
  have "prefix (rev (dropWhile ?d (rev ?t))) ?t"
    by (metis rev_rev_ident suffix_dropWhile suffix_to_prefix)
  then have "prefix (trim_dashes s) ?t" unfolding trim_dashes_def Let_def .
  with ne have "hd ?t = hd (trim_dashes s)" "?t \<noteq> []"
    by (metis hd_append2 prefixE, metis prefix_bot.extremum_uniqueI)
  then show ?thesis using hd_dropWhile [of ?d s] by metis
qed

lemma id_slug_shaped: "id_slug s \<noteq> [] \<Longrightarrow> id_shaped (id_slug s)"
proof -
  let ?t = "trim_dashes (replace_invalid False s)"
  assume ne: "id_slug s \<noteq> []"
  then have "?t \<noteq> []" by (auto simp: id_slug_def)
  then have "hd (id_slug s) \<noteq> CHR ''-''" using hd_trim_dashes by (simp add: id_slug_def)
  moreover have "set (id_slug s) \<subseteq> set ?t"
    unfolding id_slug_def by (rule set_take_subset)
  then have "set (id_slug s) \<subseteq> set (replace_invalid False s)"
    by (rule subset_trans) (rule set_trim_dashes)
  then have "list_all id_char (id_slug s)"
    using id_char_replace_invalid [of False s] unfolding list_all_iff by blast
  moreover have "length (id_slug s) \<le> 64" by (simp add: id_slug_def)
  ultimately show ?thesis using ne by (simp add: id_shaped_def)
qed

lemma VALID_ID_RE_lower: "VALID_ID_RE s \<Longrightarrow> id_shaped (js_toLowerCase s) \<and> js_trim s = s"
proof -
  assume v: "VALID_ID_RE s"
  then obtain c cs where s: "s = c # cs" and c: "lower_alnum c \<or> upper_letter c"
    and cs: "length cs \<le> 63" "list_all (\<lambda>d. id_char d \<or> upper_letter d) cs"
    by (auto simp: VALID_ID_RE_def split: list.splits)
  have low: "lower_alnum (js_lower_char c)"
    using c lower_upper_letter [of c] js_lower_char_id [of c] by (metis id_char_def)
  then have hd: "id_char (js_lower_char c)" "js_lower_char c \<noteq> CHR ''-''"
    by (auto simp: id_char_def lower_alnum_def)
  have tl: "list_all id_char (map js_lower_char cs)"
    using cs(2) lower_id_char by (auto simp: list_all_iff)
  have "\<not> js_white_space d" if "id_char d \<or> upper_letter d" for d
    using that not_white_id by (auto simp: js_white_space_def upper_letter_def Let_def)
  moreover have "id_char c \<or> upper_letter c" using c by (auto simp: id_char_def)
  ultimately have "list_all (\<lambda>c. \<not> js_white_space c) s" using cs(2) by (auto simp: s list_all_iff)
  then show ?thesis
    using hd tl cs(1) by (simp add: s id_shaped_def js_toLowerCase_def js_trim_no_white)
qed

lemma normalizeAgentId_cases:
  obtains "normalizeAgentId v = DEFAULT_AGENT_ID"
  | "VALID_ID_RE (js_trim (coalesce v []))" "normalizeAgentId v = js_toLowerCase (js_trim (coalesce v []))"
  | s where "normalizeAgentId v = id_slug s" "id_slug s \<noteq> []"
proof -
  let ?t = "js_trim (coalesce v [])"
  let ?s = "id_slug (js_toLowerCase ?t)"
  have "normalizeAgentId v = DEFAULT_AGENT_ID \<or>
    VALID_ID_RE ?t \<and> normalizeAgentId v = js_toLowerCase ?t \<or>
    normalizeAgentId v = ?s \<and> ?s \<noteq> []"
    by (simp add: normalizeAgentId_def Let_def nonempty_string_def normalizeLowercase_JString)
  then show ?thesis using that by blast
qed

lemma agent_id_shaped: "id_shaped (normalizeAgentId v)"
  by (cases v rule: normalizeAgentId_cases)
    (simp_all add: id_slug_shaped VALID_ID_RE_lower, simp add: DEFAULT_AGENT_ID_def id_shaped_def
        id_char_def lower_alnum_def)

text \<open>C29: A normalised agent id is safe as a path component and as a segment of a session key: not
  empty, at most 64 characters, only lower case letters, digits, dash and underscore, and no dash
  in front. Normalising it again returns it unchanged whenever it starts with a letter or a
  digit.\<close>

theorem agent_id_safe:
  "id_shaped (normalizeAgentId v) \<and>
   (lower_alnum (hd (normalizeAgentId v)) \<longrightarrow>
      normalizeAgentId (Some (normalizeAgentId v)) = normalizeAgentId v)"
proof -
  note shaped = agent_id_shaped [of v]
  let ?s = "normalizeAgentId v"
  have "js_trim ?s = ?s" "js_toLowerCase ?s = ?s" "?s \<noteq> []"
    using shaped by (auto simp: id_shaped_def js_trim_ids js_toLowerCase_id)
  moreover have "VALID_ID_RE ?s" if "lower_alnum (hd ?s)"
    using shaped that by (cases ?s) (auto simp: id_shaped_def VALID_ID_RE_def list_all_iff)
  ultimately show ?thesis
    using shaped by (auto simp: normalizeAgentId_def [of "Some ?s"] normalizeLowercase_JString)
qed

theorem agent_id_safe_witness:
  "normalizeAgentId (Some '' My Agent!'') = ''my-agent'' \<and>
   normalizeAgentId (Some ''my-agent'') = ''my-agent''"
proof -
  have slug: "normalizeAgentId (Some '' My Agent!'') = ''my-agent''" by code_simp
  have "lower_alnum (hd ''my-agent'')" by code_simp
  with slug show ?thesis using agent_id_safe [of "Some '' My Agent!''"] by (simp only: simp_thms)
qed

text \<open>Account ids are shaped the same way and never name a prototype property.\<close>

lemma account_id_safe:
  "id_shaped (normalizeAccountId v) \<and> \<not> isBlockedObjectKey (normalizeAccountId v)"
proof -
  let ?t = "js_trim (coalesce v [])"
  have canonical: "id_shaped c \<and> \<not> isBlockedObjectKey c"
    if "normalizeCanonicalAccountId ?t = Some c" for c
  proof -
    have c: "c = canonicalizeAccountId ?t" "c \<noteq> []" "\<not> isBlockedObjectKey c"
      using that by (auto simp: normalizeCanonicalAccountId_def Let_def split: if_splits)
    then have "id_shaped c"
      using VALID_ID_RE_lower [of ?t] id_slug_shaped
      by (auto simp: canonicalizeAccountId_def normalizeLowercase_JString Let_def split: if_splits)
    with c show ?thesis by simp
  qed
  have "normalizeAccountId v = DEFAULT_ACCOUNT_ID \<or>
    normalizeCanonicalAccountId ?t = Some (normalizeAccountId v)"
    by (cases "normalizeCanonicalAccountId ?t")
      (simp_all add: normalizeAccountId_def Let_def nonempty_string_def)
  moreover have "id_shaped DEFAULT_ACCOUNT_ID \<and> \<not> isBlockedObjectKey DEFAULT_ACCOUNT_ID"
    by code_simp
  ultimately show ?thesis using canonical by metis
qed

section \<open>The caches change no answer\<close>

definition cached_account_id :: "string \<Rightarrow> string \<Rightarrow> bool" where
  "cached_account_id k v \<longleftrightarrow>
     v = coalesce (nonempty_string (normalizeCanonicalAccountId k)) DEFAULT_ACCOUNT_ID"

definition cached_optional_account_id :: "string \<Rightarrow> string option \<Rightarrow> bool" where
  "cached_optional_account_id k v \<longleftrightarrow> v = nonempty_string (normalizeCanonicalAccountId k)"

lemma normalizeAccountIdCached_transparent:
  assumes "memo_ok cached_account_id m"
  shows "fst (normalizeAccountIdCached v m) = normalizeAccountId v \<and>
    memo_ok cached_account_id (snd (normalizeAccountIdCached v m))"
  using assms memo_ok_hit [OF assms, of "js_trim (coalesce v [])"]
  by (auto simp: normalizeAccountIdCached_def normalizeAccountId_def cached_account_id_def Let_def
      split: option.split intro!: account_ids.store_ok)

lemma normalizeOptionalAccountIdCached_transparent:
  assumes "memo_ok cached_optional_account_id m"
  shows "fst (normalizeOptionalAccountIdCached v m) = normalizeOptionalAccountId v \<and>
    memo_ok cached_optional_account_id (snd (normalizeOptionalAccountIdCached v m))"
  using assms memo_ok_hit [OF assms, of "js_trim (coalesce v [])"]
  by (auto simp: normalizeOptionalAccountIdCached_def normalizeOptionalAccountId_def
      cached_optional_account_id_def Let_def split: option.split intro!: account_ids.store_ok)

end
