(* ===== verification/Session_Key_Text.thy ===== *)
theory Session_Key_Text
  imports Agent_Ids
begin

text \<open>
  Text operations on session keys and the canonical form of a key:
  \<^verbatim>\<open>sessions/session-key-utils.ts\<close>. Keys are folded to lower case, except for the opaque
  peer ids of the channels enrolled in \<open>CASE_PRESERVING_PEERS\<close>, whose spans are collected
  from regular expression matches and copied verbatim. The expressions become the
  functions they denote: the wrapper expression is deterministic, since a wrapper cannot
  be read as a run of colons or as a channel.

  The canonical form of a key without white space is shown to be a position-wise
  operation, which makes it idempotent and faithful up to case.
\<close>

section \<open>Substrings\<close>

definition colon :: "char \<Rightarrow> bool" where "colon c \<longleftrightarrow> c = CHR '':''"

abbreviation split_colon :: "string \<Rightarrow> string list" where
  "split_colon \<equiv> js_split CHR '':''"

definition join_colon :: "string list \<Rightarrow> string" where
  "join_colon parts = join_with '':'' parts"

definition js_slice :: "string \<Rightarrow> nat \<Rightarrow> nat \<Rightarrow> string" where
  "js_slice s a b = take (b - a) (drop a s)"

definition js_includes :: "string \<Rightarrow> string \<Rightarrow> bool" where
  "js_includes s p \<longleftrightarrow> list_ex (\<lambda>i. js_startsWith (drop i s) p) [0..<Suc (length s)]"

definition last_index_of_text :: "string \<Rightarrow> string \<Rightarrow> nat option" where
  "last_index_of_text s p = List.find (\<lambda>i. js_startsWith (drop i s) p) (rev [0..<Suc (length s)])"

text \<open>A match of a lower case literal under the flag \<^verbatim>\<open>i\<close>.\<close>

definition starts_ci :: "string \<Rightarrow> string \<Rightarrow> bool" where
  "starts_ci s p \<longleftrightarrow> js_startsWith (js_toLowerCase s) p"

section \<open>Peers whose ids keep their case\<close>

datatype SpanKind = SegmentSpan | TailSpan

record CasePreservingPeerDescriptor =
  pd_channel :: string
  pd_peerKinds :: "string list"
  pd_span :: SpanKind
  pd_unscoped :: bool

definition CASE_PRESERVING_PEERS :: "CasePreservingPeerDescriptor list" where
  "CASE_PRESERVING_PEERS =
     [\<lparr>pd_channel = ''signal'', pd_peerKinds = [''group''], pd_span = SegmentSpan,
       pd_unscoped = True\<rparr>,
      \<lparr>pd_channel = ''matrix'', pd_peerKinds = [''channel'', ''group''], pd_span = TailSpan,
       pd_unscoped = True\<rparr>]"

definition lower_or_empty :: "string option \<Rightarrow> string" where
  "lower_or_empty v = (case v of None \<Rightarrow> [] | Some s \<Rightarrow> normalizeLowercaseStringOrEmpty (JString s))"

definition trimmed_option :: "string option \<Rightarrow> string option" where
  "trimmed_option v = Option.bind v (\<lambda>s. normalizeOptionalString (JString s))"

definition trimmed_lower_option :: "string option \<Rightarrow> string option" where
  "trimmed_lower_option v = Option.bind v (\<lambda>s. normalizeOptionalLowercaseString (JString s))"

definition findCasePreservingPeerDescriptor ::
  "string option \<Rightarrow> string option \<Rightarrow> CasePreservingPeerDescriptor option" where
  "findCasePreservingPeerDescriptor channel peerKind =
     (let c = lower_or_empty channel; k = lower_or_empty peerKind
      in List.find (\<lambda>d. pd_channel d = c \<and> k \<in> set (pd_peerKinds d)) CASE_PRESERVING_PEERS)"

definition isCasePreservingPeer :: "string option \<Rightarrow> string option \<Rightarrow> bool" where
  "isCasePreservingPeer channel peerKind \<longleftrightarrow>
     (let c = lower_or_empty channel; k = lower_or_empty peerKind
      in findCasePreservingPeerDescriptor (Some c) (Some k) \<noteq> None)"

definition normalizeSessionPeerId :: "string option \<Rightarrow> string option \<Rightarrow> string option \<Rightarrow> string" where
  "normalizeSessionPeerId channel peerKind peerId =
     (let peerId = js_trim (coalesce peerId [])
      in if peerId = [] then []
         else if isCasePreservingPeer channel peerKind then peerId
         else normalizeLowercaseStringOrEmpty (JString peerId))"

section \<open>Preserved spans\<close>

record PreservedSpan =
  ps_start :: nat
  ps_end :: nat
  ps_trim :: bool

text \<open>\<^verbatim>\<open>(^|:)channel:kind:([^:]+)\<close> at the current position: the length of the part before
  the segment and the length of the segment.\<close>

definition segment_at :: "string \<Rightarrow> string \<Rightarrow> (nat \<times> nat) option" where
  "segment_at pat s =
     (let seg = length (takeWhile (\<lambda>c. \<not> colon c) (drop (length pat) s))
      in if starts_ci s pat \<and> seg > 0 then Some (length pat, seg) else None)"

definition segment_match :: "string \<Rightarrow> bool \<Rightarrow> string \<Rightarrow> (nat \<times> nat) option" where
  "segment_match pat at_start s =
     coalesce2 (if at_start then segment_at pat s else None)
       (case s of
          [] \<Rightarrow> None
        | c # cs \<Rightarrow>
            if colon c then map_option (\<lambda>(h, l). (Suc h, l)) (segment_at pat cs) else None)"

lemma segment_match_pos: "segment_match pat b s = Some (h, l) \<Longrightarrow> 0 < l"
  by (cases b; cases s) (auto simp: segment_match_def segment_at_def Let_def coalesce2_def
      split: if_splits option.splits)

text \<open>All matches from left to right, the next one from behind the last one.\<close>

function segment_spans :: "string \<Rightarrow> bool \<Rightarrow> nat \<Rightarrow> string \<Rightarrow> PreservedSpan list" where
  "segment_spans pat at_start pos s =
     (if s = [] then []
      else (case segment_match pat at_start s of
        Some (h, l) \<Rightarrow>
          \<lparr>ps_start = pos + h, ps_end = pos + h + l, ps_trim = True\<rparr> #
          segment_spans pat False (pos + h + l) (drop (h + l) s)
      | None \<Rightarrow> segment_spans pat False (Suc pos) (drop 1 s)))"
  by pat_completeness auto
termination
  by (relation "measure (\<lambda>(pat, b, pos, s). length s)") (auto dest: segment_match_pos)

declare segment_spans.simps [simp del]

text \<open>\<^verbatim>\<open>^(?:agent:[^:]*:)+\<close>: the length of all leading ownership wrappers.\<close>

function agent_wrappers :: "string \<Rightarrow> nat" where
  "agent_wrappers s =
     (let l = length (takeWhile (\<lambda>c. \<not> colon c) (drop 6 s))
      in if starts_ci s ''agent:'' \<and> 6 + l < length s then 7 + l + agent_wrappers (drop (7 + l) s)
         else 0)"
  by pat_completeness auto
termination by (relation "measure length") auto

declare agent_wrappers.simps [simp del]

definition scoped_tail :: "string \<Rightarrow> string \<Rightarrow> nat option" where
  "scoped_tail head raw =
     (let w = agent_wrappers raw;
          k = w + length (takeWhile colon (drop w raw))
      in if w > 0 \<and> starts_ci (drop k raw) head then Some (k + length head) else None)"

definition unscoped_tail :: "string \<Rightarrow> string \<Rightarrow> nat option" where
  "unscoped_tail head raw = (if starts_ci raw head then Some (length head) else None)"

definition collectTailSpan :: "string \<Rightarrow> nat \<Rightarrow> PreservedSpan list" where
  "collectTailSpan raw tailStart =
     (if tailStart \<ge> length raw then []
      else
        let tail = drop tailStart raw
        in (case last_index_of_text (normalizeLowercaseStringOrEmpty (JString tail)) '':thread:'' of
              None \<Rightarrow> [\<lparr>ps_start = tailStart, ps_end = length raw, ps_trim = False\<rparr>]
            | Some markerIndex \<Rightarrow>
                let threadIdStart = tailStart + markerIndex + 8
                in \<lparr>ps_start = tailStart, ps_end = tailStart + markerIndex, ps_trim = False\<rparr> #
                   (if threadIdStart < length raw
                    then [\<lparr>ps_start = threadIdStart, ps_end = length raw, ps_trim = False\<rparr>]
                    else [])))"

definition peer_spans :: "string \<Rightarrow> CasePreservingPeerDescriptor \<Rightarrow> string \<Rightarrow> PreservedSpan list" where
  "peer_spans raw descriptor peerKind =
     (let head = pd_channel descriptor @ '':'' @ peerKind @ '':''
      in if pd_span descriptor = SegmentSpan then segment_spans head True 0 raw
         else (case scoped_tail head raw of
             Some tailStart \<Rightarrow> collectTailSpan raw tailStart
           | None \<Rightarrow>
               if pd_unscoped descriptor then
                 (case unscoped_tail head raw of
                    Some tailStart \<Rightarrow> collectTailSpan raw tailStart
                  | None \<Rightarrow> [])
               else []))"

definition collectCasePreservedSpans :: "string \<Rightarrow> PreservedSpan list" where
  "collectCasePreservedSpans raw =
     concat (map (\<lambda>descriptor. concat (map (peer_spans raw descriptor) (pd_peerKinds descriptor)))
       CASE_PRESERVING_PEERS)"

section \<open>The canonical form\<close>

definition mayContainCasePreservingPeer :: "string \<Rightarrow> bool" where
  "mayContainCasePreservingPeer raw \<longleftrightarrow>
     (let folded = js_toLowerCase raw
      in list_ex (\<lambda>descriptor. js_includes folded (pd_channel descriptor @ '':''))
           CASE_PRESERVING_PEERS)"

fun emit_spans :: "string \<Rightarrow> nat \<Rightarrow> PreservedSpan list \<Rightarrow> string" where
  "emit_spans raw cursor [] = normalizeLowercaseStringOrEmpty (JString (drop cursor raw))"
| "emit_spans raw cursor (span # spans) =
     (if ps_start span < cursor then emit_spans raw cursor spans
      else
        let preserved = js_slice raw (ps_start span) (ps_end span)
        in normalizeLowercaseStringOrEmpty (JString (js_slice raw cursor (ps_start span))) @
           (if ps_trim span then js_trim preserved else preserved) @
           emit_spans raw (ps_end span) spans)"

definition sorted_spans :: "string \<Rightarrow> PreservedSpan list" where
  "sorted_spans raw =
     js_toSorted (\<lambda>a b. int (ps_start a) - int (ps_start b))
       (filter (\<lambda>span. ps_end span > ps_start span) (collectCasePreservedSpans raw))"

definition canonical_session_key :: "string \<Rightarrow> string" where
  "canonical_session_key raw =
     (if \<not> mayContainCasePreservingPeer raw then js_toLowerCase raw
      else emit_spans raw 0 (sorted_spans raw))"

definition normalizeSessionKeyPreservingOpaquePeerIds :: "string option \<Rightarrow> string" where
  "normalizeSessionKeyPreservingOpaquePeerIds sessionKey =
     (case trimmed_option sessionKey of None \<Rightarrow> [] | Some raw \<Rightarrow> canonical_session_key raw)"

text \<open>The same with the module's cache.\<close>

definition NORMALIZED_SESSION_KEY_CACHE_MAX_ENTRIES :: nat where
  "NORMALIZED_SESSION_KEY_CACHE_MAX_ENTRIES = 2048"
definition NORMALIZED_SESSION_KEY_CACHE_MAX_LENGTH :: nat where
  "NORMALIZED_SESSION_KEY_CACHE_MAX_LENGTH = 4096"

definition readNormalizedSessionKeyCache ::
  "string \<Rightarrow> (string, string) jsmap \<Rightarrow> string option" where
  "readNormalizedSessionKeyCache raw cache =
     (if length raw \<le> NORMALIZED_SESSION_KEY_CACHE_MAX_LENGTH then map_get cache raw else None)"

definition writeNormalizedSessionKeyCache ::
  "string \<Rightarrow> string \<Rightarrow> (string, string) jsmap \<Rightarrow> (string, string) jsmap" where
  "writeNormalizedSessionKeyCache raw normalized cache =
     (if length raw > NORMALIZED_SESSION_KEY_CACHE_MAX_LENGTH then cache
      else let cache = map_put raw normalized cache
        in drop (length cache - NORMALIZED_SESSION_KEY_CACHE_MAX_ENTRIES) cache)"

definition normalizeSessionKeyCached ::
  "string option \<Rightarrow> (string, string) jsmap \<Rightarrow> string \<times> (string, string) jsmap" where
  "normalizeSessionKeyCached sessionKey cache =
     (case trimmed_option sessionKey of
        None \<Rightarrow> ([], cache)
      | Some raw \<Rightarrow>
          (case readNormalizedSessionKeyCache raw cache of
             Some cached \<Rightarrow> (cached, cache)
           | None \<Rightarrow>
               let normalized = canonical_session_key raw
               in (normalized, writeNormalizedSessionKeyCache raw normalized cache)))"

interpretation session_keys:
  memo_cache writeNormalizedSessionKeyCache NORMALIZED_SESSION_KEY_CACHE_MAX_ENTRIES
proof
  fix e k v m
  show "e \<in> set (writeNormalizedSessionKeyCache k v m) \<Longrightarrow> e \<in> set m \<or> e = (k, v)"
    by (auto simp: writeNormalizedSessionKeyCache_def Let_def split: if_splits
        dest!: in_set_dropD set_map_put_subset)
  show "length m \<le> NORMALIZED_SESSION_KEY_CACHE_MAX_ENTRIES \<Longrightarrow>
      length (writeNormalizedSessionKeyCache k v m) \<le> NORMALIZED_SESSION_KEY_CACHE_MAX_ENTRIES"
    by (auto simp: writeNormalizedSessionKeyCache_def Let_def length_map_put)
qed

lemma normalizeSessionKeyCached_transparent:
  assumes "memo_ok (\<lambda>k v. v = canonical_session_key k) m"
  shows "fst (normalizeSessionKeyCached key m) = normalizeSessionKeyPreservingOpaquePeerIds key \<and>
    memo_ok (\<lambda>k v. v = canonical_session_key k) (snd (normalizeSessionKeyCached key m))"
  using assms
  by (auto simp: normalizeSessionKeyCached_def normalizeSessionKeyPreservingOpaquePeerIds_def Let_def
      readNormalizedSessionKeyCache_def split: option.split
      intro!: session_keys.store_ok dest: memo_ok_hit [OF assms])

section \<open>The canonical form is position-wise\<close>

abbreviation no_white :: "string \<Rightarrow> bool" where
  "no_white \<equiv> list_all (\<lambda>c. \<not> js_white_space c)"

lemma js_lower_char_idem [simp]: "js_lower_char (js_lower_char c) = js_lower_char c"
  by (auto simp: js_lower_char_def Let_def of_char_of take_bit_eq_mod)

lemma js_toLowerCase_idem [simp]: "js_toLowerCase (js_toLowerCase s) = js_toLowerCase s"
  by (simp add: js_toLowerCase_def)

lemma length_toLowerCase [simp]: "length (js_toLowerCase s) = length s"
  by (simp add: js_toLowerCase_def)

lemma white_lower_char: "js_white_space (js_lower_char c) = js_white_space c"
  by (auto simp: js_lower_char_def js_white_space_def Let_def of_char_of take_bit_eq_mod)

lemma colon_lower_char [simp]: "colon (js_lower_char c) = colon c"
  by (auto simp: js_lower_char_def colon_def Let_def char_of_eq_iff of_char_of take_bit_eq_mod)

lemma no_white_lower [simp]: "no_white (js_toLowerCase s) = no_white s"
  by (simp add: js_toLowerCase_def list_all_iff white_lower_char)

lemma lower_no_white:
  "no_white s \<Longrightarrow> normalizeLowercaseStringOrEmpty (JString s) = js_toLowerCase s"
  by (simp add: normalizeLowercase_JString js_trim_no_white)

lemma no_white_drop: "no_white s \<Longrightarrow> no_white (drop n s)"
  by (auto simp: list_all_iff dest: in_set_dropD)

lemma no_white_slice: "no_white s \<Longrightarrow> no_white (js_slice s a b)"
  by (auto simp: list_all_iff js_slice_def dest!: in_set_takeD in_set_dropD)

fun kept :: "nat \<Rightarrow> PreservedSpan list \<Rightarrow> nat \<Rightarrow> bool" where
  "kept cursor [] i = False"
| "kept cursor (span # spans) i =
     (if ps_start span < cursor then kept cursor spans i
      else if i < ps_end span then ps_start span \<le> i else kept (ps_end span) spans i)"

definition keep_or_lower :: "string \<Rightarrow> (nat \<Rightarrow> bool) \<Rightarrow> nat \<Rightarrow> char" where
  "keep_or_lower raw K i = (if K i then raw ! i else js_lower_char (raw ! i))"

definition span_in :: "string \<Rightarrow> PreservedSpan \<Rightarrow> bool" where
  "span_in raw span \<longleftrightarrow> ps_start span < ps_end span \<and> ps_end span \<le> length raw"

lemma js_slice_nth: "b \<le> length s \<Longrightarrow> js_slice s a b = map (nth s) [a..<b]"
  by (auto simp: js_slice_def intro!: nth_equalityI)

lemma drop_nth: "drop a s = map (nth s) [a..<length s]"
  by (auto intro!: nth_equalityI)

lemma emit_spans_positions:
  "no_white raw \<Longrightarrow> list_all (span_in raw) spans \<Longrightarrow> cursor \<le> length raw \<Longrightarrow>
     emit_spans raw cursor spans =
       map (keep_or_lower raw (kept cursor spans)) [cursor..<length raw]"
proof (induction raw cursor spans rule: emit_spans.induct)
  case (1 raw cursor)
  then have "emit_spans raw cursor [] = js_toLowerCase (drop cursor raw)"
    by (simp add: lower_no_white no_white_drop)
  then show ?case by (simp add: js_toLowerCase_def drop_nth keep_or_lower_def)
next
  case (2 raw cursor span spans)
  let ?a = "ps_start span" and ?b = "ps_end span"
  show ?case
  proof (cases "?a < cursor")
    case True
    with 2 have "emit_spans raw cursor spans =
      map (keep_or_lower raw (kept cursor spans)) [cursor..<length raw]" by simp
    with True show ?thesis by (simp add: keep_or_lower_def)
  next
    case False
    with "2.prems" have ab: "cursor \<le> ?a" "?a < ?b" "?b \<le> length raw" "list_all (span_in raw) spans"
      by (auto simp: span_in_def [of raw span])
    have rest: "emit_spans raw ?b spans = map (keep_or_lower raw (kept ?b spans)) [?b..<length raw]"
      using "2.IH"(2) [OF False refl] "2.prems" ab by simp
    let ?K = "keep_or_lower raw (kept cursor (span # spans))"
    have "[cursor..<length raw] = [cursor..<?a] @ [?a..<?b] @ [?b..<length raw]"
      using ab upt_add_eq_append [of cursor ?a "length raw - ?a"]
        upt_add_eq_append [of ?a ?b "length raw - ?b"] by simp
    then have "map ?K [cursor..<length raw] =
        map ?K [cursor..<?a] @ map ?K [?a..<?b] @ map ?K [?b..<length raw]" by simp
    moreover have "map ?K [cursor..<?a] = js_toLowerCase (js_slice raw cursor ?a)"
      using ab False by (simp add: js_slice_nth js_toLowerCase_def keep_or_lower_def)
    moreover have "map ?K [?a..<?b] = js_slice raw ?a ?b"
      using ab False by (simp add: js_slice_nth keep_or_lower_def)
    moreover have "map ?K [?b..<length raw] = emit_spans raw ?b spans"
      using ab False by (simp add: rest keep_or_lower_def)
    moreover have "js_trim (js_slice raw ?a ?b) = js_slice raw ?a ?b"
      using "2.prems"(1) by (simp add: js_trim_no_white no_white_slice)
    ultimately show ?thesis
      using False "2.prems"(1) by (simp add: Let_def lower_no_white no_white_slice del: kept.simps)
  qed
qed

section \<open>The spans do not depend on case\<close>

lemma starts_ci_lower [simp]: "starts_ci (js_toLowerCase s) p = starts_ci s p"
  by (simp add: starts_ci_def)

lemma drop_lower: "drop n (js_toLowerCase s) = js_toLowerCase (drop n s)"
  by (simp add: js_toLowerCase_def drop_map)

lemma length_takeWhile_lower:
  "length (takeWhile (\<lambda>c. \<not> colon c) (js_toLowerCase s)) = length (takeWhile (\<lambda>c. \<not> colon c) s)"
  "length (takeWhile colon (js_toLowerCase s)) = length (takeWhile colon s)"
  by (simp_all add: js_toLowerCase_def takeWhile_map comp_def)

lemma segment_at_lower [simp]: "segment_at pat (js_toLowerCase s) = segment_at pat s"
  by (simp add: segment_at_def drop_lower length_takeWhile_lower)

lemma segment_match_lower [simp]: "segment_match pat b (js_toLowerCase s) = segment_match pat b s"
proof (cases s)
  case (Cons c cs)
  then have "js_toLowerCase s = js_lower_char c # js_toLowerCase cs" by (simp add: js_toLowerCase_def)
  moreover have "segment_at pat (js_lower_char c # js_toLowerCase cs) = segment_at pat (c # cs)"
    using segment_at_lower [of pat "c # cs"] by (simp add: js_toLowerCase_def)
  ultimately show ?thesis using Cons by (simp add: segment_match_def)
qed (simp add: js_toLowerCase_def)

lemma segment_spans_lower [simp]:
  "segment_spans pat b pos (js_toLowerCase s) = segment_spans pat b pos s"
proof (induction pat b pos s rule: segment_spans.induct)
  case (1 pat b pos s)
  show ?case
  proof (cases "s = []")
    case False
    then have "js_toLowerCase s \<noteq> []" by (simp add: js_toLowerCase_def)
    note eqs = segment_spans.simps [of pat b pos s]
      segment_spans.simps [of pat b pos "js_toLowerCase s"]
    show ?thesis
    proof (cases "segment_match pat b s")
      case None
      with False show ?thesis
        using "1.IH"(1) [OF False None] \<open>js_toLowerCase s \<noteq> []\<close> by (simp add: eqs drop_lower)
    next
      case (Some hl)
      then obtain h l where m: "segment_match pat b s = Some (h, l)" by (cases hl) simp
      with False show ?thesis
        using "1.IH"(2) [OF False m refl] \<open>js_toLowerCase s \<noteq> []\<close> by (simp add: eqs drop_lower)
    qed
  qed (simp add: js_toLowerCase_def)
qed

lemma agent_wrappers_lower [simp]: "agent_wrappers (js_toLowerCase s) = agent_wrappers s"
proof (induction s rule: agent_wrappers.induct)
  case (1 s)
  show ?case
    using "1.IH" [OF refl]
    by (subst (1 2) agent_wrappers.simps) (auto simp: drop_lower length_takeWhile_lower Let_def)
qed

lemma collectTailSpan_lower:
  "no_white s \<Longrightarrow> collectTailSpan (js_toLowerCase s) n = collectTailSpan s n"
  by (auto simp: collectTailSpan_def drop_lower lower_no_white no_white_drop Let_def
      split: option.split)

lemma collectCasePreservedSpans_lower:
  "no_white s \<Longrightarrow> collectCasePreservedSpans (js_toLowerCase s) = collectCasePreservedSpans s"
  by (simp add: collectCasePreservedSpans_def peer_spans_def scoped_tail_def unscoped_tail_def
      drop_lower length_takeWhile_lower collectTailSpan_lower Let_def CASE_PRESERVING_PEERS_def
      cong: option.case_cong)

section \<open>The spans lie within the key\<close>

lemma segment_at_bound: "segment_at pat s = Some (h, l) \<Longrightarrow> h + l \<le> length s"
proof -
  let ?n = "length (takeWhile (\<lambda>c. \<not> colon c) (drop (length pat) s))"
  assume "segment_at pat s = Some (h, l)"
  then have "h = length pat" "l = ?n" "l > 0" by (auto simp: segment_at_def Let_def split: if_splits)
  moreover have "?n \<le> length s - length pat"
    using length_takeWhile_le [of _ "drop (length pat) s"] by simp
  ultimately show ?thesis by linarith
qed

lemma segment_match_bound: "segment_match pat b s = Some (h, l) \<Longrightarrow> h + l \<le> length s"
  by (cases b; cases s) (auto simp: segment_match_def coalesce2_def dest!: segment_at_bound
      split: if_splits option.splits)

lemma segment_spans_bound:
  "span \<in> set (segment_spans pat b pos s) \<Longrightarrow> ps_end span \<le> pos + length s"
proof (induction pat b pos s rule: segment_spans.induct)
  case (1 pat b pos s)
  show ?case
  proof (cases "s = []")
    case False
    show ?thesis
    proof (cases "segment_match pat b s")
      case None
      with False "1.prems" have "span \<in> set (segment_spans pat False (Suc pos) (drop 1 s))"
        by (simp add: segment_spans.simps [of pat b])
      from "1.IH"(1) [OF False None this] False show ?thesis by (cases s) auto
    next
      case (Some hl)
      then obtain h l where m: "segment_match pat b s = Some (h, l)" by (cases hl) simp
      note bound = segment_match_bound [OF m]
      consider "ps_end span = pos + h + l"
        | "span \<in> set (segment_spans pat False (pos + h + l) (drop (h + l) s))"
        using False "1.prems" m by (auto simp: segment_spans.simps [of pat b])
      then show ?thesis
      proof cases
        case 2
        from "1.IH"(2) [OF False m refl this] bound show ?thesis by simp
      qed (use bound in simp)
    qed
  qed (use "1.prems" in \<open>simp add: segment_spans.simps [of pat b]\<close>)
qed

lemma collectTailSpan_bound:
  assumes "no_white raw" "span \<in> set (collectTailSpan raw n)"
  shows "ps_end span \<le> length raw"
proof (cases "n \<ge> length raw")
  case False
  let ?t = "js_toLowerCase (drop n raw)"
  have "i \<le> length raw - n" if "last_index_of_text ?t p = Some i" for i p
    using find_Some_in [OF that [unfolded last_index_of_text_def]] by auto
  then show ?thesis
    using assms False
    by (auto simp: collectTailSpan_def lower_no_white no_white_drop Let_def split: option.splits
        if_splits) force
qed (use assms in \<open>simp add: collectTailSpan_def\<close>)

lemma peer_spans_bound:
  assumes "no_white raw" "span \<in> set (peer_spans raw d kind)"
  shows "ps_end span \<le> length raw"
  using assms segment_spans_bound [of span _ True 0 raw] collectTailSpan_bound [OF assms(1), of span]
  by (auto simp: peer_spans_def Let_def split: if_splits option.splits)

lemma sorted_spans_in: "no_white raw \<Longrightarrow> list_all (span_in raw) (sorted_spans raw)"
  by (auto simp: sorted_spans_def list_all_iff [where P = "span_in raw"] span_in_def
      collectCasePreservedSpans_def intro: peer_spans_bound)

definition kept_chars :: "string \<Rightarrow> nat \<Rightarrow> bool" where
  "kept_chars raw i \<longleftrightarrow> mayContainCasePreservingPeer raw \<and> kept 0 (sorted_spans raw) i"

lemma canonical_positions:
  "no_white raw \<Longrightarrow>
     canonical_session_key raw = map (keep_or_lower raw (kept_chars raw)) [0..<length raw]"
  by (auto simp: canonical_session_key_def kept_chars_def emit_spans_positions sorted_spans_in
      keep_or_lower_def js_toLowerCase_def intro!: nth_equalityI)

lemma kept_chars_lower: "no_white raw \<Longrightarrow> kept_chars (js_toLowerCase raw) = kept_chars raw"
  by (auto simp: kept_chars_def mayContainCasePreservingPeer_def sorted_spans_def
      collectCasePreservedSpans_lower)

lemma canonical_lower:
  assumes "no_white raw"
  shows "js_toLowerCase (canonical_session_key raw) = js_toLowerCase raw"
  using assms by (auto simp: canonical_positions js_toLowerCase_def keep_or_lower_def
      intro!: nth_equalityI)

lemma canonical_idem:
  assumes "no_white raw"
  shows "canonical_session_key (canonical_session_key raw) = canonical_session_key raw"
proof -
  let ?n = "canonical_session_key raw"
  have low: "js_toLowerCase ?n = js_toLowerCase raw" by (rule canonical_lower [OF assms])
  then have nw: "no_white ?n" using assms no_white_lower by metis
  have len: "length ?n = length raw" using low length_toLowerCase by metis
  have K: "kept_chars ?n = kept_chars raw"
    using kept_chars_lower [OF nw] kept_chars_lower [OF assms] low by simp
  have nth: "?n ! i = keep_or_lower raw (kept_chars raw) i" if "i < length raw" for i
    using that by (simp add: canonical_positions [OF assms])
  have "canonical_session_key ?n = map (keep_or_lower ?n (kept_chars raw)) [0..<length raw]"
    using canonical_positions [OF nw] by (simp only: K len)
  also have "\<dots> = map (keep_or_lower raw (kept_chars raw)) [0..<length raw]"
    by (rule map_cong [OF refl]) (simp add: nth keep_or_lower_def)
  finally show ?thesis by (simp only: canonical_positions [OF assms])
qed



text \<open>The position of the thread marker is computed on a trimmed copy of the tail, so a room id that
  starts with a space loses the case of its last letter.\<close>

lemma leading_space_shifts_span:
  "normalizeSessionKeyPreservingOpaquePeerIds (Some ''agent:main:matrix:channel: !RooM:thread:$E'') =
     ''agent:main:matrix:channel: !Room:thread:$E'' \<and>
   normalizeSessionKeyPreservingOpaquePeerIds (Some ''agent:main:matrix:channel:!RooM:thread:$E'') =
     ''agent:main:matrix:channel:!RooM:thread:$E''"
  by code_simp

end
