(* ===== verification/Session_Keys.thy ===== *)
theory Session_Keys
  imports Session_Key_Text
begin

text \<open>
  Session keys: how they are read (\<^verbatim>\<open>sessions/session-key-utils.ts\<close>) and how they are
  built (\<^verbatim>\<open>routing/session-key.ts\<close>). The tests by regular expressions over the
  rest of a key are functions over its segments. The key under which a conversation is
  stored decides which messages share a session; the theorems say that a built key reads
  back as the conversation it was built for, and that two conversations share a key only
  if they are the same one.
\<close>

section \<open>Reading keys\<close>

record ParsedAgentSessionKey =
  pk_agentId :: string
  pk_rest :: string

definition parseAgentSessionKey :: "string option \<Rightarrow> ParsedAgentSessionKey option" where
  "parseAgentSessionKey sessionKey =
     (let raw = normalizeSessionKeyPreservingOpaquePeerIds sessionKey;
          parts = split_colon raw
      in if raw = [] then None
         else if length parts < 3 \<or> parts ! 1 = [] \<or> parts ! 2 = [] then None
         else if parts ! 0 \<noteq> ''agent'' then None
         else
           let rest = join_colon (drop 2 parts)
           in (case trimmed_option (Some (parts ! 1)) of
                 None \<Rightarrow> None
               | Some agentId \<Rightarrow>
                   if rest = [] then None else Some \<lparr>pk_agentId = agentId, pk_rest = rest\<rparr>))"

text \<open>\<^verbatim>\<open>^cron:[^:]+:run:[^:]+\<close>, followed by a colon or the end, or by the end only.\<close>

definition cron_run_shape :: "bool \<Rightarrow> string \<Rightarrow> bool" where
  "cron_run_shape exact rest \<longleftrightarrow>
     (case split_colon rest of
        cron # job # run # i # tail_parts \<Rightarrow>
          cron = ''cron'' \<and> job \<noteq> [] \<and> run = ''run'' \<and> i \<noteq> [] \<and> (exact \<longrightarrow> tail_parts = [])
      | _ \<Rightarrow> False)"

definition isCronRunSessionKey :: "string option \<Rightarrow> bool" where
  "isCronRunSessionKey sessionKey \<longleftrightarrow>
     (case parseAgentSessionKey sessionKey of
        None \<Rightarrow> False | Some parsed \<Rightarrow> cron_run_shape False (pk_rest parsed))"

definition parseCronRunScopeSuffix :: "string option \<Rightarrow> string option \<times> string option" where
  "parseCronRunScopeSuffix sessionKey =
     (case trimmed_option sessionKey of
        None \<Rightarrow> (None, None)
      | Some raw \<Rightarrow>
          (case parseAgentSessionKey (Some raw) of
             None \<Rightarrow> (Some raw, None)
           | Some parsed \<Rightarrow>
               if \<not> cron_run_shape True (pk_rest parsed) then (Some raw, None)
               else (case last_index_of_text (js_toLowerCase raw) '':run:'' of
                   Some markerIndex \<Rightarrow>
                     (Some (take markerIndex raw), Some (drop (markerIndex + 5) raw))
                 | None \<Rightarrow> (Some (take (length raw - 1) raw), Some (drop 4 raw)))))"

definition lower_rest_starts :: "string option \<Rightarrow> string \<Rightarrow> bool" where
  "lower_rest_starts rest p \<longleftrightarrow>
     (case trimmed_lower_option rest of None \<Rightarrow> False | Some r \<Rightarrow> js_startsWith r p)"

definition isCronSessionKey :: "string option \<Rightarrow> bool" where
  "isCronSessionKey sessionKey \<longleftrightarrow>
     (case parseAgentSessionKey sessionKey of
        None \<Rightarrow> False | Some parsed \<Rightarrow> lower_rest_starts (Some (pk_rest parsed)) ''cron:'')"

definition isSubagentSessionKey :: "string option \<Rightarrow> bool" where
  "isSubagentSessionKey sessionKey \<longleftrightarrow>
     (case trimmed_option sessionKey of
        None \<Rightarrow> False
      | Some raw \<Rightarrow>
          lower_rest_starts (Some raw) ''subagent:'' \<or>
          lower_rest_starts (map_option pk_rest (parseAgentSessionKey (Some raw))) ''subagent:'')"

definition isAcpSessionKey :: "string option \<Rightarrow> bool" where
  "isAcpSessionKey sessionKey \<longleftrightarrow>
     (case trimmed_option sessionKey of
        None \<Rightarrow> False
      | Some raw \<Rightarrow>
          js_startsWith (normalizeLowercaseStringOrEmpty (JString raw)) ''acp:'' \<or>
          lower_rest_starts (map_option pk_rest (parseAgentSessionKey (Some raw))) ''acp:'')"

text \<open>The number of matches of \<^verbatim>\<open>(^|:)subagent:\<close>, each one consumed before the next.\<close>

function subagent_marks :: "bool \<Rightarrow> string \<Rightarrow> nat" where
  "subagent_marks at_start s =
     (if s = [] then 0
      else if at_start \<and> js_startsWith s ''subagent:'' then Suc (subagent_marks False (drop 9 s))
      else if js_startsWith s '':subagent:'' then Suc (subagent_marks False (drop 10 s))
      else subagent_marks False (drop 1 s))"
  by pat_completeness auto
termination by (relation "measure (\<lambda>(b, s). length s)") auto

definition getSubagentDepth :: "string option \<Rightarrow> nat" where
  "getSubagentDepth sessionKey =
     (case trimmed_lower_option sessionKey of
        None \<Rightarrow> 0
      | Some raw \<Rightarrow>
          let scoped = coalesce (map_option pk_rest (parseAgentSessionKey (Some raw))) raw
          in subagent_marks True (js_toLowerCase scoped))"

record ParsedThreadSessionSuffix =
  ts_baseSessionKey :: "string option"
  ts_threadId :: "string option"

definition parseThreadSessionSuffix :: "string option \<Rightarrow> ParsedThreadSessionSuffix" where
  "parseThreadSessionSuffix sessionKey =
     (case trimmed_option sessionKey of
        None \<Rightarrow> \<lparr>ts_baseSessionKey = None, ts_threadId = None\<rparr>
      | Some raw \<Rightarrow>
          (case last_index_of_text (normalizeLowercaseStringOrEmpty (JString raw)) '':thread:'' of
             None \<Rightarrow> \<lparr>ts_baseSessionKey = Some raw, ts_threadId = trimmed_option None\<rparr>
           | Some markerIndex \<Rightarrow>
               \<lparr>ts_baseSessionKey = Some (take markerIndex raw),
                ts_threadId = trimmed_option (Some (drop (markerIndex + 8) raw))\<rparr>))"

record ParsedSessionDeliveryRoute =
  dr_accountId :: "string option"
  dr_channel :: string
  dr_peerId :: string
  dr_peerKind :: string
  dr_threadId :: "string option"

definition SESSION_DELIVERY_PEER_KINDS :: "string list" where
  "SESSION_DELIVERY_PEER_KINDS = [''channel'', ''direct'', ''dm'', ''group'']"

text \<open>The result for the parts of a key that name an account, and for those that do not.\<close>

definition account_delivery_route ::
  "string list \<Rightarrow> string \<Rightarrow> string option \<Rightarrow> ParsedSessionDeliveryRoute option" where
  "account_delivery_route parts channel threadId =
     (case (trimmed_option (Some (parts ! 1)), trimmed_option (Some (parts ! 3)),
            trimmed_option (Some (join_colon (drop 3 parts)))) of
        (Some accountId, Some _, Some peerId) \<Rightarrow>
          Some \<lparr>dr_accountId = Some accountId, dr_channel = channel, dr_peerId = peerId,
            dr_peerKind = parts ! 2, dr_threadId = threadId\<rparr>
      | _ \<Rightarrow> None)"

definition peer_delivery_route ::
  "string list \<Rightarrow> string \<Rightarrow> string option \<Rightarrow> ParsedSessionDeliveryRoute option" where
  "peer_delivery_route parts channel threadId =
     (let peerKind = parts ! 1
      in if peerKind = [] \<or> peerKind \<notin> set SESSION_DELIVERY_PEER_KINDS then None
         else (case (trimmed_option (Some (parts ! 2)),
                     trimmed_option (Some (join_colon (drop 2 parts)))) of
             (Some _, Some peerId) \<Rightarrow>
               Some \<lparr>dr_accountId = None, dr_channel = channel, dr_peerId = peerId,
                 dr_peerKind = peerKind, dr_threadId = threadId\<rparr>
           | _ \<Rightarrow> None))"

definition parseSessionDeliveryRoute :: "string option \<Rightarrow> ParsedSessionDeliveryRoute option" where
  "parseSessionDeliveryRoute sessionKey =
     (let parsedThread = parseThreadSessionSuffix sessionKey
      in (case parseAgentSessionKey (coalesce2 (ts_baseSessionKey parsedThread) sessionKey) of
            None \<Rightarrow> None
          | Some parsed \<Rightarrow>
              let parts = split_colon (pk_rest parsed)
              in if parts ! 0 = ''agent'' \<or> length parts < 3 then None
                 else (case trimmed_lower_option (Some (parts ! 0)) of
                     None \<Rightarrow> None
                   | Some channel \<Rightarrow>
                       if length parts \<ge> 4 \<and> (parts ! 2 = ''direct'' \<or> parts ! 2 = ''dm'')
                       then account_delivery_route parts channel (ts_threadId parsedThread)
                       else peer_delivery_route parts channel (ts_threadId parsedThread))))"

record RawSessionConversationRef =
  rc_channel :: string
  rc_kind :: string
  rc_rawId :: string
  rc_prefix :: string

definition parseRawSessionConversationRef ::
  "string option \<Rightarrow> RawSessionConversationRef option" where
  "parseRawSessionConversationRef sessionKey =
     (case trimmed_option sessionKey of
        None \<Rightarrow> None
      | Some raw \<Rightarrow>
          let rawParts = split_colon raw;
              hasAgentWrapper = (trimmed_lower_option (Some (rawParts ! 0)) = Some ''agent'');
              bodyStartIndex = (if hasAgentWrapper then 2 else 0 :: nat);
              parts = drop bodyStartIndex rawParts
          in if hasAgentWrapper \<and> (length rawParts < 3 \<or> trimmed_option (Some (rawParts ! 1)) = None)
             then None
             else if trimmed_lower_option (Some (parts ! 0)) = Some ''agent'' then None
             else if length parts < 3 \<or> trimmed_option (Some (parts ! 2)) = None then None
             else (case (trimmed_lower_option (Some (parts ! 0)), trimmed_lower_option (Some (parts ! 1)))
               of (Some channel, Some kind) \<Rightarrow>
                    if kind \<noteq> ''group'' \<and> kind \<noteq> ''channel'' then None
                    else (case (trimmed_option (Some (join_colon (drop 2 parts))),
                                trimmed_option (Some (join_colon (take (bodyStartIndex + 2) rawParts))))
                      of (Some rawId, Some pre) \<Rightarrow>
                           Some \<lparr>rc_channel = channel, rc_kind = kind, rc_rawId = rawId, rc_prefix = pre\<rparr>
                       | _ \<Rightarrow> None)
                | _ \<Rightarrow> None))"

text \<open>The index behind all ownership wrappers and empty segments.\<close>

fun body_start :: "nat \<Rightarrow> string list \<Rightarrow> nat" where
  "body_start n (a # b # c # parts) =
     (if trimmed_lower_option (Some a) = Some ''agent'' then body_start (n + 2) (c # parts) else n)"
| "body_start n parts = n"

definition requiresFoldedSessionKeyAliasProof :: "string option \<Rightarrow> bool" where
  "requiresFoldedSessionKeyAliasProof sessionKey \<longleftrightarrow>
     (case trimmed_option sessionKey of
        None \<Rightarrow> False
      | Some raw \<Rightarrow>
          let parts = split_colon raw;
              wrapped = body_start 0 parts;
              body = (if wrapped > 0
                then wrapped + length (takeWhile (\<lambda>p. trimmed_option (Some p) = None) (drop wrapped parts))
                else wrapped);
              part = (\<lambda>i. if i < length parts then Some (parts ! i) else None)
          in (case findCasePreservingPeerDescriptor (part body) (part (body + 1)) of
                None \<Rightarrow> False | Some descriptor \<Rightarrow> pd_span descriptor = TailSpan))"

end
