(* ===== verification/Session_Key_Build.thy ===== *)
theory Session_Key_Build
  imports Session_Keys
begin

text \<open>
  Building session keys: \<^verbatim>\<open>routing/session-key.ts\<close> and \<^verbatim>\<open>channels/chat-type.ts\<close>.
  The key under which a conversation is stored decides which messages share a session.
  The theorems say that the key of a group conversation reads back as that conversation,
  and that two conversations share a key only if they are the same one.
\<close>

datatype ChatType = ChatDirect | ChatGroup | ChatChannel

definition chat_type_string :: "ChatType \<Rightarrow> string" where
  "chat_type_string kind =
     (case kind of ChatDirect \<Rightarrow> ''direct'' | ChatGroup \<Rightarrow> ''group'' | ChatChannel \<Rightarrow> ''channel'')"

definition normalizeChatType :: "js_value \<Rightarrow> ChatType option" where
  "normalizeChatType raw =
     (case normalizeOptionalLowercaseString raw of
        None \<Rightarrow> None
      | Some v \<Rightarrow>
          if v = ''direct'' \<or> v = ''dm'' then Some ChatDirect
          else if v = ''group'' then Some ChatGroup
          else if v = ''channel'' then Some ChatChannel
          else None)"

datatype DmScope = DmMain | DmPerPeer | DmPerChannelPeer | DmPerAccountChannelPeer

definition DEFAULT_MAIN_KEY :: string where "DEFAULT_MAIN_KEY = ''main''"

definition or_default :: "string \<Rightarrow> string \<Rightarrow> string" where
  "or_default s d = (if s = [] then d else s)"

definition normalizeMainKey :: "string option \<Rightarrow> string" where
  "normalizeMainKey v = or_default (lower_or_empty v) DEFAULT_MAIN_KEY"

definition sanitizeAgentId :: "string option \<Rightarrow> string" where
  "sanitizeAgentId v = normalizeAgentId v"

definition normalizeOptionalAgentId :: "js_value \<Rightarrow> string option" where
  "normalizeOptionalAgentId v =
     (case normalizeOptionalString v of
        None \<Rightarrow> None | Some trimmed \<Rightarrow> Some (normalizeAgentId (Some trimmed)))"

definition buildAgentMainSessionKey :: "string \<Rightarrow> string option \<Rightarrow> string" where
  "buildAgentMainSessionKey agentId mainKey =
     ''agent:'' @ normalizeAgentId (Some agentId) @ '':'' @ normalizeMainKey mainKey"

section \<open>Peers linked across channels\<close>

text \<open>The links in the order of \<^verbatim>\<open>Object.entries\<close>; \<open>None\<close> is a value that is no array.\<close>

type_synonym identity_links = "(string \<times> js_value list option) list"

fun linked_name :: "string list \<Rightarrow> identity_links \<Rightarrow> string option" where
  "linked_name candidates [] = None"
| "linked_name candidates ((canonical, ids) # links) =
     (let canonicalName = js_trim canonical
      in if canonicalName = [] then linked_name candidates links
         else if list_ex (\<lambda>id. let normalized = normalizeLowercaseStringOrEmpty id
             in normalized \<noteq> [] \<and> normalized \<in> set candidates) (coalesce ids [])
         then Some canonicalName
         else linked_name candidates links)"

definition resolveLinkedPeerId ::
  "identity_links option \<Rightarrow> string \<Rightarrow> string \<Rightarrow> string option" where
  "resolveLinkedPeerId identityLinks channel peerId =
     (case identityLinks of
        None \<Rightarrow> None
      | Some links \<Rightarrow>
          let peerId = js_trim peerId
          in if peerId = [] then None
             else
               let rawCandidate = lower_or_empty (Some peerId);
                   channel = lower_or_empty (Some channel);
                   scopedCandidate =
                     (if channel = [] then [] else lower_or_empty (Some (channel @ '':'' @ peerId)));
                   candidates = js_set (filter (\<lambda>c. c \<noteq> []) [rawCandidate, scopedCandidate])
               in if candidates = [] then None else linked_name candidates links)"

section \<open>Keys of conversations\<close>

record PeerSessionKeyParams =
  bk_agentId :: string
  bk_mainKey :: "string option"
  bk_channel :: string
  bk_accountId :: "string option"
  bk_peerKind :: "ChatType option"
  bk_peerId :: "string option"
  bk_identityLinks :: "identity_links option"
  bk_dmScope :: "DmScope option"

definition agent_head :: "PeerSessionKeyParams \<Rightarrow> string" where
  "agent_head p = ''agent:'' @ normalizeAgentId (Some (bk_agentId p)) @ '':''"

definition key_channel :: "string \<Rightarrow> string" where
  "key_channel channel = or_default (lower_or_empty (Some channel)) ''unknown''"

definition direct_peer_id :: "PeerSessionKeyParams \<Rightarrow> string" where
  "direct_peer_id p =
     (let peerId = js_trim (coalesce (bk_peerId p) []);
          linkedPeerId = (if coalesce (bk_dmScope p) DmMain = DmMain then None
            else resolveLinkedPeerId (bk_identityLinks p) (bk_channel p) peerId)
      in lower_or_empty (Some (coalesce (nonempty_string linkedPeerId) peerId)))"

definition group_peer_id :: "PeerSessionKeyParams \<Rightarrow> ChatType \<Rightarrow> string" where
  "group_peer_id p peerKind =
     or_default (normalizeSessionPeerId (Some (bk_channel p)) (Some (chat_type_string peerKind))
       (bk_peerId p)) ''unknown''"

definition buildAgentPeerSessionKey :: "PeerSessionKeyParams \<Rightarrow> string" where
  "buildAgentPeerSessionKey p =
     (let peerKind = coalesce (bk_peerKind p) ChatDirect
      in if peerKind = ChatDirect then
           let dmScope = coalesce (bk_dmScope p) DmMain; peerId = direct_peer_id p
           in if dmScope = DmPerAccountChannelPeer \<and> peerId \<noteq> [] then
                agent_head p @ key_channel (bk_channel p) @ '':'' @
                  normalizeAccountId (bk_accountId p) @ '':direct:'' @ peerId
              else if dmScope = DmPerChannelPeer \<and> peerId \<noteq> [] then
                agent_head p @ key_channel (bk_channel p) @ '':direct:'' @ peerId
              else if dmScope = DmPerPeer \<and> peerId \<noteq> [] then agent_head p @ ''direct:'' @ peerId
              else buildAgentMainSessionKey (bk_agentId p) (bk_mainKey p)
         else agent_head p @ key_channel (bk_channel p) @ '':'' @ chat_type_string peerKind @ '':'' @
                group_peer_id p peerKind)"

definition buildGroupHistoryKey ::
  "string \<Rightarrow> string option \<Rightarrow> ChatType \<Rightarrow> string \<Rightarrow> string" where
  "buildGroupHistoryKey channel accountId peerKind peerId =
     (let channel = key_channel channel;
          peerId = or_default (normalizeSessionPeerId (Some channel)
            (Some (chat_type_string peerKind)) (Some peerId)) ''unknown''
      in channel @ '':'' @ normalizeAccountId accountId @ '':'' @ chat_type_string peerKind @ '':'' @
         peerId)"

definition resolveThreadSessionKeys ::
  "string \<Rightarrow> string option \<Rightarrow> string option \<Rightarrow> bool option \<Rightarrow> (string \<Rightarrow> string) option \<Rightarrow>
     string \<times> string option" where
  "resolveThreadSessionKeys baseSessionKey threadId parentSessionKey useSuffix normalizeThreadId =
     (let threadId = js_trim (coalesce threadId [])
      in if threadId = [] then (baseSessionKey, None)
         else
           let normalizedThread = (case normalizeThreadId of
                 Some normalizeId \<Rightarrow> normalizeId threadId | None \<Rightarrow> lower_or_empty (Some threadId))
           in (if coalesce useSuffix True then baseSessionKey @ '':thread:'' @ normalizedThread
               else baseSessionKey, parentSessionKey))"

section \<open>Keys in the store and in requests\<close>

datatype SessionKeyShape = KeyMissing | KeyAgent | KeyLegacyOrAlias | KeyMalformedAgent

definition toAgentRequestSessionKey :: "string option \<Rightarrow> string option" where
  "toAgentRequestSessionKey storeKey =
     (let raw = js_trim (coalesce storeKey [])
      in if raw = [] then None
         else Some (coalesce (map_option pk_rest (parseAgentSessionKey (Some raw))) raw))"

definition agentSessionKeysMatchByRequestKey :: "string option \<Rightarrow> string option \<Rightarrow> bool" where
  "agentSessionKeysMatchByRequestKey left right \<longleftrightarrow>
     (let leftRaw = js_trim (coalesce left []); rightRaw = js_trim (coalesce right [])
      in leftRaw \<noteq> [] \<and> rightRaw \<noteq> [] \<and>
         (leftRaw = rightRaw \<or>
          toAgentRequestSessionKey (Some leftRaw) = toAgentRequestSessionKey (Some rightRaw)))"

definition toAgentStoreSessionKey :: "string \<Rightarrow> string option \<Rightarrow> string option \<Rightarrow> string" where
  "toAgentStoreSessionKey agentId requestKey mainKey =
     (let raw = js_trim (coalesce requestKey []); lowered = lower_or_empty (Some raw)
      in if raw = [] \<or> lowered = DEFAULT_MAIN_KEY then buildAgentMainSessionKey agentId mainKey
         else (case parseAgentSessionKey (Some raw) of
             Some parsed \<Rightarrow> ''agent:'' @ pk_agentId parsed @ '':'' @ pk_rest parsed
           | None \<Rightarrow>
               let normalized = normalizeSessionKeyPreservingOpaquePeerIds (Some raw)
               in if js_startsWith lowered ''agent:'' then normalized
                  else ''agent:'' @ normalizeAgentId (Some agentId) @ '':'' @ normalized))"

definition resolveAgentIdFromSessionKey :: "string option \<Rightarrow> string" where
  "resolveAgentIdFromSessionKey sessionKey =
     normalizeAgentId (Some (coalesce (map_option pk_agentId (parseAgentSessionKey sessionKey))
       DEFAULT_AGENT_ID))"

definition classifySessionKeyShape :: "string option \<Rightarrow> SessionKeyShape" where
  "classifySessionKeyShape sessionKey =
     (let raw = js_trim (coalesce sessionKey [])
      in if raw = [] then KeyMissing
         else if parseAgentSessionKey (Some raw) \<noteq> None then KeyAgent
         else if js_startsWith (lower_or_empty (Some raw)) ''agent:'' then KeyMalformedAgent
         else KeyLegacyOrAlias)"

definition isUnscopedSessionKeySentinel :: "string option \<Rightarrow> bool" where
  "isUnscopedSessionKeySentinel sessionKey \<longleftrightarrow>
     (let lowered = lower_or_empty sessionKey in lowered = ''global'' \<or> lowered = ''unknown'')"

definition scopeLegacySessionKeyToAgent ::
  "string option \<Rightarrow> string option \<Rightarrow> string option \<Rightarrow> string option" where
  "scopeLegacySessionKeyToAgent agentId sessionKey mainKey =
     (let raw = js_trim (coalesce sessionKey [])
      in if raw = [] then None
         else (case nonempty_string (map_option js_trim agentId) of
             None \<Rightarrow> Some raw
           | Some agentId \<Rightarrow>
               if classifySessionKeyShape (Some raw) \<noteq> KeyLegacyOrAlias then Some raw
               else Some (toAgentStoreSessionKey agentId (Some raw) mainKey)))"

datatype SessionScope = ScopePerSender | ScopeGlobal

definition resolveEventSessionKey ::
  "string \<Rightarrow> string option \<Rightarrow> SessionScope option \<Rightarrow> string" where
  "resolveEventSessionKey sessionKey mainKey scope =
     (case parseAgentSessionKey (Some sessionKey) of
        None \<Rightarrow> sessionKey
      | Some parsed \<Rightarrow>
          if \<not> isCronRunSessionKey (Some sessionKey) then sessionKey
          else if scope = Some ScopeGlobal then ''global''
          else buildAgentMainSessionKey (pk_agentId parsed) mainKey)"

text \<open>What \<^verbatim>\<open>scopedHeartbeatWakeOptions\<close> adds to the options.\<close>

datatype WakeTarget = WakeAsGiven | WakeSession string | WakeAgent string

definition scopedHeartbeatWakeOptions ::
  "string \<Rightarrow> string option \<Rightarrow> SessionScope option \<Rightarrow> WakeTarget" where
  "scopedHeartbeatWakeOptions sessionKey mainKey scope =
     (case parseAgentSessionKey (Some sessionKey) of
        None \<Rightarrow> WakeAsGiven
      | Some parsed \<Rightarrow>
          if isCronRunSessionKey (Some sessionKey) then
            if scope = Some ScopeGlobal then WakeAgent (pk_agentId parsed)
            else WakeSession (buildAgentMainSessionKey (pk_agentId parsed) mainKey)
          else WakeSession sessionKey)"

section \<open>Equal keys belong to the same conversation\<close>

abbreviation no_colon :: "string \<Rightarrow> bool" where
  "no_colon \<equiv> list_all (\<lambda>c. \<not> colon c)"

lemma colon_char [simp]: "colon CHR '':''"
  by (simp add: colon_def)

lemma colon_separates:
  "no_colon a \<Longrightarrow> no_colon b \<Longrightarrow> a @ CHR '':'' # r = b @ CHR '':'' # s \<longleftrightarrow> a = b \<and> r = s"
  by (rule separator_inj) (auto simp: list_all_iff)

lemma no_colon_ids: "list_all id_char s \<Longrightarrow> no_colon s"
  by (auto simp: list_all_iff id_char_def lower_alnum_def colon_def Let_def)

lemma no_colon_agent [simp]: "no_colon (normalizeAgentId v)"
  using agent_id_shaped [of v] by (simp add: id_shaped_def no_colon_ids)

lemma no_colon_account [simp]: "no_colon (normalizeAccountId v)"
  using account_id_safe [of v] by (simp add: id_shaped_def no_colon_ids)

lemma set_js_trim: "set (js_trim s) \<subseteq> set s"
  by (auto simp: js_trim_def dest!: set_dropWhileD)

lemma no_colon_lower: "no_colon s \<Longrightarrow> no_colon (lower_or_empty (Some s))"
  using set_js_trim [of s]
  by (auto simp: lower_or_empty_def normalizeLowercase_JString js_toLowerCase_def list_all_iff)

lemma no_colon_channel [simp]: "no_colon s \<Longrightarrow> no_colon (key_channel s)"
  using no_colon_lower [of s] by (simp add: key_channel_def or_default_def colon_def)

lemma no_colon_kind [simp]: "no_colon (chat_type_string k)"
  by (cases k) (simp_all add: chat_type_string_def colon_def)

lemma chat_type_string_inj [simp]: "chat_type_string k = chat_type_string l \<longleftrightarrow> k = l"
  by (cases k; cases l) (simp_all add: chat_type_string_def)

lemma agent_head_eq:
  "agent_head p @ r = agent_head q @ s \<longleftrightarrow>
     normalizeAgentId (Some (bk_agentId p)) = normalizeAgentId (Some (bk_agentId q)) \<and> r = s"
  by (simp add: agent_head_def colon_separates)

definition peer_kind :: "PeerSessionKeyParams \<Rightarrow> ChatType" where
  "peer_kind p = coalesce (bk_peerKind p) ChatDirect"

definition peer_id_of :: "PeerSessionKeyParams \<Rightarrow> string" where
  "peer_id_of p = (if peer_kind p = ChatDirect then direct_peer_id p
     else group_peer_id p (peer_kind p))"

text \<open>Parameters whose key tells the conversation apart: a channel name without colon and,
  for a direct message, a known peer under a scope other than the main session.\<close>

definition separable :: "PeerSessionKeyParams \<Rightarrow> bool" where
  "separable p \<longleftrightarrow> no_colon (bk_channel p) \<and>
     (peer_kind p = ChatDirect \<longrightarrow> bk_dmScope p \<notin> {None, Some DmMain} \<and> direct_peer_id p \<noteq> [])"

lemma direct_key:
  assumes "separable p" "peer_kind p = ChatDirect" "bk_dmScope p = Some d"
  shows "buildAgentPeerSessionKey p = agent_head p @
    (case d of
       DmPerAccountChannelPeer \<Rightarrow> key_channel (bk_channel p) @ CHR '':'' #
         normalizeAccountId (bk_accountId p) @ CHR '':'' # ''direct:'' @ direct_peer_id p
     | DmPerChannelPeer \<Rightarrow> key_channel (bk_channel p) @ CHR '':'' # ''direct:'' @ direct_peer_id p
     | _ \<Rightarrow> ''direct:'' @ direct_peer_id p)"
  using assms by (cases d) (auto simp: separable_def peer_kind_def buildAgentPeerSessionKey_def Let_def)

lemma group_key:
  assumes "peer_kind p \<noteq> ChatDirect"
  shows "buildAgentPeerSessionKey p = agent_head p @ key_channel (bk_channel p) @ CHR '':'' #
    chat_type_string (peer_kind p) @ CHR '':'' # group_peer_id p (peer_kind p)"
  using assms by (simp add: peer_kind_def buildAgentPeerSessionKey_def Let_def)


definition example_peer :: "string \<Rightarrow> ChatType \<Rightarrow> string \<Rightarrow> PeerSessionKeyParams" where
  "example_peer channel kind peerId =
     \<lparr>bk_agentId = ''main'', bk_mainKey = None, bk_channel = channel, bk_accountId = None,
      bk_peerKind = Some kind, bk_peerId = Some peerId, bk_identityLinks = None,
      bk_dmScope = Some DmPerChannelPeer\<rparr>"


section \<open>Reading a built key back\<close>

lemma no_colon_iff: "no_colon s \<longleftrightarrow> CHR '':'' \<notin> set s"
  by (auto simp: list_all_iff colon_def)

lemma split_colon_append: "no_colon s \<Longrightarrow> split_colon (s @ CHR '':'' # r) = s # split_colon r"
  by (simp add: no_colon_iff js_split_append)

lemma split_colon_hd: "split_colon s = takeWhile (\<lambda>c. \<not> colon c) s # tl (split_colon s)"
  unfolding colon_def by (rule js_split_hd)

lemma split_colon_join [simp]: "join_colon (split_colon s) = s"
  unfolding join_colon_def by (rule join_js_split)

lemma trimmed_option_no_white: "no_white s \<Longrightarrow> trimmed_option (Some s) = nonempty_string (Some s)"
  by (simp add: trimmed_option_def normalizeOptionalString_def normalizeNullableString_def
      js_trim_no_white nonempty_string_def Let_def)

lemma no_white_ids: "list_all id_char s \<Longrightarrow> no_white s"
  by (auto simp: list_all_iff dest: not_white_id)

lemma canonical_fixed:
  assumes "no_white key"
    and "\<And>i. i < length key \<Longrightarrow> js_lower_char (key ! i) = key ! i \<or> kept_chars key i"
  shows "canonical_session_key key = key"
proof (rule nth_equalityI)
  show "canonical_session_key key ! i = key ! i" if "i < length (canonical_session_key key)" for i
    using that assms(2) [of i] by (auto simp: canonical_positions [OF assms(1)] keep_or_lower_def)
qed (simp add: canonical_positions [OF assms(1)])

lemma canonical_fixed_lower:
  "no_white key \<Longrightarrow> js_toLowerCase key = key \<Longrightarrow> canonical_session_key key = key"
  by (rule canonical_fixed) (simp_all add: js_toLowerCase_def list_eq_iff_nth_eq)

lemma js_includes_iff: "js_includes s p \<longleftrightarrow> (\<exists>i \<le> length s. js_startsWith (drop i s) p)"
  unfolding js_includes_def list_ex_iff set_upt by (auto simp: less_Suc_eq_le)

lemma segment_spans_none:
  "\<not> js_includes (js_toLowerCase s) pat \<Longrightarrow> segment_spans pat b pos s = []"
proof (induction pat b pos s rule: segment_spans.induct)
  case (1 pat b pos s)
  have at: "segment_at pat (drop n s) = None" for n
  proof -
    have "\<not> js_startsWith (js_toLowerCase (drop n s)) pat" if "n \<le> length s"
      using "1.prems" that by (auto simp: js_includes_iff drop_lower)
    then show ?thesis
      by (cases "n \<le> length s") (auto simp: segment_at_def starts_ci_def Let_def)
  qed
  have none: "segment_match pat b s = None"
    using at [of 0] at [of 1] by (cases s) (auto simp: segment_match_def coalesce2_def)
  have "\<not> js_includes (js_toLowerCase (drop 1 s)) pat"
  proof (cases s)
    case (Cons c cs)
    have "js_includes (js_toLowerCase s) pat" if "js_includes (js_toLowerCase cs) pat"
    proof -
      from that obtain i where "i \<le> length cs" "js_startsWith (drop i (js_toLowerCase cs)) pat"
        by (auto simp: js_includes_iff)
      then have "Suc i \<le> length s" "js_startsWith (drop (Suc i) (js_toLowerCase s)) pat"
        by (simp_all add: Cons js_toLowerCase_def)
      then show ?thesis unfolding js_includes_iff length_toLowerCase by blast
    qed
    with "1.prems" Cons show ?thesis by auto
  qed (use "1.prems" in auto)
  with "1.IH"(1) none show ?case by (simp add: segment_spans.simps [of pat b])
qed

lemma starts_ci_append [simp]: "js_toLowerCase p = p \<Longrightarrow> starts_ci (p @ r) p"
  by (simp add: starts_ci_def js_startsWith_def js_toLowerCase_def)

lemma starts_ci_Cons: "starts_ci (c # s) (d # p) \<longleftrightarrow> js_lower_char c = d \<and> starts_ci s p"
  by (simp add: starts_ci_def js_startsWith_def js_toLowerCase_def)

lemma starts_ci_Nil [simp]: "starts_ci s []"
  by (simp add: starts_ci_def js_startsWith_def)

lemma starts_ci_segment:
  assumes "no_colon a" "no_colon b" "starts_ci (a @ CHR '':'' # r) (b @ CHR '':'' # p)"
  shows "js_toLowerCase a = b \<and> starts_ci r p"
proof -
  from assms(3) obtain t where
    "js_toLowerCase (a @ CHR '':'' # r) = (b @ CHR '':'' # p) @ t"
    unfolding starts_ci_def js_startsWith_def by (metis append_take_drop_id)
  moreover have "js_lower_char CHR '':'' = CHR '':''" by code_simp
  ultimately have eq: "js_toLowerCase a @ CHR '':'' # js_toLowerCase r = b @ CHR '':'' # (p @ t)"
    by (simp add: js_toLowerCase_def)
  moreover have "no_colon (js_toLowerCase a)" using assms(1) by (simp add: js_toLowerCase_def list_all_iff)
  ultimately have "js_toLowerCase a = b" "js_toLowerCase r = p @ t"
    using colon_separates [OF _ assms(2)] by blast+
  then show ?thesis by (simp add: starts_ci_def)
qed

lemma takeWhile_segment: "no_colon a \<Longrightarrow> takeWhile (\<lambda>c. \<not> colon c) (a @ CHR '':'' # r) = a"
  by (induction a) auto

lemma takeWhile_no_colon: "no_colon a \<Longrightarrow> takeWhile (\<lambda>c. \<not> colon c) a = a"
  by (induction a) auto

definition conversation_key :: "string \<Rightarrow> string \<Rightarrow> string \<Rightarrow> string \<Rightarrow> string" where
  "conversation_key a c k i =
     ''agent:'' @ a @ CHR '':'' # c @ CHR '':'' # k @ CHR '':'' # i"

lemma drop_agent [simp]:
  "drop (7 + length a) (''agent:'' @ a @ CHR '':'' # r) = r" "drop 6 (''agent:'' @ r) = r"
  by (simp_all add: eval_nat_numeral)

lemma agent_wrappers_key:
  assumes "no_colon a" "no_colon c" "js_toLowerCase c \<noteq> ''agent''"
  shows "agent_wrappers (conversation_key a c k i) = 7 + length a"
proof -
  let ?r = "c @ CHR '':'' # k @ CHR '':'' # i"
  have key: "conversation_key a c k i = ''agent:'' @ a @ CHR '':'' # ?r"
    by (simp add: conversation_key_def)
  have "\<not> starts_ci ?r ''agent:''"
    using starts_ci_segment [of c "''agent''" "k @ CHR '':'' # i" "[]"] assms
    by (auto simp: colon_def)
  then have "agent_wrappers ?r = 0" by (simp add: agent_wrappers.simps)
  moreover have "starts_ci (''agent:'' @ a @ CHR '':'' # ?r) ''agent:''"
    by (rule starts_ci_append) code_simp
  ultimately show ?thesis
    using assms(1) unfolding key
    by (subst agent_wrappers.simps)
      (simp only: drop_agent takeWhile_segment Let_def if_True simp_thms, simp)
qed

lemma scoped_tail_key:
  assumes "no_colon a" "no_colon c" "c \<noteq> []" "js_toLowerCase c \<noteq> ''agent''" "no_colon k"
    and "no_colon channel" "no_colon kind"
  shows "scoped_tail (channel @ CHR '':'' # kind @ '':'') (conversation_key a c k i) =
    (if js_toLowerCase c = channel \<and> js_toLowerCase k = kind
     then Some (length (conversation_key a c k [])) else None)"
proof -
  let ?r = "c @ CHR '':'' # k @ CHR '':'' # i"
  let ?h = "channel @ CHR '':'' # kind @ '':''"
  have w: "agent_wrappers (conversation_key a c k i) = 7 + length a"
    by (rule agent_wrappers_key [OF assms(1,2,4)])
  have d: "drop (7 + length a) (conversation_key a c k i) = ?r"
    unfolding conversation_key_def by (rule drop_agent)
  have "takeWhile colon ?r = []" using assms(2,3) by (cases c) auto
  then have "scoped_tail ?h (conversation_key a c k i) =
      (if starts_ci ?r ?h then Some (7 + length a + length ?h) else None)"
    by (simp add: scoped_tail_def w d Let_def)
  moreover have "starts_ci ?r ?h \<longleftrightarrow> js_toLowerCase c = channel \<and> js_toLowerCase k = kind"
  proof
    assume s: "starts_ci ?r ?h"
    have 1: "js_toLowerCase c = channel" "starts_ci (k @ CHR '':'' # i) (kind @ '':'')"
      using starts_ci_segment [OF assms(2,6) s] by simp_all
    then show "js_toLowerCase c = channel \<and> js_toLowerCase k = kind"
      using starts_ci_segment [OF assms(5,7), of i "[]"] by simp
  next
    assume "js_toLowerCase c = channel \<and> js_toLowerCase k = kind"
    then have "js_toLowerCase ?r = ?h @ js_toLowerCase i" by (auto simp: js_toLowerCase_def) code_simp+
    then show "starts_ci ?r ?h" unfolding starts_ci_def by (simp only: js_startsWith_append)
  qed
  moreover have "length (conversation_key a c k []) = 7 + length a + length ?h"
    if "js_toLowerCase c = channel" "js_toLowerCase k = kind"
    using that by (auto simp: conversation_key_def)
  ultimately show ?thesis by auto
qed

lemma segment_spans_skip:
  "no_colon x \<Longrightarrow> segment_spans pat False pos (x @ s) = segment_spans pat False (pos + length x) s"
proof (induction x arbitrary: pos)
  case (Cons c x)
  then have "segment_match pat False (c # x @ s) = None" by (simp add: segment_match_def)
  then have "segment_spans pat False pos ((c # x) @ s) = segment_spans pat False (Suc pos) (x @ s)"
    by (simp add: segment_spans.simps [of pat False pos])
  with Cons show ?case by simp
qed simp

lemma segment_spans_skip_colon:
  "segment_at pat s = None \<Longrightarrow>
     segment_spans pat False pos (CHR '':'' # s) = segment_spans pat False (Suc pos) s"
  by (simp add: segment_spans.simps [of pat False pos] segment_match_def)

lemma segment_spans_signal:
  assumes "no_colon a" "no_colon i" "i \<noteq> []"
  defines "key \<equiv> conversation_key a ''signal'' ''group'' i"
  shows "segment_spans ''signal:group:'' True 0 key =
    [\<lparr>ps_start = length key - length i, ps_end = length key, ps_trim = True\<rparr>]"
proof -
  let ?pat = "''signal:group:''"
  let ?s = "?pat @ i"
  let ?n = "7 + length a"
  have key: "key = ''agent'' @ CHR '':'' # a @ CHR '':'' # ?s"
    by (simp add: key_def conversation_key_def)
  have low: "js_toLowerCase ?pat = ?pat" by code_simp
  have no_at: "segment_at ?pat (b @ CHR '':'' # ?s) = None" if "no_colon b" for b
  proof -
    have "\<not> starts_ci (b @ CHR '':'' # ?s) (''signal'' @ CHR '':'' # ''group:'')"
    proof
      assume "starts_ci (b @ CHR '':'' # ?s) (''signal'' @ CHR '':'' # ''group:'')"
      from starts_ci_segment [OF that _ this] have "starts_ci ?s ''group:''" by (simp add: colon_def)
      then show False by (simp add: starts_ci_Cons js_lower_char_def)
    qed
    then show ?thesis by (simp add: segment_at_def)
  qed
  have "segment_match ?pat True key = None"
  proof -
    have "\<not> starts_ci key ?pat" by (simp add: key starts_ci_Cons js_lower_char_def)
    then have "segment_at ?pat key = None" by (simp add: segment_at_def)
    then show ?thesis by (simp add: segment_match_def coalesce2_def key colon_def)
  qed
  then have "segment_spans ?pat True 0 key = segment_spans ?pat False 1 (''gent'' @ CHR '':'' # a @ CHR '':'' # ?s)"
    by (simp add: segment_spans.simps [of _ True] key)
  also have "\<dots> = segment_spans ?pat False 5 (CHR '':'' # a @ CHR '':'' # ?s)"
    by (subst segment_spans_skip) (simp_all add: colon_def eval_nat_numeral)
  also have "\<dots> = segment_spans ?pat False (6 + length a) (CHR '':'' # ?s)"
    using no_at [OF assms(1)] by (simp only: segment_spans_skip_colon segment_spans_skip [OF assms(1)])
      simp
  also have "\<dots> = [\<lparr>ps_start = length key - length i, ps_end = length key, ps_trim = True\<rparr>]"
  proof -
    have "starts_ci ?s ?pat" by (rule starts_ci_append [OF low])
    moreover have "drop (length ?pat) ?s = i" by simp
    ultimately have "segment_at ?pat ?s = Some (14 - 1, length i)"
      using assms(2,3) by (simp only: segment_at_def Let_def takeWhile_no_colon) simp
    then have m: "segment_match ?pat False (CHR '':'' # ?s) = Some (14, length i)"
      by (simp add: segment_match_def coalesce2_def del: append.simps append_Cons)
    have "drop (14 + length i) (CHR '':'' # ?s) = []" by simp
    moreover have "segment_spans ?pat False p [] = []" for p by (simp add: segment_spans.simps)
    moreover have "length key = 20 + length a + length i" by (simp add: key)
    ultimately show ?thesis
      by (subst segment_spans.simps) (simp add: m del: append.simps append_Cons)
  qed
  finally show ?thesis .
qed

lemma sorted_single:
  "collectCasePreservedSpans raw = [span] \<Longrightarrow> ps_start span < ps_end span \<Longrightarrow>
     sorted_spans raw = [span]"
  by (simp add: sorted_spans_def js_toSorted_def)

lemma kept_tail:
  assumes "no_white key" "mayContainCasePreservingPeer key"
    and "collectCasePreservedSpans key = [\<lparr>ps_start = n, ps_end = length key, ps_trim = b\<rparr>]"
    and "js_toLowerCase (take n key) = take n key"
  shows "canonical_session_key key = key"
proof (rule canonical_fixed [OF assms(1)])
  fix i assume i: "i < length key"
  show "js_lower_char (key ! i) = key ! i \<or> kept_chars key i"
  proof (cases "i < n")
    case True
    have "js_toLowerCase (take n key) ! i = take n key ! i" by (simp only: assms(4))
    with True i show ?thesis by (simp add: js_toLowerCase_def)
  next
    case False
    then have "sorted_spans key = [\<lparr>ps_start = n, ps_end = length key, ps_trim = b\<rparr>]"
      using i by (intro sorted_single assms(3)) simp
    with False i show ?thesis by (simp add: kept_chars_def assms(2))
  qed
qed

lemma last_index_None_iff: "last_index_of_text s p = None \<longleftrightarrow> \<not> js_includes s p"
  by (auto simp: last_index_of_text_def find_None_iff_all js_includes_def list_ex_iff)

lemma js_includes_drop: "js_includes (drop n s) p \<Longrightarrow> js_includes s p"
proof -
  assume "js_includes (drop n s) p"
  then obtain i where i: "i \<le> length s - n" "js_startsWith (drop (i + n) s) p"
    by (auto simp: js_includes_iff)
  show "js_includes s p"
  proof (cases "i + n \<le> length s")
    case False
    with i(2) have "js_startsWith (drop (length s) s) p" by simp
    then show ?thesis unfolding js_includes_iff by blast
  qed (use i(2) in \<open>auto simp: js_includes_iff\<close>)
qed

text \<open>The condition under which the peer id of a group key survives canonicalisation: it is in
  lower case, or it belongs to a channel whose ids keep their case and the key carries no marker
  of another span.\<close>

definition opaque_safe :: "string \<Rightarrow> string \<Rightarrow> string \<Rightarrow> string \<Rightarrow> bool" where
  "opaque_safe key c k i \<longleftrightarrow>
     js_toLowerCase i = i \<or>
     c = ''signal'' \<and> k = ''group'' \<and> no_colon i \<or>
     c = ''matrix'' \<and> \<not> js_includes (js_toLowerCase key) ''signal:group:'' \<and>
       \<not> js_includes (js_toLowerCase key) '':thread:''"

lemma conversation_key_eq: "conversation_key a c k i = conversation_key a c k [] @ i"
  by (simp add: conversation_key_def)

lemma lower_conversation_head:
  assumes "list_all id_char a" "list_all id_char c" "list_all id_char k"
  shows "js_toLowerCase (conversation_key a c k []) = conversation_key a c k []"
proof -
  have "js_toLowerCase (x @ y) = js_toLowerCase x @ js_toLowerCase y" for x y
    by (simp add: js_toLowerCase_def)
  moreover have "js_toLowerCase (CHR '':'' # y) = CHR '':'' # js_toLowerCase y" for y
    by (simp add: js_toLowerCase_def js_lower_char_def)
  moreover have "js_toLowerCase ''agent:'' = ''agent:''" "js_toLowerCase [] = []" by code_simp+
  ultimately show ?thesis
    unfolding conversation_key_def using assms by (simp only: js_toLowerCase_id)
qed

lemma collectTailSpan_whole:
  assumes "no_white raw" "\<not> js_includes (js_toLowerCase raw) '':thread:''" "n < length raw"
  shows "collectTailSpan raw n = [\<lparr>ps_start = n, ps_end = length raw, ps_trim = False\<rparr>]"
proof -
  have "\<not> js_includes (js_toLowerCase (drop n raw)) '':thread:''"
    using assms(2) js_includes_drop [of n "js_toLowerCase raw"] by (auto simp: drop_lower)
  then show ?thesis
    using assms(1,3) by (simp add: collectTailSpan_def lower_no_white no_white_drop last_index_None_iff
        flip: last_index_None_iff)
qed

lemma js_includes_mid: "js_includes (x @ p @ y) p"
  unfolding js_includes_iff by (rule exI [of _ "length x"]) simp

lemma mayContain_conversation_key:
  assumes "c = ''signal'' \<or> c = ''matrix''"
  shows "mayContainCasePreservingPeer (conversation_key a c k i)"
proof -
  have app: "js_toLowerCase (x @ y) = js_toLowerCase x @ js_toLowerCase y" for x y
    by (simp add: js_toLowerCase_def)
  have "conversation_key a c k i = (''agent:'' @ a @ '':'') @ (c @ '':'') @ k @ CHR '':'' # i"
    by (simp add: conversation_key_def)
  moreover have "js_toLowerCase (c @ '':'') = c @ '':''" using assms by (elim disjE) (hypsubst, code_simp)+
  ultimately have "js_includes (js_toLowerCase (conversation_key a c k i)) (c @ '':'')"
    by (simp only: app [of "''agent:'' @ a @ '':''"] app [of "c @ '':''"] js_includes_mid)
  with assms show ?thesis by (auto simp: mayContainCasePreservingPeer_def CASE_PRESERVING_PEERS_def)
qed

lemma canonical_conversation_key:
  fixes a c k i
  defines "key \<equiv> conversation_key a c k i"
  assumes ids: "list_all id_char a" "list_all id_char c" "list_all id_char k" "no_white i"
    and ne: "c \<notin> {[], ''agent''}" "i \<noteq> []"
    and k: "k \<in> {''group'', ''channel''}" and safe: "opaque_safe key c k i"
  shows "canonical_session_key key = key"
proof -
  let ?n = "length (conversation_key a c k [])"
  have key: "key = conversation_key a c k [] @ i" unfolding key_def by (rule conversation_key_eq)
  have nw: "no_white key"
    using ids by (simp add: key_def conversation_key_def no_white_ids) code_simp
  have head: "js_toLowerCase (take ?n key) = take ?n key"
    by (simp add: key lower_conversation_head [OF ids(1,2,3)])
  have nc: "no_colon a" "no_colon c" "no_colon k"
    using ids(1-3) by (auto simp: list_all_iff id_char_def lower_alnum_def colon_def Let_def)
  have low: "js_toLowerCase c = c" "js_toLowerCase k = k" using ids js_toLowerCase_id by blast+
  have lt: "?n < length key" using ne(2) by (simp add: key)
  have un: "unscoped_tail (x # h) key = None" if "x \<noteq> CHR ''a''" for x h
    using that by (simp add: unscoped_tail_def key_def conversation_key_def starts_ci_Cons js_lower_char_def)
  have scoped: "scoped_tail (''matrix:'' @ kind @ '':'') key =
      (if c = ''matrix'' \<and> k = kind then Some ?n else None)" if "no_colon kind" for kind
    using scoped_tail_key [OF nc(1,2) _ _ nc(3) _ that, of "''matrix''" i] ne low
    by (simp add: key_def colon_def)
  consider "js_toLowerCase i = i" | "c = ''signal''" "k = ''group''" "no_colon i"
    | "c = ''matrix''" "\<not> js_includes (js_toLowerCase key) ''signal:group:''"
      "\<not> js_includes (js_toLowerCase key) '':thread:''"
    using safe by (auto simp: opaque_safe_def)
  then show ?thesis
  proof cases
    case 1
    have "js_toLowerCase (x @ i) = js_toLowerCase x @ i" for x
      using 1 by (simp add: js_toLowerCase_def)
    then have "js_toLowerCase key = key"
      unfolding key by (simp only: lower_conversation_head [OF ids(1,2,3)])
    then show ?thesis by (rule canonical_fixed_lower [OF nw])
  next
    case 2
    have "collectCasePreservedSpans key =
        [\<lparr>ps_start = ?n, ps_end = length key, ps_trim = True\<rparr>]"
      using scoped [of "''channel''"] scoped [of "''group''"] 2 ne(2)
        segment_spans_signal [OF nc(1) 2(3) ne(2)] un [of "CHR ''m''"]
      by (simp add: collectCasePreservedSpans_def CASE_PRESERVING_PEERS_def peer_spans_def key_def
          colon_def conversation_key_eq [of _ _ _ i] Let_def)
    moreover have "mayContainCasePreservingPeer key"
      using 2(1) by (simp only: key_def mayContain_conversation_key simp_thms)
    ultimately show ?thesis using head by (intro kept_tail [OF nw]) auto
  next
    case 3
    have "collectCasePreservedSpans key =
        [\<lparr>ps_start = ?n, ps_end = length key, ps_trim = False\<rparr>]"
      using scoped [of "''channel''"] scoped [of "''group''"] 3 k collectTailSpan_whole [OF nw 3(3) lt]
        un [of "CHR ''m''"] segment_spans_none [OF 3(2), of True 0]
      by (auto simp: collectCasePreservedSpans_def CASE_PRESERVING_PEERS_def peer_spans_def
          colon_def Let_def)
    moreover have "mayContainCasePreservingPeer key"
      using 3(1) by (simp only: key_def mayContain_conversation_key simp_thms)
    ultimately show ?thesis using head by (intro kept_tail [OF nw]) auto
  qed
qed

lemma group_peer_id_ne: "group_peer_id p k \<noteq> []"
  by (simp add: group_peer_id_def or_default_def)

lemma group_peer_id_lower:
  "\<not> isCasePreservingPeer (Some (bk_channel p)) (Some (chat_type_string k)) \<Longrightarrow>
     js_toLowerCase (group_peer_id p k) = group_peer_id p k"
proof -
  assume n: "\<not> isCasePreservingPeer (Some (bk_channel p)) (Some (chat_type_string k))"
  have "js_toLowerCase ''unknown'' = ''unknown''" by code_simp
  with n show ?thesis
    by (simp add: group_peer_id_def or_default_def normalizeSessionPeerId_def Let_def
        normalizeLowercase_JString)
qed

lemma case_preserving_channel:
  assumes "isCasePreservingPeer (Some c) (Some (chat_type_string k))" "list_all id_char c"
  shows "c = ''matrix'' \<or> c = ''signal'' \<and> k = ChatGroup"
proof -
  have "lower_or_empty (Some c) = c"
    using assms(2) by (simp add: lower_or_empty_def lower_no_white no_white_ids js_toLowerCase_id)
  moreover have "lower_or_empty (Some (chat_type_string k)) = chat_type_string k"
    by (cases k; simp add: chat_type_string_def; code_simp)
  ultimately show ?thesis
    using assms(1) by (cases k) (auto simp: isCasePreservingPeer_def findCasePreservingPeerDescriptor_def
        CASE_PRESERVING_PEERS_def chat_type_string_def lower_or_empty_def Let_def split: if_splits)
qed

text \<open>A conversation whose parts a key keeps apart: the channel is a plain id, the peer id has no
  white space, does not start like an account-scoped direct peer, and no separator of another
  kind of key occurs.\<close>

definition key_readable :: "PeerSessionKeyParams \<Rightarrow> ChatType \<Rightarrow> bool" where
  "key_readable p k \<longleftrightarrow>
     (let c = bk_channel p; i = group_peer_id p k; key = buildAgentPeerSessionKey p
      in list_all id_char c \<and> c \<noteq> [] \<and> c \<noteq> ''agent'' \<and> no_white i \<and>
         takeWhile (\<lambda>c. \<not> colon c) i \<notin> {[], ''direct'', ''dm''} \<and>
         \<not> js_includes (js_toLowerCase key) '':thread:'' \<and>
         (c = ''signal'' \<longrightarrow> no_colon i) \<and>
         (c = ''matrix'' \<longrightarrow> \<not> js_includes (js_toLowerCase key) ''signal:group:''))"

lemma trimmed_no_white: "no_white x \<Longrightarrow> trimmed_option (Some x) = (if x = [] then None else Some x)"
  by (simp add: trimmed_option_no_white nonempty_string_def)

lemma split_conversation:
  assumes "no_colon a" "no_colon c" "no_colon k"
  shows "split_colon (c @ CHR '':'' # k @ CHR '':'' # i) = c # k # split_colon i"
    and "split_colon (conversation_key a c k i) = ''agent'' # a # c # k # split_colon i"
proof -
  let ?rest = "c @ CHR '':'' # k @ CHR '':'' # i"
  show rest: "split_colon ?rest = c # k # split_colon i" using assms by (simp add: split_colon_append)
  have "split_colon (conversation_key a c k i) = split_colon (''agent'' @ CHR '':'' # a @ CHR '':'' # ?rest)"
    by (simp add: conversation_key_def)
  also have "\<dots> = ''agent'' # a # split_colon ?rest"
    using assms by (simp only: split_colon_append) (simp add: colon_def split_colon_append)
  finally show "split_colon (conversation_key a c k i) = ''agent'' # a # c # k # split_colon i"
    by (simp add: rest)
qed

lemma no_white_conversation:
  assumes "list_all id_char a" "list_all id_char c" "list_all id_char k" "no_white i"
  shows "no_white (conversation_key a c k i)"
  using assms unfolding conversation_key_def by (simp add: no_white_ids) code_simp

text \<open>A canonical conversation key is parsed into its agent and the rest.\<close>

lemma conversation_key_parsed:
  assumes ids: "id_shaped a" "list_all id_char c" "list_all id_char k" "no_white i"
    and ne: "c \<noteq> []" "k \<noteq> []"
    and canon: "canonical_session_key (conversation_key a c k i) = conversation_key a c k i"
  shows "parseAgentSessionKey (Some (conversation_key a c k i)) =
    Some \<lparr>pk_agentId = a, pk_rest = c @ CHR '':'' # k @ CHR '':'' # i\<rparr>"
proof -
  let ?key = "conversation_key a c k i" and ?rest = "c @ CHR '':'' # k @ CHR '':'' # i"
  have a: "list_all id_char a" "a \<noteq> []" using ids(1) by (auto simp: id_shaped_def)
  note split = split_conversation [of a c k i] no_colon_ids [OF a(1)] no_colon_ids [OF ids(2)]
    no_colon_ids [OF ids(3)]
  have key_ne: "?key \<noteq> []" by (simp add: conversation_key_def)
  have norm: "normalizeSessionKeyPreservingOpaquePeerIds (Some ?key) = ?key"
    by (simp add: normalizeSessionKeyPreservingOpaquePeerIds_def key_ne canon
        trimmed_no_white [OF no_white_conversation [OF a(1) ids(2-4)]])
  have "join_colon (c # k # split_colon i) = ?rest" using split_colon_join [of ?rest] split by simp
  moreover have "trimmed_option (Some a) = Some a" using a by (simp add: trimmed_no_white no_white_ids)
  ultimately show ?thesis
    using ne a by (simp add: parseAgentSessionKey_def norm key_ne split Let_def)
qed

lemma no_thread_suffix:
  assumes "no_white key" "key \<noteq> []" "\<not> js_includes (js_toLowerCase key) '':thread:''"
  shows "parseThreadSessionSuffix (Some key) = \<lparr>ts_baseSessionKey = Some key, ts_threadId = None\<rparr>"
proof -
  have "last_index_of_text (normalizeLowercaseStringOrEmpty (JString key)) '':thread:'' = None"
    using assms by (simp add: last_index_None_iff lower_no_white)
  then show ?thesis
    using assms by (simp add: parseThreadSessionSuffix_def trimmed_no_white) (simp add: trimmed_option_def)
qed

text \<open>Its delivery route names the channel, the kind and the peer.\<close>

lemma conversation_key_route:
  assumes parsed: "parseAgentSessionKey (Some key) =
      Some \<lparr>pk_agentId = a, pk_rest = c @ CHR '':'' # k @ CHR '':'' # i\<rparr>"
    and key: "no_white key" "key \<noteq> []" "\<not> js_includes (js_toLowerCase key) '':thread:''"
    and c: "list_all id_char c" "c \<noteq> []" "c \<noteq> ''agent''" and k: "k \<in> {''group'', ''channel''}"
    and i: "no_white i" "i \<noteq> []" "takeWhile (\<lambda>c. \<not> colon c) i \<notin> {[], ''direct'', ''dm''}"
  shows "parseSessionDeliveryRoute (Some key) =
    Some \<lparr>dr_accountId = None, dr_channel = c, dr_peerId = i, dr_peerKind = k, dr_threadId = None\<rparr>"
proof -
  have nc: "no_colon c" "no_colon k" using k no_colon_ids [OF c(1)] by (auto simp: colon_def)
  have rest: "split_colon (c @ CHR '':'' # k @ CHR '':'' # i) = c # k # split_colon i"
    by (rule split_conversation(1) [OF nc(1) nc])
  obtain s ss where s: "split_colon i = s # ss" "s = takeWhile (\<lambda>c. \<not> colon c) i"
    using split_colon_hd by blast
  have s': "s \<notin> {[], ''direct'', ''dm''}" "no_white s"
    using i by (auto simp: s(2) list_all_iff dest: set_takeWhileD)
  have "trimmed_lower_option (Some c) = Some c"
    using c by (simp add: trimmed_lower_option_def normalizeOptionalLowercaseString_def
        normalizeOptionalString_def normalizeNullableString_def js_trim_ids js_toLowerCase_id)
  moreover have "join_colon (s # ss) = i" using split_colon_join [of i] by (simp add: s(1))
  ultimately show ?thesis
    using c k s' i
    by (auto simp: parseSessionDeliveryRoute_def no_thread_suffix [OF key] parsed rest s(1)
        trimmed_no_white peer_delivery_route_def SESSION_DELIVERY_PEER_KINDS_def Let_def)
qed

text \<open>The key of readable parameters is a canonical conversation key.\<close>

lemma readable_key:
  assumes "bk_peerKind p = Some k" "k \<noteq> ChatDirect" "key_readable p k"
  defines "c \<equiv> bk_channel p" and "i \<equiv> group_peer_id p k" and "key \<equiv> buildAgentPeerSessionKey p"
  shows "key = conversation_key (normalizeAgentId (Some (bk_agentId p))) c (chat_type_string k) i"
    and "canonical_session_key key = key"
proof -
  let ?a = "normalizeAgentId (Some (bk_agentId p))" and ?k = "chat_type_string k"
  note r = assms(3) [unfolded key_readable_def Let_def, folded c_def i_def key_def]
  have chan: "lower_or_empty (Some c) = c"
    using r by (simp add: lower_or_empty_def lower_no_white no_white_ids js_toLowerCase_id)
  show key: "key = conversation_key ?a c ?k i"
    using assms(1,2) r chan by (simp add: key_def c_def i_def group_key peer_kind_def agent_head_def
        conversation_key_def key_channel_def or_default_def)
  have ids: "list_all id_char ?a" "list_all id_char c" "list_all id_char ?k" "no_white i"
    using agent_id_shaped [of "Some (bk_agentId p)"] r
    by (simp_all add: id_shaped_def) (cases k; simp add: chat_type_string_def; code_simp)
  have k: "?k \<in> {''group'', ''channel''}" using assms(2) by (cases k) (simp_all add: chat_type_string_def)
  have "opaque_safe key c ?k i"
  proof (cases "isCasePreservingPeer (Some c) (Some ?k)")
    case True
    then consider (matrix) "c = ''matrix''" | (signal) "c = ''signal''" "k = ChatGroup"
      using case_preserving_channel [OF _ ids(2)] by blast
    then show ?thesis
    proof cases
      case matrix
      have "\<not> js_includes (js_toLowerCase key) '':thread:''" using r by (elim conjE)
      moreover have "c = ''matrix'' \<longrightarrow> \<not> js_includes (js_toLowerCase key) ''signal:group:''"
        using r by (elim conjE)
      ultimately show ?thesis using matrix unfolding opaque_safe_def by (intro disjI2 conjI) simp_all
    next
      case signal
      have "c = ''signal'' \<longrightarrow> no_colon i" using r by (elim conjE)
      with signal show ?thesis
        unfolding opaque_safe_def chat_type_string_def by (intro disjI2 disjI1 conjI) simp_all
    qed
  next
    case False
    then show ?thesis using group_peer_id_lower by (simp add: opaque_safe_def c_def i_def)
  qed
  then have safe: "opaque_safe (conversation_key ?a c ?k i) c ?k i" by (simp only: key)
  have ne: "i \<noteq> []" "?a \<noteq> []" "?k \<noteq> []"
    using group_peer_id_ne agent_id_shaped [of "Some (bk_agentId p)"] k
    by (auto simp: id_shaped_def i_def)
  show "canonical_session_key key = key"
    unfolding key by (rule canonical_conversation_key [OF ids]) (use r k safe ne in \<open>simp_all\<close>)
qed

text \<open>The session key of a group or channel conversation reads back as that conversation: its
  agent, its channel, its kind and its peer id, the last one with its case where the channel's
  ids are case-sensitive.\<close>

theorem group_key_reads_back:
  assumes "bk_peerKind p = Some k" "k \<noteq> ChatDirect" "key_readable p k"
  shows "map_option pk_agentId (parseAgentSessionKey (Some (buildAgentPeerSessionKey p))) =
      Some (normalizeAgentId (Some (bk_agentId p))) \<and>
    parseSessionDeliveryRoute (Some (buildAgentPeerSessionKey p)) =
      Some \<lparr>dr_accountId = None, dr_channel = bk_channel p, dr_peerId = group_peer_id p k,
        dr_peerKind = chat_type_string k, dr_threadId = None\<rparr>"
proof -
  let ?a = "normalizeAgentId (Some (bk_agentId p))" and ?i = "group_peer_id p k"
  note r = assms(3) [unfolded key_readable_def Let_def] and key = readable_key [OF assms]
  have k: "chat_type_string k \<in> {''group'', ''channel''}"
    using assms(2) by (cases k) (simp_all add: chat_type_string_def)
  have ids: "id_shaped ?a" "list_all id_char (bk_channel p)" "list_all id_char (chat_type_string k)" "no_white ?i"
    using agent_id_shaped r by simp_all (cases k; simp add: chat_type_string_def; code_simp)
  have parsed: "parseAgentSessionKey (Some (buildAgentPeerSessionKey p)) =
      Some \<lparr>pk_agentId = ?a, pk_rest = bk_channel p @ CHR '':'' # chat_type_string k @ CHR '':'' # ?i\<rparr>"
    using r k key(2) unfolding key(1) by (intro conversation_key_parsed [OF ids]) auto
  have "no_white (buildAgentPeerSessionKey p)" "buildAgentPeerSessionKey p \<noteq> []"
    using ids unfolding key(1) by (auto intro!: no_white_conversation simp: id_shaped_def)
      (simp add: conversation_key_def)
  with conversation_key_route [OF parsed] r k ids group_peer_id_ne [of p k] show ?thesis
    by (simp add: parsed)
qed

theorem group_key_reads_back_witness:
  "parseSessionDeliveryRoute (Some (buildAgentPeerSessionKey
      (example_peer ''matrix'' ChatGroup ''!RooM:x.org''))) =
     Some \<lparr>dr_accountId = None, dr_channel = ''matrix'', dr_peerId = ''!RooM:x.org'',
       dr_peerKind = ''group'', dr_threadId = None\<rparr>"
proof -
  let ?p = "example_peer ''matrix'' ChatGroup ''!RooM:x.org''"
  have "key_readable ?p ChatGroup" by code_simp
  moreover have "group_peer_id ?p ChatGroup = ''!RooM:x.org''" by code_simp
  ultimately show ?thesis
    using group_key_reads_back [of ?p ChatGroup] by (simp add: example_peer_def chat_type_string_def)
qed

end
