(* ===== verification/Route_Bindings.thy ===== *)
theory Route_Bindings
  imports Session_Key_Build
begin

text \<open>
  Route bindings: the configured rules that send a conversation to an agent
  (\<^verbatim>\<open>config/bindings.ts\<close>, \<^verbatim>\<open>routing/binding-scope.ts\<close>, \<^verbatim>\<open>routing/bindings.ts\<close>,
  \<^verbatim>\<open>routing/peer-kind-match.ts\<close> and the first half of \<^verbatim>\<open>routing/resolve-route.ts\<close>):
  the normalised match of a binding, the test of a match against the scope of a message,
  the bindings grouped by channel and account, and the index that replaces the linear
  search. The lemmas show that grouping, merging and indexing select from the source list
  exactly what a filter would, in source order.
\<close>

section \<open>Configuration\<close>

record AgentBindingMatch =
  bm_channel :: js_value
  bm_accountId :: "string option"
  bm_peer :: "(js_value \<times> js_value) option"
  bm_guildId :: js_value
  bm_teamId :: js_value
  bm_roles :: "string list option"

datatype BindingType = BindRoute | BindAcp

record AgentBinding =
  ab_type :: "BindingType option"
  ab_agentId :: string
  ab_match :: "AgentBindingMatch option"
  ab_dmScope :: "DmScope option"

definition normalizeBindingType :: "AgentBinding \<Rightarrow> BindingType" where
  "normalizeBindingType binding = (if ab_type binding = Some BindAcp then BindAcp else BindRoute)"

definition isRouteBinding :: "AgentBinding \<Rightarrow> bool" where
  "isRouteBinding binding \<longleftrightarrow> normalizeBindingType binding = BindRoute"

definition listConfiguredBindings :: "AgentBinding list option \<Rightarrow> AgentBinding list" where
  "listConfiguredBindings bindings = coalesce bindings []"

definition listRouteBindings :: "AgentBinding list option \<Rightarrow> AgentBinding list" where
  "listRouteBindings bindings = filter isRouteBinding (listConfiguredBindings bindings)"

definition isAcpBinding :: "AgentBinding \<Rightarrow> bool" where
  "isAcpBinding binding \<longleftrightarrow> normalizeBindingType binding = BindAcp"

definition listAcpBindings :: "AgentBinding list option \<Rightarrow> AgentBinding list" where
  "listAcpBindings bindings = filter isAcpBinding (listConfiguredBindings bindings)"

section \<open>Scopes\<close>

record RoutePeer =
  pe_kind :: ChatType
  pe_id :: string

datatype PeerConstraint =
  PeerNone | PeerInvalid | PeerWildcardKind ChatType | PeerValid ChatType string

record NormalizedBindingMatch =
  nm_accountPattern :: string
  nm_peer :: PeerConstraint
  nm_guildId :: "string option"
  nm_teamId :: "string option"
  nm_roles :: "string list option"

record BindingScope =
  sc_peer :: "RoutePeer option"
  sc_guildId :: string
  sc_teamId :: string
  sc_memberRoleIds :: "string list"

definition peerKindMatches :: "ChatType \<Rightarrow> ChatType \<Rightarrow> bool" where
  "peerKindMatches bindingKind scopeKind \<longleftrightarrow>
     bindingKind = scopeKind \<or>
     bindingKind = ChatGroup \<and> scopeKind = ChatChannel \<or>
     bindingKind = ChatChannel \<and> scopeKind = ChatGroup"

definition normalizeRouteBindingId :: "js_value \<Rightarrow> string" where
  "normalizeRouteBindingId v =
     (case v of JString s \<Rightarrow> js_trim s | JNumber i \<Rightarrow> js_trim (js_string_of_int i) | _ \<Rightarrow> [])"

definition normalizeRouteBindingRoles :: "string list option \<Rightarrow> string list option" where
  "normalizeRouteBindingRoles roles =
     (case roles of Some (r # rs) \<Rightarrow> Some (r # rs) | _ \<Rightarrow> None)"

text \<open>An empty constraint counts as absent.\<close>

definition scopeIdMatches :: "string option \<Rightarrow> string \<Rightarrow> string \<Rightarrow> bool" where
  "scopeIdMatches constraint exact groupSpace \<longleftrightarrow>
     (case nonempty_string constraint of
        None \<Rightarrow> True | Some c \<Rightarrow> c = exact \<or> c = groupSpace)"

definition hasAnyRouteBindingRole :: "string list \<Rightarrow> string list option \<Rightarrow> bool" where
  "hasAnyRouteBindingRole roles memberRoleIds \<longleftrightarrow>
     (case memberRoleIds of
        None \<Rightarrow> False | Some ids \<Rightarrow> list_ex (\<lambda>role. role \<in> set ids) roles)"

definition routeBindingScopeMatches ::
  "string option \<Rightarrow> string option \<Rightarrow> string list option \<Rightarrow> js_value \<Rightarrow> js_value \<Rightarrow> js_value \<Rightarrow>
     string list option \<Rightarrow> bool" where
  "routeBindingScopeMatches c_guildId c_teamId c_roles s_guildId s_teamId s_groupSpace s_roles \<longleftrightarrow>
     (let guildId = normalizeRouteBindingId s_guildId;
          teamId = normalizeRouteBindingId s_teamId;
          groupSpace = normalizeRouteBindingId s_groupSpace
      in if \<not> scopeIdMatches c_guildId guildId groupSpace then False
         else if \<not> scopeIdMatches c_teamId teamId groupSpace then False
         else (case normalizeRouteBindingRoles c_roles of
             None \<Rightarrow> True | Some roles \<Rightarrow> hasAnyRouteBindingRole roles s_roles))"

definition matchesBindingScope :: "NormalizedBindingMatch \<Rightarrow> BindingScope \<Rightarrow> bool" where
  "matchesBindingScope m scope \<longleftrightarrow>
     (case nm_peer m of
        PeerInvalid \<Rightarrow> False
      | PeerValid kind peerId \<Rightarrow>
          (case sc_peer scope of
             None \<Rightarrow> False | Some peer \<Rightarrow> peerKindMatches kind (pe_kind peer) \<and> pe_id peer = peerId)
      | PeerWildcardKind kind \<Rightarrow>
          (case sc_peer scope of None \<Rightarrow> False | Some peer \<Rightarrow> peerKindMatches kind (pe_kind peer))
      | PeerNone \<Rightarrow> True) \<and>
     routeBindingScopeMatches (nm_guildId m) (nm_teamId m) (nm_roles m)
       (JString (sc_guildId scope)) (JString (sc_teamId scope)) JUndefined
       (Some (sc_memberRoleIds scope))"

section \<open>Evaluated bindings\<close>

record EvaluatedBinding =
  eb_binding :: AgentBinding
  eb_match :: NormalizedBindingMatch
  eb_order :: nat

definition normalizePeerConstraint :: "(js_value \<times> js_value) option \<Rightarrow> PeerConstraint" where
  "normalizePeerConstraint peer =
     (case peer of
        None \<Rightarrow> PeerNone
      | Some (rawKind, rawId) \<Rightarrow>
          let peerId = normalizeRouteBindingId rawId
          in (case normalizeChatType rawKind of
                None \<Rightarrow> PeerInvalid
              | Some kind \<Rightarrow>
                  if peerId = [] then PeerInvalid
                  else if peerId = ''*'' then PeerWildcardKind kind
                  else PeerValid kind peerId))"

definition normalizeBindingMatch :: "AgentBindingMatch option \<Rightarrow> NormalizedBindingMatch" where
  "normalizeBindingMatch m =
     \<lparr>nm_accountPattern = js_trim (coalesce (Option.bind m bm_accountId) []),
      nm_peer = normalizePeerConstraint (Option.bind m bm_peer),
      nm_guildId = nonempty_string (map_option (\<lambda>m. normalizeRouteBindingId (bm_guildId m)) m),
      nm_teamId = nonempty_string (map_option (\<lambda>m. normalizeRouteBindingId (bm_teamId m)) m),
      nm_roles = normalizeRouteBindingRoles (Option.bind m bm_roles)\<rparr>"

definition resolveAccountPatternKey :: "string \<Rightarrow> string" where
  "resolveAccountPatternKey accountPattern =
     (if js_trim accountPattern = [] then DEFAULT_ACCOUNT_ID
      else normalizeAccountId (Some accountPattern))"

definition binding_channel :: "AgentBinding \<Rightarrow> string" where
  "binding_channel binding = (case ab_match binding of
     None \<Rightarrow> [] | Some m \<Rightarrow> normalizeLowercaseStringOrEmpty (bm_channel m))"

record EvaluatedBindingsByChannel =
  ec_byAccount :: "(string, EvaluatedBinding list) jsmap"
  ec_byAnyAccount :: "EvaluatedBinding list"

definition push_map :: "'k \<Rightarrow> 'v \<Rightarrow> ('k, 'v list) jsmap \<Rightarrow> ('k, 'v list) jsmap" where
  "push_map k v m = map_put k (coalesce (map_get m k) [] @ [v]) m"

definition group_binding ::
  "string \<Rightarrow> EvaluatedBinding \<Rightarrow> (string, EvaluatedBindingsByChannel) jsmap \<Rightarrow>
     (string, EvaluatedBindingsByChannel) jsmap" where
  "group_binding channel evaluated byChannel =
     (let bucket = coalesce (map_get byChannel channel) \<lparr>ec_byAccount = [], ec_byAnyAccount = []\<rparr>;
          pat = nm_accountPattern (eb_match evaluated);
          bucket = (if pat = ''*''
            then bucket\<lparr>ec_byAnyAccount := ec_byAnyAccount bucket @ [evaluated]\<rparr>
            else bucket\<lparr>ec_byAccount :=
              push_map (resolveAccountPatternKey pat) evaluated (ec_byAccount bucket)\<rparr>)
      in map_put channel bucket byChannel)"

text \<open>The loop over the configured bindings: the next order and what is already grouped.\<close>

fun group_bindings ::
  "AgentBinding list \<Rightarrow> nat \<Rightarrow> (string, EvaluatedBindingsByChannel) jsmap \<Rightarrow>
     (string, EvaluatedBindingsByChannel) jsmap" where
  "group_bindings [] order byChannel = byChannel"
| "group_bindings (binding # bindings) order byChannel =
     (let channel = binding_channel binding
      in if channel = [] then group_bindings bindings order byChannel
         else group_bindings bindings (order + 1) (group_binding channel
           \<lparr>eb_binding = binding, eb_match = normalizeBindingMatch (ab_match binding),
            eb_order = order\<rparr> byChannel))"

definition buildEvaluatedBindingsByChannel ::
  "AgentBinding list option \<Rightarrow> (string, EvaluatedBindingsByChannel) jsmap" where
  "buildEvaluatedBindingsByChannel bindings = group_bindings (listRouteBindings bindings) 0 []"

fun merge_loop :: "EvaluatedBinding list \<Rightarrow> EvaluatedBinding list \<Rightarrow> EvaluatedBinding list" where
  "merge_loop [] anyAccount = anyAccount"
| "merge_loop accountScoped [] = accountScoped"
| "merge_loop (a # accountScoped) (b # anyAccount) =
     (if eb_order a \<le> eb_order b then a # merge_loop accountScoped (b # anyAccount)
      else b # merge_loop (a # accountScoped) anyAccount)"

definition mergeEvaluatedBindingsInSourceOrder ::
  "EvaluatedBinding list \<Rightarrow> EvaluatedBinding list \<Rightarrow> EvaluatedBinding list" where
  "mergeEvaluatedBindingsInSourceOrder accountScoped anyAccount =
     (if accountScoped = [] then anyAccount
      else if anyAccount = [] then accountScoped
      else merge_loop accountScoped anyAccount)"

definition evaluated_for ::
  "(string, EvaluatedBindingsByChannel) jsmap \<Rightarrow> string \<Rightarrow> string \<Rightarrow> EvaluatedBinding list" where
  "evaluated_for byChannel channel accountId =
     (let channelBindings = map_get byChannel channel;
          accountScoped = coalesce
            (Option.bind channelBindings (\<lambda>b. map_get (ec_byAccount b) accountId)) [];
          anyAccount = coalesce (map_option ec_byAnyAccount channelBindings) []
      in mergeEvaluatedBindingsInSourceOrder accountScoped anyAccount)"

section \<open>The index\<close>

record EvaluatedBindingsIndex =
  ix_byPeer :: "(string, EvaluatedBinding list) jsmap"
  ix_byPeerWildcard :: "EvaluatedBinding list"
  ix_byGuildWithRoles :: "(string, EvaluatedBinding list) jsmap"
  ix_byGuild :: "(string, EvaluatedBinding list) jsmap"
  ix_byTeam :: "(string, EvaluatedBinding list) jsmap"
  ix_byAccount :: "EvaluatedBinding list"
  ix_byChannel :: "EvaluatedBinding list"

definition pushToIndexMap ::
  "(string, EvaluatedBinding list) jsmap \<Rightarrow> string option \<Rightarrow> EvaluatedBinding \<Rightarrow>
     (string, EvaluatedBinding list) jsmap" where
  "pushToIndexMap m key binding =
     (case nonempty_string key of None \<Rightarrow> m | Some k \<Rightarrow> push_map k binding m)"

definition peerLookupKeys :: "ChatType \<Rightarrow> string \<Rightarrow> string list" where
  "peerLookupKeys kind peerId =
     (case kind of
        ChatGroup \<Rightarrow> [''group:'' @ peerId, ''channel:'' @ peerId]
      | ChatChannel \<Rightarrow> [''channel:'' @ peerId, ''group:'' @ peerId]
      | ChatDirect \<Rightarrow> [''direct:'' @ peerId])"

definition index_binding ::
  "EvaluatedBindingsIndex \<Rightarrow> EvaluatedBinding \<Rightarrow> EvaluatedBindingsIndex" where
  "index_binding ix binding =
     (let m = eb_match binding
      in case nm_peer m of
           PeerValid kind peerId \<Rightarrow>
             ix\<lparr>ix_byPeer := foldl (\<lambda>byPeer key. pushToIndexMap byPeer (Some key) binding)
               (ix_byPeer ix) (peerLookupKeys kind peerId)\<rparr>
         | PeerWildcardKind kind \<Rightarrow>
             ix\<lparr>ix_byPeerWildcard := ix_byPeerWildcard ix @ [binding]\<rparr>
         | _ \<Rightarrow>
             if nonempty_string (nm_guildId m) \<noteq> None \<and> nm_roles m \<noteq> None then
               ix\<lparr>ix_byGuildWithRoles :=
                 pushToIndexMap (ix_byGuildWithRoles ix) (nm_guildId m) binding\<rparr>
             else if nonempty_string (nm_guildId m) \<noteq> None \<and> nm_roles m = None then
               ix\<lparr>ix_byGuild := pushToIndexMap (ix_byGuild ix) (nm_guildId m) binding\<rparr>
             else if nonempty_string (nm_teamId m) \<noteq> None then
               ix\<lparr>ix_byTeam := pushToIndexMap (ix_byTeam ix) (nm_teamId m) binding\<rparr>
             else if nm_accountPattern m \<noteq> ''*'' then
               ix\<lparr>ix_byAccount := ix_byAccount ix @ [binding]\<rparr>
             else ix\<lparr>ix_byChannel := ix_byChannel ix @ [binding]\<rparr>)"

definition empty_index :: EvaluatedBindingsIndex where
  "empty_index = \<lparr>ix_byPeer = [], ix_byPeerWildcard = [], ix_byGuildWithRoles = [],
     ix_byGuild = [], ix_byTeam = [], ix_byAccount = [], ix_byChannel = []\<rparr>"

definition buildEvaluatedBindingsIndex :: "EvaluatedBinding list \<Rightarrow> EvaluatedBindingsIndex" where
  "buildEvaluatedBindingsIndex bindings = foldl index_binding empty_index bindings"

text \<open>The evaluated bindings are distinct objects; their orders differ, so equality of records
  is the identity that the \<^verbatim>\<open>Set\<close> of seen bindings tests.\<close>

definition collectPeerIndexedBindings ::
  "EvaluatedBindingsIndex \<Rightarrow> RoutePeer option \<Rightarrow> EvaluatedBinding list" where
  "collectPeerIndexedBindings ix peer =
     (case peer of
        None \<Rightarrow> []
      | Some peer \<Rightarrow>
          foldl set_add []
            (concat (map (\<lambda>key. coalesce (map_get (ix_byPeer ix) key) [])
              (peerLookupKeys (pe_kind peer) (pe_id peer)))))"

section \<open>Grouping and merging are a filter\<close>

text \<open>The reference: the bindings with a channel in source order, each with its order.\<close>

fun evaluate_all :: "AgentBinding list \<Rightarrow> nat \<Rightarrow> EvaluatedBinding list" where
  "evaluate_all [] n = []"
| "evaluate_all (b # bs) n =
     (if binding_channel b = [] then evaluate_all bs n
      else \<lparr>eb_binding = b, eb_match = normalizeBindingMatch (ab_match b), eb_order = n\<rparr> #
        evaluate_all bs (n + 1))"

definition any_account :: "string \<Rightarrow> EvaluatedBinding \<Rightarrow> bool" where
  "any_account channel e \<longleftrightarrow>
     binding_channel (eb_binding e) = channel \<and> nm_accountPattern (eb_match e) = ''*''"

definition for_account :: "string \<Rightarrow> string \<Rightarrow> EvaluatedBinding \<Rightarrow> bool" where
  "for_account channel accountId e \<longleftrightarrow>
     binding_channel (eb_binding e) = channel \<and> nm_accountPattern (eb_match e) \<noteq> ''*'' \<and>
     resolveAccountPatternKey (nm_accountPattern (eb_match e)) = accountId"

definition applies_to :: "string \<Rightarrow> string \<Rightarrow> EvaluatedBinding \<Rightarrow> bool" where
  "applies_to channel accountId e \<longleftrightarrow> for_account channel accountId e \<or> any_account channel e"

definition grouped_account ::
  "(string, EvaluatedBindingsByChannel) jsmap \<Rightarrow> string \<Rightarrow> string \<Rightarrow> EvaluatedBinding list" where
  "grouped_account byChannel channel accountId =
     coalesce (Option.bind (map_get byChannel channel) (\<lambda>b. map_get (ec_byAccount b) accountId)) []"

definition grouped_any ::
  "(string, EvaluatedBindingsByChannel) jsmap \<Rightarrow> string \<Rightarrow> EvaluatedBinding list" where
  "grouped_any byChannel channel = coalesce (map_option ec_byAnyAccount (map_get byChannel channel)) []"

lemma get_push_map [simp]:
  "coalesce (map_get (push_map k v m) j) [] =
     coalesce (map_get m j) [] @ (if j = k then [v] else [])"
  by (auto simp: push_map_def)

lemma grouped_account_step:
  "grouped_account (group_binding (binding_channel (eb_binding e)) e byC) c a =
     grouped_account byC c a @ filter (for_account c a) [e]"
  by (cases "map_get byC (binding_channel (eb_binding e))")
    (auto simp: grouped_account_def group_binding_def for_account_def Let_def)

lemma grouped_any_step:
  "grouped_any (group_binding (binding_channel (eb_binding e)) e byC) c =
     grouped_any byC c @ filter (any_account c) [e]"
  by (cases "map_get byC (binding_channel (eb_binding e))")
    (auto simp: grouped_any_def group_binding_def any_account_def Let_def)

lemma group_bindings_filter:
  "grouped_account (group_bindings bs n byC) c a =
     grouped_account byC c a @ filter (for_account c a) (evaluate_all bs n)"
  "grouped_any (group_bindings bs n byC) c =
     grouped_any byC c @ filter (any_account c) (evaluate_all bs n)"
proof (induction bs arbitrary: n byC)
  case (Cons b bs)
  let ?e = "\<lambda>n. \<lparr>eb_binding = b, eb_match = normalizeBindingMatch (ab_match b), eb_order = n\<rparr>"
  have binding: "eb_binding (?e n) = b" for n by simp
  note steps = grouped_account_step [of "?e n" for n, unfolded binding]
    grouped_any_step [of "?e n" for n, unfolded binding]
  case 1
  show ?case by (simp add: Cons.IH steps Let_def)
  case 2
  show ?case by (simp add: Cons.IH steps Let_def)
qed simp_all

lemma evaluate_all_orders: "e \<in> set (evaluate_all bs n) \<Longrightarrow> n \<le> eb_order e"
  by (induction bs n rule: evaluate_all.induct) (auto split: if_splits)

lemma evaluate_all_sorted: "sorted_wrt (\<lambda>a b. eb_order a < eb_order b) (evaluate_all bs n)"
  by (induction bs n rule: evaluate_all.induct) (auto dest: evaluate_all_orders)

lemma evaluate_all_match:
  "e \<in> set (evaluate_all bs n) \<Longrightarrow>
     eb_binding e \<in> set bs \<and> eb_match e = normalizeBindingMatch (ab_match (eb_binding e))"
  by (induction bs n rule: evaluate_all.induct) (auto split: if_splits)

lemma merge_loop_Nil [simp]: "merge_loop xs [] = xs"
  by (cases xs) simp_all

lemma merge_loop_filter:
  assumes "sorted_wrt (\<lambda>a b. eb_order a < eb_order b) es" "\<And>e. \<not> (P e \<and> Q e)"
  shows "merge_loop (filter P es) (filter Q es) = filter (\<lambda>e. P e \<or> Q e) es"
  using assms(1)
proof (induction es)
  case (Cons e es)
  then have IH: "merge_loop (filter P es) (filter Q es) = filter (\<lambda>e. P e \<or> Q e) es"
    and less: "\<And>x. x \<in> set es \<Longrightarrow> eb_order e < eb_order x" by simp_all
  have first: "merge_loop (e # xs) (filter Q es) = e # merge_loop xs (filter Q es)" for xs
    by (cases "filter Q es") (use less in \<open>auto dest!: filter_eq_ConsD simp: less_imp_le\<close>)
  have second: "merge_loop (filter P es) (e # ys) = e # merge_loop (filter P es) ys" for ys
  proof (cases "filter P es")
    case (Cons x xs)
    then have "x \<in> set es" by (auto dest!: filter_eq_ConsD)
    then show ?thesis using less [of x] Cons by simp
  qed simp
  show ?case using assms(2) [of e] first second IH by auto
qed simp

lemma merge_eq_loop: "mergeEvaluatedBindingsInSourceOrder xs ys = merge_loop xs ys"
  by (simp add: mergeEvaluatedBindingsInSourceOrder_def)

lemma evaluated_for_filter:
  "evaluated_for (buildEvaluatedBindingsByChannel bindings) channel accountId =
     filter (applies_to channel accountId) (evaluate_all (listRouteBindings bindings) 0)"
proof -
  let ?es = "evaluate_all (listRouteBindings bindings) 0"
  let ?g = "buildEvaluatedBindingsByChannel bindings"
  have "evaluated_for ?g channel accountId =
      merge_loop (grouped_account ?g channel accountId) (grouped_any ?g channel)"
    by (simp add: evaluated_for_def grouped_account_def grouped_any_def merge_eq_loop Let_def)
  also have "\<dots> = merge_loop (filter (for_account channel accountId) ?es) (filter (any_account channel) ?es)"
    by (simp add: buildEvaluatedBindingsByChannel_def group_bindings_filter)
      (simp add: grouped_account_def grouped_any_def)
  also have "\<dots> = filter (\<lambda>e. for_account channel accountId e \<or> any_account channel e) ?es"
    by (rule merge_loop_filter [OF evaluate_all_sorted]) (simp add: for_account_def any_account_def)
  finally show ?thesis by (simp add: applies_to_def [abs_def])
qed

section \<open>Indexing is a filter\<close>

definition valid_peer :: "EvaluatedBinding \<Rightarrow> bool" where
  "valid_peer e \<longleftrightarrow> (case nm_peer (eb_match e) of PeerValid _ _ \<Rightarrow> True | _ \<Rightarrow> False)"

definition wildcard_peer :: "EvaluatedBinding \<Rightarrow> bool" where
  "wildcard_peer e \<longleftrightarrow> (case nm_peer (eb_match e) of PeerWildcardKind _ \<Rightarrow> True | _ \<Rightarrow> False)"

definition guild_of :: "EvaluatedBinding \<Rightarrow> string option" where
  "guild_of e = nonempty_string (nm_guildId (eb_match e))"

definition team_of :: "EvaluatedBinding \<Rightarrow> string option" where
  "team_of e = nonempty_string (nm_teamId (eb_match e))"

text \<open>The slot of the index that a binding goes to.\<close>

datatype IndexSlot =
  SlotPeer | SlotWildcard | SlotGuildRoles | SlotGuild | SlotTeam | SlotAccount | SlotChannel

definition slot_of :: "EvaluatedBinding \<Rightarrow> IndexSlot" where
  "slot_of e =
     (if valid_peer e then SlotPeer
      else if wildcard_peer e then SlotWildcard
      else if guild_of e \<noteq> None then (if nm_roles (eb_match e) \<noteq> None then SlotGuildRoles else SlotGuild)
      else if team_of e \<noteq> None then SlotTeam
      else if nm_accountPattern (eb_match e) \<noteq> ''*'' then SlotAccount
      else SlotChannel)"

definition has_key :: "string \<Rightarrow> EvaluatedBinding \<Rightarrow> bool" where
  "has_key key e \<longleftrightarrow>
     (case nm_peer (eb_match e) of
        PeerValid kind peerId \<Rightarrow> key \<in> set (peerLookupKeys kind peerId) | _ \<Rightarrow> False)"

abbreviation bucket :: "('k, 'v list) jsmap \<Rightarrow> 'k \<Rightarrow> 'v list" where
  "bucket m k \<equiv> coalesce (map_get m k) []"

lemma bucket_push [simp]:
  "bucket (pushToIndexMap m key e) k =
     bucket m k @ (if nonempty_string key = Some k then [e] else [])"
  by (cases key) (auto simp: pushToIndexMap_def nonempty_string_def)

lemma foldl_push_keys:
  "distinct keys \<Longrightarrow> [] \<notin> set keys \<Longrightarrow>
     bucket (foldl (\<lambda>byPeer key. pushToIndexMap byPeer (Some key) e) m keys) k =
     bucket m k @ (if k \<in> set keys then [e] else [])"
  by (induction keys arbitrary: m) auto

lemma peerLookupKeys_ok [simp]: "distinct (peerLookupKeys kind i)" "[] \<notin> set (peerLookupKeys kind i)"
  by (cases kind; simp add: peerLookupKeys_def)+

lemma slot_iffs:
  "slot_of e = SlotPeer \<longleftrightarrow> valid_peer e"
  "slot_of e = SlotWildcard \<longleftrightarrow> \<not> valid_peer e \<and> wildcard_peer e"
  by (auto simp: slot_of_def split: if_splits)

lemma has_key_valid: "has_key k e \<Longrightarrow> valid_peer e"
  by (auto simp: has_key_def valid_peer_def split: PeerConstraint.splits)

lemma index_binding_slot:
  "index_binding ix e =
     (case slot_of e of
        SlotPeer \<Rightarrow> ix\<lparr>ix_byPeer := ix_byPeer (index_binding ix e)\<rparr>
      | SlotWildcard \<Rightarrow> ix\<lparr>ix_byPeerWildcard := ix_byPeerWildcard ix @ [e]\<rparr>
      | SlotGuildRoles \<Rightarrow>
          ix\<lparr>ix_byGuildWithRoles := pushToIndexMap (ix_byGuildWithRoles ix) (nm_guildId (eb_match e)) e\<rparr>
      | SlotGuild \<Rightarrow> ix\<lparr>ix_byGuild := pushToIndexMap (ix_byGuild ix) (nm_guildId (eb_match e)) e\<rparr>
      | SlotTeam \<Rightarrow> ix\<lparr>ix_byTeam := pushToIndexMap (ix_byTeam ix) (nm_teamId (eb_match e)) e\<rparr>
      | SlotAccount \<Rightarrow> ix\<lparr>ix_byAccount := ix_byAccount ix @ [e]\<rparr>
      | SlotChannel \<Rightarrow> ix\<lparr>ix_byChannel := ix_byChannel ix @ [e]\<rparr>)"
  by (cases "nm_peer (eb_match e)"; cases "nonempty_string (nm_guildId (eb_match e))";
      cases "nm_roles (eb_match e)"; cases "nonempty_string (nm_teamId (eb_match e))")
    (simp_all add: index_binding_def slot_of_def valid_peer_def wildcard_peer_def guild_of_def
      team_of_def Let_def del: nonempty_string_Some)

lemma bucket_byPeer:
  "bucket (ix_byPeer (index_binding ix e)) k = bucket (ix_byPeer ix) k @ filter (has_key k) [e]"
proof (cases "valid_peer e")
  case True
  then obtain kind i where m: "nm_peer (eb_match e) = PeerValid kind i"
    by (auto simp: valid_peer_def split: PeerConstraint.splits)
  show ?thesis by (simp add: index_binding_def m has_key_def foldl_push_keys)
next
  case False
  then have "ix_byPeer (index_binding ix e) = ix_byPeer ix"
    by (subst index_binding_slot) (simp add: slot_iffs split: IndexSlot.split)
  with False show ?thesis using has_key_valid by auto
qed

lemma index_binding_slots:
  "ix_byPeerWildcard (index_binding ix e) =
     ix_byPeerWildcard ix @ filter (\<lambda>e. slot_of e = SlotWildcard) [e]"
  "bucket (ix_byGuildWithRoles (index_binding ix e)) k = bucket (ix_byGuildWithRoles ix) k @
     filter (\<lambda>e. slot_of e = SlotGuildRoles \<and> guild_of e = Some k) [e]"
  "bucket (ix_byGuild (index_binding ix e)) k = bucket (ix_byGuild ix) k @
     filter (\<lambda>e. slot_of e = SlotGuild \<and> guild_of e = Some k) [e]"
  "bucket (ix_byTeam (index_binding ix e)) k = bucket (ix_byTeam ix) k @
     filter (\<lambda>e. slot_of e = SlotTeam \<and> team_of e = Some k) [e]"
  "ix_byAccount (index_binding ix e) = ix_byAccount ix @ filter (\<lambda>e. slot_of e = SlotAccount) [e]"
  "ix_byChannel (index_binding ix e) = ix_byChannel ix @ filter (\<lambda>e. slot_of e = SlotChannel) [e]"
  by (subst index_binding_slot; cases "slot_of e"; simp add: guild_of_def team_of_def)+

lemma build_index_filter:
  "bucket (ix_byPeer (buildEvaluatedBindingsIndex es)) k = filter (has_key k) es"
  "ix_byPeerWildcard (buildEvaluatedBindingsIndex es) = filter (\<lambda>e. slot_of e = SlotWildcard) es"
  "bucket (ix_byGuildWithRoles (buildEvaluatedBindingsIndex es)) k =
     filter (\<lambda>e. slot_of e = SlotGuildRoles \<and> guild_of e = Some k) es"
  "bucket (ix_byGuild (buildEvaluatedBindingsIndex es)) k =
     filter (\<lambda>e. slot_of e = SlotGuild \<and> guild_of e = Some k) es"
  "bucket (ix_byTeam (buildEvaluatedBindingsIndex es)) k =
     filter (\<lambda>e. slot_of e = SlotTeam \<and> team_of e = Some k) es"
  "ix_byAccount (buildEvaluatedBindingsIndex es) = filter (\<lambda>e. slot_of e = SlotAccount) es"
  "ix_byChannel (buildEvaluatedBindingsIndex es) = filter (\<lambda>e. slot_of e = SlotChannel) es"
proof -
  have fold: "f (foldl index_binding ix es) = f ix @ filter P es"
    if "\<And>ix e. f (index_binding ix e) = f ix @ filter P [e]" for f :: "EvaluatedBindingsIndex \<Rightarrow> _" and P ix
    using that by (induction es arbitrary: ix) auto
  show "bucket (ix_byPeer (buildEvaluatedBindingsIndex es)) k = filter (has_key k) es"
    unfolding buildEvaluatedBindingsIndex_def
    by (subst fold [of "\<lambda>ix. bucket (ix_byPeer ix) k", OF bucket_byPeer]) (simp add: empty_index_def)
  show "ix_byPeerWildcard (buildEvaluatedBindingsIndex es) = filter (\<lambda>e. slot_of e = SlotWildcard) es"
    "ix_byAccount (buildEvaluatedBindingsIndex es) = filter (\<lambda>e. slot_of e = SlotAccount) es"
    "ix_byChannel (buildEvaluatedBindingsIndex es) = filter (\<lambda>e. slot_of e = SlotChannel) es"
    unfolding buildEvaluatedBindingsIndex_def
    by (simp_all add: fold [OF index_binding_slots(1)] fold [OF index_binding_slots(5)]
        fold [OF index_binding_slots(6)]) (simp_all add: empty_index_def)
  show "bucket (ix_byGuildWithRoles (buildEvaluatedBindingsIndex es)) k =
      filter (\<lambda>e. slot_of e = SlotGuildRoles \<and> guild_of e = Some k) es"
    unfolding buildEvaluatedBindingsIndex_def
    by (subst fold [of "\<lambda>ix. bucket (ix_byGuildWithRoles ix) k", OF index_binding_slots(2)])
      (simp add: empty_index_def)
  show "bucket (ix_byGuild (buildEvaluatedBindingsIndex es)) k =
      filter (\<lambda>e. slot_of e = SlotGuild \<and> guild_of e = Some k) es"
    unfolding buildEvaluatedBindingsIndex_def
    by (subst fold [of "\<lambda>ix. bucket (ix_byGuild ix) k", OF index_binding_slots(3)])
      (simp add: empty_index_def)
  show "bucket (ix_byTeam (buildEvaluatedBindingsIndex es)) k =
      filter (\<lambda>e. slot_of e = SlotTeam \<and> team_of e = Some k) es"
    unfolding buildEvaluatedBindingsIndex_def
    by (subst fold [of "\<lambda>ix. bucket (ix_byTeam ix) k", OF index_binding_slots(4)])
      (simp add: empty_index_def)
qed

section \<open>Bindings of a peer\<close>

definition peer_matches :: "RoutePeer \<Rightarrow> EvaluatedBinding \<Rightarrow> bool" where
  "peer_matches peer e \<longleftrightarrow>
     (case nm_peer (eb_match e) of
        PeerValid kind peerId \<Rightarrow> peerId = pe_id peer \<and> peerKindMatches kind (pe_kind peer)
      | _ \<Rightarrow> False)"

lemma has_key_peer:
  "key \<in> set (peerLookupKeys (pe_kind peer) (pe_id peer)) \<Longrightarrow> has_key key e = peer_matches peer e"
  by (cases "pe_kind peer"; cases "nm_peer (eb_match e)")
    (auto simp: has_key_def peer_matches_def peerLookupKeys_def peerKindMatches_def
      split: ChatType.splits)

lemma foldl_set_add_twice: "distinct xs \<Longrightarrow> foldl set_add [] (xs @ xs) = xs"
proof -
  assume "distinct xs"
  then have "foldl set_add [] xs = xs" by (simp add: foldl_set_add_distinct)
  moreover have "set ys \<subseteq> set acc \<Longrightarrow> foldl set_add acc ys = acc" for acc ys :: "'a list"
    by (induction ys) (auto simp: set_add_def)
  ultimately show ?thesis by simp
qed

lemma collectPeer_filter:
  assumes "distinct es"
  shows "collectPeerIndexedBindings (buildEvaluatedBindingsIndex es) (Some peer) =
    filter (peer_matches peer) es"
proof -
  have keys: "map (\<lambda>key. bucket (ix_byPeer (buildEvaluatedBindingsIndex es)) key)
      (peerLookupKeys (pe_kind peer) (pe_id peer)) =
    map (\<lambda>key. filter (peer_matches peer) es) (peerLookupKeys (pe_kind peer) (pe_id peer))"
  proof (rule map_cong [OF refl])
    fix key assume "key \<in> set (peerLookupKeys (pe_kind peer) (pe_id peer))"
    then have "has_key key = peer_matches peer" by (intro ext has_key_peer)
    then show "bucket (ix_byPeer (buildEvaluatedBindingsIndex es)) key = filter (peer_matches peer) es"
      by (simp add: build_index_filter)
  qed
  have d: "distinct (filter (peer_matches peer) es)" using assms by simp
  show ?thesis
    unfolding collectPeerIndexedBindings_def option.case keys
    by (cases "pe_kind peer") (simp_all add: peerLookupKeys_def foldl_set_add_twice [OF d]
        foldl_set_add_distinct [OF d] del: foldl_append)
qed

end
