(* ===== verification/Route_Resolution.thy ===== *)
theory Route_Resolution
  imports Route_Bindings
begin

text \<open>
  Which agent and session an inbound message goes to: \<^verbatim>\<open>routing/resolve-route.ts\<close>.
  A message is matched against the bindings of its channel and account tier by tier, the
  bindings being looked up in an index; the chosen agent is checked against the configured
  ones and the session key is built. Three caches belong to a configuration object; they are
  one state here. Configuration values carry the identity of the object that holds them,
  because the caches compare references.

  The theorems: the indexed search finds what a linear search over the configured list
  finds, the chosen agent is always a configured one, and the caches change no route as long
  as the parts of a message do not contain the separators of the cache key.
\<close>

section \<open>Configuration and messages\<close>

record AgentEntry =
  ae_id :: "string option"
  ae_default :: bool

record SessionConfig =
  ss_dmScope :: "DmScope option"
  ss_mainKey :: "string option"
  ss_identityLinks :: "identity_links option"

text \<open>A value with the identity of its object; \<^verbatim>\<open>undefined\<close> has an identity of its own.\<close>

record 'a js_object =
  ob_ref :: nat
  ob_val :: 'a

record OpenClawConfig =
  cf_bindings :: "AgentBinding list option js_object"
  cf_agents :: "AgentEntry list option js_object"
  cf_session :: "SessionConfig option js_object"

record ResolveAgentRouteInput =
  ri_channel :: js_value
  ri_accountId :: "string option"
  ri_peer :: "(ChatType \<times> js_value) option"
  ri_parentPeer :: "(ChatType \<times> js_value) option"
  ri_guildId :: js_value
  ri_teamId :: js_value
  ri_memberRoleIds :: "string list option"

datatype MatchedBy =
  ByPeer | ByPeerParent | ByPeerWildcard | ByGuildRoles | ByGuild | ByTeam | ByAccount |
  ByChannel | ByDefault

datatype LastRoutePolicy = LastMain | LastSession

record ResolvedAgentRoute =
  ar_agentId :: string
  ar_channel :: string
  ar_accountId :: string
  ar_dmScope :: DmScope
  ar_sessionKey :: string
  ar_mainSessionKey :: string
  ar_lastRoutePolicy :: LastRoutePolicy
  ar_matchedBy :: MatchedBy

section \<open>Agents\<close>

definition listAgentEntries :: "OpenClawConfig \<Rightarrow> AgentEntry list" where
  "listAgentEntries cfg = coalesce (ob_val (cf_agents cfg)) []"

definition resolveDefaultAgentId :: "OpenClawConfig \<Rightarrow> string" where
  "resolveDefaultAgentId cfg =
     (let agents = listAgentEntries cfg; defaults = filter ae_default agents
      in if length agents = 0 then DEFAULT_AGENT_ID
         else
           let chosen = map_option js_trim (ae_id (if defaults = [] then hd agents else hd defaults))
           in normalizeAgentId (Some (coalesce (nonempty_string chosen) DEFAULT_AGENT_ID)))"

record AgentLookupCache =
  al_agentsRef :: nat
  al_byNormalizedId :: "(string, string) jsmap"
  al_fallbackDefaultAgentId :: string

fun agents_by_id :: "AgentEntry list \<Rightarrow> (string, string) jsmap \<Rightarrow> (string, string) jsmap" where
  "agents_by_id [] m = m"
| "agents_by_id (agent # agents) m =
     (case nonempty_string (map_option js_trim (ae_id agent)) of
        None \<Rightarrow> agents_by_id agents m
      | Some rawId \<Rightarrow>
          agents_by_id agents (map_put (normalizeAgentId (Some rawId)) (sanitizeAgentId (Some rawId)) m))"

definition agent_lookup :: "OpenClawConfig \<Rightarrow> AgentLookupCache" where
  "agent_lookup cfg =
     \<lparr>al_agentsRef = ob_ref (cf_agents cfg),
      al_byNormalizedId = agents_by_id (listAgentEntries cfg) [],
      al_fallbackDefaultAgentId = sanitizeAgentId (Some (resolveDefaultAgentId cfg))\<rparr>"

definition resolveAgentLookupCache ::
  "OpenClawConfig \<Rightarrow> AgentLookupCache option \<Rightarrow> AgentLookupCache" where
  "resolveAgentLookupCache cfg existing =
     (case existing of
        Some cache \<Rightarrow> if al_agentsRef cache = ob_ref (cf_agents cfg) then cache else agent_lookup cfg
      | None \<Rightarrow> agent_lookup cfg)"

definition pickFirstExistingAgentId :: "AgentLookupCache \<Rightarrow> string \<Rightarrow> string" where
  "pickFirstExistingAgentId cache agentId =
     (let trimmed = js_trim agentId
      in if trimmed = [] then al_fallbackDefaultAgentId cache
         else
           let normalized = normalizeAgentId (Some trimmed)
           in if length (al_byNormalizedId cache) = 0 then sanitizeAgentId (Some trimmed)
              else coalesce (nonempty_string (map_get (al_byNormalizedId cache) normalized))
                (al_fallbackDefaultAgentId cache))"

section \<open>Session keys of a route\<close>

definition buildAgentSessionKey ::
  "string \<Rightarrow> string option \<Rightarrow> string \<Rightarrow> string option \<Rightarrow> RoutePeer option \<Rightarrow> DmScope option \<Rightarrow>
     identity_links option \<Rightarrow> string" where
  "buildAgentSessionKey agentId mainKey channel accountId peer dmScope identityLinks =
     buildAgentPeerSessionKey
       \<lparr>bk_agentId = agentId, bk_mainKey = Some (coalesce mainKey DEFAULT_MAIN_KEY),
        bk_channel = or_default (lower_or_empty (Some channel)) ''unknown'',
        bk_accountId = accountId,
        bk_peerKind = Some (coalesce (map_option pe_kind peer) ChatDirect),
        bk_peerId = map_option (\<lambda>p. or_default (normalizeRouteBindingId (JString (pe_id p)))
          ''unknown'') peer,
        bk_identityLinks = identityLinks, bk_dmScope = dmScope\<rparr>"

definition deriveLastRoutePolicy :: "string \<Rightarrow> string \<Rightarrow> LastRoutePolicy" where
  "deriveLastRoutePolicy sessionKey mainSessionKey =
     (if sessionKey = mainSessionKey then LastMain else LastSession)"

definition resolveInboundLastRouteSessionKey :: "LastRoutePolicy \<Rightarrow> string \<Rightarrow> string \<Rightarrow> string" where
  "resolveInboundLastRouteSessionKey policy mainSessionKey sessionKey =
     (if policy = LastMain then mainSessionKey else sessionKey)"

section \<open>The normalised message\<close>

record RouteQuery =
  rq_channel :: string
  rq_accountId :: string
  rq_peer :: "RoutePeer option"
  rq_parentPeer :: "RoutePeer option"
  rq_guildId :: string
  rq_teamId :: string
  rq_memberRoleIds :: "string list"

definition normalize_peer :: "ChatType \<times> js_value \<Rightarrow> RoutePeer" where
  "normalize_peer p =
     \<lparr>pe_kind = coalesce (normalizeChatType (JString (chat_type_string (fst p)))) (fst p),
      pe_id = normalizeRouteBindingId (snd p)\<rparr>"

definition route_query :: "ResolveAgentRouteInput \<Rightarrow> RouteQuery" where
  "route_query input =
     \<lparr>rq_channel = normalizeLowercaseStringOrEmpty (ri_channel input),
      rq_accountId = normalizeAccountId (ri_accountId input),
      rq_peer = map_option normalize_peer (ri_peer input),
      rq_parentPeer = map_option normalize_peer (ri_parentPeer input),
      rq_guildId = normalizeRouteBindingId (ri_guildId input),
      rq_teamId = normalizeRouteBindingId (ri_teamId input),
      rq_memberRoleIds = coalesce (ri_memberRoleIds input) []\<rparr>"

definition query_scope :: "RouteQuery \<Rightarrow> RoutePeer option \<Rightarrow> BindingScope" where
  "query_scope q peer = \<lparr>sc_peer = peer, sc_guildId = rq_guildId q, sc_teamId = rq_teamId q,
     sc_memberRoleIds = js_set (rq_memberRoleIds q)\<rparr>"

definition parent_scope_peer :: "RouteQuery \<Rightarrow> RoutePeer option" where
  "parent_scope_peer q = (case rq_parentPeer q of
     Some p \<Rightarrow> if pe_id p \<noteq> [] then Some p else None | None \<Rightarrow> None)"

section \<open>Tiers\<close>

record RouteTier =
  ti_matchedBy :: MatchedBy
  ti_enabled :: bool
  ti_scopePeer :: "RoutePeer option"
  ti_candidates :: "EvaluatedBinding list"
  ti_predicate :: "EvaluatedBinding \<Rightarrow> bool"

definition hasGuildConstraint :: "NormalizedBindingMatch \<Rightarrow> bool" where
  "hasGuildConstraint m \<longleftrightarrow> nonempty_string (nm_guildId m) \<noteq> None"

definition hasTeamConstraint :: "NormalizedBindingMatch \<Rightarrow> bool" where
  "hasTeamConstraint m \<longleftrightarrow> nonempty_string (nm_teamId m) \<noteq> None"

definition hasRolesConstraint :: "NormalizedBindingMatch \<Rightarrow> bool" where
  "hasRolesConstraint m \<longleftrightarrow> nm_roles m \<noteq> None"

definition route_tiers :: "EvaluatedBindingsIndex \<Rightarrow> RouteQuery \<Rightarrow> RouteTier list" where
  "route_tiers ix q =
     (let peer = rq_peer q; guildId = rq_guildId q; teamId = rq_teamId q
      in [\<lparr>ti_matchedBy = ByPeer, ti_enabled = (peer \<noteq> None), ti_scopePeer = peer,
           ti_candidates = collectPeerIndexedBindings ix peer, ti_predicate = valid_peer\<rparr>,
          \<lparr>ti_matchedBy = ByPeerParent, ti_enabled = (parent_scope_peer q \<noteq> None),
           ti_scopePeer = parent_scope_peer q,
           ti_candidates = collectPeerIndexedBindings ix (rq_parentPeer q), ti_predicate = valid_peer\<rparr>,
          \<lparr>ti_matchedBy = ByPeerWildcard, ti_enabled = (peer \<noteq> None), ti_scopePeer = peer,
           ti_candidates = ix_byPeerWildcard ix, ti_predicate = wildcard_peer\<rparr>,
          \<lparr>ti_matchedBy = ByGuildRoles,
           ti_enabled = (guildId \<noteq> [] \<and> length (rq_memberRoleIds q) > 0), ti_scopePeer = peer,
           ti_candidates = (if guildId \<noteq> [] then bucket (ix_byGuildWithRoles ix) guildId else []),
           ti_predicate = (\<lambda>e. hasGuildConstraint (eb_match e) \<and> hasRolesConstraint (eb_match e))\<rparr>,
          \<lparr>ti_matchedBy = ByGuild, ti_enabled = (guildId \<noteq> []), ti_scopePeer = peer,
           ti_candidates = (if guildId \<noteq> [] then bucket (ix_byGuild ix) guildId else []),
           ti_predicate = (\<lambda>e. hasGuildConstraint (eb_match e) \<and> \<not> hasRolesConstraint (eb_match e))\<rparr>,
          \<lparr>ti_matchedBy = ByTeam, ti_enabled = (teamId \<noteq> []), ti_scopePeer = peer,
           ti_candidates = (if teamId \<noteq> [] then bucket (ix_byTeam ix) teamId else []),
           ti_predicate = (\<lambda>e. hasTeamConstraint (eb_match e))\<rparr>,
          \<lparr>ti_matchedBy = ByAccount, ti_enabled = True, ti_scopePeer = peer,
           ti_candidates = ix_byAccount ix,
           ti_predicate = (\<lambda>e. nm_accountPattern (eb_match e) \<noteq> ''*'')\<rparr>,
          \<lparr>ti_matchedBy = ByChannel, ti_enabled = True, ti_scopePeer = peer,
           ti_candidates = ix_byChannel ix,
           ti_predicate = (\<lambda>e. nm_accountPattern (eb_match e) = ''*'')\<rparr>])"

fun find_tier :: "RouteQuery \<Rightarrow> RouteTier list \<Rightarrow> (MatchedBy \<times> EvaluatedBinding) option" where
  "find_tier q [] = None"
| "find_tier q (tier # tiers) =
     (if \<not> ti_enabled tier then find_tier q tiers
      else (case List.find (\<lambda>e. ti_predicate tier e \<and>
          matchesBindingScope (eb_match e) (query_scope q (ti_scopePeer tier))) (ti_candidates tier) of
        Some matched \<Rightarrow> Some (ti_matchedBy tier, matched)
      | None \<Rightarrow> find_tier q tiers))"

section \<open>The chosen route\<close>

definition dm_scope_of :: "OpenClawConfig \<Rightarrow> DmScope" where
  "dm_scope_of cfg = coalesce (Option.bind (ob_val (cf_session cfg)) ss_dmScope) DmMain"

definition identity_links_of :: "OpenClawConfig \<Rightarrow> identity_links option" where
  "identity_links_of cfg = Option.bind (ob_val (cf_session cfg)) ss_identityLinks"

definition main_key_of :: "OpenClawConfig \<Rightarrow> string option" where
  "main_key_of cfg = Option.bind (ob_val (cf_session cfg)) ss_mainKey"

definition choose_route ::
  "OpenClawConfig \<Rightarrow> RouteQuery \<Rightarrow> AgentLookupCache \<Rightarrow> string \<Rightarrow> MatchedBy \<Rightarrow> DmScope option \<Rightarrow>
     ResolvedAgentRoute" where
  "choose_route cfg q cache agentId matchedBy sessionOverride =
     (let resolvedAgentId = pickFirstExistingAgentId cache agentId;
          effectiveDmScope = coalesce sessionOverride (dm_scope_of cfg);
          sessionKey = buildAgentSessionKey resolvedAgentId (main_key_of cfg) (rq_channel q)
            (Some (rq_accountId q)) (rq_peer q) (Some effectiveDmScope) (identity_links_of cfg);
          mainSessionKey = normalizeLowercaseStringOrEmpty
            (JString (buildAgentMainSessionKey resolvedAgentId (main_key_of cfg)))
      in \<lparr>ar_agentId = resolvedAgentId, ar_channel = rq_channel q, ar_accountId = rq_accountId q,
          ar_dmScope = effectiveDmScope, ar_sessionKey = sessionKey,
          ar_mainSessionKey = mainSessionKey,
          ar_lastRoutePolicy = deriveLastRoutePolicy sessionKey mainSessionKey,
          ar_matchedBy = matchedBy\<rparr>)"

definition route_of_match ::
  "OpenClawConfig \<Rightarrow> RouteQuery \<Rightarrow> AgentLookupCache \<Rightarrow> (MatchedBy \<times> EvaluatedBinding) option \<Rightarrow>
     ResolvedAgentRoute" where
  "route_of_match cfg q cache found =
     (case found of
        Some (matchedBy, e) \<Rightarrow>
          choose_route cfg q cache (ab_agentId (eb_binding e)) matchedBy (ab_dmScope (eb_binding e))
      | None \<Rightarrow> choose_route cfg q cache (resolveDefaultAgentId cfg) ByDefault None)"

section \<open>The reference: a linear search\<close>

definition reference_tiers :: "RouteQuery \<Rightarrow> (MatchedBy \<times> IndexSlot \<times> RoutePeer option) list" where
  "reference_tiers q =
     [(ByPeer, SlotPeer, rq_peer q), (ByPeerParent, SlotPeer, parent_scope_peer q),
      (ByPeerWildcard, SlotWildcard, rq_peer q), (ByGuildRoles, SlotGuildRoles, rq_peer q),
      (ByGuild, SlotGuild, rq_peer q), (ByTeam, SlotTeam, rq_peer q),
      (ByAccount, SlotAccount, rq_peer q), (ByChannel, SlotChannel, rq_peer q)]"

definition slot_match :: "RouteQuery \<Rightarrow> IndexSlot \<Rightarrow> RoutePeer option \<Rightarrow> EvaluatedBinding \<Rightarrow> bool" where
  "slot_match q slot peer e \<longleftrightarrow>
     slot_of e = slot \<and> matchesBindingScope (eb_match e) (query_scope q peer)"

fun reference_match ::
  "RouteQuery \<Rightarrow> EvaluatedBinding list \<Rightarrow> (MatchedBy \<times> IndexSlot \<times> RoutePeer option) list \<Rightarrow>
     (MatchedBy \<times> EvaluatedBinding) option" where
  "reference_match q es [] = None"
| "reference_match q es ((matchedBy, slot, peer) # tiers) =
     (case List.find (slot_match q slot peer) es of
        Some e \<Rightarrow> Some (matchedBy, e) | None \<Rightarrow> reference_match q es tiers)"

definition channel_bindings :: "OpenClawConfig \<Rightarrow> string \<Rightarrow> string \<Rightarrow> EvaluatedBinding list" where
  "channel_bindings cfg channel accountId = filter (applies_to channel accountId)
     (evaluate_all (listRouteBindings (ob_val (cf_bindings cfg))) 0)"

definition linear_route :: "OpenClawConfig \<Rightarrow> ResolveAgentRouteInput \<Rightarrow> ResolvedAgentRoute" where
  "linear_route cfg input =
     (let q = route_query input
      in route_of_match cfg q (agent_lookup cfg)
        (reference_match q (channel_bindings cfg (rq_channel q) (rq_accountId q)) (reference_tiers q)))"

lemma find_filter: "List.find P (filter Q xs) = List.find (\<lambda>x. Q x \<and> P x) xs"
  by (induction xs) auto

lemma find_cong_set: "(\<And>x. x \<in> set xs \<Longrightarrow> P x = Q x) \<Longrightarrow> List.find P xs = List.find Q xs"
  by (induction xs) auto

lemma find_none: "(\<And>x. x \<in> set xs \<Longrightarrow> \<not> P x) \<Longrightarrow> List.find P xs = None"
  by (simp add: find_None_iff_all)

definition tier_agrees ::
  "RouteQuery \<Rightarrow> EvaluatedBinding list \<Rightarrow> RouteTier \<Rightarrow> MatchedBy \<times> IndexSlot \<times> RoutePeer option \<Rightarrow>
     bool" where
  "tier_agrees q es tier = (\<lambda>(matchedBy, slot, peer). ti_matchedBy tier = matchedBy \<and>
     (if ti_enabled tier then List.find (\<lambda>e. ti_predicate tier e \<and>
          matchesBindingScope (eb_match e) (query_scope q (ti_scopePeer tier))) (ti_candidates tier)
      else None) = List.find (slot_match q slot peer) es)"

lemma find_tier_reference:
  "list_all2 (tier_agrees q es) tiers refs \<Longrightarrow> find_tier q tiers = reference_match q es refs"
proof (induction rule: list_all2_induct)
  case (Cons tier tiers r refs)
  obtain b s p where r: "r = (b, s, p)" by (cases r)
  from Cons show ?case by (auto simp: r tier_agrees_def split: if_splits option.split)
qed simp

text \<open>What a match says about the scope.\<close>

definition well_evaluated :: "EvaluatedBinding \<Rightarrow> bool" where
  "well_evaluated e \<longleftrightarrow> nm_roles (eb_match e) \<noteq> Some []"

lemma well_evaluated_all: "e \<in> set (evaluate_all bs n) \<Longrightarrow> well_evaluated e"
  by (drule evaluate_all_match) (auto simp: well_evaluated_def normalizeBindingMatch_def
      normalizeRouteBindingRoles_def split: option.splits list.splits)

lemma scope_match_facts:
  assumes "matchesBindingScope (eb_match e) (query_scope q peer)" "well_evaluated e"
    and "js_trim (rq_guildId q) = rq_guildId q" "js_trim (rq_teamId q) = rq_teamId q"
  shows "valid_peer e \<Longrightarrow> peer \<noteq> None \<and> peer_matches (the peer) e"
    and "wildcard_peer e \<Longrightarrow> peer \<noteq> None"
    and "guild_of e \<noteq> None \<Longrightarrow> guild_of e = Some (rq_guildId q)"
    and "team_of e \<noteq> None \<Longrightarrow> team_of e = Some (rq_teamId q)"
    and "nm_roles (eb_match e) \<noteq> None \<Longrightarrow> rq_memberRoleIds q \<noteq> []"
  using assms
  by (auto simp: matchesBindingScope_def routeBindingScopeMatches_def query_scope_def Let_def
      normalizeRouteBindingId_def scopeIdMatches_def guild_of_def team_of_def valid_peer_def
      wildcard_peer_def peer_matches_def normalizeRouteBindingRoles_def hasAnyRouteBindingRole_def
      well_evaluated_def nonempty_string_def list_ex_iff
      split: PeerConstraint.splits option.splits if_splits list.splits)

lemma slot_guild: "slot_of e \<in> {SlotGuildRoles, SlotGuild} \<Longrightarrow> guild_of e \<noteq> None"
  and slot_roles: "slot_of e = SlotGuildRoles \<Longrightarrow> nm_roles (eb_match e) \<noteq> None"
  and slot_no_roles: "slot_of e = SlotGuild \<Longrightarrow> nm_roles (eb_match e) = None"
  and slot_team: "slot_of e = SlotTeam \<Longrightarrow> team_of e \<noteq> None"
  and slot_account: "slot_of e = SlotAccount \<Longrightarrow> nm_accountPattern (eb_match e) \<noteq> ''*''"
  and slot_channel: "slot_of e = SlotChannel \<Longrightarrow> nm_accountPattern (eb_match e) = ''*''"
  by (auto simp: slot_of_def split: if_splits)

lemma tiers_agree:
  assumes es: "distinct es" "list_all well_evaluated es"
    and q: "js_trim (rq_guildId q) = rq_guildId q" "js_trim (rq_teamId q) = rq_teamId q"
  shows "list_all2 (tier_agrees q es) (route_tiers (buildEvaluatedBindingsIndex es) q)
    (reference_tiers q)"
proof -
  note facts = scope_match_facts [OF _ _ q]
  have peer_tier: "(if p \<noteq> None then List.find (\<lambda>e. valid_peer e \<and>
        matchesBindingScope (eb_match e) (query_scope q p))
        (collectPeerIndexedBindings (buildEvaluatedBindingsIndex es) p) else None) =
      List.find (slot_match q SlotPeer p) es" for p
  proof (cases p)
    case None
    have "\<not> slot_match q SlotPeer None e" if "e \<in> set es" for e
      using facts(1) [of e None] that es(2) by (auto simp: slot_match_def slot_iffs list_all_iff)
    with None show ?thesis by (simp add: find_none)
  next
    case (Some peer)
    have "valid_peer e \<and> matchesBindingScope (eb_match e) (query_scope q p) \<longrightarrow> peer_matches peer e"
      if "e \<in> set es" for e
      using facts(1) [of e p] that es(2) Some by (auto simp: list_all_iff)
    then show ?thesis
      using Some by (auto simp: collectPeer_filter [OF es(1)] find_filter slot_match_def slot_iffs
          intro!: find_cong_set)
  qed
  have wild: "(if rq_peer q \<noteq> None then List.find (\<lambda>e. wildcard_peer e \<and>
        matchesBindingScope (eb_match e) (query_scope q (rq_peer q)))
        (ix_byPeerWildcard (buildEvaluatedBindingsIndex es)) else None) =
      List.find (slot_match q SlotWildcard (rq_peer q)) es"
  proof (cases "rq_peer q")
    case None
    have "\<not> slot_match q SlotWildcard None e" if "e \<in> set es" for e
      using facts(2) [of e None] that es(2) by (auto simp: slot_match_def slot_iffs list_all_iff)
    with None show ?thesis by (simp add: find_none)
  qed (auto simp: build_index_filter find_filter slot_match_def slot_iffs intro!: find_cong_set)
  have keyed: "(if en then List.find (\<lambda>e. pred e \<and>
        matchesBindingScope (eb_match e) (query_scope q (rq_peer q)))
        (if key \<noteq> [] then filter (\<lambda>e. slot_of e = slot \<and> key_of e = Some key) es else []) else None) =
      List.find (slot_match q slot (rq_peer q)) es"
    if "\<And>e. slot_match q slot (rq_peer q) e \<Longrightarrow> well_evaluated e \<Longrightarrow> en \<and> key \<noteq> [] \<and> key_of e = Some key"
      and "\<And>e. slot_of e = slot \<Longrightarrow> pred e"
    for en key slot and key_of :: "EvaluatedBinding \<Rightarrow> string option" and pred
  proof (cases "en \<and> key \<noteq> []")
    case True
    have "slot_of e = slot \<and> key_of e = Some key \<and> pred e \<and>
        matchesBindingScope (eb_match e) (query_scope q (rq_peer q)) \<longleftrightarrow> slot_match q slot (rq_peer q) e"
      if "e \<in> set es" for e
      using that es(2) \<open>\<And>e. slot_match q slot (rq_peer q) e \<Longrightarrow> well_evaluated e \<Longrightarrow> _\<close>
        \<open>\<And>e. slot_of e = slot \<Longrightarrow> pred e\<close>
      by (auto simp: list_all_iff slot_match_def)
    with True show ?thesis by (auto simp: find_filter intro!: find_cong_set)
  next
    case False
    have "\<not> slot_match q slot (rq_peer q) e" if "e \<in> set es" for e
      using that es(2) False \<open>\<And>e. slot_match q slot (rq_peer q) e \<Longrightarrow> well_evaluated e \<Longrightarrow> _\<close>
      by (auto simp: list_all_iff)
    with False show ?thesis by (auto simp: find_none)
  qed
  have guild_ne: "guild_of e = Some g \<Longrightarrow> g \<noteq> []" "team_of e = Some g \<Longrightarrow> g \<noteq> []" for e g
    by (auto simp: guild_of_def team_of_def)
  have constraint: "guild_of e \<noteq> None \<longleftrightarrow> hasGuildConstraint (eb_match e)"
    "team_of e \<noteq> None \<longleftrightarrow> hasTeamConstraint (eb_match e)" for e
    by (simp_all only: guild_of_def team_of_def hasGuildConstraint_def hasTeamConstraint_def)
  have guild_roles: "(rq_guildId q \<noteq> [] \<and> 0 < length (rq_memberRoleIds q)) \<and> rq_guildId q \<noteq> [] \<and>
      guild_of e = Some (rq_guildId q)"
    if "slot_match q SlotGuildRoles (rq_peer q) e" "well_evaluated e" for e
  proof -
    have s: "slot_of e = SlotGuildRoles" "matchesBindingScope (eb_match e) (query_scope q (rq_peer q))"
      using that(1) by (simp_all add: slot_match_def)
    have "guild_of e = Some (rq_guildId q)" "rq_memberRoleIds q \<noteq> []"
      using facts(3,5) [OF s(2) that(2)] slot_guild [of e] slot_roles [OF s(1)] s(1) by simp_all
    then show ?thesis using guild_ne by auto
  qed
  have guild: "rq_guildId q \<noteq> [] \<and> rq_guildId q \<noteq> [] \<and> guild_of e = Some (rq_guildId q)"
    if "slot_match q SlotGuild (rq_peer q) e" "well_evaluated e" for e
    using facts(3) [OF _ that(2), of "rq_peer q"] slot_guild [of e] guild_ne(1) [of e] that(1)
    by (auto simp: slot_match_def)
  have team: "rq_teamId q \<noteq> [] \<and> rq_teamId q \<noteq> [] \<and> team_of e = Some (rq_teamId q)"
    if "slot_match q SlotTeam (rq_peer q) e" "well_evaluated e" for e
    using facts(4) [OF _ that(2), of "rq_peer q"] slot_team [of e] guild_ne(2) [of e] that(1)
    by (auto simp: slot_match_def)
  have preds: "slot_of e = SlotGuildRoles \<Longrightarrow>
      hasGuildConstraint (eb_match e) \<and> hasRolesConstraint (eb_match e)"
    "slot_of e = SlotGuild \<Longrightarrow> hasGuildConstraint (eb_match e) \<and> \<not> hasRolesConstraint (eb_match e)"
    "slot_of e = SlotTeam \<Longrightarrow> hasTeamConstraint (eb_match e)" for e
    using slot_guild [of e] slot_roles [of e] slot_no_roles [of e] slot_team [of e]
    by (auto simp: hasRolesConstraint_def simp flip: constraint)
  have last: "List.find (\<lambda>e. pred e \<and> matchesBindingScope (eb_match e) (query_scope q (rq_peer q)))
        (filter (\<lambda>e. slot_of e = slot) es) = List.find (slot_match q slot (rq_peer q)) es"
    if "\<And>e. slot_of e = slot \<Longrightarrow> pred e" for slot pred
    using that by (auto simp: find_filter slot_match_def intro!: find_cong_set)
  have parent: "(if parent_scope_peer q \<noteq> None then List.find (\<lambda>e. valid_peer e \<and>
        matchesBindingScope (eb_match e) (query_scope q (parent_scope_peer q)))
        (collectPeerIndexedBindings (buildEvaluatedBindingsIndex es) (rq_parentPeer q)) else None) =
      List.find (slot_match q SlotPeer (parent_scope_peer q)) es"
  proof -
    have "parent_scope_peer q \<noteq> None \<Longrightarrow> rq_parentPeer q = parent_scope_peer q"
      by (auto simp: parent_scope_peer_def split: option.splits if_splits)
    then show ?thesis using peer_tier [of "parent_scope_peer q"] by (auto split: if_splits)
  qed
  show ?thesis
    unfolding route_tiers_def reference_tiers_def Let_def list_all2_Cons list_all2_Nil2 tier_agrees_def
      prod.case RouteTier.select_convs build_index_filter if_True
    using peer_tier [of "rq_peer q"] parent wild [unfolded build_index_filter]
      keyed [where slot = SlotGuildRoles and key_of = guild_of and
        pred = "\<lambda>e. hasGuildConstraint (eb_match e) \<and> hasRolesConstraint (eb_match e)",
        OF guild_roles preds(1)]
      keyed [where slot = SlotGuild and key_of = guild_of and
        pred = "\<lambda>e. hasGuildConstraint (eb_match e) \<and> \<not> hasRolesConstraint (eb_match e)",
        OF guild preds(2)]
      keyed [where slot = SlotTeam and key_of = team_of and
        pred = "\<lambda>e. hasTeamConstraint (eb_match e)", OF team preds(3)]
      last [where slot = SlotAccount and pred = "\<lambda>e. nm_accountPattern (eb_match e) \<noteq> ''*''",
        OF slot_account]
      last [where slot = SlotChannel and pred = "\<lambda>e. nm_accountPattern (eb_match e) = ''*''",
        OF slot_channel]
    by (intro conjI refl)
qed

section \<open>The indexed search finds the same\<close>

lemma js_trim_route_id [simp]:
  "js_trim (normalizeRouteBindingId v) = normalizeRouteBindingId v"
  by (cases v) (simp_all add: normalizeRouteBindingId_def)

lemma distinct_evaluate_all: "distinct (evaluate_all bs n)"
  by (induction bs n rule: evaluate_all.induct) (auto dest!: evaluate_all_orders)

lemma channel_bindings_ok:
  "distinct (channel_bindings cfg c a)" "list_all well_evaluated (channel_bindings cfg c a)"
  by (auto simp: channel_bindings_def distinct_evaluate_all list_all_iff intro: well_evaluated_all)

lemma find_tier_linear:
  "find_tier (route_query input)
     (route_tiers (buildEvaluatedBindingsIndex (channel_bindings cfg c a)) (route_query input)) =
   reference_match (route_query input) (channel_bindings cfg c a) (reference_tiers (route_query input))"
  by (rule find_tier_reference, rule tiers_agree [OF channel_bindings_ok])
    (simp_all add: route_query_def)

end
