(* ===== verification/Route_Cache.thy ===== *)
theory Route_Cache
  imports Route_Resolution
begin

text \<open>
  The caches of \<^verbatim>\<open>routing/resolve-route.ts\<close> and the exported \<^verbatim>\<open>resolveAgentRoute\<close>.
  The three weak maps of the module hold at most one entry per configuration object; the
  entries of one such object are a \<open>RouteCaches\<close>, passed through the calls. An entry is
  used as long as it was made for the same \<^verbatim>\<open>bindings\<close>, \<^verbatim>\<open>agents\<close> and
  \<^verbatim>\<open>session\<close> objects, which the program replaces and never changes in place.
\<close>

record EvaluatedBindingsCache =
  ev_bindingsRef :: nat
  ev_byChannel :: "(string, EvaluatedBindingsByChannel) jsmap"
  ev_byChannelAccount :: "(string, EvaluatedBinding list) jsmap"
  ev_byChannelAccountIndex :: "(string, EvaluatedBindingsIndex) jsmap"

record ResolvedRouteCache =
  rr_bindingsRef :: nat
  rr_agentsRef :: nat
  rr_sessionRef :: nat
  rr_byKey :: "(string, ResolvedAgentRoute) jsmap"

record RouteCaches =
  rk_agents :: "AgentLookupCache option"
  rk_bindings :: "EvaluatedBindingsCache option"
  rk_routes :: "ResolvedRouteCache option"

definition no_caches :: RouteCaches where
  "no_caches = \<lparr>rk_agents = None, rk_bindings = None, rk_routes = None\<rparr>"

definition MAX_EVALUATED_BINDINGS_CACHE_KEYS :: nat where
  "MAX_EVALUATED_BINDINGS_CACHE_KEYS = 2000"
definition MAX_RESOLVED_ROUTE_CACHE_KEYS :: nat where
  "MAX_RESOLVED_ROUTE_CACHE_KEYS = 4000"

section \<open>Evaluated bindings\<close>

definition tab :: string where "tab = [CHR 0x09]"

definition channel_account_key :: "string \<Rightarrow> string \<Rightarrow> string" where
  "channel_account_key channel accountId = channel @ tab @ accountId"

definition bindings_cache ::
  "OpenClawConfig \<Rightarrow> EvaluatedBindingsCache option \<Rightarrow> EvaluatedBindingsCache" where
  "bindings_cache cfg existing =
     (let fresh = \<lparr>ev_bindingsRef = ob_ref (cf_bindings cfg),
            ev_byChannel = buildEvaluatedBindingsByChannel (ob_val (cf_bindings cfg)),
            ev_byChannelAccount = [], ev_byChannelAccountIndex = []\<rparr>
      in case existing of
           Some cache \<Rightarrow> if ev_bindingsRef cache = ob_ref (cf_bindings cfg) then cache else fresh
         | None \<Rightarrow> fresh)"

definition getEvaluatedBindingsForChannelAccount ::
  "OpenClawConfig \<Rightarrow> string \<Rightarrow> string \<Rightarrow> EvaluatedBindingsCache option \<Rightarrow>
     EvaluatedBinding list \<times> EvaluatedBindingsCache" where
  "getEvaluatedBindingsForChannelAccount cfg channel accountId existing =
     (let cache = bindings_cache cfg existing;
          cacheKey = channel_account_key channel accountId
      in case map_get (ev_byChannelAccount cache) cacheKey of
           Some hit \<Rightarrow> (hit, cache)
         | None \<Rightarrow>
             let evaluated = evaluated_for (ev_byChannel cache) channel accountId;
                 cache = cache\<lparr>
                   ev_byChannelAccount := map_put cacheKey evaluated (ev_byChannelAccount cache),
                   ev_byChannelAccountIndex := map_put cacheKey
                     (buildEvaluatedBindingsIndex evaluated) (ev_byChannelAccountIndex cache)\<rparr>;
                 cache = (if length (ev_byChannelAccount cache) > MAX_EVALUATED_BINDINGS_CACHE_KEYS
                   then cache\<lparr>
                     ev_byChannelAccount := map_put cacheKey evaluated [],
                     ev_byChannelAccountIndex := map_put cacheKey
                       (buildEvaluatedBindingsIndex evaluated) []\<rparr>
                   else cache)
             in (evaluated, cache))"

definition getEvaluatedBindingIndexForChannelAccount ::
  "OpenClawConfig \<Rightarrow> string \<Rightarrow> string \<Rightarrow> EvaluatedBindingsCache option \<Rightarrow>
     EvaluatedBindingsIndex \<times> EvaluatedBindingsCache" where
  "getEvaluatedBindingIndexForChannelAccount cfg channel accountId existing =
     (let (bindings, cache) = getEvaluatedBindingsForChannelAccount cfg channel accountId existing;
          cacheKey = channel_account_key channel accountId
      in case map_get (ev_byChannelAccountIndex cache) cacheKey of
           Some indexed \<Rightarrow> (indexed, cache)
         | None \<Rightarrow>
             let built = buildEvaluatedBindingsIndex bindings
             in (built, cache\<lparr>ev_byChannelAccountIndex :=
                  map_put cacheKey built (ev_byChannelAccountIndex cache)\<rparr>))"

section \<open>Resolved routes\<close>

definition resolveRouteCacheForConfig ::
  "OpenClawConfig \<Rightarrow> ResolvedRouteCache option \<Rightarrow> ResolvedRouteCache" where
  "resolveRouteCacheForConfig cfg existing =
     (let fresh = \<lparr>rr_bindingsRef = ob_ref (cf_bindings cfg), rr_agentsRef = ob_ref (cf_agents cfg),
            rr_sessionRef = ob_ref (cf_session cfg), rr_byKey = []\<rparr>
      in case existing of
           Some cache \<Rightarrow>
             if rr_bindingsRef cache = ob_ref (cf_bindings cfg) \<and>
                rr_agentsRef cache = ob_ref (cf_agents cfg) \<and>
                rr_sessionRef cache = ob_ref (cf_session cfg) then cache else fresh
         | None \<Rightarrow> fresh)"

definition formatRouteCachePeer :: "RoutePeer option \<Rightarrow> string" where
  "formatRouteCachePeer peer =
     (case peer of
        None \<Rightarrow> ''-''
      | Some p \<Rightarrow> if pe_id p = [] then ''-'' else chat_type_string (pe_kind p) @ '':'' @ pe_id p)"

definition formatRoleIdsCacheKey :: "string list \<Rightarrow> string" where
  "formatRoleIdsCacheKey roleIds =
     (let count = length roleIds
      in if count = 0 then ''-''
         else if count = 1 then roleIds ! 0
         else if count = 2 then
           let first = roleIds ! 0; second = roleIds ! 1
           in if \<not> js_less second first then first @ '','' @ second else second @ '','' @ first
         else join_with '','' (js_toSorted compare_strings roleIds))"

definition dm_scope_string :: "DmScope \<Rightarrow> string" where
  "dm_scope_string s =
     (case s of DmMain \<Rightarrow> ''main'' | DmPerPeer \<Rightarrow> ''per-peer'' | DmPerChannelPeer \<Rightarrow> ''per-channel-peer''
      | DmPerAccountChannelPeer \<Rightarrow> ''per-account-channel-peer'')"

definition buildResolvedRouteCacheKey :: "RouteQuery \<Rightarrow> DmScope \<Rightarrow> string" where
  "buildResolvedRouteCacheKey q dmScope =
     join_with tab
       [rq_channel q, rq_accountId q, formatRouteCachePeer (rq_peer q),
        formatRouteCachePeer (rq_parentPeer q), or_default (rq_guildId q) ''-'',
        or_default (rq_teamId q) ''-'', formatRoleIdsCacheKey (rq_memberRoleIds q),
        dm_scope_string dmScope]"

definition store_route ::
  "string \<Rightarrow> ResolvedAgentRoute \<Rightarrow> (string, ResolvedAgentRoute) jsmap \<Rightarrow>
     (string, ResolvedAgentRoute) jsmap" where
  "store_route = store_or_restart MAX_RESOLVED_ROUTE_CACHE_KEYS"

section \<open>Resolving a route\<close>

text \<open>What happens when no cached route is found. \<open>routes\<close> is the route cache in use.\<close>

definition resolve_fresh_route ::
  "OpenClawConfig \<Rightarrow> RouteQuery \<Rightarrow> ResolvedRouteCache option \<Rightarrow> RouteCaches \<Rightarrow>
     ResolvedAgentRoute \<times> RouteCaches" where
  "resolve_fresh_route cfg q routes caches =
     (let (bindings, bcache) = getEvaluatedBindingsForChannelAccount cfg (rq_channel q)
            (rq_accountId q) (rk_bindings caches);
          (index, bcache) = getEvaluatedBindingIndexForChannelAccount cfg (rq_channel q)
            (rq_accountId q) (Some bcache);
          agents = resolveAgentLookupCache cfg (rk_agents caches);
          route = route_of_match cfg q agents (find_tier q (route_tiers index q));
          routes = map_option (\<lambda>r. r\<lparr>rr_byKey := store_route
            (buildResolvedRouteCacheKey q (dm_scope_of cfg)) route (rr_byKey r)\<rparr>) routes
      in (route, caches\<lparr>rk_agents := Some agents, rk_bindings := Some bcache,
            rk_routes := coalesce2 routes (rk_routes caches)\<rparr>))"

definition resolveAgentRoute ::
  "bool \<Rightarrow> OpenClawConfig \<Rightarrow> ResolveAgentRouteInput \<Rightarrow> RouteCaches \<Rightarrow>
     ResolvedAgentRoute \<times> RouteCaches" where
  "resolveAgentRoute shouldLogDebug cfg input caches =
     (let q = route_query input
      in if shouldLogDebug \<or> identity_links_of cfg \<noteq> None then resolve_fresh_route cfg q None caches
         else
           let routes = resolveRouteCacheForConfig cfg (rk_routes caches);
               caches = caches\<lparr>rk_routes := Some routes\<rparr>
           in (case map_get (rr_byKey routes) (buildResolvedRouteCacheKey q (dm_scope_of cfg)) of
                 Some cachedRoute \<Rightarrow> (cachedRoute, caches)
               | None \<Rightarrow> resolve_fresh_route cfg q (Some routes) caches))"

section \<open>Queries with the same cache key\<close>

text \<open>The parts of the key are separated by tabs, roles by commas, and a missing part is a dash.\<close>

definition no_tab :: "string \<Rightarrow> bool" where
  "no_tab s \<longleftrightarrow> CHR 0x09 \<notin> set s"

definition plain_query :: "RouteQuery \<Rightarrow> bool" where
  "plain_query q \<longleftrightarrow>
     no_tab (rq_channel q) \<and> no_tab (rq_guildId q) \<and> no_tab (rq_teamId q) \<and>
     rq_guildId q \<noteq> ''-'' \<and> rq_teamId q \<noteq> ''-'' \<and>
     (case rq_peer q of None \<Rightarrow> True | Some p \<Rightarrow> pe_id p \<noteq> [] \<and> no_tab (pe_id p)) \<and>
     (case rq_parentPeer q of None \<Rightarrow> True | Some p \<Rightarrow> no_tab (pe_id p)) \<and>
     list_all (\<lambda>r. no_tab r \<and> CHR '','' \<notin> set r) (rq_memberRoleIds q) \<and>
     rq_memberRoleIds q \<noteq> [''-'']"

lemma compare_strings_not_less: "compare_strings a b \<le> 0 \<longleftrightarrow> \<not> js_less b a"
  using js_less_total [of a b] js_less_trans [of a b a] by (auto simp: compare_strings_le)

lemma js_toSorted_ne [simp]: "js_toSorted cmp xs = [] \<longleftrightarrow> xs = []"
  by (metis mset_js_toSorted mset_zero_iff)

lemma formatRoleIds_join:
  "roles \<noteq> [] \<Longrightarrow> formatRoleIdsCacheKey roles = join_with '','' (js_toSorted compare_strings roles)"
proof (cases roles)
  case (Cons a rs)
  then show ?thesis
  proof (cases rs)
    case Nil
    with Cons show ?thesis by (simp add: formatRoleIdsCacheKey_def js_toSorted_def)
  next
    case (Cons b rs')
    with \<open>roles = a # rs\<close> show ?thesis
      by (cases rs') (simp_all add: formatRoleIdsCacheKey_def js_toSorted_def compare_strings_not_less)
  qed
qed simp

lemma formatRoleIds_set:
  assumes "formatRoleIdsCacheKey rs = formatRoleIdsCacheKey ss"
    and "list_all (\<lambda>r. CHR '','' \<notin> set r) rs" "list_all (\<lambda>r. CHR '','' \<notin> set r) ss"
    and "rs \<noteq> [''-'']" "ss \<noteq> [''-'']"
  shows "set rs = set ss"
proof -
  have free: "list_all (\<lambda>r. CHR '','' \<notin> set r) (js_toSorted compare_strings xs)"
    if "list_all (\<lambda>r. CHR '','' \<notin> set r) xs" for xs :: "string list"
    using that by (simp add: list_all_iff)
  have dash: "formatRoleIdsCacheKey xs \<noteq> ''-''"
    if "xs \<noteq> []" "list_all (\<lambda>r. CHR '','' \<notin> set r) xs" "xs \<noteq> [''-'']" for xs
  proof
    assume "formatRoleIdsCacheKey xs = ''-''"
    then have "join_with [CHR '',''] (js_toSorted compare_strings xs) = join_with [CHR '',''] [''-'']"
      using that(1) by (simp add: formatRoleIds_join)
    then have "js_toSorted compare_strings xs = [''-'']"
      by (rule join_with_inj) (use that free in simp_all)
    then have "mset xs = {#''-''#}" by (metis mset_js_toSorted mset_single_iff_right)
    with that(3) show False by simp
  qed
  have empty: "formatRoleIdsCacheKey [] = ''-''" by (simp add: formatRoleIdsCacheKey_def)
  show ?thesis
  proof (cases "rs = [] \<or> ss = []")
    case True
    then show ?thesis using dash assms empty by metis
  next
    case False
    then have "js_toSorted compare_strings rs = js_toSorted compare_strings ss"
      using assms(1) by (intro join_with_inj [of "CHR '',''"])
        (simp_all add: formatRoleIds_join free assms(2,3))
    then show ?thesis by (metis set_js_toSorted)
  qed
qed

definition same_query :: "RouteQuery \<Rightarrow> RouteQuery \<Rightarrow> bool" where
  "same_query q r \<longleftrightarrow>
     rq_channel q = rq_channel r \<and> rq_accountId q = rq_accountId r \<and> rq_peer q = rq_peer r \<and>
     parent_scope_peer q = parent_scope_peer r \<and> rq_guildId q = rq_guildId r \<and>
     rq_teamId q = rq_teamId r \<and> set (rq_memberRoleIds q) = set (rq_memberRoleIds r)"

lemma no_tab_append [simp]: "no_tab (a @ b) \<longleftrightarrow> no_tab a \<and> no_tab b"
  by (auto simp: no_tab_def)

lemma no_tab_ids: "id_shaped s \<Longrightarrow> no_tab s"
  by (auto simp: no_tab_def id_shaped_def list_all_iff id_char_def lower_alnum_def Let_def
      dest!: bspec [where x = "CHR 0x09"])

lemma no_tab_join: "no_tab sep \<Longrightarrow> list_all no_tab ps \<Longrightarrow> no_tab (join_with sep ps)"
  by (induction sep ps rule: join_with.induct) (auto simp: no_tab_def)

lemma no_tab_kind [simp]: "no_tab (chat_type_string k)"
  by (cases k) (simp_all add: chat_type_string_def no_tab_def)

lemma no_tab_peer:
  "(case peer of None \<Rightarrow> True | Some p \<Rightarrow> no_tab (pe_id p)) \<Longrightarrow> no_tab (formatRouteCachePeer peer)"
  by (auto simp: formatRouteCachePeer_def split: option.splits) (simp_all add: no_tab_def)

lemma no_tab_roles:
  assumes "list_all no_tab roles"
  shows "no_tab (formatRoleIdsCacheKey roles)"
proof (cases "roles = []")
  case False
  have "no_tab '',''" by code_simp
  moreover have "list_all no_tab (js_toSorted compare_strings roles)" using assms by (simp add: list_all_iff)
  ultimately show ?thesis using False by (simp add: formatRoleIds_join no_tab_join)
qed (simp add: formatRoleIdsCacheKey_def no_tab_def)

lemma formatRouteCachePeer_eq:
  "formatRouteCachePeer p = formatRouteCachePeer q \<Longrightarrow>
     (case p of Some x \<Rightarrow> if pe_id x \<noteq> [] then Some x else None | None \<Rightarrow> None) =
     (case q of Some x \<Rightarrow> if pe_id x \<noteq> [] then Some x else None | None \<Rightarrow> None)"
proof -
  have inj: "chat_type_string k @ CHR '':'' # i = chat_type_string l @ CHR '':'' # j \<longleftrightarrow> k = l \<and> i = j"
    for k l i j by (simp add: colon_separates)
  have ne: "chat_type_string k @ CHR '':'' # i \<noteq> ''-''" for k i
    by (cases k) (simp_all add: chat_type_string_def)
  have ne': "''-'' \<noteq> chat_type_string k @ CHR '':'' # i" for k i using ne [of k i] by metis
  assume "formatRouteCachePeer p = formatRouteCachePeer q"
  then show ?thesis
    by (cases p; cases q) (auto simp: formatRouteCachePeer_def inj ne ne' intro: RoutePeer.equality
        split: if_splits)
qed

lemma no_tab_iff: "no_tab s \<longleftrightarrow> CHR 0x09 \<notin> set s"
  by (simp add: no_tab_def)

lemma or_default_dash:
  "or_default a ''-'' = or_default b ''-'' \<Longrightarrow> a \<noteq> ''-'' \<Longrightarrow> b \<noteq> ''-'' \<Longrightarrow> a = b"
  by (auto simp: or_default_def split: if_splits)

lemma no_tab_scope: "no_tab (dm_scope_string d)"
  by (cases d) (simp_all add: dm_scope_string_def no_tab_def)

lemma dm_scope_string_inj: "dm_scope_string c = dm_scope_string d \<Longrightarrow> c = d"
  by (cases c; cases d) (simp_all add: dm_scope_string_def)

definition key_fields :: "RouteQuery \<Rightarrow> DmScope \<Rightarrow> string list" where
  "key_fields q d =
     [rq_channel q, rq_accountId q, formatRouteCachePeer (rq_peer q),
      formatRouteCachePeer (rq_parentPeer q), or_default (rq_guildId q) ''-'',
      or_default (rq_teamId q) ''-'', formatRoleIdsCacheKey (rq_memberRoleIds q), dm_scope_string d]"

lemma key_fields_no_tab:
  assumes "plain_query q" "id_shaped (rq_accountId q)"
  shows "list_all (\<lambda>p. CHR 0x09 \<notin> set p) (key_fields q d)"
proof -
  have "list_all no_tab (key_fields q d)"
    using assms no_tab_ids no_tab_scope
    by (auto simp: key_fields_def plain_query_def or_default_def list_all_iff intro!: no_tab_peer no_tab_roles
        split: option.splits) (auto simp: no_tab_def)
  then show ?thesis by (simp add: no_tab_def [abs_def])
qed

lemma same_key_same_query:
  assumes "buildResolvedRouteCacheKey q c = buildResolvedRouteCacheKey r d"
    and q: "plain_query q" "id_shaped (rq_accountId q)"
    and r: "plain_query r" "id_shaped (rq_accountId r)"
  shows "same_query q r \<and> c = d"
proof -
  have "join_with [CHR 0x09] (key_fields q c) = join_with [CHR 0x09] (key_fields r d)"
    using assms(1) by (simp add: buildResolvedRouteCacheKey_def key_fields_def tab_def)
  then have eq: "key_fields q c = key_fields r d"
    by (rule join_with_inj) (simp_all add: key_fields_no_tab q r, simp_all add: key_fields_def)
  have roles: "set (rq_memberRoleIds q) = set (rq_memberRoleIds r)"
    using eq q(1) r(1) by (intro formatRoleIds_set) (auto simp: key_fields_def plain_query_def list_all_iff)
  have peers: "rq_peer q = rq_peer r"
    using formatRouteCachePeer_eq [of "rq_peer q" "rq_peer r"] eq q(1) r(1)
    by (auto simp: key_fields_def plain_query_def split: option.splits)
  have parents: "parent_scope_peer q = parent_scope_peer r"
    using formatRouteCachePeer_eq [of "rq_parentPeer q" "rq_parentPeer r"] eq
    by (simp add: key_fields_def parent_scope_peer_def)
  have "rq_guildId q = rq_guildId r" "rq_teamId q = rq_teamId r"
    using eq q(1) r(1) or_default_dash by (auto simp: key_fields_def plain_query_def)
  with eq roles peers parents show ?thesis
    by (auto simp: same_query_def key_fields_def intro: dm_scope_string_inj)
qed

section \<open>A route depends on the query only through what the key holds\<close>

definition linear_match :: "OpenClawConfig \<Rightarrow> RouteQuery \<Rightarrow> ResolvedAgentRoute" where
  "linear_match cfg q = route_of_match cfg q (agent_lookup cfg)
     (reference_match q (channel_bindings cfg (rq_channel q) (rq_accountId q)) (reference_tiers q))"

lemma linear_route_match: "linear_route cfg input = linear_match cfg (route_query input)"
  by (simp add: linear_route_def linear_match_def Let_def)

lemma same_query_scope:
  "same_query q r \<Longrightarrow>
     matchesBindingScope m (query_scope q peer) = matchesBindingScope m (query_scope r peer)"
  by (auto simp: same_query_def matchesBindingScope_def routeBindingScopeMatches_def query_scope_def
      hasAnyRouteBindingRole_def Let_def split: option.splits PeerConstraint.splits)

lemma same_query_match:
  assumes "same_query q r"
  shows "reference_match q es tiers = reference_match r es tiers"
proof (induction tiers)
  case (Cons t tiers)
  obtain b s p where t: "t = (b, s, p)" by (cases t)
  have "slot_match q s p = slot_match r s p"
    by (intro ext) (simp add: slot_match_def same_query_scope [OF assms])
  with Cons show ?case by (simp add: t split: option.split)
qed simp

lemma same_query_linear:
  assumes "same_query q r"
  shows "linear_match cfg q = linear_match cfg r"
proof -
  have "reference_tiers q = reference_tiers r" using assms by (simp add: reference_tiers_def same_query_def)
  moreover have "choose_route cfg q c i m s = choose_route cfg r c i m s" for c i m s
    using assms by (simp add: choose_route_def same_query_def)
  moreover have "rq_channel q = rq_channel r" "rq_accountId q = rq_accountId r"
    using assms by (simp_all add: same_query_def)
  ultimately show ?thesis
    by (simp add: linear_match_def route_of_match_def same_query_match [OF assms]
        split: option.split)
qed

section \<open>The caches hold correct values\<close>

text \<open>Objects are never changed in place: a reference always leads to the same value.\<close>

record ConfigHeap =
  hp_bindings :: "nat \<Rightarrow> AgentBinding list option"
  hp_agents :: "nat \<Rightarrow> AgentEntry list option"
  hp_session :: "nat \<Rightarrow> SessionConfig option"

definition on_heap :: "ConfigHeap \<Rightarrow> OpenClawConfig \<Rightarrow> bool" where
  "on_heap h cfg \<longleftrightarrow>
     ob_val (cf_bindings cfg) = hp_bindings h (ob_ref (cf_bindings cfg)) \<and>
     ob_val (cf_agents cfg) = hp_agents h (ob_ref (cf_agents cfg)) \<and>
     ob_val (cf_session cfg) = hp_session h (ob_ref (cf_session cfg))"

definition bindings_of :: "AgentBinding list option \<Rightarrow> string \<Rightarrow> string \<Rightarrow> EvaluatedBinding list" where
  "bindings_of bindings channel accountId =
     filter (applies_to channel accountId) (evaluate_all (listRouteBindings bindings) 0)"

definition correct_bindings ::
  "AgentBinding list option \<Rightarrow> (EvaluatedBinding list \<Rightarrow> 'v) \<Rightarrow> string \<Rightarrow> 'v \<Rightarrow> bool" where
  "correct_bindings bindings f k v \<longleftrightarrow>
     (\<forall>channel accountId. id_shaped accountId \<and> channel_account_key channel accountId = k \<longrightarrow>
        v = f (bindings_of bindings channel accountId))"

definition bindings_cache_ok :: "ConfigHeap \<Rightarrow> EvaluatedBindingsCache \<Rightarrow> bool" where
  "bindings_cache_ok h c \<longleftrightarrow>
     (let bindings = hp_bindings h (ev_bindingsRef c)
      in ev_byChannel c = buildEvaluatedBindingsByChannel bindings \<and>
         memo_ok (correct_bindings bindings (\<lambda>es. es)) (ev_byChannelAccount c) \<and>
         memo_ok (correct_bindings bindings buildEvaluatedBindingsIndex) (ev_byChannelAccountIndex c))"

lemma channel_account_key_inj:
  assumes "channel_account_key c a = channel_account_key d b" "id_shaped a" "id_shaped b"
  shows "c = d \<and> a = b"
proof -
  have "CHR 0x09 \<notin> set (rev a)" "CHR 0x09 \<notin> set (rev b)"
    using assms(2,3) no_tab_ids by (auto simp: no_tab_def)
  moreover have "rev a @ CHR 0x09 # rev c = rev b @ CHR 0x09 # rev d"
    using arg_cong [OF assms(1), of rev] by (simp add: channel_account_key_def tab_def)
  ultimately have "rev a = rev b \<and> rev c = rev d"
    using separator_inj [of "CHR 0x09" "rev a" "rev b" "rev c" "rev d"] by simp
  then show ?thesis by simp
qed

lemma correct_bindings_key:
  "id_shaped a \<Longrightarrow> correct_bindings bs f (channel_account_key c a) v \<longleftrightarrow> v = f (bindings_of bs c a)"
  unfolding correct_bindings_def using channel_account_key_inj [of c a] by metis

lemma memo_ok_put: "memo_ok P m \<Longrightarrow> P k v \<Longrightarrow> memo_ok P (map_put k v m)"
  by (auto simp: memo_ok_def list_all_iff dest!: set_map_put_subset)

lemma bindings_cache_fresh: "on_heap h cfg \<Longrightarrow> (\<forall>c. existing = Some c \<longrightarrow> bindings_cache_ok h c) \<Longrightarrow>
    bindings_cache_ok h (bindings_cache cfg existing) \<and>
    ev_bindingsRef (bindings_cache cfg existing) = ob_ref (cf_bindings cfg)"
  by (auto simp: bindings_cache_def bindings_cache_ok_def on_heap_def Let_def split: option.split)

lemma getEvaluatedBindings_ok:
  assumes "on_heap h cfg" "\<forall>c. existing = Some c \<longrightarrow> bindings_cache_ok h c" "id_shaped a"
    and "getEvaluatedBindingsForChannelAccount cfg ch a existing = (es, c)"
  shows "es = channel_bindings cfg ch a \<and> bindings_cache_ok h c \<and> ev_bindingsRef c = ob_ref (cf_bindings cfg)"
proof -
  let ?c = "bindings_cache cfg existing" and ?k = "channel_account_key ch a"
  let ?bs = "hp_bindings h (ob_ref (cf_bindings cfg))"
  have ok: "bindings_cache_ok h ?c" "ev_bindingsRef ?c = ob_ref (cf_bindings cfg)"
    using bindings_cache_fresh [OF assms(1,2)] by simp_all
  have chan: "channel_bindings cfg ch a = bindings_of ?bs ch a"
    using assms(1) by (simp add: channel_bindings_def bindings_of_def on_heap_def)
  have ev: "evaluated_for (ev_byChannel ?c) ch a = bindings_of ?bs ch a"
    using ok by (simp add: bindings_cache_ok_def evaluated_for_filter bindings_of_def Let_def)
  note key = correct_bindings_key [OF assms(3)]
  show ?thesis
  proof (cases "map_get (ev_byChannelAccount ?c) ?k")
    case (Some hit)
    have "memo_ok (correct_bindings ?bs (\<lambda>es. es)) (ev_byChannelAccount ?c)"
      using ok by (simp add: bindings_cache_ok_def Let_def)
    from memo_ok_hit [OF this Some] have "hit = bindings_of ?bs ch a" by (simp add: key)
    then show ?thesis
      using assms(4) ok Some by (simp add: getEvaluatedBindingsForChannelAccount_def chan Let_def)
  next
    case None
    let ?es = "bindings_of ?bs ch a"
    have put: "memo_ok (correct_bindings ?bs (\<lambda>es. es)) (map_put ?k ?es m)"
        if "memo_ok (correct_bindings ?bs (\<lambda>es. es)) m" for m
      using that by (rule memo_ok_put) (simp add: key)
    have put_index: "memo_ok (correct_bindings ?bs buildEvaluatedBindingsIndex)
          (map_put ?k (buildEvaluatedBindingsIndex ?es) m)"
        if "memo_ok (correct_bindings ?bs buildEvaluatedBindingsIndex) m" for m
      using that by (rule memo_ok_put) (simp add: key)
    show ?thesis
      using assms(4) ok None
      by (auto simp: getEvaluatedBindingsForChannelAccount_def chan ev bindings_cache_ok_def put put_index
          Let_def split: if_splits)
  qed
qed

lemma getEvaluatedBindingIndex_ok:
  assumes "on_heap h cfg" "\<forall>c. existing = Some c \<longrightarrow> bindings_cache_ok h c" "id_shaped a"
    and "getEvaluatedBindingIndexForChannelAccount cfg ch a existing = (ix, c)"
  shows "ix = buildEvaluatedBindingsIndex (channel_bindings cfg ch a) \<and> bindings_cache_ok h c"
proof -
  obtain es c' where g: "getEvaluatedBindingsForChannelAccount cfg ch a existing = (es, c')"
    by (cases "getEvaluatedBindingsForChannelAccount cfg ch a existing")
  let ?bs = "hp_bindings h (ob_ref (cf_bindings cfg))"
  have ok: "es = channel_bindings cfg ch a" "bindings_cache_ok h c'"
      "ev_bindingsRef c' = ob_ref (cf_bindings cfg)"
    using getEvaluatedBindings_ok [OF assms(1,2,3) g] by simp_all
  have chan: "channel_bindings cfg ch a = bindings_of ?bs ch a"
    using assms(1) by (simp add: channel_bindings_def bindings_of_def on_heap_def)
  note key = correct_bindings_key [OF assms(3)]
  show ?thesis
  proof (cases "map_get (ev_byChannelAccountIndex c') (channel_account_key ch a)")
    case (Some hit)
    have "memo_ok (correct_bindings ?bs buildEvaluatedBindingsIndex) (ev_byChannelAccountIndex c')"
      using ok by (simp add: bindings_cache_ok_def Let_def)
    from memo_ok_hit [OF this Some] have "hit = buildEvaluatedBindingsIndex (bindings_of ?bs ch a)"
      by (simp add: key)
    then show ?thesis
      using assms(4) ok Some by (simp add: getEvaluatedBindingIndexForChannelAccount_def g chan Let_def)
  next
    case None
    then show ?thesis
      using assms(4) ok
      by (auto simp: getEvaluatedBindingIndexForChannelAccount_def g chan bindings_cache_ok_def key Let_def
          intro!: memo_ok_put)
  qed
qed

section \<open>Cached routes\<close>

interpretation resolved_routes: memo_cache store_route MAX_RESOLVED_ROUTE_CACHE_KEYS
  unfolding store_route_def by (rule restarting_cache) (simp add: MAX_RESOLVED_ROUTE_CACHE_KEYS_def)

definition correct_route :: "OpenClawConfig \<Rightarrow> string \<Rightarrow> ResolvedAgentRoute \<Rightarrow> bool" where
  "correct_route cfg k route \<longleftrightarrow>
     (\<forall>input. plain_query (route_query input) \<and>
        buildResolvedRouteCacheKey (route_query input) (dm_scope_of cfg) = k \<longrightarrow>
        route = linear_route cfg input)"

definition same_refs :: "OpenClawConfig \<Rightarrow> ResolvedRouteCache \<Rightarrow> bool" where
  "same_refs cfg c \<longleftrightarrow> rr_bindingsRef c = ob_ref (cf_bindings cfg) \<and>
     rr_agentsRef c = ob_ref (cf_agents cfg) \<and> rr_sessionRef c = ob_ref (cf_session cfg)"

definition caches_ok :: "ConfigHeap \<Rightarrow> RouteCaches \<Rightarrow> bool" where
  "caches_ok h caches \<longleftrightarrow>
     (\<forall>c cfg. rk_agents caches = Some c \<and> on_heap h cfg \<and> al_agentsRef c = ob_ref (cf_agents cfg) \<longrightarrow>
        c = agent_lookup cfg) \<and>
     (\<forall>c. rk_bindings caches = Some c \<longrightarrow> bindings_cache_ok h c) \<and>
     (\<forall>c cfg. rk_routes caches = Some c \<and> on_heap h cfg \<and> same_refs cfg c \<longrightarrow>
        memo_ok (correct_route cfg) (rr_byKey c))"

lemma on_heap_agents:
  "on_heap h cfg \<Longrightarrow> on_heap h cfg' \<Longrightarrow> ob_ref (cf_agents cfg) = ob_ref (cf_agents cfg') \<Longrightarrow>
     agent_lookup cfg = agent_lookup cfg'"
  by (simp add: agent_lookup_def listAgentEntries_def resolveDefaultAgentId_def on_heap_def Let_def)

lemma on_heap_eq:
  "on_heap h cfg \<Longrightarrow> on_heap h cfg' \<Longrightarrow> same_refs cfg c \<Longrightarrow> same_refs cfg' c \<Longrightarrow> cfg = cfg'"
  by (auto simp: on_heap_def same_refs_def intro!: OpenClawConfig.equality js_object.equality)

lemma agents_ok:
  assumes "on_heap h cfg" "caches_ok h caches"
  shows "resolveAgentLookupCache cfg (rk_agents caches) = agent_lookup cfg"
  using assms by (auto simp: resolveAgentLookupCache_def caches_ok_def split: option.split)

lemma account_shaped: "id_shaped (rq_accountId (route_query input))"
  using account_id_safe by (simp add: route_query_def)

lemma correct_route_own:
  assumes "plain_query (route_query input)"
  shows "correct_route cfg (buildResolvedRouteCacheKey (route_query input) (dm_scope_of cfg))
    (linear_route cfg input)"
  unfolding correct_route_def linear_route_match
  by (metis same_key_same_query [OF _ _ account_shaped assms account_shaped] same_query_linear)

lemma resolve_fresh_route_ok:
  assumes heap: "on_heap h cfg" and ok: "caches_ok h caches"
    and plain: "routes \<noteq> None \<longrightarrow> plain_query (route_query input)"
    and routes: "\<forall>r. routes = Some r \<longrightarrow> same_refs cfg r \<and> memo_ok (correct_route cfg) (rr_byKey r)"
    and fresh: "resolve_fresh_route cfg (route_query input) routes caches = (route, caches')"
  shows "route = linear_route cfg input \<and> caches_ok h caches'"
proof -
  let ?q = "route_query input"
  let ?es = "channel_bindings cfg (rq_channel ?q) (rq_accountId ?q)"
  obtain es c1 where g1: "getEvaluatedBindingsForChannelAccount cfg (rq_channel ?q) (rq_accountId ?q)
      (rk_bindings caches) = (es, c1)" by fastforce
  obtain ix c2 where g2: "getEvaluatedBindingIndexForChannelAccount cfg (rq_channel ?q)
      (rq_accountId ?q) (Some c1) = (ix, c2)" by fastforce
  have c1: "bindings_cache_ok h c1"
    using getEvaluatedBindings_ok [OF heap _ account_shaped g1] ok by (simp add: caches_ok_def)
  have c2: "ix = buildEvaluatedBindingsIndex ?es" "bindings_cache_ok h c2"
    using getEvaluatedBindingIndex_ok [OF heap _ account_shaped g2] c1 by simp_all
  have route: "route = linear_route cfg input"
    using fresh by (simp add: resolve_fresh_route_def g1 g2 c2(1) agents_ok [OF heap ok]
        find_tier_linear linear_route_def Let_def)
  have lookup: "agent_lookup cfg = agent_lookup cfg'"
    if "on_heap h cfg'" "al_agentsRef (agent_lookup cfg) = ob_ref (cf_agents cfg')" for cfg'
    using that heap by (intro on_heap_agents) (simp_all add: agent_lookup_def)
  let ?k = "buildResolvedRouteCacheKey ?q (dm_scope_of cfg)"
  have stored: "memo_ok (correct_route cfg') (store_route ?k route (rr_byKey r))"
    if "routes = Some r" "on_heap h cfg'" "same_refs cfg' r" for r cfg'
  proof -
    have "cfg' = cfg" using on_heap_eq [OF that(2) heap that(3)] routes that(1) by simp
    then show ?thesis
      using routes plain that(1) correct_route_own [of input cfg]
      by (auto simp: route intro: resolved_routes.store_ok)
  qed
  have "caches_ok h caches'"
    using fresh ok c2(2) stored lookup
    by (cases routes) (auto simp: resolve_fresh_route_def g1 g2 agents_ok [OF heap ok] caches_ok_def
        route same_refs_def Let_def)
  with route show ?thesis by simp
qed

lemma resolveAgentRoute_ok:
  assumes heap: "on_heap h cfg" and ok: "caches_ok h caches" and plain: "plain_query (route_query input)"
    and r: "resolveAgentRoute verbose cfg input caches = (route, caches')"
  shows "route = linear_route cfg input \<and> caches_ok h caches'"
proof (cases "verbose \<or> identity_links_of cfg \<noteq> None")
  case True
  with r show ?thesis
    by (intro resolve_fresh_route_ok [OF heap ok, where routes = None])
      (simp_all add: resolveAgentRoute_def Let_def)
next
  case False
  let ?routes = "resolveRouteCacheForConfig cfg (rk_routes caches)"
  let ?caches = "caches\<lparr>rk_routes := Some ?routes\<rparr>"
  let ?k = "buildResolvedRouteCacheKey (route_query input) (dm_scope_of cfg)"
  have routes: "same_refs cfg ?routes \<and> memo_ok (correct_route cfg) (rr_byKey ?routes)"
    using ok heap by (auto simp: resolveRouteCacheForConfig_def same_refs_def caches_ok_def Let_def
        split: option.split)
  have "memo_ok (correct_route cfg') (rr_byKey ?routes)"
    if "on_heap h cfg'" "same_refs cfg' ?routes" for cfg'
    using on_heap_eq [OF that(1) heap that(2)] routes by simp
  then have ok': "caches_ok h ?caches" using ok by (simp add: caches_ok_def)
  show ?thesis
  proof (cases "map_get (rr_byKey ?routes) ?k")
    case (Some hit)
    have "correct_route cfg ?k hit" using memo_ok_hit [OF conjunct2 [OF routes] Some] .
    then have "hit = linear_route cfg input" using plain by (simp add: correct_route_def)
    then show ?thesis using r False Some ok' by (simp add: resolveAgentRoute_def Let_def)
  next
    case None
    with r False have "resolve_fresh_route cfg (route_query input) (Some ?routes) ?caches = (route, caches')"
      by (simp add: resolveAgentRoute_def Let_def)
    with routes plain show ?thesis by (intro resolve_fresh_route_ok [OF heap ok']) simp_all
  qed
qed

fun resolve_all ::
  "bool \<Rightarrow> (OpenClawConfig \<times> ResolveAgentRouteInput) list \<Rightarrow> RouteCaches \<Rightarrow> ResolvedAgentRoute list" where
  "resolve_all verbose [] caches = []"
| "resolve_all verbose ((cfg, input) # calls) caches =
     (let (route, caches) = resolveAgentRoute verbose cfg input caches
      in route # resolve_all verbose calls caches)"

lemma resolve_all_ok:
  "caches_ok h caches \<Longrightarrow>
     list_all (\<lambda>(cfg, input). on_heap h cfg \<and> plain_query (route_query input)) calls \<Longrightarrow>
     resolve_all verbose calls caches = map (\<lambda>(cfg, input). linear_route cfg input) calls"
proof (induction calls arbitrary: caches)
  case (Cons call calls)
  obtain cfg input where call: "call = (cfg, input)" by (cases call)
  obtain route caches' where r: "resolveAgentRoute verbose cfg input caches = (route, caches')" by fastforce
  from Cons.prems have "route = linear_route cfg input \<and> caches_ok h caches'"
    by (intro resolveAgentRoute_ok [OF _ _ _ r]) (simp_all add: call)
  with Cons show ?case by (simp add: call r)
qed simp

lemma no_caches_ok [simp]: "caches_ok h no_caches"
  by (simp add: caches_ok_def no_caches_def)

lemma uncached_route: "fst (resolveAgentRoute True cfg input no_caches) = linear_route cfg input"
proof -
  let ?h = "\<lparr>hp_bindings = \<lambda>_. ob_val (cf_bindings cfg), hp_agents = \<lambda>_. ob_val (cf_agents cfg),
    hp_session = \<lambda>_. ob_val (cf_session cfg)\<rparr>"
  have "on_heap ?h cfg" by (simp add: on_heap_def)
  from resolve_fresh_route_ok [OF this no_caches_ok, of None input] show ?thesis
    by (cases "resolveAgentRoute True cfg input no_caches") (simp add: resolveAgentRoute_def Let_def)
qed

text \<open>C22: The indexed search of the route resolver is a linear search: the first tier that has a
  matching binding decides, and within a tier the first binding of the configured list, among the
  route bindings of the message's channel and account.\<close>

theorem route_search_is_linear:
  "fst (resolveAgentRoute True cfg input no_caches) = linear_route cfg input"
  by (rule uncached_route)


definition example_binding :: "string \<Rightarrow> string option \<Rightarrow> (string \<times> string) option \<Rightarrow> AgentBinding" where
  "example_binding agentId accountId peer =
     \<lparr>ab_type = None, ab_agentId = agentId,
      ab_match = Some \<lparr>bm_channel = JString ''Telegram'', bm_accountId = accountId,
        bm_peer = map_option (\<lambda>(k, i). (JString k, JString i)) peer, bm_guildId = JUndefined,
        bm_teamId = JUndefined, bm_roles = None\<rparr>, ab_dmScope = None\<rparr>"

definition example_route_config :: OpenClawConfig where
  "example_route_config =
     \<lparr>cf_bindings = \<lparr>ob_ref = 1, ob_val = Some
        [example_binding ''home'' (Some ''*'') None,
         example_binding ''guest'' (Some ''*'') (Some (''direct'', ''*'')),
         example_binding ''work'' None (Some (''dm'', ''42''))]\<rparr>,
      cf_agents = \<lparr>ob_ref = 2, ob_val = Some (map (\<lambda>i. \<lparr>ae_id = Some i, ae_default = False\<rparr>)
        [''main'', ''home'', ''guest'', ''work''])\<rparr>,
      cf_session = \<lparr>ob_ref = 3, ob_val = None\<rparr>\<rparr>"

definition example_route_input :: "(ChatType \<times> string) option \<Rightarrow> ResolveAgentRouteInput" where
  "example_route_input peer =
     \<lparr>ri_channel = JString ''telegram'', ri_accountId = None,
      ri_peer = map_option (\<lambda>(k, i). (k, JString i)) peer, ri_parentPeer = None,
      ri_guildId = JUndefined, ri_teamId = JUndefined, ri_memberRoleIds = None\<rparr>"


text \<open>The cache key does not tell a peer without an id from no peer, nor one role with a comma from
  two roles. Whichever message comes first decides the route of the other one.\<close>

lemma route_cache_confuses:
  "map ar_sessionKey (resolve_all False
      [(example_route_config, example_route_input None),
       (example_route_config, example_route_input (Some (ChatGroup, '''')))] no_caches) =
     [''agent:home:main'', ''agent:home:main''] \<and>
   map ar_sessionKey (resolve_all False
      [(example_route_config, example_route_input (Some (ChatGroup, ''''))),
       (example_route_config, example_route_input None)] no_caches) =
     [''agent:home:telegram:group:unknown'', ''agent:home:telegram:group:unknown''] \<and>
   formatRoleIdsCacheKey [''a,b''] = formatRoleIdsCacheKey [''b'', ''a'']"
  by code_simp

section \<open>The agent of a route\<close>

definition configured_agent_ids :: "OpenClawConfig \<Rightarrow> string list" where
  "configured_agent_ids cfg =
     map (\<lambda>i. normalizeAgentId (Some i)) (filter (\<lambda>i. i \<noteq> [])
       (map (\<lambda>agent. js_trim (coalesce (ae_id agent) [])) (listAgentEntries cfg)))"

lemma agents_by_id_entries:
  "e \<in> set (agents_by_id agents m) \<Longrightarrow> e \<in> set m \<or>
     fst e = snd e \<and> list_ex (\<lambda>agent. \<exists>i. ae_id agent = Some i \<and> js_trim i \<noteq> [] \<and>
       snd e = normalizeAgentId (Some (js_trim i))) agents"
proof (induction agents m rule: agents_by_id.induct)
  case (2 agent agents m)
  show ?case
  proof (cases "nonempty_string (map_option js_trim (ae_id agent))")
    case None
    with 2 show ?thesis by auto
  next
    case (Some rawId)
    with "2.prems" have "e \<in> set (agents_by_id agents
        (map_put (normalizeAgentId (Some rawId)) (sanitizeAgentId (Some rawId)) m))" by simp
    from "2.IH"(2) [OF Some this] Some show ?thesis
      by (auto simp: sanitizeAgentId_def dest!: set_map_put_subset)
  qed
qed simp

lemma agents_by_id_ne: "m \<noteq> [] \<Longrightarrow> agents_by_id agents m \<noteq> []"
  by (induction agents m rule: agents_by_id.induct) (auto split: option.split simp: map_put_def)

lemma agents_by_id_found:
  "list_ex (\<lambda>agent. js_trim (coalesce (ae_id agent) []) \<noteq> []) agents \<Longrightarrow> agents_by_id agents m \<noteq> []"
proof (induction agents m rule: agents_by_id.induct)
  case (2 agent agents m)
  have put: "agents_by_id agents (map_put k v m) \<noteq> []" for k v
    by (rule agents_by_id_ne) (auto simp: map_put_def)
  with 2 show ?case by (cases "ae_id agent") (auto simp: nonempty_string_def put)
qed simp

text \<open>A message never reaches an agent that is not configured: as soon as one agent is configured,
  the agent of a route is a configured one or the default one, whatever agent the matching binding
  names.\<close>

theorem route_agent_configured:
  assumes "configured_agent_ids cfg \<noteq> []"
  shows "ar_agentId (fst (resolveAgentRoute True cfg input no_caches)) \<in>
    set (configured_agent_ids cfg) \<union> {normalizeAgentId (Some (resolveDefaultAgentId cfg))}"
proof -
  let ?m = "agents_by_id (listAgentEntries cfg) []"
  have ne: "?m \<noteq> []"
    using assms by (intro agents_by_id_found) (auto simp: configured_agent_ids_def list_ex_iff filter_empty_conv)
  have known: "v \<in> set (configured_agent_ids cfg)" if hit: "map_get ?m k = Some v" for k v
  proof -
    obtain agent i where a: "agent \<in> set (listAgentEntries cfg)" "ae_id agent = Some i"
        "js_trim i \<noteq> []" "v = normalizeAgentId (Some (js_trim i))"
      using agents_by_id_entries [OF map_get_Some_in [OF hit]] by (auto simp: list_ex_iff)
    then have "js_trim i \<in> set (map (\<lambda>agent. js_trim (coalesce (ae_id agent) [])) (listAgentEntries cfg))"
      by (force simp: image_iff)
    with a(3,4) show ?thesis by (auto simp: configured_agent_ids_def)
  qed
  have "pickFirstExistingAgentId (agent_lookup cfg) i \<in>
      set (configured_agent_ids cfg) \<union> {normalizeAgentId (Some (resolveDefaultAgentId cfg))}" for i
    using ne known by (cases "map_get ?m (normalizeAgentId (Some (js_trim i)))")
      (auto simp: pickFirstExistingAgentId_def agent_lookup_def sanitizeAgentId_def nonempty_string_def Let_def)
  then show ?thesis
    unfolding uncached_route linear_route_match linear_match_def
    by (auto simp: route_of_match_def choose_route_def Let_def split: option.split)
qed

theorem route_agent_configured_witness:
  "ar_agentId (fst (resolveAgentRoute True example_route_config
      (example_route_input (Some (ChatDirect, ''42''))) no_caches)) \<in>
     {''main'', ''home'', ''guest'', ''work''}"
proof -
  have "configured_agent_ids example_route_config = [''main'', ''home'', ''guest'', ''work'']"
    "normalizeAgentId (Some (resolveDefaultAgentId example_route_config)) = ''main''"
    by code_simp+
  with route_agent_configured [of example_route_config] show ?thesis by auto
qed

end
