(* ===== verification/Bound_Accounts.thy ===== *)
theory Bound_Accounts
  imports Route_Bindings
begin

text \<open>
  The accounts that the configured route bindings name: \<^verbatim>\<open>routing/bindings.ts\<close> and
  \<^verbatim>\<open>resolveNormalizedRouteBindingMatch\<close> of \<^verbatim>\<open>routing/binding-scope.ts\<close>. The
  table of bundled channel ids behind \<^verbatim>\<open>normalizeChatChannelId\<close> is generated and
  \<^verbatim>\<open>localeCompare\<close> belongs to the platform: both are parameters.
\<close>

record NormalizedRouteBindingMatch =
  rb_agentId :: string
  rb_accountId :: string
  rb_channelId :: string

definition normalizeRouteBindingChannelId ::
  "(js_value \<Rightarrow> string option) \<Rightarrow> js_value \<Rightarrow> string option" where
  "normalizeRouteBindingChannelId normalizeChatChannelId raw =
     (case nonempty_string (normalizeChatChannelId raw) of
        Some normalized \<Rightarrow> Some normalized
      | None \<Rightarrow> nonempty_string (Some (normalizeLowercaseStringOrEmpty raw)))"

definition resolveNormalizedRouteBindingMatch ::
  "(js_value \<Rightarrow> string option) \<Rightarrow> AgentBinding \<Rightarrow> NormalizedRouteBindingMatch option" where
  "resolveNormalizedRouteBindingMatch normalizeChatChannelId binding =
     (case ab_match binding of
        None \<Rightarrow> None
      | Some m \<Rightarrow>
          (case normalizeRouteBindingChannelId normalizeChatChannelId (bm_channel m) of
             None \<Rightarrow> None
           | Some channelId \<Rightarrow>
               let accountId = js_trim (coalesce (bm_accountId m) [])
               in if accountId = [] \<or> accountId = ''*'' then None
                  else Some \<lparr>rb_agentId = normalizeAgentId (Some (ab_agentId binding)),
                    rb_accountId = normalizeAccountId (Some accountId), rb_channelId = channelId\<rparr>))"

definition bound_matches ::
  "(js_value \<Rightarrow> string option) \<Rightarrow> AgentBinding list option \<Rightarrow> string \<Rightarrow>
     NormalizedRouteBindingMatch list" where
  "bound_matches normalizeChatChannelId bindings channel =
     filter (\<lambda>r. rb_channelId r = channel)
       (map the (filter (\<lambda>r. r \<noteq> None)
         (map (resolveNormalizedRouteBindingMatch normalizeChatChannelId) (listRouteBindings bindings))))"

definition listBoundAccountIds ::
  "(js_value \<Rightarrow> string option) \<Rightarrow> (string \<Rightarrow> string \<Rightarrow> int) \<Rightarrow> AgentBinding list option \<Rightarrow> string \<Rightarrow>
     string list" where
  "listBoundAccountIds normalizeChatChannelId localeCompare bindings channelId =
     (case normalizeRouteBindingChannelId normalizeChatChannelId (JString channelId) of
        None \<Rightarrow> []
      | Some normalizedChannel \<Rightarrow>
          js_toSorted localeCompare (js_set (map rb_accountId
            (bound_matches normalizeChatChannelId bindings normalizedChannel))))"

definition resolveDefaultAgentBoundAccountId ::
  "(js_value \<Rightarrow> string option) \<Rightarrow> string \<Rightarrow> AgentBinding list option \<Rightarrow> string \<Rightarrow> string option" where
  "resolveDefaultAgentBoundAccountId normalizeChatChannelId defaultAgent bindings channelId =
     (case normalizeRouteBindingChannelId normalizeChatChannelId (JString channelId) of
        None \<Rightarrow> None
      | Some normalizedChannel \<Rightarrow>
          let defaultAgentId = normalizeAgentId (Some defaultAgent)
          in map_option rb_accountId (List.find (\<lambda>r. rb_agentId r = defaultAgentId)
               (bound_matches normalizeChatChannelId bindings normalizedChannel)))"

fun channel_account_bindings ::
  "NormalizedRouteBindingMatch list \<Rightarrow> (string, (string, string list) jsmap) jsmap \<Rightarrow>
     (string, (string, string list) jsmap) jsmap" where
  "channel_account_bindings [] m = m"
| "channel_account_bindings (r # rs) m =
     (let byAgent = coalesce (map_get m (rb_channelId r)) [];
          list = coalesce (map_get byAgent (rb_agentId r)) [];
          list = (if rb_accountId r \<in> set list then list else list @ [rb_accountId r])
      in channel_account_bindings rs
           (map_put (rb_channelId r) (map_put (rb_agentId r) list byAgent) m))"

definition buildChannelAccountBindings ::
  "(js_value \<Rightarrow> string option) \<Rightarrow> AgentBinding list option \<Rightarrow>
     (string, (string, string list) jsmap) jsmap" where
  "buildChannelAccountBindings normalizeChatChannelId bindings =
     channel_account_bindings (map the (filter (\<lambda>r. r \<noteq> None)
       (map (resolveNormalizedRouteBindingMatch normalizeChatChannelId) (listRouteBindings bindings)))) []"

definition resolvePreferredAccountId :: "string list \<Rightarrow> string \<Rightarrow> string" where
  "resolvePreferredAccountId boundAccounts defaultAccountId =
     (case boundAccounts of a # _ \<Rightarrow> a | [] \<Rightarrow> defaultAccountId)"

section \<open>The three views agree\<close>

lemma accounts_of_channel:
  "coalesce (map_get (coalesce (map_get (channel_account_bindings rs m) c) []) a) [] =
     foldl set_add (coalesce (map_get (coalesce (map_get m c) []) a) [])
       (map rb_accountId (filter (\<lambda>r. rb_channelId r = c \<and> rb_agentId r = a) rs))"
proof (induction rs m rule: channel_account_bindings.induct)
  case (2 r rs m)
  show ?case
    using 2 [OF refl refl refl] by (auto simp: Let_def set_add_def)
qed simp

lemma default_account_is_bound:
  "resolveDefaultAgentBoundAccountId nc defaultAgent bindings channelId = Some accountId \<Longrightarrow>
     accountId \<in> set (listBoundAccountIds nc lc bindings channelId)"
  by (auto simp: resolveDefaultAgentBoundAccountId_def listBoundAccountIds_def Let_def
      split: option.splits dest!: find_Some_in)

end
