(* ===== verification/Retry.thy ===== *)
theory Retry
  imports Number_Coercion
begin

text \<open>
  The retry scheduler \<^verbatim>\<open>packages/retry/src/index.ts\<close>: backoff, the retry supervisor
  and \<^verbatim>\<open>retryAsync\<close>. The operation that is retried, the callbacks of the options and
  the random draws are functions of the attempt; a callback that is awaited may reject. The
  calls that are made are recorded in order. Callbacks that are not awaited do not throw here.
  Not modelled: building error objects (\<^verbatim>\<open>toRetryError\<close>).
\<close>

section \<open>Backoff\<close>

text \<open>The numbers of a policy are finite.\<close>

record BackoffPolicy =
  bp_initialMs :: rat
  bp_maxMs :: rat
  bp_factor :: rat
  bp_jitter :: rat

definition round_half_up :: "rat \<Rightarrow> rat" where
  "round_half_up q = of_int \<lfloor>q + 1 / 2\<rfloor>"

definition computeBackoff :: "BackoffPolicy \<Rightarrow> int \<Rightarrow> rat \<Rightarrow> rat" where
  "computeBackoff policy attempt random =
     (let base = min (bp_maxMs policy) (bp_initialMs policy * bp_factor policy ^ nat (max (attempt - 1) 0));
          jitter = base * bp_jitter policy * random
      in min (bp_maxMs policy) (round_half_up (base + jitter)))"

definition computeBackoffSchedule :: "rat list \<Rightarrow> int \<Rightarrow> rat" where
  "computeBackoffSchedule scheduleMs attempt =
     (let index = min (attempt - 1) (int (length scheduleMs) - 1)
      in if attempt \<le> 0 then 0
         else if 0 \<le> index \<and> nat index < length scheduleMs then scheduleMs ! nat index else 0)"

section \<open>The supervisor\<close>

text \<open>Abort controllers are numbered as they are created; \<open>sv_aborted\<close> lists the aborted ones.\<close>

record RetrySupervisor =
  sv_policy :: BackoffPolicy
  sv_maxAttempts :: jsnum
  sv_attempts :: int
  sv_nextDelayOverrideMs :: "rat option"
  sv_initialMs :: rat
  sv_pendingAbort :: "nat option"
  sv_controllers :: nat
  sv_aborted :: "nat list"

record RetrySlot =
  rl_attempt :: int
  rl_delayMs :: rat
  rl_signal :: nat

definition new_supervisor :: "BackoffPolicy \<Rightarrow> jsnum option \<Rightarrow> RetrySupervisor" where
  "new_supervisor policy maxAttempts =
     \<lparr>sv_policy = policy, sv_maxAttempts = coalesce maxAttempts PosInf, sv_attempts = 0,
      sv_nextDelayOverrideMs = None, sv_initialMs = bp_initialMs policy, sv_pendingAbort = None,
      sv_controllers = 0, sv_aborted = []\<rparr>"

definition supervisor_cancel :: "RetrySupervisor \<Rightarrow> RetrySupervisor" where
  "supervisor_cancel s =
     s\<lparr>sv_aborted := sv_aborted s @ (case sv_pendingAbort s of None \<Rightarrow> [] | Some c \<Rightarrow> [c]),
       sv_pendingAbort := None\<rparr>"

definition supervisor_reset :: "rat option \<Rightarrow> RetrySupervisor \<Rightarrow> RetrySupervisor" where
  "supervisor_reset initialMs s =
     (supervisor_cancel s)\<lparr>sv_attempts := 0,
       sv_initialMs := coalesce initialMs (bp_initialMs (sv_policy s)),
       sv_nextDelayOverrideMs := None\<rparr>"

definition supervisor_next :: "rat \<Rightarrow> RetrySupervisor \<Rightarrow> RetrySlot option \<times> RetrySupervisor" where
  "supervisor_next random s =
     (let override = sv_nextDelayOverrideMs s;
          s = s\<lparr>sv_nextDelayOverrideMs := None\<rparr>;
          s = (if override = None then s\<lparr>sv_attempts := sv_attempts s + 1\<rparr> else s)
      in if override = None \<and> num_less (num_ceil (sv_maxAttempts s)) (num (sv_attempts s))
         then (None, s)
         else
           let attempt = max (sv_attempts s) 1;
               delayMs = coalesce override
                 (computeBackoff ((sv_policy s)\<lparr>bp_initialMs := sv_initialMs s\<rparr>) attempt random);
               s = supervisor_cancel s;
               controller = sv_controllers s
           in (Some \<lparr>rl_attempt = attempt, rl_delayMs = delayMs, rl_signal = controller\<rparr>,
               s\<lparr>sv_controllers := controller + 1, sv_pendingAbort := Some controller\<rparr>))"

section \<open>Configuration\<close>

datatype Jitter = JitterFull | JitterFraction jsnum

record RetryConfig =
  rc_attempts :: jsnum
  rc_minDelayMs :: jsnum
  rc_maxDelayMs :: jsnum
  rc_jitter :: Jitter

record RetryOverrides =
  ro_attempts :: unknown_value
  ro_minDelayMs :: unknown_value
  ro_maxDelayMs :: unknown_value
  ro_jitter :: unknown_value

definition DEFAULT_RETRY_CONFIG :: RetryConfig where
  "DEFAULT_RETRY_CONFIG = \<lparr>rc_attempts = num 3, rc_minDelayMs = num 300,
     rc_maxDelayMs = num 30000, rc_jitter = JitterFraction (num 0)\<rparr>"

definition clampNumber :: "unknown_value \<Rightarrow> jsnum \<Rightarrow> jsnum option \<Rightarrow> jsnum option \<Rightarrow> jsnum" where
  "clampNumber v fallback lower upper =
     (case asFiniteNumber v of
        None \<Rightarrow> fallback
      | Some n \<Rightarrow> num_min (num_max n (coalesce lower NegInf)) (coalesce upper PosInf))"

definition resolveAttemptCount :: "unknown_value \<Rightarrow> jsnum \<Rightarrow> jsnum" where
  "resolveAttemptCount v fallback = num_max (num 1) (num_round (coalesce (asFiniteNumber v) fallback))"

definition resolveRetryDelayMs :: "jsnum \<Rightarrow> jsnum" where
  "resolveRetryDelayMs v =
     (let finite = (if v = PosInf then num MAX_TIMER_TIMEOUT_MS
            else coalesce (asFiniteNumber (UNumber v)) (num 0))
      in num_min (num_max (num_round finite) (num 0)) (num MAX_TIMER_TIMEOUT_MS))"

definition resolveJitterConfig :: "unknown_value \<Rightarrow> Jitter \<Rightarrow> Jitter" where
  "resolveJitterConfig v fallback =
     (if v = UString ''full'' then JitterFull
      else (case asFiniteNumber v of
        None \<Rightarrow> fallback
      | Some fraction \<Rightarrow> JitterFraction (num_min (num_max fraction (num 0)) (num 1))))"

definition resolveRetryConfig :: "RetryConfig \<Rightarrow> RetryOverrides option \<Rightarrow> RetryConfig" where
  "resolveRetryConfig defaults overrides =
     (let get = (\<lambda>field. case overrides of None \<Rightarrow> UOther | Some o' \<Rightarrow> field o');
          attempts = resolveAttemptCount (get ro_attempts) (rc_attempts defaults);
          minDelayMs = resolveRetryDelayMs
            (clampNumber (get ro_minDelayMs) (rc_minDelayMs defaults) (Some (num 0)) None);
          maxDelayMs = num_max minDelayMs (resolveRetryDelayMs
            (clampNumber (get ro_maxDelayMs) (rc_maxDelayMs defaults) (Some (num 0)) None))
      in \<lparr>rc_attempts = attempts, rc_minDelayMs = minDelayMs, rc_maxDelayMs = maxDelayMs,
          rc_jitter = resolveJitterConfig (get ro_jitter) (rc_jitter defaults)\<rparr>)"

datatype JitterMode = JitterSymmetric | JitterPositive

definition applyJitter :: "jsnum \<Rightarrow> Jitter \<Rightarrow> JitterMode \<Rightarrow> rat \<Rightarrow> jsnum" where
  "applyJitter delayMs jitter mode random =
     (case jitter of
        JitterFull \<Rightarrow>
          if mode = JitterSymmetric
          then num_max (num 0) (num_round (num_times delayMs (Fin (1 / 2 + random * (1 / 2)))))
          else num_max (num 0) (num_ceil (num_times delayMs (Fin (1 + random))))
      | JitterFraction fraction \<Rightarrow>
          if num_leq fraction (num 0) then (if mode = JitterPositive then num_ceil delayMs else delayMs)
          else
            let offset = (if mode = JitterPositive then num_times (Fin random) fraction
                  else num_times (Fin (random * 2 - 1)) fraction);
                raw = num_times delayMs (num_plus (num 1) offset)
            in num_max (num 0) (if mode = JitterPositive then num_ceil raw else num_round raw))"

section \<open>Retrying an operation\<close>

record 'e RetryContext =
  cx_attempt :: int
  cx_maxAttempts :: int
  cx_err :: 'e

datatype 'e DelayOption = DelayNone | DelayFixed jsnum | DelayComputed "'e RetryContext \<Rightarrow> jsnum"

text \<open>\<open>op_onRetry\<close> and \<open>op_sleep\<close> give the rejection of the awaited call, if any; \<open>op_random\<close> is the
  draw made after a failed attempt.\<close>

record 'e RetryOptions =
  op_config :: RetryOverrides
  op_shouldRetry :: "('e \<Rightarrow> int \<Rightarrow> bool) option"
  op_retryAfterMs :: "('e \<Rightarrow> jsnum option) option"
  op_retryAfterMaxDelayMs :: "unknown_value option"
  op_delayMs :: "'e DelayOption"
  op_onRetry :: "'e RetryContext \<Rightarrow> jsnum \<Rightarrow> 'e option"
  op_random :: "int \<Rightarrow> rat"
  op_sleep :: "int \<Rightarrow> jsnum \<Rightarrow> 'e option"

datatype RetryEffect = CalledOperation int | ReportedRetry int jsnum | Slept int jsnum

text \<open>What the delay after a failed attempt depends on.\<close>

record DelayPlan =
  dp_baseDelay :: jsnum
  dp_delayCap :: jsnum
  dp_mode :: JitterMode

definition max_delay :: "'e RetryOptions \<Rightarrow> jsnum" where
  "max_delay options =
     (let resolved = resolveRetryConfig DEFAULT_RETRY_CONFIG (Some (op_config options))
      in if num_less (num 0) (rc_maxDelayMs resolved) then rc_maxDelayMs resolved else PosInf)"

definition retry_after_cap :: "'e RetryOptions \<Rightarrow> jsnum" where
  "retry_after_cap options =
     (let resolved = resolveRetryConfig DEFAULT_RETRY_CONFIG (Some (op_config options))
      in case op_retryAfterMaxDelayMs options of
           None \<Rightarrow> max_delay options
         | Some v \<Rightarrow> num_max (rc_minDelayMs resolved)
             (resolveRetryDelayMs (clampNumber v (max_delay options) (Some (num 0)) None)))"

definition retry_after_hint :: "'e RetryOptions \<Rightarrow> 'e \<Rightarrow> jsnum option" where
  "retry_after_hint options err =
     (case op_retryAfterMs options of
        None \<Rightarrow> None
      | Some f \<Rightarrow> (case f err of None \<Rightarrow> None | Some n \<Rightarrow> if num_isFinite n then Some n else None))"

definition delay_plan :: "'e RetryOptions \<Rightarrow> 'e RetryContext \<Rightarrow> DelayPlan" where
  "delay_plan options cx =
     (let resolved = resolveRetryConfig DEFAULT_RETRY_CONFIG (Some (op_config options));
          minDelayMs = rc_minDelayMs resolved;
          hint = retry_after_hint options (cx_err cx);
          configuredDelay = (case op_delayMs options of
            DelayNone \<Rightarrow> None | DelayFixed d \<Rightarrow> Some d | DelayComputed f \<Rightarrow> Some (f cx));
          baseDelay = (case hint of
            Some retryAfterMs \<Rightarrow> num_max retryAfterMs minDelayMs
          | None \<Rightarrow> (case configuredDelay of
              None \<Rightarrow> num_times minDelayMs (num_of_rat (2 ^ nat (cx_attempt cx - 1)))
            | Some d \<Rightarrow> num_max (resolveRetryDelayMs d) minDelayMs));
          delayCap = (if hint \<noteq> None then retry_after_cap options else max_delay options);
          canHonorRetryAfter = (case hint of None \<Rightarrow> False | Some h \<Rightarrow> num_leq h delayCap);
          wantsPositiveDraw = (if rc_jitter resolved = JitterFull then hint = None \<or> canHonorRetryAfter
            else canHonorRetryAfter)
      in \<lparr>dp_baseDelay = baseDelay, dp_delayCap = delayCap,
          dp_mode = (if wantsPositiveDraw then JitterPositive else JitterSymmetric)\<rparr>)"

definition retry_delay :: "'e RetryOptions \<Rightarrow> 'e RetryContext \<Rightarrow> jsnum" where
  "retry_delay options cx =
     (let resolved = resolveRetryConfig DEFAULT_RETRY_CONFIG (Some (op_config options));
          plan = delay_plan options cx;
          delay = num_min (dp_baseDelay plan) (dp_delayCap plan);
          delay = applyJitter delay (rc_jitter resolved) (dp_mode plan) (op_random options (cx_attempt cx))
      in num_min (num_max delay (rc_minDelayMs resolved)) (dp_delayCap plan))"

definition whole :: "jsnum \<Rightarrow> int" where
  "whole n = (case n of Fin q \<Rightarrow> \<lfloor>q\<rfloor> | _ \<Rightarrow> 0)"

text \<open>One pass through the loop that fails: report, sleep; \<open>Some\<close> rejection ends the call.\<close>

definition pause :: "'e RetryOptions \<Rightarrow> 'e RetryContext \<Rightarrow> 'e option \<times> RetryEffect list" where
  "pause options cx =
     (let delay = retry_delay options cx; attempt = cx_attempt cx
      in case op_onRetry options cx delay of
           Some err \<Rightarrow> (Some err, [ReportedRetry attempt delay])
         | None \<Rightarrow>
             if num_less (num 0) delay
             then (op_sleep options attempt delay, [ReportedRetry attempt delay, Slept attempt delay])
             else (None, [ReportedRetry attempt delay]))"

function retry_loop ::
  "(int \<Rightarrow> 'e + 'a) \<Rightarrow> ('e list \<Rightarrow> 'e) \<Rightarrow> 'e RetryOptions \<Rightarrow> int \<Rightarrow> int \<Rightarrow> 'e list \<Rightarrow> ('e + 'a) \<times> RetryEffect list"
where
  "retry_loop fn createFailure options maxAttempts attempt attemptErrors =
     (if \<not> attempt \<le> maxAttempts then (Inl (createFailure attemptErrors), [])
      else (case fn attempt of
        Inr v \<Rightarrow> (Inr v, [CalledOperation attempt])
      | Inl err \<Rightarrow>
          let attemptErrors = attemptErrors @ [err]
          in if attempt \<ge> maxAttempts \<or> \<not> coalesce (op_shouldRetry options) (\<lambda>_ _. True) err attempt
             then (Inl (createFailure attemptErrors), [CalledOperation attempt])
             else
               let (rejection, effects) =
                     pause options \<lparr>cx_attempt = attempt, cx_maxAttempts = maxAttempts, cx_err = err\<rparr>
               in case rejection of
                    Some r \<Rightarrow> (Inl r, CalledOperation attempt # effects)
                  | None \<Rightarrow>
                      let (result, more_effects) =
                        retry_loop fn createFailure options maxAttempts (attempt + 1) attemptErrors
                      in (result, CalledOperation attempt # effects @ more_effects)))"
  by pat_completeness auto
termination by (relation "measure (\<lambda>(_, _, _, m, a, _). nat (m + 1 - a))") auto

declare retry_loop.simps [simp del]

definition retryAsync ::
  "('e list \<Rightarrow> 'e) \<Rightarrow> (int \<Rightarrow> 'e + 'a) \<Rightarrow> 'e RetryOptions \<Rightarrow> ('e + 'a) \<times> RetryEffect list" where
  "retryAsync createFailure fn options =
     (let resolved = resolveRetryConfig DEFAULT_RETRY_CONFIG (Some (op_config options))
      in retry_loop fn createFailure options (whole (rc_attempts resolved)) 1 [])"

text \<open>The other form of the call, with a number of attempts and an initial delay. \<open>sleep\<close> gives the
  rejection of the awaited sleep.\<close>

function counted_loop ::
  "(int \<Rightarrow> 'e + 'a) \<Rightarrow> ('e list \<Rightarrow> 'e) \<Rightarrow> (int \<Rightarrow> jsnum \<Rightarrow> 'e option) \<Rightarrow> jsnum \<Rightarrow> int \<Rightarrow> int \<Rightarrow> 'e list \<Rightarrow>
     ('e + 'a) \<times> RetryEffect list"
where
  "counted_loop fn createFailure sleep initialDelayMs attempts index attemptErrors =
     (if \<not> index < attempts then (Inl (createFailure attemptErrors), [])
      else (case fn (index + 1) of
        Inr v \<Rightarrow> (Inr v, [CalledOperation (index + 1)])
      | Inl err \<Rightarrow>
          let attemptErrors = attemptErrors @ [err]
          in if index = attempts - 1 then (Inl (createFailure attemptErrors), [CalledOperation (index + 1)])
             else
               let delay = resolveRetryDelayMs
                     (num_times initialDelayMs (num_of_rat (2 ^ nat index)));
                   effects = [CalledOperation (index + 1), Slept (index + 1) delay]
               in case sleep (index + 1) delay of
                    Some r \<Rightarrow> (Inl r, effects)
                  | None \<Rightarrow>
                      let (result, more_effects) =
                        counted_loop fn createFailure sleep initialDelayMs attempts (index + 1) attemptErrors
                      in (result, effects @ more_effects)))"
  by pat_completeness auto
termination by (relation "measure (\<lambda>(_, _, _, _, m, i, _). nat (m - i))") auto

declare counted_loop.simps [simp del]

definition retryAsyncCounted ::
  "('e list \<Rightarrow> 'e) \<Rightarrow> (int \<Rightarrow> 'e + 'a) \<Rightarrow> (int \<Rightarrow> jsnum \<Rightarrow> 'e option) \<Rightarrow> jsnum \<Rightarrow> jsnum \<Rightarrow>
     ('e + 'a) \<times> RetryEffect list" where
  "retryAsyncCounted createFailure fn sleep attempts initialDelayMs =
     counted_loop fn createFailure sleep initialDelayMs
       (whole (resolveAttemptCount (UNumber attempts) (rc_attempts DEFAULT_RETRY_CONFIG))) 0 []"

section \<open>Sleeping\<close>

text \<open>\<^verbatim>\<open>sleepWithAbort\<close> as a state: whether the promise is settled and how, the delay of the
  armed timer, and whether the abort listener is registered. The argument tells whether there
  is a signal and whether it has already fired.\<close>

datatype SleepOutcome = SleepResolved | SleepAborted

record SleepRun =
  sl_outcome :: "SleepOutcome list"
  sl_settled :: bool
  sl_timer :: "jsnum option"
  sl_listening :: bool

datatype SleepEvent = SleepTimerFires | SleepSignalAborts

definition sleep_abort :: "SleepRun \<Rightarrow> SleepRun" where
  "sleep_abort r =
     (if sl_settled r then r
      else r\<lparr>sl_settled := True, sl_timer := None, sl_listening := False,
        sl_outcome := sl_outcome r @ [SleepAborted]\<rparr>)"

definition sleepWithAbort :: "jsnum \<Rightarrow> bool option \<Rightarrow> SleepRun" where
  "sleepWithAbort ms signal =
     (if \<not> num_isFinite ms \<or> num_leq ms (num 0)
      then \<lparr>sl_outcome = [SleepResolved], sl_settled = True, sl_timer = None, sl_listening = False\<rparr>
      else
        let delayMs = num_min (num_max (num_floor ms) (num 1)) (num MAX_TIMER_TIMEOUT_MS);
            r = \<lparr>sl_outcome = [], sl_settled = False, sl_timer = None, sl_listening = (signal \<noteq> None)\<rparr>
        in if signal = Some True then sleep_abort r else r\<lparr>sl_timer := Some delayMs\<rparr>)"

definition sleep_event :: "SleepEvent \<Rightarrow> SleepRun \<Rightarrow> SleepRun" where
  "sleep_event e r =
     (case e of
        SleepTimerFires \<Rightarrow>
          if sl_timer r = None then r
          else r\<lparr>sl_settled := True, sl_listening := False, sl_timer := None,
            sl_outcome := sl_outcome r @ [SleepResolved]\<rparr>
      | SleepSignalAborts \<Rightarrow> if sl_listening r then sleep_abort r else r)"

section \<open>Resolved configurations\<close>

lemma resolveRetryDelayMs_range:
  obtains i where "resolveRetryDelayMs v = num i" "0 \<le> i" "i \<le> MAX_TIMER_TIMEOUT_MS"
proof -
  have "\<exists>i. resolveRetryDelayMs v = num i \<and> 0 \<le> i \<and> i \<le> MAX_TIMER_TIMEOUT_MS"
  proof (cases v)
    case (Fin q)
    let ?i = "min (max \<lfloor>q + 1 / 2\<rfloor> 0) MAX_TIMER_TIMEOUT_MS"
    have "resolveRetryDelayMs v = num ?i"
      by (simp add: Fin resolveRetryDelayMs_def Let_def min_def max_def MAX_TIMER_TIMEOUT_MS_def)
    then show ?thesis by (intro exI [of _ ?i]) (simp add: MAX_TIMER_TIMEOUT_MS_def)
  qed (simp_all add: resolveRetryDelayMs_def asFiniteNumber_def MAX_TIMER_TIMEOUT_MS_def Let_def
      floor_add_int [symmetric, of _ 0])
  then show thesis using that by blast
qed

text \<open>The configuration that a call of \<^verbatim>\<open>retryAsync\<close> works with.\<close>

definition resolved_config :: "'e RetryOptions \<Rightarrow> RetryConfig" where
  "resolved_config options = resolveRetryConfig DEFAULT_RETRY_CONFIG (Some (op_config options))"

lemma resolved_attempts: "\<exists>n \<ge> 1. rc_attempts (resolved_config options) = num n"
proof -
  obtain q where q: "coalesce (asFiniteNumber (ro_attempts (op_config options))) (num 3) = Fin q"
    by (cases "asFiniteNumber (ro_attempts (op_config options))") (auto simp: asFiniteNumber_eq_Some)
  have "rc_attempts (resolved_config options) = num (max 1 \<lfloor>q + 1 / 2\<rfloor>)"
    using q by (simp add: resolved_config_def resolveRetryConfig_def resolveAttemptCount_def
        DEFAULT_RETRY_CONFIG_def Let_def max_def)
  then show ?thesis by (intro exI [of _ "max 1 \<lfloor>q + 1 / 2\<rfloor>"]) simp
qed

lemma resolved_delays:
  obtains m M where "rc_minDelayMs (resolved_config options) = num m" "0 \<le> m"
    "rc_maxDelayMs (resolved_config options) = num M" "m \<le> M" "M \<le> MAX_TIMER_TIMEOUT_MS"
proof -
  obtain m where m: "rc_minDelayMs (resolved_config options) = num m" "0 \<le> m" "m \<le> MAX_TIMER_TIMEOUT_MS"
    by (rule resolveRetryDelayMs_range) (simp add: resolved_config_def resolveRetryConfig_def Let_def)
  obtain b where "resolveRetryDelayMs (clampNumber (ro_maxDelayMs (op_config options))
      (rc_maxDelayMs DEFAULT_RETRY_CONFIG) (Some (num 0)) None) = num b" and b: "b \<le> MAX_TIMER_TIMEOUT_MS"
    by (rule resolveRetryDelayMs_range)
  then have "rc_maxDelayMs (resolved_config options) =
      num_max (rc_minDelayMs (resolved_config options)) (num b)"
    by (simp add: resolved_config_def resolveRetryConfig_def Let_def)
  note b = this b
  show thesis
    by (rule that [of m "max m b"]) (use m b in \<open>simp_all add: max_def\<close>)
qed

lemma resolved_jitter:
  "(\<exists>f. 0 \<le> f \<and> f \<le> 1 \<and> rc_jitter (resolved_config options) = JitterFraction (Fin f)) \<or>
   rc_jitter (resolved_config options) = JitterFull"
proof -
  let ?v = "ro_jitter (op_config options)"
  have "rc_jitter (resolved_config options) = resolveJitterConfig ?v (JitterFraction (num 0))"
    by (simp add: resolved_config_def resolveRetryConfig_def DEFAULT_RETRY_CONFIG_def Let_def)
  then show ?thesis
    by (cases "asFiniteNumber ?v")
      (auto simp: resolveJitterConfig_def asFiniteNumber_eq_Some intro: exI [of _ "min (max _ 0) 1"])
qed

text \<open>The minimum is below both caps.\<close>

lemma min_below_caps:
  "num_leq (rc_minDelayMs (resolved_config options)) (max_delay options)"
  "num_leq (rc_minDelayMs (resolved_config options)) (retry_after_cap options)"
proof -
  obtain m M where r: "rc_minDelayMs (resolved_config options) = num m" "0 \<le> m"
    "rc_maxDelayMs (resolved_config options) = num M" "m \<le> M"
    by (rule resolved_delays)
  show below: "num_leq (rc_minDelayMs (resolved_config options)) (max_delay options)"
    using r by (simp add: max_delay_def resolved_config_def [symmetric] Let_def)
  show "num_leq (rc_minDelayMs (resolved_config options)) (retry_after_cap options)"
  proof (cases "op_retryAfterMaxDelayMs options")
    case None
    with below show ?thesis by (simp add: retry_after_cap_def Let_def)
  next
    case (Some v)
    obtain b where "resolveRetryDelayMs (clampNumber v (max_delay options) (Some (num 0)) None) = num b"
      by (rule resolveRetryDelayMs_range)
    with Some r show ?thesis by (simp add: retry_after_cap_def resolved_config_def [symmetric] Let_def)
  qed
qed

section \<open>Delays\<close>

lemma base_delay:
  assumes "1 \<le> cx_attempt cx" "cx_attempt cx \<le> 1024"
  shows "\<exists>d. num_min (dp_baseDelay (delay_plan options cx)) (dp_delayCap (delay_plan options cx)) = Fin d \<and>
    num_leq (rc_minDelayMs (resolved_config options)) (Fin d)"
proof -
  let ?plan = "delay_plan options cx" and ?k = "nat (cx_attempt cx - 1)"
  obtain m M where r: "rc_minDelayMs (resolved_config options) = num m" "0 \<le> m"
    "rc_maxDelayMs (resolved_config options) = num M" "m \<le> M" "M \<le> MAX_TIMER_TIMEOUT_MS"
    by (rule resolved_delays)
  have cap: "num_leq (num m) (dp_delayCap ?plan)"
    using min_below_caps [of options]
    by (simp add: delay_plan_def resolved_config_def [symmetric] r(1) Let_def)
  have "(2 :: rat) ^ ?k < 2 ^ 1024" using assms by (intro power_strict_increasing) auto
  then have pow: "num_of_rat (2 ^ ?k) = Fin (2 ^ ?k)" by (intro num_of_rat_small) simp
  have "\<exists>i. resolveRetryDelayMs d = num i" for d
    by (rule resolveRetryDelayMs_range [of d]) blast
  then obtain b where conf: "\<And>d. resolveRetryDelayMs d = num (b d)" by metis
  have base: "num_leq (num m) (dp_baseDelay ?plan)"
  proof -
    have "(of_int m :: rat) \<le> of_int m * 2 ^ ?k" using r(2) by (simp add: mult_le_cancel_left1)
    then show ?thesis
      using r(1,2) by (auto simp: delay_plan_def resolved_config_def [symmetric] Let_def pow conf
          num_times_def retry_after_hint_def num_isFinite_iff num_leq_of_rat split: option.splits DelayOption.splits)
  qed
  have "dp_baseDelay ?plan \<noteq> PosInf \<or> dp_delayCap ?plan \<noteq> PosInf"
  proof (cases "0 < M")
    case True
    have "max_delay options = num M"
      using True by (simp add: max_delay_def resolved_config_def [symmetric] r(3) Let_def)
    then have "dp_delayCap ?plan \<noteq> PosInf"
      by (auto simp: delay_plan_def retry_after_cap_def resolved_config_def [symmetric] Let_def conf
          r(1) split: option.splits)
    then show ?thesis ..
  next
    case False
    then have "m = 0" using r by simp
    then have "dp_baseDelay ?plan \<noteq> PosInf"
      using r(1) by (auto simp: delay_plan_def resolved_config_def [symmetric] Let_def pow conf
          num_times_def retry_after_hint_def num_isFinite_iff split: option.splits DelayOption.splits)
    then show ?thesis ..
  qed
  with base cap show ?thesis
    by (cases "dp_baseDelay ?plan"; cases "dp_delayCap ?plan") (auto simp: r(1) num_min_def)
qed

definition jitter_ok :: "Jitter \<Rightarrow> bool" where
  "jitter_ok j \<longleftrightarrow> (case j of JitterFull \<Rightarrow> True
     | JitterFraction f \<Rightarrow> num_leq (num 0) f \<and> num_leq f (num 1))"

lemma resolved_jitter_ok: "jitter_ok (rc_jitter (resolved_config options))"
  using resolved_jitter [of options] by (auto simp: jitter_ok_def)

lemma jitter_fraction:
  assumes "jitter_ok (JitterFraction f)"
  obtains q where "f = Fin q" "0 \<le> q" "q \<le> 1"
  using assms by (cases f) (auto simp: jitter_ok_def)

lemma unit_product:
  fixes a b :: rat
  assumes "\<bar>a\<bar> \<le> 1" "\<bar>b\<bar> \<le> 1"
  shows "num_times (Fin a) (Fin b) = Fin (a * b)" "num_plus (num 1) (Fin (a * b)) = Fin (1 + a * b)"
proof -
  have "\<bar>a * b\<bar> \<le> 1" using mult_mono [OF assms] by (simp add: abs_mult)
  moreover have "(2 :: rat) < 2 ^ 1024" by (rule less_le_trans [of _ "2 ^ 2"]) (simp, rule power_increasing, simp_all)
  ultimately have "\<bar>a * b\<bar> < 2 ^ 1024" "\<bar>1 + a * b\<bar> < 2 ^ 1024" by linarith+
  then show "num_times (Fin a) (Fin b) = Fin (a * b)" "num_plus (num 1) (Fin (a * b)) = Fin (1 + a * b)"
    by (simp_all add: num_times_def num_plus_def)
qed

lemma jitter_not_NaN:
  assumes "jitter_ok j" "0 \<le> r" "r < 1"
  shows "applyJitter (Fin d) j mode r \<noteq> NaN"
proof (cases j)
  case JitterFull
  then show ?thesis
    by (auto simp: applyJitter_def num_max_def num_times_def num_of_rat_def)
next
  case (JitterFraction f)
  with assms obtain q where q: "f = Fin q" "0 \<le> q" "q \<le> 1" using jitter_fraction by blast
  have u: "num_times (Fin a) (Fin q) = Fin (a * q)" "num_plus (num 1) (Fin (a * q)) = Fin (1 + a * q)"
    if "\<bar>a\<bar> \<le> 1" for a using unit_product [OF that, of q] q by auto
  have "\<bar>r\<bar> \<le> 1" "\<bar>r * 2 - 1\<bar> \<le> 1" using assms by auto
  then show ?thesis
    using u [of r] u [of "r * 2 - 1"]
    by (auto simp: applyJitter_def JitterFraction q(1) Let_def num_max_def num_times_def num_of_rat_def
        simp del: of_int_1)
qed

text \<open>Positive jitter never shortens a delay.\<close>

lemma positive_jitter:
  assumes "jitter_ok j" "0 \<le> r" "r < 1" "0 \<le> d"
  shows "num_leq (Fin d) (applyJitter (Fin d) j JitterPositive r)"
proof -
  have more: "num_leq (Fin d) (num_max (num 0) (num_ceil (num_of_rat (d * (1 + x)))))" if "0 \<le> x" for x
    using that assms(4) by (intro num_leq_maxI num_leq_ceil num_leq_of_rat) (simp_all add: algebra_simps)
  show ?thesis
  proof (cases j)
    case JitterFull
    then show ?thesis using more [of r] assms by (simp add: applyJitter_def num_times_def)
  next
    case (JitterFraction f)
    with assms obtain q where q: "f = Fin q" "0 \<le> q" "q \<le> 1" using jitter_fraction by blast
    have "num_times (Fin r) (Fin q) = Fin (r * q)" "num_plus (num 1) (Fin (r * q)) = Fin (1 + r * q)"
      using unit_product [of r q] assms q by auto
    then show ?thesis
      using more [of "r * q"] num_leq_ceil [of "Fin d" "Fin d"] assms q
      by (simp add: applyJitter_def JitterFraction num_times_def [of "Fin d"] Let_def del: of_int_1)
  qed
qed

lemma retry_delay_unfold:
  assumes "num_min (dp_baseDelay (delay_plan options cx)) (dp_delayCap (delay_plan options cx)) = Fin d"
  shows "retry_delay options cx = num_min (num_max (applyJitter (Fin d) (rc_jitter (resolved_config options))
      (dp_mode (delay_plan options cx)) (op_random options (cx_attempt cx)))
      (rc_minDelayMs (resolved_config options))) (dp_delayCap (delay_plan options cx))"
  by (simp add: retry_delay_def resolved_config_def assms Let_def)

lemma min_below_cap: "num_leq (rc_minDelayMs (resolved_config options)) (dp_delayCap (delay_plan options cx))"
  using min_below_caps [of options] by (simp add: delay_plan_def Let_def)

definition draws_ok :: "'e RetryOptions \<Rightarrow> int \<Rightarrow> bool" where
  "draws_ok options attempt \<longleftrightarrow> 0 \<le> op_random options attempt \<and> op_random options attempt < 1"

text \<open>Whatever the configuration, the hints of the server and the random draws, the wait before
  the next attempt lies between the configured minimum and the cap in force, which is the cap for
  server hints when there is one.\<close>

theorem retry_delay_bounds:
  assumes "1 \<le> cx_attempt cx" "cx_attempt cx \<le> 1024" "draws_ok options (cx_attempt cx)"
  shows "num_leq (rc_minDelayMs (resolved_config options)) (retry_delay options cx) \<and>
    num_leq (retry_delay options cx)
      (if retry_after_hint options (cx_err cx) = None then max_delay options else retry_after_cap options)"
proof -
  obtain d where d: "num_min (dp_baseDelay (delay_plan options cx)) (dp_delayCap (delay_plan options cx)) = Fin d"
    using base_delay [OF assms(1,2)] by blast
  have "applyJitter (Fin d) (rc_jitter (resolved_config options)) (dp_mode (delay_plan options cx))
      (op_random options (cx_attempt cx)) \<noteq> NaN"
    using assms(3) by (intro jitter_not_NaN resolved_jitter_ok) (simp_all add: draws_ok_def)
  note within = num_leq_max_min [OF min_below_cap this]
  have cap: "dp_delayCap (delay_plan options cx) =
      (if retry_after_hint options (cx_err cx) = None then max_delay options else retry_after_cap options)"
    by (simp add: delay_plan_def Let_def)
  show ?thesis unfolding cap [symmetric] retry_delay_unfold [OF d] by (intro conjI within)
qed

definition plain_options :: "'e RetryOptions" where
  "plain_options =
     \<lparr>op_config = \<lparr>ro_attempts = UOther, ro_minDelayMs = UOther, ro_maxDelayMs = UNumber (num 1000),
        ro_jitter = UString ''full''\<rparr>, op_shouldRetry = None, op_retryAfterMs = Some (\<lambda>_. Some (num 700)),
      op_retryAfterMaxDelayMs = None, op_delayMs = DelayNone, op_onRetry = \<lambda>_ _. None,
      op_random = \<lambda>_. 1 / 4, op_sleep = \<lambda>_ _. None\<rparr>"

definition plain_context :: "nat RetryContext" where
  "plain_context = \<lparr>cx_attempt = 2, cx_maxAttempts = 3, cx_err = 0\<rparr>"

theorem retry_delay_bounds_witness:
  "retry_delay plain_options plain_context = num 875 \<and>
   num_leq (num 300) (num 875) \<and> num_leq (num 875) (num 1000)"
proof -
  have d: "retry_delay plain_options plain_context = num 875" by code_simp
  have "rc_minDelayMs (resolved_config (plain_options :: nat RetryOptions)) = num 300"
    "retry_after_hint plain_options (cx_err plain_context) \<noteq> None"
    "retry_after_cap (plain_options :: nat RetryOptions) = num 1000" by code_simp+
  moreover have "1 \<le> cx_attempt plain_context" "cx_attempt plain_context \<le> 1024"
    "draws_ok (plain_options :: nat RetryOptions) (cx_attempt plain_context)" by code_simp+
  ultimately show ?thesis
    using retry_delay_bounds [of plain_context plain_options] by (simp only: d if_False simp_thms)
qed

text \<open>A server that says how long to wait is never asked earlier: when the hint is within the cap for
  hints, the wait is at least the hint, whatever the jitter.\<close>

theorem retry_after_honoured:
  assumes "1 \<le> cx_attempt cx" "cx_attempt cx \<le> 1024" "draws_ok options (cx_attempt cx)"
    and hint: "retry_after_hint options (cx_err cx) = Some h" "num_leq h (retry_after_cap options)"
  shows "num_leq h (retry_delay options cx)"
proof -
  let ?plan = "delay_plan options cx" and ?min = "rc_minDelayMs (resolved_config options)"
  obtain d where d: "num_min (dp_baseDelay ?plan) (dp_delayCap ?plan) = Fin d" "num_leq ?min (Fin d)"
    using base_delay [OF assms(1,2)] by blast
  obtain m where m: "?min = num m" "0 \<le> m" by (rule resolved_delays)
  have plan: "dp_baseDelay ?plan = num_max h ?min" "dp_delayCap ?plan = retry_after_cap options"
    "dp_mode ?plan = JitterPositive"
    using hint by (simp_all add: delay_plan_def resolved_config_def Let_def)
  have self: "num_leq h h" using hint(2) by (cases h) simp_all
  have "num_leq h (Fin d)"
    using num_leq_minI [OF num_leq_maxI(1) [OF self, of ?min] hint(2)] by (simp add: d(1) [symmetric] plan m(1))
  moreover have "num_leq (Fin d) (applyJitter (Fin d) (rc_jitter (resolved_config options)) JitterPositive
      (op_random options (cx_attempt cx)))"
    using assms(3) m d(2) by (intro positive_jitter resolved_jitter_ok) (auto simp: draws_ok_def intro: order_trans)
  ultimately show ?thesis
    unfolding retry_delay_unfold [OF d(1)] plan
    by (intro num_leq_minI num_leq_maxI(1) hint(2)) (auto simp: m(1) intro: num_leq_trans)
qed

theorem retry_after_honoured_witness: "num_leq (num 700) (retry_delay plain_options plain_context)"
proof -
  have "retry_after_hint plain_options (cx_err plain_context) = Some (num 700)"
    "num_leq (num 700) (retry_after_cap (plain_options :: nat RetryOptions))"
    "1 \<le> cx_attempt plain_context" "cx_attempt plain_context \<le> 1024"
    "draws_ok (plain_options :: nat RetryOptions) (cx_attempt plain_context)" by code_simp+
  then show ?thesis by (intro retry_after_honoured)
qed

section \<open>How a call ends\<close>

definition attempt_context :: "int \<Rightarrow> int \<Rightarrow> 'e \<Rightarrow> 'e RetryContext" where
  "attempt_context maxAttempts attempt err =
     \<lparr>cx_attempt = attempt, cx_maxAttempts = maxAttempts, cx_err = err\<rparr>"

definition gives_up :: "'e RetryOptions \<Rightarrow> int \<Rightarrow> int \<Rightarrow> 'e \<Rightarrow> bool" where
  "gives_up options maxAttempts attempt err \<longleftrightarrow>
     attempt \<ge> maxAttempts \<or> \<not> coalesce (op_shouldRetry options) (\<lambda>_ _. True) err attempt"

text \<open>An attempt ends the call when it succeeds, when there is no further attempt, or when the pause
  before the next one is rejected.\<close>

definition ends_call :: "(int \<Rightarrow> 'e + 'a) \<Rightarrow> 'e RetryOptions \<Rightarrow> int \<Rightarrow> int \<Rightarrow> bool" where
  "ends_call fn options maxAttempts attempt \<longleftrightarrow>
     (case fn attempt of
        Inr _ \<Rightarrow> True
      | Inl err \<Rightarrow> gives_up options maxAttempts attempt err \<or>
          fst (pause options (attempt_context maxAttempts attempt err)) \<noteq> None)"

definition last_attempt :: "(int \<Rightarrow> 'e + 'a) \<Rightarrow> 'e RetryOptions \<Rightarrow> int \<Rightarrow> int \<Rightarrow> int" where
  "last_attempt fn options maxAttempts first = hd (filter (ends_call fn options maxAttempts) [first..maxAttempts])"

definition call_outcome ::
  "('e list \<Rightarrow> 'e) \<Rightarrow> (int \<Rightarrow> 'e + 'a) \<Rightarrow> 'e RetryOptions \<Rightarrow> int \<Rightarrow> int \<Rightarrow> 'e list \<Rightarrow> 'e + 'a" where
  "call_outcome createFailure fn options maxAttempts k errors =
     (case fn k of
        Inr v \<Rightarrow> Inr v
      | Inl err \<Rightarrow>
          if gives_up options maxAttempts k err then Inl (createFailure errors)
          else Inl (the (fst (pause options (attempt_context maxAttempts k err)))))"

definition operation_calls :: "RetryEffect list \<Rightarrow> int list" where
  "operation_calls effects =
     concat (map (\<lambda>e. case e of CalledOperation a \<Rightarrow> [a] | _ \<Rightarrow> []) effects)"

lemma operation_calls_simps [simp]:
  "operation_calls [] = []"
  "operation_calls (e # es) = (case e of CalledOperation a \<Rightarrow> a # operation_calls es | _ \<Rightarrow> operation_calls es)"
  "operation_calls (es @ fs) = operation_calls es @ operation_calls fs"
  by (simp_all add: operation_calls_def split: RetryEffect.split)

lemma pause_calls [simp]: "operation_calls (snd (pause options cx)) = []"
  by (simp add: pause_def Let_def split: option.split)

lemma last_attempt_step:
  assumes "a \<le> m"
  shows "last_attempt fn options m a =
    (if ends_call fn options m a then a else last_attempt fn options m (a + 1))"
  using assms by (simp add: last_attempt_def upto_rec1)

lemma last_attempt_range:
  assumes "a \<le> m"
  shows "a \<le> last_attempt fn options m a \<and> last_attempt fn options m a \<le> m \<and>
    ends_call fn options m (last_attempt fn options m a)"
proof -
  have "ends_call fn options m m" by (simp add: ends_call_def gives_up_def split: sum.split)
  with assms have "filter (ends_call fn options m) [a..m] \<noteq> []" by (auto simp: filter_empty_conv)
  then have "last_attempt fn options m a \<in> set (filter (ends_call fn options m) [a..m])"
    unfolding last_attempt_def by (rule hd_in_set)
  then show ?thesis by simp
qed

lemma retry_loop_end:
  assumes "a \<le> m" "ends_call fn options m a"
  shows "\<exists>es. operation_calls es = [] \<and> retry_loop fn cf options m a errors =
    (call_outcome cf fn options m a (errors @ [projl (fn a)]), CalledOperation a # es)"
proof (cases "fn a")
  case (Inr v)
  then show ?thesis
    using assms(1) by (intro exI [of _ "[]"], subst retry_loop.simps) (simp add: call_outcome_def)
next
  case (Inl err)
  show ?thesis
  proof (cases "gives_up options m a err")
    case True
    then show ?thesis
      using assms(1) Inl by (intro exI [of _ "[]"], subst retry_loop.simps)
        (simp add: call_outcome_def gives_up_def)
  next
    case False
    then obtain r es where pause: "pause options (attempt_context m a err) = (Some r, es)"
      using assms(2) Inl by (cases "pause options (attempt_context m a err)") (auto simp: ends_call_def)
    have "operation_calls es = []" using pause_calls [of options "attempt_context m a err"] pause by simp
    then show ?thesis
      using assms(1) Inl False pause by (intro exI [of _ es], subst retry_loop.simps)
        (simp add: call_outcome_def gives_up_def attempt_context_def Let_def)
  qed
qed

lemma retry_loop_ends:
  "a \<le> m \<Longrightarrow>
     operation_calls (snd (retry_loop fn cf options m a errors)) = [a..last_attempt fn options m a] \<and>
     fst (retry_loop fn cf options m a errors) = call_outcome cf fn options m (last_attempt fn options m a)
       (errors @ map (\<lambda>i. projl (fn i)) [a..last_attempt fn options m a])"
proof (induction fn cf options m a errors rule: retry_loop.induct)
  case (1 fn cf options m a errors)
  show ?case
  proof (cases "ends_call fn options m a")
    case True
    with retry_loop_end [OF "1.prems" True, of cf errors] "1.prems" show ?thesis
      by (auto simp: last_attempt_step)
  next
    case False
    then obtain err where err: "fn a = Inl err" "\<not> gives_up options m a err"
      "fst (pause options (attempt_context m a err)) = None"
      by (auto simp: ends_call_def split: sum.splits)
    then have less: "a + 1 \<le> m" by (simp add: gives_up_def)
    obtain effects where pause: "pause options (attempt_context m a err) = (None, effects)"
      using err(3) by (cases "pause options (attempt_context m a err)") simp
    let ?rest = "retry_loop fn cf options m (a + 1) (errors @ [err])"
    have loop: "retry_loop fn cf options m a errors = (fst ?rest, CalledOperation a # effects @ snd ?rest)"
      using err(1,2) pause "1.prems"
      by (subst retry_loop.simps) (simp add: gives_up_def attempt_context_def Let_def case_prod_beta)
    have "operation_calls effects = []" using pause_calls [of options "attempt_context m a err"] pause by simp
    moreover have "operation_calls (snd ?rest) = [a + 1..last_attempt fn options m (a + 1)] \<and>
        fst ?rest = call_outcome cf fn options m (last_attempt fn options m (a + 1))
          ((errors @ [err]) @ map (\<lambda>i. projl (fn i)) [a + 1..last_attempt fn options m (a + 1)])"
      using err(2) "1.prems" less
      by (intro "1.IH" [OF _ err(1) refl _ pause [symmetric, unfolded attempt_context_def] refl])
        (simp_all add: gives_up_def)
    moreover have "a \<le> last_attempt fn options m (a + 1)"
      using last_attempt_range [OF less, of fn options] by simp
    ultimately show ?thesis
      using False "1.prems" by (simp add: loop last_attempt_step upto_rec1 err(1))
  qed
qed

text \<open>C33: A call of \<^verbatim>\<open>retryAsync\<close> always ends, after at least one and at most the configured
  number of attempts, which are made in order: the last one is the first that succeeds, that may
  not be retried, or whose pause is rejected. It returns the value of that attempt, or rejects
  with the failure made of the errors of all attempts, or with the rejection of the pause.\<close>

theorem retry_ends:
  "let m = whole (rc_attempts (resolved_config options)); k = last_attempt fn options m 1
   in 1 \<le> k \<and> k \<le> m \<and> ends_call fn options m k \<and>
      operation_calls (snd (retryAsync createFailure fn options)) = [1..k] \<and>
      fst (retryAsync createFailure fn options) =
        call_outcome createFailure fn options m k (map (\<lambda>i. projl (fn i)) [1..k])"
proof -
  obtain n where "n \<ge> 1" "rc_attempts (resolved_config options) = num n" using resolved_attempts by blast
  then have m: "1 \<le> whole (rc_attempts (resolved_config options))" by (simp add: whole_def)
  show ?thesis
    unfolding retryAsync_def resolved_config_def [symmetric] Let_def
    using last_attempt_range [OF m] retry_loop_ends [OF m, of fn createFailure options "[]"] by simp
qed

text \<open>The counted form makes at least one and at most the given number of calls.\<close>

lemma counted_calls:
  "i < n \<Longrightarrow> \<exists>k. i < k \<and> k \<le> n \<and>
     operation_calls (snd (counted_loop fn cf sleep d n i errors)) = [i + 1..k]"
proof (induction fn cf sleep d n i errors rule: counted_loop.induct)
  case (1 fn cf sleep d n i errors)
  let ?delay = "resolveRetryDelayMs (num_times d (num_of_rat (2 ^ nat i)))"
  show ?case
  proof (cases "\<exists>err. fn (i + 1) = Inl err \<and> i \<noteq> n - 1 \<and> sleep (i + 1) ?delay = None")
    case False
    then have "operation_calls (snd (counted_loop fn cf sleep d n i errors)) = [i + 1..i + 1]"
      using "1.prems" by (subst counted_loop.simps) (auto simp: Let_def split: sum.split option.split)
    with "1.prems" show ?thesis by (intro exI [of _ "i + 1"]) simp
  next
    case True
    then obtain err where err: "fn (i + 1) = Inl err" "i \<noteq> n - 1" "sleep (i + 1) ?delay = None" by blast
    then have less: "i + 1 < n" using "1.prems" by simp
    let ?rest = "counted_loop fn cf sleep d n (i + 1) (errors @ [err])"
    have loop: "counted_loop fn cf sleep d n i errors =
        (fst ?rest, [CalledOperation (i + 1), Slept (i + 1) ?delay] @ snd ?rest)"
      using err "1.prems" by (subst counted_loop.simps) (simp add: Let_def case_prod_beta)
    obtain k where "i + 1 < k" "k \<le> n" "operation_calls (snd ?rest) = [i + 1 + 1..k]"
      using "1.IH" [OF _ err(1) refl _ refl refl err(3) less] "1.prems" err(2) by auto
    then show ?thesis by (intro exI [of _ k]) (simp add: loop upto_rec1)
  qed
qed

section \<open>The supervisor's budget and signals\<close>

text \<open>The draws of \<^verbatim>\<open>Math.random\<close> are part of the call; the override is a public field.\<close>

datatype SupervisorOp = OpNext rat | OpCancel | OpReset "rat option" | OpOverride rat

fun supervisor_run :: "SupervisorOp list \<Rightarrow> RetrySupervisor \<Rightarrow> RetrySlot list \<times> RetrySupervisor" where
  "supervisor_run [] s = ([], s)"
| "supervisor_run (OpNext r # ops) s =
     (let (slot, s) = supervisor_next r s; (slots, s) = supervisor_run ops s
      in ((case slot of None \<Rightarrow> [] | Some x \<Rightarrow> [x]) @ slots, s))"
| "supervisor_run (OpCancel # ops) s = supervisor_run ops (supervisor_cancel s)"
| "supervisor_run (OpReset i # ops) s = supervisor_run ops (supervisor_reset i s)"
| "supervisor_run (OpOverride d # ops) s = supervisor_run ops (s\<lparr>sv_nextDelayOverrideMs := Some d\<rparr>)"

definition signals_inv :: "RetrySupervisor \<Rightarrow> bool" where
  "signals_inv s \<longleftrightarrow> distinct (sv_aborted s) \<and>
     set (sv_aborted s) = {c. c < sv_controllers s \<and> sv_pendingAbort s \<noteq> Some c} \<and>
     (\<forall>c. sv_pendingAbort s = Some c \<longrightarrow> Suc c = sv_controllers s)"

lemma signals_cancel:
  assumes "signals_inv s"
  shows "signals_inv (supervisor_cancel s)"
proof (cases "sv_pendingAbort s")
  case None
  with assms show ?thesis by (simp add: signals_inv_def supervisor_cancel_def)
next
  case (Some c)
  with assms have d: "distinct (sv_aborted s)" "set (sv_aborted s) = {d. d < Suc c \<and> c \<noteq> d}"
    and c: "sv_controllers s = Suc c" by (simp_all add: signals_inv_def)
  have "{d. d < Suc c \<and> c \<noteq> d} \<union> {c} = {d. d < Suc c}" by auto
  with d show ?thesis by (simp add: signals_inv_def supervisor_cancel_def Some c)
qed

lemma cancel_sel [simp]:
  "sv_pendingAbort (supervisor_cancel s) = None" "sv_controllers (supervisor_cancel s) = sv_controllers s"
  by (simp_all add: supervisor_cancel_def)

lemma signals_reset: "signals_inv s \<Longrightarrow> signals_inv (supervisor_reset i s)"
  using signals_cancel [of s] by (simp add: signals_inv_def supervisor_reset_def)

lemma signals_override: "signals_inv (s\<lparr>sv_nextDelayOverrideMs := d\<rparr>) = signals_inv s"
  by (simp add: signals_inv_def)

lemma signals_new:
  "signals_inv s \<Longrightarrow> sv_pendingAbort s = None \<Longrightarrow> sv_controllers s = n \<Longrightarrow>
     signals_inv (s\<lparr>sv_controllers := Suc n, sv_pendingAbort := Some n\<rparr>)"
  by (auto simp: signals_inv_def less_Suc_eq)

lemma signals_attempts: "signals_inv (s\<lparr>sv_attempts := n\<rparr>) = signals_inv s"
  by (simp add: signals_inv_def)

lemma signals_next: "signals_inv s \<Longrightarrow> signals_inv (snd (supervisor_next r s))"
  by (auto simp: supervisor_next_def Let_def signals_override signals_attempts
      intro!: signals_new signals_cancel)

lemma signals_run: "signals_inv s \<Longrightarrow> signals_inv (snd (supervisor_run ops s))"
proof (induction ops s rule: supervisor_run.induct)
  case (2 r ops s)
  obtain slot s' where n: "supervisor_next r s = (slot, s')" by fastforce
  with signals_next [OF "2.prems", of r] "2.IH" [OF n [symmetric] refl] show ?case
    by (simp add: n case_prod_beta)
qed (simp_all add: signals_cancel signals_reset signals_override)

text \<open>However a supervisor is used, every attempt signal it handed out is aborted exactly once,
  except possibly the last one: whoever waits on an earlier slot is told to stop.\<close>

theorem supervisor_signals:
  "let s = snd (supervisor_run ops (new_supervisor policy maxAttempts))
   in distinct (sv_aborted s) \<and>
      (case sv_pendingAbort s of
         None \<Rightarrow> set (sv_aborted s) = {..<sv_controllers s}
       | Some c \<Rightarrow> c + 1 = sv_controllers s \<and> set (sv_aborted s) = {..<c})"
proof -
  have "signals_inv (new_supervisor policy maxAttempts)"
    by (simp add: signals_inv_def new_supervisor_def)
  then have "signals_inv (snd (supervisor_run ops (new_supervisor policy maxAttempts)))"
    by (rule signals_run)
  then show ?thesis by (auto simp: signals_inv_def Let_def split: option.splits)
qed

lemma computeBackoff_range:
  assumes "0 \<le> bp_initialMs p" "0 \<le> bp_maxMs p" "0 \<le> bp_factor p" "0 \<le> bp_jitter p" "0 \<le> r"
  shows "0 \<le> computeBackoff p a r \<and> computeBackoff p a r \<le> bp_maxMs p"
proof -
  let ?base = "min (bp_maxMs p) (bp_initialMs p * bp_factor p ^ nat (max (a - 1) 0))"
  have "0 \<le> ?base + ?base * bp_jitter p * r" using assms by (intro add_nonneg_nonneg mult_nonneg_nonneg) simp_all
  then have "0 \<le> round_half_up (?base + ?base * bp_jitter p * r)" by (simp add: round_half_up_def)
  then show ?thesis using assms(2) by (simp add: computeBackoff_def Let_def)
qed

definition is_next :: "SupervisorOp \<Rightarrow> bool" where
  "is_next op \<longleftrightarrow> (case op of OpNext _ \<Rightarrow> True | _ \<Rightarrow> False)"

lemma is_next_simps [simp]:
  "is_next (OpNext r)" "\<not> is_next OpCancel" "\<not> is_next (OpReset i)" "\<not> is_next (OpOverride d)"
  by (simp_all add: is_next_def)

definition budget_op :: "SupervisorOp \<Rightarrow> bool" where
  "budget_op op \<longleftrightarrow> (case op of OpNext r \<Rightarrow> 0 \<le> r | OpCancel \<Rightarrow> True | _ \<Rightarrow> False)"

definition policy_ok :: "BackoffPolicy \<Rightarrow> bool" where
  "policy_ok p \<longleftrightarrow> 0 \<le> bp_initialMs p \<and> 0 \<le> bp_maxMs p \<and> 0 \<le> bp_factor p \<and> 0 \<le> bp_jitter p"

lemma budget_run:
  assumes "list_all budget_op ops" "sv_nextDelayOverrideMs s = None" "0 \<le> sv_attempts s"
    "sv_maxAttempts s = Fin q" "policy_ok (sv_policy s)" "0 \<le> sv_initialMs s"
  shows "map rl_attempt (fst (supervisor_run ops s)) =
      [sv_attempts s + 1..min (sv_attempts s + int (length (filter is_next ops))) \<lceil>q\<rceil>] \<and>
    list_all (\<lambda>slot. 0 \<le> rl_delayMs slot \<and> rl_delayMs slot \<le> bp_maxMs (sv_policy s))
      (fst (supervisor_run ops s))"
  using assms
proof (induction ops s rule: supervisor_run.induct)
  case (2 r ops s)
  let ?a = "sv_attempts s + 1"
  obtain slot s' where n: "supervisor_next r s = (slot, s')" by fastforce
  have s': "sv_nextDelayOverrideMs s' = None" "sv_attempts s' = ?a" "sv_maxAttempts s' = Fin q"
    "sv_policy s' = sv_policy s" "sv_initialMs s' = sv_initialMs s"
    using n "2.prems" by (auto simp: supervisor_next_def supervisor_cancel_def Let_def split: if_splits)
  have slot: "slot = (if \<lceil>q\<rceil> < ?a then None
      else Some \<lparr>rl_attempt = ?a, rl_delayMs = computeBackoff ((sv_policy s)\<lparr>bp_initialMs := sv_initialMs s\<rparr>) ?a r,
        rl_signal = sv_controllers s\<rparr>)"
    using n "2.prems" by (auto simp: supervisor_next_def supervisor_cancel_def Let_def split: if_splits)
  have "0 \<le> computeBackoff ((sv_policy s)\<lparr>bp_initialMs := sv_initialMs s\<rparr>) ?a r \<and>
      computeBackoff ((sv_policy s)\<lparr>bp_initialMs := sv_initialMs s\<rparr>) ?a r \<le> bp_maxMs (sv_policy s)"
    using "2.prems" computeBackoff_range [of "(sv_policy s)\<lparr>bp_initialMs := sv_initialMs s\<rparr>" r ?a]
    by (simp add: policy_ok_def budget_op_def)
  moreover have "map rl_attempt (fst (supervisor_run ops s')) =
      [?a + 1..min (?a + int (length (filter is_next ops))) \<lceil>q\<rceil>] \<and>
    list_all (\<lambda>slot. 0 \<le> rl_delayMs slot \<and> rl_delayMs slot \<le> bp_maxMs (sv_policy s))
      (fst (supervisor_run ops s'))"
    using "2.IH" [OF n [symmetric] refl] "2.prems" s' by simp
  ultimately show ?case
    by (auto simp: n slot case_prod_beta upto_rec1 [of "1 + sv_attempts s"] algebra_simps)
qed (auto simp: budget_op_def supervisor_cancel_def)

text \<open>A supervisor hands out exactly its budget: without resets and overrides the slots carry the
  attempts 1, 2, 3 and so on up to the maximum, then there are none, and every wait is a
  nonnegative number within the policy's maximum.\<close>

theorem supervisor_budget:
  fixes q :: rat
  assumes "list_all budget_op ops" "policy_ok policy"
  defines "slots \<equiv> fst (supervisor_run ops (new_supervisor policy (Some (Fin q))))"
  shows "map rl_attempt slots = [1..min (int (length (filter is_next ops))) \<lceil>q\<rceil>] \<and>
    list_all (\<lambda>slot. 0 \<le> rl_delayMs slot \<and> rl_delayMs slot \<le> bp_maxMs policy) slots"
  using budget_run [OF assms(1), of "new_supervisor policy (Some (Fin q))" q] assms(2)
  by (simp add: slots_def new_supervisor_def policy_ok_def)

theorem supervisor_budget_witness:
  "map rl_attempt (fst (supervisor_run [OpNext 0, OpNext (1 / 2), OpCancel, OpNext 0]
     (new_supervisor \<lparr>bp_initialMs = 5000, bp_maxMs = 300000, bp_factor = 2, bp_jitter = 1 / 10\<rparr>
       (Some (num 2))))) = [1, 2]"
proof -
  let ?ops = "[OpNext 0, OpNext (1 / 2), OpCancel, OpNext 0]"
  let ?policy = "\<lparr>bp_initialMs = 5000, bp_maxMs = 300000, bp_factor = 2, bp_jitter = 1 / 10\<rparr>"
  have "list_all budget_op ?ops" "policy_ok ?policy" by (simp_all add: budget_op_def policy_ok_def)
  moreover have "[1..min (int (length (filter is_next ?ops))) \<lceil>of_int 2 :: rat\<rceil>] = [1, 2]" by code_simp
  ultimately show ?thesis using supervisor_budget [of ?ops ?policy "of_int 2"] by (simp only:)
qed

text \<open>An abortable sleep settles at most once; it has a timer exactly as long as it is not settled,
  and it listens to its signal exactly that long: nothing is leaked and nothing waits forever.\<close>

theorem sleep_settles_once:
  "let r = foldl (\<lambda>r e. sleep_event e r) (sleepWithAbort ms signal) events
   in length (sl_outcome r) \<le> 1 \<and> (sl_settled r \<longleftrightarrow> sl_outcome r \<noteq> []) \<and>
      (sl_timer r = None \<longleftrightarrow> sl_settled r) \<and> (sl_listening r \<longleftrightarrow> \<not> sl_settled r \<and> signal \<noteq> None)"
proof (induction events rule: rev_induct)
  case Nil
  show ?case by (auto simp: sleepWithAbort_def sleep_abort_def Let_def)
next
  case (snoc e events)
  then show ?case
    by (cases e) (auto simp: sleep_event_def sleep_abort_def Let_def)
qed

end
