(* ===== verification/ISO_Time.thy ===== *)
theory ISO_Time
  imports Number_Coercion
begin

text \<open>
  The part of the language's \<^verbatim>\<open>Date\<close> that the program stores timestamps with:
  \<^verbatim>\<open>toISOString\<close> in the proleptic Gregorian calendar and \<^verbatim>\<open>Date.parse\<close> of exactly
  such strings. What \<^verbatim>\<open>Date.parse\<close> makes of any other text is left to the platform by
  the language and is a parameter. A time is a number of milliseconds since 1970.
\<close>

section \<open>Calendar\<close>

definition leap_year :: "int \<Rightarrow> bool" where
  "leap_year y \<longleftrightarrow> y mod 4 = 0 \<and> (y mod 100 \<noteq> 0 \<or> y mod 400 = 0)"

text \<open>Days from the start of year 0 to the start of a year; 1970 starts on day 719528.\<close>

definition days_before_year :: "int \<Rightarrow> int" where
  "days_before_year y = 365 * y + (y + 3) div 4 - (y + 99) div 100 + (y + 399) div 400"

definition epoch_day :: int where "epoch_day = 719528"

definition month_lengths :: "int \<Rightarrow> int list" where
  "month_lengths y = [31, if leap_year y then 29 else 28, 31, 30, 31, 30, 31, 31, 30, 31, 30, 31]"

definition year_of_day :: "int \<Rightarrow> int" where
  "year_of_day n =
     (let y = 400 * n div 146097
      in if n < days_before_year y then y - 1
         else if days_before_year (y + 1) \<le> n then y + 1 else y)"

fun month_and_day :: "int list \<Rightarrow> nat \<Rightarrow> int \<Rightarrow> nat \<times> int" where
  "month_and_day [] m d = (m, d)"
| "month_and_day (l # ls) m d = (if d < l then (m, d) else month_and_day ls (Suc m) (d - l))"

lemma div_bounds:
  fixes k :: int
  assumes "0 < k"
  shows "k * (x div k) \<le> x" "x < k * (x div k) + k"
  using mult_div_mod_eq [of k x] pos_mod_bound [OF assms, of x] pos_mod_sign [OF assms, of x]
  by linarith+

text \<open>Rounding up a quotient.\<close>

lemma ceiling_div:
  fixes k :: int
  assumes "1 < k"
  shows "(y + k) div k = y div k + 1" "(y + (k - 1)) div k = (if y mod k = 0 then y div k else y div k + 1)"
proof -
  show next_div: "(x + k) div k = x div k + 1" for x using assms by (simp add: div_add_self2)
  let ?r = "y mod k"
  have r: "0 \<le> ?r" "?r < k" using assms by simp_all
  have "y + (k - 1) = (?r + (k - 1)) + k * (y div k)" using mult_div_mod_eq [of k y] by linarith
  then have "(y + (k - 1)) div k = ((?r + (k - 1)) + k * (y div k)) div k" by (rule arg_cong)
  also have "\<dots> = y div k + (?r + (k - 1)) div k" by (rule div_mult_self2) (use assms in simp)
  also have "(?r + (k - 1)) div k = (if ?r = 0 then 0 else 1)"
  proof (cases "?r = 0")
    case False
    then have "(?r + (k - 1)) div k = ((?r - 1) + k) div k" by (simp add: algebra_simps)
    also have "\<dots> = 1" unfolding next_div using r False by simp
    finally show ?thesis using False by simp
  qed (use assms in simp)
  finally show "(y + (k - 1)) div k = (if ?r = 0 then y div k else y div k + 1)" by simp
qed

lemma days_before_next_year:
  "days_before_year (y + 1) = days_before_year y + sum_list (month_lengths y)"
proof -
  define a b c where "a = (y + 3) div 4" and "b = (y + 99) div 100" and "c = (y + 399) div 400"
  define r4 r100 r400 where "r4 \<longleftrightarrow> y mod 4 = 0" and "r100 \<longleftrightarrow> y mod 100 = 0" and "r400 \<longleftrightarrow> y mod 400 = 0"
  have steps: "(y + 4) div 4 = a + (if r4 then 1 else 0)"
    "(y + 100) div 100 = b + (if r100 then 1 else 0)"
    "(y + 400) div 400 = c + (if r400 then 1 else 0)"
    using ceiling_div [of 4 y] ceiling_div [of 100 y] ceiling_div [of 400 y]
    by (simp_all add: a_def b_def c_def r4_def r100_def r400_def)
  have "y mod 400 mod 100 = y mod 100" "y mod 100 mod 4 = y mod 4" by (simp_all add: mod_mod_cancel)
  then have down: "r400 \<Longrightarrow> r100" "r100 \<Longrightarrow> r4" by (auto simp: r4_def r100_def r400_def)
  have "days_before_year (y + 1) = 365 * y + 365 + (y + 4) div 4 - (y + 100) div 100 + (y + 400) div 400"
    by (simp add: days_before_year_def)
  moreover have "days_before_year y = 365 * y + a - b + c"
    by (simp add: days_before_year_def a_def b_def c_def)
  moreover have "sum_list (month_lengths y) = (if r4 \<and> (\<not> r100 \<or> r400) then 366 else 365)"
    by (simp add: month_lengths_def leap_year_def r4_def r100_def r400_def)
  ultimately show ?thesis unfolding steps using down by (cases r4; cases r100; cases r400) simp_all
qed

lemma days_before_year_near:
  "146097 * x - 396 \<le> 400 * days_before_year x" "400 * days_before_year x \<le> 146097 * x + 699"
proof -
  define a b c where "a = (x + 3) div 4" and "b = (x + 99) div 100" and "c = (x + 399) div 400"
  have "4 * a \<le> x + 3" "x + 3 < 4 * a + 4" "100 * b \<le> x + 99" "x + 99 < 100 * b + 100"
    "400 * c \<le> x + 399" "x + 399 < 400 * c + 400"
    unfolding a_def b_def c_def by (rule div_bounds; simp)+
  moreover have "days_before_year x = 365 * x + a - b + c"
    by (simp add: days_before_year_def a_def b_def c_def)
  ultimately show "146097 * x - 396 \<le> 400 * days_before_year x" "400 * days_before_year x \<le> 146097 * x + 699"
    by linarith+
qed

lemma year_of_day_bounds:
  "days_before_year (year_of_day n) \<le> n \<and> n < days_before_year (year_of_day n + 1)"
proof -
  define y where "y = 400 * n div 146097"
  have len: "365 \<le> sum_list (month_lengths y)" for y by (simp add: month_lengths_def)
  have y: "146097 * y \<le> 400 * n" "400 * n < 146097 * y + 146097"
    using div_bounds [of 146097 "400 * n"] by (simp_all add: y_def)
  note near = days_before_year_near
  have "days_before_year y \<le> n + 1" using y(1) near(2) [of y] by linarith
  moreover have "n - 1 \<le> days_before_year (y + 1)"
    using y(2) near(1) [of "y + 1"] by (simp add: algebra_simps)
  moreover have "days_before_year y = days_before_year (y - 1) + sum_list (month_lengths (y - 1))"
    "days_before_year (y + 1 + 1) = days_before_year (y + 1) + sum_list (month_lengths (y + 1))"
    using days_before_next_year [of "y - 1"] days_before_next_year [of "y + 1"] by simp_all
  ultimately show ?thesis
    using len [of "y - 1"] len [of "y + 1"] by (simp add: year_of_day_def y_def [symmetric] Let_def)
qed

lemma month_and_day_sum:
  "month_and_day ls m d = (m', d') \<Longrightarrow> 0 \<le> d \<Longrightarrow> d < sum_list ls \<Longrightarrow>
     m \<le> m' \<and> m' < m + length ls \<and> 0 \<le> d' \<and> d' < ls ! (m' - m) \<and> sum_list (take (m' - m) ls) + d' = d"
proof (induction ls m d rule: month_and_day.induct)
  case (2 l ls m d)
  show ?case
  proof (cases "d < l")
    case False
    with 2 have "Suc m \<le> m' \<and> m' < Suc m + length ls \<and> 0 \<le> d' \<and> d' < ls ! (m' - Suc m) \<and>
        sum_list (take (m' - Suc m) ls) + d' = d - l" by simp
    moreover from this have "m' - m = Suc (m' - Suc m)" by (simp only: Suc_diff_Suc Suc_le_lessD)
    ultimately show ?thesis by simp
  qed (use 2 in simp)
qed simp

section \<open>Printing and parsing\<close>

text \<open>A number with leading zeros.\<close>

fun pad_digits :: "nat \<Rightarrow> int \<Rightarrow> string" where
  "pad_digits 0 n = []"
| "pad_digits (Suc k) n = pad_digits k (n div 10) @ [char_of (48 + nat (n mod 10))]"

lemma length_pad_digits [simp]: "length (pad_digits k n) = k"
  by (induction k arbitrary: n) auto

lemma pad_digits_value: "0 \<le> n \<Longrightarrow> n < 10 ^ k \<Longrightarrow> digits_value (pad_digits k n) = n"
proof (induction k arbitrary: n)
  case 0
  then show ?case by (simp add: digits_value_def)
next
  case (Suc k)
  have "n div 10 < 10 ^ k"
  proof (rule ccontr)
    assume "\<not> n div 10 < 10 ^ k"
    then have "10 * 10 ^ k \<le> 10 * (n div 10)" by simp
    moreover have "10 * (n div 10) \<le> n" by (rule div_bounds) simp
    ultimately show False using Suc.prems by simp
  qed
  with Suc have "digits_value (pad_digits k (n div 10)) = n div 10" by simp
  moreover have "nat (n mod 10) < 10" by simp
  ultimately show ?case
    using mult_div_mod_eq [of 10 n] by (simp add: digits_value_append digit_char)
qed

lemma pad_digits_sign:
  assumes "pad_digits k n = c # cs"
  shows "c \<noteq> CHR ''-'' \<and> c \<noteq> CHR ''+''"
proof -
  have "list_all is_digit (pad_digits k n)"
  proof (induction k arbitrary: n)
    case (Suc k)
    have "nat (n mod 10) < 10" by simp
    with Suc show ?case by (simp add: is_digit_def digit_char)
  qed simp
  with assms show ?thesis using digit_not_sign by auto
qed

definition year_string :: "int \<Rightarrow> string" where
  "year_string y =
     (if 0 \<le> y \<and> y \<le> 9999 then pad_digits 4 y
      else (if y < 0 then CHR ''-'' else CHR ''+'') # pad_digits 6 \<bar>y\<bar>)"

definition year_value :: "string \<Rightarrow> int" where
  "year_value s =
     (case s of
        c # ds \<Rightarrow> if c = CHR ''-'' then - digits_value ds else if c = CHR ''+'' then digits_value ds
          else digits_value s
      | [] \<Rightarrow> 0)"

lemma year_value_string: "\<bar>y\<bar> < 10 ^ 6 \<Longrightarrow> year_value (year_string y) = y"
proof (cases "0 \<le> y \<and> y \<le> 9999")
  case True
  have "pad_digits 4 y \<noteq> []" by (metis length_pad_digits list.size(3) zero_neq_numeral)
  then obtain c cs where "pad_digits 4 y = c # cs" by (cases "pad_digits 4 y") auto
  with True show ?thesis
    using pad_digits_sign pad_digits_value [of y 4] by (auto simp: year_string_def year_value_def)
next
  case False
  assume "\<bar>y\<bar> < 10 ^ 6"
  then have "digits_value (pad_digits 6 \<bar>y\<bar>) = \<bar>y\<bar>" by (intro pad_digits_value) simp_all
  with False show ?thesis by (cases "y < 0") (auto simp: year_string_def year_value_def)
qed

definition day_ms :: int where "day_ms = 86400000"

definition toISOString :: "int \<Rightarrow> string" where
  "toISOString t =
     (let n = t div day_ms + epoch_day; ms = t mod day_ms;
          y = year_of_day n;
          (m, d) = month_and_day (month_lengths y) 0 (n - days_before_year y)
      in year_string y @ ''-'' @ pad_digits 2 (int m + 1) @ ''-'' @ pad_digits 2 (d + 1) @ ''T'' @
         pad_digits 2 (ms div 3600000) @ '':'' @ pad_digits 2 (ms div 60000 mod 60) @ '':'' @
         pad_digits 2 (ms div 1000 mod 60) @ ''.'' @ pad_digits 3 (ms mod 1000) @ ''Z'')"

definition field :: "string \<Rightarrow> nat \<Rightarrow> nat \<Rightarrow> int" where
  "field s i k = digits_value (take k (drop i s))"

text \<open>The time whose fields stand in the text, if the text is the canonical form of that time.\<close>

definition iso_fields_time :: "string \<Rightarrow> int" where
  "iso_fields_time s =
     (let ys = take (length s - 20) s; r = drop (length s - 20) s; y = year_value ys
      in (days_before_year y + sum_list (take (nat (field r 1 2 - 1)) (month_lengths y)) +
            (field r 4 2 - 1) - epoch_day) * day_ms +
         field r 7 2 * 3600000 + field r 10 2 * 60000 + field r 13 2 * 1000 + field r 16 3)"

definition iso_time :: "string \<Rightarrow> int option" where
  "iso_time s = (let t = iso_fields_time s in if toISOString t = s then Some t else None)"

definition js_Date_parse :: "(string \<Rightarrow> int option) \<Rightarrow> string \<Rightarrow> int option" where
  "js_Date_parse other s = (case iso_time s of Some t \<Rightarrow> Some t | None \<Rightarrow> other s)"

text \<open>The times a \<^verbatim>\<open>Date\<close> can hold.\<close>

definition valid_time :: "int \<Rightarrow> bool" where
  "valid_time t \<longleftrightarrow> \<bar>t\<bar> \<le> MAX_DATE_TIMESTAMP_MS"

lemma fields_of_iso:
  fixes ys a2 b2 c2 d2 e2 f3 :: string
  assumes "length a2 = 2" "length b2 = 2" "length c2 = 2" "length d2 = 2" "length e2 = 2" "length f3 = 3"
  defines "s \<equiv> ys @ ''-'' @ a2 @ ''-'' @ b2 @ ''T'' @ c2 @ '':'' @ d2 @ '':'' @ e2 @ ''.'' @ f3 @ ''Z''"
  shows "take (length s - 20) s = ys" and "drop (length s - 20) s = drop (length ys) s"
    and "field (drop (length ys) s) 1 2 = digits_value a2" "field (drop (length ys) s) 4 2 = digits_value b2"
    "field (drop (length ys) s) 7 2 = digits_value c2" "field (drop (length ys) s) 10 2 = digits_value d2"
    "field (drop (length ys) s) 13 2 = digits_value e2" "field (drop (length ys) s) 16 3 = digits_value f3"
  using assms by (simp_all add: field_def s_def)

lemma time_of_day:
  fixes ms :: int
  shows "ms div 3600000 * 3600000 + (ms div 60000 mod 60) * 60000 + (ms div 1000 mod 60) * 1000 + ms mod 1000 = ms"
proof -
  define a b where "a = ms div 1000" and "b = a div 60"
  have "ms div 60000 = b" "ms div 3600000 = b div 60"
    unfolding a_def b_def by (simp_all add: zdiv_zmult2_eq [symmetric])
  moreover have "1000 * a + ms mod 1000 = ms" "60 * b + a mod 60 = a" "60 * (b div 60) + b mod 60 = b"
    unfolding a_def b_def by (rule mult_div_mod_eq)+
  ultimately show ?thesis unfolding a_def [symmetric] by (simp only:)
qed

lemma year_in_range:
  assumes "valid_time t"
  shows "\<bar>year_of_day (t div day_ms + epoch_day)\<bar> < 10 ^ 6"
proof -
  define n where "n = t div day_ms"
  define y where "y = year_of_day (n + epoch_day)"
  have "day_ms * n \<le> t" "t < day_ms * n + day_ms"
    unfolding n_def by (rule div_bounds; simp add: day_ms_def)+
  with assms have "n \<le> 100000000" "- 100000001 \<le> n"
    by (simp_all add: valid_time_def MAX_DATE_TIMESTAMP_MS_def day_ms_def)
  moreover have "days_before_year y \<le> n + epoch_day" "n + epoch_day < days_before_year (y + 1)"
    using year_of_day_bounds [of "n + epoch_day"] by (simp_all add: y_def)
  moreover note days_before_year_near(1) [of y] days_before_year_near(2) [of "y + 1"]
  ultimately have "\<bar>y\<bar> < 10 ^ 6" by (simp add: epoch_day_def)
  then show ?thesis by (simp add: y_def n_def)
qed

text \<open>The calendar fields of a time.\<close>

lemma calendar_fields:
  fixes t :: int
  obtains y m d h mi sc ml where
    "y = year_of_day (t div day_ms + epoch_day)"
    "month_and_day (month_lengths y) 0 (t div day_ms + epoch_day - days_before_year y) = (m, d)"
    "h = t mod day_ms div 3600000" "mi = t mod day_ms div 60000 mod 60"
    "sc = t mod day_ms div 1000 mod 60" "ml = t mod day_ms mod 1000"
    "m < 12" "0 \<le> d" "d < month_lengths y ! m" "d < 31"
    "0 \<le> h" "h < 24" "0 \<le> mi" "mi < 60" "0 \<le> sc" "sc < 60" "0 \<le> ml" "ml < 1000"
    "(days_before_year y + sum_list (take m (month_lengths y)) + d - epoch_day) * day_ms +
       h * 3600000 + mi * 60000 + sc * 1000 + ml = t"
proof -
  define n ms where "n = t div day_ms + epoch_day" and "ms = t mod day_ms"
  define y where "y = year_of_day n"
  obtain m d where md: "month_and_day (month_lengths y) 0 (n - days_before_year y) = (m, d)" by fastforce
  have "0 \<le> n - days_before_year y" "n - days_before_year y < sum_list (month_lengths y)"
    using year_of_day_bounds [of n] days_before_next_year [of y] by (simp_all add: y_def)
  note sum = month_and_day_sum [OF md this]
  have m: "m < 12" using sum by (simp add: month_lengths_def)
  have "month_lengths y ! m \<in> set (month_lengths y)" using sum by (intro nth_mem) simp
  then have d31: "month_lengths y ! m \<le> 31" by (auto simp: month_lengths_def split: if_splits)
  have ms: "0 \<le> ms" "ms < 86400000" by (simp_all add: ms_def day_ms_def)
  define h mi sc ml where "h = ms div 3600000" and "mi = ms div 60000 mod 60"
    and "sc = ms div 1000 mod 60" and "ml = ms mod 1000"
  have h: "h < 24" "0 \<le> h" using ms div_bounds [of 3600000 ms] by (simp_all add: h_def pos_imp_zdiv_nonneg_iff)
  have small: "0 \<le> mi" "mi < 60" "0 \<le> sc" "sc < 60" "0 \<le> ml" "ml < 1000"
    by (simp_all add: mi_def sc_def ml_def)
  have "h * 3600000 + mi * 60000 + sc * 1000 + ml = ms"
    unfolding h_def mi_def sc_def ml_def by (rule time_of_day)
  moreover have "(n - epoch_day) * day_ms + ms = t"
    using mult_div_mod_eq [of day_ms t] by (simp add: n_def ms_def algebra_simps)
  ultimately have "(days_before_year y + sum_list (take m (month_lengths y)) + d - epoch_day) * day_ms +
       h * 3600000 + mi * 60000 + sc * 1000 + ml = t"
    using sum by (simp add: algebra_simps)
  then show thesis
    by (rule that [rotated -1])
      (use m sum d31 h small md in \<open>simp_all add: h_def mi_def sc_def ml_def y_def n_def ms_def\<close>)
qed

text \<open>A printed time reads back as itself.\<close>

lemma iso_roundtrip:
  assumes "valid_time t"
  shows "iso_time (toISOString t) = Some t"
proof -
  obtain y m d h mi sc ml where y: "y = year_of_day (t div day_ms + epoch_day)"
    and md: "month_and_day (month_lengths y) 0 (t div day_ms + epoch_day - days_before_year y) = (m, d)"
    and parts: "h = t mod day_ms div 3600000" "mi = t mod day_ms div 60000 mod 60"
      "sc = t mod day_ms div 1000 mod 60" "ml = t mod day_ms mod 1000"
    and range: "m < 12" "0 \<le> d" "d < 31" "0 \<le> h" "h < 24" "0 \<le> mi" "mi < 60" "0 \<le> sc" "sc < 60"
      "0 \<le> ml" "ml < 1000"
    and t: "(days_before_year y + sum_list (take m (month_lengths y)) + d - epoch_day) * day_ms +
       h * 3600000 + mi * 60000 + sc * 1000 + ml = t"
    by (rule calendar_fields)
  have vals: "digits_value (pad_digits 2 h) = h" "digits_value (pad_digits 2 mi) = mi"
    "digits_value (pad_digits 2 sc) = sc" "digits_value (pad_digits 3 ml) = ml"
    "digits_value (pad_digits 2 (int m + 1)) = int m + 1" "digits_value (pad_digits 2 (d + 1)) = d + 1"
    using range by (simp_all add: pad_digits_value)
  let ?s = "year_string y @ ''-'' @ pad_digits 2 (int m + 1) @ ''-'' @ pad_digits 2 (d + 1) @ ''T'' @
    pad_digits 2 h @ '':'' @ pad_digits 2 mi @ '':'' @ pad_digits 2 sc @ ''.'' @ pad_digits 3 ml @ ''Z''"
  have s: "toISOString t = ?s"
    unfolding toISOString_def Let_def y [symmetric] md by (simp add: parts)
  have year: "year_value (year_string y) = y"
    using year_in_range [OF assms] by (intro year_value_string) (simp add: y)
  note f = fields_of_iso [where ys = "year_string y" and ?a2.0 = "pad_digits 2 (int m + 1)" and
      ?b2.0 = "pad_digits 2 (d + 1)" and ?c2.0 = "pad_digits 2 h" and ?d2.0 = "pad_digits 2 mi" and
      ?e2.0 = "pad_digits 2 sc" and ?f3.0 = "pad_digits 3 ml", OF length_pad_digits length_pad_digits
      length_pad_digits length_pad_digits length_pad_digits length_pad_digits]
  have "iso_fields_time ?s = (days_before_year y + sum_list (take m (month_lengths y)) + d - epoch_day) * day_ms +
      h * 3600000 + mi * 60000 + sc * 1000 + ml"
    unfolding iso_fields_time_def Let_def
    unfolding f year vals by (simp add: algebra_simps)
  also note t
  finally show ?thesis by (simp add: iso_time_def s)
qed

text \<open>A timestamp holds no blanks and is not empty.\<close>

lemma pad_digits_not_white: "c \<in> set (pad_digits k n) \<Longrightarrow> \<not> js_white_space c"
proof (induction k arbitrary: n)
  case (Suc k)
  have "nat (n mod 10) < 10" by simp
  with Suc show ?case by (auto simp: js_white_space_def of_char_of)
qed simp

lemma toISOString_not_white: "list_all (\<lambda>c. \<not> js_white_space c) (toISOString t)"
proof -
  have signs: "\<not> js_white_space (CHR ''-'')" "\<not> js_white_space (CHR ''+'')" "\<not> js_white_space (CHR ''T'')"
    "\<not> js_white_space (CHR '':'')" "\<not> js_white_space (CHR ''.'')" "\<not> js_white_space (CHR ''Z'')"
    by code_simp+
  then have "\<not> js_white_space c" if "c \<in> set (year_string y)" for c y
    using that by (auto simp: year_string_def dest: pad_digits_not_white split: if_splits)
  with signs show ?thesis
    by (auto simp: toISOString_def list_all_iff Let_def dest: pad_digits_not_white split: prod.split)
qed

lemma toISOString_trim [simp]: "js_trim (toISOString t) = toISOString t"
  by (rule js_trim_no_space) (rule toISOString_not_white)

lemma toISOString_nonempty [simp]: "toISOString t \<noteq> []"
  by (simp add: toISOString_def Let_def split: prod.split)

lemma parse_own_timestamp: "valid_time t \<Longrightarrow> js_Date_parse other (toISOString t) = Some t"
  by (simp add: js_Date_parse_def iso_roundtrip)

end
