(* ===== verification/Pairing_Tables.thy ===== *)
theory Pairing_Tables
  imports Session_Key_Text ISO_Time
begin

text \<open>
  Persistence of the pairing store: the keys of \<^verbatim>\<open>pairing/pairing-store-keys.ts\<close> and the
  two SQLite tables of \<^verbatim>\<open>pairing/pairing-store-sqlite.ts\<close>. A table is the list of its rows;
  inserting a second row with the same primary key is an error. Text compares by code units, as
  the default collation of the tables does. The column with the metadata holds the document its
  JSON text denotes; the order JavaScript gives to integer keys of an object and its treatment of
  the key \<^verbatim>\<open>__proto__\<close> are not modelled for metadata. The error for an account id that is no string is part of
  \<open>resolveAllowFromAccountId\<close>; inside the program accounts are strings (\<open>allow_account\<close>).

  The lemmas give the round trip: what is written for a channel is read back, and the rows of
  other channels are untouched.
\<close>

section \<open>Keys\<close>

datatype PairingKeyKind = ChannelKey | AccountIdKey

datatype PairingError =
    InvalidPairingKey PairingKeyKind string string
  | CodesExhausted nat
  | DuplicateRow
  | NotAnArray

definition describePairingKeyInput :: "js_value \<Rightarrow> string" where
  "describePairingKeyInput v =
     (case v of
        JNull \<Rightarrow> ''null''
      | JArray _ \<Rightarrow> ''array''
      | JString s \<Rightarrow>
          (let trimmed = js_trim s
           in if trimmed \<noteq> [] then ''string length '' @ js_string_of_int (int (length trimmed))
              else ''empty string'')
      | JNumber _ \<Rightarrow> ''number''
      | JBool _ \<Rightarrow> ''boolean''
      | JUndefined \<Rightarrow> ''undefined''
      | JObject _ \<Rightarrow> ''object'')"

definition invalidPairingKeyError :: "PairingKeyKind \<Rightarrow> string \<Rightarrow> js_value \<Rightarrow> PairingError" where
  "invalidPairingKeyError kind reason v = InvalidPairingKey kind reason (describePairingKeyInput v)"

definition unsafe_key_char :: "char \<Rightarrow> bool" where
  "unsafe_key_char c \<longleftrightarrow> (of_char c :: nat) \<in> set [92, 47, 58, 42, 63, 34, 60, 62, 124]"

fun replace_double_dots :: "string \<Rightarrow> string" where
  "replace_double_dots (a # b # cs) =
     (if a = CHR ''.'' \<and> b = CHR ''.'' then CHR ''_'' # replace_double_dots cs
      else a # replace_double_dots (b # cs))"
| "replace_double_dots s = s"

definition normalizePairingKey :: "js_value \<Rightarrow> PairingKeyKind \<Rightarrow> PairingError + string" where
  "normalizePairingKey v kind =
     (case v of
        JString _ \<Rightarrow>
          (let raw = normalizeLowercaseStringOrEmpty v
           in if raw = [] then Inl (invalidPairingKeyError kind ''expected non-empty string'' v)
              else
                let safe = replace_double_dots (map (\<lambda>c. if unsafe_key_char c then CHR ''_'' else c) raw)
                in if safe = [] \<or> safe = ''_'' then
                     Inl (invalidPairingKeyError kind ''sanitized key is empty'' v)
                   else Inr safe)
      | _ \<Rightarrow> Inl (invalidPairingKeyError kind ''expected non-empty string'' v))"

definition safeChannelKey :: "string \<Rightarrow> PairingError + string" where
  "safeChannelKey channel = normalizePairingKey (JString channel) ChannelKey"

definition safeAccountKey :: "string \<Rightarrow> PairingError + string" where
  "safeAccountKey accountId = normalizePairingKey (JString accountId) AccountIdKey"

definition dedupePreserveOrder :: "string list \<Rightarrow> string list" where
  "dedupePreserveOrder entries = normalizeUniqueStringEntries (Some (map JString entries))"

definition allow_account :: "string option \<Rightarrow> string" where
  "allow_account accountId =
     (let s = normalizeLowercaseStringOrEmpty (case accountId of None \<Rightarrow> JUndefined | Some a \<Rightarrow> JString a)
      in if s = [] then DEFAULT_ACCOUNT_ID else s)"

definition resolveAllowFromAccountId :: "js_value \<Rightarrow> PairingError + string" where
  "resolveAllowFromAccountId accountId =
     (case accountId of
        JUndefined \<Rightarrow> Inr (allow_account None)
      | JNull \<Rightarrow> Inr (allow_account None)
      | JString s \<Rightarrow> Inr (allow_account (Some s))
      | _ \<Rightarrow> Inl (invalidPairingKeyError AccountIdKey ''expected non-empty string'' accountId))"

section \<open>Requests\<close>

type_synonym pairing_meta = "(string, string) jsmap"

record PairingRequest =
  pr_id :: string
  pr_code :: string
  pr_createdAt :: string
  pr_lastSeenAt :: string
  pr_meta :: "pairing_meta option"

record ChannelPairingState =
  cs_requests :: "PairingRequest list"
  cs_allowFrom :: "(string, string list) jsmap"

definition parseTimestamp :: "(string \<Rightarrow> int option) \<Rightarrow> string option \<Rightarrow> int option" where
  "parseTimestamp other v =
     (case nonempty_string v of None \<Rightarrow> None | Some s \<Rightarrow> js_Date_parse other s)"

definition normalizePersistedPairingMeta :: "js_value \<Rightarrow> pairing_meta option" where
  "normalizePersistedPairingMeta v =
     (case v of
        JObject entries \<Rightarrow>
          (let out = foldl (\<lambda>out (key, entry).
                 case normalizeOptionalString entry of
                   Some normalized \<Rightarrow> map_put key normalized out | None \<Rightarrow> out) [] entries
           in if length out > 0 then Some out else None)
      | _ \<Rightarrow> None)"

definition meta_object :: "pairing_meta option \<Rightarrow> js_value" where
  "meta_object m =
     (case m of None \<Rightarrow> JUndefined | Some m \<Rightarrow> JObject (map (\<lambda>(k, v). (k, JString v)) m))"

definition normalizePersistedPairingRequest ::
  "(string \<Rightarrow> int option) \<Rightarrow> PairingRequest \<Rightarrow> PairingRequest option" where
  "normalizePersistedPairingRequest other v =
     (let createdAt = normalizeOptionalString (JString (pr_createdAt v));
          lastSeenAt = coalesce2 (normalizeOptionalString (JString (pr_lastSeenAt v))) createdAt
      in case (normalizeOptionalString (JString (pr_id v)), normalizeOptionalString (JString (pr_code v)),
               createdAt, lastSeenAt) of
           (Some i, Some code, Some created, Some seen) \<Rightarrow>
             if parseTimestamp other (Some created) = None \<or> parseTimestamp other (Some seen) = None then None
             else Some \<lparr>pr_id = i, pr_code = code, pr_createdAt = created, pr_lastSeenAt = seen,
               pr_meta = normalizePersistedPairingMeta (meta_object (pr_meta v))\<rparr>
         | _ \<Rightarrow> None)"

definition meta_account :: "PairingRequest \<Rightarrow> string option" where
  "meta_account entry = Option.bind (pr_meta entry) (\<lambda>m. map_get m ''accountId'')"

definition resolvePairingRequestAccountId :: "PairingRequest \<Rightarrow> string" where
  "resolvePairingRequestAccountId entry = allow_account (meta_account entry)"

section \<open>Tables\<close>

datatype MetaColumn = MetaNull | MetaUnreadable | MetaDocument js_value

record PairingRequestRow =
  qr_channel_key :: string
  qr_account_id :: string
  qr_request_id :: string
  qr_code :: string
  qr_created_at :: string
  qr_last_seen_at :: string
  qr_meta_json :: MetaColumn

record PairingAllowRow =
  ar_channel_key :: string
  ar_account_id :: string
  ar_entry :: string
  ar_sort_order :: int
  ar_updated_at :: int

record PairingDatabase =
  db_requests :: "PairingRequestRow list"
  db_allow :: "PairingAllowRow list"

definition request_key :: "PairingRequestRow \<Rightarrow> string \<times> string \<times> string" where
  "request_key row = (qr_channel_key row, qr_account_id row, qr_request_id row)"

definition allow_key :: "PairingAllowRow \<Rightarrow> string \<times> string \<times> string" where
  "allow_key row = (ar_channel_key row, ar_account_id row, ar_entry row)"

definition insert_row :: "('r \<Rightarrow> 'k) \<Rightarrow> 'r \<Rightarrow> 'r list \<Rightarrow> PairingError + 'r list" where
  "insert_row key row rows =
     (if key row \<in> key ` set rows then Inl DuplicateRow else Inr (rows @ [row]))"

fun insert_rows :: "('r \<Rightarrow> 'k) \<Rightarrow> 'r list \<Rightarrow> 'r list \<Rightarrow> PairingError + 'r list" where
  "insert_rows key [] rows = Inr rows"
| "insert_rows key (r # rs) rows =
     (case insert_row key r rows of Inl e \<Rightarrow> Inl e | Inr rows \<Rightarrow> insert_rows key rs rows)"

definition then_compare :: "int \<Rightarrow> int \<Rightarrow> int" where
  "then_compare a b = (if a \<noteq> 0 then a else b)"

definition compare_request_rows :: "PairingRequestRow \<Rightarrow> PairingRequestRow \<Rightarrow> int" where
  "compare_request_rows a b =
     then_compare (compare_strings (qr_created_at a) (qr_created_at b))
       (then_compare (compare_strings (qr_account_id a) (qr_account_id b))
          (compare_strings (qr_request_id a) (qr_request_id b)))"

definition compare_allow_rows :: "PairingAllowRow \<Rightarrow> PairingAllowRow \<Rightarrow> int" where
  "compare_allow_rows a b =
     then_compare (compare_strings (ar_account_id a) (ar_account_id b))
       (then_compare (ar_sort_order a - ar_sort_order b) (compare_strings (ar_entry a) (ar_entry b)))"

definition read_request_row :: "(string \<Rightarrow> int option) \<Rightarrow> PairingRequestRow \<Rightarrow> PairingRequest list" where
  "read_request_row other row =
     (let meta = (case qr_meta_json row of MetaDocument d \<Rightarrow> normalizePersistedPairingMeta d | _ \<Rightarrow> None);
          meta = map_put ''accountId'' (allow_account (Some (qr_account_id row))) (coalesce meta [])
      in case normalizePersistedPairingRequest other
             \<lparr>pr_id = qr_request_id row, pr_code = qr_code row, pr_createdAt = qr_created_at row,
              pr_lastSeenAt = qr_last_seen_at row, pr_meta = Some meta\<rparr> of
           None \<Rightarrow> [] | Some request \<Rightarrow> [request])"

text \<open>
  The lists of a channel are the fields of a plain object, so that a name which every object
  inherits is never missing and its value is no array.
\<close>

definition inherited_field :: "string \<Rightarrow> bool" where
  "inherited_field a \<longleftrightarrow> a \<in> set [''constructor'', ''__proto__'', ''__defineGetter__'', ''__defineSetter__'',
     ''__lookupGetter__'', ''__lookupSetter__'', ''hasOwnProperty'', ''isPrototypeOf'',
     ''propertyIsEnumerable'', ''toString'', ''toLocaleString'', ''valueOf'']"

definition allow_field :: "(string, string list) jsmap \<Rightarrow> string \<Rightarrow> PairingError + string list" where
  "allow_field allowFrom a =
     (case map_get allowFrom a of
        Some entries \<Rightarrow> Inr entries
      | None \<Rightarrow> if inherited_field a then Inl NotAnArray else Inr [])"

fun push_allow_rows ::
  "(string, string list) jsmap \<Rightarrow> PairingAllowRow list \<Rightarrow> PairingError + (string, string list) jsmap" where
  "push_allow_rows allowFrom [] = Inr allowFrom"
| "push_allow_rows allowFrom (row # rows) =
     (let accountId = allow_account (Some (ar_account_id row))
      in case allow_field allowFrom accountId of
           Inl e \<Rightarrow> Inl e
         | Inr entries \<Rightarrow> push_allow_rows (map_put accountId (entries @ [ar_entry row]) allowFrom) rows)"

definition readChannelPairingStateFromDatabase ::
  "(string \<Rightarrow> int option) \<Rightarrow> PairingDatabase \<Rightarrow> string \<Rightarrow> PairingError + ChannelPairingState" where
  "readChannelPairingStateFromDatabase other db channel =
     (case safeChannelKey channel of
        Inl e \<Rightarrow> Inl e
      | Inr channelKey \<Rightarrow>
          let requestRows = js_toSorted compare_request_rows
                (filter (\<lambda>row. qr_channel_key row = channelKey) (db_requests db));
              allowRows = js_toSorted compare_allow_rows
                (filter (\<lambda>row. ar_channel_key row = channelKey) (db_allow db))
          in case push_allow_rows [] allowRows of
               Inl e \<Rightarrow> Inl e
             | Inr allowFrom \<Rightarrow>
                 Inr \<lparr>cs_requests = concat (map (read_request_row other) requestRows),
                   cs_allowFrom = allowFrom\<rparr>)"

definition request_rows :: "(string \<Rightarrow> int option) \<Rightarrow> string \<Rightarrow> PairingRequest list \<Rightarrow> PairingRequestRow list" where
  "request_rows other channelKey requests =
     concat (map (\<lambda>request. case normalizePersistedPairingRequest other request of
        None \<Rightarrow> []
      | Some normalized \<Rightarrow>
          [\<lparr>qr_channel_key = channelKey, qr_account_id = resolvePairingRequestAccountId normalized,
            qr_request_id = pr_id normalized, qr_code = pr_code normalized,
            qr_created_at = pr_createdAt normalized, qr_last_seen_at = pr_lastSeenAt normalized,
            qr_meta_json = (case pr_meta normalized of None \<Rightarrow> MetaNull
              | Some m \<Rightarrow> MetaDocument (meta_object (Some m)))\<rparr>]) requests)"

definition normalized_allow_entries :: "string list \<Rightarrow> string list" where
  "normalized_allow_entries entries =
     dedupePreserveOrder (filter (\<lambda>entry. entry \<noteq> [] \<and> entry \<noteq> ''*'')
       (map (\<lambda>entry. coalesce (normalizeOptionalString (JString entry)) []) entries))"

definition account_allow_rows :: "string \<Rightarrow> int \<Rightarrow> string \<times> string list \<Rightarrow> PairingAllowRow list" where
  "account_allow_rows channelKey updatedAt e =
     map (\<lambda>(sortOrder, entry).
         \<lparr>ar_channel_key = channelKey, ar_account_id = allow_account (Some (fst e)), ar_entry = entry,
          ar_sort_order = int sortOrder, ar_updated_at = updatedAt\<rparr>)
       (List.enumerate 0 (normalized_allow_entries (snd e)))"

definition writeChannelPairingStateToDatabase ::
  "(string \<Rightarrow> int option) \<Rightarrow> int \<Rightarrow> PairingDatabase \<Rightarrow> string \<Rightarrow> ChannelPairingState \<Rightarrow>
     PairingError + PairingDatabase" where
  "writeChannelPairingStateToDatabase other updatedAt db channel st =
     (case safeChannelKey channel of
        Inl e \<Rightarrow> Inl e
      | Inr channelKey \<Rightarrow>
          (case insert_rows request_key (request_rows other channelKey (cs_requests st))
                 (filter (\<lambda>row. qr_channel_key row \<noteq> channelKey) (db_requests db)) of
             Inl e \<Rightarrow> Inl e
           | Inr requests \<Rightarrow>
               (case insert_rows allow_key
                   (concat (map (account_allow_rows channelKey updatedAt) (cs_allowFrom st)))
                   (filter (\<lambda>row. ar_channel_key row \<noteq> channelKey) (db_allow db)) of
                  Inl e \<Rightarrow> Inl e
                | Inr allow \<Rightarrow> Inr \<lparr>db_requests = requests, db_allow = allow\<rparr>)))"

text \<open>\<^verbatim>\<open>runOpenClawStateWriteTransaction\<close>: an error rolls the tables back.\<close>

definition in_transaction ::
  "(PairingDatabase \<Rightarrow> PairingError + ('a \<times> PairingDatabase)) \<Rightarrow> PairingDatabase \<Rightarrow>
     (PairingError + 'a) \<times> PairingDatabase" where
  "in_transaction op db = (case op db of Inl e \<Rightarrow> (Inl e, db) | Inr (r, db') \<Rightarrow> (Inr r, db'))"

section \<open>Normal accounts, requests and states\<close>

lemma js_trim_lower: "js_trim (js_toLowerCase s) = js_toLowerCase (js_trim s)"
  by (simp add: js_trim_def js_toLowerCase_def dropWhile_map rev_map comp_def white_lower_char)

definition account_ok :: "string \<Rightarrow> bool" where
  "account_ok a \<longleftrightarrow> normalized_entry a \<and> js_toLowerCase a = a"

lemma account_ok_allow [simp]: "account_ok (allow_account a)"
proof (cases a)
  case None
  then show ?thesis
    by (simp add: allow_account_def normalizeLowercaseStringOrEmpty_def
        normalizeOptionalLowercaseString_def normalizeOptionalString_def normalizeNullableString_def) code_simp
next
  case (Some s)
  have "account_ok DEFAULT_ACCOUNT_ID" by code_simp
  moreover have "js_toLowerCase s = [] \<longleftrightarrow> s = []" for s by (simp add: js_toLowerCase_def)
  ultimately show ?thesis
    by (auto simp: Some allow_account_def normalizeLowercase_JString account_ok_def normalized_entry_def
        js_trim_lower js_toLowerCase_idem Let_def)
qed

lemma allow_account_id [simp]: "account_ok a \<Longrightarrow> allow_account (Some a) = a"
  by (simp add: account_ok_def normalized_entry_def allow_account_def normalizeLowercase_JString Let_def)

definition meta_ok :: "pairing_meta \<Rightarrow> bool" where
  "meta_ok m \<longleftrightarrow> map_ok m \<and> m \<noteq> [] \<and> list_all (\<lambda>e. normalized_entry (snd e)) m"

definition request_ok :: "(string \<Rightarrow> int option) \<Rightarrow> PairingRequest \<Rightarrow> bool" where
  "request_ok other r \<longleftrightarrow>
     list_all normalized_entry [pr_id r, pr_code r, pr_createdAt r, pr_lastSeenAt r] \<and>
     parseTimestamp other (Some (pr_createdAt r)) \<noteq> None \<and>
     parseTimestamp other (Some (pr_lastSeenAt r)) \<noteq> None \<and>
     (case pr_meta r of None \<Rightarrow> False | Some m \<Rightarrow> meta_ok m \<and>
        (case map_get m ''accountId'' of None \<Rightarrow> False | Some a \<Rightarrow> account_ok a))"

lemma foldl_put_fresh:
  "distinct (map fst (acc @ m)) \<Longrightarrow> list_all (\<lambda>e. normalized_entry (snd e)) m \<Longrightarrow>
     foldl (\<lambda>out (key, entry). case normalizeOptionalString entry of
         Some normalized \<Rightarrow> map_put key normalized out | None \<Rightarrow> out) acc (map (\<lambda>(k, v). (k, JString v)) m) =
       acc @ m"
proof (induction m arbitrary: acc)
  case (Cons e m)
  obtain k v where e: "e = (k, v)" by fastforce
  have "map_put k v acc = acc @ [(k, v)]" using Cons.prems by (intro map_put_fresh) (auto simp: e map_get_None_iff)
  with Cons.IH [of "acc @ [(k, v)]"] Cons.prems show ?case
    by (auto simp: e normalized_entry_def)
qed simp

lemma normalize_meta: "meta_ok m \<Longrightarrow> normalizePersistedPairingMeta (meta_object (Some m)) = Some m"
  using foldl_put_fresh [of "[]" m]
  by (simp add: meta_ok_def map_ok_def normalizePersistedPairingMeta_def meta_object_def)

lemma map_put_same: "map_ok m \<Longrightarrow> map_get m k = Some v \<Longrightarrow> map_put k v m = m"
  using map_put_split by metis

lemma normalize_request: "request_ok other r \<Longrightarrow> normalizePersistedPairingRequest other r = Some r"
  by (auto simp: request_ok_def normalizePersistedPairingRequest_def normalized_entry_def normalize_meta
      Let_def split: option.splits)

lemma request_account_ok: "request_ok other r \<Longrightarrow> account_ok (resolvePairingRequestAccountId r)"
  by (simp add: resolvePairingRequestAccountId_def)

text \<open>The row of a request, and reading it back.\<close>

definition row_of :: "string \<Rightarrow> PairingRequest \<Rightarrow> PairingRequestRow" where
  "row_of k r =
     \<lparr>qr_channel_key = k, qr_account_id = resolvePairingRequestAccountId r, qr_request_id = pr_id r,
      qr_code = pr_code r, qr_created_at = pr_createdAt r, qr_last_seen_at = pr_lastSeenAt r,
      qr_meta_json = (case pr_meta r of None \<Rightarrow> MetaNull | Some m \<Rightarrow> MetaDocument (meta_object (Some m)))\<rparr>"

text \<open>The requests a write stores: one without an id, a code or timestamps is left out.\<close>

definition storable :: "(string \<Rightarrow> int option) \<Rightarrow> PairingRequest list \<Rightarrow> PairingRequest list" where
  "storable other rs =
     concat (map (\<lambda>r. case normalizePersistedPairingRequest other r of None \<Rightarrow> [] | Some r' \<Rightarrow> [r']) rs)"

lemma storable_append: "storable other (rs @ rs') = storable other rs @ storable other rs'"
  by (simp add: storable_def)

lemma storable_ok: "list_all (request_ok other) rs \<Longrightarrow> storable other rs = rs"
  by (induction rs) (simp_all add: storable_def normalize_request)

lemma request_rows_storable: "request_rows other k rs = map (row_of k) (storable other rs)"
  by (induction rs) (auto simp: request_rows_def storable_def row_of_def split: option.split)

lemma request_rows_ok: "list_all (request_ok other) rs \<Longrightarrow> request_rows other k rs = map (row_of k) rs"
  by (simp add: request_rows_storable storable_ok)

lemma read_row_of:
  assumes "request_ok other r"
  shows "read_request_row other (row_of k r) = [r]"
proof -
  obtain m a where m: "pr_meta r = Some m" "meta_ok m" "map_get m ''accountId'' = Some a" "account_ok a"
    using assms by (auto simp: request_ok_def split: option.splits)
  then have acc: "resolvePairingRequestAccountId r = a"
    by (simp add: resolvePairingRequestAccountId_def meta_account_def)
  have eta: "\<lparr>pr_id = pr_id r, pr_code = pr_code r, pr_createdAt = pr_createdAt r,
      pr_lastSeenAt = pr_lastSeenAt r, pr_meta = Some m\<rparr> = r" using m(1) by (cases r) simp
  have "map_put ''accountId'' a m = m" using m by (intro map_put_same) (auto simp: meta_ok_def)
  then have "read_request_row other (row_of k r) =
      (case normalizePersistedPairingRequest other r of None \<Rightarrow> [] | Some request \<Rightarrow> [request])"
    using m by (simp add: read_request_row_def row_of_def acc normalize_meta) (simp only: eta)
  then show ?thesis by (simp add: normalize_request [OF assms])
qed

section \<open>Round trip\<close>

definition request_ident :: "PairingRequest \<Rightarrow> string \<times> string" where
  "request_ident r = (resolvePairingRequestAccountId r, pr_id r)"

definition entry_ok :: "string \<Rightarrow> bool" where
  "entry_ok e \<longleftrightarrow> normalized_entry e \<and> e \<noteq> ''*''"

definition allow_ok :: "(string, string list) jsmap \<Rightarrow> bool" where
  "allow_ok m \<longleftrightarrow> map_ok m \<and> list_all (\<lambda>(a, es). account_ok a \<and> \<not> inherited_field a \<and>
     distinct es \<and> list_all entry_ok es) m"

definition state_ok :: "(string \<Rightarrow> int option) \<Rightarrow> ChannelPairingState \<Rightarrow> bool" where
  "state_ok other st \<longleftrightarrow> list_all (request_ok other) (cs_requests st) \<and>
     distinct (map request_ident (cs_requests st)) \<and> allow_ok (cs_allowFrom st)"

text \<open>Tables whose rows the store itself could have written, apart from unreadable columns.\<close>

definition request_row_ok :: "PairingRequestRow \<Rightarrow> bool" where
  "request_row_ok row \<longleftrightarrow> account_ok (qr_account_id row) \<and> normalized_entry (qr_request_id row)"

definition allow_row_ok :: "PairingAllowRow \<Rightarrow> bool" where
  "allow_row_ok row \<longleftrightarrow> account_ok (ar_account_id row) \<and> \<not> inherited_field (ar_account_id row) \<and>
     entry_ok (ar_entry row)"

definition db_ok :: "PairingDatabase \<Rightarrow> bool" where
  "db_ok db \<longleftrightarrow> list_all request_row_ok (db_requests db) \<and> distinct (map request_key (db_requests db)) \<and>
     list_all allow_row_ok (db_allow db) \<and> distinct (map allow_key (db_allow db))"

lemma insert_rows_fresh:
  "distinct (map key (rows @ rs)) \<Longrightarrow> insert_rows key rs rows = Inr (rows @ rs)"
proof (induction rs arbitrary: rows)
  case (Cons r rs)
  then have "insert_row key r rows = Inr (rows @ [r])" by (auto simp: insert_row_def)
  with Cons show ?case by simp
qed simp

lemma normalized_allow_entries_ok:
  assumes "distinct es" "list_all entry_ok es"
  shows "normalized_allow_entries es = es"
proof -
  have "map (\<lambda>e. coalesce (normalizeOptionalString (JString e)) []) es = es"
    using assms(2) by (intro map_idI) (auto simp: list_all_iff entry_ok_def normalized_entry_def)
  moreover have "filter (\<lambda>e. e \<noteq> [] \<and> e \<noteq> ''*'') es = es"
    using assms(2) by (intro filter_True) (auto simp: list_all_iff entry_ok_def normalized_entry_def)
  moreover have "normalizeStringEntries (Some (map JString es)) = es"
    using assms(2) by (intro normalizeStringEntries_id) (auto simp: list_all_iff entry_ok_def)
  ultimately show ?thesis
    using assms(1) by (simp add: normalized_allow_entries_def dedupePreserveOrder_def
        normalizeUniqueStringEntries_def uniqueStrings_id)
qed

definition allow_rows :: "string \<Rightarrow> int \<Rightarrow> (string, string list) jsmap \<Rightarrow> PairingAllowRow list" where
  "allow_rows k updatedAt m = concat (map (account_allow_rows k updatedAt) m)"

lemma account_rows_keys:
  assumes "account_ok a" "distinct es" "list_all entry_ok es"
  shows "map allow_key (account_allow_rows k u (a, es)) = map (\<lambda>e. (k, a, e)) es"
proof -
  have "map (\<lambda>x. (k, a, snd x)) (List.enumerate 0 es) = map (\<lambda>e. (k, a, e)) (map snd (List.enumerate 0 es))"
    by (simp add: comp_def del: map_snd_enumerate)
  then show ?thesis
    using assms by (simp add: account_allow_rows_def normalized_allow_entries_ok allow_key_def split_beta comp_def)
qed

lemma allow_rows_keys:
  "allow_ok m \<Longrightarrow> map allow_key (allow_rows k u m) = concat (map (\<lambda>(a, es). map (\<lambda>e. (k, a, e)) es) m)"
  by (induction m) (auto simp: allow_ok_def allow_rows_def map_ok_def account_rows_keys)

lemma distinct_allow_rows: "allow_ok m \<Longrightarrow> distinct (map allow_key (allow_rows k u m))"
proof -
  assume ok: "allow_ok m"
  then have "distinct (concat (map (\<lambda>(a, es). map (\<lambda>e. (k, a, e)) es) m))"
    by (induction m) (auto simp: allow_ok_def map_ok_def distinct_map inj_on_def image_iff)
  with ok show ?thesis by (simp only: allow_rows_keys)
qed

text \<open>Writing replaces the rows of the channel and no others.\<close>

definition tables_with ::
  "string \<Rightarrow> int \<Rightarrow> PairingDatabase \<Rightarrow> ChannelPairingState \<Rightarrow> PairingDatabase" where
  "tables_with k u db st =
     \<lparr>db_requests = filter (\<lambda>row. qr_channel_key row \<noteq> k) (db_requests db) @ map (row_of k) (cs_requests st),
      db_allow = filter (\<lambda>row. ar_channel_key row \<noteq> k) (db_allow db) @ allow_rows k u (cs_allowFrom st)\<rparr>"

lemma allow_rows_ok:
  assumes "allow_ok m" "row \<in> set (allow_rows k u m)"
  shows "allow_row_ok row \<and> ar_channel_key row = k"
proof -
  obtain a es where e: "(a, es) \<in> set m" "row \<in> set (account_allow_rows k u (a, es))"
    using assms(2) by (auto simp: allow_rows_def)
  then have "account_ok a" "\<not> inherited_field a" "distinct es" "list_all entry_ok es"
    using assms(1) by (auto simp: allow_ok_def list_all_iff)
  with e(2) show ?thesis
    by (auto simp: account_allow_rows_def normalized_allow_entries_ok allow_row_ok_def list_all_iff
        in_set_enumerate_eq)
qed

lemma distinct_keys_replace:
  assumes "distinct (map key rows)" "distinct (map key new)" "\<And>r. r \<in> set new \<Longrightarrow> fst (key r) = k"
  shows "distinct (map key (filter (\<lambda>r. fst (key r) \<noteq> k) rows @ new))"
  using assms by (auto simp: distinct_map_filter image_iff) metis

lemma fst_keys: "fst (request_key r) = qr_channel_key r" "fst (allow_key a) = ar_channel_key a"
  by (simp_all add: request_key_def allow_key_def)

lemma db_ok_tables:
  assumes "db_ok db" "state_ok other st"
  shows "db_ok (tables_with k u db st)"
proof -
  have keys: "map request_key (map (row_of k) (cs_requests st)) = map (Pair k) (map request_ident (cs_requests st))"
    by (simp add: request_key_def row_of_def request_ident_def)
  have "distinct (map request_key (map (row_of k) (cs_requests st)))"
    unfolding keys using assms(2) by (subst distinct_map) (simp add: state_ok_def inj_on_def)
  then have 1: "distinct (map request_key (db_requests (tables_with k u db st)))"
    using assms(1) unfolding tables_with_def
    by (simp only: PairingDatabase.simps) (rule distinct_keys_replace [where key = request_key, unfolded fst_keys],
        auto simp: db_ok_def row_of_def)
  have 2: "distinct (map allow_key (db_allow (tables_with k u db st)))"
    using assms allow_rows_ok unfolding tables_with_def
    by (simp only: PairingDatabase.simps) (rule distinct_keys_replace [where key = allow_key, unfolded fst_keys],
        auto simp: db_ok_def state_ok_def intro: distinct_allow_rows)
  have 3: "list_all request_row_ok (db_requests (tables_with k u db st))"
    using assms by (auto simp: tables_with_def db_ok_def state_ok_def list_all_iff request_row_ok_def
        row_of_def request_ok_def resolvePairingRequestAccountId_def)
  have 4: "list_all allow_row_ok (db_allow (tables_with k u db st))"
    using assms allow_rows_ok by (auto simp: tables_with_def db_ok_def state_ok_def list_all_iff)
  show ?thesis using 1 2 3 4 by (simp add: db_ok_def)
qed

lemma write_tables:
  assumes "db_ok db" "state_ok other st" "safeChannelKey channel = Inr k"
    and "storable other rs = cs_requests st"
  shows "writeChannelPairingStateToDatabase other u db channel (st\<lparr>cs_requests := rs\<rparr>) = Inr (tables_with k u db st)"
proof -
  have "insert_rows request_key (map (row_of k) (cs_requests st))
      (filter (\<lambda>row. qr_channel_key row \<noteq> k) (db_requests db)) = Inr (db_requests (tables_with k u db st))"
    using db_ok_tables [OF assms(1,2), of k u] by (subst insert_rows_fresh) (simp_all add: db_ok_def tables_with_def)
  moreover have "insert_rows allow_key (allow_rows k u (cs_allowFrom st))
      (filter (\<lambda>row. ar_channel_key row \<noteq> k) (db_allow db)) = Inr (db_allow (tables_with k u db st))"
    using db_ok_tables [OF assms(1,2), of k u] by (subst insert_rows_fresh) (simp_all add: db_ok_def tables_with_def)
  ultimately show ?thesis
    using assms(3,4) by (simp add: writeChannelPairingStateToDatabase_def request_rows_storable
        allow_rows_def [symmetric])
qed

lemma mset_concat_map: "mset (concat (map f ys)) = sum_mset (image_mset (\<lambda>y. mset (f y)) (mset ys))"
  by (induction ys) simp_all

lemma read_back_requests:
  assumes "list_all (request_ok other) rs"
  shows "mset (concat (map (read_request_row other) (js_toSorted cmp (map (row_of k) rs)))) = mset rs"
proof -
  have "image_mset (\<lambda>r. mset (read_request_row other (row_of k r))) (mset rs) = image_mset (\<lambda>r. {#r#}) (mset rs)"
    using assms by (intro image_mset_cong) (auto simp: list_all_iff read_row_of)
  then show ?thesis by (simp add: mset_concat_map image_mset.compositionality comp_def)
qed

lemma compare_allow_rows_le:
  "compare_allow_rows a b \<le> 0 \<longleftrightarrow>
     js_less (ar_account_id a) (ar_account_id b) \<or> ar_account_id a = ar_account_id b \<and>
       (ar_sort_order a < ar_sort_order b \<or> ar_sort_order a = ar_sort_order b \<and>
          (js_less (ar_entry a) (ar_entry b) \<or> ar_entry a = ar_entry b))"
  using js_less_total [of "ar_account_id a" "ar_account_id b"] js_less_trans [of "ar_account_id a" "ar_account_id b" "ar_account_id a"]
    js_less_total [of "ar_entry a" "ar_entry b"] js_less_trans [of "ar_entry a" "ar_entry b" "ar_entry a"]
  by (auto simp: compare_allow_rows_def then_compare_def compare_strings_def split: if_splits)

lemma sorted_allow_rows: "sorted_wrt (\<lambda>a b. compare_allow_rows a b \<le> 0) (js_toSorted compare_allow_rows rows)"
proof (rule sorted_wrt_js_toSorted)
  show "compare_allow_rows y x \<le> 0" if "\<not> compare_allow_rows x y \<le> 0" for x y
    using that js_less_total [of "ar_account_id x" "ar_account_id y"] js_less_total [of "ar_entry x" "ar_entry y"]
    by (cases "ar_account_id x = ar_account_id y"; cases "ar_entry x = ar_entry y")
      (auto simp: compare_allow_rows_le)
  show "compare_allow_rows x z \<le> 0" if "compare_allow_rows x y \<le> 0" "compare_allow_rows y z \<le> 0" for x y z
    using that js_less_trans [of "ar_account_id x" "ar_account_id y" "ar_account_id z"]
      js_less_trans [of "ar_entry x" "ar_entry y" "ar_entry z"]
    by (auto simp: compare_allow_rows_le)
qed

text \<open>The entries read for an account, in the order of the sorted rows.\<close>

definition push_allow_row :: "(string, string list) jsmap \<Rightarrow> PairingAllowRow \<Rightarrow> (string, string list) jsmap" where
  "push_allow_row allowFrom row =
     (let accountId = allow_account (Some (ar_account_id row))
      in map_put accountId (coalesce (map_get allowFrom accountId) [] @ [ar_entry row]) allowFrom)"

lemma push_allow_rows_ok:
  "list_all allow_row_ok rows \<Longrightarrow> push_allow_rows m rows = Inr (foldl push_allow_row m rows)"
  by (induction rows arbitrary: m)
    (auto simp: allow_row_ok_def allow_field_def push_allow_row_def Let_def split: option.split)

lemma foldl_push_allow:
  "list_all allow_row_ok rows \<Longrightarrow>
     coalesce (map_get (foldl push_allow_row m rows) a) [] =
       coalesce (map_get m a) [] @ map ar_entry (filter (\<lambda>r. ar_account_id r = a) rows)"
  by (induction rows arbitrary: m) (auto simp: push_allow_row_def allow_row_ok_def Let_def)

lemma keys_push_allow:
  "list_all allow_row_ok rows \<Longrightarrow>
     fst ` set (foldl push_allow_row m rows) = fst ` set m \<union> ar_account_id ` set rows"
proof (induction rows arbitrary: m)
  case (Cons r rows)
  from Cons show ?case by (force simp: push_allow_row_def Let_def allow_row_ok_def keys_put_set)
qed simp

lemma foldl_push_allow_keys:
  "map_ok m \<Longrightarrow> map_ok (foldl push_allow_row m rows) \<and>
     (list_all allow_row_ok rows \<longrightarrow> list_all account_ok (map fst m) \<longrightarrow>
        list_all account_ok (map fst (foldl push_allow_row m rows)))"
proof (induction rows arbitrary: m)
  case (Cons r rows)
  have "list_all account_ok (map fst m) \<longrightarrow> account_ok (ar_account_id r) \<longrightarrow>
      list_all account_ok (map fst (push_allow_row m r))"
    by (auto simp: push_allow_row_def Let_def keys_map_put)
  with Cons.IH [of "push_allow_row m r"] Cons.prems show ?case
    by (auto simp: push_allow_row_def Let_def allow_row_ok_def)
qed simp

lemma filter_allow_rows:
  assumes "allow_ok m" "account_ok a"
  shows "filter (\<lambda>r. ar_account_id r = a) (allow_rows k u m) =
    account_allow_rows k u (a, coalesce (map_get m a) [])"
  using assms(1)
proof (induction m)
  case Nil
  show ?case by (simp add: allow_rows_def account_allow_rows_def normalized_allow_entries_ok)
next
  case (Cons e m)
  obtain b es where e: "e = (b, es)" by fastforce
  have ok: "account_ok b" "b \<notin> fst ` set m" "allow_ok m" using Cons.prems by (auto simp: e allow_ok_def map_ok_def)
  have own: "ar_account_id r = b" if "r \<in> set (account_allow_rows k u (b, es))" for r
    using that ok(1) by (auto simp: account_allow_rows_def)
  then have "filter (\<lambda>r. ar_account_id r = a) (account_allow_rows k u (b, es)) =
      (if a = b then account_allow_rows k u (b, es) else [])"
    by (auto simp: filter_id_conv filter_empty_conv)
  moreover have "map_get m b = None" using ok(2) by (simp add: map_get_None_iff)
  moreover have "account_allow_rows k u (a, []) = []"
    by (simp add: account_allow_rows_def normalized_allow_entries_ok)
  ultimately show ?case
    using Cons.IH [OF ok(3)] by (auto simp: e allow_rows_def map_get_def)
qed

lemma sort_orders:
  assumes "distinct es" "list_all entry_ok es"
  shows "map ar_sort_order (account_allow_rows k u (a, es)) = map int [0..<length es]"
    and "map ar_entry (account_allow_rows k u (a, es)) = es"
proof -
  have 1: "map (\<lambda>x. int (fst x)) (List.enumerate 0 es) = map int (map fst (List.enumerate 0 es))"
    by (simp add: comp_def del: map_fst_enumerate)
  show "map ar_sort_order (account_allow_rows k u (a, es)) = map int [0..<length es]"
    "map ar_entry (account_allow_rows k u (a, es)) = es"
    using assms 1 by (simp_all add: account_allow_rows_def normalized_allow_entries_ok split_beta comp_def)
qed

lemma read_back_entries:
  assumes "allow_ok m" "account_ok a"
  shows "map ar_entry (filter (\<lambda>r. ar_account_id r = a) (js_toSorted compare_allow_rows (allow_rows k u m))) =
    coalesce (map_get m a) []"
proof -
  let ?es = "coalesce (map_get m a) []"
  let ?ys = "account_allow_rows k u (a, ?es)"
  let ?xs = "filter (\<lambda>r. ar_account_id r = a) (js_toSorted compare_allow_rows (allow_rows k u m))"
  have es: "distinct ?es" "list_all entry_ok ?es"
    using assms(1) by (cases "map_get m a"; auto simp: allow_ok_def list_all_iff dest!: map_get_Some_in)+
  have "mset ?xs = mset (filter (\<lambda>r. ar_account_id r = a) (allow_rows k u m))" by (simp add: mset_filter)
  then have mset: "mset ?xs = mset ?ys" by (simp add: filter_allow_rows [OF assms])
  have ys: "sorted (map ar_sort_order ?ys)" "distinct (map ar_sort_order ?ys)"
    by (simp_all add: sort_orders(1) [OF es] sorted_map distinct_map inj_on_def sorted_wrt_iff_nth_less)
  have "distinct (map ar_sort_order ?xs)" using mset ys(2) by (metis mset_eq_imp_distinct_iff mset_map)
  moreover have "sorted (map ar_sort_order ?xs)"
  proof -
    have "sorted_wrt (\<lambda>a b. compare_allow_rows a b \<le> 0) ?xs" by (rule sorted_wrt_filter [OF sorted_allow_rows])
    then have "sorted_wrt (\<lambda>x y. ar_sort_order x \<le> ar_sort_order y) ?xs"
      by (rule sorted_wrt_mono_rel [rotated]) (auto simp: compare_allow_rows_le)
    then show ?thesis by (simp add: sorted_map)
  qed
  moreover have sets: "set ?xs = set ?ys" using mset by (rule mset_eq_setD)
  moreover have "inj_on ar_sort_order (set ?xs \<union> set ?ys)"
    unfolding sets using ys(2) by (simp add: distinct_map)
  moreover have "distinct (map ar_sort_order ?ys)" "sorted (map ar_sort_order ?ys)" using ys by simp_all
  ultimately have "?xs = ?ys" by (intro map_sorted_distinct_set_unique) auto
  then show ?thesis by (simp add: sort_orders(2) [OF es])
qed

text \<open>What a channel holds: its pending requests and the allow list of an account.\<close>

definition pending :: "(string \<Rightarrow> int option) \<Rightarrow> PairingDatabase \<Rightarrow> string \<Rightarrow> PairingRequest list" where
  "pending other db k = concat (map (read_request_row other)
     (js_toSorted compare_request_rows (filter (\<lambda>row. qr_channel_key row = k) (db_requests db))))"

definition allow_map :: "PairingDatabase \<Rightarrow> string \<Rightarrow> (string, string list) jsmap" where
  "allow_map db k = foldl push_allow_row []
     (js_toSorted compare_allow_rows (filter (\<lambda>row. ar_channel_key row = k) (db_allow db)))"

definition allowed :: "PairingDatabase \<Rightarrow> string \<Rightarrow> string \<Rightarrow> string list" where
  "allowed db k a = coalesce (map_get (allow_map db k) a) []"

lemma read_state:
  "db_ok db \<Longrightarrow> readChannelPairingStateFromDatabase other db channel =
     (case safeChannelKey channel of Inl e \<Rightarrow> Inl e
      | Inr k \<Rightarrow> Inr \<lparr>cs_requests = pending other db k, cs_allowFrom = allow_map db k\<rparr>)"
proof -
  assume "db_ok db"
  then have "list_all allow_row_ok (js_toSorted compare_allow_rows
      (filter (\<lambda>row. ar_channel_key row = k) (db_allow db)))" for k
    by (auto simp: db_ok_def list_all_iff)
  then show ?thesis
    by (simp add: readChannelPairingStateFromDatabase_def pending_def allow_map_def Let_def
        push_allow_rows_ok split: sum.split)
qed

lemma pending_other_channel: "k' \<noteq> k \<Longrightarrow> pending other (tables_with k u db st) k' = pending other db k'"
proof -
  assume "k' \<noteq> k"
  then have "filter (\<lambda>row. qr_channel_key row = k') (db_requests (tables_with k u db st)) =
      filter (\<lambda>row. qr_channel_key row = k') (db_requests db)"
    by (auto simp: tables_with_def filter_empty_conv row_of_def intro!: filter_cong)
  then show ?thesis by (simp add: pending_def)
qed

lemma pending_same_channel:
  assumes "state_ok other st"
  shows "mset (pending other (tables_with k u db st) k) = mset (cs_requests st)"
proof -
  have "filter (\<lambda>row. qr_channel_key row = k) (db_requests (tables_with k u db st)) = map (row_of k) (cs_requests st)"
    by (auto simp: tables_with_def filter_empty_conv row_of_def filter_id_conv)
  then show ?thesis using assms by (simp add: pending_def read_back_requests state_ok_def)
qed

lemma allow_map_other_channel:
  "allow_ok (cs_allowFrom st) \<Longrightarrow> k' \<noteq> k \<Longrightarrow> allow_map (tables_with k u db st) k' = allow_map db k'"
proof -
  assume ok: "allow_ok (cs_allowFrom st)" and k: "k' \<noteq> k"
  have "filter (\<lambda>row. ar_channel_key row = k') (allow_rows k u (cs_allowFrom st)) = []"
    using allow_rows_ok [OF ok] k by (auto simp: filter_empty_conv)
  then have "filter (\<lambda>row. ar_channel_key row = k') (db_allow (tables_with k u db st)) =
      filter (\<lambda>row. ar_channel_key row = k') (db_allow db)"
    using k by (auto simp: tables_with_def intro!: filter_cong)
  then show ?thesis by (simp add: allow_map_def)
qed

lemma allowed_other_channel:
  "allow_ok (cs_allowFrom st) \<Longrightarrow> k' \<noteq> k \<Longrightarrow> allowed (tables_with k u db st) k' a = allowed db k' a"
  by (simp add: allowed_def allow_map_other_channel)

lemma allowed_good_account:
  assumes "allow_ok (cs_allowFrom st)" "account_ok a"
  shows "allowed (tables_with k u db st) k a = coalesce (map_get (cs_allowFrom st) a) []"
proof -
  have own: "filter (\<lambda>row. ar_channel_key row = k) (allow_rows k u (cs_allowFrom st)) = allow_rows k u (cs_allowFrom st)"
    using allow_rows_ok [OF assms(1)] by (auto simp: filter_id_conv)
  then have "filter (\<lambda>row. ar_channel_key row = k) (db_allow (tables_with k u db st)) = allow_rows k u (cs_allowFrom st)"
    by (simp add: tables_with_def filter_empty_conv)
  moreover have "list_all allow_row_ok (js_toSorted compare_allow_rows (allow_rows k u (cs_allowFrom st)))"
    using allow_rows_ok [OF assms(1)] by (auto simp: list_all_iff)
  ultimately show ?thesis
    by (simp add: allowed_def allow_map_def foldl_push_allow read_back_entries [OF assms])
qed

lemma map_get_bad_account: "list_all account_ok (map fst m) \<Longrightarrow> \<not> account_ok a \<Longrightarrow> map_get m a = None"
  by (auto simp: map_get_None_iff list_all_iff)

text \<open>What is read from good tables is a good state.\<close>

lemma read_meta_ok:
  "normalizePersistedPairingMeta d = Some m \<Longrightarrow> meta_ok m"
proof -
  have step: "map_ok (foldl (\<lambda>out (key, entry). case normalizeOptionalString entry of
      Some normalized \<Rightarrow> map_put key normalized out | None \<Rightarrow> out) acc es) \<and>
    list_all (\<lambda>e. normalized_entry (snd e)) (foldl (\<lambda>out (key, entry). case normalizeOptionalString entry of
      Some normalized \<Rightarrow> map_put key normalized out | None \<Rightarrow> out) acc es)"
    if "map_ok acc" "list_all (\<lambda>e. normalized_entry (snd e)) acc" for acc es
    using that
  proof (induction es arbitrary: acc)
    case (Cons e es)
    have "list_all (\<lambda>e. normalized_entry (snd e)) (map_put k v acc)" if "normalized_entry v" for k v
      using that Cons.prems(2) by (auto simp: map_put_def list_all_iff split: if_splits)
    moreover have "normalized_entry v" if "normalizeOptionalString x = Some v" for v x
      using that by (auto simp: normalizeOptionalString_eq_Some normalized_entry_def)
    ultimately show ?case
      using Cons by (auto split: option.split prod.split)
  qed simp
  assume "normalizePersistedPairingMeta d = Some m"
  with step [of "[]"] show ?thesis
    by (cases d) (auto simp: normalizePersistedPairingMeta_def meta_ok_def Let_def split: if_splits)
qed

lemma meta_with_account:
  assumes "m = [] \<or> meta_ok m" "account_ok a"
  shows "meta_ok (map_put ''accountId'' a m)" and "map_get (map_put ''accountId'' a m) ''accountId'' = Some a"
proof -
  have "map_put ''accountId'' a m \<noteq> []" by (cases m) (simp_all add: map_put_def)
  moreover have "list_all (\<lambda>e. normalized_entry (snd e)) (map_put ''accountId'' a m)"
    using assms by (auto simp: map_put_def list_all_iff meta_ok_def account_ok_def split: if_splits)
  moreover have "map_ok (map_put ''accountId'' a m)" using assms(1) by (auto simp: meta_ok_def intro: map_ok_put)
  ultimately show "meta_ok (map_put ''accountId'' a m)" by (simp add: meta_ok_def)
  show "map_get (map_put ''accountId'' a m) ''accountId'' = Some a" by simp
qed

lemma normalized_request_ok:
  assumes "normalizePersistedPairingRequest other \<lparr>pr_id = i, pr_code = c, pr_createdAt = ca, pr_lastSeenAt = ls,
      pr_meta = Some m\<rparr> = Some r"
    and "meta_ok m" "map_get m ''accountId'' = Some a" "account_ok a" "normalized_entry i"
  shows "request_ok other r \<and> pr_id r = i \<and> resolvePairingRequestAccountId r = a"
proof -
  have i: "normalizeOptionalString (JString i) = Some i" using assms(5) by (simp add: normalized_entry_def)
  have ne: "normalized_entry x" if "normalizeOptionalString y = Some x" for x y
    using that by (auto simp: normalizeOptionalString_eq_Some normalized_entry_def)
  obtain c' ca' ls' where c: "normalizeOptionalString (JString c) = Some c'"
      "normalizeOptionalString (JString ca) = Some ca'"
      "coalesce2 (normalizeOptionalString (JString ls)) (Some ca') = Some ls'"
    and p: "parseTimestamp other (Some ca') \<noteq> None" "parseTimestamp other (Some ls') \<noteq> None"
    and r: "r = \<lparr>pr_id = i, pr_code = c', pr_createdAt = ca', pr_lastSeenAt = ls', pr_meta = Some m\<rparr>"
    using assms(1) i normalize_meta [OF assms(2)]
    by (auto simp: normalizePersistedPairingRequest_def Let_def simp del: normalizeOptionalString_JString
        split: option.splits if_splits)
  have "normalized_entry ls'"
    using c(3) ne [OF c(2)] ne [of "JString ls" ls']
    by (cases "normalizeOptionalString (JString ls)") auto
  then show ?thesis using r p assms ne [OF c(1)] ne [OF c(2)]
    by (simp add: request_ok_def resolvePairingRequestAccountId_def meta_account_def)
qed

lemma read_row_ok:
  assumes "request_row_ok row" "r \<in> set (read_request_row other row)"
  shows "request_ok other r \<and> request_ident r = (qr_account_id row, qr_request_id row)"
proof -
  define m0 where "m0 = coalesce (case qr_meta_json row of MetaDocument d \<Rightarrow> normalizePersistedPairingMeta d | _ \<Rightarrow> None) []"
  have "m0 = [] \<or> meta_ok m0"
    by (auto simp: m0_def coalesce_def split: MetaColumn.splits option.splits dest: read_meta_ok)
  moreover have acc: "account_ok (qr_account_id row)" "normalized_entry (qr_request_id row)"
    using assms(1) by (simp_all add: request_row_ok_def)
  ultimately have m: "meta_ok (map_put ''accountId'' (qr_account_id row) m0)"
    "map_get (map_put ''accountId'' (qr_account_id row) m0) ''accountId'' = Some (qr_account_id row)"
    by (simp_all add: meta_with_account)
  have "normalizePersistedPairingRequest other \<lparr>pr_id = qr_request_id row, pr_code = qr_code row,
      pr_createdAt = qr_created_at row, pr_lastSeenAt = qr_last_seen_at row,
      pr_meta = Some (map_put ''accountId'' (qr_account_id row) m0)\<rparr> = Some r"
    using assms(2) acc by (auto simp: read_request_row_def Let_def m0_def split: option.splits)
  from normalized_request_ok [OF this m acc] show ?thesis by (simp add: request_ident_def)
qed

lemma read_row_single: "length (read_request_row other row) \<le> 1"
  by (auto simp: read_request_row_def Let_def split: option.splits)

lemma distinct_read_idents:
  assumes "distinct (map request_key rows)" "list_all request_row_ok rows" "list_all (\<lambda>r. qr_channel_key r = k) rows"
  shows "distinct (map request_ident (concat (map (read_request_row other) rows)))"
  using assms
proof (induction rows)
  case (Cons row rows)
  have fresh: "request_ident r \<noteq> request_ident r'" if
    "r \<in> set (read_request_row other row)" "row' \<in> set rows" "r' \<in> set (read_request_row other row')" for r r' row'
  proof
    assume eq: "request_ident r = request_ident r'"
    have "request_ident r = (qr_account_id row, qr_request_id row)"
      "request_ident r' = (qr_account_id row', qr_request_id row')"
      using that Cons.prems(2) by (auto simp: list_all_iff dest: read_row_ok)
    with eq that Cons.prems have "request_key row = request_key row'" by (auto simp: request_key_def list_all_iff)
    with that Cons.prems show False by auto
  qed
  have "distinct (map request_ident (read_request_row other row))"
    using read_row_single [of other row] by (cases "read_request_row other row") auto
  moreover have "request_ident ` set (read_request_row other row) \<inter>
      request_ident ` set (concat (map (read_request_row other) rows)) = {}"
  proof -
    have False if "i \<in> request_ident ` set (read_request_row other row)" "row' \<in> set rows"
        "i \<in> request_ident ` set (read_request_row other row')" for i row'
      using that fresh by blast
    then show ?thesis by auto
  qed
  ultimately show ?case using Cons by simp
qed simp

lemma mset_pending:
  "mset (pending other db k) =
     mset (concat (map (read_request_row other) (filter (\<lambda>row. qr_channel_key row = k) (db_requests db))))"
  by (simp add: pending_def mset_concat_map)

lemma pending_ok:
  assumes "db_ok db"
  shows "list_all (request_ok other) (pending other db k)" and "distinct (map request_ident (pending other db k))"
proof -
  let ?rows = "filter (\<lambda>row. qr_channel_key row = k) (db_requests db)"
  have rows: "list_all request_row_ok ?rows" "distinct (map request_key ?rows)"
    using assms by (auto simp: db_ok_def list_all_iff distinct_map_filter)
  show "list_all (request_ok other) (pending other db k)"
    using rows(1) by (auto simp: pending_def list_all_iff dest: read_row_ok)
  have "distinct (map request_ident (concat (map (read_request_row other) ?rows)))"
    using rows by (intro distinct_read_idents [where k = k]) (auto simp: list_all_iff)
  then show "distinct (map request_ident (pending other db k))"
    using mset_pending [of other db k] by (metis mset_eq_imp_distinct_iff mset_map)
qed

lemma push_allow_distinct:
  assumes "list_all allow_row_ok rows" "distinct (map (\<lambda>r. (ar_account_id r, ar_entry r)) rows)"
    "coalesce (map_get m a) [] = []"
  shows "distinct (coalesce (map_get (foldl push_allow_row m rows) a) []) \<and>
    list_all entry_ok (coalesce (map_get (foldl push_allow_row m rows) a) [])"
  using assms by (auto simp: foldl_push_allow list_all_iff allow_row_ok_def distinct_map inj_on_def)

lemma allow_map_ok:
  assumes "db_ok db"
  shows "allow_ok (allow_map db k)"
proof -
  let ?rows = "js_toSorted compare_allow_rows (filter (\<lambda>row. ar_channel_key row = k) (db_allow db))"
  have rows: "list_all allow_row_ok ?rows" using assms by (auto simp: db_ok_def list_all_iff)
  have "inj_on (\<lambda>r. (ar_account_id r, ar_entry r)) (set ?rows)"
    using assms by (auto simp: db_ok_def inj_on_def distinct_map allow_key_def)
  moreover have "distinct ?rows"
    using assms by (auto simp: db_ok_def distinct_map intro: distinct_filter)
  ultimately have dist: "distinct (map (\<lambda>r. (ar_account_id r, ar_entry r)) ?rows)" by (simp add: distinct_map)
  have keys: "map_ok (allow_map db k)" "list_all account_ok (map fst (allow_map db k))"
    using foldl_push_allow_keys [of "[]" ?rows] rows by (auto simp: allow_map_def map_ok_def)
  have own: "\<not> inherited_field a" if "a \<in> fst ` set (allow_map db k)" for a
    using that rows by (auto simp: allow_map_def keys_push_allow list_all_iff allow_row_ok_def)
  have "distinct es \<and> list_all entry_ok es" if "(a, es) \<in> set (allow_map db k)" for a es
  proof -
    have "map_get (allow_map db k) a = Some es" using that keys(1) by (rule map_get_in_ok [rotated])
    then show ?thesis using push_allow_distinct [OF rows dist, of "[]" a] by (simp add: allow_map_def)
  qed
  then show ?thesis using keys own by (fastforce simp: allow_ok_def list_all_iff)
qed

lemma read_state_ok:
  "db_ok db \<Longrightarrow> state_ok other \<lparr>cs_requests = pending other db k, cs_allowFrom = allow_map db k\<rparr>"
  by (simp add: state_ok_def pending_ok allow_map_ok)

lemma allowed_same_channel:
  assumes "db_ok db" "state_ok other st"
  shows "allowed (tables_with k u db st) k a = coalesce (map_get (cs_allowFrom st) a) []"
proof (cases "account_ok a")
  case True
  then show ?thesis using assms by (simp add: state_ok_def allowed_good_account)
next
  case False
  have "list_all account_ok (map fst (cs_allowFrom st))"
    using assms(2) by (auto simp: state_ok_def allow_ok_def list_all_iff)
  moreover have "list_all account_ok (map fst (allow_map (tables_with k u db st) k))"
    using allow_map_ok [OF db_ok_tables [OF assms, of k u], of k] by (auto simp: allow_ok_def list_all_iff)
  ultimately show ?thesis using False by (simp add: allowed_def map_get_bad_account)
qed

text \<open>C16: 
  A round trip through the tables. Over tables the store can have written, writing a
  normal state of a channel succeeds, and reading the channel back gives the same requests and, for
  every account, the same allow list in the same order. Every channel with another key reads as
  before the write.
\<close>

theorem pairing_state_roundtrip:
  assumes "db_ok db" "state_ok other st" "safeChannelKey channel = Inr k"
  shows "\<exists>db' st'. writeChannelPairingStateToDatabase other updatedAt db channel st = Inr db' \<and>
    readChannelPairingStateFromDatabase other db' channel = Inr st' \<and>
    mset (cs_requests st') = mset (cs_requests st) \<and>
    (\<forall>a. coalesce (map_get (cs_allowFrom st') a) [] = coalesce (map_get (cs_allowFrom st) a) []) \<and>
    (\<forall>channel'. case safeChannelKey channel' of
       Inl e \<Rightarrow> readChannelPairingStateFromDatabase other db' channel' = Inl e
     | Inr k' \<Rightarrow> k' = k \<or>
         readChannelPairingStateFromDatabase other db' channel' = readChannelPairingStateFromDatabase other db channel')"
proof -
  let ?db' = "tables_with k updatedAt db st"
  have ok: "db_ok ?db'" by (rule db_ok_tables [OF assms(1,2)])
  have "writeChannelPairingStateToDatabase other updatedAt db channel st = Inr ?db'"
    using write_tables [OF assms, of "cs_requests st"] assms(2) by (simp add: state_ok_def storable_ok)
  moreover have "readChannelPairingStateFromDatabase other ?db' channel =
      Inr \<lparr>cs_requests = pending other ?db' k, cs_allowFrom = allow_map ?db' k\<rparr>"
    by (simp add: read_state [OF ok] assms(3))
  moreover have "mset (pending other ?db' k) = mset (cs_requests st)" by (rule pending_same_channel [OF assms(2)])
  moreover have "coalesce (map_get (allow_map ?db' k) a) [] = coalesce (map_get (cs_allowFrom st) a) []" for a
    using allowed_same_channel [OF assms(1,2), of k updatedAt a] by (simp add: allowed_def)
  moreover have "case safeChannelKey channel' of
       Inl e \<Rightarrow> readChannelPairingStateFromDatabase other ?db' channel' = Inl e
     | Inr k' \<Rightarrow> k' = k \<or>
         readChannelPairingStateFromDatabase other ?db' channel' = readChannelPairingStateFromDatabase other db channel'"
    for channel'
    using assms(2) by (auto simp: read_state [OF ok] read_state [OF assms(1)] pending_other_channel
        allow_map_other_channel state_ok_def split: sum.split)
  ultimately show ?thesis
    by (intro exI [of _ ?db'] exI [of _ "\<lparr>cs_requests = pending other ?db' k, cs_allowFrom = allow_map ?db' k\<rparr>"]
        conjI allI) simp_all
qed

definition example_request :: PairingRequest where
  "example_request = \<lparr>pr_id = ''u1'', pr_code = ''ABCDEFGH'', pr_createdAt = ''2026-01-02T03:04:05.006Z'',
     pr_lastSeenAt = ''2026-01-02T03:04:05.006Z'', pr_meta = Some [(''accountId'', ''main'')]\<rparr>"

definition example_tables :: PairingDatabase where
  "example_tables =
     \<lparr>db_requests = [row_of ''signal'' example_request],
      db_allow = [\<lparr>ar_channel_key = ''signal'', ar_account_id = ''main'', ar_entry = ''u2'',
        ar_sort_order = 0, ar_updated_at = 0\<rparr>]\<rparr>"

lemma pairing_state_roundtrip_witness:
  "\<exists>db' st'. writeChannelPairingStateToDatabase (\<lambda>_. None) 5 example_tables ''Telegram''
      \<lparr>cs_requests = [example_request], cs_allowFrom = [(''main'', [''b'', ''a''])]\<rparr> = Inr db' \<and>
    readChannelPairingStateFromDatabase (\<lambda>_. None) db' ''Telegram'' = Inr st' \<and>
    cs_requests st' = [example_request] \<and> coalesce (map_get (cs_allowFrom st') ''main'') [] = [''b'', ''a'']"
proof -
  have "db_ok example_tables" by code_simp
  moreover have "state_ok (\<lambda>_. None) \<lparr>cs_requests = [example_request], cs_allowFrom = [(''main'', [''b'', ''a''])]\<rparr>"
    by code_simp
  moreover have "safeChannelKey ''Telegram'' = Inr ''telegram''" by code_simp
  ultimately show ?thesis
    using pairing_state_roundtrip [of example_tables "\<lambda>_. None"
        "\<lparr>cs_requests = [example_request], cs_allowFrom = [(''main'', [''b'', ''a''])]\<rparr>" "''Telegram''" "''telegram''" 5]
    by (fastforce simp: map_get_def)
qed

end
