(* ===== verification/Pairing_Store.thy ===== *)
theory Pairing_Store
  imports Pairing_Tables
begin

text \<open>
  The pairing store of \<^verbatim>\<open>pairing/pairing-store.ts\<close>: pending requests of unknown senders,
  approval by code, and the allow lists approval writes. Every operation runs in one write
  transaction over the tables of Pairing_Tables, so it is a function from tables to a result and
  tables. Its clock readings, random draws and the registry of channel adapters are the record
  \<open>PairingEnv\<close>; \<^verbatim>\<open>crypto.randomInt(0, n)\<close> is a draw reduced below \<open>n\<close>, and
  \<^verbatim>\<open>localeCompare\<close> is a parameter.
\<close>

section \<open>Language operations\<close>

text \<open>
  \<^verbatim>\<open>toUpperCase\<close>. The two characters whose capital lies outside the modelled code units
  stay themselves: results are only compared with each other.
\<close>

definition js_upper_char :: "char \<Rightarrow> string" where
  "js_upper_char c = (let n = (of_char c :: nat) in
     if 97 \<le> n \<and> n \<le> 122 \<or> 224 \<le> n \<and> n \<le> 254 \<and> n \<noteq> 247 then [char_of (n - 32)]
     else if n = 223 then ''SS'' else [c])"

definition js_toUpperCase :: "string \<Rightarrow> string" where
  "js_toUpperCase s = concat (map js_upper_char s)"

fun find_index :: "('a \<Rightarrow> bool) \<Rightarrow> 'a list \<Rightarrow> nat option" where
  "find_index P [] = None"
| "find_index P (x # xs) = (if P x then Some 0 else map_option Suc (find_index P xs))"

section \<open>Environment\<close>

record PairingAdapter =
  ad_normalizeAllowEntry :: "(string \<Rightarrow> js_value) option"
  ad_resolveApprovalStoreEntry :: "(string \<Rightarrow> pairing_meta option \<Rightarrow> js_value) option"

record PairingEnv =
  pv_otherDates :: "string \<Rightarrow> int option"
  pv_stamp :: int
  pv_now :: int
  pv_writeTime :: int
  pv_random :: "nat \<Rightarrow> nat"
  pv_localeCompare :: "string \<Rightarrow> string \<Rightarrow> int"
  pv_registry :: "string \<Rightarrow> PairingAdapter option"

definition PAIRING_CODE_LENGTH :: nat where "PAIRING_CODE_LENGTH = 8"
definition PAIRING_CODE_ALPHABET :: string where "PAIRING_CODE_ALPHABET = ''ABCDEFGHJKLMNPQRSTUVWXYZ23456789''"
definition PAIRING_CODE_MAX_ATTEMPTS :: nat where "PAIRING_CODE_MAX_ATTEMPTS = 500"
definition PAIRING_PENDING_TTL_MS :: int where "PAIRING_PENDING_TTL_MS = 60 * 60 * 1000"
definition PAIRING_PENDING_MAX :: nat where "PAIRING_PENDING_MAX = 3"

section \<open>Requests\<close>

definition isExpired :: "(string \<Rightarrow> int option) \<Rightarrow> PairingRequest \<Rightarrow> int \<Rightarrow> bool" where
  "isExpired other entry nowMs =
     (case parseTimestamp other (Some (pr_createdAt entry)) of
        None \<Rightarrow> True
      | Some createdAt \<Rightarrow> nowMs - createdAt > PAIRING_PENDING_TTL_MS)"

definition pruneExpiredRequests ::
  "(string \<Rightarrow> int option) \<Rightarrow> PairingRequest list \<Rightarrow> int \<Rightarrow> PairingRequest list \<times> bool" where
  "pruneExpiredRequests other reqs nowMs =
     foldl (\<lambda>(kept, removed) req. if isExpired other req nowMs then (kept, True) else (kept @ [req], removed))
       ([], False) reqs"

definition resolveLastSeenAt :: "(string \<Rightarrow> int option) \<Rightarrow> PairingRequest \<Rightarrow> int" where
  "resolveLastSeenAt other entry =
     coalesce (coalesce2 (parseTimestamp other (Some (pr_lastSeenAt entry)))
       (parseTimestamp other (Some (pr_createdAt entry)))) 0"

definition optional_string :: "string option \<Rightarrow> js_value" where
  "optional_string s = (case s of None \<Rightarrow> JUndefined | Some s \<Rightarrow> JString s)"

definition normalizePairingAccountId :: "string option \<Rightarrow> string" where
  "normalizePairingAccountId accountId = normalizeLowercaseStringOrEmpty (optional_string accountId)"

definition requestMatchesAccountId :: "PairingRequest \<Rightarrow> string \<Rightarrow> bool" where
  "requestMatchesAccountId entry normalizedAccountId \<longleftrightarrow>
     normalizedAccountId = [] \<or> resolvePairingRequestAccountId entry = normalizedAccountId"

type_synonym indexed_request = "nat \<times> PairingRequest"

definition group_by_account :: "indexed_request list \<Rightarrow> (string, indexed_request list) jsmap" where
  "group_by_account reqs =
     foldl (\<lambda>grouped (index, entry).
         let accountId = resolvePairingRequestAccountId entry
         in case map_get grouped accountId of
              Some current \<Rightarrow> map_put accountId (current @ [(index, entry)]) grouped
            | None \<Rightarrow> map_put accountId [(index, entry)] grouped) [] reqs"

definition excess_indexes ::
  "(string \<Rightarrow> int option) \<Rightarrow> nat \<Rightarrow> indexed_request list \<Rightarrow> nat list" where
  "excess_indexes other maxPending entries =
     (if length entries \<le> maxPending then []
      else
        let sorted = js_toSorted (\<lambda>left right. resolveLastSeenAt other (snd left) -
              resolveLastSeenAt other (snd right)) entries
        in map fst (take (length sorted - maxPending) sorted))"

definition pruneExcessRequestsByAccount ::
  "(string \<Rightarrow> int option) \<Rightarrow> PairingRequest list \<Rightarrow> nat \<Rightarrow> PairingRequest list \<times> bool" where
  "pruneExcessRequestsByAccount other reqs maxPending =
     (if maxPending = 0 \<or> length reqs \<le> maxPending then (reqs, False)
      else
        let grouped = group_by_account (List.enumerate 0 reqs);
            droppedIndexes = concat (map (\<lambda>(_, entries). excess_indexes other maxPending entries) grouped)
        in if droppedIndexes = [] then (reqs, False)
           else (map snd (filter (\<lambda>(index, _). index \<notin> set droppedIndexes) (List.enumerate 0 reqs)), True))"

section \<open>Codes\<close>

definition randomCode :: "(nat \<Rightarrow> nat) \<Rightarrow> nat \<Rightarrow> string" where
  "randomCode draw first =
     map (\<lambda>i. PAIRING_CODE_ALPHABET ! (draw (first + i) mod length PAIRING_CODE_ALPHABET))
       [0..<PAIRING_CODE_LENGTH]"

fun code_attempts :: "(nat \<Rightarrow> nat) \<Rightarrow> string set \<Rightarrow> nat \<Rightarrow> nat \<Rightarrow> PairingError + string" where
  "code_attempts draw existing first 0 = Inl (CodesExhausted (card existing))"
| "code_attempts draw existing first (Suc attempts) =
     (let code = randomCode draw first
      in if code \<notin> existing then Inr code
         else code_attempts draw existing (first + PAIRING_CODE_LENGTH) attempts)"

definition generateUniqueCode :: "(nat \<Rightarrow> nat) \<Rightarrow> string set \<Rightarrow> PairingError + string" where
  "generateUniqueCode draw existing = code_attempts draw existing 0 PAIRING_CODE_MAX_ATTEMPTS"

section \<open>Allow entries\<close>

definition normalizeId :: "js_value \<Rightarrow> string" where
  "normalizeId v = coalesce (normalizeStringifiedOptionalString v) []"

definition resolvePairingAdapter ::
  "PairingEnv \<Rightarrow> string \<Rightarrow> PairingAdapter option \<Rightarrow> PairingAdapter option" where
  "resolvePairingAdapter env channel pairingAdapter = coalesce2 pairingAdapter (pv_registry env channel)"

definition normalizeAllowEntry :: "PairingEnv \<Rightarrow> string \<Rightarrow> string \<Rightarrow> PairingAdapter option \<Rightarrow> string" where
  "normalizeAllowEntry env channel entry pairingAdapter =
     (let trimmed = js_trim entry
      in if trimmed = [] \<or> trimmed = ''*'' then []
         else
           let adapter = resolvePairingAdapter env channel pairingAdapter;
               normalized = (case Option.bind adapter ad_normalizeAllowEntry of
                  Some f \<Rightarrow> f trimmed | None \<Rightarrow> JString trimmed);
               normalizedEntry = coalesce (normalizeOptionalString normalized) []
           in if normalizedEntry = ''*'' then [] else normalizedEntry)"

definition normalizeAllowFromInput :: "PairingEnv \<Rightarrow> string \<Rightarrow> js_value \<Rightarrow> PairingAdapter option \<Rightarrow> string" where
  "normalizeAllowFromInput env channel entry pairingAdapter =
     normalizeAllowEntry env channel (normalizeId entry) pairingAdapter"

definition read_state_of :: "PairingEnv \<Rightarrow> PairingDatabase \<Rightarrow> string \<Rightarrow> PairingError + ChannelPairingState" where
  "read_state_of env db channel = readChannelPairingStateFromDatabase (pv_otherDates env) db channel"

definition write_state_to ::
  "PairingEnv \<Rightarrow> PairingDatabase \<Rightarrow> string \<Rightarrow> ChannelPairingState \<Rightarrow> PairingError + PairingDatabase" where
  "write_state_to env db channel st =
     writeChannelPairingStateToDatabase (pv_otherDates env) (pv_writeTime env) db channel st"

definition readAllowFromState ::
  "PairingEnv \<Rightarrow> PairingDatabase \<Rightarrow> string \<Rightarrow> string option \<Rightarrow> PairingError + string list" where
  "readAllowFromState env db channel accountId =
     (let resolvedAccountId = allow_account accountId
      in case read_state_of env db channel of
           Inl e \<Rightarrow> Inl e
         | Inr st \<Rightarrow> allow_field (cs_allowFrom st) resolvedAccountId)"

definition readChannelAllowFromStoreSync ::
  "PairingEnv \<Rightarrow> PairingDatabase \<Rightarrow> string \<Rightarrow> string option \<Rightarrow> PairingError + string list" where
  "readChannelAllowFromStoreSync env db channel accountId = readAllowFromState env db channel accountId"

definition put_state ::
  "PairingEnv \<Rightarrow> string \<Rightarrow> PairingDatabase \<Rightarrow> ChannelPairingState \<Rightarrow> 'a \<Rightarrow> PairingError + ('a \<times> PairingDatabase)" where
  "put_state env channel db st result = map_sum id (\<lambda>db'. (result, db')) (write_state_to env db channel st)"

definition updateAllowFromStoreEntry ::
  "(string list \<Rightarrow> string \<Rightarrow> string list option) \<Rightarrow> PairingEnv \<Rightarrow> string \<Rightarrow> js_value \<Rightarrow> string option \<Rightarrow>
     PairingAdapter option \<Rightarrow> PairingDatabase \<Rightarrow> (PairingError + (bool \<times> string list)) \<times> PairingDatabase" where
  "updateAllowFromStoreEntry apply env channel entry accountId pairingAdapter =
     (let accountId = allow_account accountId;
          normalized = normalizeAllowFromInput env channel entry pairingAdapter
      in in_transaction (\<lambda>db.
           case read_state_of env db channel of
             Inl e \<Rightarrow> Inl e
           | Inr st \<Rightarrow>
               (case allow_field (cs_allowFrom st) accountId of
                  Inl e \<Rightarrow> Inl e
                | Inr current \<Rightarrow>
                    if normalized = [] then Inr ((False, current), db)
                    else (case apply current normalized of
                       None \<Rightarrow> Inr ((False, current), db)
                     | Some next_entries \<Rightarrow>
                         put_state env channel db
                           (st\<lparr>cs_allowFrom := map_put accountId next_entries (cs_allowFrom st)\<rparr>)
                           (True, next_entries)))))"

definition addChannelAllowFromStoreEntry ::
  "PairingEnv \<Rightarrow> string \<Rightarrow> js_value \<Rightarrow> string option \<Rightarrow> PairingAdapter option \<Rightarrow> PairingDatabase \<Rightarrow>
     (PairingError + (bool \<times> string list)) \<times> PairingDatabase" where
  "addChannelAllowFromStoreEntry =
     updateAllowFromStoreEntry (\<lambda>current normalized.
       if normalized \<in> set current then None else Some (current @ [normalized]))"

definition removeChannelAllowFromStoreEntry ::
  "PairingEnv \<Rightarrow> string \<Rightarrow> js_value \<Rightarrow> string option \<Rightarrow> PairingAdapter option \<Rightarrow> PairingDatabase \<Rightarrow>
     (PairingError + (bool \<times> string list)) \<times> PairingDatabase" where
  "removeChannelAllowFromStoreEntry =
     updateAllowFromStoreEntry (\<lambda>current normalized.
       let next_entries = filter (\<lambda>entry. entry \<noteq> normalized) current
       in if length next_entries = length current then None else Some next_entries)"

section \<open>Listing, requesting, approving\<close>

definition compare_requests :: "PairingEnv \<Rightarrow> PairingRequest \<Rightarrow> PairingRequest \<Rightarrow> int" where
  "compare_requests env left right =
     then_compare (pv_localeCompare env (pr_createdAt left) (pr_createdAt right))
       (then_compare (pv_localeCompare env (resolvePairingRequestAccountId left) (resolvePairingRequestAccountId right))
          (pv_localeCompare env (pr_id left) (pr_id right)))"

definition listChannelPairingRequests ::
  "PairingEnv \<Rightarrow> string \<Rightarrow> string option \<Rightarrow> PairingDatabase \<Rightarrow>
     (PairingError + PairingRequest list) \<times> PairingDatabase" where
  "listChannelPairingRequests env channel accountId =
     in_transaction (\<lambda>db.
       case read_state_of env db channel of
         Inl e \<Rightarrow> Inl e
       | Inr st \<Rightarrow>
           let (kept, expired) = pruneExpiredRequests (pv_otherDates env) (cs_requests st) (pv_now env);
               (requests, capped) = pruneExcessRequestsByAccount (pv_otherDates env) kept PAIRING_PENDING_MAX;
               listed = js_toSorted (compare_requests env)
                 (filter (\<lambda>entry. requestMatchesAccountId entry (normalizePairingAccountId accountId)) requests)
           in if expired \<or> capped then put_state env channel db (st\<lparr>cs_requests := requests\<rparr>) listed
              else Inr (listed, db))"

text \<open>\<^verbatim>\<open>Object.fromEntries\<close> after trimming the values and dropping the blank ones.\<close>

definition base_meta :: "(string \<times> js_value) list \<Rightarrow> pairing_meta" where
  "base_meta meta =
     foldl (\<lambda>m (k, v). map_put k v m) []
       (filter (\<lambda>(_, v). v \<noteq> [])
          (map (\<lambda>(k, v). (k, coalesce (normalizeOptionalString v) [])) meta))"

definition request_meta :: "(string \<times> js_value) list option \<Rightarrow> string \<Rightarrow> pairing_meta" where
  "request_meta meta accountId =
     map_put ''accountId'' accountId (case meta of None \<Rightarrow> [] | Some m \<Rightarrow> base_meta m)"

definition existing_codes :: "PairingRequest list \<Rightarrow> string set" where
  "existing_codes requests =
     set (map (\<lambda>r. js_toUpperCase (coalesce (normalizeOptionalString (JString (pr_code r))) [])) requests)"

definition upsertChannelPairingRequest ::
  "PairingEnv \<Rightarrow> string \<Rightarrow> js_value \<Rightarrow> string \<Rightarrow> (string \<times> js_value) list option \<Rightarrow> PairingDatabase \<Rightarrow>
     (PairingError + (string \<times> bool)) \<times> PairingDatabase" where
  "upsertChannelPairingRequest env channel idValue accountIdParam metaParam =
     in_transaction (\<lambda>db.
       let now = toISOString (pv_stamp env);
           i = normalizeId idValue;
           accountId = (let a = normalizePairingAccountId (Some accountIdParam)
             in if a = [] then DEFAULT_ACCOUNT_ID else a);
           meta = request_meta metaParam accountId
       in case read_state_of env db channel of
            Inl e \<Rightarrow> Inl e
          | Inr st \<Rightarrow>
              let (requests, expired) = pruneExpiredRequests (pv_otherDates env) (cs_requests st) (pv_now env);
                  existingCodes = existing_codes requests
              in case find_index (\<lambda>r. pr_id r = i \<and> requestMatchesAccountId r accountId) requests of
                   Some existingIndex \<Rightarrow>
                     let existing = requests ! existingIndex
                     in (case (case normalizeOptionalString (JString (pr_code existing)) of
                            Some code \<Rightarrow> Inr code | None \<Rightarrow> generateUniqueCode (pv_random env) existingCodes) of
                          Inl e \<Rightarrow> Inl e
                        | Inr code \<Rightarrow>
                            let updated = requests[existingIndex := \<lparr>pr_id = i, pr_code = code,
                                  pr_createdAt = pr_createdAt existing, pr_lastSeenAt = now, pr_meta = Some meta\<rparr>];
                                st = st\<lparr>cs_requests := fst (pruneExcessRequestsByAccount (pv_otherDates env)
                                  updated PAIRING_PENDING_MAX)\<rparr>
                            in put_state env channel db st (code, False))
                 | None \<Rightarrow>
                     let (requests, capped) =
                           pruneExcessRequestsByAccount (pv_otherDates env) requests PAIRING_PENDING_MAX;
                         accountRequestCount = length (filter (\<lambda>r. requestMatchesAccountId r accountId) requests)
                     in if PAIRING_PENDING_MAX > 0 \<and> PAIRING_PENDING_MAX \<le> accountRequestCount then
                          (if expired \<or> capped then
                             put_state env channel db (st\<lparr>cs_requests := requests\<rparr>) ([], False)
                           else Inr (([], False), db))
                        else
                          (case generateUniqueCode (pv_random env) existingCodes of
                             Inl e \<Rightarrow> Inl e
                           | Inr code \<Rightarrow>
                               put_state env channel db
                                 (st\<lparr>cs_requests := requests @ [\<lparr>pr_id = i, pr_code = code, pr_createdAt = now,
                                    pr_lastSeenAt = now, pr_meta = Some meta\<rparr>]\<rparr>)
                                 (code, True)))"

definition approval_entry ::
  "PairingEnv \<Rightarrow> string \<Rightarrow> PairingAdapter option \<Rightarrow> PairingRequest \<Rightarrow> string" where
  "approval_entry env channel pairingAdapter entry =
     (let adapter = resolvePairingAdapter env channel pairingAdapter;
          approvalEntry = (case Option.bind adapter ad_resolveApprovalStoreEntry of
             Some f \<Rightarrow> f (pr_id entry) (pr_meta entry) | None \<Rightarrow> JString (pr_id entry))
      in if approvalEntry = JUndefined \<or> approvalEntry = JNull then []
         else normalizeAllowFromInput env channel approvalEntry adapter)"

definition approval_account :: "string option \<Rightarrow> PairingRequest \<Rightarrow> string" where
  "approval_account accountId entry =
     allow_account (coalesce2 (normalizeOptionalString (optional_string accountId))
       (normalizeOptionalString (optional_string (meta_account entry))))"

definition approveChannelPairingCode ::
  "PairingEnv \<Rightarrow> string \<Rightarrow> string \<Rightarrow> string option \<Rightarrow> PairingAdapter option \<Rightarrow> PairingDatabase \<Rightarrow>
     (PairingError + PairingRequest option) \<times> PairingDatabase" where
  "approveChannelPairingCode env channel codeParam accountIdParam pairingAdapter db =
     (let code = js_toUpperCase (coalesce (normalizeNullableString (JString codeParam)) [])
      in if code = [] then (Inr None, db)
         else in_transaction (\<lambda>db.
           case read_state_of env db channel of
             Inl e \<Rightarrow> Inl e
           | Inr st \<Rightarrow>
               let (requests, removed) = pruneExpiredRequests (pv_otherDates env) (cs_requests st) (pv_now env);
                   accountId = normalizePairingAccountId accountIdParam
               in case find_index (\<lambda>r. js_toUpperCase (pr_code r) = code \<and> requestMatchesAccountId r accountId)
                       requests of
                    None \<Rightarrow>
                      if removed then put_state env channel db (st\<lparr>cs_requests := requests\<rparr>) None
                      else Inr (None, db)
                  | Some index \<Rightarrow>
                      let entry = requests ! index;
                          st = st\<lparr>cs_requests := take index requests @ drop (Suc index) requests\<rparr>;
                          allowAccountId = approval_account accountIdParam entry;
                          normalizedAllow = approval_entry env channel pairingAdapter entry
                      in if normalizedAllow = [] then put_state env channel db st (Some entry)
                         else
                           (case allow_field (cs_allowFrom st) allowAccountId of
                              Inl e \<Rightarrow> Inl e
                            | Inr currentAllow \<Rightarrow>
                                let st = (if normalizedAllow \<notin> set currentAllow
                                  then st\<lparr>cs_allowFrom := map_put allowAccountId
                                      (currentAllow @ [normalizedAllow]) (cs_allowFrom st)\<rparr>
                                  else st)
                                in put_state env channel db st (Some entry))) db)"

definition updateChannelPairingStateSnapshot ::
  "PairingEnv \<Rightarrow> string \<Rightarrow> (ChannelPairingState \<Rightarrow> 'a \<times> ChannelPairingState) \<Rightarrow> PairingDatabase \<Rightarrow>
     (PairingError + 'a) \<times> PairingDatabase" where
  "updateChannelPairingStateSnapshot env channel update =
     in_transaction (\<lambda>db.
       case read_state_of env db channel of
         Inl e \<Rightarrow> Inl e
       | Inr st \<Rightarrow> let (result, st') = update st in put_state env channel db st' result)"

section \<open>Challenges\<close>

text \<open>
  \<^verbatim>\<open>pairing-challenge.ts\<close>: what happens for a stranger once the request is stored. The
  callbacks become effects in the order they are called; the outcome of sending the reply is an
  argument, and so is the formatter of command lines.
\<close>

record PairingChallengeParams =
  pc_channel :: string
  pc_accountId :: "string option"
  pc_senderId :: string
  pc_senderIdLine :: string
  pc_meta :: "(string, string option) jsmap option"
  pc_buildReplyText :: "(string \<Rightarrow> string \<Rightarrow> string option) option"
  pc_onCreated :: bool
  pc_onReplyError :: bool

datatype ChallengeEffect =
    CreatedNotice string
  | PairingRequestedHook string "string option" string string "(string, string option) jsmap option"
  | ReplySent string
  | ReplyErrorNotice

definition new_line :: string where "new_line = [CHR 0x0A]"

definition buildPairingReply :: "(string \<Rightarrow> string) \<Rightarrow> string \<Rightarrow> string \<Rightarrow> string \<Rightarrow> string" where
  "buildPairingReply formatCliCommand channel idLine code =
     (let approveCommand = formatCliCommand (''openclaw pairing approve '' @ channel @ '' '' @ code)
      in join_with new_line
        [''OpenClaw: access not configured.'', [], idLine, ''Pairing code:'', ''```'', code, ''```'', [],
         ''Ask the bot owner to approve with:'', ''```'', approveCommand, ''```''])"

definition issuePairingChallenge ::
  "(string \<Rightarrow> string) \<Rightarrow> bool \<Rightarrow> bool \<Rightarrow> PairingChallengeParams \<Rightarrow> PairingError + (string \<times> bool) \<Rightarrow>
     PairingError + ((bool \<times> string option) \<times> ChallengeEffect list)" where
  "issuePairingChallenge formatCliCommand hasHooks replyFails p upserted =
     (case upserted of
        Inl e \<Rightarrow> Inl e
      | Inr (code, created) \<Rightarrow>
          if \<not> created then Inr ((False, None), [])
          else
            let accountId = map_option (normalizeAccountId \<circ> Some) (nonempty_string (pc_accountId p));
                replyText = coalesce
                  (Option.bind (pc_buildReplyText p) (\<lambda>build. build code (pc_senderIdLine p)))
                  (buildPairingReply formatCliCommand (pc_channel p) (pc_senderIdLine p) code)
            in Inr ((True, Some code),
                 (if pc_onCreated p then [CreatedNotice code] else []) @
                 (if hasHooks then [PairingRequestedHook (pc_channel p) accountId (pc_senderId p) code (pc_meta p)] else []) @
                 [ReplySent replyText] @
                 (if replyFails \<and> pc_onReplyError p then [ReplyErrorNotice] else [])))"

section \<open>Lemmas about the parts\<close>

lemma pruneExpired_eq:
  "pruneExpiredRequests other reqs t =
     (filter (\<lambda>r. \<not> isExpired other r t) reqs, list_ex (\<lambda>r. isExpired other r t) reqs)"
proof -
  have "foldl (\<lambda>(kept, removed) req. if isExpired other req t then (kept, True) else (kept @ [req], removed))
      (acc, b) reqs = (acc @ filter (\<lambda>r. \<not> isExpired other r t) reqs, b \<or> list_ex (\<lambda>r. isExpired other r t) reqs)"
    for acc b
    by (induction reqs arbitrary: acc b) auto
  then show ?thesis by (simp add: pruneExpiredRequests_def)
qed

lemma find_index_Some:
  "find_index P xs = Some i \<Longrightarrow> i < length xs \<and> P (xs ! i) \<and> (\<forall>j<i. \<not> P (xs ! j))"
proof (induction xs arbitrary: i)
  case (Cons x xs)
  then show ?case by (cases i) (auto split: if_splits simp: nth_Cons split: nat.splits)
qed simp

lemma find_index_None: "find_index P xs = None \<longleftrightarrow> list_all (\<lambda>x. \<not> P x) xs"
  by (induction xs) auto

definition account_requests :: "string \<Rightarrow> PairingRequest list \<Rightarrow> PairingRequest list" where
  "account_requests a reqs = filter (\<lambda>r. resolvePairingRequestAccountId r = a) reqs"

lemma group_by_account_get:
  "map_ok (group_by_account es) \<and>
     map_get (group_by_account es) a =
       (let own = filter (\<lambda>e. resolvePairingRequestAccountId (snd e) = a) es in if own = [] then None else Some own)"
proof (induction es rule: rev_induct)
  case (snoc e es)
  obtain i r where e: "e = (i, r)" by fastforce
  define g where "g = group_by_account es"
  have step: "group_by_account (es @ [e]) =
      (case map_get g (resolvePairingRequestAccountId r) of
         Some current \<Rightarrow> map_put (resolvePairingRequestAccountId r) (current @ [(i, r)]) g
       | None \<Rightarrow> map_put (resolvePairingRequestAccountId r) [(i, r)] g)"
    unfolding g_def group_by_account_def e by (simp add: Let_def split: option.split)
  have own: "map_get g (resolvePairingRequestAccountId r) =
      (let own = filter (\<lambda>e. resolvePairingRequestAccountId (snd e) = resolvePairingRequestAccountId r) es
       in if own = [] then None else Some own)" if "a = resolvePairingRequestAccountId r"
    using snoc that by (simp add: g_def)
  show ?case
    using snoc [folded g_def] own unfolding step
    by (cases "map_get g (resolvePairingRequestAccountId r)";
        cases "a = resolvePairingRequestAccountId r") (auto simp: e Let_def split: if_splits)
qed (simp add: group_by_account_def)

lemma excess_indexes_subset: "set (excess_indexes other n es) \<subseteq> fst ` set es"
  by (auto simp: excess_indexes_def Let_def dest!: in_set_takeD)

text \<open>The indexes dropped from the list are, account by account, the excess of that account.\<close>

lemma dropped_indexes:
  assumes "distinct (map fst es)" "e \<in> set es"
  shows "fst e \<in> set (concat (map (\<lambda>(_, entries). excess_indexes other n entries) (group_by_account es))) \<longleftrightarrow>
    fst e \<in> set (excess_indexes other n
      (filter (\<lambda>e'. resolvePairingRequestAccountId (snd e') = resolvePairingRequestAccountId (snd e)) es))"
    (is "?l \<longleftrightarrow> fst e \<in> set (excess_indexes other n ?own)")
proof
  have get: "(a, entries) \<in> set (group_by_account es) \<Longrightarrow>
      entries = filter (\<lambda>e'. resolvePairingRequestAccountId (snd e') = a) es" for a entries
    using group_by_account_get [of es a] map_get_in_ok [of "group_by_account es" a entries]
    by (simp add: Let_def split: if_splits)
  show "fst e \<in> set (excess_indexes other n ?own)" if ?l
  proof -
    obtain a entries where g: "(a, entries) \<in> set (group_by_account es)"
        "fst e \<in> set (excess_indexes other n entries)" using \<open>?l\<close> by auto
    have entries: "entries = filter (\<lambda>e'. resolvePairingRequestAccountId (snd e') = a) es" by (rule get [OF g(1)])
    obtain e' where e': "e' \<in> set entries" "fst e' = fst e"
      using g(2) excess_indexes_subset [of other n entries] by auto
    have "e' = e" using e' assms entries by (auto simp: distinct_map inj_on_def)
    then have "a = resolvePairingRequestAccountId (snd e)" using e'(1) entries by auto
    then show ?thesis using g(2) entries by simp
  qed
  show ?l if "fst e \<in> set (excess_indexes other n ?own)"
  proof -
    have "e \<in> set ?own" using assms(2) by simp
    then have "?own \<noteq> []" by (metis empty_iff list.set(1))
    then have "map_get (group_by_account es) (resolvePairingRequestAccountId (snd e)) = Some ?own"
      using group_by_account_get [of es "resolvePairingRequestAccountId (snd e)"] by (simp add: Let_def)
    then show ?l using that by (auto dest!: map_get_Some_in)
  qed
qed

definition kept_indexed :: "(string \<Rightarrow> int option) \<Rightarrow> nat \<Rightarrow> indexed_request list \<Rightarrow> indexed_request list" where
  "kept_indexed other n es = filter (\<lambda>e. fst e \<notin> set (excess_indexes other n es)) es"

abbreviation seen_order :: "(string \<Rightarrow> int option) \<Rightarrow> indexed_request \<Rightarrow> indexed_request \<Rightarrow> int" where
  "seen_order other left right \<equiv> resolveLastSeenAt other (snd left) - resolveLastSeenAt other (snd right)"

lemma filter_not_in_take:
  assumes "distinct (map fst s)"
  shows "filter (\<lambda>e. fst e \<notin> fst ` set (take m s)) s = drop m s"
proof -
  have "distinct (map fst (take m s @ drop m s))" using assms by simp
  then have "fst ` set (take m s) \<inter> fst ` set (drop m s) = {}"
    by (simp only: map_append distinct_append set_map)
  then have "filter (\<lambda>e. fst e \<notin> fst ` set (take m s)) (take m s) = []"
    "filter (\<lambda>e. fst e \<notin> fst ` set (take m s)) (drop m s) = drop m s"
    by (auto simp: filter_empty_conv filter_id_conv)
  then show ?thesis by (metis append_take_drop_id filter_append self_append_conv2)
qed

lemma kept_indexed_mset:
  assumes "distinct (map fst es)" "n < length es"
  shows "mset (kept_indexed other n es) = mset (drop (length es - n) (js_toSorted (seen_order other) es))"
proof -
  let ?s = "js_toSorted (seen_order other) es"
  have len: "length ?s = length es" by (metis mset_js_toSorted size_mset)
  have dist: "distinct (map fst ?s)" using assms(1) by (simp add: distinct_map)
  have drops: "set (excess_indexes other n es) = fst ` set (take (length es - n) ?s)"
    using assms(2) by (simp add: excess_indexes_def len)
  have "mset (kept_indexed other n es) =
      mset (filter (\<lambda>e. fst e \<notin> fst ` set (take (length es - n) ?s)) ?s)"
    by (simp add: kept_indexed_def drops)
  then show ?thesis by (simp add: filter_not_in_take [OF dist])
qed

lemma kept_indexed_length: "distinct (map fst es) \<Longrightarrow> length (kept_indexed other n es) = min n (length es)"
proof (cases "n < length es")
  case True
  assume "distinct (map fst es)"
  then have "size (mset (kept_indexed other n es)) = size (mset (js_toSorted (seen_order other) es)) - (length es - n)"
    using kept_indexed_mset True by (simp only: size_mset length_drop)
  then show ?thesis using True by simp
qed (simp add: kept_indexed_def excess_indexes_def)

lemma kept_indexed_newest:
  assumes "distinct (map fst es)" "e \<in> set (kept_indexed other n es)" "d \<in> set es" "d \<notin> set (kept_indexed other n es)"
  shows "resolveLastSeenAt other (snd d) \<le> resolveLastSeenAt other (snd e)"
proof -
  let ?s = "js_toSorted (seen_order other) es"
  have long: "n < length es"
    using assms(3,4) by (auto simp: kept_indexed_def excess_indexes_def split: if_splits)
  from kept_indexed_mset [OF assms(1) this]
  have kept: "set (kept_indexed other n es) = set (drop (length es - n) ?s)" by (metis mset_eq_setD)
  moreover have "set ?s = set (take (length es - n) ?s) \<union> set (drop (length es - n) ?s)"
    by (metis append_take_drop_id set_append)
  ultimately have "d \<in> set (take (length es - n) ?s)" "e \<in> set (drop (length es - n) ?s)"
    using assms by auto
  moreover have "sorted_wrt (\<lambda>x y. seen_order other x y \<le> 0) (take (length es - n) ?s @ drop (length es - n) ?s)"
    by (simp only: append_take_drop_id) (rule sorted_wrt_js_toSorted; simp)
  ultimately have "seen_order other d e \<le> 0" unfolding sorted_wrt_append by blast
  then show ?thesis by simp
qed

definition indexed_of :: "string \<Rightarrow> PairingRequest list \<Rightarrow> indexed_request list" where
  "indexed_of a reqs = filter (\<lambda>e. resolvePairingRequestAccountId (snd e) = a) (List.enumerate 0 reqs)"

lemma indexed_of_facts:
  "distinct (map fst (indexed_of a reqs))" "map snd (indexed_of a reqs) = account_requests a reqs"
  "length (indexed_of a reqs) \<le> length reqs"
proof -
  show "distinct (map fst (indexed_of a reqs))" unfolding indexed_of_def by (rule distinct_map_filter) simp
  have "map snd (filter (\<lambda>e. P (snd e)) es) = filter P (map snd es)" for P and es :: "indexed_request list"
    by (simp add: filter_map comp_def)
  from this [of "\<lambda>r. resolvePairingRequestAccountId r = a"]
  show "map snd (indexed_of a reqs) = account_requests a reqs"
    by (simp add: indexed_of_def account_requests_def)
  show "length (indexed_of a reqs) \<le> length reqs"
    unfolding indexed_of_def by (metis length_enumerate length_filter_le)
qed

definition keeps :: "(string \<Rightarrow> int option) \<Rightarrow> nat \<Rightarrow> PairingRequest list \<Rightarrow> indexed_request \<Rightarrow> bool" where
  "keeps other n reqs e \<longleftrightarrow>
     fst e \<notin> set (excess_indexes other n (indexed_of (resolvePairingRequestAccountId (snd e)) reqs))"

lemma prune_excess_eq:
  assumes "0 < n"
  shows "fst (pruneExcessRequestsByAccount other reqs n) = map snd (filter (keeps other n reqs) (List.enumerate 0 reqs))"
proof -
  let ?es = "List.enumerate 0 reqs"
  define D where "D = concat (map (\<lambda>(_, entries). excess_indexes other n entries) (group_by_account ?es))"
  have "distinct (map fst ?es)" by simp
  from dropped_indexes [OF this]
  have keep: "keeps other n reqs e \<longleftrightarrow> fst e \<notin> set D" if "e \<in> set ?es" for e
    using that by (simp only: keeps_def indexed_of_def D_def)
  then have filters: "filter (keeps other n reqs) ?es = filter (\<lambda>e. fst e \<notin> set D) ?es"
    by (intro filter_cong) simp_all
  show ?thesis
  proof (cases "length reqs \<le> n")
    case True
    have "length (indexed_of a reqs) \<le> n" for a using indexed_of_facts(3) [of a reqs] True by simp
    then have "filter (keeps other n reqs) ?es = ?es"
      by (intro filter_True) (simp add: keeps_def excess_indexes_def)
    then show ?thesis using True by (simp add: pruneExcessRequestsByAccount_def)
  next
    case False
    then have "fst (pruneExcessRequestsByAccount other reqs n) =
        (if D = [] then reqs else map snd (filter (\<lambda>e. fst e \<notin> set D) ?es))"
      using assms unfolding pruneExcessRequestsByAccount_def Let_def D_def [symmetric]
      by (auto simp: split_beta' intro!: arg_cong [where f = "map snd"] filter_cong)
    then show ?thesis by (simp add: filters)
  qed
qed

lemma account_requests_kept:
  assumes "0 < n"
  shows "account_requests a (fst (pruneExcessRequestsByAccount other reqs n)) =
    map snd (kept_indexed other n (indexed_of a reqs))"
proof -
  let ?es = "List.enumerate 0 reqs"
  have "account_requests a (map snd (filter (keeps other n reqs) ?es)) =
      map snd (filter (\<lambda>e. resolvePairingRequestAccountId (snd e) = a) (filter (keeps other n reqs) ?es))"
    by (simp add: account_requests_def filter_map comp_def)
  also have "filter (\<lambda>e. resolvePairingRequestAccountId (snd e) = a) (filter (keeps other n reqs) ?es) =
      kept_indexed other n (indexed_of a reqs)"
    unfolding kept_indexed_def indexed_of_def [of a] filter_filter
    by (intro filter_cong) (auto simp: keeps_def indexed_of_def)
  finally show ?thesis by (simp only: prune_excess_eq [OF assms])
qed

lemma prune_excess_count:
  "0 < n \<Longrightarrow> length (account_requests a (fst (pruneExcessRequestsByAccount other reqs n))) =
     min n (length (account_requests a reqs))"
  using kept_indexed_length [OF indexed_of_facts(1), of other n a reqs] indexed_of_facts(2) [of a reqs]
  by (metis account_requests_kept length_map)

lemma prune_excess_map_distinct:
  assumes "distinct (map f reqs)"
  shows "distinct (map f (fst (pruneExcessRequestsByAccount other reqs n)))"
proof (cases "n = 0")
  case False
  have "distinct (map f (map snd (List.enumerate 0 reqs)))" using assms by (simp only: map_snd_enumerate)
  then have "distinct (map (f \<circ> snd) (filter (keeps other n reqs) (List.enumerate 0 reqs)))"
    by (intro distinct_map_filter) (simp only: map_map)
  then show ?thesis using False by (simp add: prune_excess_eq)
qed (use assms in \<open>simp add: pruneExcessRequestsByAccount_def\<close>)

lemma prune_excess_set: "set (fst (pruneExcessRequestsByAccount other reqs n)) \<subseteq> set reqs"
proof (cases "n = 0")
  case False
  have "snd ` set (filter (keeps other n reqs) (List.enumerate 0 reqs)) \<subseteq> snd ` set (List.enumerate 0 reqs)" by auto
  also have "\<dots> = set reqs" by (metis map_snd_enumerate set_map)
  finally show ?thesis using False by (simp add: prune_excess_eq)
qed (simp add: pruneExcessRequestsByAccount_def)

text \<open>Codes.\<close>

definition code_shaped :: "string \<Rightarrow> bool" where
  "code_shaped c \<longleftrightarrow> length c = PAIRING_CODE_LENGTH \<and> list_all (\<lambda>x. x \<in> set PAIRING_CODE_ALPHABET) c"

lemma alphabet_facts:
  "list_all (\<lambda>x. js_upper_char x = [x] \<and> \<not> js_white_space x) PAIRING_CODE_ALPHABET"
  "length PAIRING_CODE_ALPHABET = 32"
  by code_simp+

lemma randomCode_shaped: "code_shaped (randomCode draw i)"
  by (auto simp: code_shaped_def randomCode_def list_all_iff alphabet_facts)

lemma code_shaped_facts:
  assumes "code_shaped c"
  shows "js_toUpperCase c = c" "normalized_entry c" "c \<noteq> []"
proof -
  have up: "js_upper_char x = [x]" "\<not> js_white_space x" if "x \<in> set c" for x
    using assms that alphabet_facts(1) by (auto simp: code_shaped_def list_all_iff)
  then have "concat (map js_upper_char c) = concat (map (\<lambda>x. [x]) c)" by (intro arg_cong [where f = concat] map_cong) auto
  then show "js_toUpperCase c = c" by (simp add: js_toUpperCase_def)
  show ne: "c \<noteq> []" using assms by (auto simp: code_shaped_def PAIRING_CODE_LENGTH_def)
  show "normalized_entry c" using up ne by (simp add: normalized_entry_def js_trim_no_white list_all_iff)
qed

lemma code_attempts_Inr: "code_attempts draw existing i n = Inr c \<Longrightarrow> code_shaped c \<and> c \<notin> existing"
  by (induction n arbitrary: i) (auto simp: Let_def randomCode_shaped split: if_splits)

lemma generateUniqueCode_Inr: "generateUniqueCode draw existing = Inr c \<Longrightarrow> code_shaped c \<and> c \<notin> existing"
  by (simp add: generateUniqueCode_def code_attempts_Inr)

end
