(* ===== verification/Pairing_Access.thy ===== *)
theory Pairing_Access
  imports Pairing_Store
begin

text \<open>
  What the pairing store guarantees. A desk is one channel of the tables: its pending requests
  and, per account, the allow list. The lemmas give the effect of every operation on the desk it
  works on and show that all other desks stay as they are; the properties about all reachable
  tables follow from them through the locale \<open>desk_machine\<close>.
\<close>

section \<open>Writing a desk\<close>

definition env_ok :: "(string \<Rightarrow> int option) \<Rightarrow> PairingEnv \<Rightarrow> bool" where
  "env_ok other env \<longleftrightarrow> pv_otherDates env = other \<and> valid_time (pv_stamp env)"

abbreviation desk_state :: "PairingRequest list \<Rightarrow> (string, string list) jsmap \<Rightarrow> ChannelPairingState" where
  "desk_state rs m \<equiv> \<lparr>cs_requests = rs, cs_allowFrom = m\<rparr>"

definition fresh :: "PairingEnv \<Rightarrow> PairingDatabase \<Rightarrow> string \<Rightarrow> PairingRequest list" where
  "fresh env db k = filter (\<lambda>r. \<not> isExpired (pv_otherDates env) r (pv_now env)) (pending (pv_otherDates env) db k)"

definition written ::
  "PairingEnv \<Rightarrow> string \<Rightarrow> PairingDatabase \<Rightarrow> PairingRequest list \<Rightarrow> (string, string list) jsmap \<Rightarrow>
     PairingDatabase \<Rightarrow> bool" where
  "written env k db rs m db' \<longleftrightarrow>
     db' = tables_with k (pv_writeTime env) db (desk_state rs m) \<and> state_ok (pv_otherDates env) (desk_state rs m)"

lemma written_facts:
  assumes "db_ok db" "written env k db rs m db'"
  shows "db_ok db'" "mset (pending (pv_otherDates env) db' k) = mset rs"
    "allowed db' k a = coalesce (map_get m a) []"
    "k' \<noteq> k \<Longrightarrow> pending other db' k' = pending other db k'" "k' \<noteq> k \<Longrightarrow> allowed db' k' a = allowed db k' a"
proof -
  have st: "state_ok (pv_otherDates env) (desk_state rs m)"
    and db': "db' = tables_with k (pv_writeTime env) db (desk_state rs m)"
    using assms(2) by (simp_all add: written_def)
  show "db_ok db'" unfolding db' by (rule db_ok_tables [OF assms(1) st])
  show "mset (pending (pv_otherDates env) db' k) = mset rs"
    unfolding db' using pending_same_channel [OF st] by simp
  show "allowed db' k a = coalesce (map_get m a) []"
    unfolding db' using allowed_same_channel [OF assms(1) st] by simp
  show "k' \<noteq> k \<Longrightarrow> pending other db' k' = pending other db k'"
    unfolding db' by (rule pending_other_channel)
  show "k' \<noteq> k \<Longrightarrow> allowed db' k' a = allowed db k' a"
    unfolding db' using st by (intro allowed_other_channel) (simp_all add: state_ok_def)
qed

lemma put_state_written:
  assumes "db_ok db" "safeChannelKey channel = Inr k"
    "state_ok (pv_otherDates env) (desk_state (storable (pv_otherDates env) rs) m)"
  shows "put_state env channel db (desk_state rs m) r =
    Inr (r, tables_with k (pv_writeTime env) db (desk_state (storable (pv_otherDates env) rs) m))"
  using write_tables [OF assms(1,3,2), of rs]
  by (simp add: put_state_def write_state_to_def)

lemma put_state_ok:
  assumes "db_ok db" "safeChannelKey channel = Inr k" "state_ok (pv_otherDates env) (desk_state rs m)"
  shows "put_state env channel db (desk_state rs m) r =
    Inr (r, tables_with k (pv_writeTime env) db (desk_state rs m))"
proof -
  have "storable (pv_otherDates env) rs = rs" using assms(3) by (simp add: state_ok_def storable_ok)
  then show ?thesis using put_state_written [OF assms(1,2), of env rs m] assms(3) by simp
qed

lemma read_state_key:
  assumes "db_ok db" "safeChannelKey channel = Inr k"
  shows "read_state_of env db channel =
    Inr (desk_state (pending (pv_otherDates env) db k) (allow_map db k))"
  by (simp add: read_state_of_def read_state [OF assms(1)] assms(2))

text \<open>Parts of a good desk are good desks.\<close>

lemma state_ok_sub:
  assumes "state_ok other (desk_state rs m)" "set rs' \<subseteq> set rs" "distinct (map request_ident rs')"
  shows "state_ok other (desk_state rs' m)"
  using assms by (auto simp: state_ok_def list_all_iff)

lemma desk_ok: "db_ok db \<Longrightarrow> state_ok other (desk_state (pending other db k) (allow_map db k))"
  by (rule read_state_ok)

lemma fresh_ok:
  assumes "db_ok db"
  shows "state_ok (pv_otherDates env) (desk_state (fresh env db k) (allow_map db k))"
  using desk_ok [OF assms] by (rule state_ok_sub) (auto simp: fresh_def pending_ok [OF assms] intro: distinct_map_filter)

lemma take_drop_without: "i < length xs \<Longrightarrow> mset (take i xs @ drop (Suc i) xs) = mset xs - {#xs ! i#}"
  by (metis add_mset_remove_trivial id_take_nth_drop mset.simps(2) mset_append union_mset_add_mset_right)

lemma without_ok:
  assumes "state_ok other (desk_state rs m)" "i < length rs"
  shows "state_ok other (desk_state (take i rs @ drop (Suc i) rs) m)"
proof (rule state_ok_sub [OF assms(1)])
  have eq: "rs = take i rs @ rs ! i # drop (Suc i) rs" by (rule id_take_nth_drop [OF assms(2)])
  show "set (take i rs @ drop (Suc i) rs) \<subseteq> set rs" by (auto dest: in_set_takeD in_set_dropD)
  have "distinct (map request_ident (take i rs @ rs ! i # drop (Suc i) rs))"
    using assms(1) eq by (simp add: state_ok_def)
  then show "distinct (map request_ident (take i rs @ drop (Suc i) rs))" by auto
qed

lemma excess_ok:
  "state_ok other (desk_state rs m) \<Longrightarrow>
     state_ok other (desk_state (fst (pruneExcessRequestsByAccount other rs n)) m)"
  by (rule state_ok_sub) (auto simp: state_ok_def dest: subsetD [OF prune_excess_set] intro: prune_excess_map_distinct)

lemma allow_field_Inr:
  assumes "allow_ok m" "allow_field m a = Inr current"
  shows "current = coalesce (map_get m a) []" "\<not> inherited_field a" "distinct current" "list_all entry_ok current"
proof -
  show "current = coalesce (map_get m a) []" using assms(2) by (auto simp: allow_field_def split: option.splits if_splits)
  then show "\<not> inherited_field a" "distinct current" "list_all entry_ok current"
    using assms by (auto simp: allow_field_def allow_ok_def list_all_iff split: option.splits if_splits
        dest!: map_get_Some_in)
qed

lemma allow_ok_put:
  assumes "allow_ok m" "allow_field m a = Inr current" "account_ok a" "distinct es" "list_all entry_ok es"
  shows "allow_ok (map_put a es m)"
proof -
  have "map_ok (map_put a es m)" using assms(1) by (simp add: allow_ok_def)
  moreover have "list_all (\<lambda>(a, es). account_ok a \<and> \<not> inherited_field a \<and> distinct es \<and> list_all entry_ok es)
      (map_put a es m)"
    using assms allow_field_Inr(2) [OF assms(1,2)]
    by (auto simp: allow_ok_def list_all_iff map_put_def split: if_splits)
  ultimately show ?thesis by (simp add: allow_ok_def)
qed

lemma normalizeAllow_ok: "normalizeAllowFromInput env channel v adapter \<noteq> [] \<Longrightarrow>
    entry_ok (normalizeAllowFromInput env channel v adapter)"
  by (auto simp: normalizeAllowFromInput_def normalizeAllowEntry_def entry_ok_def normalized_entry_def Let_def
      coalesce_def normalizeOptionalString_eq_Some split: if_splits option.splits)

section \<open>Approving\<close>

definition approval_code :: "string \<Rightarrow> string" where
  "approval_code c = js_toUpperCase (coalesce (normalizeNullableString (JString c)) [])"

definition code_matches :: "string \<Rightarrow> string option \<Rightarrow> PairingRequest \<Rightarrow> bool" where
  "code_matches c accountId r \<longleftrightarrow>
     js_toUpperCase (pr_code r) = approval_code c \<and> requestMatchesAccountId r (normalizePairingAccountId accountId)"

text \<open>The allow list of an account after one more entry.\<close>

definition with_entry :: "string \<Rightarrow> string list \<Rightarrow> string list" where
  "with_entry e es = (if e = [] \<or> e \<in> set es then es else es @ [e])"

definition approval_step ::
  "PairingEnv \<Rightarrow> string \<Rightarrow> string \<Rightarrow> string option \<Rightarrow> PairingAdapter option \<Rightarrow> PairingDatabase \<Rightarrow>
     PairingRequest \<Rightarrow> PairingError + (string, string list) jsmap" where
  "approval_step env channel k accountId adapter db entry =
     (let m = allow_map db k; a = approval_account accountId entry; e = approval_entry env channel adapter entry
      in if e = [] then Inr m
         else case allow_field m a of
                Inl err \<Rightarrow> Inl err
              | Inr current \<Rightarrow> Inr (if e \<in> set current then m else map_put a (current @ [e]) m))"

lemma account_ok_approval [simp]: "account_ok (approval_account accountId entry)"
  by (simp add: approval_account_def)

lemma approval_entry_ok: "approval_entry env channel adapter entry \<noteq> [] \<Longrightarrow> entry_ok (approval_entry env channel adapter entry)"
  by (auto simp: approval_entry_def Let_def normalizeAllow_ok split: if_splits)

lemma approval_step_ok:
  assumes "db_ok db" "approval_step env channel k accountId adapter db entry = Inr m"
  shows "allow_ok m"
    "coalesce (map_get m a) [] =
       (if a = approval_account accountId entry
        then with_entry (approval_entry env channel adapter entry) (allowed db k a) else allowed db k a)"
proof -
  let ?e = "approval_entry env channel adapter entry" and ?a = "approval_account accountId entry"
  have ok: "allow_ok (allow_map db k)" by (rule allow_map_ok [OF assms(1)])
  have m: "m = (if ?e = [] \<or> ?e \<in> set (allowed db k ?a) then allow_map db k
      else map_put ?a (allowed db k ?a @ [?e]) (allow_map db k)) \<and>
      (?e = [] \<or> allow_field (allow_map db k) ?a = Inr (allowed db k ?a))"
    using assms(2) by (auto simp: approval_step_def Let_def allowed_def dest: allow_field_Inr(1) [OF ok]
        split: if_splits sum.splits)
  show "allow_ok m"
  proof (cases "?e = [] \<or> ?e \<in> set (allowed db k ?a)")
    case False
    then have field: "allow_field (allow_map db k) ?a = Inr (allowed db k ?a)" using m by simp
    have "allow_ok (map_put ?a (allowed db k ?a @ [?e]) (allow_map db k))"
      using False allow_field_Inr(3,4) [OF ok field]
      by (intro allow_ok_put [OF ok field]) (simp_all add: approval_entry_ok)
    then show ?thesis using m False by simp
  qed (use m ok in simp)
  show "coalesce (map_get m a) [] =
      (if a = ?a then with_entry ?e (allowed db k a) else allowed db k a)"
    using m by (auto simp: with_entry_def allowed_def)
qed

lemma approve_eq:
  assumes "db_ok db" "safeChannelKey channel = Inr k" "approval_code c \<noteq> []"
  shows "approveChannelPairingCode env channel c accountId adapter db =
    (case find_index (code_matches c accountId) (fresh env db k) of
       None \<Rightarrow> (Inr None,
         if list_ex (\<lambda>r. isExpired (pv_otherDates env) r (pv_now env)) (pending (pv_otherDates env) db k)
         then tables_with k (pv_writeTime env) db (desk_state (fresh env db k) (allow_map db k)) else db)
     | Some i \<Rightarrow>
         (case approval_step env channel k accountId adapter db (fresh env db k ! i) of
            Inl e \<Rightarrow> (Inl e, db)
          | Inr m \<Rightarrow> (Inr (Some (fresh env db k ! i)),
              tables_with k (pv_writeTime env) db
                (desk_state (take i (fresh env db k) @ drop (Suc i) (fresh env db k)) m))))"
proof (cases "find_index (code_matches c accountId) (fresh env db k)")
  case None
  then show ?thesis using assms(3)
    by (simp add: approveChannelPairingCode_def approval_code_def code_matches_def [abs_def] Let_def in_transaction_def
        read_state_key [OF assms(1,2)] pruneExpired_eq fresh_def [symmetric]
        put_state_ok [OF assms(1,2) fresh_ok [OF assms(1)]])
next
  case (Some i)
  then have i: "i < length (fresh env db k)" by (blast dest: find_index_Some)
  let ?rest = "take i (fresh env db k) @ drop (Suc i) (fresh env db k)"
  have put: "put_state env channel db (desk_state ?rest m) r =
      Inr (r, tables_with k (pv_writeTime env) db (desk_state ?rest m))"
    if "approval_step env channel k accountId adapter db (fresh env db k ! i) = Inr m" for m and r :: "PairingRequest option"
    using without_ok [OF fresh_ok [OF assms(1)] i] approval_step_ok(1) [OF assms(1) that]
    by (intro put_state_ok [OF assms(1,2)]) (simp add: state_ok_def)
  show ?thesis using assms(3) Some put
    by (auto simp: approveChannelPairingCode_def approval_code_def code_matches_def [abs_def] Let_def in_transaction_def
        read_state_key [OF assms(1,2)] pruneExpired_eq fresh_def [symmetric] approval_step_def
        split: sum.split)
qed

section \<open>Requesting\<close>

lemma requested_account:
  "(let a = normalizePairingAccountId (Some acct) in if a = [] then DEFAULT_ACCOUNT_ID else a) = allow_account (Some acct)"
  by (simp add: normalizePairingAccountId_def allow_account_def optional_string_def)

lemma account_nonempty: "account_ok a \<Longrightarrow> a \<noteq> []"
  by (auto simp: account_ok_def normalized_entry_def)

lemma matches_account: "account_ok a \<Longrightarrow> requestMatchesAccountId r a \<longleftrightarrow> resolvePairingRequestAccountId r = a"
  by (auto simp: requestMatchesAccountId_def dest: account_nonempty)

lemma account_requests_match:
  "account_ok a \<Longrightarrow> filter (\<lambda>r. requestMatchesAccountId r a) rs = account_requests a rs"
  by (simp add: account_requests_def matches_account)

lemma normalizeId_ok: "normalizeId v \<noteq> [] \<Longrightarrow> normalized_entry (normalizeId v)"
  by (auto simp: normalizeId_def normalizeStringifiedOptionalString_def normalized_entry_def coalesce_def
      normalizeOptionalString_eq_Some split: js_value.splits option.splits)

lemma base_meta_ok: "base_meta meta = [] \<or> meta_ok (base_meta meta)"
proof -
  have step: "map_ok (foldl (\<lambda>m (k, v). map_put k v m) acc es) \<and>
      list_all (\<lambda>e. normalized_entry (snd e)) (foldl (\<lambda>m (k, v). map_put k v m) acc es)"
    if "map_ok acc" "list_all (\<lambda>e. normalized_entry (snd e)) acc" "list_all (\<lambda>e. normalized_entry (snd e)) es"
    for acc es
    using that
  proof (induction es arbitrary: acc)
    case (Cons e es)
    have "list_all (\<lambda>e. normalized_entry (snd e)) (map_put (fst e) (snd e) acc)"
      using Cons.prems by (auto simp: map_put_def list_all_iff split: if_splits)
    with Cons show ?case by (simp add: split_beta)
  qed simp
  have vals: "list_all (\<lambda>e. normalized_entry (snd e)) (filter (\<lambda>(_, v). v \<noteq> [])
      (map (\<lambda>(k, v). (k, coalesce (normalizeOptionalString v) [])) meta))"
    by (auto simp: list_all_iff coalesce_def normalizeOptionalString_eq_Some normalized_entry_def split: option.splits)
  show ?thesis using step [of "[]", OF _ _ vals] by (simp add: meta_ok_def base_meta_def)
qed

lemma request_meta_ok:
  assumes "account_ok a"
  shows "meta_ok (request_meta meta a)" "map_get (request_meta meta a) ''accountId'' = Some a"
  using meta_with_account [OF _ assms, of "case meta of None \<Rightarrow> [] | Some m \<Rightarrow> base_meta m"] base_meta_ok
  by (auto simp: request_meta_def split: option.splits)

definition new_request :: "PairingEnv \<Rightarrow> string \<Rightarrow> string \<Rightarrow> string \<Rightarrow> string \<Rightarrow> (string \<times> js_value) list option \<Rightarrow> PairingRequest" where
  "new_request env i code created a meta =
     \<lparr>pr_id = i, pr_code = code, pr_createdAt = created, pr_lastSeenAt = toISOString (pv_stamp env),
      pr_meta = Some (request_meta meta a)\<rparr>"

lemma new_request_fields [simp]:
  "pr_id (new_request env i code created a meta) = i" "pr_code (new_request env i code created a meta) = code"
  "pr_createdAt (new_request env i code created a meta) = created"
  by (simp_all add: new_request_def)

lemma new_request_account: "account_ok a \<Longrightarrow> resolvePairingRequestAccountId (new_request env i code created a meta) = a"
  by (simp add: resolvePairingRequestAccountId_def meta_account_def new_request_def request_meta_ok)

lemma parse_stamp: "valid_time t \<Longrightarrow> parseTimestamp other (Some (toISOString t)) = Some t"
  by (simp add: parseTimestamp_def nonempty_string_def parse_own_timestamp)

lemma new_request_ok:
  assumes "valid_time (pv_stamp env)" "account_ok a" "normalized_entry i" "normalized_entry code"
    "normalized_entry created" "parseTimestamp other (Some created) \<noteq> None"
  shows "request_ok other (new_request env i code created a meta)"
  using assms request_meta_ok [OF assms(2)]
  by (simp add: request_ok_def new_request_def parse_stamp) (simp add: normalized_entry_def)

lemma stamp_entry: "normalized_entry (toISOString t)"
  by (simp add: normalized_entry_def)

lemma storable_blank: "storable other [new_request env [] code created a meta] = []"
  by (simp add: storable_def normalizePersistedPairingRequest_def new_request_def Let_def)

definition refreshed ::
  "PairingEnv \<Rightarrow> PairingDatabase \<Rightarrow> string \<Rightarrow> string \<Rightarrow> string \<Rightarrow> (string \<times> js_value) list option \<Rightarrow> nat \<Rightarrow> PairingRequest list" where
  "refreshed env db k i a meta j = fst (pruneExcessRequestsByAccount (pv_otherDates env)
     ((fresh env db k)[j := new_request env i (pr_code (fresh env db k ! j)) (pr_createdAt (fresh env db k ! j)) a meta])
     PAIRING_PENDING_MAX)"

definition capped :: "PairingEnv \<Rightarrow> PairingDatabase \<Rightarrow> string \<Rightarrow> PairingRequest list" where
  "capped env db k = fst (pruneExcessRequestsByAccount (pv_otherDates env) (fresh env db k) PAIRING_PENDING_MAX)"

definition with_new ::
  "PairingEnv \<Rightarrow> PairingDatabase \<Rightarrow> string \<Rightarrow> string \<Rightarrow> string \<Rightarrow> (string \<times> js_value) list option \<Rightarrow> string \<Rightarrow> PairingRequest list" where
  "with_new env db k i a meta code = capped env db k @
     (if i = [] then [] else [new_request env i code (toISOString (pv_stamp env)) a meta])"

lemma capped_ok: "db_ok db \<Longrightarrow> state_ok (pv_otherDates env) (desk_state (capped env db k) (allow_map db k))"
  unfolding capped_def by (rule excess_ok [OF fresh_ok])

lemma distinct_map_update_same: "i < length xs \<Longrightarrow> f y = f (xs ! i) \<Longrightarrow> map f (xs[i := y]) = map f xs"
  by (metis list_update_id map_update nth_map)

lemma fresh_request_ok: "db_ok db \<Longrightarrow> r \<in> set (fresh env db k) \<Longrightarrow> request_ok (pv_otherDates env) r"
  using fresh_ok [of db env k] by (auto simp: state_ok_def list_all_iff)

lemma refreshed_ok:
  assumes "db_ok db" "valid_time (pv_stamp env)" "account_ok a"
    and found: "find_index (\<lambda>r. pr_id r = i \<and> requestMatchesAccountId r a) (fresh env db k) = Some j"
  shows "state_ok (pv_otherDates env) (desk_state (refreshed env db k i a meta j) (allow_map db k))"
proof -
  let ?r = "fresh env db k ! j"
  let ?new = "new_request env i (pr_code ?r) (pr_createdAt ?r) a meta"
  have j: "j < length (fresh env db k)" "pr_id ?r = i" "resolvePairingRequestAccountId ?r = a"
    using find_index_Some [OF found] assms(3) by (simp_all add: matches_account)
  then have r: "request_ok (pv_otherDates env) ?r" by (intro fresh_request_ok [OF assms(1), of _ env k]) simp
  then have new: "request_ok (pv_otherDates env) ?new"
    using assms(2,3) j by (intro new_request_ok) (auto simp: request_ok_def)
  have "map request_ident ((fresh env db k)[j := ?new]) = map request_ident (fresh env db k)"
    using j assms(3) by (intro distinct_map_update_same) (simp_all add: request_ident_def new_request_account)
  then have "state_ok (pv_otherDates env) (desk_state ((fresh env db k)[j := ?new]) (allow_map db k))"
    using fresh_ok [OF assms(1), of env k] new
    by (auto simp: state_ok_def list_all_iff dest: set_update_subset_insert [THEN subsetD])
  then show ?thesis unfolding refreshed_def by (rule excess_ok)
qed

lemma with_new_ok:
  assumes "db_ok db" "valid_time (pv_stamp env)" "account_ok a" "code_shaped code" "i = [] \<or> normalized_entry i"
    and absent: "find_index (\<lambda>r. pr_id r = i \<and> requestMatchesAccountId r a) (fresh env db k) = None"
  shows "state_ok (pv_otherDates env) (desk_state (with_new env db k i a meta code) (allow_map db k))"
proof (cases "i = []")
  case False
  let ?new = "new_request env i code (toISOString (pv_stamp env)) a meta"
  have new: "request_ok (pv_otherDates env) ?new"
    using assms(2-5) False by (intro new_request_ok) (simp_all add: stamp_entry parse_stamp code_shaped_facts)
  have "request_ident ?new \<notin> request_ident ` set (fresh env db k)"
    using absent assms(3) by (auto simp: find_index_None list_all_iff matches_account request_ident_def
        new_request_account)
  then have "request_ident ?new \<notin> request_ident ` set (capped env db k)"
    unfolding capped_def using prune_excess_set by blast
  then show ?thesis
    using capped_ok [OF assms(1), of env k] new False by (simp add: state_ok_def with_new_def)
qed (use capped_ok [OF assms(1), of env k] in \<open>simp add: with_new_def\<close>)

lemma storable_with_new:
  assumes "db_ok db" "valid_time (pv_stamp env)" "account_ok a" "code_shaped code" "i = [] \<or> normalized_entry i"
  shows "storable (pv_otherDates env)
      (capped env db k @ [new_request env i code (toISOString (pv_stamp env)) a meta]) = with_new env db k i a meta code"
proof -
  have cap: "storable (pv_otherDates env) (capped env db k) = capped env db k"
    using capped_ok [OF assms(1), of env k] by (intro storable_ok) (simp add: state_ok_def)
  show ?thesis
  proof (cases "i = []")
    case True
    then show ?thesis by (simp add: storable_append cap storable_blank with_new_def)
  next
    case False
    then have "request_ok (pv_otherDates env) (new_request env i code (toISOString (pv_stamp env)) a meta)"
      using assms(2-5) by (intro new_request_ok) (simp_all add: stamp_entry parse_stamp code_shaped_facts)
    then show ?thesis using False by (simp add: storable_append cap with_new_def storable_ok)
  qed
qed

lemma upsert_eq:
  fixes i a acct :: string and idValue :: js_value
  defines "i \<equiv> normalizeId idValue" and "a \<equiv> allow_account (Some acct)"
  assumes db: "db_ok db" and key: "safeChannelKey channel = Inr k" and stamp: "valid_time (pv_stamp env)"
  shows "upsertChannelPairingRequest env channel idValue acct meta db =
    (case find_index (\<lambda>r. pr_id r = i \<and> requestMatchesAccountId r a) (fresh env db k) of
       Some j \<Rightarrow> (Inr (pr_code (fresh env db k ! j), False),
         tables_with k (pv_writeTime env) db (desk_state (refreshed env db k i a meta j) (allow_map db k)))
     | None \<Rightarrow>
         if PAIRING_PENDING_MAX \<le> length (account_requests a (capped env db k)) then
           (Inr ([], False),
            if list_ex (\<lambda>r. isExpired (pv_otherDates env) r (pv_now env)) (pending (pv_otherDates env) db k) \<or>
               snd (pruneExcessRequestsByAccount (pv_otherDates env) (fresh env db k) PAIRING_PENDING_MAX)
            then tables_with k (pv_writeTime env) db (desk_state (capped env db k) (allow_map db k)) else db)
         else
           (case generateUniqueCode (pv_random env) (existing_codes (fresh env db k)) of
              Inl e \<Rightarrow> (Inl e, db)
            | Inr code \<Rightarrow> (Inr (code, True),
                tables_with k (pv_writeTime env) db (desk_state (with_new env db k i a meta code) (allow_map db k)))))"
    (is "_ = ?r")
proof -
  have a: "account_ok a" by (simp add: a_def)
  have i: "i = [] \<or> normalized_entry i" using normalizeId_ok by (auto simp: i_def)
  note eqs = upsertChannelPairingRequest_def Let_def in_transaction_def read_state_key [OF db key] pruneExpired_eq
    fresh_def [symmetric] requested_account [unfolded Let_def] i_def [symmetric] a_def [symmetric]
  show ?thesis
  proof (cases "find_index (\<lambda>r. pr_id r = i \<and> requestMatchesAccountId r a) (fresh env db k)")
    case (Some j)
    then have "j < length (fresh env db k)" by (blast dest: find_index_Some)
    then have "request_ok (pv_otherDates env) (fresh env db k ! j)" by (intro fresh_request_ok [OF db, of _ env k]) simp
    then have "normalizeOptionalString (JString (pr_code (fresh env db k ! j))) = Some (pr_code (fresh env db k ! j))"
      by (simp add: request_ok_def normalized_entry_def)
    moreover have "put_state env channel db (desk_state (refreshed env db k i a meta j) (allow_map db k)) r =
        Inr (r, tables_with k (pv_writeTime env) db (desk_state (refreshed env db k i a meta j) (allow_map db k)))" for r :: "string \<times> bool"
      by (rule put_state_ok [OF db key refreshed_ok [OF db stamp a Some]])
    ultimately show ?thesis using Some
      by (simp add: eqs refreshed_def new_request_def del: normalizeOptionalString_JString)
  next
    case None
    have full: "put_state env channel db (desk_state (capped env db k) (allow_map db k)) r =
        Inr (r, tables_with k (pv_writeTime env) db (desk_state (capped env db k) (allow_map db k)))" for r :: "string \<times> bool"
      by (rule put_state_ok [OF db key capped_ok [OF db]])
    have new: "put_state env channel db
          (desk_state (capped env db k @ [new_request env i code (toISOString (pv_stamp env)) a meta]) (allow_map db k)) r =
        Inr (r, tables_with k (pv_writeTime env) db (desk_state (with_new env db k i a meta code) (allow_map db k)))"
      if "generateUniqueCode (pv_random env) (existing_codes (fresh env db k)) = Inr code" for code and r :: "string \<times> bool"
    proof -
      have code: "code_shaped code" using generateUniqueCode_Inr [OF that] by simp
      show ?thesis
        using put_state_written [OF db key, of env "capped env db k @ [new_request env i code (toISOString (pv_stamp env)) a meta]"
            "allow_map db k" r]
          with_new_ok [OF db stamp a code i None, of meta] by (simp add: storable_with_new [OF db stamp a code i])
    qed
    show ?thesis
      using None full new
      by (auto simp: eqs new_request_def capped_def account_requests_match [OF a] PAIRING_PENDING_MAX_def split_beta
          split: sum.split)
  qed
qed

section \<open>Allow lists and listing\<close>

lemma update_eq:
  assumes db: "db_ok db" and key: "safeChannelKey channel = Inr k"
    and apply_ok: "\<And>cur e es. distinct cur \<Longrightarrow> list_all entry_ok cur \<Longrightarrow> entry_ok e \<Longrightarrow> apply_entry cur e = Some es \<Longrightarrow>
      distinct es \<and> list_all entry_ok es"
  shows "updateAllowFromStoreEntry apply_entry env channel v acct adapter db =
    (let e = normalizeAllowFromInput env channel v adapter
     in case allow_field (allow_map db k) (allow_account acct) of
          Inl err \<Rightarrow> (Inl err, db)
        | Inr current \<Rightarrow>
            if e = [] then (Inr (False, current), db)
            else (case apply_entry current e of
                None \<Rightarrow> (Inr (False, current), db)
              | Some es \<Rightarrow> (Inr (True, es), tables_with k (pv_writeTime env) db
                  (desk_state (pending (pv_otherDates env) db k) (map_put (allow_account acct) es (allow_map db k))))))"
proof -
  have ok: "allow_ok (allow_map db k)" by (rule allow_map_ok [OF db])
  have put: "put_state env channel db (desk_state (pending (pv_otherDates env) db k)
        (map_put (allow_account acct) es (allow_map db k))) r =
      Inr (r, tables_with k (pv_writeTime env) db (desk_state (pending (pv_otherDates env) db k)
        (map_put (allow_account acct) es (allow_map db k))))"
    if "allow_field (allow_map db k) (allow_account acct) = Inr current"
      "normalizeAllowFromInput env channel v adapter \<noteq> []"
      "apply_entry current (normalizeAllowFromInput env channel v adapter) = Some es"
    for current es and r :: "bool \<times> string list"
  proof -
    have "distinct es \<and> list_all entry_ok es"
      using apply_ok [OF allow_field_Inr(3,4) [OF ok that(1)] normalizeAllow_ok [OF that(2)] that(3)] .
    then have "allow_ok (map_put (allow_account acct) es (allow_map db k))"
      by (intro allow_ok_put [OF ok that(1)]) simp_all
    then show ?thesis using desk_ok [OF db, of "pv_otherDates env" k]
      by (intro put_state_ok [OF db key]) (simp add: state_ok_def)
  qed
  show ?thesis
    using put by (auto simp: updateAllowFromStoreEntry_def in_transaction_def Let_def read_state_key [OF db key]
        split: sum.split option.split)
qed

lemma list_eq:
  assumes db: "db_ok db" and key: "safeChannelKey channel = Inr k"
  shows "listChannelPairingRequests env channel acct db =
    (Inr (js_toSorted (compare_requests env)
        (filter (\<lambda>r. requestMatchesAccountId r (normalizePairingAccountId acct)) (capped env db k))),
     if list_ex (\<lambda>r. isExpired (pv_otherDates env) r (pv_now env)) (pending (pv_otherDates env) db k) \<or>
        snd (pruneExcessRequestsByAccount (pv_otherDates env) (fresh env db k) PAIRING_PENDING_MAX)
     then tables_with k (pv_writeTime env) db (desk_state (capped env db k) (allow_map db k)) else db)"
proof -
  have "put_state env channel db (desk_state (capped env db k) (allow_map db k)) r =
      Inr (r, tables_with k (pv_writeTime env) db (desk_state (capped env db k) (allow_map db k)))" for r :: "PairingRequest list"
    by (rule put_state_ok [OF db key capped_ok [OF db]])
  then show ?thesis
    by (simp add: listChannelPairingRequests_def in_transaction_def Let_def read_state_key [OF db key]
        pruneExpired_eq fresh_def [symmetric] capped_def split_beta)
qed

section \<open>Events and desks\<close>

datatype PairingEvent =
    RequestEvent PairingEnv string js_value string "(string \<times> js_value) list option"
  | ApproveEvent PairingEnv string string "string option" "PairingAdapter option"
  | AddEvent PairingEnv string js_value "string option" "PairingAdapter option"
  | RemoveEvent PairingEnv string js_value "string option" "PairingAdapter option"
  | ListEvent PairingEnv string "string option"

fun pairing_step :: "PairingEvent \<Rightarrow> PairingDatabase \<Rightarrow> PairingDatabase" where
  "pairing_step (RequestEvent env channel i acct meta) db = snd (upsertChannelPairingRequest env channel i acct meta db)"
| "pairing_step (ApproveEvent env channel c acct adapter) db = snd (approveChannelPairingCode env channel c acct adapter db)"
| "pairing_step (AddEvent env channel v acct adapter) db = snd (addChannelAllowFromStoreEntry env channel v acct adapter db)"
| "pairing_step (RemoveEvent env channel v acct adapter) db = snd (removeChannelAllowFromStoreEntry env channel v acct adapter db)"
| "pairing_step (ListEvent env channel acct) db = snd (listChannelPairingRequests env channel acct db)"

fun event_env :: "PairingEvent \<Rightarrow> PairingEnv" where
  "event_env (RequestEvent env _ _ _ _) = env"
| "event_env (ApproveEvent env _ _ _ _) = env"
| "event_env (AddEvent env _ _ _ _) = env"
| "event_env (RemoveEvent env _ _ _ _) = env"
| "event_env (ListEvent env _ _) = env"

fun event_channel :: "PairingEvent \<Rightarrow> string" where
  "event_channel (RequestEvent _ channel _ _ _) = channel"
| "event_channel (ApproveEvent _ channel _ _ _) = channel"
| "event_channel (AddEvent _ channel _ _ _) = channel"
| "event_channel (RemoveEvent _ channel _ _ _) = channel"
| "event_channel (ListEvent _ channel _) = channel"

definition pairing_event_ok :: "(string \<Rightarrow> int option) \<Rightarrow> PairingEvent \<Rightarrow> bool" where
  "pairing_event_ok other ev \<longleftrightarrow> env_ok other (event_env ev)"

definition empty_tables :: PairingDatabase where
  "empty_tables = \<lparr>db_requests = [], db_allow = []\<rparr>"

definition pairing_run :: "PairingEvent list \<Rightarrow> PairingDatabase" where
  "pairing_run evs = foldl (\<lambda>db ev. pairing_step ev db) empty_tables evs"

type_synonym desk = "PairingRequest multiset \<times> (string \<Rightarrow> string list)"

definition desk_of :: "(string \<Rightarrow> int option) \<Rightarrow> PairingDatabase \<Rightarrow> string \<Rightarrow> desk" where
  "desk_of other db k = (mset (pending other db k), allowed db k)"

definition live :: "PairingEnv \<Rightarrow> PairingRequest multiset \<Rightarrow> PairingRequest multiset" where
  "live env rs = filter_mset (\<lambda>r. \<not> isExpired (pv_otherDates env) r (pv_now env)) rs"

definition account_count :: "string \<Rightarrow> PairingRequest multiset \<Rightarrow> nat" where
  "account_count a rs = size (filter_mset (\<lambda>r. resolvePairingRequestAccountId r = a) rs)"

text \<open>
  The abstract operations: which desks may follow a desk. Requests and lists leave at most three
  pending requests per account, an approval takes one live request with the code away and adds
  its entry, and allow lists change by single entries.
\<close>

fun desk_spec :: "PairingEvent \<Rightarrow> desk \<Rightarrow> desk \<Rightarrow> bool" where
  "desk_spec (RequestEvent env channel idValue acct meta) (rs, allow) (rs', allow') \<longleftrightarrow>
     (let i = normalizeId idValue; a = allow_account (Some acct)
      in allow' = allow \<and> (\<forall>a. account_count a rs' \<le> PAIRING_PENDING_MAX) \<and>
         (rs' \<subseteq># live env rs \<or>
          (\<exists>r. r \<in># live env rs \<and> request_ident r = (a, i) \<and>
             rs' \<subseteq># live env rs - {#r#} + {#new_request env i (pr_code r) (pr_createdAt r) a meta#}) \<or>
          (\<exists>code kept. code_shaped code \<and> code \<notin> js_toUpperCase ` pr_code ` set_mset (live env rs) \<and>
             kept \<subseteq># live env rs \<and>
             rs' = add_mset (new_request env i code (toISOString (pv_stamp env)) a meta) kept)))"
| "desk_spec (ApproveEvent env channel c acct adapter) (rs, allow) (rs', allow') \<longleftrightarrow>
     rs' = live env rs \<and> allow' = allow \<or>
     (\<exists>r. r \<in># live env rs \<and> code_matches c acct r \<and> rs' = live env rs - {#r#} \<and>
        (let a = approval_account acct r
         in allow' = allow(a := with_entry (approval_entry env channel adapter r) (allow a))))"
| "desk_spec (AddEvent env channel v acct adapter) (rs, allow) (rs', allow') \<longleftrightarrow>
     rs' = rs \<and> (let a = allow_account acct
       in allow' = allow(a := with_entry (normalizeAllowFromInput env channel v adapter) (allow a)))"
| "desk_spec (RemoveEvent env channel v acct adapter) (rs, allow) (rs', allow') \<longleftrightarrow>
     rs' = rs \<and> (let a = allow_account acct
       in allow' = allow(a := filter (\<lambda>e. e \<noteq> normalizeAllowFromInput env channel v adapter) (allow a)))"
| "desk_spec (ListEvent env channel acct) (rs, allow) (rs', allow') \<longleftrightarrow>
     rs' \<subseteq># live env rs \<and> allow' = allow \<and> (\<forall>a. account_count a rs' \<le> PAIRING_PENDING_MAX)"

lemma mset_fresh: "mset (fresh env db k) = live env (mset (pending (pv_otherDates env) db k))"
  by (simp add: fresh_def live_def)

lemma account_count_mset: "account_count a (mset rs) = length (account_requests a rs)"
  by (simp add: account_count_def account_requests_def flip: mset_filter)

lemma account_count_add:
  "account_count a (add_mset r rs) = (if resolvePairingRequestAccountId r = a then Suc (account_count a rs) else account_count a rs)"
  by (simp add: account_count_def)

lemma bounded_after_prune: "account_count a (mset (fst (pruneExcessRequestsByAccount other rs PAIRING_PENDING_MAX))) \<le> PAIRING_PENDING_MAX"
  by (simp add: account_count_mset prune_excess_count PAIRING_PENDING_MAX_def)

lemma prune_excess_sub: "mset (fst (pruneExcessRequestsByAccount other rs n)) \<subseteq># mset rs"
proof (cases "n = 0")
  case False
  have "image_mset snd (filter_mset (keeps other n rs) (mset (List.enumerate 0 rs))) \<subseteq>#
      image_mset snd (mset (List.enumerate 0 rs))" by (intro image_mset_subseteq_mono) simp
  also have "\<dots> = mset rs" by (metis map_snd_enumerate mset_map)
  finally show ?thesis using False by (simp add: prune_excess_eq)
qed (simp add: pruneExcessRequestsByAccount_def)

lemma capped_facts:
  "mset (capped env db k) \<subseteq># live env (mset (pending (pv_otherDates env) db k))"
  "account_count a (mset (capped env db k)) \<le> PAIRING_PENDING_MAX"
  using prune_excess_sub [of "pv_otherDates env" "fresh env db k"] bounded_after_prune
  by (simp_all add: capped_def flip: mset_fresh)

definition refines_desk :: "(string \<Rightarrow> int option) \<Rightarrow> string \<Rightarrow> PairingEvent \<Rightarrow> PairingDatabase \<Rightarrow> bool" where
  "refines_desk other k ev db \<longleftrightarrow> pairing_step ev db = db \<or>
     (\<exists>rs m. written (event_env ev) k db rs m (pairing_step ev db) \<and>
        desk_spec ev (desk_of other db k) (mset rs, \<lambda>a. coalesce (map_get m a) []))"

lemma refines_deskI:
  "pairing_step ev db = tables_with k (pv_writeTime (event_env ev)) db (desk_state rs m) \<Longrightarrow>
     state_ok (pv_otherDates (event_env ev)) (desk_state rs m) \<Longrightarrow>
     desk_spec ev (desk_of other db k) (mset rs, \<lambda>a. coalesce (map_get m a) []) \<Longrightarrow> refines_desk other k ev db"
  unfolding refines_desk_def written_def by blast

lemma allowed_fun: "(\<lambda>a. coalesce (map_get (allow_map db k) a) []) = allowed db k"
  by (simp add: fun_eq_iff allowed_def)

lemma approve_refines:
  assumes "db_ok db" "env_ok other env" "safeChannelKey channel = Inr k"
  shows "refines_desk other k (ApproveEvent env channel c acct adapter) db"
proof (cases "approval_code c = []")
  case True
  then show ?thesis by (simp add: refines_desk_def approveChannelPairingCode_def approval_code_def)
next
  case code: False
  note eq = approve_eq [OF assms(1,3) code]
  have other: "pv_otherDates env = other" using assms(2) by (simp add: env_ok_def)
  show ?thesis
  proof (cases "find_index (code_matches c acct) (fresh env db k)")
    case None
    have "pairing_step (ApproveEvent env channel c acct adapter) db = db \<or>
        pairing_step (ApproveEvent env channel c acct adapter) db =
          tables_with k (pv_writeTime env) db (desk_state (fresh env db k) (allow_map db k))"
      by (simp add: eq None)
    moreover have "desk_spec (ApproveEvent env channel c acct adapter) (desk_of other db k)
        (mset (fresh env db k), \<lambda>a. coalesce (map_get (allow_map db k) a) [])"
      by (simp add: desk_of_def mset_fresh other allowed_fun)
    ultimately show ?thesis
      using refines_deskI [of "ApproveEvent env channel c acct adapter" db k "fresh env db k" "allow_map db k" other]
        fresh_ok [OF assms(1)] by (auto simp: refines_desk_def)
  next
    case (Some i)
    let ?r = "fresh env db k ! i" and ?rest = "take i (fresh env db k) @ drop (Suc i) (fresh env db k)"
    have i: "i < length (fresh env db k)" "code_matches c acct ?r" using find_index_Some [OF Some] by simp_all
    show ?thesis
    proof (cases "approval_step env channel k acct adapter db ?r")
      case (Inl e)
      then show ?thesis by (simp add: refines_desk_def eq Some)
    next
      case (Inr m)
      have "?r \<in># live env (mset (pending other db k))"
        using i(1) nth_mem [OF i(1)] by (metis mset_fresh other set_mset_mset)
      moreover have "mset ?rest = live env (mset (pending other db k)) - {#?r#}"
        using take_drop_without [OF i(1)] mset_fresh [of env db k] by (simp add: other)
      moreover have "(\<lambda>a. coalesce (map_get m a) []) = (allowed db k)(approval_account acct ?r :=
          with_entry (approval_entry env channel adapter ?r) (allowed db k (approval_account acct ?r)))"
        using approval_step_ok(2) [OF assms(1) Inr] by (simp add: fun_eq_iff)
      ultimately have "desk_spec (ApproveEvent env channel c acct adapter) (desk_of other db k)
          (mset ?rest, \<lambda>a. coalesce (map_get m a) [])"
        using i(2) by (auto simp: desk_of_def Let_def)
      moreover have "state_ok (pv_otherDates env) (desk_state ?rest m)"
        using without_ok [OF fresh_ok [OF assms(1)] i(1)] approval_step_ok(1) [OF assms(1) Inr] by (simp add: state_ok_def)
      ultimately show ?thesis
        by (intro refines_deskI [where rs = ?rest and m = m]) (simp_all add: eq Some Inr del: mset_append)
    qed
  qed
qed

lemma live_code_set:
  assumes "db_ok db"
  shows "existing_codes (fresh env db k) = js_toUpperCase ` pr_code ` set_mset (live env (mset (pending (pv_otherDates env) db k)))"
proof -
  have "existing_codes (fresh env db k) = js_toUpperCase ` pr_code ` set (fresh env db k)"
    unfolding existing_codes_def set_map image_image
    using fresh_request_ok [OF assms] by (intro image_cong) (auto simp: request_ok_def normalized_entry_def)
  also have "set (fresh env db k) = set_mset (live env (mset (pending (pv_otherDates env) db k)))"
    by (metis mset_fresh set_mset_mset)
  finally show ?thesis .
qed

lemma mset_update_at: "i < length xs \<Longrightarrow> mset (xs[i := y]) = mset xs - {#xs ! i#} + {#y#}"
  by (simp add: mset_update)

lemma request_refines:
  assumes db: "db_ok db" and env: "env_ok other env" and key: "safeChannelKey channel = Inr k"
  shows "refines_desk other k (RequestEvent env channel idValue acct meta) db"
proof -
  let ?ev = "RequestEvent env channel idValue acct meta"
  let ?i = "normalizeId idValue" and ?a = "allow_account (Some acct)"
  let ?live = "live env (mset (pending other db k))"
  have other: "pv_otherDates env = other" and stamp: "valid_time (pv_stamp env)" using env by (simp_all add: env_ok_def)
  note eq = upsert_eq [OF db key stamp]
  have i: "?i = [] \<or> normalized_entry ?i" using normalizeId_ok by auto
  have cap: "desk_spec ?ev (desk_of other db k) (mset (capped env db k), \<lambda>a. coalesce (map_get (allow_map db k) a) [])"
    using capped_facts(1) [of env db k] capped_facts(2) [of _ env db k] by (simp add: desk_of_def allowed_fun Let_def other)
  show ?thesis
  proof (cases "find_index (\<lambda>r. pr_id r = ?i \<and> requestMatchesAccountId r ?a) (fresh env db k)")
    case (Some j)
    let ?r = "fresh env db k ! j"
    let ?new = "new_request env ?i (pr_code ?r) (pr_createdAt ?r) ?a meta"
    have j: "j < length (fresh env db k)" "request_ident ?r = (?a, ?i)"
      using find_index_Some [OF Some] by (simp_all add: request_ident_def matches_account)
    have "?r \<in># ?live" using nth_mem [OF j(1)] by (metis mset_fresh other set_mset_mset)
    moreover have "mset (refreshed env db k ?i ?a meta j) \<subseteq># ?live - {#?r#} + {#?new#}"
      using prune_excess_sub [of other "(fresh env db k)[j := ?new]" PAIRING_PENDING_MAX]
      by (simp only: mset_update_at [OF j(1)] mset_fresh other refreshed_def)
    ultimately have "desk_spec ?ev (desk_of other db k)
        (mset (refreshed env db k ?i ?a meta j), \<lambda>a. coalesce (map_get (allow_map db k) a) [])"
      using j(2) by (auto simp: desk_of_def allowed_fun Let_def refreshed_def bounded_after_prune)
    then show ?thesis
      using refreshed_ok [OF db stamp _ Some] by (intro refines_deskI) (simp_all add: eq Some)
  next
    case None
    show ?thesis
    proof (cases "PAIRING_PENDING_MAX \<le> length (account_requests ?a (capped env db k))")
      case True
      have "pairing_step ?ev db = db \<or>
          pairing_step ?ev db = tables_with k (pv_writeTime env) db (desk_state (capped env db k) (allow_map db k))"
        by (simp add: eq None True)
      then show ?thesis
        using refines_deskI [of ?ev db k "capped env db k" "allow_map db k" other] cap capped_ok [OF db]
        by (auto simp: refines_desk_def)
    next
      case room: False
      show ?thesis
      proof (cases "generateUniqueCode (pv_random env) (existing_codes (fresh env db k))")
        case (Inl e)
        then show ?thesis by (simp add: refines_desk_def eq None room)
      next
        case (Inr code)
        from generateUniqueCode_Inr [OF this]
        have code: "code_shaped code" "code \<notin> js_toUpperCase ` pr_code ` set_mset ?live"
          using live_code_set [OF db, of env k] by (simp_all add: other)
        let ?new = "new_request env ?i code (toISOString (pv_stamp env)) ?a meta"
        have bound: "account_count b (mset (with_new env db k ?i ?a meta code)) \<le> PAIRING_PENDING_MAX" for b
          using room capped_facts(2) [of b env db k]
          by (auto simp: with_new_def account_count_add new_request_account simp flip: account_count_mset)
        have "desk_spec ?ev (desk_of other db k) (mset (with_new env db k ?i ?a meta code), \<lambda>a. coalesce (map_get (allow_map db k) a) [])"
        proof (cases "?i = []")
          case True
          then show ?thesis using cap by (simp add: with_new_def)
        next
          case False
          have "mset (with_new env db k ?i ?a meta code) = add_mset ?new (mset (capped env db k))"
            using False by (simp add: with_new_def)
          then show ?thesis
            using code bound capped_facts(1) [of env db k]
            by (simp only: desk_spec.simps desk_of_def allowed_fun Let_def other) blast
        qed
        then show ?thesis
          using with_new_ok [OF db stamp _ code(1) i None] by (intro refines_deskI) (simp_all add: eq None room Inr)
      qed
    qed
  qed
qed

lemma list_refines:
  assumes db: "db_ok db" and env: "env_ok other env" and key: "safeChannelKey channel = Inr k"
  shows "refines_desk other k (ListEvent env channel acct) db"
proof -
  have "desk_spec (ListEvent env channel acct) (desk_of other db k)
      (mset (capped env db k), \<lambda>a. coalesce (map_get (allow_map db k) a) [])"
    using capped_facts(1) [of env db k] capped_facts(2) [of _ env db k] env
    by (simp add: desk_of_def allowed_fun env_ok_def)
  moreover have "pairing_step (ListEvent env channel acct) db = db \<or>
      pairing_step (ListEvent env channel acct) db = tables_with k (pv_writeTime env) db (desk_state (capped env db k) (allow_map db k))"
    by (simp add: list_eq [OF db key])
  ultimately show ?thesis
    using refines_deskI [of "ListEvent env channel acct" db k "capped env db k" "allow_map db k" other] capped_ok [OF db]
    by (auto simp: refines_desk_def)
qed

text \<open>Both changes of an allow list, from what their list function returns.\<close>

definition entry_change :: "(string list \<Rightarrow> string \<Rightarrow> string list option) \<Rightarrow> bool" where
  "entry_change f \<longleftrightarrow> (\<forall>cur e es. distinct cur \<longrightarrow> list_all entry_ok cur \<longrightarrow> entry_ok e \<longrightarrow> f cur e = Some es \<longrightarrow>
     distinct es \<and> list_all entry_ok es)"

lemma update_written:
  assumes db: "db_ok db" and key: "safeChannelKey channel = Inr k" and f: "entry_change f"
  shows "(snd (updateAllowFromStoreEntry f env channel v acct adapter db) = db) \<or>
    (\<exists>es m. f (allowed db k (allow_account acct)) (normalizeAllowFromInput env channel v adapter) = Some es \<and>
      normalizeAllowFromInput env channel v adapter \<noteq> [] \<and>
      written env k db (pending (pv_otherDates env) db k) m (snd (updateAllowFromStoreEntry f env channel v acct adapter db)) \<and>
      (\<lambda>a. coalesce (map_get m a) []) = (allowed db k)(allow_account acct := es))"
proof -
  let ?a = "allow_account acct" and ?e = "normalizeAllowFromInput env channel v adapter"
  have ok: "allow_ok (allow_map db k)" by (rule allow_map_ok [OF db])
  have f': "distinct es \<and> list_all entry_ok es" if "distinct cur" "list_all entry_ok cur" "entry_ok e" "f cur e = Some es" for cur e es
    using f that unfolding entry_change_def by blast
  note eq = update_eq [OF db key f']
  show ?thesis
  proof (cases "\<exists>cur es. allow_field (allow_map db k) ?a = Inr cur \<and> ?e \<noteq> [] \<and> f cur ?e = Some es")
    case True
    then obtain cur es where c: "allow_field (allow_map db k) ?a = Inr cur" "?e \<noteq> []" "f cur ?e = Some es" by blast
    have cur: "cur = allowed db k ?a" using allow_field_Inr(1) [OF ok c(1)] by (simp add: allowed_def)
    have "distinct es \<and> list_all entry_ok es"
      using f' [OF allow_field_Inr(3,4) [OF ok c(1)] normalizeAllow_ok [OF c(2)] c(3)] .
    then have "allow_ok (map_put ?a es (allow_map db k))" by (intro allow_ok_put [OF ok c(1)]) simp_all
    then have "state_ok (pv_otherDates env) (desk_state (pending (pv_otherDates env) db k) (map_put ?a es (allow_map db k)))"
      using desk_ok [OF db, of "pv_otherDates env" k] by (simp add: state_ok_def)
    then have "written env k db (pending (pv_otherDates env) db k) (map_put ?a es (allow_map db k))
        (snd (updateAllowFromStoreEntry f env channel v acct adapter db))"
      using c by (simp add: eq written_def Let_def)
    moreover have "(\<lambda>a. coalesce (map_get (map_put ?a es (allow_map db k)) a) []) = (allowed db k)(?a := es)"
      by (simp add: fun_eq_iff allowed_def)
    ultimately show ?thesis using c cur by blast
  next
    case False
    then have "snd (updateAllowFromStoreEntry f env channel v acct adapter db) = db"
      by (auto simp: eq Let_def split: sum.split option.split)
    then show ?thesis ..
  qed
qed

lemma add_refines:
  assumes db: "db_ok db" and env: "env_ok other env" and key: "safeChannelKey channel = Inr k"
  shows "refines_desk other k (AddEvent env channel v acct adapter) db"
proof -
  have "entry_change (\<lambda>current normalized. if normalized \<in> set current then None else Some (current @ [normalized]))"
    by (auto simp: entry_change_def)
  from update_written [OF db key this, of env v acct adapter] show ?thesis
    using env by (auto simp: refines_desk_def addChannelAllowFromStoreEntry_def desk_of_def with_entry_def env_ok_def
        Let_def split: if_splits)
qed

lemma remove_refines:
  assumes db: "db_ok db" and env: "env_ok other env" and key: "safeChannelKey channel = Inr k"
  shows "refines_desk other k (RemoveEvent env channel v acct adapter) db"
proof -
  let ?f = "\<lambda>(current :: string list) normalized. let next_entries = filter (\<lambda>entry. entry \<noteq> normalized) current
     in if length next_entries = length current then None else Some next_entries"
  have "entry_change ?f" by (auto simp: entry_change_def Let_def list_all_iff)
  from update_written [OF db key this, of env v acct adapter] show ?thesis
    using env by (auto simp: refines_desk_def removeChannelAllowFromStoreEntry_def desk_of_def env_ok_def
        Let_def split: if_splits)
qed

section \<open>Every step on every desk\<close>

definition event_key :: "PairingEvent \<Rightarrow> PairingError + string" where
  "event_key ev = safeChannelKey (event_channel ev)"

lemma step_refines:
  assumes "db_ok db" "pairing_event_ok other ev" "event_key ev = Inr k"
  shows "refines_desk other k ev db"
  using assms by (cases ev)
    (auto simp: pairing_event_ok_def event_key_def request_refines approve_refines add_refines remove_refines list_refines)

lemma step_bad_key:
  assumes "event_key ev = Inl e"
  shows "pairing_step ev db = db"
proof -
  have "read_state_of env db (event_channel ev) = Inl e" for env
    using assms by (simp add: read_state_of_def readChannelPairingStateFromDatabase_def event_key_def)
  then show ?thesis
    by (cases ev) (simp_all add: upsertChannelPairingRequest_def approveChannelPairingCode_def
        addChannelAllowFromStoreEntry_def removeChannelAllowFromStoreEntry_def updateAllowFromStoreEntry_def
        listChannelPairingRequests_def in_transaction_def Let_def)
qed

lemma desk_written:
  assumes "db_ok db" "written env k db rs m db'" "pv_otherDates env = other"
  shows "desk_of other db' k = (mset rs, \<lambda>a. coalesce (map_get m a) [])"
    "k' \<noteq> k \<Longrightarrow> desk_of other db' k' = desk_of other db k'"
  using written_facts [OF assms(1,2)] assms(3) by (auto simp: desk_of_def)

lemma step_desks:
  assumes "db_ok db" "pairing_event_ok other ev"
  shows "db_ok (pairing_step ev db) \<and>
    (desk_of other (pairing_step ev db) k = desk_of other db k \<or>
     event_key ev = Inr k \<and> desk_spec ev (desk_of other db k) (desk_of other (pairing_step ev db) k))"
proof (cases "event_key ev")
  case (Inl e)
  then show ?thesis using assms(1) by (simp add: step_bad_key)
next
  case (Inr k0)
  from step_refines [OF assms this] consider "pairing_step ev db = db"
    | rs m where "written (event_env ev) k0 db rs m (pairing_step ev db)"
        "desk_spec ev (desk_of other db k0) (mset rs, \<lambda>a. coalesce (map_get m a) [])"
    unfolding refines_desk_def by blast
  then show ?thesis
  proof cases
    case 2
    have other: "pv_otherDates (event_env ev) = other" using assms(2) by (simp add: pairing_event_ok_def env_ok_def)
    show ?thesis
      using 2(2) Inr written_facts(1) [OF assms(1) 2(1)] desk_written [OF assms(1) 2(1) other]
      by (cases "k = k0") auto
  qed (use assms(1) in simp)
qed

text \<open>
  Desks of which every step changes at most one, within its specification: what holds of the
  untouched desk and is kept by the specification holds of every desk after every run.
\<close>

locale desk_machine =
  fixes good :: "'d \<Rightarrow> bool" and start :: 'd and step :: "'e \<Rightarrow> 'd \<Rightarrow> 'd" and valid :: "'e \<Rightarrow> bool"
    and desk :: "'d \<Rightarrow> 'k \<Rightarrow> 'v" and change :: "'k \<Rightarrow> 'e \<Rightarrow> 'v \<Rightarrow> 'v \<Rightarrow> bool"
  assumes good_start: "good start"
    and good_step: "good d \<Longrightarrow> valid e \<Longrightarrow> good (step e d)"
    and desk_step: "good d \<Longrightarrow> valid e \<Longrightarrow> desk (step e d) k = desk d k \<or> change k e (desk d k) (desk (step e d) k)"
begin

lemma good_run: "list_all valid es \<Longrightarrow> good (foldl (\<lambda>d e. step e d) start es)"
  by (induction es rule: rev_induct) (auto simp: good_start good_step)

lemma run_invariant:
  assumes "\<And>k e v v'. change k e v v' \<Longrightarrow> Q v \<Longrightarrow> Q v'" "Q (desk start k)" "list_all valid es"
  shows "Q (desk (foldl (\<lambda>d e. step e d) start es) k)"
  using assms(3)
proof (induction es rule: rev_induct)
  case (snoc e es)
  then have "good (foldl (\<lambda>d e. step e d) start es)" "valid e" by (auto intro: good_run)
  from desk_step [OF this, of k] snoc show ?case by (auto intro: assms(1))
qed (simp add: assms(2))

text \<open>A property of histories, extended event by event.\<close>

lemma run_history:
  assumes "P []"
    and "\<And>es e. list_all valid (es @ [e]) \<Longrightarrow> P es \<Longrightarrow>
      desk (foldl (\<lambda>d e. step e d) start (es @ [e])) k = desk (foldl (\<lambda>d e. step e d) start es) k \<or>
      change k e (desk (foldl (\<lambda>d e. step e d) start es) k) (desk (foldl (\<lambda>d e. step e d) start (es @ [e])) k) \<Longrightarrow>
      P (es @ [e])"
    and "list_all valid es"
  shows "P es"
  using assms(3)
proof (induction es rule: rev_induct)
  case (snoc e es)
  then have "good (foldl (\<lambda>d e. step e d) start es)" "valid e" by (auto intro: good_run)
  from desk_step [OF this, of k] snoc show ?case by (intro assms(2)) auto
qed (rule assms(1))

end

lemma empty_tables_ok: "db_ok empty_tables"
  by (simp add: db_ok_def empty_tables_def)

interpretation pairing: desk_machine db_ok empty_tables pairing_step "pairing_event_ok other" "desk_of other"
  "\<lambda>k ev v v'. event_key ev = Inr k \<and> desk_spec ev v v'" for other
  by unfold_locales (auto simp: empty_tables_ok step_desks)

lemma run_ok: "list_all (pairing_event_ok other) evs \<Longrightarrow> db_ok (pairing_run evs)"
  unfolding pairing_run_def by (rule pairing.good_run)

lemma empty_desk: "desk_of other empty_tables k = ({#}, \<lambda>a. [])"
  by (simp add: desk_of_def empty_tables_def pending_def allowed_def allow_map_def js_toSorted_def fun_eq_iff)

lemma pairing_run_invariant:
  assumes "\<And>ev v v'. desk_spec ev v v' \<Longrightarrow> Q v \<Longrightarrow> Q v'" "Q ({#}, \<lambda>a. [])" "list_all (pairing_event_ok other) evs"
  shows "Q (desk_of other (pairing_run evs) k)"
  unfolding pairing_run_def
proof (rule pairing.run_invariant [OF _ _ assms(3)])
  show "Q (desk_of other empty_tables k)" unfolding empty_desk by (rule assms(2))
qed (use assms(1) in blast)

section \<open>Invariants of desks\<close>

lemma account_count_mono: "rs \<subseteq># rs' \<Longrightarrow> account_count a rs \<le> account_count a rs'"
  unfolding account_count_def by (intro size_mset_mono multiset_filter_mono)

lemma live_sub: "live env rs \<subseteq># rs"
  by (simp add: live_def)

lemma desk_spec_requests:
  assumes "desk_spec ev (rs, allow) (rs', allow')"
  shows "rs' \<subseteq># rs \<or> (\<exists>env channel idValue acct meta. ev = RequestEvent env channel idValue acct meta)"
  using assms by (cases ev) (auto intro: subset_mset.order_trans [OF diff_subset_eq_self live_sub]
      subset_mset.order_trans [OF _ live_sub] live_sub)

definition bounded_desk :: "desk \<Rightarrow> bool" where
  "bounded_desk v \<longleftrightarrow> (\<forall>a. account_count a (fst v) \<le> PAIRING_PENDING_MAX)"

lemma desk_spec_bounded:
  assumes "desk_spec ev v v'" "bounded_desk v"
  shows "bounded_desk v'"
proof -
  obtain rs allow rs' allow' where v: "v = (rs, allow)" "v' = (rs', allow')" by (metis surj_pair)
  from desk_spec_requests [OF assms(1) [unfolded v]] show ?thesis
  proof
    assume "rs' \<subseteq># rs"
    then have "account_count a rs' \<le> account_count a rs" for a by (rule account_count_mono)
    then show ?thesis using assms(2) v by (auto simp: bounded_desk_def intro: order_trans)
  qed (use assms(1) v in \<open>auto simp: bounded_desk_def Let_def\<close>)
qed

definition coded_desk :: "desk \<Rightarrow> bool" where
  "coded_desk v \<longleftrightarrow> (\<forall>r \<in># fst v. code_shaped (pr_code r)) \<and> (\<forall>c. count (image_mset pr_code (fst v)) c \<le> 1)"

lemma coded_sub:
  assumes "coded_desk (rs, allow)" "rs' \<subseteq># rs"
  shows "coded_desk (rs', allow')"
proof -
  have "count (image_mset pr_code rs') c \<le> 1" for c
    using mset_subset_eq_count [OF image_mset_subseteq_mono [OF assms(2), of pr_code], of c] assms(1)
    by (auto simp: coded_desk_def intro: le_trans)
  then show ?thesis using assms by (auto simp: coded_desk_def dest: mset_subset_eqD)
qed

lemma coded_add:
  assumes "coded_desk (rs, allow)" "code_shaped c" "c \<notin> pr_code ` set_mset rs" "pr_code r = c"
  shows "coded_desk (add_mset r rs, allow')"
  using assms by (auto simp: coded_desk_def count_eq_zero_iff [THEN iffD2])

lemma coded_upper: "coded_desk (rs, allow) \<Longrightarrow> js_toUpperCase ` pr_code ` set_mset rs = pr_code ` set_mset rs"
  unfolding image_image by (intro image_cong) (auto simp: coded_desk_def code_shaped_facts)

lemma coded_live: "coded_desk (rs, allow) \<Longrightarrow> coded_desk (live env rs, allow')"
  by (erule coded_sub) (rule live_sub)

lemma coded_swap:
  assumes "coded_desk (rs, allow)" "r \<in># rs" "pr_code r' = pr_code r"
  shows "coded_desk (rs - {#r#} + {#r'#}, allow')"
proof -
  obtain rest where rs: "rs = add_mset r rest" using assms(2) by (metis mset_add)
  have "pr_code r \<notin> pr_code ` set_mset rest" using assms(1) rs by (auto simp: coded_desk_def split: if_splits)
  moreover have "coded_desk (rest, allow)" by (rule coded_sub [OF assms(1)]) (simp add: rs)
  moreover have "code_shaped (pr_code r)" using assms(1,2) by (simp add: coded_desk_def)
  ultimately have "coded_desk (add_mset r' rest, allow')" using assms(3) by (intro coded_add) auto
  then show ?thesis by (simp add: rs)
qed

lemma desk_spec_coded:
  assumes "desk_spec ev v v'" "coded_desk v"
  shows "coded_desk v'"
proof -
  obtain rs allow rs' allow' where v: "v = (rs, allow)" "v' = (rs', allow')" by (metis surj_pair)
  note spec = assms(1) [unfolded v] and coded = assms(2) [unfolded v]
  have "coded_desk (rs', allow')" if "rs' \<subseteq># rs" using coded_sub [OF coded that] .
  moreover have "coded_desk (rs', allow')" if ev: "ev = RequestEvent env channel idValue acct meta"
    for env channel idValue acct meta
  proof -
    let ?i = "normalizeId idValue" and ?a = "allow_account (Some acct)"
    have alive: "coded_desk (live env rs, allow)" by (rule coded_live [OF coded])
    from spec consider "rs' \<subseteq># live env rs"
      | r where "r \<in># live env rs"
          "rs' \<subseteq># live env rs - {#r#} + {#new_request env ?i (pr_code r) (pr_createdAt r) ?a meta#}"
      | code kept where "code_shaped code" "code \<notin> js_toUpperCase ` pr_code ` set_mset (live env rs)"
          "kept \<subseteq># live env rs" "rs' = add_mset (new_request env ?i code (toISOString (pv_stamp env)) ?a meta) kept"
      unfolding ev desk_spec.simps Let_def by blast
    then show ?thesis
    proof cases
      case 1
      show ?thesis by (rule coded_sub [OF alive 1])
    next
      case 2
      show ?thesis by (rule coded_sub [OF coded_swap [OF alive 2(1)] 2(2)]) simp
    next
      case 3
      have "code \<notin> pr_code ` set_mset kept"
        using 3(2,3) unfolding coded_upper [OF alive] by (auto dest: mset_subset_eqD)
      with coded_sub [OF alive 3(3)] 3(1) show ?thesis unfolding 3(4) by (intro coded_add) simp_all
    qed
  qed
  ultimately show ?thesis using desk_spec_requests [OF spec] unfolding v by blast
qed

lemma run_bounded: "list_all (pairing_event_ok other) evs \<Longrightarrow> bounded_desk (desk_of other (pairing_run evs) k)"
  by (rule pairing_run_invariant [OF desk_spec_bounded]) (simp_all add: bounded_desk_def account_count_def)

lemma run_coded: "list_all (pairing_event_ok other) evs \<Longrightarrow> coded_desk (desk_of other (pairing_run evs) k)"
  by (rule pairing_run_invariant [OF desk_spec_coded]) (simp_all add: coded_desk_def)

section \<open>Where access comes from\<close>

text \<open>An earlier request of the sender, under the account of the request.\<close>

definition requested_in :: "PairingEvent list \<Rightarrow> string \<Rightarrow> PairingRequest \<Rightarrow> bool" where
  "requested_in evs k r \<longleftrightarrow>
     (\<exists>env channel idValue acct meta. RequestEvent env channel idValue acct meta \<in> set evs \<and>
        safeChannelKey channel = Inr k \<and> normalizeId idValue = pr_id r \<and>
        allow_account (Some acct) = resolvePairingRequestAccountId r)"

definition adds :: "PairingEvent \<Rightarrow> string \<Rightarrow> string \<Rightarrow> string \<Rightarrow> bool" where
  "adds ev k a e \<longleftrightarrow>
     (\<exists>env channel v acct adapter. ev = AddEvent env channel v acct adapter \<and> safeChannelKey channel = Inr k \<and>
        a = allow_account acct \<and> e = normalizeAllowFromInput env channel v adapter)"

definition approves :: "(string \<Rightarrow> int option) \<Rightarrow> PairingEvent list \<Rightarrow> PairingEvent \<Rightarrow> string \<Rightarrow> string \<Rightarrow> string \<Rightarrow> bool" where
  "approves other before ev k a e \<longleftrightarrow>
     (\<exists>env channel c acct adapter r. ev = ApproveEvent env channel c acct adapter \<and> safeChannelKey channel = Inr k \<and>
        r \<in> set (pending other (pairing_run before) k) \<and> \<not> isExpired other r (pv_now env) \<and>
        code_matches c acct r \<and> requested_in before k r \<and>
        a = approval_account acct r \<and> e = approval_entry env channel adapter r)"

definition granted_in :: "(string \<Rightarrow> int option) \<Rightarrow> PairingEvent list \<Rightarrow> string \<Rightarrow> string \<Rightarrow> string \<Rightarrow> bool" where
  "granted_in other evs k a e \<longleftrightarrow>
     (\<exists>before ev after. evs = before @ ev # after \<and> (adds ev k a e \<or> approves other before ev k a e))"

lemma requested_in_mono: "requested_in evs k r \<Longrightarrow> requested_in (evs @ [ev]) k r"
  by (auto simp: requested_in_def) blast

lemma granted_in_mono: "granted_in other evs k a e \<Longrightarrow> granted_in other (evs @ [ev]) k a e"
  unfolding granted_in_def by (metis append.assoc append_Cons)

lemma granted_in_last: "adds ev k a e \<or> approves other evs ev k a e \<Longrightarrow> granted_in other (evs @ [ev]) k a e"
  unfolding granted_in_def by blast

lemma desk_spec_origin:
  assumes "desk_spec ev (rs, allow) (rs', allow')" "r \<in># rs'"
  shows "(\<exists>r0. r0 \<in># rs \<and> request_ident r0 = request_ident r) \<or>
    (\<exists>env channel idValue acct meta. ev = RequestEvent env channel idValue acct meta \<and>
       normalizeId idValue = pr_id r \<and> allow_account (Some acct) = resolvePairingRequestAccountId r)"
proof (cases "rs' \<subseteq># rs")
  case True
  then show ?thesis using assms(2) by (auto dest: mset_subset_eqD)
next
  case False
  then obtain env channel idValue acct meta where ev: "ev = RequestEvent env channel idValue acct meta"
    using desk_spec_requests [OF assms(1)] by blast
  let ?i = "normalizeId idValue" and ?a = "allow_account (Some acct)"
  have new: "pr_id (new_request env ?i c d ?a meta) = ?i"
      "resolvePairingRequestAccountId (new_request env ?i c d ?a meta) = ?a" for c d
    by (simp_all add: new_request_account)
  have "r \<in># rs \<or> (\<exists>c d. r = new_request env ?i c d ?a meta)"
    using assms unfolding ev desk_spec.simps Let_def
    by (auto dest!: mset_subset_eqD in_diffD simp: live_def)
  then show ?thesis using new ev by metis
qed

lemma desk_spec_entry:
  assumes "desk_spec ev (rs, allow) (rs', allow')" "e \<in> set (allow' a)" "e \<notin> set (allow a)"
  shows "(\<exists>env channel v acct adapter. ev = AddEvent env channel v acct adapter \<and>
      a = allow_account acct \<and> e = normalizeAllowFromInput env channel v adapter) \<or>
    (\<exists>env channel c acct adapter r. ev = ApproveEvent env channel c acct adapter \<and>
      r \<in># live env rs \<and> code_matches c acct r \<and>
      a = approval_account acct r \<and> e = approval_entry env channel adapter r)"
  using assms by (cases ev) (auto simp: Let_def with_entry_def split: if_splits)

definition traced :: "(string \<Rightarrow> int option) \<Rightarrow> string \<Rightarrow> PairingEvent list \<Rightarrow> bool" where
  "traced other k evs \<longleftrightarrow>
     (\<forall>r \<in> set (pending other (pairing_run evs) k). requested_in evs k r) \<and>
     (\<forall>a. \<forall>e \<in> set (allowed (pairing_run evs) k a). granted_in other evs k a e)"

lemma traced_step:
  assumes valid: "list_all (pairing_event_ok other) (evs @ [ev])" and traced: "traced other k evs"
    and step: "desk_of other (pairing_run (evs @ [ev])) k = desk_of other (pairing_run evs) k \<or>
      event_key ev = Inr k \<and> desk_spec ev (desk_of other (pairing_run evs) k) (desk_of other (pairing_run (evs @ [ev])) k)"
  shows "traced other k (evs @ [ev])"
  using step
proof
  assume "desk_of other (pairing_run (evs @ [ev])) k = desk_of other (pairing_run evs) k"
  then have "set (pending other (pairing_run (evs @ [ev])) k) = set (pending other (pairing_run evs) k)"
    "allowed (pairing_run (evs @ [ev])) k = allowed (pairing_run evs) k"
    by (auto simp: desk_of_def dest: mset_eq_setD)
  then show ?thesis using traced by (auto simp: traced_def requested_in_mono granted_in_mono)
next
  assume change: "event_key ev = Inr k \<and>
    desk_spec ev (desk_of other (pairing_run evs) k) (desk_of other (pairing_run (evs @ [ev])) k)"
  let ?rs = "mset (pending other (pairing_run evs) k)" and ?rs' = "mset (pending other (pairing_run (evs @ [ev])) k)"
  have key: "safeChannelKey (event_channel ev) = Inr k" and spec: "desk_spec ev (?rs, allowed (pairing_run evs) k)
      (?rs', allowed (pairing_run (evs @ [ev])) k)"
    using change by (simp_all add: desk_of_def event_key_def)
  have other: "pv_otherDates (event_env ev) = other" using valid by (simp add: pairing_event_ok_def env_ok_def)
  have "requested_in (evs @ [ev]) k r" if r: "r \<in># ?rs'" for r
    using desk_spec_origin [OF spec r]
  proof
    assume "\<exists>r0. r0 \<in># ?rs \<and> request_ident r0 = request_ident r"
    then obtain r0 where "requested_in evs k r0" "request_ident r0 = request_ident r"
      using traced by (auto simp: traced_def)
    then have "requested_in evs k r" by (auto simp: requested_in_def request_ident_def)
    then show ?thesis by (rule requested_in_mono)
  next
    assume "\<exists>env channel idValue acct meta. ev = RequestEvent env channel idValue acct meta \<and>
      normalizeId idValue = pr_id r \<and> allow_account (Some acct) = resolvePairingRequestAccountId r"
    then obtain env channel idValue acct meta where ev: "ev = RequestEvent env channel idValue acct meta"
        "normalizeId idValue = pr_id r" "allow_account (Some acct) = resolvePairingRequestAccountId r" by blast
    then have "RequestEvent env channel idValue acct meta \<in> set (evs @ [ev])" "safeChannelKey channel = Inr k"
      using key by simp_all
    with ev(2,3) show ?thesis unfolding requested_in_def by blast
  qed
  moreover have "granted_in other (evs @ [ev]) k a e" if e: "e \<in> set (allowed (pairing_run (evs @ [ev])) k a)" for a e
  proof (cases "e \<in> set (allowed (pairing_run evs) k a)")
    case True
    then show ?thesis using traced by (auto simp: traced_def intro: granted_in_mono)
  next
    case False
    from desk_spec_entry [OF spec e False] show ?thesis
    proof
      assume "\<exists>env channel v acct adapter. ev = AddEvent env channel v acct adapter \<and>
          a = allow_account acct \<and> e = normalizeAllowFromInput env channel v adapter"
      then have "adds ev k a e" using key by (auto simp: adds_def)
      then show ?thesis by (intro granted_in_last) simp
    next
      assume "\<exists>env channel c acct adapter r. ev = ApproveEvent env channel c acct adapter \<and>
          r \<in># live env ?rs \<and> code_matches c acct r \<and>
          a = approval_account acct r \<and> e = approval_entry env channel adapter r"
      then obtain env channel c acct adapter r where ev: "ev = ApproveEvent env channel c acct adapter"
          and r: "r \<in># live env ?rs" "code_matches c acct r" "a = approval_account acct r" "e = approval_entry env channel adapter r"
        by blast
      have "r \<in> set (pending other (pairing_run evs) k)" "\<not> isExpired other r (pv_now env)"
        using r(1) other by (simp_all add: live_def ev)
      moreover from this have "requested_in evs k r" using traced by (simp add: traced_def)
      ultimately have "approves other evs ev k a e" using key r by (auto simp: approves_def ev)
      then show ?thesis by (intro granted_in_last) simp
    qed
  qed
  ultimately show ?thesis by (simp add: traced_def)
qed

lemma run_traced: "list_all (pairing_event_ok other) evs \<Longrightarrow> traced other k evs"
proof (rule pairing.run_history)
  show "traced other k []"
    using empty_desk [of other k] by (simp add: traced_def pairing_run_def desk_of_def fun_eq_iff)
qed (auto intro: traced_step simp: pairing_run_def)

end
