(* ===== verification/Pairing_Guarantees.thy ===== *)
theory Pairing_Guarantees
  imports Pairing_Access
begin

text \<open>
  The properties of the pairing store over the operations of \<^verbatim>\<open>pairing/pairing-store.ts\<close>,
  with a small history at which each applies.
\<close>

section \<open>Reading an allow list\<close>

lemma read_allowed:
  assumes "db_ok db" "safeChannelKey channel = Inr k" "readChannelAllowFromStoreSync env db channel acct = Inr es"
  shows "es = allowed db k (allow_account acct)"
  using assms allow_field_Inr(1) [OF allow_map_ok [OF assms(1)]]
  by (simp add: readChannelAllowFromStoreSync_def readAllowFromState_def read_state_key allowed_def Let_def)

text \<open>A request that an approval or another request will find again.\<close>

lemma created_request:
  assumes db: "db_ok db" and key: "safeChannelKey channel = Inr k" and stamp: "valid_time (pv_stamp env)"
    and run: "upsertChannelPairingRequest env channel idValue acct meta db = (Inr (code, True), db')"
    and i: "normalizeId idValue \<noteq> []"
  defines "r \<equiv> new_request env (normalizeId idValue) code (toISOString (pv_stamp env)) (allow_account (Some acct)) meta"
  shows "code_shaped code" "r \<in> set (pending (pv_otherDates env) db' k)"
proof -
  let ?i = "normalizeId idValue" and ?a = "allow_account (Some acct)"
  have found: "find_index (\<lambda>r. pr_id r = ?i \<and> requestMatchesAccountId r ?a) (fresh env db k) = None"
    using run by (cases "find_index (\<lambda>r. pr_id r = ?i \<and> requestMatchesAccountId r ?a) (fresh env db k)")
      (simp_all add: upsert_eq [OF db key stamp])
  then have gen: "generateUniqueCode (pv_random env) (existing_codes (fresh env db k)) = Inr code"
    and db': "db' = tables_with k (pv_writeTime env) db (desk_state (with_new env db k ?i ?a meta code) (allow_map db k))"
    using run by (auto simp: upsert_eq [OF db key stamp] split: if_splits sum.splits)
  show code: "code_shaped code" using generateUniqueCode_Inr [OF gen] ..
  have "written env k db (with_new env db k ?i ?a meta code) (allow_map db k) db'"
    unfolding written_def using with_new_ok [OF db stamp _ code _ found] normalizeId_ok i db' by simp
  from written_facts(2) [OF db this]
  have "set (pending (pv_otherDates env) db' k) = set (with_new env db k ?i ?a meta code)" by (rule mset_eq_setD)
  then show "r \<in> set (pending (pv_otherDates env) db' k)" using i by (simp add: with_new_def r_def)
qed

lemma fresh_iff:
  "r \<in> set (fresh env db k) \<longleftrightarrow> r \<in> set (pending (pv_otherDates env) db k) \<and> \<not> isExpired (pv_otherDates env) r (pv_now env)"
  by (auto simp: fresh_def)

lemma new_request_alive:
  assumes "valid_time (pv_stamp env)" "now - pv_stamp env \<le> PAIRING_PENDING_TTL_MS"
  shows "\<not> isExpired other (new_request env i code (toISOString (pv_stamp env)) a meta) now"
  using assms by (simp add: isExpired_def parse_stamp)

lemma run_snoc: "pairing_run (evs @ [ev]) = pairing_step ev (pairing_run evs)"
  by (simp add: pairing_run_def)

lemma coded_unique:
  assumes "coded_desk (mset rs, allow)" "r \<in> set rs" "r' \<in> set rs" "pr_code r = pr_code r'"
  shows "r = r'"
proof (rule ccontr)
  assume ne: "r \<noteq> r'"
  have "{#r, r'#} \<subseteq># mset rs"
    using assms(2,3) ne by (intro mset_subset_eqI) (auto simp: count_greater_zero_iff Suc_le_eq)
  from image_mset_subseteq_mono [OF this, of pr_code]
  have "count {#pr_code r, pr_code r'#} (pr_code r) \<le> count (image_mset pr_code (mset rs)) (pr_code r)"
    by (intro mset_subset_eq_count) simp
  also have "\<dots> \<le> 1" using assms(1) by (simp add: coded_desk_def)
  finally show False using assms(4) by simp
qed

lemma coded_distinct: "coded_desk (mset rs, allow) \<Longrightarrow> distinct (map pr_code rs)"
proof -
  assume coded: "coded_desk (mset rs, allow)"
  have "count (mset (map pr_code rs)) c = (if c \<in> set (map pr_code rs) then 1 else 0)" for c
  proof (cases "c \<in> set (map pr_code rs)")
    case True
    then have "0 < count (mset (map pr_code rs)) c" by (metis count_greater_zero_iff set_mset_mset)
    moreover have "count (mset (map pr_code rs)) c \<le> 1" using coded by (simp add: coded_desk_def)
    ultimately have "count (mset (map pr_code rs)) c = 1" by linarith
    then show ?thesis using True by simp
  qed (metis count_eq_zero_iff set_mset_mset)
  then show ?thesis unfolding distinct_count_atmost_1 by blast
qed

lemma allow_account_trim: "js_trim a \<noteq> [] \<Longrightarrow> allow_account (Some (js_trim a)) = allow_account (Some a)"
  by (simp add: allow_account_def normalizeLowercase_JString)

lemma allow_account_blank: "js_trim a = [] \<Longrightarrow> allow_account (Some a) = DEFAULT_ACCOUNT_ID"
  by (simp add: allow_account_def normalizeLowercase_JString js_toLowerCase_def)

text \<open>Approving with the account of the request keeps the account.\<close>

lemma approval_account_requested:
  assumes "meta_account r = Some (allow_account (Some acct))"
  shows "approval_account (Some acct) r = allow_account (Some acct)"
proof (cases "js_trim acct = []")
  case True
  have "account_ok (allow_account (Some acct))" by simp
  then have "normalizeOptionalString (JString (allow_account (Some acct))) = Some (allow_account (Some acct))"
    by (simp add: account_ok_def normalized_entry_def)
  then show ?thesis
    using True assms by (simp add: approval_account_def optional_string_def)
next
  case False
  then show ?thesis by (simp add: approval_account_def optional_string_def allow_account_trim)
qed

lemma approval_step_total:
  "\<not> inherited_field (approval_account acct r) \<Longrightarrow> \<exists>m. approval_step env channel k acct adapter db r = Inr m"
  by (auto simp: approval_step_def allow_field_def Let_def split: option.split)

lemma inherited_absent: "allow_ok m \<Longrightarrow> inherited_field a \<Longrightarrow> map_get m a = None"
  by (auto simp: map_get_None_iff allow_ok_def list_all_iff)

section \<open>Properties\<close>

text \<open>C5: 
  Where access comes from. After any history of requests, approvals, additions,
  removals and listings, on any clocks and with any random draws, an entry that the allow list of
  an account shows was put there by an event of that history on the same channel and account:
  either an explicit addition of exactly that entry, or an approval whose code was at that moment
  the code of a pending, not expired request of the account, and that request had been made by
  its sender earlier in the history.
\<close>

theorem pairing_access_provenance:
  assumes "list_all (pairing_event_ok other) evs" "safeChannelKey channel = Inr k"
    and "readChannelAllowFromStoreSync env (pairing_run evs) channel acct = Inr es" "e \<in> set es"
  shows "\<exists>before ev after. evs = before @ ev # after \<and>
    (adds ev k (allow_account acct) e \<or> approves other before ev k (allow_account acct) e)"
proof -
  have "e \<in> set (allowed (pairing_run evs) k (allow_account acct))"
    using read_allowed [OF run_ok [OF assms(1)] assms(2,3)] assms(4) by simp
  then show ?thesis
    using run_traced [OF assms(1), of k] unfolding traced_def granted_in_def by blast
qed

text \<open>C6: 
  What an approval does. An approval that succeeds names a pending request of the
  channel that has not expired, whose code is the given one up to case and surrounding blanks and
  whose account is the given one, if one is given. It removes exactly that request, along with the
  expired ones, adds at most its entry to the allow list of its account, and leaves the other
  accounts and all other channels as they were.
\<close>

theorem approval_grants_one_request:
  assumes "db_ok db" "safeChannelKey channel = Inr k" "pv_otherDates env = other"
    and "approveChannelPairingCode env channel c acct adapter db = (Inr (Some entry), db')"
  shows "entry \<in> set (pending other db k) \<and> \<not> isExpired other entry (pv_now env) \<and>
    js_toUpperCase (pr_code entry) = js_toUpperCase (js_trim c) \<and>
    requestMatchesAccountId entry (normalizePairingAccountId acct) \<and>
    mset (pending other db' k) =
      mset (filter (\<lambda>r. \<not> isExpired other r (pv_now env)) (pending other db k)) - {#entry#} \<and>
    (\<forall>a. allowed db' k a =
       (if a = approval_account acct entry
        then with_entry (approval_entry env channel adapter entry) (allowed db k a) else allowed db k a)) \<and>
    (\<forall>k'. k' = k \<or> pending other db' k' = pending other db k' \<and> allowed db' k' = allowed db k')"
proof -
  have code: "approval_code c \<noteq> []"
    using assms(4) by (auto simp: approveChannelPairingCode_def approval_code_def Let_def)
  then have trim: "approval_code c = js_toUpperCase (js_trim c)"
    by (auto simp: approval_code_def normalizeNullableString_def js_toUpperCase_def Let_def split: if_splits)
  from assms(4) obtain i m where i: "find_index (code_matches c acct) (fresh env db k) = Some i" "entry = fresh env db k ! i"
    and m: "approval_step env channel k acct adapter db entry = Inr m"
    and db': "db' = tables_with k (pv_writeTime env) db
      (desk_state (take i (fresh env db k) @ drop (Suc i) (fresh env db k)) m)"
    by (auto simp: approve_eq [OF assms(1,2) code] split: option.splits sum.splits)
  have len: "i < length (fresh env db k)" "code_matches c acct entry" using find_index_Some [OF i(1)] i(2) by simp_all
  have written: "written env k db (take i (fresh env db k) @ drop (Suc i) (fresh env db k)) m db'"
    using without_ok [OF fresh_ok [OF assms(1)] len(1)] approval_step_ok(1) [OF assms(1) m]
    by (simp add: written_def db' state_ok_def)
  note facts = written_facts [OF assms(1) written]
  have "entry \<in> set (fresh env db k)" using len(1) i(2) by simp
  moreover have "mset (pending other db' k) = mset (fresh env db k) - {#entry#}"
    using facts(2) take_drop_without [OF len(1)] i(2) assms(3) by simp
  moreover have "fresh env db k = filter (\<lambda>r. \<not> isExpired other r (pv_now env)) (pending other db k)"
    by (simp add: fresh_def assms(3))
  moreover have "allowed db' k a = (if a = approval_account acct entry
      then with_entry (approval_entry env channel adapter entry) (allowed db k a) else allowed db k a)" for a
    using facts(3) approval_step_ok(2) [OF assms(1) m] by simp
  ultimately show ?thesis
    using len(2) facts(4,5) by (auto simp: code_matches_def trim fun_eq_iff)
qed

text \<open>C15: 
  The pending requests of a channel after any history. No account has more than
  three, whatever was requested and whenever; all codes of the channel are eight characters of the
  code alphabet, and no two pending requests share a code.
\<close>

theorem pending_requests_bounded:
  assumes "list_all (pairing_event_ok other) evs"
  shows "(\<forall>a. length (account_requests a (pending other (pairing_run evs) k)) \<le> PAIRING_PENDING_MAX) \<and>
    list_all (\<lambda>r. code_shaped (pr_code r)) (pending other (pairing_run evs) k) \<and>
    distinct (map pr_code (pending other (pairing_run evs) k))"
  using run_bounded [OF assms, of k] run_coded [OF assms, of k]
  by (auto simp: bounded_desk_def desk_of_def account_count_mset list_all_iff coded_distinct) (simp add: coded_desk_def)


text \<open>
  Asking again. If the sender of a request that was just answered with a new code
  asks again within an hour under the same account, it is given the same code and no second
  request is created, whatever metadata comes along.
\<close>

theorem repeated_request_keeps_code:
  assumes run: "list_all (pairing_event_ok other) evs" and env: "env_ok other env" "env_ok other env2"
    and key: "safeChannelKey channel = Inr k"
    and issued: "upsertChannelPairingRequest env channel idValue acct meta (pairing_run evs) = (Inr (code, True), db)"
    and same: "normalizeId idValue \<noteq> []" "normalizeId idValue2 = normalizeId idValue"
      "allow_account (Some acct2) = allow_account (Some acct)"
    and in_time: "pv_now env2 - pv_stamp env \<le> PAIRING_PENDING_TTL_MS"
  shows "fst (upsertChannelPairingRequest env2 channel idValue2 acct2 meta2 db) = Inr (code, False)"
proof -
  let ?ev = "RequestEvent env channel idValue acct meta"
  let ?a = "allow_account (Some acct)" and ?i = "normalizeId idValue"
  let ?r = "new_request env ?i code (toISOString (pv_stamp env)) ?a meta"
  have others: "pv_otherDates env = other" "pv_otherDates env2 = other" "valid_time (pv_stamp env)" "valid_time (pv_stamp env2)"
    using env by (simp_all add: env_ok_def)
  have "db = pairing_run (evs @ [?ev])" by (simp add: run_snoc issued)
  then have ok: "db_ok db" using run_ok [of other "evs @ [?ev]"] run env by (simp add: pairing_event_ok_def)
  note created = created_request [OF run_ok [OF run] key others(3) issued same(1)]
  have alive: "?r \<in> set (fresh env2 db k)"
    using created(2) new_request_alive [OF others(3) in_time] by (simp add: fresh_iff others)
  obtain j where j: "find_index (\<lambda>r. pr_id r = ?i \<and> requestMatchesAccountId r ?a) (fresh env2 db k) = Some j"
    using alive by (cases "find_index (\<lambda>r. pr_id r = ?i \<and> requestMatchesAccountId r ?a) (fresh env2 db k)")
      (auto simp: find_index_None list_all_iff matches_account new_request_account)
  have "distinct (map request_ident (fresh env2 db k))"
    using fresh_ok [OF ok, of env2 k] by (simp add: state_ok_def)
  moreover have "request_ident (fresh env2 db k ! j) = request_ident ?r" "fresh env2 db k ! j \<in> set (fresh env2 db k)"
    using find_index_Some [OF j] by (simp_all add: request_ident_def matches_account new_request_account)
  ultimately have "fresh env2 db k ! j = ?r" using alive by (auto simp: distinct_map inj_on_def)
  then show ?thesis using upsert_eq [OF ok key others(4), of idValue2 acct2 meta2] j same by simp
qed

text \<open>C7: 
  The store and its abstract desks. Every operation keeps the tables good, and on
  every channel it either leaves the desk as it is or, on the one channel of the operation, makes
  a change that the specification of the operation allows.
\<close>

theorem pairing_steps_refine_desks:
  assumes "db_ok db" "pairing_event_ok other ev"
  shows "db_ok (pairing_step ev db) \<and>
    (\<forall>k. desk_of other (pairing_step ev db) k = desk_of other db k \<or>
      event_key ev = Inr k \<and> desk_spec ev (desk_of other db k) (desk_of other (pairing_step ev db) k))"
  using step_desks [OF assms] by blast

text \<open>
  Dropping surplus requests. Each account keeps as many of its requests as the bound
  allows, all of them if they fit, and a request that is dropped was last seen no later than any
  request of its account that is kept.
\<close>

theorem surplus_drops_oldest:
  fixes left reqs :: "PairingRequest list" and other :: "string \<Rightarrow> int option"
  assumes "0 < n"
  defines "left \<equiv> fst (pruneExcessRequestsByAccount other reqs n)"
  shows "(\<forall>a. length (account_requests a left) = min n (length (account_requests a reqs))) \<and>
    mset left \<subseteq># mset reqs \<and>
    list_all (\<lambda>d. d \<in> set left \<or> list_all (\<lambda>r. resolvePairingRequestAccountId r \<noteq> resolvePairingRequestAccountId d \<or>
       resolveLastSeenAt other d \<le> resolveLastSeenAt other r) left) reqs"
proof (intro conjI)
  show "\<forall>a. length (account_requests a left) = min n (length (account_requests a reqs))"
    unfolding left_def using prune_excess_count [OF assms(1)] by blast
  show "mset left \<subseteq># mset reqs" unfolding left_def by (rule prune_excess_sub)
  have "resolveLastSeenAt other d \<le> resolveLastSeenAt other r"
    if "d \<in> set reqs" "d \<notin> set left" "r \<in> set left" "resolvePairingRequestAccountId r = resolvePairingRequestAccountId d" for d r
  proof -
    let ?a = "resolvePairingRequestAccountId d"
    have own: "account_requests ?a left = map snd (kept_indexed other n (indexed_of ?a reqs))"
      unfolding left_def by (rule account_requests_kept [OF assms(1)])
    have "r \<in> set (account_requests ?a left)" using that by (simp add: account_requests_def)
    then obtain i where i: "(i, r) \<in> set (kept_indexed other n (indexed_of ?a reqs))" unfolding own by auto
    have "d \<in> set (account_requests ?a reqs)" using that by (simp add: account_requests_def)
    then have "d \<in> set (map snd (indexed_of ?a reqs))" by (simp only: indexed_of_facts(2))
    then obtain j where j: "(j, d) \<in> set (indexed_of ?a reqs)" by auto
    have "d \<notin> set (account_requests ?a left)" using that by (simp add: account_requests_def)
    then have "(j, d) \<notin> set (kept_indexed other n (indexed_of ?a reqs))" unfolding own by force
    from kept_indexed_newest [OF indexed_of_facts(1) i j this] show ?thesis by simp
  qed
  then show "list_all (\<lambda>d. d \<in> set left \<or> list_all (\<lambda>r. resolvePairingRequestAccountId r \<noteq> resolvePairingRequestAccountId d \<or>
       resolveLastSeenAt other d \<le> resolveLastSeenAt other r) left) reqs" by (auto simp: list_all_iff)
qed

text \<open>C20: 
  An account whose id is the name of an inherited property. For such an id, which is
  \<^verbatim>\<open>constructor\<close> or \<^verbatim>\<open>__proto__\<close> once it is in lower case, over any good tables, reading the allow
  list and adding to it fail, and an approval under that account can only succeed if it has no
  entry to add.
\<close>

theorem inherited_account_fails:
  assumes "db_ok db" "safeChannelKey channel = Inr k" "inherited_field (allow_account acct)"
  shows "readChannelAllowFromStoreSync env db channel acct = Inl NotAnArray \<and>
    addChannelAllowFromStoreEntry env channel v acct adapter db = (Inl NotAnArray, db) \<and>
    (case fst (approveChannelPairingCode env channel c acct adapter db) of
       Inr (Some entry) \<Rightarrow> approval_entry env channel adapter entry = [] | _ \<Rightarrow> True)"
proof (intro conjI)
  have none: "allow_field (allow_map db k) (allow_account acct) = Inl NotAnArray"
    using inherited_absent [OF allow_map_ok [OF assms(1), of k] assms(3)] assms(3) by (simp add: allow_field_def)
  show "readChannelAllowFromStoreSync env db channel acct = Inl NotAnArray"
    by (simp add: readChannelAllowFromStoreSync_def readAllowFromState_def read_state_key [OF assms(1,2)] none)
  show "addChannelAllowFromStoreEntry env channel v acct adapter db = (Inl NotAnArray, db)"
    by (simp add: addChannelAllowFromStoreEntry_def updateAllowFromStoreEntry_def in_transaction_def
        read_state_key [OF assms(1,2)] none Let_def)
  have account: "approval_account acct entry = allow_account acct" for entry
  proof -
    have "\<not> inherited_field (allow_account None)" "\<not> inherited_field DEFAULT_ACCOUNT_ID" by code_simp+
    then obtain s where s: "acct = Some s" "js_trim s \<noteq> []"
      using assms(3) by (metis allow_account_blank not_None_eq)
    then show ?thesis by (simp add: approval_account_def optional_string_def allow_account_trim)
  qed
  show "case fst (approveChannelPairingCode env channel c acct adapter db) of
      Inr (Some entry) \<Rightarrow> approval_entry env channel adapter entry = [] | _ \<Rightarrow> True"
  proof (cases "approval_code c = []")
    case True
    then show ?thesis by (simp add: approveChannelPairingCode_def approval_code_def)
  next
    case False
    from approve_eq [OF assms(1,2) this] account none show ?thesis
      by (auto simp: approval_step_def Let_def split: option.split sum.split)
  qed
qed

section \<open>Witnesses\<close>

definition example_env :: "int \<Rightarrow> PairingEnv" where
  "example_env t = \<lparr>pv_otherDates = (\<lambda>_. None), pv_stamp = t, pv_now = t, pv_writeTime = t,
     pv_random = (\<lambda>n. 7 * n + nat t), pv_localeCompare = compare_strings, pv_registry = (\<lambda>_. None)\<rparr>"

definition example_history :: "PairingEvent list" where
  "example_history =
     [RequestEvent (example_env 1000) ''signal'' (JString ''alice'') ''main'' None,
      ApproveEvent (example_env 3000) ''Signal'' '' jry7emu3 '' None None]"

lemma example_env_ok: "\<bar>t\<bar> \<le> 100000 \<Longrightarrow> env_ok (\<lambda>_. None) (example_env t)"
  by (simp add: env_ok_def example_env_def valid_time_def MAX_DATE_TIMESTAMP_MS_def)

lemma example_history_ok: "list_all (pairing_event_ok (\<lambda>_. None)) example_history"
  by (simp add: example_history_def pairing_event_ok_def example_env_ok)

lemma example_db_ok: "db_ok (pairing_run (take n example_history))"
proof -
  have "list_all (pairing_event_ok (\<lambda>_. None)) (take n example_history)"
    using example_history_ok by (auto simp: list_all_iff dest: in_set_takeD)
  then show ?thesis by (rule run_ok)
qed

lemma example_read:
  "readChannelAllowFromStoreSync (example_env 5000) (pairing_run example_history) ''signal'' (Some ''main'') = Inr [''alice'']"
  by code_simp

lemma pairing_access_provenance_witness:
  "\<exists>before ev after. example_history = before @ ev # after \<and>
     (adds ev ''signal'' (allow_account (Some ''main'')) ''alice'' \<or>
      approves (\<lambda>_. None) before ev ''signal'' (allow_account (Some ''main'')) ''alice'')"
proof -
  have "safeChannelKey ''signal'' = Inr ''signal''" by code_simp
  from pairing_access_provenance [OF example_history_ok this example_read] show ?thesis by simp
qed

lemma pairing_example_key: "safeChannelKey ''signal'' = Inr ''signal''" "safeChannelKey ''Signal'' = Inr ''signal''"
  by code_simp+

lemma example_issued:
  "fst (upsertChannelPairingRequest (example_env 1000) ''signal'' (JString ''alice'') ''main'' None (pairing_run [])) =
     Inr (''JRY7EMU3'', True)"
  by code_simp

lemma example_alice: "normalizeId (JString ''alice'') = ''alice''" "allow_account (Some ''main'') = ''main''"
  "\<not> inherited_field ''main''" "inherited_field (allow_account (Some '' Constructor ''))"
  by code_simp+

lemma example_approved:
  "map_option pr_id (case fst (approveChannelPairingCode (example_env 3000) ''Signal'' '' jry7emu3 '' None None
     (pairing_run (take 1 example_history))) of Inl _ \<Rightarrow> None | Inr r \<Rightarrow> r) = Some ''alice''"
  by code_simp

lemma approval_grants_one_request_witness:
  "\<exists>entry. entry \<in> set (pending (\<lambda>_. None) (pairing_run (take 1 example_history)) ''signal'') \<and>
     pr_id entry = ''alice'' \<and> js_toUpperCase (pr_code entry) = js_toUpperCase (js_trim '' jry7emu3 '')"
proof -
  obtain entry db' where run: "approveChannelPairingCode (example_env 3000) ''Signal'' '' jry7emu3 '' None None
      (pairing_run (take 1 example_history)) = (Inr (Some entry), db')" and "pr_id entry = ''alice''"
    using example_approved
    by (cases "approveChannelPairingCode (example_env 3000) ''Signal'' '' jry7emu3 '' None None
      (pairing_run (take 1 example_history))") (auto split: sum.splits)
  moreover have "pv_otherDates (example_env 3000) = (\<lambda>_. None)" by (simp add: example_env_def)
  ultimately show ?thesis
    using approval_grants_one_request [OF example_db_ok pairing_example_key(2) _ run] by blast
qed

lemma pending_requests_bounded_witness:
  "\<forall>a. length (account_requests a (pending (\<lambda>_. None) (pairing_run example_history) ''signal'')) \<le> PAIRING_PENDING_MAX"
  using pending_requests_bounded [OF example_history_ok] by blast


lemma repeated_request_keeps_code_witness:
  "\<exists>db. fst (upsertChannelPairingRequest (example_env 3000) ''signal'' (JString ''alice'') ''main'' None db) =
     Inr (''JRY7EMU3'', False)"
proof -
  obtain db where issued: "upsertChannelPairingRequest (example_env 1000) ''signal'' (JString ''alice'') ''main'' None
      (pairing_run []) = (Inr (''JRY7EMU3'', True), db)" using example_issued by (metis prod.collapse)
  have "fst (upsertChannelPairingRequest (example_env 3000) ''signal'' (JString ''alice'') ''main'' None db) =
      Inr (''JRY7EMU3'', False)"
    by (rule repeated_request_keeps_code [OF _ _ _ pairing_example_key(1) issued, where other = "\<lambda>_. None"])
      (simp_all add: example_env_ok example_alice, simp_all add: example_env_def PAIRING_PENDING_TTL_MS_def)
  then show ?thesis by (rule exI [of _ db])
qed

lemma pairing_steps_refine_desks_witness:
  "db_ok (pairing_step (RequestEvent (example_env 1000) ''signal'' (JString ''alice'') ''main'' None) example_tables)"
proof -
  have "db_ok example_tables" by code_simp
  then show ?thesis
    using pairing_steps_refine_desks [of example_tables "\<lambda>_. None"
        "RequestEvent (example_env 1000) ''signal'' (JString ''alice'') ''main'' None"]
    by (simp add: pairing_event_ok_def example_env_ok)
qed

lemma surplus_drops_oldest_witness:
  "length (account_requests ''main'' (fst (pruneExcessRequestsByAccount (\<lambda>_. None)
     [example_request, example_request\<lparr>pr_id := ''u3''\<rparr>] 1))) = 1"
proof -
  have "length (account_requests ''main'' [example_request, example_request\<lparr>pr_id := ''u3''\<rparr>]) = 2" by code_simp
  then show ?thesis
    using surplus_drops_oldest [of 1 "\<lambda>_. None" "[example_request, example_request\<lparr>pr_id := ''u3''\<rparr>]"] by simp
qed

lemma inherited_account_fails_witness:
  "readChannelAllowFromStoreSync (example_env 1000) example_tables ''signal'' (Some '' Constructor '') = Inl NotAnArray"
proof -
  have "db_ok example_tables" by code_simp
  from inherited_account_fails [OF this pairing_example_key(1) example_alice(4)] show ?thesis by blast
qed

end
