(* ===== verification/Pairing_Ingress.thy ===== *)
theory Pairing_Ingress
  imports Pairing_Guarantees Ingress_Runtime
begin

text \<open>
  The channel ingress over the pairing store: the default store reader of
  \<^verbatim>\<open>message-access/store-allow-from.ts\<close> calls \<^verbatim>\<open>readChannelAllowFromStore\<close>, whose
  promise rejects where the synchronous reader throws.
\<close>

definition readChannelAllowFromStore ::
  "PairingEnv \<Rightarrow> PairingDatabase \<Rightarrow> string \<Rightarrow> string \<Rightarrow> string list settled" where
  "readChannelAllowFromStore env db channel accountId =
     (case readAllowFromState env db channel (Some accountId) of
        Inl e \<Rightarrow> Rejected | Inr entries \<Rightarrow> Fulfilled entries)"

lemma no_entries_admit: "\<not> entries_admit (message_state_input params cid store) [] context"
  by (simp add: entries_admit_def Let_def directAllowlistEntries_def referencedAccessGroups_def js_set_def
      createIdentityAdapter_def)

lemma store_entries:
  assumes "cv_kind (rp_conversation params) = Direct" "pi_dmPolicy (rp_policy params) = DmPairing"
    "rp_readStoreAllowFrom params = None" "rp_useDefaultPairingStore params = Some True"
  shows "readStoreAllowFrom (readChannelAllowFromStore env db) params cid =
    (case readAllowFromState env db cid (Some (rp_accountId params)) of
       Inl e \<Rightarrow> [] | Inr entries \<Rightarrow> map JString entries)"
  using assms by (simp add: readStoreAllowFrom_def shouldReadStore_def
      readChannelIngressStoreAllowFromForDmPolicy_def readChannelAllowFromStore_def split: sum.split)

text \<open>C4: 
  Pairing from end to end. If the access runtime dispatches a direct message under the
  pairing policy, reading the default pairing store after any history of the store, and the
  configured entries do not admit the sender, then the sender is admitted by entries of the allow
  list of its channel and account, and every one of these entries was granted in the history: added
  explicitly, or approved by the code of a pending request that its sender had made.
\<close>

theorem paired_message_was_granted:
  assumes history: "list_all (pairing_event_ok other) evs"
    and result: "resolveChannelMessageIngress lc (readChannelAllowFromStore env (pairing_run evs)) params = Inr r"
      "id_admission (rg_ingress r) = Dispatch"
    and message: "cv_kind (rp_conversation params) = Direct" "ev_authMode (rp_event params) = AmInbound"
    and pairing: "pi_dmPolicy (rp_policy params) = DmPairing" "rp_readStoreAllowFrom params = None"
      "rp_useDefaultPairingStore params = Some True"
  defines "cid \<equiv> js_trim (rp_channelId params)"
  defines "input \<equiv> message_state_input params cid (readStoreAllowFrom (readChannelAllowFromStore env (pairing_run evs)) params cid)"
  assumes stranger: "\<not> entries_admit input (coalesce (rp_allowFrom params) []) CtxDm"
  shows "\<exists>k es. safeChannelKey cid = Inr k \<and> es \<noteq> [] \<and> entries_admit input (map JString es) CtxDm \<and>
    list_all (granted_in other evs k (allow_account (Some (rp_accountId params)))) es"
proof -
  let ?db = "pairing_run evs" and ?acct = "Some (rp_accountId params)"
  have admit: "entries_admit input (readStoreAllowFrom (readChannelAllowFromStore env ?db) params cid) CtxDm"
    using direct_dispatch_cases [OF result message] stranger pairing(1) by (simp add: input_def cid_def)
  then have "readStoreAllowFrom (readChannelAllowFromStore env ?db) params cid \<noteq> []"
    using no_entries_admit unfolding input_def by metis
  then obtain es where es: "readAllowFromState env ?db cid ?acct = Inr es" "es \<noteq> []"
      "readStoreAllowFrom (readChannelAllowFromStore env ?db) params cid = map JString es"
    using store_entries [OF message(1) pairing, of env ?db cid] by (auto split: sum.splits)
  obtain k where k: "safeChannelKey cid = Inr k"
    using es(1) by (cases "safeChannelKey cid")
      (simp_all add: readAllowFromState_def read_state_of_def readChannelPairingStateFromDatabase_def)
  have "es = allowed ?db k (allow_account ?acct)"
    using read_allowed [OF run_ok [OF history] k, of env ?acct es] es(1) by (simp add: readChannelAllowFromStoreSync_def)
  then have "list_all (granted_in other evs k (allow_account ?acct)) es"
    using run_traced [OF history, of k] by (auto simp: traced_def list_all_iff)
  then show ?thesis using k es admit by auto
qed

definition paired_params :: ResolveChannelMessageIngressParams where
  "paired_params = (example_params Direct DmPairing [])
     \<lparr>rp_readStoreAllowFrom := None, rp_useDefaultPairingStore := Some True\<rparr>"

definition paired_history :: "PairingEvent list" where
  "paired_history = [AddEvent (example_env 1000) '' Telegram'' (JNumber 42) None None]"

lemma paired_dispatch:
  "map_sum id (\<lambda>r. id_admission (rg_ingress r)) (resolveChannelMessageIngress (\<lambda>_ _. 0)
     (readChannelAllowFromStore (example_env 2000) (pairing_run paired_history)) paired_params) = Inr Dispatch"
  by code_simp

lemma paired_message_was_granted_witness:
  "\<exists>es. es \<noteq> [] \<and> list_all (granted_in (\<lambda>_. None) paired_history ''telegram'' ''default'') es"
proof -
  let ?reader = "readChannelAllowFromStore (example_env 2000) (pairing_run paired_history)"
  obtain r where r: "resolveChannelMessageIngress (\<lambda>_ _. 0) ?reader paired_params = Inr r"
      "id_admission (rg_ingress r) = Dispatch"
    using paired_dispatch by (cases "resolveChannelMessageIngress (\<lambda>_ _. 0) ?reader paired_params") auto
  have history: "list_all (pairing_event_ok (\<lambda>_. None)) paired_history"
    by (simp add: paired_history_def pairing_event_ok_def example_env_ok)
  have params: "cv_kind (rp_conversation paired_params) = Direct" "ev_authMode (rp_event paired_params) = AmInbound"
    "pi_dmPolicy (rp_policy paired_params) = DmPairing" "rp_readStoreAllowFrom paired_params = None"
    "rp_useDefaultPairingStore paired_params = Some True" "coalesce (rp_allowFrom paired_params) [] = []"
    by (simp_all add: paired_params_def example_params_def example_policy_def)
  have stranger: "\<not> entries_admit (message_state_input paired_params cid store) (coalesce (rp_allowFrom paired_params) []) CtxDm"
    for cid store unfolding params(6) by (rule no_entries_admit)
  have "safeChannelKey (js_trim (rp_channelId paired_params)) = Inr ''telegram''"
    "allow_account (Some (rp_accountId paired_params)) = ''default''" by code_simp+
  with paired_message_was_granted [OF history r params(1-5) stranger] show ?thesis by auto
qed

end
