(* ===== verification/Number_Parsing.thy ===== *)
theory Number_Parsing
  imports ISO_Time "HOL-Library.Monad_Syntax"
begin

text \<open>
  The rest of \<^verbatim>\<open>packages/normalization-core/src/number-coercion.ts\<close>: strict decimal
  tokens, timer delays from seconds and timestamps as ISO text. A token denotes its exact
  rational value; one of \<open>2 ^ 1024\<close> or more is an infinity, which the code refuses.
\<close>

section \<open>Decimal tokens\<close>

text \<open>An optional sign, and what follows it.\<close>

definition split_sign :: "string \<Rightarrow> bool \<times> string" where
  "split_sign s =
     (case s of
        c # r \<Rightarrow> if c = CHR ''-'' then (True, r) else if c = CHR ''+'' then (False, r) else (False, s)
      | [] \<Rightarrow> (False, []))"

text \<open>Digits with an optional point, at least one digit in all: the digits before and after the
  point and the rest of the text.\<close>

definition mantissa :: "string \<Rightarrow> (string \<times> string \<times> string) option" where
  "mantissa s =
     (let whole = takeWhile is_digit s; r = dropWhile is_digit s
      in case r of
           c # t \<Rightarrow>
             if c = CHR ''.''
             then let fr = takeWhile is_digit t
                  in if whole = [] \<and> fr = [] then None else Some (whole, fr, dropWhile is_digit t)
             else if whole = [] then None else Some (whole, [], r)
         | [] \<Rightarrow> if whole = [] then None else Some (whole, [], []))"

definition exponent :: "string \<Rightarrow> int option" where
  "exponent s =
     (case s of
        [] \<Rightarrow> Some 0
      | c # r \<Rightarrow>
          if c = CHR ''e'' \<or> c = CHR ''E''
          then let (negative, ds) = split_sign r
               in if ds \<noteq> [] \<and> list_all is_digit ds
                  then Some (if negative then - digits_value ds else digits_value ds) else None
          else None)"

definition scale10 :: "int \<Rightarrow> rat \<Rightarrow> rat" where
  "scale10 e q = (if 0 \<le> e then q * 10 ^ nat e else q / 10 ^ nat (- e))"

definition decimal_token :: "string \<Rightarrow> rat option" where
  "decimal_token s =
     (let (negative, t) = split_sign s
      in case mantissa t of
           None \<Rightarrow> None
         | Some (ws, fr, r) \<Rightarrow>
            (case exponent r of
               None \<Rightarrow> None
             | Some e \<Rightarrow>
                 let q = scale10 (e - int (length fr)) (of_int (digits_value (ws @ fr)))
                 in Some (if negative then - q else q)))"

definition parseStrictFiniteNumber :: "unknown_value \<Rightarrow> jsnum option" where
  "parseStrictFiniteNumber v =
     (case v of
        UNumber n \<Rightarrow> if num_isFinite n then Some n else None
      | UOther \<Rightarrow> None
      | UString s \<Rightarrow>
         (case normalizeNumericString s of
            None \<Rightarrow> None
          | Some normalized \<Rightarrow>
             (case decimal_token normalized of
                None \<Rightarrow> None
              | Some q \<Rightarrow>
                  let parsed = num_of_rat q in if num_isFinite parsed then Some parsed else None)))"

definition parseFiniteNumber :: "unknown_value \<Rightarrow> jsnum option" where
  "parseFiniteNumber v =
     (case v of
        UNumber n \<Rightarrow> if num_isFinite n then Some n else None
      | _ \<Rightarrow> parseStrictFiniteNumber v)"

section \<open>Seconds and timestamps\<close>

definition finiteSecondsToTimerSafeMilliseconds :: "unknown_value \<Rightarrow> bool \<Rightarrow> jsnum option" where
  "finiteSecondsToTimerSafeMilliseconds v floorSeconds =
     (case asFiniteNumber v of
        None \<Rightarrow> None
      | Some seconds \<Rightarrow>
          if num_leq seconds (num 0) then None
          else
            let boundedSeconds = (if floorSeconds then num_floor seconds else seconds);
                milliseconds = num_floor (num_times boundedSeconds (num 1000))
            in if \<not> num_isFinite milliseconds \<or> num_leq milliseconds (num 0) then None
               else Some (num_min milliseconds (num MAX_TIMER_TIMEOUT_MS)))"

text \<open>The time that a \<^verbatim>\<open>Date\<close> made from a number holds: the whole milliseconds.\<close>

definition date_of_number :: "rat \<Rightarrow> int" where
  "date_of_number q = (if 0 \<le> q then \<lfloor>q\<rfloor> else \<lceil>q\<rceil>)"

definition timestampMsToIsoString :: "unknown_value \<Rightarrow> string option" where
  "timestampMsToIsoString v =
     (case asDateTimestampMs v of
        Some (Fin q) \<Rightarrow> Some (toISOString (date_of_number q))
      | _ \<Rightarrow> None)"

definition UNIX_EPOCH_ISO_STRING :: string where
  "UNIX_EPOCH_ISO_STRING = ''1970-01-01T00:00:00.000Z''"

definition resolveTimestampMsToIsoString :: "unknown_value \<Rightarrow> unknown_value \<Rightarrow> string" where
  "resolveTimestampMsToIsoString v fallbackValue =
     coalesce (timestampMsToIsoString v)
       (coalesce (timestampMsToIsoString fallbackValue) UNIX_EPOCH_ISO_STRING)"

definition timestampMsToIsoFileStamp :: "unknown_value \<Rightarrow> unknown_value \<Rightarrow> string" where
  "timestampMsToIsoFileStamp v fallbackValue =
     List.map (\<lambda>c. if c = CHR '':'' then CHR ''-'' else c) (resolveTimestampMsToIsoString v fallbackValue)"

section \<open>Facts\<close>

lemma takeWhile_all_digits: "list_all is_digit ds \<Longrightarrow> takeWhile is_digit ds = ds \<and> dropWhile is_digit ds = []"
  by (induction ds) auto

lemma split_sign_digits: "list_all is_digit ds \<Longrightarrow> split_sign ds = (False, ds)"
  using digit_not_sign by (cases ds) (auto simp: split_sign_def)

lemma mantissa_digits: "list_all is_digit ds \<Longrightarrow> ds \<noteq> [] \<Longrightarrow> mantissa ds = Some (ds, [], [])"
  by (simp add: mantissa_def takeWhile_all_digits)

lemma decimal_token_digits:
  assumes "list_all is_digit ds" "ds \<noteq> []"
  shows "decimal_token ds = Some (of_int (digits_value ds))"
    "decimal_token (CHR ''-'' # ds) = Some (- of_int (digits_value ds))"
  using split_sign_digits [OF assms(1)] mantissa_digits [OF assms]
  by (simp_all add: decimal_token_def exponent_def scale10_def split_sign_def)

text \<open>The text that a whole number prints as reads back as that number.\<close>

lemma decimal_token_int: "decimal_token (js_string_of_int i) = Some (of_int i)"
  using decimal_digits_ok [of "nat i"] decimal_digits_ok [of "nat (- i)"]
  by (simp add: js_string_of_int_def decimal_token_digits)

lemma parse_int_string:
  assumes "\<bar>i\<bar> < 2 ^ 1024"
  shows "parseStrictFiniteNumber (UString (js_string_of_int i)) = Some (num i)"
proof -
  have "js_trim (js_string_of_int i) = js_string_of_int i"
    by (rule js_trim_no_space) (rule int_string_no_space)
  moreover have "js_string_of_int i \<noteq> []"
    using decimal_token_int [of i] by (auto simp: decimal_token_def split_sign_def mantissa_def)
  moreover have "\<bar>of_int i :: rat\<bar> < 2 ^ 1024"
    using assms by (metis of_int_abs of_int_less_iff of_int_numeral of_int_power)
  ultimately show ?thesis
    by (simp add: parseStrictFiniteNumber_def normalizeNumericString_def decimal_token_int Let_def)
qed

lemma parseStrictFiniteNumber_Some: "parseStrictFiniteNumber v = Some n \<Longrightarrow> num_isFinite n"
  by (auto simp: parseStrictFiniteNumber_def Let_def
      split: unknown_value.splits option.splits if_splits)

text \<open>A valid whole timestamp survives printing and reading.\<close>

lemma timestamp_iso_roundtrip:
  assumes "valid_time t"
  shows "timestampMsToIsoString (UNumber (num t)) = Some (toISOString t) \<and>
    js_Date_parse other (toISOString t) = Some t"
proof -
  have "asDateTimestampMs (UNumber (num t)) = Some (num t)"
    using assms by (auto simp: asDateTimestampMs_def asFiniteNumberInRange_def valid_time_def abs_le_iff)
  then show ?thesis
    using assms by (simp add: timestampMsToIsoString_def date_of_number_def parse_own_timestamp)
qed

end
