(* ===== verification/Cron_Parse.thy ===== *)
theory Cron_Parse
  imports Number_Parsing
begin

text \<open>
  \<^verbatim>\<open>src/cron/parse.ts\<close>: the absolute time of a one-shot schedule, written as epoch
  milliseconds or as an ISO date with an optional time and zone. The patterns of the code are
  read from left to right, one optional group after the other. \<^verbatim>\<open>Date.parse\<close> is
  modelled on the text forms that the language defines; what it makes of any other text
  is left to the platform and is the parameter \<open>other\<close>.
\<close>

section \<open>The pattern of an absolute time\<close>

definition take_digits :: "nat \<Rightarrow> string \<Rightarrow> (int \<times> string) option" where
  "take_digits k s =
     (let ds = take k s
      in if length ds = k \<and> list_all is_digit ds then Some (digits_value ds, drop k s) else None)"

definition take_one :: "string \<Rightarrow> string \<Rightarrow> (char \<times> string) option" where
  "take_one cs s = (case s of c # r \<Rightarrow> if c \<in> set cs then Some (c, r) else None | [] \<Rightarrow> None)"

datatype iso_zone = NoZone | UtcZone char | OffsetZone char int bool int

text \<open>The groups of the pattern. A date alone has no time; the fraction is the digits after the
  point.\<close>

record iso_time_part =
  ip_separator :: char
  ip_hour :: int
  ip_minute :: int
  ip_second :: "int option"
  ip_fraction :: string
  ip_zone :: iso_zone

record iso_match =
  im_year :: int
  im_month :: int
  im_day :: int
  im_time :: "iso_time_part option"

definition match_zone :: "string \<Rightarrow> iso_zone option" where
  "match_zone s =
     (case s of
        [] \<Rightarrow> Some NoZone
      | [c] \<Rightarrow> if c \<in> set ''Zz'' then Some (UtcZone c) else None
      | _ \<Rightarrow>
        do {
          (sign, s) \<leftarrow> take_one ''+-'' s;
          (h, s) \<leftarrow> take_digits 2 s;
          (let colon = (take_one '':'' s \<noteq> None)
           in do {
             (m, s) \<leftarrow> take_digits 2 (if colon then drop 1 s else s);
             (if s = [] then Some (OffsetZone sign h colon m) else None)
           })
        })"

definition match_seconds :: "string \<Rightarrow> (int option \<times> string \<times> string) option" where
  "match_seconds s =
     (case take_one '':'' s of
        None \<Rightarrow> Some (None, [], s)
      | Some (_, r) \<Rightarrow>
        do {
          (sec, r) \<leftarrow> take_digits 2 r;
          (case take_one ''.'' r of
             None \<Rightarrow> Some (Some sec, [], r)
           | Some (_, t) \<Rightarrow>
               (let ds = takeWhile is_digit t
                in if ds = [] then None else Some (Some sec, ds, dropWhile is_digit t)))
        })"

definition match_time :: "string \<Rightarrow> iso_time_part option" where
  "match_time s =
     do {
       (sep, s) \<leftarrow> take_one ''Tt'' s;
       (h, s) \<leftarrow> take_digits 2 s;
       (_, s) \<leftarrow> take_one '':'' s;
       (mi, s) \<leftarrow> take_digits 2 s;
       (sec, fr, s) \<leftarrow> match_seconds s;
       zone \<leftarrow> match_zone s;
       Some \<lparr>ip_separator = sep, ip_hour = h, ip_minute = mi, ip_second = sec, ip_fraction = fr,
             ip_zone = zone\<rparr>
     }"

definition ISO_ABSOLUTE :: "string \<Rightarrow> iso_match option" where
  "ISO_ABSOLUTE s =
     do {
       (y, s) \<leftarrow> take_digits 4 s;
       (_, s) \<leftarrow> take_one ''-'' s;
       (m, s) \<leftarrow> take_digits 2 s;
       (_, s) \<leftarrow> take_one ''-'' s;
       (d, s) \<leftarrow> take_digits 2 s;
       (if s = [] then Some \<lparr>im_year = y, im_month = m, im_day = d, im_time = None\<rparr>
        else do {
          t \<leftarrow> match_time s;
          Some \<lparr>im_year = y, im_month = m, im_day = d, im_time = Some t\<rparr>
        })
     }"

text \<open>The values that the code reads off a match.\<close>

definition im_hour :: "iso_match \<Rightarrow> int" where
  "im_hour f = (case im_time f of None \<Rightarrow> 0 | Some t \<Rightarrow> ip_hour t)"
definition im_minute :: "iso_match \<Rightarrow> int" where
  "im_minute f = (case im_time f of None \<Rightarrow> 0 | Some t \<Rightarrow> ip_minute t)"
definition im_second :: "iso_match \<Rightarrow> int" where
  "im_second f = (case im_time f of None \<Rightarrow> 0 | Some t \<Rightarrow> coalesce (ip_second t) 0)"
definition im_millisecond :: "iso_match \<Rightarrow> int" where
  "im_millisecond f =
     (case im_time f of
        None \<Rightarrow> 0
      | Some t \<Rightarrow> if ip_fraction t = [] then 0 else digits_value (take 3 (ip_fraction t @ ''00'')))"

definition end_of_day :: "iso_match \<Rightarrow> bool" where
  "end_of_day f \<longleftrightarrow> im_hour f = 24 \<and> im_minute f = 0 \<and> im_second f = 0 \<and> im_millisecond f = 0"

section \<open>The calendar probe\<close>

text \<open>\<^verbatim>\<open>setUTCFullYear\<close> and \<^verbatim>\<open>setUTCHours\<close> carry fields that are out of
  range over into the next larger field.\<close>

definition make_day :: "int \<Rightarrow> int \<Rightarrow> int \<Rightarrow> int" where
  "make_day y month date =
     (let y = y + month div 12
      in days_before_year y + sum_list (take (nat (month mod 12)) (month_lengths y)) + date - 1 - epoch_day)"

definition setUTCFullYear :: "int \<Rightarrow> int \<Rightarrow> int \<Rightarrow> int \<Rightarrow> int" where
  "setUTCFullYear y month date t = make_day y month date * day_ms + t mod day_ms"

definition setUTCHours :: "int \<Rightarrow> int \<Rightarrow> int \<Rightarrow> int \<Rightarrow> int \<Rightarrow> int" where
  "setUTCHours h mi s ms t = (t div day_ms) * day_ms + (((h * 60 + mi) * 60 + s) * 1000 + ms)"

definition utc_month_day :: "int \<Rightarrow> nat \<times> int" where
  "utc_month_day t =
     (let n = t div day_ms + epoch_day; y = year_of_day n
      in month_and_day (month_lengths y) 0 (n - days_before_year y))"

definition getUTCFullYear :: "int \<Rightarrow> int" where
  "getUTCFullYear t = year_of_day (t div day_ms + epoch_day)"
definition getUTCMonth :: "int \<Rightarrow> int" where "getUTCMonth t = int (fst (utc_month_day t))"
definition getUTCDate :: "int \<Rightarrow> int" where "getUTCDate t = snd (utc_month_day t) + 1"
definition getUTCHours :: "int \<Rightarrow> int" where "getUTCHours t = t mod day_ms div 3600000"
definition getUTCMinutes :: "int \<Rightarrow> int" where "getUTCMinutes t = t mod day_ms div 60000 mod 60"
definition getUTCSeconds :: "int \<Rightarrow> int" where "getUTCSeconds t = t mod day_ms div 1000 mod 60"
definition getUTCMilliseconds :: "int \<Rightarrow> int" where "getUTCMilliseconds t = t mod day_ms mod 1000"

definition iso_probe :: "iso_match \<Rightarrow> int" where
  "iso_probe f =
     setUTCHours (if end_of_day f then 0 else im_hour f) (im_minute f) (im_second f) (im_millisecond f)
       (setUTCFullYear (im_year f) (im_month f - 1) (im_day f) 0)"

definition isValidIsoAbsolute :: "string \<Rightarrow> bool" where
  "isValidIsoAbsolute raw =
     (case ISO_ABSOLUTE raw of
        None \<Rightarrow> False
      | Some f \<Rightarrow>
          let probe = iso_probe f
          in getUTCFullYear probe = im_year f \<and> getUTCMonth probe = im_month f - 1 \<and>
             getUTCDate probe = im_day f \<and>
             getUTCHours probe = (if end_of_day f then 0 else im_hour f) \<and>
             getUTCMinutes probe = im_minute f \<and> getUTCSeconds probe = im_second f \<and>
             getUTCMilliseconds probe = im_millisecond f)"

section \<open>Normalization and parsing\<close>

definition ends_with_offset :: "nat \<Rightarrow> string \<Rightarrow> bool" where
  "ends_with_offset k raw \<longleftrightarrow>
     k \<le> length raw \<and>
     (case match_zone (drop (length raw - k) raw) of Some (OffsetZone _ _ _ _) \<Rightarrow> True | _ \<Rightarrow> False)"

definition ISO_TZ :: "string \<Rightarrow> bool" where
  "ISO_TZ raw \<longleftrightarrow> raw \<noteq> [] \<and> last raw \<in> set ''Zz'' \<or> ends_with_offset 5 raw \<or> ends_with_offset 6 raw"

definition date_prefix :: "string \<Rightarrow> string option" where
  "date_prefix s =
     do {
       (_, s) \<leftarrow> take_digits 4 s; (_, s) \<leftarrow> take_one ''-'' s; (_, s) \<leftarrow> take_digits 2 s;
       (_, s) \<leftarrow> take_one ''-'' s; (_, s) \<leftarrow> take_digits 2 s; Some s
     }"

definition ISO_DATE :: "string \<Rightarrow> bool" where
  "ISO_DATE raw \<longleftrightarrow> date_prefix raw = Some []"

definition ISO_DATE_TIME :: "string \<Rightarrow> bool" where
  "ISO_DATE_TIME raw \<longleftrightarrow>
     (case date_prefix raw of Some r \<Rightarrow> take_one ''Tt'' r \<noteq> None | None \<Rightarrow> False)"

definition normalizeUtcIso :: "string \<Rightarrow> string" where
  "normalizeUtcIso raw =
     (if ISO_TZ raw then raw
      else if ISO_DATE raw then raw @ ''T00:00:00Z''
      else if ISO_DATE_TIME raw then raw @ ''Z''
      else raw)"

text \<open>The texts whose meaning the language defines: an upper case separator and zone, no fraction or
  three digits of one, fields in range; an offset is written with a colon.\<close>

definition zone_minutes :: "iso_zone \<Rightarrow> int option" where
  "zone_minutes z =
     (case z of
        UtcZone c \<Rightarrow> if c = CHR ''Z'' then Some 0 else None
      | OffsetZone sign h colon m \<Rightarrow>
          if colon \<and> h < 24 \<and> m < 60
          then Some (if sign = CHR ''-'' then - (h * 60 + m) else h * 60 + m) else None
      | NoZone \<Rightarrow> None)"

definition fields_in_range :: "iso_match \<Rightarrow> bool" where
  "fields_in_range f \<longleftrightarrow>
     1 \<le> im_month f \<and> im_month f \<le> 12 \<and>
     1 \<le> im_day f \<and> im_day f \<le> month_lengths (im_year f) ! nat (im_month f - 1) \<and>
     (im_hour f < 24 \<and> im_minute f < 60 \<and> im_second f < 60 \<or> end_of_day f)"

definition fields_time :: "iso_match \<Rightarrow> int" where
  "fields_time f =
     make_day (im_year f) (im_month f - 1) (im_day f) * day_ms +
     (((im_hour f * 60 + im_minute f) * 60 + im_second f) * 1000 + im_millisecond f)"

definition iso_form_time :: "string \<Rightarrow> int option" where
  "iso_form_time s =
     (case ISO_ABSOLUTE s of
        Some f \<Rightarrow>
         (case im_time f of
            Some t \<Rightarrow>
              if fields_in_range f \<and> ip_separator t = CHR ''T'' \<and>
                 (ip_fraction t = [] \<or> length (ip_fraction t) = 3)
              then (case zone_minutes (ip_zone t) of
                Some offset \<Rightarrow> Some (fields_time f - offset * 60000) | None \<Rightarrow> None)
              else None
          | None \<Rightarrow> None)
      | None \<Rightarrow> None)"

definition js_Date_parse_iso :: "(string \<Rightarrow> int option) \<Rightarrow> string \<Rightarrow> int option" where
  "js_Date_parse_iso other s =
     (case iso_form_time s of Some t \<Rightarrow> if valid_time t then Some t else None | None \<Rightarrow> other s)"

definition parseAbsoluteTimeMs :: "(string \<Rightarrow> int option) \<Rightarrow> string \<Rightarrow> int option" where
  "parseAbsoluteTimeMs other input =
     (let raw = js_trim input
      in if raw = [] then None
         else if list_all is_digit raw
         then (case parseStrictPositiveInteger (UString raw) of
            Some (Fin q) \<Rightarrow> if valid_time \<lfloor>q\<rfloor> then Some \<lfloor>q\<rfloor> else None
          | _ \<Rightarrow> None)
         else if \<not> isValidIsoAbsolute raw then None
         else js_Date_parse_iso other (normalizeUtcIso raw))"

section \<open>Digits read from a text\<close>

lemma digits_value_bounds: "list_all is_digit ds \<Longrightarrow> 0 \<le> digits_value ds \<and> digits_value ds < 10 ^ length ds"
proof (induction ds rule: rev_induct)
  case (snoc c ds)
  then have "48 \<le> (of_char c :: nat)" "(of_char c :: nat) \<le> 57" by (auto simp: is_digit_def)
  then have "0 \<le> int (of_char c) - 48 \<and> int (of_char c) - 48 \<le> 9" by linarith
  with snoc show ?case by (simp add: digits_value_append)
qed (simp add: digits_value_def)

lemma take_digits_bounds: "take_digits k s = Some (v, r) \<Longrightarrow> 0 \<le> v \<and> v < 10 ^ k"
  using digits_value_bounds [of "take k s"] by (auto simp: take_digits_def Let_def split: if_splits)

lemma list_all_pad_digits: "list_all is_digit (pad_digits k n)"
proof (induction k arbitrary: n)
  case (Suc k)
  have "nat (n mod 10) < 10" by simp
  with Suc show ?case by (simp add: is_digit_def digit_char)
qed simp

lemma take_digits_pad [simp]:
  "0 \<le> n \<Longrightarrow> n < 10 ^ k \<Longrightarrow> take_digits k (pad_digits k n @ r) = Some (n, r)"
  by (simp add: take_digits_def list_all_pad_digits pad_digits_value Let_def)

lemma take_one_Cons [simp]: "take_one cs (c # r) = (if c \<in> set cs then Some (c, r) else None)"
  by (simp add: take_one_def)

lemma match_seconds_bounds:
  assumes "match_seconds s = Some (sec, fr, r)"
  shows "0 \<le> coalesce sec 0 \<and> list_all is_digit fr"
proof (cases "take_one '':'' s")
  case (Some p)
  with assms obtain x u where u: "take_digits 2 (snd p) = Some (x, u)"
    by (cases p) (auto simp: match_seconds_def bind_eq_Some_conv)
  with Some assms have "sec = Some x \<and> (fr = [] \<or> fr = takeWhile is_digit (snd (the (take_one ''.'' u))))"
    by (cases p; cases "take_one ''.'' u") (auto simp: match_seconds_def Let_def split: if_splits)
  with take_digits_bounds [OF u] show ?thesis by (auto simp: list_all_iff dest: set_takeWhileD)
qed (use assms in \<open>simp add: match_seconds_def\<close>)

text \<open>What the fields of a match can be.\<close>

lemma match_bounds:
  assumes "ISO_ABSOLUTE s = Some f"
  shows "0 \<le> im_year f" "im_year f \<le> 9999" "0 \<le> im_hour f" "0 \<le> im_minute f" "0 \<le> im_second f"
    "0 \<le> im_millisecond f" "im_millisecond f < 1000"
proof -
  obtain r where r: "take_digits 4 s = Some (im_year f, r)"
    using assms by (auto simp: ISO_ABSOLUTE_def bind_eq_Some_conv split: if_splits)
  from take_digits_bounds [OF r] show "0 \<le> im_year f" "im_year f \<le> 9999" by simp_all
  have time: "0 \<le> ip_hour t \<and> 0 \<le> ip_minute t \<and> 0 \<le> coalesce (ip_second t) 0 \<and> list_all is_digit (ip_fraction t)"
    if "im_time f = Some t" for t
  proof -
    have "\<exists>r. match_time r = Some t"
      using assms that by (auto simp: ISO_ABSOLUTE_def bind_eq_Some_conv split: if_splits)
    then show ?thesis
      by (auto simp: match_time_def bind_eq_Some_conv dest!: take_digits_bounds match_seconds_bounds)
  qed
  show "0 \<le> im_hour f" "0 \<le> im_minute f" "0 \<le> im_second f"
    using time by (auto simp: im_hour_def im_minute_def im_second_def split: option.split)
  have "0 \<le> digits_value (take 3 (fr @ ''00'')) \<and> digits_value (take 3 (fr @ ''00'')) < 1000"
    if "list_all is_digit fr" "fr \<noteq> []" for fr
  proof -
    have "list_all is_digit (take 3 (fr @ ''00''))"
      using that by (auto simp: list_all_iff is_digit_def dest!: in_set_takeD)
    moreover have "length (take 3 (fr @ ''00'')) = 3" using that by (cases fr) auto
    ultimately show ?thesis using digits_value_bounds [of "take 3 (fr @ ''00'')"] by (simp del: take_append)
  qed
  then show "0 \<le> im_millisecond f" "im_millisecond f < 1000"
    using time by (auto simp: im_millisecond_def split: option.split)
qed

section \<open>The probe and the calendar\<close>

lemma days_before_year_mono: "y < y' \<Longrightarrow> days_before_year (y + 1) \<le> days_before_year y'"
proof (induction y' rule: int_gr_induct)
  case (step i)
  have "0 \<le> sum_list (month_lengths i)" by (simp add: month_lengths_def)
  with step show ?case by (simp add: days_before_next_year)
qed simp

lemma year_of_day_unique:
  assumes "days_before_year y \<le> n" "n < days_before_year (y + 1)"
  shows "year_of_day n = y"
proof -
  note bounds = year_of_day_bounds [of n]
  have "\<not> y < year_of_day n" using days_before_year_mono [of y "year_of_day n"] assms bounds by linarith
  moreover have "\<not> year_of_day n < y"
    using days_before_year_mono [of "year_of_day n" y] assms bounds by linarith
  ultimately show ?thesis by simp
qed

lemma month_and_day_of:
  "k < length ls \<Longrightarrow> list_all (\<lambda>l. 0 < l) ls \<Longrightarrow> 0 \<le> e \<Longrightarrow> e < ls ! k \<Longrightarrow>
     month_and_day ls m (sum_list (take k ls) + e) = (m + k, e)"
proof (induction ls arbitrary: k m)
  case (Cons l ls)
  show ?case
  proof (cases k)
    case (Suc j)
    have "0 \<le> sum_list (take j ls)"
      using Cons.prems by (auto simp: list_all_iff intro!: sum_list_nonneg dest!: in_set_takeD intro: less_imp_le)
    with Suc Cons show ?thesis by (simp add: add.assoc)
  qed (use Cons in simp)
qed simp

lemma month_lengths_pos: "list_all (\<lambda>l. 0 < l) (month_lengths y)"
  by (simp add: month_lengths_def)

text \<open>A day of the calendar is read back from the day number.\<close>

lemma calendar_day:
  assumes "0 \<le> month" "month < 12" "1 \<le> date" "date \<le> month_lengths y ! nat month"
  defines "n \<equiv> make_day y month date + epoch_day"
  shows "year_of_day n = y" "month_and_day (month_lengths y) 0 (n - days_before_year y) = (nat month, date - 1)"
proof -
  have n: "n = days_before_year y + (sum_list (take (nat month) (month_lengths y)) + (date - 1))"
    using assms by (simp add: n_def make_day_def)
  let ?k = "nat month"
  have k: "?k < length (month_lengths y)" using assms by (simp add: month_lengths_def)
  have "sum_list (month_lengths y) = sum_list (take ?k (month_lengths y)) + sum_list (drop ?k (month_lengths y))"
    by (metis append_take_drop_id sum_list_append)
  moreover have "drop ?k (month_lengths y) = month_lengths y ! ?k # drop (Suc ?k) (month_lengths y)"
    using k by (rule Cons_nth_drop_Suc [symmetric])
  moreover have "0 \<le> sum_list (drop (Suc ?k) (month_lengths y))" "0 \<le> sum_list (take ?k (month_lengths y))"
    using month_lengths_pos [of y]
    by (auto simp: list_all_iff intro!: sum_list_nonneg dest!: in_set_dropD in_set_takeD intro: less_imp_le)
  ultimately have "days_before_year y \<le> n" "n < days_before_year (y + 1)"
    using assms(3,4) unfolding n days_before_next_year by simp_all
  then show "year_of_day n = y" by (rule year_of_day_unique)
  show "month_and_day (month_lengths y) 0 (n - days_before_year y) = (nat month, date - 1)"
    using month_and_day_of [OF k month_lengths_pos, of "date - 1" 0] assms(3,4) unfolding n by simp
qed

lemma month_length_31: "m < 12 \<Longrightarrow> month_lengths y ! m \<le> 31"
  using nth_mem [of m "month_lengths y"] by (auto simp: month_lengths_def split: if_splits)

text \<open>The parts of a time that is put together from a day and a time of day.\<close>

lemma time_parts:
  fixes h mi s ms :: int
  assumes "0 \<le> h" "0 \<le> mi" "0 \<le> s" "0 \<le> ms" "h < 24" "mi < 60" "s < 60" "ms < 1000"
  defines "x \<equiv> ((h * 60 + mi) * 60 + s) * 1000 + ms"
  shows "0 \<le> x" "x < day_ms" "x div 3600000 = h" "x div 60000 mod 60 = mi" "x div 1000 mod 60 = s" "x mod 1000 = ms"
proof -
  have "(h * 60 + mi) * 60 + s \<le> 86399" using assms(1-8) by simp
  then show "0 \<le> x" "x < day_ms" using assms(1-4,8) by (simp_all add: x_def day_ms_def)
  have split: "(a * k + b) div k = a" "(a * k + b) mod k = b" if "0 \<le> b" "b < k" for a b k :: int
    using that by simp_all
  have x: "x div 1000 = (h * 60 + mi) * 60 + s" "x mod 1000 = ms"
    unfolding x_def by (rule split [OF assms(4,8)])+
  show "x mod 1000 = ms" "x div 1000 mod 60 = s" unfolding x by (rule refl, rule split [OF assms(3,7)])
  have "x div 60000 = x div 1000 div 60" "x div 3600000 = x div 1000 div 60 div 60"
    by (simp_all add: zdiv_zmult2_eq [symmetric])
  then have d: "x div 60000 = h * 60 + mi" "x div 3600000 = (h * 60 + mi) div 60"
    unfolding x using split(1) [OF assms(3,7)] by simp_all
  show "x div 60000 mod 60 = mi" "x div 3600000 = h" unfolding d by (rule split [OF assms(2,6)])+
qed

lemma probe_parts:
  assumes "ISO_ABSOLUTE s = Some f" "fields_in_range f"
  defines "p \<equiv> iso_probe f"
  shows "getUTCFullYear p = im_year f" "getUTCMonth p = im_month f - 1" "getUTCDate p = im_day f"
    "getUTCHours p = (if end_of_day f then 0 else im_hour f)" "getUTCMinutes p = im_minute f"
    "getUTCSeconds p = im_second f" "getUTCMilliseconds p = im_millisecond f"
proof -
  let ?h = "if end_of_day f then 0 else im_hour f"
  let ?x = "((?h * 60 + im_minute f) * 60 + im_second f) * 1000 + im_millisecond f"
  let ?D = "make_day (im_year f) (im_month f - 1) (im_day f)"
  note bounds = match_bounds [OF assms(1)]
  have "0 \<le> ?h" "?h < 24" "im_minute f < 60" "im_second f < 60"
    using assms(2) bounds by (auto simp: fields_in_range_def end_of_day_def)
  note x = time_parts [OF this(1) bounds(4,5,6) this(2-4) bounds(7)]
  have "day_ms \<noteq> 0" by (simp add: day_ms_def)
  then have "p = ?x + ?D * day_ms"
    by (simp add: p_def iso_probe_def setUTCHours_def setUTCFullYear_def)
  then have p: "p div day_ms = ?D" "p mod day_ms = ?x" using x(1,2) \<open>day_ms \<noteq> 0\<close> by simp_all
  note day = calendar_day [of "im_month f - 1" "im_day f" "im_year f"]
  have "0 \<le> im_month f - 1" "im_month f - 1 < 12" "1 \<le> im_day f"
    "im_day f \<le> month_lengths (im_year f) ! nat (im_month f - 1)"
    using assms(2) by (auto simp: fields_in_range_def)
  note day = calendar_day [OF this]
  show "getUTCFullYear p = im_year f" by (simp add: getUTCFullYear_def p day)
  show "getUTCMonth p = im_month f - 1" "getUTCDate p = im_day f"
    using \<open>0 \<le> im_month f - 1\<close> by (simp_all add: getUTCMonth_def getUTCDate_def utc_month_day_def Let_def p day)
  show "getUTCHours p = ?h" "getUTCMinutes p = im_minute f" "getUTCSeconds p = im_second f"
    "getUTCMilliseconds p = im_millisecond f"
    unfolding getUTCHours_def getUTCMinutes_def getUTCSeconds_def getUTCMilliseconds_def p by (rule x)+
qed

lemma in_range_valid:
  assumes "ISO_ABSOLUTE raw = Some f" "fields_in_range f"
  shows "isValidIsoAbsolute raw"
  using probe_parts [OF assms] assms(1) by (simp add: isValidIsoAbsolute_def Let_def)

lemma probe_calendar:
  "0 \<le> getUTCMonth p" "getUTCMonth p < 12" "1 \<le> getUTCDate p"
  "getUTCDate p \<le> month_lengths (getUTCFullYear p) ! nat (getUTCMonth p)"
  "getUTCHours p < 24" "getUTCMinutes p < 60" "getUTCSeconds p < 60"
proof -
  obtain y m d h mi sc ml where y: "y = year_of_day (p div day_ms + epoch_day)"
    and md: "month_and_day (month_lengths y) 0 (p div day_ms + epoch_day - days_before_year y) = (m, d)"
    and parts: "h = p mod day_ms div 3600000" "mi = p mod day_ms div 60000 mod 60"
      "sc = p mod day_ms div 1000 mod 60"
    and range: "m < 12" "0 \<le> d" "d < month_lengths y ! m" "h < 24" "mi < 60" "sc < 60"
    by (rule calendar_fields [of p]) blast
  have get: "getUTCMonth p = int m" "getUTCDate p = d + 1" "getUTCFullYear p = y"
    "getUTCHours p = h" "getUTCMinutes p = mi" "getUTCSeconds p = sc"
    unfolding getUTCMonth_def getUTCDate_def utc_month_day_def getUTCFullYear_def getUTCHours_def
      getUTCMinutes_def getUTCSeconds_def Let_def y [symmetric] md parts by simp_all
  show "0 \<le> getUTCMonth p" "getUTCMonth p < 12" "1 \<le> getUTCDate p"
    "getUTCDate p \<le> month_lengths (getUTCFullYear p) ! nat (getUTCMonth p)"
    "getUTCHours p < 24" "getUTCMinutes p < 60" "getUTCSeconds p < 60"
    unfolding get using range by simp_all
qed

text \<open>C25: A one-shot time is accepted exactly when its text has the form of the pattern and names a day
  of the Gregorian calendar and a time of that day, 24:00 included: the probe that sets a
  \<^verbatim>\<open>Date\<close> from the fields and reads it back finds every date that would have been
  rolled over and rejects no other.\<close>

theorem absolute_time_validity:
  "isValidIsoAbsolute raw \<longleftrightarrow>
     (case ISO_ABSOLUTE raw of None \<Rightarrow> False | Some f \<Rightarrow> fields_in_range f)"
proof (cases "ISO_ABSOLUTE raw")
  case (Some f)
  show ?thesis
  proof
    assume "isValidIsoAbsolute raw"
    with Some have get: "getUTCFullYear (iso_probe f) = im_year f" "getUTCMonth (iso_probe f) = im_month f - 1"
      "getUTCDate (iso_probe f) = im_day f"
      "getUTCHours (iso_probe f) = (if end_of_day f then 0 else im_hour f)"
      "getUTCMinutes (iso_probe f) = im_minute f" "getUTCSeconds (iso_probe f) = im_second f"
      by (simp_all add: isValidIsoAbsolute_def Let_def)
    show "case ISO_ABSOLUTE raw of None \<Rightarrow> False | Some f \<Rightarrow> fields_in_range f"
    proof -
      note calendar = probe_calendar [of "iso_probe f", unfolded get]
      then have "fields_in_range f" unfolding fields_in_range_def by (cases "end_of_day f") simp_all
      with Some show ?thesis by simp
    qed
  next
    assume "case ISO_ABSOLUTE raw of None \<Rightarrow> False | Some f \<Rightarrow> fields_in_range f"
    with Some show "isValidIsoAbsolute raw" by (simp add: in_range_valid)
  qed
qed (simp add: isValidIsoAbsolute_def)

section \<open>Printed times\<close>

lemma pad_digits_stop:
  assumes "\<not> is_digit c"
  shows "takeWhile is_digit (pad_digits k n @ c # r) = pad_digits k n"
    "dropWhile is_digit (pad_digits k n @ c # r) = c # r"
  using list_all_pad_digits [of k n] assms by (simp_all add: list_all_iff takeWhile_append dropWhile_append)

lemma match_printed:
  assumes "0 \<le> y" "y \<le> 9999" "0 \<le> m" "m < 100" "0 \<le> d" "d < 100" "0 \<le> h" "h < 100" "0 \<le> mi" "mi < 100"
    "0 \<le> sc" "sc < 100" "0 \<le> ml" "ml < 1000"
  shows "ISO_ABSOLUTE (pad_digits 4 y @ ''-'' @ pad_digits 2 m @ ''-'' @ pad_digits 2 d @ ''T'' @
      pad_digits 2 h @ '':'' @ pad_digits 2 mi @ '':'' @ pad_digits 2 sc @ ''.'' @ pad_digits 3 ml @ ''Z'') =
    Some \<lparr>im_year = y, im_month = m, im_day = d, im_time = Some \<lparr>ip_separator = CHR ''T'', ip_hour = h,
      ip_minute = mi, ip_second = Some sc, ip_fraction = pad_digits 3 ml, ip_zone = UtcZone (CHR ''Z'')\<rparr>\<rparr>"
proof -
  have "\<not> is_digit (CHR ''Z'')" by (simp add: is_digit_def)
  note stop = pad_digits_stop [OF this]
  have "pad_digits 3 ml \<noteq> []" by (metis length_pad_digits list.size(3) zero_neq_numeral)
  then show ?thesis
    using assms by (simp add: ISO_ABSOLUTE_def match_time_def match_seconds_def match_zone_def stop)
qed

text \<open>C26: The schedule of a one-shot job survives printing: the canonical text of a time between the
  years 0 and 9999 is read as exactly that time.\<close>

theorem absolute_time_roundtrip:
  assumes "valid_time t" "0 \<le> getUTCFullYear t" "getUTCFullYear t \<le> 9999"
  shows "parseAbsoluteTimeMs other (toISOString t) = Some t"
proof -
  obtain y m d h mi sc ml where y: "y = year_of_day (t div day_ms + epoch_day)"
    and md: "month_and_day (month_lengths y) 0 (t div day_ms + epoch_day - days_before_year y) = (m, d)"
    and parts: "h = t mod day_ms div 3600000" "mi = t mod day_ms div 60000 mod 60"
      "sc = t mod day_ms div 1000 mod 60" "ml = t mod day_ms mod 1000"
    and range: "m < 12" "0 \<le> d" "d < month_lengths y ! m" "d < 31" "0 \<le> h" "h < 24" "0 \<le> mi" "mi < 60"
      "0 \<le> sc" "sc < 60" "0 \<le> ml" "ml < 1000"
    and t: "(days_before_year y + sum_list (take m (month_lengths y)) + d - epoch_day) * day_ms +
       h * 3600000 + mi * 60000 + sc * 1000 + ml = t"
    by (rule calendar_fields)
  have year: "0 \<le> y" "y \<le> 9999" using assms(2,3) by (simp_all add: getUTCFullYear_def y)
  let ?s = "pad_digits 4 y @ ''-'' @ pad_digits 2 (int m + 1) @ ''-'' @ pad_digits 2 (d + 1) @ ''T'' @
    pad_digits 2 h @ '':'' @ pad_digits 2 mi @ '':'' @ pad_digits 2 sc @ ''.'' @ pad_digits 3 ml @ ''Z''"
  have s: "toISOString t = ?s"
    unfolding toISOString_def Let_def y [symmetric] md using year by (simp add: parts year_string_def)
  let ?f = "\<lparr>im_year = y, im_month = int m + 1, im_day = d + 1, im_time = Some \<lparr>ip_separator = CHR ''T'',
    ip_hour = h, ip_minute = mi, ip_second = Some sc, ip_fraction = pad_digits 3 ml, ip_zone = UtcZone (CHR ''Z'')\<rparr>\<rparr>"
  have f: "ISO_ABSOLUTE (toISOString t) = Some ?f" unfolding s by (rule match_printed) (use range year in simp_all)
  have in_range: "fields_in_range ?f"
    using range by (simp add: fields_in_range_def im_hour_def im_minute_def im_second_def)
  have "pad_digits 3 ml \<noteq> []" by (metis length_pad_digits list.size(3) zero_neq_numeral)
  then have ms: "im_millisecond ?f = ml"
    using range by (simp add: im_millisecond_def pad_digits_value)
  have "fields_time ?f = t"
    unfolding fields_time_def ms using range t
    by (simp add: make_day_def im_hour_def im_minute_def im_second_def algebra_simps)
  then have time: "iso_form_time (toISOString t) = Some t"
    using f in_range by (simp add: iso_form_time_def zone_minutes_def)
  have utc: "normalizeUtcIso (toISOString t) = toISOString t" by (simp add: normalizeUtcIso_def ISO_TZ_def s)
  have "\<not> list_all is_digit (toISOString t)" by (simp add: s is_digit_def)
  with in_range_valid [OF f in_range] time utc assms(1) show ?thesis
    by (simp add: parseAbsoluteTimeMs_def js_Date_parse_iso_def Let_def)
qed

theorem absolute_time_roundtrip_witness:
  "parseAbsoluteTimeMs (\<lambda>_. None) (toISOString 1709164800000) = Some 1709164800000"
proof (rule absolute_time_roundtrip)
  show "valid_time 1709164800000" by (simp add: valid_time_def MAX_DATE_TIMESTAMP_MS_def)
  have "getUTCFullYear 1709164800000 = 2024" by code_simp
  then show "0 \<le> getUTCFullYear 1709164800000" "getUTCFullYear 1709164800000 \<le> 9999" by simp_all
qed

end
