(* ===== verification/Cron_Schedule.thy ===== *)
theory Cron_Schedule
  imports Cron_Parse String_Normalization Memo_Cache
begin

text \<open>
  \<^verbatim>\<open>src/cron/schedule.ts\<close>, \<^verbatim>\<open>schedule-number.ts\<close> and \<^verbatim>\<open>stagger.ts\<close>:
  the next and the previous time of a schedule, the cache of compiled cron expressions and the
  width of the window over which the jobs of one slot are spread. Compiling and evaluating an
  expression is done by the package \<^verbatim>\<open>croner\<close>, which is a parameter, together with
  the time zone of the host, the platform's \<^verbatim>\<open>Date.parse\<close> and the SHA-256 digest; each of
  its calls may throw. Times are whole milliseconds.
\<close>

section \<open>Schedules\<close>

text \<open>The result of code that may throw: the text of the error, or a value.\<close>

type_synonym 'a outcome = "string + 'a"

datatype CronSchedule =
    AtSchedule string
  | EverySchedule unknown_value unknown_value
  | CronExprSchedule unknown_value "string option" unknown_value
  | OnExitSchedule string "string option"

text \<open>What the host provides; \<open>'c\<close> is a compiled expression.\<close>

record 'c CronHost =
  ho_compile :: "string \<Rightarrow> string \<Rightarrow> 'c outcome"
  ho_next :: "'c \<Rightarrow> int \<Rightarrow> int option outcome"
  ho_previous :: "'c \<Rightarrow> int \<Rightarrow> int option outcome"
  ho_timezone :: string
  ho_parseDate :: "string \<Rightarrow> int option"
  ho_sha256 :: "string \<Rightarrow> nat list"

definition coerceFiniteScheduleNumber :: "unknown_value \<Rightarrow> rat option" where
  "coerceFiniteScheduleNumber v =
     (case parseStrictFiniteNumber v of
        Some (Fin q) \<Rightarrow> if \<bar>q\<bar> \<le> of_int max_safe_integer then Some q else None
      | _ \<Rightarrow> None)"

definition resolveCronTimezone :: "'c CronHost \<Rightarrow> string option \<Rightarrow> string" where
  "resolveCronTimezone host tz =
     (let trimmed = (case tz of None \<Rightarrow> [] | Some t \<Rightarrow> coalesce (normalizeOptionalString (JString t)) [])
      in if trimmed \<noteq> [] then trimmed else ho_timezone host)"

section \<open>The cache of compiled expressions\<close>

definition CRON_EVAL_CACHE_MAX :: nat where "CRON_EVAL_CACHE_MAX = 512"

text \<open>The eviction policy of the caches of the cron service: a full table loses its oldest entry before
  a new one goes in.\<close>

definition evict_oldest :: "nat \<Rightarrow> ('k, 'v) jsmap \<Rightarrow> ('k, 'v) jsmap" where
  "evict_oldest limit m = (if limit \<le> length m then drop 1 m else m)"

definition store_after_evicting :: "nat \<Rightarrow> 'k \<Rightarrow> 'v \<Rightarrow> ('k, 'v) jsmap \<Rightarrow> ('k, 'v) jsmap" where
  "store_after_evicting limit k v m = map_put k v (evict_oldest limit m)"

definition cron_cache_key :: "string \<Rightarrow> string \<Rightarrow> string" where
  "cron_cache_key timezone expr = timezone @ CHR 0x00 # expr"

text \<open>A hit moves to the end; a miss drops the oldest entry of a full table before it compiles.\<close>

definition resolveCachedCron ::
  "'c CronHost \<Rightarrow> (string, 'c) jsmap \<Rightarrow> string \<Rightarrow> string \<Rightarrow> 'c outcome \<times> (string, 'c) jsmap" where
  "resolveCachedCron host cache expr timezone =
     (let key = cron_cache_key timezone expr
      in case map_get cache key of
           Some cached \<Rightarrow> (Inr cached, map_put key cached (map_del key cache))
         | None \<Rightarrow>
            (case ho_compile host expr timezone of
               Inl err \<Rightarrow> (Inl err, evict_oldest CRON_EVAL_CACHE_MAX cache)
             | Inr compiled \<Rightarrow>
                 (Inr compiled, store_after_evicting CRON_EVAL_CACHE_MAX key compiled cache)))"

definition resolveCronFromSchedule ::
  "'c CronHost \<Rightarrow> (string, 'c) jsmap \<Rightarrow> string option \<Rightarrow> unknown_value \<Rightarrow>
     'c option outcome \<times> (string, 'c) jsmap" where
  "resolveCronFromSchedule host cache tz expr =
     (case expr of
        UString s \<Rightarrow>
          let expr = js_trim s
          in if expr = [] then (Inr None, cache)
             else (case resolveCachedCron host cache expr (resolveCronTimezone host tz) of
                     (Inl err, cache) \<Rightarrow> (Inl err, cache)
                   | (Inr cron, cache) \<Rightarrow> (Inr (Some cron), cache))
      | _ \<Rightarrow> (Inl ''Error: invalid cron schedule: expr is required'', cache))"

section \<open>Next and previous run\<close>

definition next_every :: "int \<Rightarrow> int \<Rightarrow> int \<Rightarrow> int" where
  "next_every everyMs anchor nowMs =
     (if nowMs < anchor then anchor
      else let elapsed = nowMs - anchor; steps = elapsed div everyMs + 1 in anchor + steps * everyMs)"

text \<open>The evaluation of a compiled expression, with the retries after an answer that is not in the
  future: from the next second, then from the start of the next UTC day.\<close>

definition next_cron :: "'c CronHost \<Rightarrow> 'c \<Rightarrow> int \<Rightarrow> int option outcome" where
  "next_cron host cron nowMs =
     (case ho_next host cron nowMs of
        Inl err \<Rightarrow> Inl err
      | Inr None \<Rightarrow> Inr None
      | Inr (Some nextMs) \<Rightarrow>
          if nextMs \<le> nowMs then
            let nextSecondMs = nowMs div 1000 * 1000 + 1000
            in case ho_next host cron nextSecondMs of
                 Inl err \<Rightarrow> Inl err
               | Inr retry \<Rightarrow>
                   if (case retry of Some retryMs \<Rightarrow> nowMs < retryMs | None \<Rightarrow> False) then Inr retry
                   else
                     let tomorrowMs = setUTCHours 24 0 0 0 nowMs
                     in case ho_next host cron tomorrowMs of
                          Inl err \<Rightarrow> Inl err
                        | Inr retry2 \<Rightarrow>
                            if (case retry2 of Some retry2Ms \<Rightarrow> nowMs < retry2Ms | None \<Rightarrow> False)
                            then Inr retry2 else Inr None
          else Inr (Some nextMs))"

definition computeNextRunAtMs ::
  "'c CronHost \<Rightarrow> (string, 'c) jsmap \<Rightarrow> CronSchedule \<Rightarrow> int \<Rightarrow> int option outcome \<times> (string, 'c) jsmap" where
  "computeNextRunAtMs host cache schedule nowMs =
     (case schedule of
        AtSchedule text \<Rightarrow>
          (Inr (case parseAbsoluteTimeMs (ho_parseDate host) text of
             None \<Rightarrow> None | Some atMs \<Rightarrow> if nowMs < atMs then Some atMs else None), cache)
      | EverySchedule everyMs anchorMs \<Rightarrow>
          (Inr (case coerceFiniteScheduleNumber everyMs of
             None \<Rightarrow> None
           | Some everyMsRaw \<Rightarrow>
               let everyMs = max 1 \<lfloor>everyMsRaw\<rfloor>;
                   anchorRaw = coerceFiniteScheduleNumber anchorMs;
                   anchor = max 0 \<lfloor>coalesce anchorRaw (of_int nowMs)\<rfloor>
               in Some (next_every everyMs anchor nowMs)), cache)
      | OnExitSchedule _ _ \<Rightarrow> (Inr None, cache)
      | CronExprSchedule expr tz _ \<Rightarrow>
          (case resolveCronFromSchedule host cache tz expr of
             (Inl err, cache) \<Rightarrow> (Inl err, cache)
           | (Inr None, cache) \<Rightarrow> (Inr None, cache)
           | (Inr (Some cron), cache) \<Rightarrow> (next_cron host cron nowMs, cache)))"

definition previous_cron :: "'c CronHost \<Rightarrow> 'c \<Rightarrow> int \<Rightarrow> int option outcome" where
  "previous_cron host cron nowMs =
     (case ho_previous host cron nowMs of
        Inl err \<Rightarrow> Inl err
      | Inr None \<Rightarrow> Inr None
      | Inr (Some previousMs) \<Rightarrow> Inr (if nowMs \<le> previousMs then None else Some previousMs))"

definition computePreviousRunAtMs ::
  "'c CronHost \<Rightarrow> (string, 'c) jsmap \<Rightarrow> CronSchedule \<Rightarrow> int \<Rightarrow> int option outcome \<times> (string, 'c) jsmap" where
  "computePreviousRunAtMs host cache schedule nowMs =
     (case schedule of
        CronExprSchedule expr tz _ \<Rightarrow>
          (case resolveCronFromSchedule host cache tz expr of
             (Inl err, cache) \<Rightarrow> (Inl err, cache)
           | (Inr None, cache) \<Rightarrow> (Inr None, cache)
           | (Inr (Some cron), cache) \<Rightarrow> (previous_cron host cron nowMs, cache))
      | _ \<Rightarrow> (Inr None, cache))"

section \<open>Stagger windows\<close>

definition DEFAULT_TOP_OF_HOUR_STAGGER_MS :: int where "DEFAULT_TOP_OF_HOUR_STAGGER_MS = 5 * 60 * 1000"

text \<open>The parts of a text between runs of white space, empty ones left out.\<close>

fun words :: "string \<Rightarrow> string \<Rightarrow> string list" where
  "words w [] = (if w = [] then [] else [w])"
| "words w (c # s) =
     (if js_white_space c then (if w = [] then words [] s else w # words [] s) else words (w @ [c]) s)"

definition parseCronFields :: "string \<Rightarrow> string list" where
  "parseCronFields expr = words [] (js_trim expr)"

text \<open>A number or a range of numbers with an optional step, or a wildcard with an optional step.\<close>

definition optional_step :: "string \<Rightarrow> bool" where
  "optional_step s \<longleftrightarrow>
     s = [] \<or> (case s of c # ds \<Rightarrow> c = CHR ''/'' \<and> ds \<noteq> [] \<and> list_all is_digit ds | [] \<Rightarrow> False)"

definition HOUR_LIST_PART :: "string \<Rightarrow> bool" where
  "HOUR_LIST_PART part \<longleftrightarrow>
     (let a = takeWhile is_digit part; r = dropWhile is_digit part
      in a \<noteq> [] \<and>
         (optional_step r \<or>
          (case r of
             c # t \<Rightarrow> c = CHR ''-'' \<and> takeWhile is_digit t \<noteq> [] \<and> optional_step (dropWhile is_digit t)
           | [] \<Rightarrow> False))) \<or>
     (case part of c # r \<Rightarrow> c \<in> set ''*?'' \<and> optional_step r | [] \<Rightarrow> False)"

definition hasRecurringWildcardHour :: "string \<Rightarrow> bool" where
  "hasRecurringWildcardHour part =
     (let parts = js_split (CHR '','') part
      in list_all HOUR_LIST_PART parts \<and>
         list_ex (\<lambda>p. js_startsWith p ''*'' \<or> js_startsWith p ''?'') parts)"

definition isRecurringTopOfHourCronExpr :: "string \<Rightarrow> bool" where
  "isRecurringTopOfHourCronExpr expr =
     (case parseCronFields expr of
        [minuteField, hourField, _, _, _] \<Rightarrow> minuteField = ''0'' \<and> hasRecurringWildcardHour hourField
      | [secondField, minuteField, hourField, _, _, _] \<Rightarrow>
          secondField = ''0'' \<and> minuteField = ''0'' \<and> hasRecurringWildcardHour hourField
      | _ \<Rightarrow> False)"

definition normalizeCronStaggerMs :: "unknown_value \<Rightarrow> int option" where
  "normalizeCronStaggerMs raw =
     (let numeric = (case raw of
            UNumber n \<Rightarrow> n
          | UString s \<Rightarrow> if js_trim s \<noteq> [] then coalesce (parseStrictNonNegativeInteger raw) NaN else NaN
          | UOther \<Rightarrow> NaN)
      in case numeric of
           Fin q \<Rightarrow> (let normalized = max 0 \<lfloor>q\<rfloor>
             in if normalized \<le> max_safe_integer then Some normalized else None)
         | _ \<Rightarrow> None)"

definition resolveDefaultCronStaggerMs :: "string \<Rightarrow> int option" where
  "resolveDefaultCronStaggerMs expr =
     (if isRecurringTopOfHourCronExpr expr then Some DEFAULT_TOP_OF_HOUR_STAGGER_MS else None)"

definition resolveCronStaggerMs :: "unknown_value \<Rightarrow> unknown_value \<Rightarrow> int" where
  "resolveCronStaggerMs expr staggerMs =
     (case normalizeCronStaggerMs staggerMs of
        Some explicit \<Rightarrow> explicit
      | None \<Rightarrow>
          let cronExpr = (case expr of UString s \<Rightarrow> s | _ \<Rightarrow> [])
          in coalesce (resolveDefaultCronStaggerMs cronExpr) 0)"

section \<open>The cache does not show\<close>

lemma evicting_first_cache:
  assumes "0 < limit"
  shows "memo_cache (store_after_evicting limit) limit"
proof
  fix e :: "'a \<times> 'b" and k v m
  show "e \<in> set (store_after_evicting limit k v m) \<Longrightarrow> e \<in> set m \<or> e = (k, v)"
    by (auto simp: store_after_evicting_def evict_oldest_def split: if_splits
        dest!: set_map_put_subset in_set_dropD)
  show "length (m :: ('a, 'b) jsmap) \<le> limit \<Longrightarrow> length (store_after_evicting limit k v m) \<le> limit"
    using assms by (auto simp: store_after_evicting_def evict_oldest_def length_map_put)
qed

interpretation cron_cache: memo_cache "store_after_evicting CRON_EVAL_CACHE_MAX" CRON_EVAL_CACHE_MAX
  by (rule evicting_first_cache) (simp add: CRON_EVAL_CACHE_MAX_def)

text \<open>An entry belongs to a time zone without a NUL character, so that its key says which expression
  and zone it was compiled from.\<close>

definition compiled_entry :: "'c CronHost \<Rightarrow> string \<Rightarrow> 'c \<Rightarrow> bool" where
  "compiled_entry host key c \<longleftrightarrow>
     (\<exists>timezone expr. CHR 0x00 \<notin> set timezone \<and> key = cron_cache_key timezone expr \<and>
        ho_compile host expr timezone = Inr c)"

definition cron_cache_ok :: "'c CronHost \<Rightarrow> (string, 'c) jsmap \<Rightarrow> bool" where
  "cron_cache_ok host cache \<longleftrightarrow>
     memo_ok (compiled_entry host) cache \<and> length cache \<le> CRON_EVAL_CACHE_MAX"

definition plain_timezone :: "'c CronHost \<Rightarrow> CronSchedule \<Rightarrow> bool" where
  "plain_timezone host schedule =
     (case schedule of CronExprSchedule _ tz _ \<Rightarrow> CHR 0x00 \<notin> set (resolveCronTimezone host tz) | _ \<Rightarrow> True)"

lemma memo_ok_subset: "memo_ok correct m \<Longrightarrow> set m' \<subseteq> set m \<Longrightarrow> memo_ok correct m'"
  by (auto simp: memo_ok_def list_all_iff)

lemma cached_cron:
  assumes "cron_cache_ok host cache" "CHR 0x00 \<notin> set timezone"
  shows "fst (resolveCachedCron host cache expr timezone) = ho_compile host expr timezone"
    and "cron_cache_ok host (snd (resolveCachedCron host cache expr timezone))"
proof -
  let ?key = "cron_cache_key timezone expr"
  have ok: "memo_ok (compiled_entry host) cache" "length cache \<le> CRON_EVAL_CACHE_MAX"
    using assms(1) by (simp_all add: cron_cache_ok_def)
  have hit: "ho_compile host expr timezone = Inr c" if "compiled_entry host ?key c" for c
    using that assms(2) separator_inj [OF assms(2)] by (auto simp: compiled_entry_def cron_cache_key_def)
  have new: "compiled_entry host ?key c" if "ho_compile host expr timezone = Inr c" for c
    using that assms(2) by (auto simp: compiled_entry_def)
  have "fst (resolveCachedCron host cache expr timezone) = ho_compile host expr timezone \<and>
      cron_cache_ok host (snd (resolveCachedCron host cache expr timezone))"
  proof (cases "map_get cache ?key")
    case (Some c)
    have c: "compiled_entry host ?key c" using memo_ok_hit [OF ok(1) Some] .
    have entries: "set (map_put ?key c (map_del ?key cache)) \<subseteq> set cache"
      using Some by (auto simp: map_del_def dest!: set_map_put_subset map_get_Some_in)
    have "length (map_del ?key cache) < length cache" using map_get_Some_in [OF Some] by (rule map_del_shorter)
    then have len: "length (map_put ?key c (map_del ?key cache)) \<le> length cache" by (simp add: length_map_put)
    show ?thesis
      using Some ok hit [OF c] memo_ok_subset [OF ok(1) entries] len
      by (simp add: resolveCachedCron_def Let_def cron_cache_ok_def)
  next
    case None
    show ?thesis
    proof (cases "ho_compile host expr timezone")
      case (Inl err)
      have "set (evict_oldest CRON_EVAL_CACHE_MAX cache) \<subseteq> set cache"
        by (auto simp: evict_oldest_def dest: in_set_dropD)
      with None Inl ok show ?thesis
        by (auto simp: resolveCachedCron_def Let_def cron_cache_ok_def evict_oldest_def intro: memo_ok_subset)
    next
      case (Inr c)
      with None ok new [OF Inr] show ?thesis
        by (simp add: resolveCachedCron_def Let_def cron_cache_ok_def cron_cache.store_ok cron_cache.store_cap)
    qed
  qed
  then show "fst (resolveCachedCron host cache expr timezone) = ho_compile host expr timezone"
    and "cron_cache_ok host (snd (resolveCachedCron host cache expr timezone))" by auto
qed

lemma empty_cache_ok [simp]: "cron_cache_ok host []"
  by (simp add: cron_cache_ok_def)

text \<open>The two halves of the result.\<close>

lemma resolve_parts:
  "fst (resolveCronFromSchedule host cache tz expr) =
     (case expr of
        UString s \<Rightarrow> if js_trim s = [] then Inr None
          else map_sum (\<lambda>e. e) Some (fst (resolveCachedCron host cache (js_trim s) (resolveCronTimezone host tz)))
      | _ \<Rightarrow> Inl ''Error: invalid cron schedule: expr is required'')"
  "snd (resolveCronFromSchedule host cache tz expr) =
     (case expr of
        UString s \<Rightarrow> if js_trim s = [] then cache
          else snd (resolveCachedCron host cache (js_trim s) (resolveCronTimezone host tz))
      | _ \<Rightarrow> cache)"
  by (simp_all add: resolveCronFromSchedule_def Let_def split: unknown_value.split prod.split sum.split)

lemma cached_schedule:
  assumes "cron_cache_ok host cache" "CHR 0x00 \<notin> set (resolveCronTimezone host tz)"
  shows "fst (resolveCronFromSchedule host cache tz expr) = fst (resolveCronFromSchedule host [] tz expr)"
    and "cron_cache_ok host (snd (resolveCronFromSchedule host cache tz expr))"
  using cached_cron [OF assms] cached_cron(1) [where host = host, OF empty_cache_ok assms(2)] assms(1)
  by (simp_all add: resolve_parts split: unknown_value.split)

lemma compute_parts:
  "fst (computeNextRunAtMs host cache (CronExprSchedule expr tz st) nowMs) =
     (case fst (resolveCronFromSchedule host cache tz expr) of
        Inl err \<Rightarrow> Inl err | Inr None \<Rightarrow> Inr None | Inr (Some cron) \<Rightarrow> next_cron host cron nowMs)"
  "snd (computeNextRunAtMs host cache (CronExprSchedule expr tz st) nowMs) =
     snd (resolveCronFromSchedule host cache tz expr)"
  "fst (computePreviousRunAtMs host cache (CronExprSchedule expr tz st) nowMs) =
     (case fst (resolveCronFromSchedule host cache tz expr) of
        Inl err \<Rightarrow> Inl err | Inr None \<Rightarrow> Inr None | Inr (Some cron) \<Rightarrow> previous_cron host cron nowMs)"
  "snd (computePreviousRunAtMs host cache (CronExprSchedule expr tz st) nowMs) =
     snd (resolveCronFromSchedule host cache tz expr)"
  by (simp_all add: computeNextRunAtMs_def computePreviousRunAtMs_def
      split: prod.split sum.split option.split)

text \<open>The results of the two operations as a caller sees them, whatever the cache holds.\<close>

definition next_run :: "'c CronHost \<Rightarrow> CronSchedule \<Rightarrow> int \<Rightarrow> int option outcome" where
  "next_run host schedule nowMs = fst (computeNextRunAtMs host [] schedule nowMs)"

definition previous_run :: "'c CronHost \<Rightarrow> CronSchedule \<Rightarrow> int \<Rightarrow> int option outcome" where
  "previous_run host schedule nowMs = fst (computePreviousRunAtMs host [] schedule nowMs)"

text \<open>C27: The bounded cache of compiled expressions is transparent: from any cache that is the result
  of earlier calls, the next and the previous run are those computed without a cache, and the
  cache stays within its 512 entries, each of them the compilation of the expression and time
  zone in its key.\<close>

theorem cron_cache_transparent:
  assumes "cron_cache_ok host cache" "plain_timezone host schedule"
  shows "fst (computeNextRunAtMs host cache schedule nowMs) = next_run host schedule nowMs \<and>
    fst (computePreviousRunAtMs host cache schedule nowMs) = previous_run host schedule nowMs \<and>
    cron_cache_ok host (snd (computeNextRunAtMs host cache schedule nowMs)) \<and>
    cron_cache_ok host (snd (computePreviousRunAtMs host cache schedule nowMs))"
proof (cases schedule)
  case (CronExprSchedule expr tz st)
  with assms(2) have "CHR 0x00 \<notin> set (resolveCronTimezone host tz)" by (simp add: plain_timezone_def)
  note cached = cached_schedule [OF assms(1) this]
  show ?thesis
    unfolding CronExprSchedule compute_parts next_run_def previous_run_def cached(1) by (simp add: cached(2))
qed (use assms(1) in \<open>simp_all add: computeNextRunAtMs_def computePreviousRunAtMs_def
       next_run_def previous_run_def\<close>)

section \<open>Every run lies ahead\<close>

lemma next_every_least:
  assumes "0 < e"
  shows "nowMs < next_every e a nowMs" "\<exists>k \<ge> 0. next_every e a nowMs = a + k * e"
    "0 \<le> k \<Longrightarrow> nowMs < a + k * e \<Longrightarrow> next_every e a nowMs \<le> a + k * e"
proof -
  have d: "e * ((nowMs - a) div e) \<le> nowMs - a" "nowMs - a < e * ((nowMs - a) div e) + e"
    using assms by (rule div_bounds)+
  show "nowMs < next_every e a nowMs" using d by (simp add: next_every_def Let_def algebra_simps)
  show "\<exists>k \<ge> 0. next_every e a nowMs = a + k * e"
  proof (cases "nowMs < a")
    case False
    then have "0 \<le> (nowMs - a) div e" using assms by (simp add: pos_imp_zdiv_nonneg_iff)
    with False show ?thesis
      by (intro exI [of _ "(nowMs - a) div e + 1"]) (simp add: next_every_def Let_def)
  qed (simp add: next_every_def exI [of _ 0])
  assume k: "0 \<le> k" "nowMs < a + k * e"
  show "next_every e a nowMs \<le> a + k * e"
  proof (cases "nowMs < a")
    case False
    have "e * ((nowMs - a) div e) < e * k" using k(2) d(1) by (simp add: mult.commute)
    then have "(nowMs - a) div e + 1 \<le> k" using assms by simp
    then have "((nowMs - a) div e + 1) * e \<le> k * e" using assms by (intro mult_right_mono) simp_all
    with False show ?thesis by (simp add: next_every_def Let_def)
  qed (use k assms in \<open>simp add: next_every_def\<close>)
qed

lemma next_cron_future: "next_cron host cron nowMs = Inr (Some r) \<Longrightarrow> nowMs < r"
  by (auto simp: next_cron_def Let_def split: sum.splits option.splits if_splits)

lemma next_run_ahead:
  assumes "next_run host schedule nowMs = Inr (Some r)"
  shows "nowMs < r"
proof (cases schedule)
  case (EverySchedule everyMs anchorMs)
  with assms show ?thesis
    by (auto simp: next_run_def computeNextRunAtMs_def Let_def intro: next_every_least split: option.splits)
next
  case (CronExprSchedule expr tz st)
  with assms next_cron_future show ?thesis
    by (auto simp: next_run_def compute_parts split: sum.splits option.splits)
qed (use assms in \<open>auto simp: next_run_def computeNextRunAtMs_def split: option.splits if_splits\<close>)

lemma previous_run_behind:
  assumes "previous_run host schedule nowMs = Inr (Some r)"
  shows "r < nowMs"
proof (cases schedule)
  case (CronExprSchedule expr tz st)
  with assms show ?thesis
    by (auto simp: previous_run_def compute_parts previous_cron_def split: sum.splits option.splits if_splits)
qed (use assms in \<open>simp_all add: previous_run_def computePreviousRunAtMs_def\<close>)

section \<open>Expressions as sets of slots\<close>

text \<open>What the package documents of a compiled expression that fires at the times in \<open>S\<close>: whole
  seconds, the next one after a time, and the last one before the second of a time.\<close>

definition next_slot :: "int set \<Rightarrow> int \<Rightarrow> int option \<Rightarrow> bool" where
  "next_slot S t r \<longleftrightarrow>
     (case r of
        Some s \<Rightarrow> s \<in> S \<and> t < s \<and> (\<forall>s' \<in> S. t < s' \<longrightarrow> s \<le> s')
      | None \<Rightarrow> \<forall>s' \<in> S. s' \<le> t)"

definition last_slot :: "int set \<Rightarrow> int \<Rightarrow> int option \<Rightarrow> bool" where
  "last_slot S t r \<longleftrightarrow>
     (case r of
        Some s \<Rightarrow> s \<in> S \<and> s < t \<and> (\<forall>s' \<in> S. s' < t \<longrightarrow> s' \<le> s)
      | None \<Rightarrow> \<forall>s' \<in> S. t \<le> s')"

definition second_of :: "int \<Rightarrow> int" where "second_of t = t div 1000 * 1000"

definition fires_at :: "'c CronHost \<Rightarrow> 'c \<Rightarrow> int set \<Rightarrow> bool" where
  "fires_at host cron S \<longleftrightarrow>
     (\<forall>s \<in> S. second_of s = s) \<and>
     (\<forall>t. \<exists>r. ho_next host cron t = Inr r \<and> next_slot S t r) \<and>
     (\<forall>t. \<exists>r. ho_previous host cron t = Inr r \<and> last_slot S (second_of t) r)"

definition schedule_slots :: "'c CronHost \<Rightarrow> CronSchedule \<Rightarrow> int set \<Rightarrow> bool" where
  "schedule_slots host schedule S \<longleftrightarrow>
     (\<exists>expr tz st cron. schedule = CronExprSchedule (UString expr) tz st \<and> js_trim expr \<noteq> [] \<and>
        ho_compile host (js_trim expr) (resolveCronTimezone host tz) = Inr cron \<and> fires_at host cron S)"

lemma next_slot_unique: "next_slot S t r \<Longrightarrow> next_slot S t r' \<Longrightarrow> r = r'"
  by (force simp: next_slot_def split: option.splits)

lemma resolve_compiled:
  "js_trim expr \<noteq> [] \<Longrightarrow> ho_compile host (js_trim expr) (resolveCronTimezone host tz) = Inr cron \<Longrightarrow>
     fst (resolveCronFromSchedule host [] tz (UString expr)) = Inr (Some cron)"
  by (simp add: resolve_parts resolveCachedCron_def Let_def map_get_None_iff)

text \<open>Under that contract no retry is needed, and the two operations give the neighbouring slots.\<close>

lemma next_run_slots:
  assumes "schedule_slots host schedule S"
  shows "\<exists>r. next_run host schedule t = Inr r \<and> next_slot S t r"
proof -
  from assms obtain expr tz st cron where c: "schedule = CronExprSchedule (UString expr) tz st"
      "js_trim expr \<noteq> []" "ho_compile host (js_trim expr) (resolveCronTimezone host tz) = Inr cron"
    and "fires_at host cron S"
    by (auto simp: schedule_slots_def)
  then obtain r where r: "ho_next host cron t = Inr r" "next_slot S t r"
    unfolding fires_at_def by blast
  then have "next_cron host cron t = Inr r"
    by (auto simp: next_cron_def next_slot_def split: option.splits)
  then have "next_run host schedule t = Inr r"
    by (simp add: next_run_def c(1) compute_parts resolve_compiled [OF c(2,3)])
  with r(2) show ?thesis by blast
qed

lemma previous_run_slots:
  assumes "schedule_slots host schedule S"
  shows "\<exists>r. previous_run host schedule t = Inr r \<and> last_slot S (second_of t) r"
proof -
  from assms obtain expr tz st cron where c: "schedule = CronExprSchedule (UString expr) tz st"
      "js_trim expr \<noteq> []" "ho_compile host (js_trim expr) (resolveCronTimezone host tz) = Inr cron"
    and "fires_at host cron S"
    by (auto simp: schedule_slots_def)
  then obtain r where r: "ho_previous host cron t = Inr r" "last_slot S (second_of t) r"
    unfolding fires_at_def by blast
  have "second_of t \<le> t" using div_bounds(1) [of 1000 t] by (simp add: second_of_def mult.commute)
  with r have "previous_cron host cron t = Inr r"
    by (auto simp: previous_cron_def last_slot_def split: option.splits)
  then have "previous_run host schedule t = Inr r"
    by (simp add: previous_run_def c(1) compute_parts resolve_compiled [OF c(2,3)])
  with r(2) show ?thesis by blast
qed

section \<open>Properties\<close>

text \<open>C24: An interval schedule runs on the grid of its anchor: the next run is the first time after now
  that lies a whole number of intervals after the anchor, the anchor itself included; the
  interval is at least one millisecond, whatever number is stored for it.\<close>

theorem every_runs_on_grid:
  fixes anchorMs :: unknown_value and nowMs :: int
  assumes "coerceFiniteScheduleNumber everyMs = Some q"
  defines "interval \<equiv> max 1 \<lfloor>q\<rfloor>"
    and "anchor \<equiv> max 0 \<lfloor>coalesce (coerceFiniteScheduleNumber anchorMs) (of_int nowMs)\<rfloor>"
  shows "\<exists>run. fst (computeNextRunAtMs host cache (EverySchedule everyMs anchorMs) nowMs) = Inr (Some run) \<and>
    nowMs < run \<and> (\<exists>k \<ge> 0. run = anchor + k * interval) \<and>
    (\<forall>k \<ge> 0. nowMs < anchor + k * interval \<longrightarrow> run \<le> anchor + k * interval)"
proof -
  have "0 < interval" by (simp add: interval_def)
  note least = next_every_least [OF this]
  show ?thesis
  proof (rule exI [of _ "next_every interval anchor nowMs"], intro conjI allI impI)
    show "fst (computeNextRunAtMs host cache (EverySchedule everyMs anchorMs) nowMs) =
        Inr (Some (next_every interval anchor nowMs))"
      using assms(1) by (simp add: computeNextRunAtMs_def interval_def anchor_def Let_def)
  qed (fact least)+
qed

text \<open>Whatever the expression package answers, a run that is scheduled lies strictly in the future
  and a run that is reported as the previous one strictly in the past: a stale answer, as the
  package gives for some time zones, is retried and at worst dropped.\<close>

theorem runs_strictly_ahead:
  "(next_run host schedule nowMs = Inr (Some run) \<longrightarrow> nowMs < run) \<and>
   (previous_run host schedule nowMs = Inr (Some past) \<longrightarrow> past < nowMs)"
  using next_run_ahead previous_run_behind by blast

text \<open>A package that rolls back a year on its first answer.\<close>

definition stale_host :: "unit CronHost" where
  "stale_host = \<lparr>ho_compile = (\<lambda>_ _. Inr ()),
     ho_next = (\<lambda>_ t. Inr (Some (if t mod 1000 = 0 then t + 60000 else t - 31536000000))),
     ho_previous = (\<lambda>_ t. Inr (Some (t - 60000))), ho_timezone = ''UTC'',
     ho_parseDate = (\<lambda>_. None), ho_sha256 = (\<lambda>_. [0, 0, 0, 0])\<rparr>"

theorem runs_strictly_ahead_witness:
  "next_run stale_host (CronExprSchedule (UString ''* * * * *'') None UOther) 1700000000500 =
     Inr (Some 1700000061000) \<and> (1700000000500 :: int) < 1700000061000"
proof -
  have "next_run stale_host (CronExprSchedule (UString ''* * * * *'') None UOther) 1700000000500 =
     Inr (Some 1700000061000)" by code_simp
  with runs_strictly_ahead [of stale_host "CronExprSchedule (UString ''* * * * *'') None UOther"
      1700000000500 1700000061000 0] show ?thesis by blast
qed

theorem every_runs_on_grid_witness:
  "\<exists>run. fst (computeNextRunAtMs stale_host [] (EverySchedule (UNumber (num 60000)) (UNumber (num 500))) 61000) =
     Inr (Some run) \<and> 61000 < run \<and> (\<exists>k \<ge> 0. run = 500 + k * 60000) \<and>
     (\<forall>k \<ge> 0. 61000 < 500 + k * 60000 \<longrightarrow> run \<le> 500 + k * 60000)"
proof -
  have "coerceFiniteScheduleNumber (UNumber (num i)) = Some (of_int i)" if "\<bar>i\<bar> \<le> 100000" for i
    using that by (simp add: coerceFiniteScheduleNumber_def parseStrictFiniteNumber_def
        max_safe_integer_def flip: of_int_abs)
  from this [of 60000] this [of 500] show ?thesis
    using every_runs_on_grid [of "UNumber (num 60000)" 60000 stale_host "[]" "UNumber (num 500)" 61000] by simp
qed

theorem cron_cache_transparent_witness:
  "fst (computeNextRunAtMs stale_host [(cron_cache_key ''UTC'' ''* * * * *'', ())]
      (CronExprSchedule (UString ''* * * * *'') None UOther) 0) =
    next_run stale_host (CronExprSchedule (UString ''* * * * *'') None UOther) 0"
proof -
  have "cron_cache_ok stale_host [(cron_cache_key ''UTC'' ''* * * * *'', ())]"
    by (simp add: cron_cache_ok_def memo_ok_def compiled_entry_def CRON_EVAL_CACHE_MAX_def stale_host_def)
      (rule exI [of _ "''UTC''"], simp, rule exI [of _ "''* * * * *''"], rule refl)
  moreover have "plain_timezone stale_host (CronExprSchedule (UString ''* * * * *'') None UOther)"
    by code_simp
  ultimately show ?thesis
    using cron_cache_transparent [of stale_host "[(cron_cache_key ''UTC'' ''* * * * *'', ())]"
        "CronExprSchedule (UString ''* * * * *'') None UOther" 0] by blast
qed

end
