(* ===== verification/Cron_Jobs.thy ===== *)
theory Cron_Jobs
  imports Cron_Schedule
begin

text \<open>
  The scheduling half of \<^verbatim>\<open>src/cron/service/jobs.ts\<close>: the state of a job, the spread
  of the jobs of one slot, the next run of a job, error backoff, the repair of stored times and
  the passes over the store that recompute them. The operations of \<^verbatim>\<open>Cron_Schedule\<close> are
  used through \<open>next_run\<close> and \<open>previous_run\<close>, which leave the transparent cache out.
  Stored times and counters are whole numbers, as the columns of the store hold them; a stored
  job always has a state. Not modelled here: creating, patching and validating jobs.
\<close>

section \<open>Jobs\<close>

datatype CronRunStatus = RunOk | RunError | RunSkipped

datatype CronPayload = SystemEventPayload string | AgentTurnPayload string | CommandPayload "string list"

datatype CronSessionTarget = TargetMain | TargetIsolated | TargetCurrent | TargetSession string

datatype CronWakeMode = WakeNextHeartbeat | WakeNow

record CronTrigger =
  tr_script :: string
  tr_once :: "bool option"

record CronDelivery =
  de_mode :: string
  de_channel :: "string option"
  de_to :: "string option"
  de_accountId :: "string option"
  de_bestEffort :: "bool option"

record CronFailureAlert =
  fa_after :: unknown_value
  fa_channel :: "string option"
  fa_to :: "string option"
  fa_cooldownMs :: unknown_value
  fa_includeSkipped :: "bool option"
  fa_mode :: "string option"
  fa_accountId :: "string option"

text \<open>The alert setting of a job: unset, switched off, or a policy.\<close>

datatype FailureAlertSetting = AlertUnset | AlertOff | AlertPolicy CronFailureAlert

record CronJobState =
  st_nextRunAtMs :: "int option"
  st_runningAtMs :: "int option"
  st_lastRunAtMs :: "int option"
  st_lastRunStatus :: "CronRunStatus option"
  st_lastStatus :: "CronRunStatus option"
  st_lastError :: "string option"
  st_lastErrorReason :: "string option"
  st_lastDurationMs :: "int option"
  st_consecutiveErrors :: "int option"
  st_consecutiveSkipped :: "int option"
  st_lastFailureAlertAtMs :: "int option"
  st_scheduleErrorCount :: "int option"
  st_lastTriggerEvalAtMs :: "int option"
  st_triggerEvalCount :: "int option"
  st_lastTriggerFireAtMs :: "int option"
  st_triggerState :: "string option"

record CronJob =
  jb_id :: string
  jb_name :: string
  jb_agentId :: "string option"
  jb_sessionKey :: "string option"
  jb_enabled :: "bool option"
  jb_deleteAfterRun :: "bool option"
  jb_createdAtMs :: "int option"
  jb_updatedAtMs :: int
  jb_schedule :: CronSchedule
  jb_sessionTarget :: CronSessionTarget
  jb_wakeMode :: CronWakeMode
  jb_payload :: CronPayload
  jb_trigger :: "CronTrigger option"
  jb_delivery :: "CronDelivery option"
  jb_failureAlert :: FailureAlertSetting
  jb_state :: CronJobState

text \<open>A list of delays is not empty: the configuration schema refuses an empty one.\<close>

datatype DelaySchedule = Delays int "int list"

definition delays :: "DelaySchedule \<Rightarrow> int list" where
  "delays s = (case s of Delays d ds \<Rightarrow> d # ds)"

record CronConfig =
  cc_maxAttempts :: "int option"
  cc_backoffMs :: "DelaySchedule option"
  cc_retryOn :: "string list option"
  cc_triggerMinIntervalMs :: unknown_value
  cc_failureAlertEnabled :: "bool option"
  cc_failureAlert :: "CronFailureAlert option"

text \<open>What the service tells the rest of the gateway.\<close>

datatype CronEffect =
    AutoDisabledEvent string string int string
  | AutoDisabledHeartbeat string
  | FailureAlert string CronRunStatus int "string option" string "string option"
  | JobFinished string CronRunStatus

record CronServiceState =
  cs_config :: CronConfig
  cs_store :: "CronJob list option"
  cs_pendingCatchupDeferralJobIds :: "string list"

abbreviation set_next :: "int option \<Rightarrow> CronJob \<Rightarrow> CronJob" where
  "set_next n job \<equiv> job\<lparr>jb_state := (jb_state job)\<lparr>st_nextRunAtMs := n\<rparr>\<rparr>"

section \<open>Stored times and backoff\<close>

definition STUCK_RUN_MS :: int where "STUCK_RUN_MS = 2 * 60 * 60 * 1000"
definition STAGGER_OFFSET_CACHE_MAX :: nat where "STAGGER_OFFSET_CACHE_MAX = 4096"

definition DEFAULT_ERROR_BACKOFF_SCHEDULE_MS :: DelaySchedule where
  "DEFAULT_ERROR_BACKOFF_SCHEDULE_MS =
     Delays 30000 [60000, 5 * 60000, 15 * 60000, 60 * 60000]"

definition hasScheduledNextRunAtMs :: "int option \<Rightarrow> bool" where
  "hasScheduledNextRunAtMs v = (case v of Some n \<Rightarrow> 0 < n | None \<Rightarrow> False)"

definition resolveJobLastRunStatus :: "CronJob \<Rightarrow> CronRunStatus option" where
  "resolveJobLastRunStatus job =
     coalesce2 (st_lastRunStatus (jb_state job)) (st_lastStatus (jb_state job))"

definition errorBackoffMs :: "int \<Rightarrow> DelaySchedule \<Rightarrow> int" where
  "errorBackoffMs consecutiveErrors scheduleMs =
     (let idx = min (consecutiveErrors - 1) (int (length (delays scheduleMs)) - 1)
      in delays scheduleMs ! nat (max 0 idx))"

definition backoff_schedule :: "CronConfig \<Rightarrow> DelaySchedule" where
  "backoff_schedule config = coalesce (cc_backoffMs config) DEFAULT_ERROR_BACKOFF_SCHEDULE_MS"

definition resolveJobErrorBackoffUntilMs :: "CronJob \<Rightarrow> DelaySchedule \<Rightarrow> int option" where
  "resolveJobErrorBackoffUntilMs job scheduleMs =
     (case st_lastRunAtMs (jb_state job) of
        None \<Rightarrow> None
      | Some lastRunAtMs \<Rightarrow>
          if resolveJobLastRunStatus job \<noteq> Some RunError then None
          else
            let consecutiveErrors = (case st_consecutiveErrors (jb_state job) of
                  Some n \<Rightarrow> max 1 n | None \<Rightarrow> 1);
                lastDurationMs = (case st_lastDurationMs (jb_state job) of
                  Some n \<Rightarrow> max 0 n | None \<Rightarrow> 0);
                lastEndedAtMs = lastRunAtMs + lastDurationMs
            in Some (lastEndedAtMs + errorBackoffMs consecutiveErrors scheduleMs))"

section \<open>Spreading the jobs of a slot\<close>

definition readUInt32BE :: "nat list \<Rightarrow> int" where
  "readUInt32BE digest = int (foldl (\<lambda>n b. n * 256 + b mod 256) 0 (take 4 digest))"

definition offset_key :: "string \<Rightarrow> int \<Rightarrow> string" where
  "offset_key jobId staggerMs = js_string_of_int staggerMs @ CHR '':'' # jobId"

definition resolveStableCronOffsetMs ::
  "'c CronHost \<Rightarrow> (string, int) jsmap \<Rightarrow> string \<Rightarrow> int \<Rightarrow> int \<times> (string, int) jsmap" where
  "resolveStableCronOffsetMs host cache jobId staggerMs =
     (if staggerMs \<le> 1 then (0, cache)
      else
        let cacheKey = offset_key jobId staggerMs
        in case map_get cache cacheKey of
             Some cached \<Rightarrow> (cached, cache)
           | None \<Rightarrow>
               let offset = readUInt32BE (ho_sha256 host jobId) mod staggerMs
               in (offset, store_after_evicting STAGGER_OFFSET_CACHE_MAX cacheKey offset cache))"

text \<open>The offset without the cache, which does not show.\<close>

definition stable_offset :: "'c CronHost \<Rightarrow> string \<Rightarrow> int \<Rightarrow> int" where
  "stable_offset host jobId staggerMs = fst (resolveStableCronOffsetMs host [] jobId staggerMs)"

definition job_offset :: "'c CronHost \<Rightarrow> CronJob \<Rightarrow> int" where
  "job_offset host job =
     (case jb_schedule job of
        CronExprSchedule expr _ staggerMs \<Rightarrow>
          stable_offset host (jb_id job) (resolveCronStaggerMs expr staggerMs)
      | _ \<Rightarrow> 0)"

fun staggered_next_loop ::
  "'c CronHost \<Rightarrow> CronSchedule \<Rightarrow> int \<Rightarrow> int \<Rightarrow> nat \<Rightarrow> int \<Rightarrow> int option outcome" where
  "staggered_next_loop host schedule offsetMs nowMs 0 cursorMs = Inr None"
| "staggered_next_loop host schedule offsetMs nowMs (Suc attempts) cursorMs =
     (case next_run host schedule cursorMs of
        Inl err \<Rightarrow> Inl err
      | Inr None \<Rightarrow> Inr None
      | Inr (Some baseNext) \<Rightarrow>
          let shifted = baseNext + offsetMs
          in if nowMs < shifted then Inr (Some shifted)
             else staggered_next_loop host schedule offsetMs nowMs attempts
                    (max (cursorMs + 1) (baseNext + 1000)))"

definition is_cron :: "CronJob \<Rightarrow> bool" where
  "is_cron job = (case jb_schedule job of CronExprSchedule _ _ _ \<Rightarrow> True | _ \<Rightarrow> False)"

definition computeStaggeredCronNextRunAtMs :: "'c CronHost \<Rightarrow> CronJob \<Rightarrow> int \<Rightarrow> int option outcome" where
  "computeStaggeredCronNextRunAtMs host job nowMs =
     (if \<not> is_cron job then next_run host (jb_schedule job) nowMs
      else
        let offsetMs = job_offset host job
        in if offsetMs \<le> 0 then next_run host (jb_schedule job) nowMs
           else staggered_next_loop host (jb_schedule job) offsetMs nowMs 4 (max 0 (nowMs - offsetMs)))"

fun staggered_previous_loop ::
  "'c CronHost \<Rightarrow> CronSchedule \<Rightarrow> int \<Rightarrow> int \<Rightarrow> nat \<Rightarrow> int \<Rightarrow> int option outcome" where
  "staggered_previous_loop host schedule offsetMs nowMs 0 cursorMs = Inr None"
| "staggered_previous_loop host schedule offsetMs nowMs (Suc attempts) cursorMs =
     (case previous_run host schedule cursorMs of
        Inl err \<Rightarrow> Inl err
      | Inr None \<Rightarrow> Inr None
      | Inr (Some basePrevious) \<Rightarrow>
          let shifted = basePrevious + offsetMs
          in if shifted \<le> nowMs then Inr (Some shifted)
             else staggered_previous_loop host schedule offsetMs nowMs attempts
                    (max 0 (basePrevious - 1000)))"

definition computeStaggeredCronPreviousRunAtMs ::
  "'c CronHost \<Rightarrow> CronJob \<Rightarrow> int \<Rightarrow> int option outcome" where
  "computeStaggeredCronPreviousRunAtMs host job nowMs =
     (if \<not> is_cron job then Inr None
      else
        let offsetMs = job_offset host job
        in if offsetMs \<le> 0 then previous_run host (jb_schedule job) nowMs
           else staggered_previous_loop host (jb_schedule job) offsetMs nowMs 4 (max 0 (nowMs - offsetMs)))"

definition isStaggeredCronRunAtMs :: "'c CronHost \<Rightarrow> CronJob \<Rightarrow> int \<Rightarrow> bool outcome" where
  "isStaggeredCronRunAtMs host job runAtMs =
     (if \<not> is_cron job then Inr False
      else (case computeStaggeredCronPreviousRunAtMs host job (runAtMs + 1000) of
              Inl err \<Rightarrow> Inl err
            | Inr previous \<Rightarrow> Inr (previous = Some runAtMs)))"

section \<open>Repairing a stored time\<close>

definition isPendingErrorBackoffSlot :: "CronConfig \<Rightarrow> CronJob \<Rightarrow> int \<Rightarrow> int \<Rightarrow> bool" where
  "isPendingErrorBackoffSlot config job nextRunAtMs nowMs =
     (case resolveJobErrorBackoffUntilMs job (backoff_schedule config) of
        None \<Rightarrow> False
      | Some backoffUntilMs \<Rightarrow> nowMs < backoffUntilMs \<and> nextRunAtMs \<le> backoffUntilMs)"

definition is_agent_turn :: "CronJob \<Rightarrow> bool" where
  "is_agent_turn job = (case jb_payload job of AgentTurnPayload _ \<Rightarrow> True | _ \<Rightarrow> False)"

definition shouldRepairFutureCronNextRunAtMs ::
  "'c CronHost \<Rightarrow> CronConfig \<Rightarrow> CronJob \<Rightarrow> int \<Rightarrow> bool" where
  "shouldRepairFutureCronNextRunAtMs host config job nowMs =
     (case st_nextRunAtMs (jb_state job) of
        None \<Rightarrow> False
      | Some nextRun \<Rightarrow>
          if \<not> is_cron job \<or> \<not> hasScheduledNextRunAtMs (Some nextRun) \<or> nextRun \<le> nowMs \<or>
             st_runningAtMs (jb_state job) \<noteq> None
          then False
          else if isPendingErrorBackoffSlot config job nextRun nowMs then False
          else (case computeStaggeredCronNextRunAtMs host job nowMs of
              Inr (Some naturalNext) \<Rightarrow>
               (case isStaggeredCronRunAtMs host job nextRun of
                  Inl _ \<Rightarrow> False
                | Inr isScheduledSlot \<Rightarrow>
                    if isScheduledSlot then False
                    else if nextRun < naturalNext then \<not> is_agent_turn job
                    else if nextRun = naturalNext then False
                    else (case computeStaggeredCronNextRunAtMs host job naturalNext of
                        Inr (Some followingNaturalNext) \<Rightarrow>
                          let naturalIntervalMs = followingNaturalNext - naturalNext
                          in 0 < naturalIntervalMs \<and> followingNaturalNext + naturalIntervalMs \<le> nextRun
                      | _ \<Rightarrow> False))
            | _ \<Rightarrow> False))"

definition resolveEveryAnchorMs :: "unknown_value \<Rightarrow> int option \<Rightarrow> int" where
  "resolveEveryAnchorMs anchorMs fallbackAnchorMs =
     (case coerceFiniteScheduleNumber anchorMs of
        Some q \<Rightarrow> max 0 \<lfloor>q\<rfloor>
      | None \<Rightarrow> (case fallbackAnchorMs of Some n \<Rightarrow> max 0 n | None \<Rightarrow> 0))"

definition findJobOrThrow :: "CronServiceState \<Rightarrow> string \<Rightarrow> CronJob outcome" where
  "findJobOrThrow state jobId =
     (case List.find (\<lambda>j. jb_id j = jobId) (coalesce (cs_store state) []) of
        None \<Rightarrow> Inl (''Error: unknown cron job id: '' @ jobId)
      | Some job \<Rightarrow> Inr job)"

definition isJobEnabled :: "CronJob \<Rightarrow> bool" where
  "isJobEnabled job = coalesce (jb_enabled job) True"

section \<open>The next run of a job\<close>

definition computeJobNextRunAtMs :: "'c CronHost \<Rightarrow> CronJob \<Rightarrow> int \<Rightarrow> int option outcome" where
  "computeJobNextRunAtMs host job nowMs =
     (if \<not> isJobEnabled job then Inr None
      else (case jb_schedule job of
        EverySchedule everyMs anchorMs \<Rightarrow>
         (case coerceFiniteScheduleNumber everyMs of
            None \<Rightarrow> Inr None
          | Some everyMsRaw \<Rightarrow>
              let everyMs = max 1 \<lfloor>everyMsRaw\<rfloor>;
                  nextFromLastRun = (case st_lastRunAtMs (jb_state job) of
                    Some lastRunAtMs \<Rightarrow> if nowMs < lastRunAtMs + everyMs then Some (lastRunAtMs + everyMs) else None
                  | None \<Rightarrow> None)
              in case nextFromLastRun of
                   Some n \<Rightarrow> Inr (Some n)
                 | None \<Rightarrow>
                     let fallbackAnchorMs = coalesce (jb_createdAtMs job) nowMs;
                         anchorMs = resolveEveryAnchorMs anchorMs (Some fallbackAnchorMs)
                     in next_run host (EverySchedule (UNumber (num everyMs)) (UNumber (num anchorMs))) nowMs)
      | AtSchedule text \<Rightarrow>
          let atMs = parseAbsoluteTimeMs (ho_parseDate host) text;
              ran = (case st_lastRunAtMs (jb_state job) of
                Some n \<Rightarrow> if n \<noteq> 0 then Some n else None | None \<Rightarrow> None)
          in (case (resolveJobLastRunStatus job, ran) of
                (Some RunOk, Some lastRunAtMs) \<Rightarrow>
                  Inr (case atMs of Some t \<Rightarrow> if lastRunAtMs < t then Some t else None | None \<Rightarrow> None)
              | _ \<Rightarrow> Inr atMs)
      | _ \<Rightarrow>
          (case computeStaggeredCronNextRunAtMs host job nowMs of
             Inr None \<Rightarrow>
               if is_cron job
               then computeStaggeredCronNextRunAtMs host job (nowMs div 1000 * 1000 + 1000)
               else Inr None
           | result \<Rightarrow> result)))"

definition computeJobPreviousRunAtMs :: "'c CronHost \<Rightarrow> CronJob \<Rightarrow> int \<Rightarrow> int option outcome" where
  "computeJobPreviousRunAtMs host job nowMs =
     (if \<not> isJobEnabled job \<or> \<not> is_cron job then Inr None
      else computeStaggeredCronPreviousRunAtMs host job nowMs)"

definition MAX_SCHEDULE_ERRORS :: int where "MAX_SCHEDULE_ERRORS = 3"

text \<open>The notifications are sent at once or, where the caller collects them, after the store is
  written.\<close>

definition recordScheduleComputeError :: "CronJob \<Rightarrow> string \<Rightarrow> CronJob \<times> CronEffect list" where
  "recordScheduleComputeError job errText =
     (let errorCount = coalesce (st_scheduleErrorCount (jb_state job)) 0 + 1;
          job = job\<lparr>jb_state := (jb_state job)\<lparr>st_scheduleErrorCount := Some errorCount,
            st_nextRunAtMs := None, st_lastError := Some (''schedule error: '' @ errText)\<rparr>\<rparr>
      in if MAX_SCHEDULE_ERRORS \<le> errorCount
         then (job\<lparr>jb_enabled := Some False\<rparr>,
           [AutoDisabledEvent (jb_id job) (jb_name job) errorCount errText, AutoDisabledHeartbeat (jb_id job)])
         else (job, []))"

section \<open>Passes over the store\<close>

definition normalize_anchor :: "CronJob \<Rightarrow> int \<Rightarrow> CronJob \<times> bool" where
  "normalize_anchor job nowMs =
     (case jb_schedule job of
        EverySchedule everyMs anchorMs \<Rightarrow>
          let normalizedAnchorMs = resolveEveryAnchorMs anchorMs (Some (coalesce (jb_createdAtMs job) nowMs))
          in if anchorMs \<noteq> UNumber (num normalizedAnchorMs)
             then (job\<lparr>jb_schedule := EverySchedule everyMs (UNumber (num normalizedAnchorMs))\<rparr>, True)
             else (job, False)
      | _ \<Rightarrow> (job, False))"

text \<open>The job, whether it changed, and whether the pass skips it.\<close>

definition normalizeJobTickState :: "CronJob \<Rightarrow> int \<Rightarrow> CronJob \<times> bool \<times> bool" where
  "normalizeJobTickState job nowMs =
     (let (job, changed) = normalize_anchor job nowMs; st = jb_state job
      in if \<not> isJobEnabled job
         then (job\<lparr>jb_state := st\<lparr>st_nextRunAtMs := None, st_runningAtMs := None\<rparr>\<rparr>,
               changed \<or> st_nextRunAtMs st \<noteq> None \<or> st_runningAtMs st \<noteq> None, True)
         else
           let invalid = (\<not> hasScheduledNextRunAtMs (st_nextRunAtMs st) \<and> st_nextRunAtMs st \<noteq> None);
               st = (if invalid then st\<lparr>st_nextRunAtMs := None\<rparr> else st);
               job = job\<lparr>jb_state := st\<rparr>;
               changed = (changed \<or> invalid)
           in case st_runningAtMs st of
                Some runningAt \<Rightarrow>
                  if STUCK_RUN_MS < nowMs - runningAt
                  then
                    let alreadyExecutedSlot = (case (st_nextRunAtMs st, st_lastRunAtMs st) of
                          (Some nextRun, Some lastRun) \<Rightarrow> 0 < nextRun \<and> nextRun \<le> lastRun
                        | _ \<Rightarrow> False)
                    in (job\<lparr>jb_state := st\<lparr>st_runningAtMs := None\<rparr>\<rparr>, True, \<not> alreadyExecutedSlot)
                  else (job, changed, False)
              | None \<Rightarrow> (job, changed, False))"

text \<open>One pass: the function may change the job and what it passes on to the next one.\<close>

fun walkSchedulableJobs ::
  "(CronJob \<Rightarrow> 's \<Rightarrow> bool \<times> CronJob \<times> 's) \<Rightarrow> int \<Rightarrow> CronJob list \<Rightarrow> 's \<Rightarrow> bool \<times> CronJob list \<times> 's"
where
  "walkSchedulableJobs fn nowMs [] s = (False, [], s)"
| "walkSchedulableJobs fn nowMs (job # jobs) s =
     (let (job, tick_changed, skip) = normalizeJobTickState job nowMs;
          (fn_changed, job, s) = (if skip then (False, job, s) else fn job s);
          (changed, jobs, s) = walkSchedulableJobs fn nowMs jobs s
      in (tick_changed \<or> fn_changed \<or> changed, job # jobs, s))"

definition backoff_floor :: "CronConfig \<Rightarrow> CronJob \<Rightarrow> int option \<Rightarrow> int option" where
  "backoff_floor config job newNext =
     (if (case jb_schedule job of AtSchedule _ \<Rightarrow> False | _ \<Rightarrow> True) \<and>
         resolveJobLastRunStatus job = Some RunError \<and> st_lastRunAtMs (jb_state job) \<noteq> None
      then (case (newNext, resolveJobErrorBackoffUntilMs job (backoff_schedule config)) of
              (Some n, Some backoffFloor) \<Rightarrow> Some (max n backoffFloor)
            | _ \<Rightarrow> newNext)
      else newNext)"

definition recomputeJobNextRunAtMs ::
  "'c CronHost \<Rightarrow> CronConfig \<Rightarrow> CronJob \<Rightarrow> int \<Rightarrow> bool \<times> CronJob \<times> CronEffect list" where
  "recomputeJobNextRunAtMs host config job nowMs =
     (case computeJobNextRunAtMs host job nowMs of
        Inl err \<Rightarrow> (let (job, effects) = recordScheduleComputeError job err in (True, job, effects))
      | Inr computed \<Rightarrow>
          let newNext = backoff_floor config job computed;
              st = jb_state job;
              hadErrors = (case st_scheduleErrorCount st of Some n \<Rightarrow> n \<noteq> 0 | None \<Rightarrow> False);
              changed = (st_nextRunAtMs st \<noteq> newNext \<or> hadErrors);
              st = st\<lparr>st_nextRunAtMs := newNext\<rparr>;
              st = (if hadErrors then st\<lparr>st_scheduleErrorCount := None\<rparr> else st)
          in (changed, job\<lparr>jb_state := st\<rparr>, []))"

definition recompute_step ::
  "'c CronHost \<Rightarrow> CronConfig \<Rightarrow> int \<Rightarrow> CronJob \<Rightarrow> CronEffect list \<Rightarrow> bool \<times> CronJob \<times> CronEffect list" where
  "recompute_step host config now job effects =
     (let nextRun = st_nextRunAtMs (jb_state job);
          isDueOrMissing = (case nextRun of Some n \<Rightarrow> n \<le> 0 \<or> n \<le> now | None \<Rightarrow> True)
      in if isDueOrMissing \<or> shouldRepairFutureCronNextRunAtMs host config job now
         then (let (changed, job, more_effects) = recomputeJobNextRunAtMs host config job now
               in (changed, job, effects @ more_effects))
         else (False, job, effects))"

definition recomputeNextRuns ::
  "'c CronHost \<Rightarrow> CronServiceState \<Rightarrow> int \<Rightarrow> bool \<times> CronServiceState \<times> CronEffect list" where
  "recomputeNextRuns host state nowMs =
     (case cs_store state of
        None \<Rightarrow> (False, state, [])
      | Some jobs \<Rightarrow>
          let (changed, jobs, effects) =
                walkSchedulableJobs (recompute_step host (cs_config state) nowMs) nowMs jobs []
          in (changed, state\<lparr>cs_store := Some jobs\<rparr>, effects))"

record MaintenanceOptions =
  mo_recomputeExpired :: bool
  mo_repairFutureCronNextRunAtMs :: bool

definition maintenance_defaults :: MaintenanceOptions where
  "maintenance_defaults = \<lparr>mo_recomputeExpired = False, mo_repairFutureCronNextRunAtMs = True\<rparr>"

text \<open>Whether an expired time of an enabled job may be advanced: its slot was executed, or it predates
  an active backoff.\<close>

definition expired_slot_spent :: "CronConfig \<Rightarrow> CronJob \<Rightarrow> int \<Rightarrow> int \<Rightarrow> bool" where
  "expired_slot_spent config job now nextRun \<longleftrightarrow>
     (case st_lastRunAtMs (jb_state job) of Some lastRun \<Rightarrow> nextRun \<le> lastRun | None \<Rightarrow> False) \<or>
     (case resolveJobErrorBackoffUntilMs job (backoff_schedule config) of
        Some backoffUntilMs \<Rightarrow> now < backoffUntilMs \<and> nextRun < backoffUntilMs
      | None \<Rightarrow> False)"

definition maintenance_step ::
  "'c CronHost \<Rightarrow> CronConfig \<Rightarrow> MaintenanceOptions \<Rightarrow> int \<Rightarrow> CronJob \<Rightarrow> string list \<times> CronEffect list \<Rightarrow>
     bool \<times> CronJob \<times> string list \<times> CronEffect list" where
  "maintenance_step host config opts now job acc =
     (let (deferralIds, effects) = acc;
          nextRun = st_nextRunAtMs (jb_state job);
          arrived = (jb_id job \<in> set deferralIds \<and>
            (case nextRun of Some n \<Rightarrow> 0 < n \<and> n \<le> now | None \<Rightarrow> False));
          deferralIds = (if arrived then removeAll (jb_id job) deferralIds else deferralIds);
          recompute =
            (case nextRun of
               None \<Rightarrow> True
             | Some n \<Rightarrow>
                 if \<not> 0 < n then True
                 else if mo_repairFutureCronNextRunAtMs opts \<and> jb_id job \<notin> set deferralIds \<and>
                    shouldRepairFutureCronNextRunAtMs host config job now then True
                 else mo_recomputeExpired opts \<and> n \<le> now \<and> st_runningAtMs (jb_state job) = None \<and>
                    expired_slot_spent config job now n)
      in if recompute
         then (let (changed, job, more_effects) = recomputeJobNextRunAtMs host config job now
               in (arrived \<or> changed, job, deferralIds, effects @ more_effects))
         else (arrived, job, deferralIds, effects))"

definition recomputeNextRunsForMaintenance ::
  "'c CronHost \<Rightarrow> MaintenanceOptions \<Rightarrow> CronServiceState \<Rightarrow> int \<Rightarrow>
     bool \<times> CronServiceState \<times> CronEffect list" where
  "recomputeNextRunsForMaintenance host opts state nowMs =
     (case cs_store state of
        None \<Rightarrow> (False, state, [])
      | Some jobs \<Rightarrow>
          let relevant = set (map jb_id (filter isJobEnabled jobs));
              deferralIds = filter (\<lambda>i. i \<in> relevant) (cs_pendingCatchupDeferralJobIds state);
              (changed, jobs, deferralIds, effects) =
                walkSchedulableJobs (maintenance_step host (cs_config state) opts nowMs) nowMs jobs
                  (deferralIds, [])
          in (changed, state\<lparr>cs_store := Some jobs, cs_pendingCatchupDeferralJobIds := deferralIds\<rparr>, effects))"

definition nextWakeAtMs :: "CronServiceState \<Rightarrow> int option" where
  "nextWakeAtMs state =
     (let jobs = coalesce (cs_store state) [];
          enabled = filter (\<lambda>j. isJobEnabled j \<and> hasScheduledNextRunAtMs (st_nextRunAtMs (jb_state j))) jobs
      in case enabled of
           [] \<Rightarrow> None
         | j # js \<Rightarrow>
            (case st_nextRunAtMs (jb_state j) of
               None \<Rightarrow> None
             | Some first \<Rightarrow>
                 Some (foldl (\<lambda>m j. case st_nextRunAtMs (jb_state j) of
                         Some n \<Rightarrow> if 0 < n then min m n else m | None \<Rightarrow> m) first enabled)))"

definition isJobDue :: "CronJob \<Rightarrow> int \<Rightarrow> bool \<Rightarrow> bool" where
  "isJobDue job nowMs forced =
     (if st_runningAtMs (jb_state job) \<noteq> None then False
      else if forced then True
      else isJobEnabled job \<and>
        (case st_nextRunAtMs (jb_state job) of Some n \<Rightarrow> 0 < n \<and> n \<le> nowMs | None \<Rightarrow> False))"

section \<open>Facts on offsets\<close>

interpretation offset_cache: memo_cache "store_after_evicting STAGGER_OFFSET_CACHE_MAX" STAGGER_OFFSET_CACHE_MAX
  by (rule evicting_first_cache) (simp add: STAGGER_OFFSET_CACHE_MAX_def)

text \<open>An offset in the cache is the one of the job and window in its key.\<close>

definition offset_entry :: "'c CronHost \<Rightarrow> string \<Rightarrow> int \<Rightarrow> bool" where
  "offset_entry host key offset \<longleftrightarrow>
     (\<exists>jobId staggerMs. key = offset_key jobId staggerMs \<and> offset = readUInt32BE (ho_sha256 host jobId) mod staggerMs)"

lemma js_string_inj:
  assumes "js_string_of_int i = js_string_of_int j"
  shows "i = j"
proof -
  have "integer_token (js_string_of_int i) = integer_token (js_string_of_int j)"
    by (rule arg_cong [OF assms])
  then show ?thesis unfolding integer_token_string by simp
qed

lemma colon_free_int: "CHR '':'' \<notin> set (js_string_of_int i)"
proof -
  have "CHR '':'' \<notin> set (decimal_digits n)" for n
    using decimal_digits_ok [of n] by (auto simp: list_all_iff is_digit_def)
  then show ?thesis by (simp add: js_string_of_int_def)
qed

lemma offset_key_inj: "offset_key i s = offset_key j t \<Longrightarrow> i = j \<and> s = t"
  using separator_inj [OF colon_free_int colon_free_int] by (auto simp: offset_key_def dest: js_string_inj)

lemma stable_offset_eq:
  "stable_offset host jobId staggerMs =
     (if staggerMs \<le> 1 then 0 else readUInt32BE (ho_sha256 host jobId) mod staggerMs)"
  by (simp add: stable_offset_def resolveStableCronOffsetMs_def Let_def)

lemma offset_cache_transparent:
  assumes "memo_ok (offset_entry host) cache" "length cache \<le> STAGGER_OFFSET_CACHE_MAX"
  shows "fst (resolveStableCronOffsetMs host cache jobId staggerMs) = stable_offset host jobId staggerMs"
    and "memo_ok (offset_entry host) (snd (resolveStableCronOffsetMs host cache jobId staggerMs))"
    and "length (snd (resolveStableCronOffsetMs host cache jobId staggerMs)) \<le> STAGGER_OFFSET_CACHE_MAX"
proof -
  have new: "offset_entry host (offset_key jobId staggerMs) (readUInt32BE (ho_sha256 host jobId) mod staggerMs)"
    by (auto simp: offset_entry_def)
  show "fst (resolveStableCronOffsetMs host cache jobId staggerMs) = stable_offset host jobId staggerMs"
    using memo_ok_hit [OF assms(1)]
    by (auto simp: resolveStableCronOffsetMs_def stable_offset_eq Let_def offset_entry_def
        dest: offset_key_inj split: option.split)
  show "memo_ok (offset_entry host) (snd (resolveStableCronOffsetMs host cache jobId staggerMs))"
    using assms(1) offset_cache.store_ok [OF assms(1) new]
    by (simp add: resolveStableCronOffsetMs_def Let_def split: option.split)
  show "length (snd (resolveStableCronOffsetMs host cache jobId staggerMs)) \<le> STAGGER_OFFSET_CACHE_MAX"
    using assms(2) offset_cache.store_cap [OF assms(2)]
    by (simp add: resolveStableCronOffsetMs_def Let_def split: option.split)
qed

lemma offset_nonneg: "0 \<le> job_offset host job"
  by (simp add: job_offset_def stable_offset_eq split: CronSchedule.split)

section \<open>Facts on runs\<close>

lemma staggered_loop_ahead: "staggered_next_loop host schedule o' nowMs n c = Inr (Some r) \<Longrightarrow> nowMs < r"
  by (induction n arbitrary: c) (auto simp: Let_def split: sum.splits option.splits if_splits)

lemma staggered_ahead: "computeStaggeredCronNextRunAtMs host job nowMs = Inr (Some r) \<Longrightarrow> nowMs < r"
  by (auto simp: computeStaggeredCronNextRunAtMs_def Let_def
      dest: next_run_ahead staggered_loop_ahead split: if_splits)

definition one_shot :: "CronJob \<Rightarrow> bool" where
  "one_shot job = (case jb_schedule job of AtSchedule _ \<Rightarrow> True | _ \<Rightarrow> False)"

lemma second_after:
  fixes nowMs :: int
  shows "nowMs < nowMs div 1000 * 1000 + 1000"
  using div_bounds(2) [of 1000 nowMs] by (simp add: mult.commute)

lemma job_next_ahead:
  assumes "computeJobNextRunAtMs host job nowMs = Inr (Some r)" "\<not> one_shot job"
  shows "nowMs < r"
proof (cases "jb_schedule job")
  case (EverySchedule everyMs anchorMs)
  with assms next_run_ahead show ?thesis
    by (auto simp: computeJobNextRunAtMs_def Let_def split: option.splits if_splits)
next
  case (AtSchedule t)
  with assms(2) show ?thesis by (simp add: one_shot_def)
next
  case (CronExprSchedule expr tz st)
  with assms staggered_ahead [of host job] second_after [of nowMs] show ?thesis
    by (fastforce simp: computeJobNextRunAtMs_def split: sum.splits option.splits if_splits)
next
  case (OnExitSchedule c cwd)
  with assms staggered_ahead [of host job] show ?thesis
    by (auto simp: computeJobNextRunAtMs_def is_cron_def split: sum.splits option.splits if_splits)
qed

lemma recompute_next:
  assumes "recomputeJobNextRunAtMs host config job now = (changed, job', effects)"
    "st_nextRunAtMs (jb_state job') = Some n"
  obtains m where "computeJobNextRunAtMs host job now = Inr (Some m)" "backoff_floor config job (Some m) = Some n"
proof (cases "computeJobNextRunAtMs host job now")
  case (Inl err)
  with assms show thesis
    by (auto simp: recomputeJobNextRunAtMs_def recordScheduleComputeError_def Let_def split: if_splits)
next
  case (Inr r)
  with assms have "backoff_floor config job r = Some n"
    by (auto simp: recomputeJobNextRunAtMs_def Let_def split: if_splits)
  with Inr that show thesis by (cases r) (auto simp: backoff_floor_def split: if_splits)
qed

text \<open>A recomputed time of a recurring job honours the error backoff: after a run that ended in an
  error it lies in the future and not before the end of that run plus the delay for the number
  of consecutive errors.\<close>

theorem recompute_honours_backoff:
  assumes "recomputeJobNextRunAtMs host config job now = (changed, job', effects)"
    and "st_nextRunAtMs (jb_state job') = Some run" "\<not> one_shot job"
    and "resolveJobLastRunStatus job = Some RunError" "st_lastRunAtMs (jb_state job) = Some started"
  shows "now < run \<and>
    started + max 0 (coalesce (st_lastDurationMs (jb_state job)) 0) +
      errorBackoffMs (max 1 (coalesce (st_consecutiveErrors (jb_state job)) 1)) (backoff_schedule config) \<le> run"
proof -
  from assms(1,2) obtain m where m: "computeJobNextRunAtMs host job now = Inr (Some m)"
    "backoff_floor config job (Some m) = Some run" by (rule recompute_next)
  have "(case jb_schedule job of AtSchedule _ \<Rightarrow> False | _ \<Rightarrow> True)"
    using assms(3) by (auto simp: one_shot_def split: CronSchedule.splits)
  moreover have "now < m" by (rule job_next_ahead [OF m(1) assms(3)])
  ultimately show ?thesis
    using m(2) assms(4,5)
    by (auto simp: backoff_floor_def resolveJobErrorBackoffUntilMs_def Let_def split: option.splits)
qed

section \<open>The staggered slots of a job\<close>

lemma slots_are_cron: "schedule_slots host (jb_schedule job) S \<Longrightarrow> is_cron job"
  by (auto simp: schedule_slots_def is_cron_def)

definition spread :: "int \<Rightarrow> int set \<Rightarrow> int set" where
  "spread d S = (\<lambda>s. s + d) ` S"

lemma spread_0 [simp]: "spread 0 S = S"
  by (simp add: spread_def)

lemma next_slot_spread: "next_slot S (t - d) r \<Longrightarrow> next_slot (spread d S) t (map_option (\<lambda>s. s + d) r)"
  by (cases r) (auto simp: next_slot_def spread_def)

lemma next_slot_later:
  assumes "next_slot S t None" "t \<le> t'"
  shows "next_slot S t' r \<longleftrightarrow> r = None"
  using assms by (cases r) (fastforce simp: next_slot_def)+

text \<open>The first attempt of the loop succeeds: the cursor was moved back by the offset.\<close>

lemma staggered_next:
  assumes "schedule_slots host (jb_schedule job) S" "job_offset host job \<le> t"
  shows "\<exists>r. computeStaggeredCronNextRunAtMs host job t = Inr r \<and> next_slot (spread (job_offset host job) S) t r"
proof (cases "job_offset host job = 0")
  case True
  with next_run_slots [OF assms(1)] slots_are_cron [OF assms(1)] show ?thesis
    by (simp add: computeStaggeredCronNextRunAtMs_def)
next
  case False
  let ?d = "job_offset host job"
  obtain r where r: "next_run host (jb_schedule job) (t - ?d) = Inr r" "next_slot S (t - ?d) r"
    using next_run_slots [OF assms(1)] by blast
  have "computeStaggeredCronNextRunAtMs host job t =
      staggered_next_loop host (jb_schedule job) ?d t (Suc 3) (t - ?d)"
    using False offset_nonneg [of host job] slots_are_cron [OF assms(1)] assms(2)
    by (simp add: computeStaggeredCronNextRunAtMs_def Let_def eval_nat_numeral)
  also have "\<dots> = Inr (map_option (\<lambda>s. s + ?d) r)"
    unfolding staggered_next_loop.simps r(1) using r(2) by (cases r) (simp_all add: next_slot_def)
  finally show ?thesis using next_slot_spread [OF r(2)] by simp
qed

lemma second_grid: "second_of s = s \<Longrightarrow> \<exists>k. s = k * 1000"
  by (rule exI [of _ "s div 1000"]) (simp add: second_of_def)

lemma last_slot_probe:
  assumes "last_slot S (second_of (x + 1000)) r" "\<And>s. s \<in> S \<Longrightarrow> second_of s = s"
  shows "r = Some x \<longleftrightarrow> x \<in> S"
proof
  assume x: "x \<in> S"
  obtain k where k: "x = k * 1000" using second_grid [OF assms(2) [OF x]] ..
  then have now: "second_of (x + 1000) = x + 1000" by (simp add: second_of_def)
  have "s \<le> x" if s: "s \<in> S" "s < x + 1000" for s
    using second_grid [OF assms(2) [OF s(1)]] s(2) k by auto
  with assms(1) x show "r = Some x" unfolding now by (force simp: last_slot_def split: option.splits)
qed (use assms(1) in \<open>auto simp: last_slot_def\<close>)

text \<open>C12: The next run of an enabled cron job is its next slot: if the expression fires at the times in
  \<open>S\<close>, the run is the first of these times, moved by the stable offset of the job, that lies
  after now, and there is none only if the expression never fires again. Moving the cursor back
  by the offset finds the current slot, so no slot is lost or doubled by staggering.\<close>

theorem job_runs_at_next_slot:
  assumes "schedule_slots host (jb_schedule job) S" "isJobEnabled job" "job_offset host job \<le> now"
  shows "\<exists>run. computeJobNextRunAtMs host job now = Inr run \<and>
    next_slot (spread (job_offset host job) S) now run"
proof -
  obtain r where r: "computeStaggeredCronNextRunAtMs host job now = Inr r"
    "next_slot (spread (job_offset host job) S) now r"
    using staggered_next [OF assms(1,3)] by blast
  let ?later = "now div 1000 * 1000 + 1000"
  have later: "now \<le> ?later" using second_after [of now] by simp
  then obtain r' where r': "computeStaggeredCronNextRunAtMs host job ?later = Inr r'"
    "next_slot (spread (job_offset host job) S) ?later r'"
    using staggered_next [OF assms(1), of ?later] assms(3) by auto
  from assms(1) obtain expr tz st where "jb_schedule job = CronExprSchedule expr tz st"
    by (auto simp: schedule_slots_def)
  then have "computeJobNextRunAtMs host job now = Inr r"
    using assms(2) r r' next_slot_later [OF _ later] slots_are_cron [OF assms(1)]
    by (cases r) (auto simp: computeJobNextRunAtMs_def)
  with r(2) show ?thesis by blast
qed

text \<open>C19: The test for a slot is exact: under the contract of the expression package a stored time is
  recognized as a slot of the job exactly when it is one, for whole seconds too, which a probe of
  one millisecond past the time would miss.\<close>

theorem slot_test_exact:
  assumes "schedule_slots host (jb_schedule job) S" "job_offset host job \<le> runAtMs + 1000"
  shows "isStaggeredCronRunAtMs host job runAtMs = Inr (runAtMs \<in> spread (job_offset host job) S)"
proof -
  let ?d = "job_offset host job" and ?t = "runAtMs + 1000"
  note cron = slots_are_cron [OF assms(1)]
  have whole: "\<And>s. s \<in> S \<Longrightarrow> second_of s = s"
    using assms(1) by (auto simp: schedule_slots_def fires_at_def)
  obtain r where r: "previous_run host (jb_schedule job) (?t - ?d) = Inr r" "last_slot S (second_of (?t - ?d)) r"
    using previous_run_slots [OF assms(1)] by blast
  have "computeStaggeredCronPreviousRunAtMs host job ?t = Inr (map_option (\<lambda>s. s + ?d) r)"
  proof (cases "?d = 0")
    case True
    with r cron show ?thesis by (simp add: computeStaggeredCronPreviousRunAtMs_def option.map_ident)
  next
    case False
    have "computeStaggeredCronPreviousRunAtMs host job ?t =
        staggered_previous_loop host (jb_schedule job) ?d ?t (Suc 3) (?t - ?d)"
      using False offset_nonneg [of host job] cron assms(2)
      by (simp add: computeStaggeredCronPreviousRunAtMs_def Let_def eval_nat_numeral)
    moreover have "s + ?d \<le> ?t" if "r = Some s" for s
      using previous_run_behind [OF r(1) [unfolded that]] by simp
    ultimately show ?thesis unfolding staggered_previous_loop.simps r(1) by (cases r) simp_all
  qed
  moreover have "map_option (\<lambda>s. s + ?d) r = Some runAtMs \<longleftrightarrow> r = Some (runAtMs - ?d)" by auto
  moreover have "r = Some (runAtMs - ?d) \<longleftrightarrow> runAtMs - ?d \<in> S"
    by (rule last_slot_probe) (use r(2) whole in \<open>simp_all add: algebra_simps\<close>)
  moreover have "runAtMs - ?d \<in> S \<longleftrightarrow> runAtMs \<in> spread ?d S"
    by (auto simp: spread_def intro: rev_image_eqI)
  ultimately show ?thesis using cron by (simp add: isStaggeredCronRunAtMs_def)
qed

section \<open>Facts on passes\<close>

text \<open>What a pass does to each job: nothing, or one of the two steps.\<close>

lemma walk_pairs:
  assumes "\<And>job s. R job (fst (normalizeJobTickState job nowMs))"
    and "\<And>job s. \<not> snd (snd (normalizeJobTickState job nowMs)) \<Longrightarrow>
      R job (fst (snd (fn (fst (normalizeJobTickState job nowMs)) s)))"
  shows "list_all2 R jobs (fst (snd (walkSchedulableJobs fn nowMs jobs s)))"
proof (induction jobs arbitrary: s)
  case (Cons job jobs)
  obtain job' ch skip where tick: "normalizeJobTickState job nowMs = (job', ch, skip)" by (metis prod_cases3)
  obtain fch job'' s' where f: "fn job' s = (fch, job'', s')" by (metis prod_cases3)
  show ?case
    using Cons.IH assms(1) [of job] assms(2) [of job s] tick f
    by (auto simp: split_beta Let_def)
qed simp

lemma recompute_id [simp]: "recomputeJobNextRunAtMs host config job now = (c, job', e) \<Longrightarrow> jb_id job' = jb_id job"
  by (auto simp: recomputeJobNextRunAtMs_def recordScheduleComputeError_def Let_def split: sum.splits if_splits)

text \<open>The job holds a run that is due.\<close>

definition due_run :: "CronJob \<Rightarrow> int \<Rightarrow> int option" where
  "due_run job now =
     (if isJobEnabled job
      then (case st_nextRunAtMs (jb_state job) of Some n \<Rightarrow> if 0 < n \<and> n \<le> now then Some n else None | None \<Rightarrow> None)
      else None)"

text \<open>A due slot is over if the last run started at or after it, or if that run failed, its error delay
  is still running and ends after the slot.\<close>

definition slot_over :: "CronConfig \<Rightarrow> CronJob \<Rightarrow> int \<Rightarrow> int \<Rightarrow> bool" where
  "slot_over config job now slot =
     (case st_lastRunAtMs (jb_state job) of
        None \<Rightarrow> False
      | Some started \<Rightarrow>
          let errors = max 1 (coalesce (st_consecutiveErrors (jb_state job)) 1);
              resume = started + max 0 (coalesce (st_lastDurationMs (jb_state job)) 0) +
                errorBackoffMs errors (backoff_schedule config)
          in slot \<le> started \<or> resolveJobLastRunStatus job = Some RunError \<and> now < resume \<and> slot < resume)"

lemma expired_slot_is_over: "expired_slot_spent config job now slot = slot_over config job now slot"
  by (auto simp: expired_slot_spent_def slot_over_def resolveJobErrorBackoffUntilMs_def Let_def split: option.splits)

definition keeps_due :: "CronConfig \<Rightarrow> MaintenanceOptions \<Rightarrow> int \<Rightarrow> CronJob \<Rightarrow> CronJob \<Rightarrow> bool" where
  "keeps_due config opts now job job' \<longleftrightarrow>
     (case due_run job now of
        None \<Rightarrow> True
      | Some n \<Rightarrow> due_run job' now = Some n \<or> mo_recomputeExpired opts \<and> slot_over config job now n)"

lemma due_run_Some:
  "due_run job now = Some n \<longleftrightarrow>
     isJobEnabled job \<and> st_nextRunAtMs (jb_state job) = Some n \<and> 0 < n \<and> n \<le> now"
  by (auto simp: due_run_def split: option.splits if_splits)

lemma anchor_keeps: "\<exists>sched. fst (normalize_anchor job now) = job\<lparr>jb_schedule := sched\<rparr>"
proof -
  have "job = job\<lparr>jb_schedule := jb_schedule job\<rparr>" by simp
  moreover have "fst (normalize_anchor job now) = job \<or>
      (\<exists>sched. fst (normalize_anchor job now) = job\<lparr>jb_schedule := sched\<rparr>)"
    by (cases "jb_schedule job") (auto simp: normalize_anchor_def Let_def)
  ultimately show ?thesis by metis
qed

text \<open>The tick of an enabled job with a valid time touches the anchor and the running marker only.\<close>

lemma tick_live:
  assumes "isJobEnabled job" "hasScheduledNextRunAtMs (st_nextRunAtMs (jb_state job))"
  shows "jb_enabled (fst (normalizeJobTickState job now)) = jb_enabled job"
    and "\<exists>running. jb_state (fst (normalizeJobTickState job now)) = (jb_state job)\<lparr>st_runningAtMs := running\<rparr>"
proof -
  obtain job' c sched where j: "normalize_anchor job now = (job', c)" "job' = job\<lparr>jb_schedule := sched\<rparr>"
    using anchor_keeps [of job now] by (metis prod.collapse)
  have same: "jb_state job = (jb_state job)\<lparr>st_runningAtMs := st_runningAtMs (jb_state job)\<rparr>" by simp
  have "isJobEnabled job'" using assms(1) by (simp add: j(2) isJobEnabled_def)
  then have "normalizeJobTickState job now = (job', c, False) \<or>
      (\<exists>skip. normalizeJobTickState job now =
         (job'\<lparr>jb_state := (jb_state job)\<lparr>st_runningAtMs := None\<rparr>\<rparr>, True, skip))"
    using assms(2) j
    by (cases "st_runningAtMs (jb_state job)") (simp_all add: normalizeJobTickState_def Let_def)
  then have "jb_enabled (fst (normalizeJobTickState job now)) = jb_enabled job \<and>
      (jb_state (fst (normalizeJobTickState job now)) = jb_state job \<or>
       jb_state (fst (normalizeJobTickState job now)) = (jb_state job)\<lparr>st_runningAtMs := None\<rparr>)"
    by (auto simp: j(2))
  with same show "jb_enabled (fst (normalizeJobTickState job now)) = jb_enabled job"
    and "\<exists>running. jb_state (fst (normalizeJobTickState job now)) = (jb_state job)\<lparr>st_runningAtMs := running\<rparr>"
    by metis+
qed

lemma tick_keeps:
  assumes "normalizeJobTickState job now = (job', changed, skip)" "due_run job now = Some n"
  shows "due_run job' now = Some n" "expired_slot_spent config job' now n = expired_slot_spent config job now n"
proof -
  have live: "isJobEnabled job" "hasScheduledNextRunAtMs (st_nextRunAtMs (jb_state job))"
    using assms(2) by (simp_all add: due_run_Some hasScheduledNextRunAtMs_def)
  obtain running where j: "jb_enabled job' = jb_enabled job"
    "jb_state job' = (jb_state job)\<lparr>st_runningAtMs := running\<rparr>"
    using tick_live [OF live, of now] assms(1) by auto
  have "resolveJobErrorBackoffUntilMs job' s = resolveJobErrorBackoffUntilMs job s" for s
    unfolding resolveJobErrorBackoffUntilMs_def resolveJobLastRunStatus_def j(2) by (simp split: option.split)
  then show "expired_slot_spent config job' now n = expired_slot_spent config job now n"
    by (simp add: expired_slot_spent_def j(2))
  show "due_run job' now = Some n" using assms(2) by (simp add: due_run_Some isJobEnabled_def j)
qed

lemma no_repair_when_due:
  "due_run job now = Some n \<Longrightarrow> \<not> shouldRepairFutureCronNextRunAtMs host config job now"
  by (auto simp: due_run_def shouldRepairFutureCronNextRunAtMs_def split: if_splits option.splits)

lemma maintenance_step_keeps:
  assumes "due_run job now = Some n" "maintenance_step host config opts now job acc = (c, job', acc')"
  shows "job' = job \<or> mo_recomputeExpired opts \<and> expired_slot_spent config job now n"
proof -
  have next_n: "st_nextRunAtMs (jb_state job) = Some n" "0 < n" "n \<le> now"
    using assms(1) by (auto simp: due_run_def split: if_splits option.splits)
  obtain ids effects where acc: "acc = (ids, effects)" by fastforce
  have "fst (snd (maintenance_step host config opts now job acc)) = job"
    if "\<not> (mo_recomputeExpired opts \<and> expired_slot_spent config job now n)"
    using that next_n no_repair_when_due [OF assms(1), of host config]
    by (auto simp: maintenance_step_def acc Let_def)
  with assms(2) show ?thesis by auto
qed

text \<open>C11: Maintenance never swallows a run: an enabled job whose time has come and that was not run yet
  keeps that time, enabled, through a maintenance pass. A due time is advanced only if the caller
  asks for it, and then only if the slot was already executed or predates an error backoff that
  is still running.\<close>

theorem maintenance_keeps_due_runs:
  assumes "cs_store state = Some jobs"
    and "recomputeNextRunsForMaintenance host opts state now = (changed, state', effects)"
  shows "\<exists>jobs'. cs_store state' = Some jobs' \<and> list_all2 (keeps_due (cs_config state) opts now) jobs jobs'"
proof -
  let ?fn = "maintenance_step host (cs_config state) opts now"
  have tick: "keeps_due (cs_config state) opts now job (fst (normalizeJobTickState job now))" for job
    using tick_keeps(1) by (cases "normalizeJobTickState job now") (auto simp: keeps_due_def split: option.split)
  have step: "keeps_due (cs_config state) opts now job (fst (snd (?fn (fst (normalizeJobTickState job now)) s)))"
    for job s
  proof (cases "due_run job now")
    case (Some n)
    obtain job' ch skip where t: "normalizeJobTickState job now = (job', ch, skip)" by (metis prod_cases3)
    obtain c job'' s' where f: "?fn job' s = (c, job'', s')" by (metis prod_cases3)
    have "job'' = job' \<or> mo_recomputeExpired opts \<and> expired_slot_spent (cs_config state) job' now n"
      by (rule maintenance_step_keeps [OF tick_keeps(1) [OF t Some] f])
    then show ?thesis
      using Some tick_keeps(1,2) [OF t Some] by (auto simp: keeps_due_def expired_slot_is_over t f)
  qed (simp add: keeps_due_def)
  let ?ids = "filter (\<lambda>i. i \<in> set (map jb_id (filter isJobEnabled jobs))) (cs_pendingCatchupDeferralJobIds state)"
  have "cs_store state' = cs_store (fst (snd (recomputeNextRunsForMaintenance host opts state now)))"
    using assms(2) by simp
  also have "\<dots> = Some (fst (snd (walkSchedulableJobs ?fn now jobs (?ids, []))))"
    using assms(1) by (simp add: recomputeNextRunsForMaintenance_def Let_def split_beta)
  finally show ?thesis
    using walk_pairs [where R = "keeps_due (cs_config state) opts now" and fn = ?fn and nowMs = now, OF tick step]
    by blast
qed

text \<open>The times at which enabled jobs want to run.\<close>

definition wake_times :: "CronServiceState \<Rightarrow> int set" where
  "wake_times state =
     {n. 0 < n \<and> (\<exists>job \<in> set (coalesce (cs_store state) []). isJobEnabled job \<and>
        st_nextRunAtMs (jb_state job) = Some n)}"

lemma foldl_min:
  "foldl (\<lambda>m j. case f j of Some n \<Rightarrow> if 0 < n then min m n else m | None \<Rightarrow> m) (a :: int) js =
     Min (insert a {n. 0 < n \<and> (\<exists>j \<in> set js. f j = Some n)})"
proof (induction js arbitrary: a)
  case (Cons j js)
  let ?S = "{n. 0 < n \<and> (\<exists>j \<in> set js. f j = Some n)}"
  have "?S \<subseteq> the ` f ` set js" by force
  then have fin: "finite ?S" by (rule finite_subset) simp
  show ?case
  proof (cases "\<exists>n > 0. f j = Some n")
    case True
    then obtain n where n: "f j = Some n" "0 < n" by blast
    then have "{n. 0 < n \<and> (\<exists>j \<in> set (j # js). f j = Some n)} = insert n ?S" by auto
    with n Cons [of "min a n"] fin show ?thesis
      by (cases "?S = {}") (simp_all add: min.assoc)
  next
    case False
    then have "{n. 0 < n \<and> (\<exists>j \<in> set (j # js). f j = Some n)} = ?S" by auto
    moreover have "(case f j of Some n \<Rightarrow> if 0 < n then min a n else a | None \<Rightarrow> a) = a"
      using False by (auto split: option.split)
    ultimately show ?thesis using Cons [of a] by simp
  qed
qed simp

text \<open>The wake time is the minimum of the scheduled times of the enabled jobs.\<close>

lemma next_wake_earliest:
  "nextWakeAtMs state = (if wake_times state = {} then None else Some (Min (wake_times state)))"
proof -
  let ?P = "\<lambda>j. isJobEnabled j \<and> hasScheduledNextRunAtMs (st_nextRunAtMs (jb_state j))"
  let ?E = "filter ?P (coalesce (cs_store state) [])"
  have W: "wake_times state = {n. 0 < n \<and> (\<exists>j \<in> set ?E. st_nextRunAtMs (jb_state j) = Some n)}"
    by (auto simp: wake_times_def hasScheduledNextRunAtMs_def)
  show ?thesis
  proof (cases ?E)
    case Nil
    then have "wake_times state = {}" unfolding W by simp
    with Nil show ?thesis by (simp add: nextWakeAtMs_def Let_def)
  next
    case (Cons j js)
    then have "?P j" by (metis filter_eq_ConsD list.set_intros(1) mem_Collect_eq set_filter)
    then obtain n where n: "st_nextRunAtMs (jb_state j) = Some n" "0 < n"
      by (auto simp: hasScheduledNextRunAtMs_def split: option.splits)
    then have "n \<in> wake_times state" unfolding W Cons by auto
    then have "insert n (wake_times state) = wake_times state" by auto
    moreover have "nextWakeAtMs state = Some (Min (insert n (wake_times state)))"
      unfolding W nextWakeAtMs_def Let_def Cons list.case n(1) option.case foldl_min [symmetric] ..
    ultimately show ?thesis using \<open>n \<in> wake_times state\<close> by auto
  qed
qed

section \<open>Schedule errors\<close>

lemma compute_ignores_errors:
  fixes job :: CronJob
  defines "job' c n e \<equiv> job\<lparr>jb_state := (jb_state job)\<lparr>st_scheduleErrorCount := c, st_nextRunAtMs := n,
     st_lastError := e\<rparr>\<rparr>"
  shows "computeJobNextRunAtMs host (job' c n e) now = computeJobNextRunAtMs host job now"
proof -
  have same: "isJobEnabled (job' c n e) = isJobEnabled job" "is_cron (job' c n e) = is_cron job"
    "jb_schedule (job' c n e) = jb_schedule job" "jb_id (job' c n e) = jb_id job" "jb_createdAtMs (job' c n e) = jb_createdAtMs job"
    "resolveJobLastRunStatus (job' c n e) = resolveJobLastRunStatus job"
    "st_lastRunAtMs (jb_state (job' c n e)) = st_lastRunAtMs (jb_state job)"
    by (simp_all add: job'_def isJobEnabled_def is_cron_def resolveJobLastRunStatus_def)
  have "job_offset host (job' c n e) = job_offset host job"
    unfolding job_offset_def same ..
  then have "computeStaggeredCronNextRunAtMs host (job' c n e) t = computeStaggeredCronNextRunAtMs host job t" for t
    unfolding computeStaggeredCronNextRunAtMs_def same by simp
  then show ?thesis unfolding computeJobNextRunAtMs_def same by (simp only:)
qed

lemma recompute_throws:
  assumes "computeJobNextRunAtMs host job now = Inl err"
  defines "errs \<equiv> coalesce (st_scheduleErrorCount (jb_state job)) 0 + 1"
    and "failed c \<equiv> job\<lparr>jb_state := (jb_state job)\<lparr>st_scheduleErrorCount := Some c, st_nextRunAtMs := None,
      st_lastError := Some (''schedule error: '' @ err)\<rparr>\<rparr>"
  shows "recomputeJobNextRunAtMs host config job now =
    (if errs < 3 then (True, failed errs, [])
     else (True, (failed errs)\<lparr>jb_enabled := Some False\<rparr>,
       [AutoDisabledEvent (jb_id job) (jb_name job) errs err, AutoDisabledHeartbeat (jb_id job)]))"
  using assms(1)
  by (simp add: recomputeJobNextRunAtMs_def recordScheduleComputeError_def Let_def errs_def failed_def
      MAX_SCHEDULE_ERRORS_def)

text \<open>A schedule that cannot be computed does not fail for ever: the first two failures leave the
  job enabled and without a run, the third one disables it and tells the user once.\<close>

theorem third_schedule_error_disables:
  assumes "isJobEnabled job" "coalesce (st_scheduleErrorCount (jb_state job)) 0 = 0"
    and "computeJobNextRunAtMs host job t1 = Inl err1" "computeJobNextRunAtMs host job t2 = Inl err2"
    and "computeJobNextRunAtMs host job t3 = Inl err3"
    and "recomputeJobNextRunAtMs host config job t1 = (c1, job1, effects1)"
    and "recomputeJobNextRunAtMs host config job1 t2 = (c2, job2, effects2)"
    and "recomputeJobNextRunAtMs host config job2 t3 = (c3, job3, effects3)"
  shows "isJobEnabled job1 \<and> due_run job1 now = None \<and> effects1 = [] \<and>
    isJobEnabled job2 \<and> due_run job2 now = None \<and> effects2 = [] \<and>
    \<not> isJobEnabled job3 \<and> due_run job3 now = None \<and>
    effects3 = [AutoDisabledEvent (jb_id job) (jb_name job) 3 err3, AutoDisabledHeartbeat (jb_id job)]"
proof -
  let ?fail = "\<lambda>c err. job\<lparr>jb_state := (jb_state job)\<lparr>st_scheduleErrorCount := Some c, st_nextRunAtMs := None,
      st_lastError := Some (''schedule error: '' @ err)\<rparr>\<rparr>"
  have j1: "job1 = ?fail 1 err1" "effects1 = []"
    using assms(2,6) recompute_throws [OF assms(3), of config] by simp_all
  have "computeJobNextRunAtMs host job1 t2 = Inl err2" unfolding j1 compute_ignores_errors by (rule assms(4))
  from recompute_throws [OF this, of config] assms(7) have j2: "job2 = ?fail 2 err2" "effects2 = []"
    by (simp_all add: j1)
  have "computeJobNextRunAtMs host job2 t3 = Inl err3" unfolding j2 compute_ignores_errors by (rule assms(5))
  from recompute_throws [OF this, of config] assms(8)
  have j3: "job3 = (?fail 3 err3)\<lparr>jb_enabled := Some False\<rparr>"
    "effects3 = [AutoDisabledEvent (jb_id job) (jb_name job) 3 err3, AutoDisabledHeartbeat (jb_id job)]"
    by (simp_all add: j2)
  show ?thesis using assms(1) by (simp add: j1 j2 j3 due_run_def isJobEnabled_def)
qed

section \<open>Applications\<close>

text \<open>An expression package that fires every minute and refuses the expression \<^verbatim>\<open>bad\<close>.\<close>

definition minute_host :: "unit CronHost" where
  "minute_host = \<lparr>ho_compile = (\<lambda>expr _. if expr = ''bad'' then Inl ''bad expression'' else Inr ()),
     ho_next = (\<lambda>_ t. Inr (Some (t div 60000 * 60000 + 60000))),
     ho_previous = (\<lambda>_ t. Inr (Some ((second_of t - 1) div 60000 * 60000))), ho_timezone = ''UTC'',
     ho_parseDate = (\<lambda>_. None), ho_sha256 = (\<lambda>_. [0, 0, 4, 210])\<rparr>"

definition plain_state :: CronJobState where
  "plain_state = \<lparr>st_nextRunAtMs = None, st_runningAtMs = None, st_lastRunAtMs = None, st_lastRunStatus = None,
     st_lastStatus = None, st_lastError = None, st_lastErrorReason = None, st_lastDurationMs = None,
     st_consecutiveErrors = None, st_consecutiveSkipped = None, st_lastFailureAlertAtMs = None,
     st_scheduleErrorCount = None, st_lastTriggerEvalAtMs = None, st_triggerEvalCount = None,
     st_lastTriggerFireAtMs = None, st_triggerState = None\<rparr>"

definition sample_job :: "CronSchedule \<Rightarrow> CronJobState \<Rightarrow> CronJob" where
  "sample_job schedule st = \<lparr>jb_id = ''j'', jb_name = ''report'', jb_agentId = None, jb_sessionKey = None,
     jb_enabled = Some True, jb_deleteAfterRun = None, jb_createdAtMs = Some 1, jb_updatedAtMs = 1,
     jb_schedule = schedule, jb_sessionTarget = TargetIsolated, jb_wakeMode = WakeNow,
     jb_payload = AgentTurnPayload ''hi'', jb_trigger = None, jb_delivery = None, jb_failureAlert = AlertUnset,
     jb_state = st\<rparr>"

lemma sample_job_simps [simp]:
  "jb_schedule (sample_job schedule st) = schedule" "jb_state (sample_job schedule st) = st"
  "isJobEnabled (sample_job schedule st)" "jb_id (sample_job schedule st) = ''j''"
  by (simp_all add: sample_job_def isJobEnabled_def)

definition plain_config :: CronConfig where
  "plain_config = \<lparr>cc_maxAttempts = None, cc_backoffMs = None, cc_retryOn = None,
     cc_triggerMinIntervalMs = UOther, cc_failureAlertEnabled = None, cc_failureAlert = None\<rparr>"

abbreviation minutely :: CronSchedule where
  "minutely \<equiv> CronExprSchedule (UString ''* * * * *'') None (UNumber (Fin 10000))"

text \<open>Neighbours on a grid.\<close>

lemma grid_neighbours:
  fixes k :: int
  assumes "0 < k" "s mod k = 0"
  shows "t < s \<Longrightarrow> t div k * k + k \<le> s" "s < t \<Longrightarrow> s \<le> (t - 1) div k * k"
proof -
  have s: "s = k * (s div k)" using assms(2) mult_div_mod_eq [of k s] by simp
  show "t div k * k + k \<le> s" if "t < s"
  proof -
    have "k * (t div k) < k * (s div k)" using div_bounds(1) [OF assms(1), of t] that s by linarith
    then have "t div k + 1 \<le> s div k" using assms(1) by simp
    then have "k * (t div k + 1) \<le> k * (s div k)" using assms(1) by (intro mult_left_mono) simp_all
    then show ?thesis using s by (simp add: algebra_simps)
  qed
  show "s \<le> (t - 1) div k * k" if "s < t"
  proof -
    have "k * (s div k) < k * ((t - 1) div k) + k" using div_bounds(2) [OF assms(1), of "t - 1"] that s by linarith
    also have "\<dots> = k * ((t - 1) div k + 1)" by (simp add: algebra_simps)
    finally have "s div k \<le> (t - 1) div k" using assms(1) by simp
    then have "k * (s div k) \<le> k * ((t - 1) div k)" using assms(1) by (intro mult_left_mono) simp_all
    then show ?thesis using s by (simp add: mult.commute)
  qed
qed

lemma minute_next: "next_slot {s. s mod 60000 = 0} t (Some (t div 60000 * 60000 + 60000))"
proof -
  have "t < 60000 * (t div 60000) + 60000" by (rule div_bounds) simp
  with grid_neighbours(1) [of 60000 _ t] show ?thesis by (auto simp: next_slot_def mult.commute)
qed

lemma minute_previous: "last_slot {s. s mod 60000 = 0} t (Some ((t - 1) div 60000 * 60000))"
proof -
  have "60000 * ((t - 1) div 60000) \<le> t - 1" by (rule div_bounds) simp
  with grid_neighbours(2) [of 60000 _ t] show ?thesis by (auto simp: last_slot_def mult.commute)
qed

lemma minute_slots: "schedule_slots minute_host minutely {s. s mod 60000 = 0}"
proof -
  have "second_of s = s" if "s mod 60000 = 0" for s :: int
  proof -
    have "1000 dvd s" using that by (intro dvd_trans [of 1000 60000 s]) auto
    then show ?thesis by (simp add: second_of_def)
  qed
  then have "fires_at minute_host () {s. s mod 60000 = 0}"
    using minute_next minute_previous by (simp add: fires_at_def minute_host_def)
  then show ?thesis
    by (auto simp: schedule_slots_def minute_host_def)
      (simp_all add: js_trim_def js_white_space_def)
qed

lemma minute_offset: "job_offset minute_host (sample_job minutely st) = 1234"
proof -
  have "resolveCronStaggerMs (UString ''* * * * *'') (UNumber (Fin 10000)) = 10000" by code_simp
  then show ?thesis
    by (simp add: job_offset_def sample_job_def stable_offset_eq minute_host_def readUInt32BE_def)
qed

theorem job_runs_at_next_slot_witness:
  "\<exists>run. computeJobNextRunAtMs minute_host (sample_job minutely plain_state) 61235 = Inr run \<and>
    next_slot (spread 1234 {s. s mod 60000 = 0}) 61235 run"
  using job_runs_at_next_slot [of minute_host "sample_job minutely plain_state" "{s. s mod 60000 = 0}" 61235]
    minute_slots
  by (simp add: minute_offset)

theorem slot_test_exact_witness:
  "isStaggeredCronRunAtMs minute_host (sample_job minutely plain_state) 61234 = Inr True"
proof -
  have "(61234 :: int) \<in> spread 1234 {s. s mod 60000 = 0}"
    unfolding spread_def by (rule image_eqI [of _ _ 60000]) simp_all
  with slot_test_exact [of minute_host "sample_job minutely plain_state" "{s. s mod 60000 = 0}" 61234]
    minute_slots show ?thesis
    by (simp add: minute_offset)
qed

abbreviation failed_state :: CronJobState where
  "failed_state \<equiv> plain_state\<lparr>st_lastRunStatus := Some RunError, st_lastRunAtMs := Some 1000000,
     st_lastDurationMs := Some 500, st_consecutiveErrors := Some 2\<rparr>"

theorem recompute_honours_backoff_witness:
  "\<exists>run. st_nextRunAtMs (jb_state (fst (snd (recomputeJobNextRunAtMs minute_host plain_config
      (sample_job (EverySchedule (UNumber (Fin 60000)) UOther) failed_state) 1001000)))) = Some run \<and>
    1001000 < run \<and> 1060500 \<le> run"
proof -
  let ?job = "sample_job (EverySchedule (UNumber (Fin 60000)) UOther) failed_state"
  obtain c j e where r: "recomputeJobNextRunAtMs minute_host plain_config ?job 1001000 = (c, j, e)"
    by (metis prod_cases3)
  have job: "\<not> one_shot ?job" "resolveJobLastRunStatus ?job = Some RunError"
    "st_lastRunAtMs (jb_state ?job) = Some 1000000" "st_lastDurationMs (jb_state ?job) = Some 500"
    "st_consecutiveErrors (jb_state ?job) = Some 2"
    by (simp_all add: one_shot_def resolveJobLastRunStatus_def)
  have "computeJobNextRunAtMs minute_host ?job 1001000 = Inr (Some 1060000)"
    by (simp add: computeJobNextRunAtMs_def coerceFiniteScheduleNumber_def parseStrictFiniteNumber_def
        max_safe_integer_def Let_def)
  then have "st_nextRunAtMs (jb_state (fst (snd (recomputeJobNextRunAtMs minute_host plain_config ?job 1001000)))) =
      backoff_floor plain_config ?job (Some 1060000)"
    by (simp add: recomputeJobNextRunAtMs_def Let_def)
  also have "\<dots> \<noteq> None" by (simp add: backoff_floor_def split: option.split)
  finally obtain run where n: "st_nextRunAtMs (jb_state j) = Some run" using r by auto
  have "errorBackoffMs 2 (backoff_schedule plain_config) = 60000" by code_simp
  then show ?thesis
    using recompute_honours_backoff [OF r n job(1-3)] unfolding job by (auto simp: r n)
qed

theorem maintenance_keeps_due_runs_witness:
  "\<exists>jobs'. cs_store (fst (snd (recomputeNextRunsForMaintenance minute_host maintenance_defaults
      \<lparr>cs_config = plain_config, cs_store = Some [sample_job minutely (plain_state\<lparr>st_nextRunAtMs := Some 5\<rparr>)],
       cs_pendingCatchupDeferralJobIds = []\<rparr> 100))) = Some jobs' \<and>
    list_all2 (keeps_due plain_config maintenance_defaults 100)
      [sample_job minutely (plain_state\<lparr>st_nextRunAtMs := Some 5\<rparr>)] jobs'"
  using maintenance_keeps_due_runs [of "\<lparr>cs_config = plain_config,
      cs_store = Some [sample_job minutely (plain_state\<lparr>st_nextRunAtMs := Some 5\<rparr>)],
      cs_pendingCatchupDeferralJobIds = []\<rparr>"
      "[sample_job minutely (plain_state\<lparr>st_nextRunAtMs := Some 5\<rparr>)]" minute_host maintenance_defaults 100]
  by (metis CronServiceState.select_convs(1,2) prod.collapse)

theorem third_schedule_error_disables_witness:
  "\<not> isJobEnabled (fst (snd (let step = (\<lambda>job t. recomputeJobNextRunAtMs minute_host plain_config job t)
     in step (fst (snd (step (fst (snd (step (sample_job (CronExprSchedule (UString ''bad'') None UOther)
          plain_state) 1))) 2))) 3)))"
proof -
  let ?job = "sample_job (CronExprSchedule (UString ''bad'') None UOther) plain_state"
  let ?step = "recomputeJobNextRunAtMs minute_host plain_config"
  obtain c1 j1 e1 where s1: "?step ?job 1 = (c1, j1, e1)" by (metis prod_cases3)
  obtain c2 j2 e2 where s2: "?step j1 2 = (c2, j2, e2)" by (metis prod_cases3)
  obtain c3 j3 e3 where s3: "?step j2 3 = (c3, j3, e3)" by (metis prod_cases3)
  have bad: "computeJobNextRunAtMs minute_host ?job 1 = Inl ''bad expression''"
    "computeJobNextRunAtMs minute_host ?job 2 = Inl ''bad expression''"
    "computeJobNextRunAtMs minute_host ?job 3 = Inl ''bad expression''"
    by code_simp+
  have "isJobEnabled ?job" "coalesce (st_scheduleErrorCount (jb_state ?job)) 0 = 0" by code_simp+
  from third_schedule_error_disables [OF this bad s1 s2 s3] show ?thesis
    by (simp add: Let_def s1 s2 s3)
qed

end
