(* ===== verification/Cron_Retry_Hint.thy ===== *)
theory Cron_Retry_Hint
  imports Cron_Jobs
begin

text \<open>
  \<^verbatim>\<open>src/cron/retry-hint.ts\<close>: is the error of a failed run worth a retry? The regular
  expressions of the code are terms of a small expression language; \<open>ends\<close> gives every position
  at which a match that starts at a position can end, so that testing does not depend on the
  order in which an engine tries its alternatives.
\<close>

section \<open>Regular expressions\<close>

datatype rx =
    Lit string
  | Cls "char \<Rightarrow> bool"
  | Many "char \<Rightarrow> bool"
  | UpTo nat "char \<Rightarrow> bool"
  | Cat "rx list"
  | Or "rx list"
  | WordEdge
  | AtStart
  | AtEnd

definition word_char :: "char \<Rightarrow> bool" where
  "word_char c \<longleftrightarrow> is_digit c \<or> c = CHR ''_'' \<or>
     65 \<le> (of_char c :: nat) \<and> (of_char c :: nat) \<le> 90 \<or> 97 \<le> (of_char c :: nat) \<and> (of_char c :: nat) \<le> 122"

definition word_at :: "string \<Rightarrow> nat \<Rightarrow> bool" where
  "word_at s i \<longleftrightarrow> i < length s \<and> word_char (s ! i)"

definition run_length :: "(char \<Rightarrow> bool) \<Rightarrow> string \<Rightarrow> nat \<Rightarrow> nat" where
  "run_length p s i = length (takeWhile p (drop i s))"

fun ends :: "string \<Rightarrow> rx \<Rightarrow> nat \<Rightarrow> nat list"
  and ends_cat :: "string \<Rightarrow> rx list \<Rightarrow> nat \<Rightarrow> nat list"
  and ends_or :: "string \<Rightarrow> rx list \<Rightarrow> nat \<Rightarrow> nat list"
where
  "ends s (Lit w) i = (if take (length w) (drop i s) = w then [i + length w] else [])"
| "ends s (Cls p) i = (if i < length s \<and> p (s ! i) then [Suc i] else [])"
| "ends s (Many p) i = map (\<lambda>k. i + k) [0..<Suc (run_length p s i)]"
| "ends s (UpTo n p) i = map (\<lambda>k. i + k) [0..<Suc (min n (run_length p s i))]"
| "ends s (Cat rs) i = ends_cat s rs i"
| "ends s (Or rs) i = ends_or s rs i"
| "ends s WordEdge i = (if (0 < i \<and> word_at s (i - 1)) \<noteq> word_at s i then [i] else [])"
| "ends s AtStart i = (if i = 0 then [i] else [])"
| "ends s AtEnd i = (if i = length s then [i] else [])"
| "ends_cat s [] i = [i]"
| "ends_cat s (r # rs) i = concat (map (\<lambda>j. ends_cat s rs j) (ends s r i))"
| "ends_or s [] i = []"
| "ends_or s (r # rs) i = ends s r i @ ends_or s rs i"

definition rx_test :: "rx \<Rightarrow> string \<Rightarrow> bool" where
  "rx_test r s \<longleftrightarrow> list_ex (\<lambda>i. ends s r i \<noteq> []) [0..<Suc (length s)]"

text \<open>A test with the flag for upper and lower case: the patterns are written in lower case.\<close>

definition rx_test_i :: "rx \<Rightarrow> string \<Rightarrow> bool" where
  "rx_test_i r s = rx_test r (js_toLowerCase s)"

abbreviation words_rx :: "string list \<Rightarrow> rx" where "words_rx ws \<equiv> Or (map Lit ws)"
abbreviation digit_rx :: rx where "digit_rx \<equiv> Cls is_digit"

section \<open>The patterns\<close>

definition SERVER_ERROR_PATTERN :: rx where
  "SERVER_ERROR_PATTERN =
     (let five = Cat [Lit ''5'', digit_rx, digit_rx];
          phrases = [''internal server error'', ''server error'', ''bad gateway'', ''service unavailable'',
            ''gateway timeout'', ''gateway time-out'']
      in Or [
        Cat [WordEdge,
          words_rx [''http'', ''https'', ''status'', ''status code'', ''status_code'', ''response'',
            ''response code'', ''response_code'', ''http status'', ''http_status''],
          WordEdge,
          UpTo 4 (\<lambda>c. js_white_space c \<or> c \<in> set '':=#\"'' \<or> c = CHR 0x27), five, WordEdge],
        Cat [WordEdge, five, WordEdge, Many (\<lambda>c. js_white_space c \<or> c \<in> set '':)].,-''),
          words_rx phrases, WordEdge],
        Cat [WordEdge, Lit ''internal server error'', WordEdge],
        Cat [WordEdge, Lit ''bad gateway'', WordEdge],
        Cat [WordEdge, Lit ''service unavailable'', WordEdge],
        Cat [WordEdge, words_rx [''gateway timeout'', ''gateway time-out''], WordEdge],
        Cat [WordEdge, Lit ''5xx'', WordEdge],
        Cat [AtStart, Many js_white_space, five, Many js_white_space, AtEnd]])"

definition quote_char :: char where "quote_char = CHR 0x22"
definition newline_char :: char where "newline_char = CHR 0x0A"

definition SESSION_LIFECYCLE_CLAIM_ERROR_PATTERN :: rx where
  "SESSION_LIFECYCLE_CLAIM_ERROR_PATTERN =
     (let inside = (\<lambda>c. c \<noteq> quote_char \<and> c \<noteq> newline_char)
      in Cat [AtStart,
        words_rx ['''', ''CronSessionLifecycleClaimError: '', ''Error: ''],
        Lit (''Session '' @ [quote_char]), Cls inside, Many inside, Lit ([quote_char] @ '' ''),
        words_rx [''changed'', ''was deleted''], Lit '' while starting work. Retry.'', AtEnd])"

definition TRANSIENT_PATTERNS :: "(string \<times> rx) list" where
  "TRANSIENT_PATTERNS = [
     (''rate_limit'', words_rx [''rate_limit'', ''rate limit'', ''too many requests'', ''429'',
        ''resource has been exhausted'', ''cloudflare'', ''tokens per day'']),
     (''overloaded'', Or [Cat [WordEdge, Lit ''529'', WordEdge],
        Cat [WordEdge, words_rx [''overloaded'', ''overloaded_error''], WordEdge],
        words_rx [''high demand'', ''temporarily overloaded'', ''temporary overloaded'', ''capacity exceeded'']]),
     (''network'', words_rx [''network'', ''fetch failed'', ''socket'', ''econnreset'', ''econnrefused'',
        ''eai_again'', ''enetdown'', ''ehostunreach'', ''ehostdown'', ''enetreset'', ''enetunreach'', ''epipe'']),
     (''timeout'', words_rx [''timeout'', ''timed out'', ''stalled before execution start'', ''etimedout'']),
     (''server_error'', SERVER_ERROR_PATTERN)]"

record CronRetryHint =
  rh_retryable :: bool
  rh_category :: "string option"

definition resolveCronExecutionRetryHint ::
  "string option \<Rightarrow> string list option \<Rightarrow> string option \<Rightarrow> CronRetryHint" where
  "resolveCronExecutionRetryHint error retryOn classifiedReason =
     (case nonempty_string error of
        None \<Rightarrow> \<lparr>rh_retryable = False, rh_category = None\<rparr>
      | Some error \<Rightarrow>
          if rx_test SESSION_LIFECYCLE_CLAIM_ERROR_PATTERN error
          then \<lparr>rh_retryable = True, rh_category = None\<rparr>
          else
            let keys = (case retryOn of
                  Some (k # ks) \<Rightarrow> k # ks | _ \<Rightarrow> map fst TRANSIENT_PATTERNS);
                classified = nonempty_string classifiedReason
            in if (case classified of Some c \<Rightarrow> c \<in> set keys | None \<Rightarrow> False)
               then \<lparr>rh_retryable = True, rh_category = classified\<rparr>
               else (case List.find (\<lambda>key. case map_of TRANSIENT_PATTERNS key of
                         Some pattern \<Rightarrow> rx_test_i pattern error | None \<Rightarrow> False) keys of
                       Some key \<Rightarrow> \<lparr>rh_retryable = True, rh_category = Some key\<rparr>
                     | None \<Rightarrow> \<lparr>rh_retryable = False, rh_category = None\<rparr>))"

section \<open>What the comments promise\<close>

text \<open>Numbers in prose are no server errors, and the usual forms of one are.\<close>

lemma incidental_numbers:
  "\<not> rx_test_i SERVER_ERROR_PATTERN ''context limit 512 exceeded''"
  "\<not> rx_test_i SERVER_ERROR_PATTERN ''exited with 503 lines''"
  "\<not> rx_test_i SERVER_ERROR_PATTERN ''pid 511 killed''"
  by code_simp+

lemma server_error_forms:
  "rx_test_i SERVER_ERROR_PATTERN ''503''" "rx_test_i SERVER_ERROR_PATTERN ''502 Bad Gateway''"
  "rx_test_i SERVER_ERROR_PATTERN ''HTTP 500''"
  by code_simp+

text \<open>A category that the configuration does not list is never retried.\<close>

lemma retry_category_listed:
  assumes "rh_category (resolveCronExecutionRetryHint error (Some (k # ks)) reason) = Some c"
  shows "c \<in> set (k # ks)"
proof (cases "nonempty_string error")
  case (Some e)
  with assms show ?thesis
    by (auto simp: resolveCronExecutionRetryHint_def Let_def split: if_splits option.splits dest: find_Some_in)
qed (use assms in \<open>simp add: resolveCronExecutionRetryHint_def\<close>)

lemma retry_needs_error: "rh_retryable (resolveCronExecutionRetryHint error retryOn reason) \<Longrightarrow> \<exists>e. error = Some e \<and> e \<noteq> []"
  by (cases "nonempty_string error") (auto simp: resolveCronExecutionRetryHint_def)

end
