(* ===== verification/Cron_Runs.thy ===== *)
theory Cron_Runs
  imports Cron_Retry_Hint
begin

text \<open>
  What a finished run does to its job: \<^verbatim>\<open>applyJobResult\<close> and the trigger results of
  \<^verbatim>\<open>src/cron/service/timer.ts\<close> with the failure alerts of \<^verbatim>\<open>failure-alerts.ts\<close>,
  which jobs are runnable, and the delay of the timer. A result carries the class that the agent
  runner gives to the text of its error. Not modelled: the bookkeeping of deliveries and
  diagnostics on the job, which no scheduling decision reads.
\<close>

section \<open>Policies\<close>

definition MAX_TIMER_DELAY_MS :: int where "MAX_TIMER_DELAY_MS = 60000"
definition MIN_REFIRE_GAP_MS :: int where "MIN_REFIRE_GAP_MS = 2000"
definition DEFAULT_MAX_TRANSIENT_RETRIES :: int where "DEFAULT_MAX_TRANSIENT_RETRIES = 3"
definition HEARTBEAT_SKIP_DISABLED :: string where "HEARTBEAT_SKIP_DISABLED = ''disabled''"

definition resolveCronTriggerMinIntervalMs :: "CronConfig \<Rightarrow> int" where
  "resolveCronTriggerMinIntervalMs config =
     (case cc_triggerMinIntervalMs config of UNumber (Fin q) \<Rightarrow> max 1 \<lfloor>q\<rfloor> | _ \<Rightarrow> 30000)"

definition resolveCronNextRunWithLowerBound :: "int option \<Rightarrow> int \<Rightarrow> int option" where
  "resolveCronNextRunWithLowerBound naturalNext lowerBoundMs =
     (case naturalNext of None \<Rightarrow> None | Some n \<Rightarrow> Some (max n lowerBoundMs))"

record CronRetryPolicy =
  cp_maxAttempts :: int
  cp_backoffMs :: DelaySchedule
  cp_retryOn :: "string list option"

definition cron_retry_policy :: "CronConfig \<Rightarrow> CronRetryPolicy" where
  "cron_retry_policy config =
     \<lparr>cp_maxAttempts = coalesce (cc_maxAttempts config) DEFAULT_MAX_TRANSIENT_RETRIES,
      cp_backoffMs = coalesce (cc_backoffMs config)
        (case take 3 (delays DEFAULT_ERROR_BACKOFF_SCHEDULE_MS) of
           d # ds \<Rightarrow> Delays d ds | [] \<Rightarrow> DEFAULT_ERROR_BACKOFF_SCHEDULE_MS),
      cp_retryOn = (case cc_retryOn config of Some (k # ks) \<Rightarrow> Some (k # ks) | _ \<Rightarrow> None)\<rparr>"

datatype RetryReason = TransientRetry | MaxRetriesExhausted | PermanentError | DisabledHeartbeatRetry

record CronRetryDecision =
  rd_retryable :: bool
  rd_failures :: int
  rd_category :: "string option"
  rd_backoffMs :: "int option"
  rd_reason :: RetryReason

definition resolveTransientCronRetryDecision ::
  "CronConfig \<Rightarrow> string option \<Rightarrow> string option \<Rightarrow> int option \<Rightarrow> CronRetryDecision" where
  "resolveTransientCronRetryDecision config error lastErrorReason consecutiveErrors =
     (let retryConfig = cron_retry_policy config;
          retryHint = resolveCronExecutionRetryHint error (cp_retryOn retryConfig) lastErrorReason;
          consecutiveErrors = coalesce consecutiveErrors 0
      in if \<not> rh_retryable retryHint
         then \<lparr>rd_retryable = False, rd_failures = consecutiveErrors, rd_category = rh_category retryHint,
               rd_backoffMs = None, rd_reason = PermanentError\<rparr>
         else if cp_maxAttempts retryConfig < consecutiveErrors
         then \<lparr>rd_retryable = False, rd_failures = consecutiveErrors, rd_category = rh_category retryHint,
               rd_backoffMs = None, rd_reason = MaxRetriesExhausted\<rparr>
         else \<lparr>rd_retryable = True, rd_failures = consecutiveErrors, rd_category = rh_category retryHint,
               rd_backoffMs = Some (errorBackoffMs consecutiveErrors (cp_backoffMs retryConfig)),
               rd_reason = TransientRetry\<rparr>)"

definition resolveDisabledHeartbeatOneShotRetryDecision ::
  "CronConfig \<Rightarrow> int option \<Rightarrow> CronRetryDecision" where
  "resolveDisabledHeartbeatOneShotRetryDecision config consecutiveSkipped =
     (let retryConfig = cron_retry_policy config; consecutiveSkipped = coalesce consecutiveSkipped 0
      in if cp_maxAttempts retryConfig < consecutiveSkipped
         then \<lparr>rd_retryable = False, rd_failures = consecutiveSkipped, rd_category = None,
               rd_backoffMs = None, rd_reason = MaxRetriesExhausted\<rparr>
         else \<lparr>rd_retryable = True, rd_failures = consecutiveSkipped, rd_category = None,
               rd_backoffMs = Some (errorBackoffMs consecutiveSkipped (cp_backoffMs retryConfig)),
               rd_reason = DisabledHeartbeatRetry\<rparr>)"

section \<open>Failure alerts\<close>

record ResolvedFailureAlert =
  ra_after :: int
  ra_cooldownMs :: int
  ra_channel :: string
  ra_to :: "string option"
  ra_mode :: "string option"
  ra_alertAccountId :: "string option"
  ra_includeSkipped :: bool

definition normalizeTo :: "string option \<Rightarrow> string option" where
  "normalizeTo input = (case input of None \<Rightarrow> None | Some s \<Rightarrow> nonempty_string (Some (js_trim s)))"

definition normalizeCronMessageChannel :: "string option \<Rightarrow> string option" where
  "normalizeCronMessageChannel input =
     (case input of None \<Rightarrow> None | Some s \<Rightarrow> normalizeOptionalLowercaseString (JString s))"

definition clampPositiveInt :: "unknown_value \<Rightarrow> int \<Rightarrow> int" where
  "clampPositiveInt v fallback =
     (case v of UNumber (Fin q) \<Rightarrow> if 1 \<le> \<lfloor>q\<rfloor> then \<lfloor>q\<rfloor> else fallback | _ \<Rightarrow> fallback)"

definition clampNonNegativeInt :: "unknown_value \<Rightarrow> int \<Rightarrow> int" where
  "clampNonNegativeInt v fallback =
     (case v of UNumber (Fin q) \<Rightarrow> if 0 \<le> \<lfloor>q\<rfloor> then \<lfloor>q\<rfloor> else fallback | _ \<Rightarrow> fallback)"

definition defined_or :: "unknown_value \<Rightarrow> unknown_value \<Rightarrow> unknown_value" where
  "defined_or a b = (if a = UOther then b else a)"

definition resolveFailureAlert :: "CronConfig \<Rightarrow> CronJob \<Rightarrow> ResolvedFailureAlert option" where
  "resolveFailureAlert config job =
     (let globalConfig = cc_failureAlert config;
          jobConfig = (case jb_failureAlert job of AlertPolicy p \<Rightarrow> Some p | _ \<Rightarrow> None);
          get = (\<lambda>field. case jobConfig of Some p \<Rightarrow> field p | None \<Rightarrow> None);
          get_global = (\<lambda>field. case globalConfig of Some p \<Rightarrow> field p | None \<Rightarrow> None);
          number = (\<lambda>field. defined_or (case jobConfig of Some p \<Rightarrow> field p | None \<Rightarrow> UOther)
            (case globalConfig of Some p \<Rightarrow> field p | None \<Rightarrow> UOther));
          mode = coalesce2 (get fa_mode) (get_global fa_mode);
          explicitTo = normalizeTo (get fa_to)
      in if jb_failureAlert job = AlertOff then None
         else if jobConfig = None \<and> (globalConfig = None \<or> cc_failureAlertEnabled config \<noteq> Some True) then None
         else Some \<lparr>ra_after = clampPositiveInt (number fa_after) 2,
           ra_cooldownMs = clampNonNegativeInt (number fa_cooldownMs) (60 * 60000),
           ra_channel = coalesce (coalesce2 (normalizeCronMessageChannel (get fa_channel))
             (normalizeCronMessageChannel (case jb_delivery job of Some d \<Rightarrow> de_channel d | None \<Rightarrow> None))) ''last'',
           ra_to = (if mode = Some ''webhook'' then explicitTo
             else coalesce2 explicitTo (normalizeTo (case jb_delivery job of Some d \<Rightarrow> de_to d | None \<Rightarrow> None))),
           ra_mode = mode,
           ra_alertAccountId = coalesce2 (get fa_accountId) (get_global fa_accountId),
           ra_includeSkipped = coalesce (coalesce2
             (case jobConfig of Some p \<Rightarrow> fa_includeSkipped p | None \<Rightarrow> None)
             (case globalConfig of Some p \<Rightarrow> fa_includeSkipped p | None \<Rightarrow> None)) False\<rparr>)"

text \<open>The time of an alert is that of a replayed run, which is recorded only, or now.\<close>

definition maybeEmitFailureAlert ::
  "int \<Rightarrow> int option \<Rightarrow> ResolvedFailureAlert option \<Rightarrow> CronRunStatus \<Rightarrow> string option \<Rightarrow> int \<Rightarrow> CronJob \<Rightarrow>
     CronJob \<times> CronEffect list" where
  "maybeEmitFailureAlert clock replayedAtMs alertConfig status error consecutiveCount job =
     (case alertConfig of
        None \<Rightarrow> (job, [])
      | Some alert \<Rightarrow>
          if consecutiveCount < ra_after alert then (job, [])
          else if (case jb_delivery job of Some d \<Rightarrow> de_bestEffort d = Some True | None \<Rightarrow> False) then (job, [])
          else
            let now = coalesce replayedAtMs clock;
                inCooldown = (case st_lastFailureAlertAtMs (jb_state job) of
                  Some lastAlert \<Rightarrow> now - lastAlert < max 0 (ra_cooldownMs alert) | None \<Rightarrow> False)
            in if inCooldown then (job, [])
               else (job\<lparr>jb_state := (jb_state job)\<lparr>st_lastFailureAlertAtMs := Some now\<rparr>\<rparr>,
                 if replayedAtMs = None
                 then [FailureAlert (jb_id job) status consecutiveCount error (ra_channel alert) (ra_to alert)]
                 else []))"

section \<open>The result of a run\<close>

record CronRunResult =
  rr_status :: CronRunStatus
  rr_error :: "string option"
  rr_errorReason :: "string option"
  rr_startedAt :: int
  rr_endedAt :: int

record ApplyOptions =
  ao_preserveSchedule :: bool
  ao_replayFailureAlertAtMs :: "int option"

definition no_options :: ApplyOptions where
  "no_options = \<lparr>ao_preserveSchedule = False, ao_replayFailureAlertAtMs = None\<rparr>"

definition is_every :: "CronJob \<Rightarrow> bool" where
  "is_every job = (case jb_schedule job of EverySchedule _ _ \<Rightarrow> True | _ \<Rightarrow> False)"

definition is_on_exit :: "CronJob \<Rightarrow> bool" where
  "is_on_exit job = (case jb_schedule job of OnExitSchedule _ _ \<Rightarrow> True | _ \<Rightarrow> False)"

text \<open>The outcome is written to the state of the job.\<close>

definition record_outcome :: "CronJob \<Rightarrow> CronRunResult \<Rightarrow> CronJob" where
  "record_outcome job result =
     job\<lparr>jb_updatedAtMs := rr_endedAt result,
         jb_state := (jb_state job)\<lparr>
           st_runningAtMs := None,
           st_lastRunAtMs := Some (rr_startedAt result),
           st_lastRunStatus := Some (rr_status result),
           st_lastStatus := Some (rr_status result),
           st_lastDurationMs := Some (max 0 (rr_endedAt result - rr_startedAt result)),
           st_lastError := rr_error result,
           st_lastErrorReason := (if rr_status result = RunError \<and> rr_error result \<noteq> None
             then rr_errorReason result else None)\<rparr>\<rparr>"

text \<open>The counters of errors and skipped runs, and the alerts they lead to.\<close>

definition count_outcome ::
  "CronConfig \<Rightarrow> int \<Rightarrow> CronRunResult \<Rightarrow> ApplyOptions \<Rightarrow> CronJob \<Rightarrow> CronJob \<times> CronEffect list" where
  "count_outcome config clock result opts job =
     (let alertConfig = resolveFailureAlert config job; st = jb_state job
      in case rr_status result of
           RunError \<Rightarrow>
             let errors = coalesce (st_consecutiveErrors st) 0 + 1
             in maybeEmitFailureAlert clock (ao_replayFailureAlertAtMs opts) alertConfig RunError
                  (rr_error result) errors
                  (job\<lparr>jb_state := st\<lparr>st_consecutiveErrors := Some errors, st_consecutiveSkipped := Some 0\<rparr>\<rparr>)
         | RunSkipped \<Rightarrow>
             let skipped = coalesce (st_consecutiveSkipped st) 0 + 1;
                 job = job\<lparr>jb_state := st\<lparr>st_consecutiveErrors := Some 0, st_consecutiveSkipped := Some skipped\<rparr>\<rparr>
             in if (case alertConfig of Some a \<Rightarrow> ra_includeSkipped a | None \<Rightarrow> False)
                then maybeEmitFailureAlert clock (ao_replayFailureAlertAtMs opts) alertConfig RunSkipped
                       (rr_error result) skipped job
                else (job\<lparr>jb_state := (jb_state job)\<lparr>st_lastFailureAlertAtMs := None\<rparr>\<rparr>, [])
         | RunOk \<Rightarrow>
             (job\<lparr>jb_state := st\<lparr>st_consecutiveErrors := Some 0, st_consecutiveSkipped := Some 0,
                st_lastFailureAlertAtMs := None\<rparr>\<rparr>, []))"

definition shouldRetryDisabledHeartbeatOneShot :: "CronJob \<Rightarrow> CronRunResult \<Rightarrow> bool" where
  "shouldRetryDisabledHeartbeatOneShot job result \<longleftrightarrow>
     one_shot job \<and> jb_sessionTarget job = TargetMain \<and> jb_wakeMode job = WakeNow \<and>
     rr_status result = RunSkipped \<and> rr_error result = Some HEARTBEAT_SKIP_DISABLED"

definition disable_job :: "CronJob \<Rightarrow> CronJob" where
  "disable_job job = (set_next None job)\<lparr>jb_enabled := Some False\<rparr>"

definition finish_one_shot :: "CronConfig \<Rightarrow> CronRunResult \<Rightarrow> CronJob \<Rightarrow> CronJob" where
  "finish_one_shot config result job =
     (if shouldRetryDisabledHeartbeatOneShot job result
      then (let decision = resolveDisabledHeartbeatOneShotRetryDecision config
                  (st_consecutiveSkipped (jb_state job))
            in case (rd_retryable decision, rd_backoffMs decision) of
                 (True, Some backoffMs) \<Rightarrow>
                   (set_next (Some (rr_endedAt result + backoffMs)) job)\<lparr>jb_enabled := Some True\<rparr>
               | _ \<Rightarrow> disable_job job)
      else if rr_status result = RunOk \<or> rr_status result = RunSkipped then disable_job job
      else (let decision = resolveTransientCronRetryDecision config (rr_error result)
                  (st_lastErrorReason (jb_state job)) (st_consecutiveErrors (jb_state job))
            in case (rd_retryable decision, rd_backoffMs decision) of
                 (True, Some backoffMs) \<Rightarrow> set_next (Some (rr_endedAt result + backoffMs)) job
               | _ \<Rightarrow> disable_job job))"

text \<open>The next run by the schedule alone; a schedule that cannot be computed counts as one without a next
  run. \<open>previous\<close> is the time of the run before this one, \<open>on_grid\<close> returns an interval job to the
  grid of its anchor.\<close>

definition natural_next ::
  "'c CronHost \<Rightarrow> ApplyOptions \<Rightarrow> int option \<Rightarrow> bool \<Rightarrow> int \<Rightarrow> CronJob \<Rightarrow> int option \<times> CronJob \<times> CronEffect list" where
  "natural_next host opts previous on_grid endedAt job =
     (case (if ao_preserveSchedule opts \<and> is_every job
            then computeJobNextRunAtMs host
                   (job\<lparr>jb_state := (jb_state job)\<lparr>st_lastRunAtMs := previous\<rparr>\<rparr>) endedAt
            else if on_grid \<and> is_every job then next_run host (jb_schedule job) endedAt
            else computeJobNextRunAtMs host job endedAt) of
        Inr n \<Rightarrow> (n, job, [])
      | Inl err \<Rightarrow> (let (job, effects) = recordScheduleComputeError job err in (None, job, effects)))"

definition finish_failed ::
  "'c CronHost \<Rightarrow> CronConfig \<Rightarrow> CronRunResult \<Rightarrow> ApplyOptions \<Rightarrow> int option \<Rightarrow> int \<Rightarrow> CronJob \<Rightarrow>
     CronJob \<times> CronEffect list" where
  "finish_failed host config result opts previous previousConsecutiveErrors job =
     (let decision = resolveTransientCronRetryDecision config (rr_error result)
            (st_lastErrorReason (jb_state job)) (st_consecutiveErrors (jb_state job));
          (normalNext, job, effects) = natural_next host opts previous
            (rd_retryable decision \<or> 0 < previousConsecutiveErrors) (rr_endedAt result) job;
          retryNext = (case (rd_retryable decision, rd_backoffMs decision, normalNext) of
            (True, Some backoffMs, Some n) \<Rightarrow>
              if \<not> ao_preserveSchedule opts \<and> rr_endedAt result + backoffMs < n
              then Some (rr_endedAt result + backoffMs) else None
          | _ \<Rightarrow> None);
          backoff = errorBackoffMs (coalesce (st_consecutiveErrors (jb_state job)) 1) (backoff_schedule config);
          backoffNext = rr_endedAt result + backoff;
          nextRun = (if retryNext \<noteq> None then retryNext
            else if is_cron job then resolveCronNextRunWithLowerBound normalNext backoffNext
            else (case normalNext of Some n \<Rightarrow> Some (max n backoffNext) | None \<Rightarrow> Some backoffNext))
      in (set_next nextRun job, effects))"

definition finish_completed ::
  "'c CronHost \<Rightarrow> CronConfig \<Rightarrow> CronRunResult \<Rightarrow> ApplyOptions \<Rightarrow> int option \<Rightarrow> int \<Rightarrow> CronJob \<Rightarrow>
     CronJob \<times> CronEffect list" where
  "finish_completed host config result opts previous previousConsecutiveErrors job =
     (let (naturalNext, job, effects) = natural_next host opts previous
            (0 < previousConsecutiveErrors) (rr_endedAt result) job;
          triggerFloor = (if jb_trigger job \<noteq> None then resolveCronTriggerMinIntervalMs config else 0);
          nextRun = (if is_cron job
            then resolveCronNextRunWithLowerBound naturalNext (rr_endedAt result + max MIN_REFIRE_GAP_MS triggerFloor)
            else (case naturalNext of
              Some n \<Rightarrow> if jb_trigger job \<noteq> None
                then Some (max n (rr_endedAt result + resolveCronTriggerMinIntervalMs config)) else Some n
            | None \<Rightarrow> None))
      in (set_next nextRun job, effects))"

definition applyJobResult ::
  "'c CronHost \<Rightarrow> CronConfig \<Rightarrow> int \<Rightarrow> CronJob \<Rightarrow> CronRunResult \<Rightarrow> ApplyOptions \<Rightarrow>
     bool \<times> CronJob \<times> CronEffect list" where
  "applyJobResult host config clock job result opts =
     (let prevLastRunAtMs = st_lastRunAtMs (jb_state job);
          job = record_outcome job result;
          previousConsecutiveErrors = coalesce (st_consecutiveErrors (jb_state job)) 0;
          (job, alerts) = count_outcome config clock result opts job;
          shouldDelete = ((one_shot job \<or> is_on_exit job) \<and> jb_deleteAfterRun job = Some True \<and>
            rr_status result = RunOk)
      in if shouldDelete then (True, job, alerts)
         else if one_shot job then (False, finish_one_shot config result job, alerts)
         else if rr_status result = RunError \<and> isJobEnabled job
         then (let (job, effects) = finish_failed host config result opts prevLastRunAtMs
                      previousConsecutiveErrors job
               in (False, job, alerts @ effects))
         else if isJobEnabled job
         then (let (job, effects) = finish_completed host config result opts prevLastRunAtMs
                      previousConsecutiveErrors job
               in (False, job, alerts @ effects))
         else (False, set_next None job, alerts))"

section \<open>Triggers\<close>

record TriggerEval =
  te_busy :: bool
  te_fired :: bool
  te_stateChanged :: bool
  te_state :: "string option"

definition applyTriggerEvaluationState :: "CronJob \<Rightarrow> TriggerEval \<Rightarrow> int \<Rightarrow> CronJob" where
  "applyTriggerEvaluationState job triggerEval evaluatedAtMs =
     (if te_busy triggerEval then job
      else
        let st = jb_state job;
            st = st\<lparr>st_lastTriggerEvalAtMs := Some evaluatedAtMs,
                    st_triggerEvalCount := Some (coalesce (st_triggerEvalCount st) 0 + 1)\<rparr>;
            st = (if te_stateChanged triggerEval then st\<lparr>st_triggerState := te_state triggerEval\<rparr> else st);
            st = (if te_fired triggerEval then st\<lparr>st_lastTriggerFireAtMs := Some evaluatedAtMs\<rparr> else st)
        in job\<lparr>jb_state := st\<rparr>)"

definition applyTriggerRunResult :: "CronJob \<Rightarrow> CronRunStatus \<Rightarrow> int \<Rightarrow> TriggerEval option \<Rightarrow> CronJob" where
  "applyTriggerRunResult job status endedAt triggerEval =
     (case triggerEval of
        None \<Rightarrow> job
      | Some ev \<Rightarrow>
          let persistedEval = (if status = RunOk then ev else ev\<lparr>te_stateChanged := False, te_state := None\<rparr>);
              job = applyTriggerEvaluationState job persistedEval endedAt
          in if te_fired ev \<and> (case jb_trigger job of Some t \<Rightarrow> tr_once t = Some True | None \<Rightarrow> False) \<and>
                status = RunOk
             then disable_job job else job)"

definition applyTriggerNoFireResult ::
  "'c CronHost \<Rightarrow> CronConfig \<Rightarrow> CronJob \<Rightarrow> int \<Rightarrow> TriggerEval \<Rightarrow> CronJob \<times> CronEffect list" where
  "applyTriggerNoFireResult host config job endedAt triggerEval =
     (let job = job\<lparr>jb_updatedAtMs := endedAt, jb_state := (jb_state job)\<lparr>st_runningAtMs := None\<rparr>\<rparr>;
          job = (if te_busy triggerEval then job
            else applyTriggerEvaluationState
              (job\<lparr>jb_state := (jb_state job)\<lparr>st_consecutiveErrors := Some 0, st_scheduleErrorCount := Some 0,
                 st_lastFailureAlertAtMs := None\<rparr>\<rparr>) triggerEval endedAt)
      in case computeJobNextRunAtMs host job endedAt of
           Inl err \<Rightarrow> recordScheduleComputeError job err
         | Inr naturalNext \<Rightarrow>
             let floorMs = max MIN_REFIRE_GAP_MS (resolveCronTriggerMinIntervalMs config)
             in (set_next (case naturalNext of None \<Rightarrow> None | Some n \<Rightarrow> Some (max n (endedAt + floorMs))) job, []))"

section \<open>Facts\<close>

text \<open>The bookkeeping of a run changes the state of the job only.\<close>

lemma alert_keeps: "\<exists>a. fst (maybeEmitFailureAlert clock r cfg status error n job) =
    job\<lparr>jb_state := (jb_state job)\<lparr>st_lastFailureAlertAtMs := a\<rparr>\<rparr>"
proof -
  let ?set = "\<lambda>a. job\<lparr>jb_state := (jb_state job)\<lparr>st_lastFailureAlertAtMs := a\<rparr>\<rparr>"
  have "fst (maybeEmitFailureAlert clock r cfg status error n job) = job \<or>
      fst (maybeEmitFailureAlert clock r cfg status error n job) = ?set (Some (coalesce r clock))"
    by (simp add: maybeEmitFailureAlert_def Let_def split: option.split)
  moreover have "job = ?set (st_lastFailureAlertAtMs (jb_state job))" by simp
  ultimately show ?thesis by (elim disjE) (rule exI, erule trans, assumption, rule exI)
qed

definition after_errors :: "CronJob \<Rightarrow> int \<Rightarrow> int option \<Rightarrow> CronJob \<Rightarrow> bool" where
  "after_errors job n a job' \<longleftrightarrow>
     job' = job\<lparr>jb_state := (jb_state job)\<lparr>st_consecutiveErrors := Some n, st_consecutiveSkipped := Some 0,
       st_lastFailureAlertAtMs := a\<rparr>\<rparr>"

lemma count_error:
  assumes "rr_status result = RunError"
  shows "\<exists>a. after_errors job (coalesce (st_consecutiveErrors (jb_state job)) 0 + 1) a
    (fst (count_outcome config clock result opts job))"
proof -
  let ?n = "coalesce (st_consecutiveErrors (jb_state job)) 0 + 1"
  obtain a where "fst (count_outcome config clock result opts job) =
      job\<lparr>jb_state := (jb_state job)\<lparr>st_consecutiveErrors := Some ?n, st_consecutiveSkipped := Some 0,
        st_lastFailureAlertAtMs := a\<rparr>\<rparr>"
    using assms alert_keeps [of clock "ao_replayFailureAlertAtMs opts" "resolveFailureAlert config job" RunError
      "rr_error result" ?n "job\<lparr>jb_state := (jb_state job)\<lparr>st_consecutiveErrors := Some ?n,
        st_consecutiveSkipped := Some 0\<rparr>\<rparr>"]
    by (auto simp: count_outcome_def Let_def)
  then show ?thesis by (auto simp: after_errors_def)
qed

lemma count_keeps:
  "\<exists>st. fst (count_outcome config clock result opts job) = job\<lparr>jb_state := st\<rparr>"
proof -
  have keeps: "\<exists>st. fst (maybeEmitFailureAlert clock r cfg status error n (job\<lparr>jb_state := st'\<rparr>)) = job\<lparr>jb_state := st\<rparr>"
    for r cfg status error n st'
    using alert_keeps [of clock r cfg status error n "job\<lparr>jb_state := st'\<rparr>"] by auto
  show ?thesis
    by (cases "rr_status result") (auto simp: count_outcome_def Let_def intro: keeps)
qed

lemma schedule_error_keeps:
  "jb_schedule (fst (recordScheduleComputeError job err)) = jb_schedule job"
  "jb_trigger (fst (recordScheduleComputeError job err)) = jb_trigger job"
  "st_consecutiveErrors (jb_state (fst (recordScheduleComputeError job err))) = st_consecutiveErrors (jb_state job)"
  "st_lastRunAtMs (jb_state (fst (recordScheduleComputeError job err))) = st_lastRunAtMs (jb_state job)"
  "st_lastRunStatus (jb_state (fst (recordScheduleComputeError job err))) = st_lastRunStatus (jb_state job)"
  "st_lastStatus (jb_state (fst (recordScheduleComputeError job err))) = st_lastStatus (jb_state job)"
  "st_lastDurationMs (jb_state (fst (recordScheduleComputeError job err))) = st_lastDurationMs (jb_state job)"
  by (simp_all add: recordScheduleComputeError_def Let_def)

lemma natural_keeps:
  assumes "natural_next host opts previous g t job = (n, job', effects)"
  shows "jb_schedule job' = jb_schedule job" "jb_trigger job' = jb_trigger job"
    "st_consecutiveErrors (jb_state job') = st_consecutiveErrors (jb_state job)"
    "st_lastRunAtMs (jb_state job') = st_lastRunAtMs (jb_state job)"
    "st_lastRunStatus (jb_state job') = st_lastRunStatus (jb_state job)"
    "st_lastStatus (jb_state job') = st_lastStatus (jb_state job)"
    "st_lastDurationMs (jb_state job') = st_lastDurationMs (jb_state job)"
proof -
  have "job' = job \<or> (\<exists>err. job' = fst (recordScheduleComputeError job err))"
    using assms unfolding natural_next_def by (auto split: sum.splits prod.splits) (metis fst_conv)
  then show "jb_schedule job' = jb_schedule job" "jb_trigger job' = jb_trigger job"
    "st_consecutiveErrors (jb_state job') = st_consecutiveErrors (jb_state job)"
    "st_lastRunAtMs (jb_state job') = st_lastRunAtMs (jb_state job)"
    "st_lastRunStatus (jb_state job') = st_lastRunStatus (jb_state job)"
    "st_lastStatus (jb_state job') = st_lastStatus (jb_state job)"
    "st_lastDurationMs (jb_state job') = st_lastDurationMs (jb_state job)"
    using schedule_error_keeps [of job] by auto
qed

lemma is_cron_not_one_shot: "is_cron job \<Longrightarrow> \<not> one_shot job \<and> \<not> is_on_exit job"
  by (auto simp: is_cron_def one_shot_def is_on_exit_def split: CronSchedule.splits)

text \<open>The job after the bookkeeping.\<close>

definition booked :: "CronConfig \<Rightarrow> int \<Rightarrow> CronJob \<Rightarrow> CronRunResult \<Rightarrow> ApplyOptions \<Rightarrow> CronJob" where
  "booked config clock job result opts = fst (count_outcome config clock result opts (record_outcome job result))"

lemma booked_keeps:
  "jb_schedule (booked config clock job result opts) = jb_schedule job"
  "jb_trigger (booked config clock job result opts) = jb_trigger job"
  "jb_enabled (booked config clock job result opts) = jb_enabled job"
  "jb_id (booked config clock job result opts) = jb_id job"
  using count_keeps [of config clock result opts "record_outcome job result"]
  by (auto simp: booked_def record_outcome_def)

lemma booked_kind:
  "one_shot (booked config clock job result opts) = one_shot job"
  "is_cron (booked config clock job result opts) = is_cron job"
  "is_on_exit (booked config clock job result opts) = is_on_exit job"
  "isJobEnabled (booked config clock job result opts) = isJobEnabled job"
  by (simp_all add: one_shot_def is_cron_def is_on_exit_def isJobEnabled_def booked_keeps)

lemma booked_error:
  assumes "rr_status result = RunError"
  shows "\<exists>a. after_errors (record_outcome job result) (coalesce (st_consecutiveErrors (jb_state job)) 0 + 1) a
    (booked config clock job result opts)"
  using count_error [OF assms, of "record_outcome job result" config clock opts]
  by (simp add: booked_def record_outcome_def)

text \<open>A completed cron job does not fire again at once: after a run that succeeded or was skipped
  the next run is at least two seconds after the end of that run, whatever the schedule says, and
  for a job with a trigger at least the configured interval.\<close>

theorem completed_cron_refire_gap:
  assumes "applyJobResult host config clock job result opts = (deleted, job', effects)"
    and "is_cron job" "rr_status result \<noteq> RunError" "st_nextRunAtMs (jb_state job') = Some run"
  shows "rr_endedAt result + 2000 \<le> run \<and>
    (jb_trigger job \<noteq> None \<longrightarrow> rr_endedAt result + resolveCronTriggerMinIntervalMs config \<le> run)"
proof -
  let ?b = "booked config clock job result opts"
  obtain alerts where b: "count_outcome config clock result opts (record_outcome job result) = (?b, alerts)"
    by (metis booked_def prod.collapse)
  have kind: "\<not> one_shot ?b" "\<not> is_on_exit ?b" "is_cron ?b"
    using is_cron_not_one_shot [OF assms(2)] assms(2) by (simp_all add: booked_kind)
  define prev where "prev = st_lastRunAtMs (jb_state job)"
  define errs where "errs = coalesce (st_consecutiveErrors (jb_state (record_outcome job result))) 0"
  have "isJobEnabled ?b" "job' = fst (finish_completed host config result opts prev errs ?b)"
    using assms(1,3,4) kind by (auto simp: applyJobResult_def b Let_def split_beta prev_def errs_def split: if_splits)
  moreover obtain n j e where nat: "natural_next host opts prev (0 < errs) (rr_endedAt result) ?b = (n, j, e)"
    by (metis prod_cases3)
  moreover have "is_cron j" "jb_trigger j = jb_trigger job"
    using natural_keeps [OF nat] kind(3) by (simp_all add: is_cron_def booked_keeps)
  ultimately show ?thesis
    using assms(4) by (auto simp: finish_completed_def nat Let_def resolveCronNextRunWithLowerBound_def
        MIN_REFIRE_GAP_MS_def split: option.splits)
qed

section \<open>Failing one-shot jobs\<close>

lemma transient_limit:
  "cp_maxAttempts (cron_retry_policy config) < n \<Longrightarrow>
     \<not> rd_retryable (resolveTransientCronRetryDecision config error reason (Some n))"
  by (simp add: resolveTransientCronRetryDecision_def Let_def)

lemma one_shot_failure:
  fixes host :: "'c CronHost" and config :: CronConfig and clock :: int and opts :: ApplyOptions
  assumes "one_shot job" "rr_status result = RunError"
  defines "n \<equiv> coalesce (st_consecutiveErrors (jb_state job)) 0 + 1"
    and "job' \<equiv> fst (snd (applyJobResult host config clock job result opts))"
  shows "one_shot job'" "st_consecutiveErrors (jb_state job') = Some n"
    "cp_maxAttempts (cron_retry_policy config) < n \<Longrightarrow> \<not> isJobEnabled job' \<and> st_nextRunAtMs (jb_state job') = None"
proof -
  let ?b = "booked config clock job result opts"
  obtain a where b: "after_errors (record_outcome job result) n a ?b"
    using booked_error [OF assms(2), of job config clock opts] by (auto simp: n_def)
  have j: "job' = finish_one_shot config result ?b"
    using assms(1,2) booked_kind [of config clock job result opts]
    by (simp add: job'_def applyJobResult_def Let_def split_beta booked_def)
  have retry: "\<not> shouldRetryDisabledHeartbeatOneShot ?b result"
    using assms(2) by (simp add: shouldRetryDisabledHeartbeatOneShot_def)
  have errors: "st_consecutiveErrors (jb_state ?b) = Some n" using b by (simp add: after_errors_def)
  have cases: "job' = disable_job ?b \<or> (\<exists>t. job' = set_next t ?b)"
    using retry assms(2)
    by (auto simp: j finish_one_shot_def Let_def split: prod.splits bool.splits option.splits)
  then show "one_shot job'" using assms(1) booked_kind(1) [of config clock job result opts]
    by (auto simp: disable_job_def one_shot_def)
  show "st_consecutiveErrors (jb_state job') = Some n"
    using cases errors by (auto simp: disable_job_def)
  assume "cp_maxAttempts (cron_retry_policy config) < n"
  from transient_limit [OF this] have "job' = disable_job ?b"
    using retry assms(2) errors by (simp add: j finish_one_shot_def Let_def)
  then show "\<not> isJobEnabled job' \<and> st_nextRunAtMs (jb_state job') = None"
    by (simp add: disable_job_def isJobEnabled_def)
qed

text \<open>The job after a series of runs.\<close>

definition run_results ::
  "'c CronHost \<Rightarrow> CronConfig \<Rightarrow> int \<Rightarrow> ApplyOptions \<Rightarrow> CronJob \<Rightarrow> CronRunResult list \<Rightarrow> CronJob" where
  "run_results host config clock opts job results =
     foldl (\<lambda>job result. fst (snd (applyJobResult host config clock job result opts))) job results"

lemma run_failures:
  "one_shot job \<Longrightarrow> list_all (\<lambda>r. rr_status r = RunError) results \<Longrightarrow>
     one_shot (run_results host config clock opts job results) \<and>
     coalesce (st_consecutiveErrors (jb_state (run_results host config clock opts job results))) 0 =
       coalesce (st_consecutiveErrors (jb_state job)) 0 + int (length results)"
proof (induction results arbitrary: job)
  case (Cons r results)
  note step = one_shot_failure [where job = job and result = r and host = host and config = config
      and clock = clock and opts = opts]
  from Cons.prems have "one_shot (fst (snd (applyJobResult host config clock job r opts)))"
    by (intro step(1)) simp_all
  from Cons.IH [OF this] Cons.prems step(2) show ?case by (simp add: run_results_def)
qed (simp add: run_results_def)

text \<open>C18: A failing one-shot job is not retried for ever: after more consecutive failures than the
  configured attempts it is disabled and has no next run, whatever the errors are.\<close>

theorem one_shot_failures_end:
  assumes "one_shot job" "list_all (\<lambda>r. rr_status r = RunError) results"
    and "0 \<le> coalesce (st_consecutiveErrors (jb_state job)) 0"
    and "coalesce (cc_maxAttempts config) 3 < int (length results)" "results \<noteq> []"
  shows "\<not> isJobEnabled (run_results host config clock opts job results) \<and>
    st_nextRunAtMs (jb_state (run_results host config clock opts job results)) = None"
proof -
  obtain rs r where rs: "results = rs @ [r]" using assms(5) by (cases results rule: rev_cases) auto
  let ?j = "run_results host config clock opts job rs"
  have before: "one_shot ?j" "coalesce (st_consecutiveErrors (jb_state ?j)) 0 =
      coalesce (st_consecutiveErrors (jb_state job)) 0 + int (length rs)"
    using run_failures [OF assms(1), where results = rs and host = host and config = config
        and clock = clock and opts = opts] assms(2)
    unfolding rs by simp_all
  have "cp_maxAttempts (cron_retry_policy config) < coalesce (st_consecutiveErrors (jb_state ?j)) 0 + 1"
    using assms(3,4) before(2) by (simp add: cron_retry_policy_def DEFAULT_MAX_TRANSIENT_RETRIES_def rs)
  moreover have "rr_status r = RunError" using assms(2) by (simp add: rs)
  moreover have "run_results host config clock opts job results =
      fst (snd (applyJobResult host config clock ?j r opts))"
    by (simp add: run_results_def rs)
  ultimately show ?thesis using one_shot_failure(3) [OF before(1)] by simp
qed

section \<open>Failing recurring jobs\<close>

lemma failed_job:
  fixes host :: "'c CronHost" and config :: CronConfig and clock :: int and opts :: ApplyOptions
  assumes "\<not> one_shot job" "rr_status result = RunError" "isJobEnabled job"
  defines "errs \<equiv> coalesce (st_consecutiveErrors (jb_state job)) 0"
    and "b \<equiv> booked config clock job result opts"
  shows "fst (snd (applyJobResult host config clock job result opts)) =
    fst (finish_failed host config result opts (st_lastRunAtMs (jb_state job)) errs b)"
    and "\<exists>a. after_errors (record_outcome job result) (errs + 1) a b"
proof -
  show "\<exists>a. after_errors (record_outcome job result) (errs + 1) a b"
    unfolding b_def errs_def by (rule booked_error [OF assms(2)])
  have kind: "\<not> one_shot b" "isJobEnabled b" using assms(1,3) by (simp_all add: b_def booked_kind)
  have "coalesce (st_consecutiveErrors (jb_state (record_outcome job result))) 0 = errs"
    by (simp add: record_outcome_def errs_def)
  then show "fst (snd (applyJobResult host config clock job result opts)) =
    fst (finish_failed host config result opts (st_lastRunAtMs (jb_state job)) errs b)"
    using assms(2) kind by (simp add: applyJobResult_def Let_def split_beta b_def booked_def)
qed

text \<open>The error delay after the n-th consecutive failure.\<close>

definition error_delay :: "CronConfig \<Rightarrow> CronJob \<Rightarrow> int" where
  "error_delay config job =
     errorBackoffMs (coalesce (st_consecutiveErrors (jb_state job)) 0 + 1) (backoff_schedule config)"

text \<open>C32: A run that is bound to the exit of a command becomes time driven by a failure: when an enabled
  job of that kind is run and fails, it gets a next run at the end of the error delay, although
  such a schedule is documented as never due by time and computes no run itself.\<close>

theorem failed_on_exit_becomes_due:
  assumes "jb_schedule job = OnExitSchedule command cwd" "isJobEnabled job" "rr_status result = RunError"
    and "applyJobResult host config clock job result opts = (deleted, job', effects)"
  shows "next_run host (jb_schedule job) t = Inr None \<and>
    st_nextRunAtMs (jb_state job') = Some (rr_endedAt result + error_delay config job)"
proof -
  let ?b = "booked config clock job result opts"
  let ?errs = "coalesce (st_consecutiveErrors (jb_state job)) 0"
  have "\<not> one_shot job" using assms(1) by (simp add: one_shot_def)
  note failed = failed_job(1) [OF this assms(3,2), where config = config and clock = clock and opts = opts and host = host]
    failed_job(2) [OF this assms(3,2), where config = config and clock = clock and opts = opts]
  have sched: "jb_schedule ?b = OnExitSchedule command cwd" by (simp add: booked_keeps assms(1))
  have errors: "st_consecutiveErrors (jb_state ?b) = Some (?errs + 1)"
    using failed(2) by (auto simp: after_errors_def)
  have none: "next_run host (OnExitSchedule command cwd) t = Inr None" for t
    by (simp add: next_run_def computeNextRunAtMs_def)
  have kinds: "\<not> is_every ?b" "\<not> is_cron ?b" by (simp_all add: is_every_def is_cron_def sched)
  have "computeJobNextRunAtMs host ?b (rr_endedAt result) = Inr None"
    using kinds by (simp add: computeJobNextRunAtMs_def computeStaggeredCronNextRunAtMs_def sched none)
  then have nat: "natural_next host opts p g (rr_endedAt result) ?b = (None, ?b, [])" for p g
    using kinds by (simp add: natural_next_def)
  have "st_nextRunAtMs (jb_state (fst (finish_failed host config result opts (st_lastRunAtMs (jb_state job)) ?errs ?b))) =
      Some (rr_endedAt result + error_delay config job)"
    using kinds by (simp add: finish_failed_def nat Let_def errors error_delay_def split: bool.split option.split)
  moreover have "job' = fst (finish_failed host config result opts (st_lastRunAtMs (jb_state job)) ?errs ?b)"
    using assms(4) failed(1) by simp
  ultimately show ?thesis using assms(1) none by simp
qed

theorem failed_on_exit_becomes_due_witness:
  "st_nextRunAtMs (jb_state (fst (snd (applyJobResult minute_host plain_config 0
     (sample_job (OnExitSchedule ''make'' None) plain_state)
     \<lparr>rr_status = RunError, rr_error = Some ''boom'', rr_errorReason = None, rr_startedAt = 1000, rr_endedAt = 2000\<rparr>
     \<lparr>ao_preserveSchedule = True, ao_replayFailureAlertAtMs = None\<rparr>)))) = Some 32000"
proof -
  let ?job = "sample_job (OnExitSchedule ''make'' None) plain_state"
  let ?r = "\<lparr>rr_status = RunError, rr_error = Some ''boom'', rr_errorReason = None, rr_startedAt = 1000, rr_endedAt = 2000\<rparr>"
  let ?o = "\<lparr>ao_preserveSchedule = True, ao_replayFailureAlertAtMs = None\<rparr>"
  obtain d j e where a: "applyJobResult minute_host plain_config 0 ?job ?r ?o = (d, j, e)" by (metis prod_cases3)
  have "error_delay plain_config ?job = 30000" by code_simp
  with failed_on_exit_becomes_due [OF _ _ _ a, where command = "''make''" and cwd = None and t = 0]
  show ?thesis by (simp add: a)
qed

theorem completed_cron_refire_gap_witness:
  "\<exists>run. st_nextRunAtMs (jb_state (fst (snd (applyJobResult minute_host plain_config 0
     (sample_job minutely plain_state)
     \<lparr>rr_status = RunOk, rr_error = None, rr_errorReason = None, rr_startedAt = 61000, rr_endedAt = 121000\<rparr>
     no_options)))) = Some run \<and> 123000 \<le> run"
proof -
  let ?r = "\<lparr>rr_status = RunOk, rr_error = None, rr_errorReason = None, rr_startedAt = 61000, rr_endedAt = 121000\<rparr>"
  let ?apply = "applyJobResult minute_host plain_config 0 (sample_job minutely plain_state) ?r no_options"
  obtain d j e where a: "?apply = (d, j, e)" by (metis prod_cases3)
  have "\<not> one_shot (sample_job minutely st)" "\<not> is_on_exit (sample_job minutely st)" "is_cron (sample_job minutely st)" for st
    by (simp_all add: one_shot_def is_on_exit_def is_cron_def)
  note kind = this
  let ?b = "booked plain_config 0 (sample_job minutely plain_state) ?r no_options"
  have en: "isJobEnabled ?b" "\<not> one_shot ?b" "\<not> is_on_exit ?b" "is_cron ?b" by (simp_all add: booked_kind kind)
  have b: "schedule_slots minute_host (jb_schedule ?b) {s. s mod 60000 = 0}"
    by (simp add: booked_keeps minute_slots)
  have off: "job_offset minute_host ?b = 1234"
    using minute_offset [of plain_state] by (simp add: job_offset_def booked_keeps)
  obtain r where r: "computeStaggeredCronNextRunAtMs minute_host ?b 121000 = Inr r"
    "next_slot (spread 1234 {s. s mod 60000 = 0}) 121000 r"
    using staggered_next [OF b, of 121000] by (auto simp: off)
  have slot: "(181234 :: int) \<in> spread 1234 {s. s mod 60000 = 0}"
    unfolding spread_def by (rule image_eqI [of _ _ 180000]) simp_all
  have "r \<noteq> None"
  proof
    assume "r = None"
    with r(2) have "\<forall>s \<in> spread 1234 {s. s mod 60000 = 0}. s \<le> 121000" by (simp add: next_slot_def)
    from bspec [OF this slot] show False by simp
  qed
  then have "computeJobNextRunAtMs minute_host ?b 121000 \<noteq> Inr None \<and> (\<exists>x. computeJobNextRunAtMs minute_host ?b 121000 = Inr x)"
    using r(1) en by (auto simp: computeJobNextRunAtMs_def booked_keeps)
  then obtain x where x: "computeJobNextRunAtMs minute_host ?b 121000 = Inr (Some x)" by auto
  have "st_nextRunAtMs (jb_state (fst (snd ?apply))) \<noteq> None"
    using en x by (simp add: applyJobResult_def Let_def split_beta finish_completed_def natural_next_def
        resolveCronNextRunWithLowerBound_def no_options_def is_every_def booked_keeps flip: booked_def)
  with completed_cron_refire_gap [OF a kind(3)] show ?thesis by (auto simp: a)
qed

theorem one_shot_failures_end_witness:
  "\<not> isJobEnabled (run_results minute_host plain_config 0 no_options
     (sample_job (AtSchedule ''2026-01-01'') plain_state)
     (replicate 4 \<lparr>rr_status = RunError, rr_error = Some ''timeout'', rr_errorReason = None,
        rr_startedAt = 1, rr_endedAt = 2\<rparr>))"
  by (rule one_shot_failures_end [THEN conjunct1])
    (simp_all add: one_shot_def plain_state_def plain_config_def eval_nat_numeral)

end
