(* ===== verification/Cron_Ticks.thy ===== *)
theory Cron_Ticks
  imports Cron_Runs
begin

text \<open>
  The decisions of the timer in \<^verbatim>\<open>src/cron/service/timer.ts\<close>: which jobs are runnable, how
  a tick reserves them, how the outcome of a run is stored, when the timer is armed next, and
  which missed runs are made up for after a restart. Each of these is one stretch under the lock
  of the store. Not modelled: running a payload, persistence, task records and log lines.
\<close>

section \<open>Runnable jobs\<close>

definition isErrorBackoffPending :: "CronConfig \<Rightarrow> CronJob \<Rightarrow> int \<Rightarrow> bool" where
  "isErrorBackoffPending config job nowMs \<longleftrightarrow>
     \<not> one_shot job \<and> resolveJobLastRunStatus job = Some RunError \<and>
     (case resolveJobErrorBackoffUntilMs job (backoff_schedule config) of
        Some backoffUntilMs \<Rightarrow> nowMs < backoffUntilMs | None \<Rightarrow> False)"

definition isScheduledTerminalOneShotRetry :: "CronJob \<Rightarrow> CronRunStatus \<Rightarrow> int option \<Rightarrow> int option \<Rightarrow> bool" where
  "isScheduledTerminalOneShotRetry job lastRunStatus lastRun nextRun =
     (case (lastRun, nextRun) of
        (Some l, Some n) \<Rightarrow>
          isJobEnabled job \<and> l < n \<and>
          (lastRunStatus = RunError \<or>
           lastRunStatus = RunSkipped \<and> jb_sessionTarget job = TargetMain \<and> jb_wakeMode job = WakeNow \<and>
           st_lastError (jb_state job) = Some HEARTBEAT_SKIP_DISABLED)
      | _ \<Rightarrow> False)"

record RunnableOptions =
  ro_skipJobIds :: "string list"
  ro_skipAtIfAlreadyRan :: bool
  ro_allowCronMissedRunByLastRun :: bool

definition tick_options :: RunnableOptions where
  "tick_options = \<lparr>ro_skipJobIds = [], ro_skipAtIfAlreadyRan = False, ro_allowCronMissedRunByLastRun = False\<rparr>"

text \<open>A slot of a cron job that passed after its last run.\<close>

definition missed_slot :: "'c CronHost \<Rightarrow> CronJob \<Rightarrow> int \<Rightarrow> bool" where
  "missed_slot host job nowMs =
     (case computeJobPreviousRunAtMs host job nowMs of
        Inr (Some previousRunAtMs) \<Rightarrow>
          (case st_lastRunAtMs (jb_state job) of
             Some lastRunAtMs \<Rightarrow> lastRunAtMs < previousRunAtMs | None \<Rightarrow> False)
      | _ \<Rightarrow> False)"

definition isRunnableJob ::
  "'c CronHost \<Rightarrow> CronConfig \<Rightarrow> int \<Rightarrow> RunnableOptions \<Rightarrow> CronJob \<Rightarrow> bool" where
  "isRunnableJob host config nowMs opts job =
     (let st = jb_state job; lastRunStatus = resolveJobLastRunStatus job
      in if \<not> isJobEnabled job then False
         else if jb_id job \<in> set (ro_skipJobIds opts) then False
         else if st_runningAtMs st \<noteq> None then False
         else if ro_skipAtIfAlreadyRan opts \<and> one_shot job \<and> lastRunStatus \<noteq> None
         then isScheduledTerminalOneShotRetry job (the lastRunStatus) (st_lastRunAtMs st) (st_nextRunAtMs st) \<and>
           (case st_nextRunAtMs st of Some n \<Rightarrow> n \<le> nowMs | None \<Rightarrow> False)
         else if isErrorBackoffPending config job nowMs then False
         else if (case st_nextRunAtMs st of Some n \<Rightarrow> 0 < n \<and> n \<le> nowMs | None \<Rightarrow> False) then True
         else ro_allowCronMissedRunByLastRun opts \<and> is_cron job \<and> missed_slot host job nowMs)"

definition collectRunnableJobs ::
  "'c CronHost \<Rightarrow> CronServiceState \<Rightarrow> int \<Rightarrow> RunnableOptions \<Rightarrow> CronJob list" where
  "collectRunnableJobs host state nowMs opts =
     filter (isRunnableJob host (cs_config state) nowMs opts) (coalesce (cs_store state) [])"

section \<open>A tick\<close>

abbreviation set_running :: "int option \<Rightarrow> CronJob \<Rightarrow> CronJob" where
  "set_running n job \<equiv> job\<lparr>jb_state := (jb_state job)\<lparr>st_runningAtMs := n\<rparr>\<rparr>"

record SchedulerFlags =
  sf_stopped :: bool
  sf_schedulingPaused :: bool
  sf_cronEnabled :: bool
  sf_restartRecoveryPending :: bool

text \<open>The tick takes the runnable jobs and marks them, or does the maintenance that is allowed to advance
  expired times. \<open>dueCheckNow\<close>, \<open>now\<close> and \<open>later\<close> are readings of the clock; the store is
  written before the jobs run, and \<open>stoppedMeanwhile\<close> says that the scheduler was stopped during
  the write: then the marks are taken back.\<close>

definition reserve_due_jobs ::
  "'c CronHost \<Rightarrow> SchedulerFlags \<Rightarrow> bool \<Rightarrow> CronServiceState \<Rightarrow> int \<Rightarrow> int \<Rightarrow> int \<Rightarrow>
     CronJob list \<times> CronServiceState \<times> CronEffect list" where
  "reserve_due_jobs host flags stoppedMeanwhile state dueCheckNow now later =
     (let runnable = isRunnableJob host (cs_config state) dueCheckNow tick_options;
          due = collectRunnableJobs host state dueCheckNow tick_options;
          mark = (\<lambda>n. map (\<lambda>job. if runnable job then set_running n job else job)
            (coalesce (cs_store state) []))
      in if sf_stopped flags \<or> sf_restartRecoveryPending flags then ([], state, [])
         else if due = []
         then (let (changed, state, effects) = recomputeNextRunsForMaintenance host
                     \<lparr>mo_recomputeExpired = True, mo_repairFutureCronNextRunAtMs = True\<rparr> state dueCheckNow
               in ([], state, effects))
         else if stoppedMeanwhile
         then (let (changed, state, effects) = recomputeNextRunsForMaintenance host maintenance_defaults
                     (state\<lparr>cs_store := Some (mark None)\<rparr>) later
               in ([], state, effects))
         else (map (set_running (Some now)) due, state\<lparr>cs_store := Some (mark (Some now))\<rparr>, []))"

text \<open>A timed outcome: the snapshot that ran, the result and the evaluation of its trigger.\<close>

record TimedCronRunOutcome =
  to_jobId :: string
  to_job :: CronJob
  to_result :: CronRunResult
  to_triggerEval :: "TriggerEval option"

text \<open>The first job with the id is updated in place.\<close>

fun update_first :: "string \<Rightarrow> (CronJob \<Rightarrow> CronJob) \<Rightarrow> CronJob list \<Rightarrow> CronJob list" where
  "update_first i f [] = []"
| "update_first i f (j # js) = (if jb_id j = i then f j # js else j # update_first i f js)"

definition quiet_tick :: "TimedCronRunOutcome \<Rightarrow> TriggerEval option" where
  "quiet_tick outcome =
     (case to_triggerEval outcome of
        Some ev \<Rightarrow> if rr_status (to_result outcome) = RunOk \<and> \<not> te_fired ev then Some ev else None
      | None \<Rightarrow> None)"

text \<open>A job that was removed while it ran: its success is reported, the store is left alone.\<close>

definition finish_removed_job ::
  "'c CronHost \<Rightarrow> CronConfig \<Rightarrow> int \<Rightarrow> TimedCronRunOutcome \<Rightarrow> CronEffect list" where
  "finish_removed_job host config clock outcome =
     (let result = to_result outcome
      in if quiet_tick outcome = None \<and> rr_status result = RunOk
         then (case applyJobResult host config clock (to_job outcome) result no_options of
                 (_, job, effects) \<Rightarrow> effects @ [JobFinished (jb_id job) (rr_status result)])
         else [])"

text \<open>The job after its run, whether it is deleted, and the effects.\<close>

definition finish_stored_job ::
  "'c CronHost \<Rightarrow> CronConfig \<Rightarrow> int \<Rightarrow> TimedCronRunOutcome \<Rightarrow> CronJob \<Rightarrow> bool \<times> CronJob \<times> CronEffect list" where
  "finish_stored_job host config clock outcome job =
     (let result = to_result outcome
      in case quiet_tick outcome of
           Some ev \<Rightarrow>
             (case applyTriggerNoFireResult host config job (rr_endedAt result) ev of
                (job, effects) \<Rightarrow> (False, job, effects))
         | None \<Rightarrow>
             (case applyJobResult host config clock job result no_options of
                (shouldDelete, job, effects) \<Rightarrow>
                  (shouldDelete,
                   applyTriggerRunResult job (rr_status result) (rr_endedAt result) (to_triggerEval outcome),
                   effects @ [JobFinished (jb_id job) (rr_status result)])))"

definition applyOutcomeToStoredJob ::
  "'c CronHost \<Rightarrow> CronServiceState \<Rightarrow> int \<Rightarrow> TimedCronRunOutcome \<Rightarrow>
     CronJob option \<times> CronServiceState \<times> CronEffect list" where
  "applyOutcomeToStoredJob host state clock outcome =
     (case cs_store state of
        None \<Rightarrow> (None, state, [])
      | Some jobs \<Rightarrow>
         (case List.find (\<lambda>j. jb_id j = to_jobId outcome) jobs of
            None \<Rightarrow> (None, state, finish_removed_job host (cs_config state) clock outcome)
          | Some job \<Rightarrow>
             (case finish_stored_job host (cs_config state) clock outcome job of
                (shouldDelete, job', effects) \<Rightarrow>
                  (if shouldDelete then Some job' else None,
                   state\<lparr>cs_pendingCatchupDeferralJobIds :=
                           removeAll (jb_id job) (cs_pendingCatchupDeferralJobIds state),
                         cs_store := Some (if shouldDelete then filter (\<lambda>j. jb_id j \<noteq> jb_id job) jobs
                           else update_first (jb_id job) (\<lambda>_. job') jobs)\<rparr>,
                   effects))))"

section \<open>Arming the timer\<close>

text \<open>The delay of the timer that is set, or that none is.\<close>

definition armCronTimer :: "SchedulerFlags \<Rightarrow> CronServiceState \<Rightarrow> int \<Rightarrow> int option" where
  "armCronTimer flags state now =
     (if sf_stopped flags \<or> sf_schedulingPaused flags then None
      else if \<not> sf_cronEnabled flags then None
      else if sf_restartRecoveryPending flags then None
      else (case nextWakeAtMs state of
        None \<Rightarrow>
          if filter (\<lambda>j. jb_enabled j = Some True) (coalesce (cs_store state) []) \<noteq> []
          then Some MAX_TIMER_DELAY_MS else None
      | Some nextAt \<Rightarrow>
          let delay = max (nextAt - now) 0;
              flooredDelay = (if delay = 0 then MIN_REFIRE_GAP_MS else delay)
          in Some (min flooredDelay MAX_TIMER_DELAY_MS)))"

section \<open>Catching up after a restart\<close>

definition backoff_slot_missed :: "'c CronHost \<Rightarrow> CronConfig \<Rightarrow> int \<Rightarrow> string list \<Rightarrow> CronJob \<Rightarrow> int option" where
  "backoff_slot_missed host config nowMs skipJobIds job =
     (if \<not> isJobEnabled job \<or> \<not> is_cron job \<or> jb_id job \<in> set skipJobIds \<or>
         st_runningAtMs (jb_state job) \<noteq> None
      then None
      else (case resolveJobErrorBackoffUntilMs job (backoff_schedule config) of
        None \<Rightarrow> None
      | Some backoffUntilMs \<Rightarrow>
          if backoffUntilMs \<le> nowMs then None
          else if missed_slot host job nowMs then Some backoffUntilMs else None))"

definition deferPendingBackoffMissedCronSlots ::
  "'c CronHost \<Rightarrow> CronServiceState \<Rightarrow> int \<Rightarrow> string list \<Rightarrow> bool \<times> CronServiceState" where
  "deferPendingBackoffMissedCronSlots host state nowMs skipJobIds =
     (case cs_store state of
        None \<Rightarrow> (False, state)
      | Some jobs \<Rightarrow>
          let slot = backoff_slot_missed host (cs_config state) nowMs skipJobIds;
              changed = list_ex (\<lambda>job. slot job \<noteq> None \<and> st_nextRunAtMs (jb_state job) \<noteq> slot job) jobs
          in (changed, state\<lparr>cs_store := Some (map (\<lambda>job. case slot job of
                Some t \<Rightarrow> set_next (Some t) job | None \<Rightarrow> job) jobs)\<rparr>))"

record StartupOptions =
  so_skipJobIds :: "string list"
  so_deferAgentTurnJobs :: bool
  so_maxMissedJobsPerRestart :: "int option"
  so_deferredAgentDelayMs :: "int option"

record StartupPlan =
  sp_candidates :: "CronJob list"
  sp_deferredJobs :: "(string \<times> int option) list"

definition by_next_run :: "CronJob \<Rightarrow> CronJob \<Rightarrow> int" where
  "by_next_run a b = coalesce (st_nextRunAtMs (jb_state a)) 0 - coalesce (st_nextRunAtMs (jb_state b)) 0"

definition planStartupCatchup ::
  "'c CronHost \<Rightarrow> SchedulerFlags \<Rightarrow> CronServiceState \<Rightarrow> int \<Rightarrow> StartupOptions \<Rightarrow>
     StartupPlan \<times> CronServiceState" where
  "planStartupCatchup host flags state now opts =
     (if sf_stopped flags \<or> cs_store state = None then (\<lparr>sp_candidates = [], sp_deferredJobs = []\<rparr>, state)
      else
        let maxImmediate = nat (max 0 (coalesce (so_maxMissedJobsPerRestart opts) 5));
            state = snd (deferPendingBackoffMissedCronSlots host state now (so_skipJobIds opts));
            missed = collectRunnableJobs host state now
              \<lparr>ro_skipJobIds = so_skipJobIds opts, ro_skipAtIfAlreadyRan = True,
               ro_allowCronMissedRunByLastRun = True\<rparr>
        in if missed = [] then (\<lparr>sp_candidates = [], sp_deferredJobs = []\<rparr>, state)
           else
             let sorted = js_toSorted by_next_run missed;
                 deferredAgentJobs = (if so_deferAgentTurnJobs opts then filter is_agent_turn sorted else []);
                 startupEligible = (if so_deferAgentTurnJobs opts
                   then filter (\<lambda>job. \<not> is_agent_turn job) sorted else sorted);
                 startupCandidates = take maxImmediate startupEligible;
                 deferredOverflow = drop maxImmediate startupEligible;
                 delay = max 0 (coalesce (so_deferredAgentDelayMs opts) (2 * 60000));
                 deferred = map (\<lambda>job. (jb_id job, None)) deferredOverflow @
                   map (\<lambda>job. (jb_id job, Some delay)) deferredAgentJobs;
                 reserve = (\<lambda>job. if jb_id job \<in> set (map jb_id startupCandidates)
                   then job\<lparr>jb_state := (jb_state job)\<lparr>st_runningAtMs := Some now, st_lastError := None\<rparr>\<rparr>
                   else job)
             in (\<lparr>sp_candidates = map reserve startupCandidates, sp_deferredJobs = deferred\<rparr>,
                 state\<lparr>cs_store := Some (map reserve (coalesce (cs_store state) []))\<rparr>))"

text \<open>The deferred jobs get times that are \<open>staggerMs\<close> apart.\<close>

fun defer_jobs :: "int \<Rightarrow> int \<Rightarrow> int \<Rightarrow> (string \<times> int option) list \<Rightarrow> CronServiceState \<Rightarrow> CronServiceState" where
  "defer_jobs baseNow staggerMs offset [] state = state"
| "defer_jobs baseNow staggerMs offset ((jobId, delayMs) # deferred) state =
     (case List.find (\<lambda>j. jb_id j = jobId) (coalesce (cs_store state) []) of
        None \<Rightarrow> defer_jobs baseNow staggerMs offset deferred state
      | Some job \<Rightarrow>
          if \<not> isJobEnabled job then defer_jobs baseNow staggerMs offset deferred state
          else
            let nextRunAtMs = (case delayMs of
                  Some d \<Rightarrow> baseNow + d + offset - staggerMs | None \<Rightarrow> baseNow + offset);
                state = state\<lparr>cs_store := Some (update_first jobId (set_next (Some nextRunAtMs))
                    (coalesce (cs_store state) [])),
                  cs_pendingCatchupDeferralJobIds := set_add (cs_pendingCatchupDeferralJobIds state) jobId\<rparr>
            in defer_jobs baseNow staggerMs (offset + staggerMs) deferred state)"

section \<open>No job runs twice at once, or before its delay\<close>

text \<open>A tick that hands out jobs takes all that are runnable, and the marks exclude them from the next.\<close>

lemma reserved_once:
  assumes "reserve_due_jobs host flags stopped state dueCheckNow now later = (due, state', effects)" "due \<noteq> []"
  shows "collectRunnableJobs host state' dueCheckNow tick_options = [] \<and>
    map jb_id due = map jb_id (collectRunnableJobs host state dueCheckNow tick_options)"
proof -
  have marked: "\<not> isRunnableJob host config t opts (set_running (Some n) job)" for config t opts n job
    by (simp add: isRunnableJob_def Let_def)
  let ?run = "isRunnableJob host (cs_config state) dueCheckNow tick_options"
  have "due = map (set_running (Some now)) (collectRunnableJobs host state dueCheckNow tick_options)"
    "state' = state\<lparr>cs_store := Some (map (\<lambda>job. if ?run job then set_running (Some now) job else job)
       (coalesce (cs_store state) []))\<rparr>"
    using assms by (simp_all add: reserve_due_jobs_def Let_def split: if_splits prod.splits)
  with marked show ?thesis by (auto simp: collectRunnableJobs_def filter_empty_conv)
qed

lemma natural_backoff:
  assumes "natural_next host opts previous g t job = (n, job', effects)"
  shows "resolveJobErrorBackoffUntilMs (set_next m job') s = resolveJobErrorBackoffUntilMs job s"
    "one_shot (set_next m job') = one_shot job"
    "resolveJobLastRunStatus (set_next m job') = resolveJobLastRunStatus job"
  using natural_keeps [OF assms]
  by (simp_all add: one_shot_def resolveJobLastRunStatus_def resolveJobErrorBackoffUntilMs_def split: option.split)

text \<open>C13: A recurring job that failed is not run again, on a tick or at a restart, before its error delay
  has passed since the end of that run: every path that picks jobs checks the delay, also when a
  retry is scheduled earlier.\<close>

theorem failed_job_waits:
  assumes "applyJobResult host config clock job result opts = (deleted, job', effects)"
    and "rr_status result = RunError" "rr_startedAt result \<le> rr_endedAt result"
    and "isJobEnabled job" "\<not> one_shot job" "0 \<le> coalesce (st_consecutiveErrors (jb_state job)) 0"
    and "isRunnableJob host config now options job'"
  shows "rr_endedAt result + error_delay config job \<le> now"
proof -
  let ?b = "booked config clock job result opts"
  let ?errs = "coalesce (st_consecutiveErrors (jb_state job)) 0"
  have j: "job' = fst (finish_failed host config result opts (st_lastRunAtMs (jb_state job)) ?errs ?b)"
    using failed_job(1) [OF assms(5,2,4), where config = config and clock = clock and opts = opts and host = host]
      assms(1) by simp
  obtain a where b: "after_errors (record_outcome job result) (?errs + 1) a ?b"
    using failed_job(2) [OF assms(5,2,4)] by blast
  obtain n j0 e where nat: "natural_next host opts (st_lastRunAtMs (jb_state job))
      (rd_retryable (resolveTransientCronRetryDecision config (rr_error result)
         (st_lastErrorReason (jb_state ?b)) (st_consecutiveErrors (jb_state ?b))) \<or> 0 < ?errs)
      (rr_endedAt result) ?b = (n, j0, e)"
    by (metis prod_cases3)
  have "\<exists>m. job' = set_next m j0" unfolding j finish_failed_def Let_def nat prod.case fst_conv
    by (rule exI, rule refl)
  then obtain m where m: "job' = set_next m j0" ..
  note kept = natural_backoff [OF nat, of m, folded m]
  have "resolveJobErrorBackoffUntilMs ?b s =
      Some (rr_startedAt result + max 0 (max 0 (rr_endedAt result - rr_startedAt result)) +
        errorBackoffMs (max 1 (?errs + 1)) s)" for s
    using b assms(2) by (simp add: after_errors_def resolveJobErrorBackoffUntilMs_def resolveJobLastRunStatus_def
        record_outcome_def)
  then have until: "resolveJobErrorBackoffUntilMs job' (backoff_schedule config) =
      Some (rr_endedAt result + error_delay config job)"
    using assms(3,6) by (simp add: kept error_delay_def)
  have "resolveJobLastRunStatus ?b = Some RunError"
    using b assms(2) by (simp add: after_errors_def resolveJobLastRunStatus_def record_outcome_def)
  then have "\<not> one_shot job'" "resolveJobLastRunStatus job' = Some RunError"
    using assms(5) by (simp_all add: kept booked_kind)
  with assms(7) until show ?thesis
    by (auto simp: isRunnableJob_def isErrorBackoffPending_def Let_def split: if_splits)
qed

section \<open>The timer\<close>

text \<open>C31: The scheduler does not sleep through a run: while it is active and an enabled job has a time,
  the timer is set, for at most a minute, and never past the earliest of these times; a time that
  has already passed is rechecked after two seconds, so that the timer does not spin.\<close>

theorem timer_wakes_in_time:
  assumes "\<not> sf_stopped flags" "\<not> sf_schedulingPaused flags" "sf_cronEnabled flags"
    and "\<not> sf_restartRecoveryPending flags" "wake_times state \<noteq> {}"
  shows "\<exists>delay. armCronTimer flags state now = Some delay \<and> 0 < delay \<and> delay \<le> 60000 \<and>
    (if now < Min (wake_times state) then now + delay \<le> Min (wake_times state) else delay = 2000)"
  using assms by (auto simp: armCronTimer_def next_wake_earliest Let_def MIN_REFIRE_GAP_MS_def MAX_TIMER_DELAY_MS_def)

section \<open>Catching up\<close>

lemma mset_partition:
  "mset (map f (filter (\<lambda>x. \<not> P x) xs)) + mset (map f (filter P xs)) = mset (map f xs)"
  by (induction xs) auto

lemma mset_take_drop: "mset (map f (take n xs)) + mset (map f (drop n xs)) = mset (map f xs)"
  by (metis append_take_drop_id map_append mset_append)


section \<open>Applications\<close>

abbreviation hourly_interval :: CronSchedule where
  "hourly_interval \<equiv> EverySchedule (UNumber (Fin 3600000)) UOther"

abbreviation active :: SchedulerFlags where
  "active \<equiv> \<lparr>sf_stopped = False, sf_schedulingPaused = False, sf_cronEnabled = True,
    sf_restartRecoveryPending = False\<rparr>"

abbreviation sample_service :: "CronJob list \<Rightarrow> CronServiceState" where
  "sample_service jobs \<equiv> \<lparr>cs_config = plain_config, cs_store = Some jobs, cs_pendingCatchupDeferralJobIds = []\<rparr>"

theorem timer_wakes_in_time_witness:
  "\<exists>delay. armCronTimer active
     (sample_service [sample_job hourly_interval (plain_state\<lparr>st_nextRunAtMs := Some 5000\<rparr>)]) 1000 = Some delay \<and>
     0 < delay \<and> 1000 + delay \<le> 5000"
proof -
  let ?s = "sample_service [sample_job hourly_interval (plain_state\<lparr>st_nextRunAtMs := Some 5000\<rparr>)]"
  have "wake_times ?s = {5000}" by (auto simp: wake_times_def)
  with timer_wakes_in_time [of active ?s 1000] show ?thesis by auto
qed


theorem failed_job_waits_witness:
  "32000 \<le> (40000 :: int) \<and> isRunnableJob minute_host plain_config 40000 tick_options
     (fst (snd (applyJobResult minute_host plain_config 0 (sample_job (OnExitSchedule ''make'' None) plain_state)
        \<lparr>rr_status = RunError, rr_error = None, rr_errorReason = None, rr_startedAt = 1000, rr_endedAt = 2000\<rparr>
        no_options)))"
proof -
  let ?job = "sample_job (OnExitSchedule ''make'' None) plain_state"
  let ?r = "\<lparr>rr_status = RunError, rr_error = None, rr_errorReason = None, rr_startedAt = 1000, rr_endedAt = 2000\<rparr>"
  obtain d j e where a: "applyJobResult minute_host plain_config 0 ?job ?r no_options = (d, j, e)"
    by (metis prod_cases3)
  have run: "isRunnableJob minute_host plain_config 40000 tick_options
      (fst (snd (applyJobResult minute_host plain_config 0 ?job ?r no_options)))" by code_simp
  have "error_delay plain_config ?job = 30000" by code_simp
  moreover have "\<not> one_shot ?job" by (simp add: one_shot_def)
  ultimately have "2000 + 30000 \<le> (40000 :: int)"
    using failed_job_waits [OF a, of 40000 tick_options] run by (simp add: a plain_state_def)
  with run show ?thesis by simp
qed

end
