(* ===== verification/Spec2Isabelle.thy ===== *)
theory Spec2Isabelle
  imports JS_Prelude JS_Number String_Normalization Channel_Gating Ingress_Types Ingress_Allowlist
    Ingress_Decision Ingress_Identity Ingress_State Ingress_Runtime Work_Admission Number_Coercion
    Command_Queue Queue_Generations Task_Timeout Client_Ip Rate_Limit Auth_Rate_Limit Dedupe
    Memo_Cache Agent_Ids Session_Key_Text Session_Keys Session_Key_Build Route_Bindings
    Route_Resolution Route_Cache Bound_Accounts Retry ISO_Time Pairing_Tables Pairing_Store
    Pairing_Access Pairing_Guarantees Pairing_Ingress Number_Parsing
    Cron_Parse Cron_Schedule Cron_Jobs Cron_Retry_Hint Cron_Runs Cron_Ticks
begin

text \<open>
  A verification library for the gateway of a personal assistant written in TypeScript. The
  gateway receives messages from many chat channels, decides whether a sender may talk to the
  assistant, chooses the agent and the session that a message belongs to, queues the work in
  lanes, and schedules jobs. The library models the part of it that takes decisions and keeps
  state, and leaves aside what only moves data between processes, files and networks.

  \<^bold>\<open>Language.\<close> JS_Prelude, JS_Number, Number_Coercion, Number_Parsing, String_Normalization and
  ISO_Time give the meaning of the language operations the modelled files use, together with the helpers of
  \<^verbatim>\<open>src/packages/normalization-core/src\<close>. A string is a list of 8-bit code units. A value of
  unknown type is a \<open>js_value\<close>, or an \<open>unknown_value\<close> where only numbers and strings matter. A
  \<^verbatim>\<open>Map\<close> or plain object is an association list in insertion order with distinct keys
  (\<open>map_ok\<close>). A number that is tested or rounded is a rational, an infinity or NaN (\<open>jsnum\<close>);
  counters and timestamps are integers where the code only adds and compares whole numbers
  far below the precision of a double. A thrown error is the left part of a sum, a rejected
  promise the constructor \<open>Rejected\<close>. Asynchronous code is a function from state to state per
  uninterrupted stretch, and its interleavings are sequences of such steps.

  \<^bold>\<open>Channel ingress\<close> (\<^verbatim>\<open>src/src/channels/message-access\<close>). Ingress_Types holds the data of
  \<^verbatim>\<open>types.ts\<close>; Ingress_Allowlist, Ingress_State and Ingress_Identity resolve allow lists,
  access groups and the identity of the sender (\<^verbatim>\<open>allowlist.ts\<close>, \<^verbatim>\<open>state.ts\<close>,
  \<^verbatim>\<open>runtime-identity.ts\<close>); Ingress_Decision is the gate graph of \<^verbatim>\<open>sender-gates.ts\<close> and
  \<^verbatim>\<open>decision.ts\<close>; Ingress_Runtime is the resolver of \<^verbatim>\<open>runtime.ts\<close> that channels call;
  Channel_Gating has the command and mention gates. The lemmas refine the gate graph to a
  specification without gate objects and derive who can be dispatched: direct senders, group
  senders, control commands, and when a pairing challenge is offered. The channel plugins'
  callbacks are function fields.

  \<^bold>\<open>Pairing\<close> (\<^verbatim>\<open>src/src/pairing\<close>). Pairing_Tables has the keys and the two SQLite tables with
  reading, writing and transactions, and the round trip through them. Pairing_Store has the
  operations: request, approve, list, add, remove, and the challenge sent to a stranger.
  Pairing_Access gives the effect of every operation on a desk, one channel of the tables, and
  lifts invariants of desks to all histories through the locale \<open>desk_machine\<close>.
  Pairing_Guarantees states the properties, and Pairing_Ingress connects the store with the
  ingress: who is admitted on the strength of the store was granted access in its history.

  \<^bold>\<open>Routing and sessions\<close> (\<^verbatim>\<open>src/src/routing\<close>, \<^verbatim>\<open>src/src/sessions\<close>). Agent_Ids normalises agent
  and account ids; Session_Key_Text, Session_Keys and Session_Key_Build are the canonical form,
  the parsers and the builders of session keys; Route_Bindings, Route_Resolution, Route_Cache and
  Bound_Accounts choose the agent and session of a message from the configured bindings. The
  lemmas show that conversations do not share sessions, that keys read back, that the indexed
  search equals a linear one, and that the caches change nothing. Memo_Cache is the interface of
  all in-process caches, with its two eviction policies.

  \<^bold>\<open>Work\<close> (\<^verbatim>\<open>src/src/process\<close>). Work_Admission is the admission of root work with restart fence,
  drain and suspension; Command_Queue the lanes with priorities, generations, clearing and
  waiting, Queue_Generations what a reset does to running tasks, Task_Timeout the race of one
  task against its timers. The lemmas are invariants over all reachable states, among them that
  no waiter is forgotten, no entry is lost or settled twice, and no slot stays free.

  \<^bold>\<open>Limits and retries.\<close> Client_Ip (\<^verbatim>\<open>src/src/gateway/net.ts\<close>) decides whose address is believed;
  Rate_Limit and Auth_Rate_Limit are the fixed windows and the limiter of failed logins; Dedupe
  the duplicate caches; Retry the retry scheduler of \<^verbatim>\<open>src/packages/retry\<close>.

  \<^bold>\<open>Cron\<close> (\<^verbatim>\<open>src/src/cron\<close>). Cron_Parse reads absolute times (\<^verbatim>\<open>parse.ts\<close>); Cron_Schedule has the
  next and previous run of a schedule with the cache of compiled expressions and the default
  stagger (\<^verbatim>\<open>schedule.ts\<close>, \<^verbatim>\<open>stagger.ts\<close>); Cron_Jobs the scheduling half of
  \<^verbatim>\<open>service/jobs.ts\<close>, from the offset of a job to the passes over the store; Cron_Retry_Hint and
  Cron_Runs what a finished run does to its job (\<^verbatim>\<open>retry-hint.ts\<close>, \<^verbatim>\<open>failure-alerts.ts\<close>,
  \<open>applyJobResult\<close> and the triggers in \<^verbatim>\<open>service/timer.ts\<close>); Cron_Ticks the decisions of the
  timer and of the catch-up after a restart. The cache is an instance of the locale of Memo_Cache,
  so every later theory computes without it. \<open>schedule_slots\<close> states the contract of the
  expression package: it returns the first and the last firing time around a whole second. Under
  it a job runs at its next staggered slot and stored slots are recognised exactly. Without any
  assumption, due runs survive maintenance, failed jobs wait for their delay, failing one-shot jobs
  end, and a restart forgets no missed run. Creating, patching and storing jobs, running payloads
  and delivering results are not modelled.

  \<^bold>\<open>Bounds and fuel.\<close> Recursion is structural or has a measure, so no result depends on a choice
  of fuel. Where the code itself bounds a loop, the bound is the code's: five hundred attempts at a
  pairing code, the configured attempts of a retry, the size limits of the caches, the
  four attempts at a staggered slot (under the contract of the expression package the first
  succeeds, as the proofs show).
  Timer delays and dates carry the platform limits as explicit bounds.

  \<^bold>\<open>Parameters.\<close> Code outside the repository and services of the platform are arguments: address
  parsing, \<^verbatim>\<open>localeCompare\<close>, \<^verbatim>\<open>Date.parse\<close> of text other than the program's own
  timestamps, random draws, clocks, hash functions, channel plugins, and, in the record
  \<open>CronHost\<close>, the cron expression package, the default time zone and SHA-256.
  No law is assumed of them unless a statement names it.

  \<^bold>\<open>Not modelled.\<close> Model calls and tool execution, the WebSocket and HTTP servers, outbound
  delivery, configuration loading, plugin discovery, media and memory search, the user interfaces
  and the native apps: they are orchestration of I/O or rest on third-party packages. Inside the
  modelled files, log lines, test hooks, the migration of state left by an older module version,
  Unicode case mapping and slugs are left out; decimal numbers are read exactly, without the
  rounding to a double.
\<close>

end
